(* ===== verification/GG_Prelude.thy ===== *)
theory GG_Prelude
  imports Main "HOL-Library.Word"
begin

text \<open>
  Shared vocabulary of the development: the machine integers of the C sources, the
  result codes of \<^verbatim>\<open>xp/common/gg_results.h\<close>, memory copies into byte arrays, and the
  generic list and word lemmas the component theories use.

  Conventions. A byte array is a \<open>u8 list\<close>; a pointer into an array is an offset from the
  start of that array. A \<open>size_t\<close> is a \<open>nat\<close>; where the C expression can go below zero the
  difference is computed in \<open>int\<close> and cast back with \<open>size_t_of\<close>, which wraps modulo
  \<open>2 ^ 64\<close> as the C cast does. A failing \<open>GG_ASSERT\<close> stops the program: functions whose
  assertion can be violated by a caller return \<open>None\<close> in that case.
\<close>

unbundle bit_operations_syntax

named_theorems gg_defs \<open>definitions of small operations, unfolded by the component proofs\<close>
named_theorems gg_inv \<open>preservation facts of the component invariants\<close>

section \<open>Machine types and result codes\<close>

type_synonym u8 = "8 word"
type_synonym u16 = "16 word"
type_synonym u32 = "32 word"
type_synonym bytes = "u8 list"

datatype GG_Result =
    GG_SUCCESS
  | GG_ERROR_OUT_OF_MEMORY
  | GG_ERROR_OUT_OF_RESOURCES
  | GG_ERROR_INVALID_PARAMETERS
  | GG_ERROR_INVALID_STATE
  | GG_ERROR_OUT_OF_RANGE
  | GG_ERROR_INVALID_SYNTAX
  | GG_ERROR_NOT_SUPPORTED
  | GG_ERROR_INVALID_FORMAT
  | GG_ERROR_NOT_ENOUGH_SPACE
  | GG_ERROR_NO_SUCH_ITEM
  | GG_ERROR_WOULD_BLOCK
  | GG_ERROR_TIMEOUT
  | GG_ERROR_NETWORK_UNREACHABLE
  | GG_ERROR_ADDRESS_IN_USE
  | GG_ERROR_INTERNAL
  | GG_ERROR_COAP_UNSUPPORTED_VERSION
  | GG_ERROR_COAP_RESET
  | GG_ERROR_COAP_UNEXPECTED_MESSAGE
  | GG_ERROR_COAP_SEND_FAILURE
  | GG_ERROR_COAP_UNEXPECTED_BLOCK
  | GG_ERROR_COAP_INVALID_RESPONSE
  | GG_ERROR_COAP_ETAG_MISMATCH
  | GG_ERROR_GATTLINK_UNEXPECTED_PSN
  | GG_ERROR_REMOTE_EXIT
  | GG_FAILURE
  | GG_COAP_RESULT nat

text \<open>
  A request handler or filter of the CoAP endpoint may return a positive number, which is a CoAP response code: this
  is \<open>GG_COAP_RESULT\<close>. All other codes are 0 (success) or negative.
\<close>

definition GG_SUCCEEDED :: "GG_Result \<Rightarrow> bool" where
  [simp]: "GG_SUCCEEDED r \<longleftrightarrow> r = GG_SUCCESS"

definition GG_FAILED :: "GG_Result \<Rightarrow> bool" where
  [simp]: "GG_FAILED r \<longleftrightarrow> r \<noteq> GG_SUCCESS"

text \<open>The cast of a pointer difference to \<^verbatim>\<open>size_t\<close>.\<close>

definition size_t_of :: "int \<Rightarrow> nat" where
  "size_t_of d = nat (d mod 2 ^ 64)"

lemma size_t_of_nonneg [simp]: "0 \<le> d \<Longrightarrow> d < 2 ^ 64 \<Longrightarrow> size_t_of d = nat d"
  by (simp add: size_t_of_def)

text \<open>A \<open>GG_ASSERT\<close> in the option monad: a failed assertion stops the program.\<close>

definition GG_ASSERT :: "bool \<Rightarrow> unit option" where
  "GG_ASSERT b = (if b then Some () else None)"

lemma GG_ASSERT_simps [simp]: "GG_ASSERT True = Some ()" "GG_ASSERT False = None"
  by (simp_all add: GG_ASSERT_def)

section \<open>Words as numbers\<close>

lemma unat_less_length: "unat (w :: 'a::len word) < 2 ^ LENGTH('a)"
  by (rule unsigned_less)

lemma unat_ucast_up:
  assumes "LENGTH('a) \<le> LENGTH('b)"
  shows "unat (ucast (w :: 'a::len word) :: 'b::len word) = unat w"
proof -
  have "unat w < 2 ^ LENGTH('b)"
    using unat_less_length [of w] power_increasing [OF assms, of "2::nat"] by linarith
  then show ?thesis by (simp add: unsigned_ucast_eq take_bit_nat_eq_self)
qed

section \<open>Byte arrays\<close>

text \<open>
  \<open>memcpy_at mem off src\<close> is \<^verbatim>\<open>memcpy(&mem[off], src, n)\<close> for a source of \<open>n\<close> bytes. A copy
  that would run past the end of the array makes the list longer, so that an invariant
  fixing the length of the array also says that no copy leaves it.
\<close>

definition memcpy_at :: "'a list \<Rightarrow> nat \<Rightarrow> 'a list \<Rightarrow> 'a list" where
  "memcpy_at mem off src = take off mem @ src @ drop (off + length src) mem"

lemma length_memcpy_at [simp]:
  "off + length src \<le> length mem \<Longrightarrow> length (memcpy_at mem off src) = length mem"
  by (simp add: memcpy_at_def)

lemma memcpy_at_Nil [simp]: "memcpy_at mem off [] = mem"
  by (simp add: memcpy_at_def)

lemma nth_memcpy_at:
  assumes "off + length src \<le> length mem" and "i < length mem"
  shows "memcpy_at mem off src ! i =
    (if off \<le> i \<and> i < off + length src then src ! (i - off) else mem ! i)"
  using assms by (auto simp: memcpy_at_def nth_append min_def)

lemma take_memcpy_at:
  "n \<le> off \<Longrightarrow> off \<le> length mem \<Longrightarrow> take n (memcpy_at mem off src) = take n mem"
  by (simp add: memcpy_at_def)

lemma drop_memcpy_at:
  "off + length src \<le> n \<Longrightarrow> off + length src \<le> length mem \<Longrightarrow>
    drop n (memcpy_at mem off src) = drop n mem"
  by (simp add: memcpy_at_def)

lemma take_drop_append:
  "n \<le> m \<Longrightarrow> take n xs @ take (m - n) (drop n xs) = take m xs"
  by (metis le_add_diff_inverse take_add)

text \<open>A run of a list, \<open>len\<close> elements from \<open>off\<close>: the bytes a \<^verbatim>\<open>memcpy\<close> reads.\<close>

definition subarray :: "'a list \<Rightarrow> nat \<Rightarrow> nat \<Rightarrow> 'a list" where
  "subarray xs off len = take len (drop off xs)"

lemma length_subarray [simp]: "off + len \<le> length xs \<Longrightarrow> length (subarray xs off len) = len"
  by (simp add: subarray_def)

lemma nth_subarray: "i < len \<Longrightarrow> off + len \<le> length xs \<Longrightarrow> subarray xs off len ! i = xs ! (off + i)"
  by (simp add: subarray_def)

lemma subarray_0 [simp]: "subarray xs off 0 = []"
  by (simp add: subarray_def)

end
