(* ===== verification/Timer.thy ===== *)
theory Timer
  imports GG_Prelude
begin

text \<open>
  The timer scheduler of \<^verbatim>\<open>xp/common/gg_timer.c\<close>. A scheduler owns a fixed pool of timers; each
  is on exactly one of three linked lists: \<open>nursery\<close> (free), \<open>frozen\<close> (created, not scheduled)
  or \<open>scheduled\<close>, which is kept in firing order. A timer is named by its index in the pool, a
  listener by a number, and a linked list of nodes by the list of the indices it links.
  Times are 32-bit and wrap, as in the code.
\<close>

section \<open>State\<close>

definition GG_CONFIG_MAX_TIMERS :: nat where
  "GG_CONFIG_MAX_TIMERS = 32"

definition GG_TIMER_NEVER :: u32 where
  "GG_TIMER_NEVER = - 1"

record GG_Timer =
  listener :: "nat option"
  start_time :: u32
  fire_time :: u32

record GG_TimerScheduler =
  timers :: "nat \<Rightarrow> GG_Timer"
  scheduled :: "nat list"
  frozen :: "nat list"
  nursery :: "nat list"
  now :: u32

text \<open>\<^verbatim>\<open>GG_LINKED_LIST_NODE_REMOVE\<close>: unlink a timer from whichever list holds it.\<close>

definition node_remove :: "nat \<Rightarrow> GG_TimerScheduler \<Rightarrow> GG_TimerScheduler" where
  "node_remove t s = s\<lparr>scheduled := removeAll t (scheduled s), frozen := removeAll t (frozen s),
     nursery := removeAll t (nursery s)\<rparr>"

definition set_timer :: "nat \<Rightarrow> GG_Timer \<Rightarrow> GG_TimerScheduler \<Rightarrow> GG_TimerScheduler" where
  "set_timer t tm s = s\<lparr>timers := (timers s)(t := tm)\<rparr>"

section \<open>Operations\<close>

definition GG_TimerScheduler_Create :: GG_TimerScheduler where
  "GG_TimerScheduler_Create =
     \<lparr>timers = (\<lambda>_. \<lparr>listener = None, start_time = 0, fire_time = 0\<rparr>),
      scheduled = [], frozen = [], nursery = [0..<GG_CONFIG_MAX_TIMERS], now = 0\<rparr>"

definition GG_TimerScheduler_CreateTimer ::
  "GG_TimerScheduler \<Rightarrow> GG_Result \<times> nat option \<times> GG_TimerScheduler" where
  "GG_TimerScheduler_CreateTimer s =
     (case nursery s of
        [] \<Rightarrow> (GG_ERROR_OUT_OF_RESOURCES, None, s)
      | t # _ \<Rightarrow>
          let s = node_remove t s;
              s = s\<lparr>frozen := frozen s @ [t]\<rparr>
          in (GG_SUCCESS, Some t, set_timer t \<lparr>listener = None, start_time = 0, fire_time = 0\<rparr> s))"

definition GG_Timer_Destroy :: "nat option \<Rightarrow> GG_TimerScheduler \<Rightarrow> GG_TimerScheduler" where
  "GG_Timer_Destroy self s =
     (case self of
        None \<Rightarrow> s
      | Some t \<Rightarrow>
          let s = set_timer t \<lparr>listener = None, start_time = 0, fire_time = 0\<rparr> s;
              s = node_remove t s
          in s\<lparr>nursery := nursery s @ [t]\<rparr>)"

text \<open>
  The search of \<^verbatim>\<open>GG_Timer_Schedule\<close>: link the timer before the first one that fires strictly
  later, or last.
\<close>

fun insert_scheduled :: "(nat \<Rightarrow> GG_Timer) \<Rightarrow> nat \<Rightarrow> nat list \<Rightarrow> nat list" where
  "insert_scheduled tm t [] = [t]"
| "insert_scheduled tm t (x # xs) =
     (if fire_time (tm t) < fire_time (tm x) then t # x # xs else x # insert_scheduled tm t xs)"

definition GG_Timer_Schedule ::
  "nat \<Rightarrow> nat option \<Rightarrow> u32 \<Rightarrow> GG_TimerScheduler \<Rightarrow> GG_Result \<times> GG_TimerScheduler" where
  "GG_Timer_Schedule t lst ms_from_now s =
     (case lst of
        None \<Rightarrow> (GG_ERROR_INVALID_PARAMETERS, s)
      | Some l \<Rightarrow>
          let s = node_remove t s;
              s = set_timer t \<lparr>listener = Some l, start_time = now s, fire_time = now s + ms_from_now\<rparr> s
          in (GG_SUCCESS, s\<lparr>scheduled := insert_scheduled (timers s) t (scheduled s)\<rparr>))"

definition GG_Timer_IsScheduled :: "nat \<Rightarrow> GG_TimerScheduler \<Rightarrow> bool" where
  "GG_Timer_IsScheduled t s \<longleftrightarrow> listener (timers s t) \<noteq> None"

definition GG_Timer_Unschedule :: "nat \<Rightarrow> GG_TimerScheduler \<Rightarrow> GG_TimerScheduler" where
  "GG_Timer_Unschedule t s =
     (if listener (timers s t) = None then s
      else
        let s = node_remove t s;
            s = s\<lparr>frozen := t # frozen s\<rparr>
        in set_timer t ((timers s t)\<lparr>listener := None\<rparr>) s)"

definition GG_Timer_GetRemainingTime :: "nat \<Rightarrow> GG_TimerScheduler \<Rightarrow> u32" where
  "GG_Timer_GetRemainingTime t s =
     (if \<not> GG_Timer_IsScheduled t s then 0
      else if fire_time (timers s t) > now s then fire_time (timers s t) - now s else 0)"

definition GG_TimerScheduler_GetTime :: "GG_TimerScheduler \<Rightarrow> u32" where
  "GG_TimerScheduler_GetTime s = now s"

definition GG_TimerScheduler_GetNextScheduledTime :: "GG_TimerScheduler \<Rightarrow> u32" where
  "GG_TimerScheduler_GetNextScheduledTime s =
     (case scheduled s of
        [] \<Rightarrow> GG_TIMER_NEVER
      | t # _ \<Rightarrow> if fire_time (timers s t) \<ge> now s then fire_time (timers s t) - now s else 0)"

text \<open>
  The loop of \<^verbatim>\<open>GG_TimerScheduler_SetTime\<close>. \<open>OnTimerFired l t elapsed\<close> is the call of listener
  \<open>l\<close>, which may use the scheduler and an environment of its own. The loop may not end (a
  listener can reschedule its timer for the current time for ever): the outer \<open>None\<close> is "does
  not return", the inner \<open>None\<close> a failed assertion.
\<close>

type_synonym 'e listeners =
  "nat \<Rightarrow> nat \<Rightarrow> u32 \<Rightarrow> GG_TimerScheduler \<times> 'e \<Rightarrow> GG_TimerScheduler \<times> 'e"

partial_function (option) fire_timers ::
  "'e listeners \<Rightarrow> u32 \<Rightarrow> GG_TimerScheduler \<times> 'e \<Rightarrow> (GG_TimerScheduler \<times> 'e) option option" where
  "fire_timers OnTimerFired n st =
     (case scheduled (fst st) of
        [] \<Rightarrow> Some (Some st)
      | t # _ \<Rightarrow>
          if fire_time (timers (fst st) t) > n then Some (Some st)
          else (case listener (timers (fst st) t) of
                  None \<Rightarrow> Some None
                | Some l \<Rightarrow>
                    if start_time (timers (fst st) t) \<le> n
                    then fire_timers OnTimerFired n
                           (OnTimerFired l t (n - start_time (timers (fst st) t))
                             (GG_Timer_Unschedule t (fst st), snd st))
                    else Some None))"

definition GG_TimerScheduler_SetTime ::
  "'e listeners \<Rightarrow> u32 \<Rightarrow> GG_TimerScheduler \<times> 'e \<Rightarrow> (GG_TimerScheduler \<times> 'e) option option" where
  "GG_TimerScheduler_SetTime OnTimerFired n st =
     fire_timers OnTimerFired n ((fst st)\<lparr>now := n\<rparr>, snd st)"

section \<open>Invariant\<close>

definition deadline_sorted :: "(nat \<Rightarrow> GG_Timer) \<Rightarrow> nat list \<Rightarrow> bool" where
  "deadline_sorted tm ts \<longleftrightarrow> sorted (map (\<lambda>t. fire_time (tm t)) ts)"

definition timer_invar :: "GG_TimerScheduler \<Rightarrow> bool" where
  "timer_invar s \<longleftrightarrow>
     distinct (scheduled s @ frozen s @ nursery s) \<and>
     set (scheduled s @ frozen s @ nursery s) = {0..<GG_CONFIG_MAX_TIMERS} \<and>
     deadline_sorted (timers s) (scheduled s) \<and>
     (\<forall>t < GG_CONFIG_MAX_TIMERS. listener (timers s t) \<noteq> None \<longleftrightarrow> t \<in> set (scheduled s))"

lemma set_insert_scheduled [simp]: "set (insert_scheduled tm t xs) = insert t (set xs)"
  by (induction xs) auto

lemma distinct_insert_scheduled [simp]:
  "distinct (insert_scheduled tm t xs) \<longleftrightarrow> t \<notin> set xs \<and> distinct xs"
  by (induction xs) auto

lemma deadline_sorted_insert [simp]:
  "deadline_sorted tm xs \<Longrightarrow> deadline_sorted tm (insert_scheduled tm t xs)"
  unfolding deadline_sorted_def by (induction xs) auto

lemma deadline_sorted_upd [simp]:
  assumes "t \<notin> set xs"
  shows "deadline_sorted (tm(t := v)) xs \<longleftrightarrow> deadline_sorted tm xs"
proof -
  have "map (\<lambda>x. fire_time ((tm(t := v)) x)) xs = map (\<lambda>x. fire_time (tm x)) xs"
    using assms by auto
  then show ?thesis by (simp only: deadline_sorted_def)
qed

lemma deadline_sorted_removeAll [simp]: "deadline_sorted tm xs \<Longrightarrow> deadline_sorted tm (removeAll t xs)"
  by (simp add: deadline_sorted_def removeAll_filter_not_eq sorted_filter)

lemma deadline_sorted_Cons:
  "deadline_sorted tm (t # ts) \<longleftrightarrow>
    (\<forall>x \<in> set ts. fire_time (tm t) \<le> fire_time (tm x)) \<and> deadline_sorted tm ts"
  by (auto simp: deadline_sorted_def)

lemma deadline_sorted_Nil [simp]: "deadline_sorted tm []"
  by (simp add: deadline_sorted_def)

lemmas timer_defs = timer_invar_def node_remove_def set_timer_def distinct_removeAll Let_def

lemma Create_invar: "timer_invar GG_TimerScheduler_Create"
  by (simp add: timer_invar_def GG_TimerScheduler_Create_def)

lemma CreateTimer_invar:
  assumes inv: "timer_invar s"
  shows "timer_invar (snd (snd (GG_TimerScheduler_CreateTimer s)))"
proof (cases "nursery s")
  case Nil
  with inv show ?thesis by (simp add: GG_TimerScheduler_CreateTimer_def)
next
  case (Cons t ts)
  have t: "t \<notin> set (scheduled s)" "t < GG_CONFIG_MAX_TIMERS"
    using inv Cons by (auto simp: timer_invar_def)
  then show ?thesis
    using inv Cons by (auto simp: GG_TimerScheduler_CreateTimer_def timer_defs)
qed

lemma Destroy_invar:
  "timer_invar s \<Longrightarrow> t < GG_CONFIG_MAX_TIMERS \<Longrightarrow> timer_invar (GG_Timer_Destroy (Some t) s)"
  by (auto simp: GG_Timer_Destroy_def timer_defs)

lemma Unschedule_invar:
  "timer_invar s \<Longrightarrow> t < GG_CONFIG_MAX_TIMERS \<Longrightarrow> timer_invar (GG_Timer_Unschedule t s)"
  by (auto simp: GG_Timer_Unschedule_def timer_defs)

lemma Schedule_invar:
  "timer_invar s \<Longrightarrow> t < GG_CONFIG_MAX_TIMERS \<Longrightarrow> timer_invar (snd (GG_Timer_Schedule t l ms s))"
  by (cases l) (auto simp: GG_Timer_Schedule_def timer_defs)

lemma set_now_invar: "timer_invar s \<Longrightarrow> timer_invar (s\<lparr>now := n\<rparr>)"
  by (simp add: timer_invar_def)

section \<open>Firing\<close>

text \<open>Scheduled timers that are due at time \<open>n\<close>, and those that were started in its past.\<close>

definition due_timers :: "u32 \<Rightarrow> GG_TimerScheduler \<Rightarrow> nat list" where
  "due_timers n s = filter (\<lambda>t. fire_time (timers s t) \<le> n) (scheduled s)"

definition started_by :: "u32 \<Rightarrow> GG_TimerScheduler \<Rightarrow> bool" where
  "started_by n s \<longleftrightarrow> (\<forall>t \<in> set (scheduled s). start_time (timers s t) \<le> n)"

lemma scheduled_listener:
  assumes inv: "timer_invar s" and t: "t \<in> set (scheduled s)"
  shows "t < GG_CONFIG_MAX_TIMERS" and "listener (timers s t) \<noteq> None"
proof -
  show lt: "t < GG_CONFIG_MAX_TIMERS" using inv t by (auto simp: timer_invar_def)
  show "listener (timers s t) \<noteq> None"
    using inv t lt unfolding timer_invar_def by blast
qed

lemma due_timers_Nil:
  assumes "timer_invar s" and "scheduled s = t # ts" and "fire_time (timers s t) > n"
  shows "due_timers n s = []"
  using assms by (force simp: timer_invar_def deadline_sorted_Cons due_timers_def filter_empty_conv)

lemma Unschedule_head:
  assumes inv: "timer_invar s" and hd: "scheduled s = t # ts"
  shows "t < GG_CONFIG_MAX_TIMERS" "listener (timers s t) \<noteq> None"
    and "scheduled (GG_Timer_Unschedule t s) = ts"
    and "x \<in> set ts \<Longrightarrow> timers (GG_Timer_Unschedule t s) x = timers s x"
    and "now (GG_Timer_Unschedule t s) = now s"
proof -
  show t: "t < GG_CONFIG_MAX_TIMERS" "listener (timers s t) \<noteq> None"
    using scheduled_listener [OF inv] hd by auto
  have nt: "t \<notin> set ts" using inv hd by (auto simp: timer_invar_def)
  show "scheduled (GG_Timer_Unschedule t s) = ts"
    and "x \<in> set ts \<Longrightarrow> timers (GG_Timer_Unschedule t s) x = timers s x"
    and "now (GG_Timer_Unschedule t s) = now s"
    using t hd nt by (auto simp: GG_Timer_Unschedule_def timer_defs)
qed

lemma Unschedule_head_due:
  assumes inv: "timer_invar s" and hd: "scheduled s = t # ts" and n: "fire_time (timers s t) \<le> n"
  shows "due_timers n s = t # due_timers n (GG_Timer_Unschedule t s)"
    and "started_by n s \<Longrightarrow> started_by n (GG_Timer_Unschedule t s)"
  using Unschedule_head [OF inv hd] hd n
  by (auto simp: due_timers_def started_by_def cong: filter_cong)

text \<open>If some timer is due, the head of the scheduled list is the first of them.\<close>

lemma due_head:
  assumes inv: "timer_invar s" and due: "due_timers n s = t # ts"
  obtains xs where "scheduled s = t # xs" "fire_time (timers s t) \<le> n"
    "due_timers n (GG_Timer_Unschedule t s) = ts"
proof -
  obtain x xs where hd: "scheduled s = x # xs"
    using due by (cases "scheduled s") (auto simp: due_timers_def)
  have le: "fire_time (timers s x) \<le> n"
    using due_timers_Nil [OF inv hd, of n] due by fastforce
  then have "x = t" "due_timers n (GG_Timer_Unschedule t s) = ts"
    using due Unschedule_head_due(1) [OF inv hd le] by auto
  with hd le that show thesis by simp
qed

text \<open>One turn of the loop, in the states the invariant allows.\<close>

lemma fire_timers_step:
  assumes inv: "timer_invar s" and st: "started_by n s"
  shows "due_timers n s = [] \<Longrightarrow> fire_timers f n (s, e) = Some (Some (s, e))"
    and "due_timers n s = t # ts \<Longrightarrow> \<exists>l. listener (timers s t) = Some l \<and>
      fire_timers f n (s, e) =
        fire_timers f n (f l t (n - start_time (timers s t)) (GG_Timer_Unschedule t s, e))"
proof -
  show "fire_timers f n (s, e) = Some (Some (s, e))" if "due_timers n s = []"
    using that by (subst fire_timers.simps) (auto simp: due_timers_def split: list.splits if_splits)
  show "\<exists>l. listener (timers s t) = Some l \<and>
      fire_timers f n (s, e) =
        fire_timers f n (f l t (n - start_time (timers s t)) (GG_Timer_Unschedule t s, e))"
    if due: "due_timers n s = t # ts"
  proof -
    obtain xs where hd: "scheduled s = t # xs" and le: "fire_time (timers s t) \<le> n"
      by (rule due_head [OF inv due])
    moreover obtain l where "listener (timers s t) = Some l"
      using Unschedule_head(2) [OF inv hd] by auto
    ultimately show ?thesis
      using hd le st by (subst fire_timers.simps) (auto simp: started_by_def)
  qed
qed

text \<open>
  What a listener must keep for the loop to end: the invariant, and not to make more timers
  due at the current time than there were.
\<close>

definition well_behaved :: "'e listeners \<Rightarrow> u32 \<Rightarrow> bool" where
  "well_behaved f n \<longleftrightarrow> (\<forall>l t el s e. timer_invar s \<longrightarrow> started_by n s \<longrightarrow> now s = n \<longrightarrow>
     (let s' = fst (f l t el (s, e))
      in timer_invar s' \<and> started_by n s' \<and> now s' = n \<and>
         length (due_timers n s') \<le> length (due_timers n s)))"

lemma fire_timers_terminates:
  assumes wb: "well_behaved f n"
  shows "timer_invar s \<Longrightarrow> started_by n s \<Longrightarrow> now s = n \<Longrightarrow>
    \<exists>s' e'. fire_timers f n (s, e) = Some (Some (s', e')) \<and>
      timer_invar s' \<and> now s' = n \<and> started_by n s' \<and> due_timers n s' = []"
proof (induction "length (due_timers n s)" arbitrary: s e rule: less_induct)
  case less
  show ?case
  proof (cases "due_timers n s")
    case Nil
    with less.prems fire_timers_step(1) [of s n f e] show ?thesis by simp
  next
    case (Cons t ts)
    then obtain l where step: "fire_timers f n (s, e) =
        fire_timers f n (f l t (n - start_time (timers s t)) (GG_Timer_Unschedule t s, e))"
      using fire_timers_step(2) [OF less.prems(1,2) Cons, of f e] by blast
    obtain xs where hd: "scheduled s = t # xs" and le: "fire_time (timers s t) \<le> n"
      and ts: "due_timers n (GG_Timer_Unschedule t s) = ts"
      by (rule due_head [OF less.prems(1) Cons])
    have u: "timer_invar (GG_Timer_Unschedule t s)" "started_by n (GG_Timer_Unschedule t s)"
      "now (GG_Timer_Unschedule t s) = n"
      using Unschedule_invar Unschedule_head(1,5) [OF less.prems(1) hd] Unschedule_head_due(2)
        [OF less.prems(1) hd le] less.prems by auto
    obtain s1 e1 where f1: "f l t (n - start_time (timers s t)) (GG_Timer_Unschedule t s, e) = (s1, e1)"
      by fastforce
    have "timer_invar s1 \<and> started_by n s1 \<and> now s1 = n \<and> length (due_timers n s1) \<le> length ts"
      using wb u f1 ts unfolding well_behaved_def Let_def by (metis fst_conv)
    then show ?thesis using less.hyps [of s1 e1] Cons step f1 by auto
  qed
qed

text \<open>Listeners that only record that they were called.\<close>

definition record_fired :: "(nat \<times> nat \<times> u32) list listeners" where
  "record_fired l t el st = (fst st, snd st @ [(l, t, el)])"

lemma record_fired_well_behaved: "well_behaved record_fired n"
  by (simp add: well_behaved_def record_fired_def)

lemma fire_timers_record:
  "timer_invar s \<Longrightarrow> started_by n s \<Longrightarrow>
    \<exists>s'. fire_timers record_fired n (s, e) = Some (Some (s', e @
        map (\<lambda>t. (the (listener (timers s t)), t, n - start_time (timers s t))) (due_timers n s))) \<and>
      scheduled s' = filter (\<lambda>t. n < fire_time (timers s t)) (scheduled s)"
proof (induction "due_timers n s" arbitrary: s e)
  case Nil
  then have "\<forall>t \<in> set (scheduled s). n < fire_time (timers s t)"
    by (metis due_timers_def filter_empty_conv not_le)
  then have "filter (\<lambda>t. n < fire_time (timers s t)) (scheduled s) = scheduled s" by simp
  with Nil fire_timers_step(1) [of s n record_fired e] show ?case by simp
next
  case (Cons t ts)
  note inv = Cons.prems(1) and st = Cons.prems(2)
  let ?s1 = "GG_Timer_Unschedule t s"
  let ?e1 = "e @ [(the (listener (timers s t)), t, n - start_time (timers s t))]"
  obtain xs where hd: "scheduled s = t # xs" and le: "fire_time (timers s t) \<le> n"
    and ts: "due_timers n ?s1 = ts"
    by (rule due_head [OF inv Cons.hyps(2) [symmetric]])
  have u: "timer_invar ?s1" "started_by n ?s1"
    using Unschedule_invar Unschedule_head(1) [OF inv hd] Unschedule_head_due(2) [OF inv hd le] inv st
    by auto
  have same: "timers ?s1 y = timers s y" if "y \<in> set xs" for y
    using Unschedule_head(4) [OF inv hd that] .
  have sub: "set ts \<subseteq> set xs"
    using ts Unschedule_head(3) [OF inv hd] by (auto simp: due_timers_def)
  have step: "fire_timers record_fired n (s, e) = fire_timers record_fired n (?s1, ?e1)"
    using fire_timers_step(2) [OF inv st Cons.hyps(2) [symmetric], of record_fired e]
    by (auto simp: record_fired_def)
  obtain s' where s': "fire_timers record_fired n (?s1, ?e1) = Some (Some (s', ?e1 @
        map (\<lambda>t. (the (listener (timers ?s1 t)), t, n - start_time (timers ?s1 t))) ts))"
    "scheduled s' = filter (\<lambda>t. n < fire_time (timers ?s1 t)) (scheduled ?s1)"
    using Cons.hyps(1) [OF ts [symmetric] u, of ?e1] unfolding ts by blast
  have m: "map (\<lambda>t. (the (listener (timers ?s1 t)), t, n - start_time (timers ?s1 t))) ts =
      map (\<lambda>t. (the (listener (timers s t)), t, n - start_time (timers s t))) ts"
    using same sub by auto
  have "filter (\<lambda>t. n < fire_time (timers ?s1 t)) xs = filter (\<lambda>t. n < fire_time (timers s t)) xs"
    using same by (auto cong: filter_cong)
  with s' m step show ?case
    using hd le Unschedule_head(3) [OF inv hd] Cons.hyps(2) [symmetric] by (simp add: not_less)
qed

section \<open>Time until the next timer\<close>

lemma word_diff_le_mono: "a \<le> b \<Longrightarrow> c \<le> a \<Longrightarrow> a - c \<le> b - (c :: 'a::len word)"
  by (simp add: word_le_nat_alt unat_sub order_trans)

lemma GetNextScheduledTime_le:
  assumes inv: "timer_invar s" and t: "t \<in> set (scheduled s)"
  shows "GG_TimerScheduler_GetNextScheduledTime s \<le> GG_Timer_GetRemainingTime t s"
proof -
  obtain x xs where hd: "scheduled s = x # xs" using t by (cases "scheduled s") auto
  have "listener (timers s t) \<noteq> None" by (rule scheduled_listener [OF inv t])
  moreover have "fire_time (timers s x) \<le> fire_time (timers s t)"
    using inv t hd by (auto simp: timer_invar_def deadline_sorted_Cons)
  ultimately show ?thesis
    using hd
    by (auto simp: GG_TimerScheduler_GetNextScheduledTime_def GG_Timer_GetRemainingTime_def
        GG_Timer_IsScheduled_def word_diff_le_mono)
qed

lemma GetNextScheduledTime_eq:
  assumes inv: "timer_invar s" and hd: "scheduled s = t # ts"
  shows "GG_TimerScheduler_GetNextScheduledTime s = GG_Timer_GetRemainingTime t s"
  using Unschedule_head(2) [OF inv hd] hd
  by (auto simp: GG_TimerScheduler_GetNextScheduledTime_def GG_Timer_GetRemainingTime_def
      GG_Timer_IsScheduled_def)

section \<open>Driving a scheduler\<close>

datatype timer_op =
    CreateTimer
  | Destroy nat
  | Schedule nat "nat option" u32
  | Unschedule nat
  | SetTime u32

fun timer_step :: "'e listeners \<Rightarrow> timer_op \<Rightarrow> GG_TimerScheduler \<times> 'e \<Rightarrow> (GG_TimerScheduler \<times> 'e) option option" where
  "timer_step f CreateTimer (s, e) = Some (Some (snd (snd (GG_TimerScheduler_CreateTimer s)), e))"
| "timer_step f (Destroy t) (s, e) = Some (Some (GG_Timer_Destroy (Some t) s, e))"
| "timer_step f (Schedule t l ms) (s, e) = Some (Some (snd (GG_Timer_Schedule t l ms s), e))"
| "timer_step f (Unschedule t) (s, e) = Some (Some (GG_Timer_Unschedule t s, e))"
| "timer_step f (SetTime n) (s, e) = GG_TimerScheduler_SetTime f n (s, e)"

fun timer_run :: "'e listeners \<Rightarrow> timer_op list \<Rightarrow> GG_TimerScheduler \<times> 'e \<Rightarrow> (GG_TimerScheduler \<times> 'e) option option" where
  "timer_run f [] st = Some (Some st)"
| "timer_run f (op # ops) st =
     (case timer_step f op st of
        None \<Rightarrow> None | Some None \<Rightarrow> Some None | Some (Some st) \<Rightarrow> timer_run f ops st)"

text \<open>The timers used are timers of the pool, and the clock does not go back.\<close>

fun valid_ops :: "u32 \<Rightarrow> timer_op list \<Rightarrow> bool" where
  "valid_ops n [] = True"
| "valid_ops n (op # ops) =
     (case op of
        CreateTimer \<Rightarrow> valid_ops n ops
      | Destroy t \<Rightarrow> t < GG_CONFIG_MAX_TIMERS \<and> valid_ops n ops
      | Schedule t _ _ \<Rightarrow> t < GG_CONFIG_MAX_TIMERS \<and> valid_ops n ops
      | Unschedule t \<Rightarrow> t < GG_CONFIG_MAX_TIMERS \<and> valid_ops n ops
      | SetTime m \<Rightarrow> n \<le> m \<and> valid_ops m ops)"

definition timer_ok :: "u32 \<Rightarrow> GG_TimerScheduler \<Rightarrow> bool" where
  "timer_ok n s \<longleftrightarrow> timer_invar s \<and> started_by n s \<and> now s = n"

lemma timer_ops_now [simp]:
  "now (snd (snd (GG_TimerScheduler_CreateTimer s))) = now s" "now (GG_Timer_Destroy t s) = now s"
  "now (snd (GG_Timer_Schedule x l ms s)) = now s" "now (GG_Timer_Unschedule x s) = now s"
  by (auto simp: GG_TimerScheduler_CreateTimer_def GG_Timer_Destroy_def GG_Timer_Schedule_def
      GG_Timer_Unschedule_def timer_defs split: list.splits option.splits)

lemma timer_ops_started:
  assumes "started_by (now s) s"
  shows "started_by (now s) (snd (snd (GG_TimerScheduler_CreateTimer s)))"
    "started_by (now s) (GG_Timer_Destroy t s)" "started_by (now s) (snd (GG_Timer_Schedule x l ms s))"
    "started_by (now s) (GG_Timer_Unschedule x s)"
  using assms
  by (auto simp: GG_TimerScheduler_CreateTimer_def GG_Timer_Destroy_def GG_Timer_Schedule_def
      GG_Timer_Unschedule_def timer_defs started_by_def split: list.splits option.splits)

lemma timer_ok_later: "timer_ok n s \<Longrightarrow> n \<le> m \<Longrightarrow> timer_ok m (s\<lparr>now := m\<rparr>)"
  using set_now_invar [of s m] by (force simp: timer_ok_def started_by_def)

lemma timer_step_ok:
  assumes ok: "timer_ok n s" and v: "valid_ops n (op # ops)" and wb: "\<And>m. well_behaved f m"
  shows "\<exists>s' e' m. timer_step f op (s, e) = Some (Some (s', e')) \<and> timer_ok m s' \<and> valid_ops m ops"
proof (cases op)
  case (SetTime m)
  have m: "timer_ok m (s\<lparr>now := m\<rparr>)" using timer_ok_later [OF ok] v SetTime by simp
  from fire_timers_terminates [OF wb, of "s\<lparr>now := m\<rparr>" m e] m obtain s' e' where
    f: "fire_timers f m (s\<lparr>now := m\<rparr>, e) = Some (Some (s', e'))" "timer_invar s'" "now s' = m" "started_by m s'"
    by (auto simp: timer_ok_def)
  with v SetTime show ?thesis by (auto simp: GG_TimerScheduler_SetTime_def timer_ok_def)
qed (use ok v timer_ops_started [of s] CreateTimer_invar [of s] Destroy_invar [of s] Schedule_invar [of s]
      Unschedule_invar [of s] in \<open>auto simp: timer_ok_def\<close>)

lemma timer_run_ok:
  assumes wb: "\<And>m. well_behaved f m"
  shows "timer_ok n s \<Longrightarrow> valid_ops n ops \<Longrightarrow>
    \<exists>s' e'. timer_run f ops (s, e) = Some (Some (s', e')) \<and> timer_invar s'"
proof (induction ops arbitrary: n s e)
  case (Cons op ops)
  from timer_step_ok [OF Cons.prems wb] obtain s1 e1 m where
    "timer_step f op (s, e) = Some (Some (s1, e1))" "timer_ok m s1" "valid_ops m ops" by blast
  with Cons.IH show ?case by simp
qed (auto simp: timer_ok_def)

section \<open>Properties\<close>

lemma length_pool:
  assumes "timer_invar s"
  shows "length (scheduled s) + length (frozen s) + length (nursery s) = 32"
proof -
  have "card (set (scheduled s @ frozen s @ nursery s)) = length (scheduled s @ frozen s @ nursery s)"
    using assms unfolding timer_invar_def by (blast intro: distinct_card)
  with assms show ?thesis by (simp add: timer_invar_def GG_CONFIG_MAX_TIMERS_def)
qed

lemma deadline_sorted_due: "timer_invar s \<Longrightarrow> deadline_sorted (timers s) (due_timers n s)"
  by (simp add: timer_invar_def deadline_sorted_def due_timers_def sorted_filter)

text \<open>C9: The scheduler never gets stuck and never loses a timer. Whatever sequence of calls a program
  makes on a new scheduler (create, destroy, schedule, unschedule, advance the clock), with timers of
  the pool, a clock that does not go back, and listeners that do not keep making timers due at the
  current time, every call returns, no assertion fails, and afterwards each of the 32 timers is on
  exactly one of the three lists, the scheduled list is in deadline order, and exactly the
  timers on it have a listener.\<close>

theorem timer_scheduler_run:
  assumes "\<forall>n. well_behaved f n" and "valid_ops 0 ops"
  shows "\<exists>s e'. timer_run f ops (GG_TimerScheduler_Create, e) = Some (Some (s, e')) \<and>
    distinct (scheduled s @ frozen s @ nursery s) \<and>
    set (scheduled s @ frozen s @ nursery s) = {0..<GG_CONFIG_MAX_TIMERS} \<and>
    sorted (map (\<lambda>t. fire_time (timers s t)) (scheduled s)) \<and>
    (\<forall>t < GG_CONFIG_MAX_TIMERS. GG_Timer_IsScheduled t s \<longleftrightarrow> t \<in> set (scheduled s))"
proof -
  have "timer_ok 0 GG_TimerScheduler_Create"
    using Create_invar by (simp add: timer_ok_def started_by_def GG_TimerScheduler_Create_def)
  from timer_run_ok [OF _ this assms(2), of f e] assms(1) show ?thesis
    by (auto simp: timer_invar_def deadline_sorted_def GG_Timer_IsScheduled_def)
qed

theorem timer_scheduler_run_witness:
  "\<exists>s e'. timer_run record_fired [CreateTimer, Schedule 0 (Some 7) 10, SetTime 5, Schedule 1 (Some 8) 20, SetTime 12]
      (GG_TimerScheduler_Create, []) = Some (Some (s, e')) \<and>
    sorted (map (\<lambda>t. fire_time (timers s t)) (scheduled s))"
proof -
  let ?ops = "[CreateTimer, Schedule 0 (Some 7) 10, SetTime 5, Schedule 1 (Some 8) 20, SetTime 12]"
  have "valid_ops 0 ?ops" by (simp add: GG_CONFIG_MAX_TIMERS_def)
  from timer_scheduler_run [of record_fired ?ops "[]", OF _ this] record_fired_well_behaved
  show ?thesis by blast
qed

text \<open>C10: Advancing the clock to \<open>n\<close> fires every timer that is due, and no other: the listeners of the
  scheduled timers with a deadline up to \<open>n\<close> are called, in the order of their deadlines, each with the
  time since it was scheduled; the timers with a later deadline stay scheduled, in their order.
  (For listeners that do not touch the scheduler, so that what is due is known in advance.)\<close>

theorem timer_set_time_fires_due:
  assumes "timer_invar s" and "started_by n s"
  shows "\<exists>s'. GG_TimerScheduler_SetTime record_fired n (s, fired) = Some (Some (s', fired @
      map (\<lambda>t. (the (listener (timers s t)), t, n - start_time (timers s t))) (due_timers n s))) \<and>
    scheduled s' = filter (\<lambda>t. n < fire_time (timers s t)) (scheduled s) \<and>
    sorted (map (\<lambda>t. fire_time (timers s t)) (due_timers n s))"
proof -
  have "timer_invar (s\<lparr>now := n\<rparr>)" "started_by n (s\<lparr>now := n\<rparr>)"
    using assms set_now_invar by (auto simp: started_by_def)
  from fire_timers_record [OF this, of fired] show ?thesis
    using deadline_sorted_due [OF assms(1)]
    by (auto simp: GG_TimerScheduler_SetTime_def due_timers_def deadline_sorted_def)
qed

definition example_scheduler :: GG_TimerScheduler where
  "example_scheduler = snd (GG_Timer_Schedule 1 (Some 8) 20 (snd (GG_Timer_Schedule 0 (Some 7) 30
     (GG_TimerScheduler_Create\<lparr>now := 100\<rparr>))))"

lemma example_scheduler_ok: "timer_invar example_scheduler" "started_by 125 example_scheduler"
proof -
  have "timer_invar (GG_TimerScheduler_Create\<lparr>now := 100\<rparr>)" by (rule set_now_invar [OF Create_invar])
  then show "timer_invar example_scheduler"
    unfolding example_scheduler_def by (intro Schedule_invar) (simp_all add: GG_CONFIG_MAX_TIMERS_def)
  show "started_by 125 example_scheduler"
    by (simp add: example_scheduler_def started_by_def GG_Timer_Schedule_def timer_defs GG_TimerScheduler_Create_def)
qed

theorem timer_set_time_fires_due_witness:
  "\<exists>s'. GG_TimerScheduler_SetTime record_fired 125 (example_scheduler, []) = Some (Some (s', [(8, 1, 25)])) \<and>
    scheduled s' = [0]"
  using timer_set_time_fires_due [OF example_scheduler_ok, of "[]"]
  by (simp add: example_scheduler_def due_timers_def GG_Timer_Schedule_def timer_defs GG_TimerScheduler_Create_def)

text \<open>\<open>GetNextScheduledTime\<close> is the time until the next timer: it is \<open>GG_TIMER_NEVER\<close> when no timer is
  scheduled; otherwise no scheduled timer has less remaining time, and some timer has exactly that.\<close>

lemma timer_next_scheduled_time:
  assumes "timer_invar s"
  shows "if scheduled s = [] then GG_TimerScheduler_GetNextScheduledTime s = GG_TIMER_NEVER
    else (\<forall>t \<in> set (scheduled s). GG_TimerScheduler_GetNextScheduledTime s \<le> GG_Timer_GetRemainingTime t s) \<and>
      (\<exists>t \<in> set (scheduled s). GG_TimerScheduler_GetNextScheduledTime s = GG_Timer_GetRemainingTime t s)"
proof (cases "scheduled s")
  case Nil
  then show ?thesis by (simp add: GG_TimerScheduler_GetNextScheduledTime_def)
next
  case (Cons t ts)
  with GetNextScheduledTime_le [OF assms] GetNextScheduledTime_eq [OF assms Cons] show ?thesis by auto
qed

lemma timer_next_scheduled_time_example:
  "scheduled example_scheduler = [1, 0] \<and>
   GG_TimerScheduler_GetNextScheduledTime example_scheduler \<le> GG_Timer_GetRemainingTime 0 example_scheduler \<and>
   GG_TimerScheduler_GetNextScheduledTime example_scheduler = 20"
proof -
  have s: "scheduled example_scheduler = [1, 0]"
    by (simp add: example_scheduler_def GG_Timer_Schedule_def timer_defs GG_TimerScheduler_Create_def)
  have n: "GG_TimerScheduler_GetNextScheduledTime example_scheduler = 20"
    unfolding GG_TimerScheduler_GetNextScheduledTime_def s
    by (simp add: example_scheduler_def GG_Timer_Schedule_def timer_defs GG_TimerScheduler_Create_def)
  from timer_next_scheduled_time [OF example_scheduler_ok(1)] s n show ?thesis by simp
qed

text \<open>The pool of timers: \<open>CreateTimer\<close> fails, with \<open>GG_ERROR_OUT_OF_RESOURCES\<close> and without any
  effect, exactly when all 32 timers are in use; otherwise it returns a timer that nobody uses, which
  is then in use and not scheduled. Destroying any timer makes the next \<open>CreateTimer\<close> succeed.\<close>

lemma timer_create_pool:
  assumes "timer_invar s" and "GG_TimerScheduler_CreateTimer s = (r, t, s')"
  shows "(if length (scheduled s) + length (frozen s) = 32
      then r = GG_ERROR_OUT_OF_RESOURCES \<and> t = None \<and> s' = s
      else r = GG_SUCCESS \<and> (\<exists>x. t = Some x \<and> x < GG_CONFIG_MAX_TIMERS \<and> x \<notin> set (scheduled s @ frozen s) \<and>
        frozen s' = frozen s @ [x] \<and> scheduled s' = scheduled s \<and> \<not> GG_Timer_IsScheduled x s')) \<and>
    fst (GG_TimerScheduler_CreateTimer (GG_Timer_Destroy (Some u) s)) = GG_SUCCESS"
proof
  show "if length (scheduled s) + length (frozen s) = 32
    then r = GG_ERROR_OUT_OF_RESOURCES \<and> t = None \<and> s' = s
    else r = GG_SUCCESS \<and> (\<exists>x. t = Some x \<and> x < GG_CONFIG_MAX_TIMERS \<and> x \<notin> set (scheduled s @ frozen s) \<and>
      frozen s' = frozen s @ [x] \<and> scheduled s' = scheduled s \<and> \<not> GG_Timer_IsScheduled x s')"
  proof (cases "nursery s")
    case Nil
    with length_pool [OF assms(1)] assms(2) show ?thesis by (simp add: GG_TimerScheduler_CreateTimer_def)
  next
    case (Cons x xs)
    have x: "x \<notin> set (scheduled s)" "x \<notin> set (frozen s)" "x < GG_CONFIG_MAX_TIMERS"
      using assms(1) Cons by (auto simp: timer_invar_def)
    with Cons length_pool [OF assms(1)] assms(2) show ?thesis
      by (auto simp: GG_TimerScheduler_CreateTimer_def timer_defs GG_Timer_IsScheduled_def)
  qed
  show "fst (GG_TimerScheduler_CreateTimer (GG_Timer_Destroy (Some u) s)) = GG_SUCCESS"
    by (auto simp: GG_TimerScheduler_CreateTimer_def GG_Timer_Destroy_def timer_defs split: list.splits)
qed

lemma timer_create_pool_example:
  "fst (GG_TimerScheduler_CreateTimer example_scheduler) = GG_SUCCESS"
proof -
  obtain r t s' where c: "GG_TimerScheduler_CreateTimer example_scheduler = (r, t, s')" by (metis prod_cases3)
  have "length (scheduled example_scheduler) + length (frozen example_scheduler) = 2"
    by (simp add: example_scheduler_def GG_Timer_Schedule_def timer_defs GG_TimerScheduler_Create_def)
  with timer_create_pool [OF example_scheduler_ok(1) c] c show ?thesis by simp
qed

text \<open>C11: Scheduling a timer: it has the requested time remaining, except that a deadline beyond the
  32-bit range of the clock wraps, and such a timer has no time remaining: it is due at
  once. Other timers keep their listeners and deadlines. Unscheduling leaves no time remaining.\<close>

theorem timer_schedule_deadline:
  assumes "timer_invar s" and "t < GG_CONFIG_MAX_TIMERS" and "GG_Timer_Schedule t (Some l) ms s = (r, s')"
  shows "r = GG_SUCCESS \<and> GG_Timer_IsScheduled t s' \<and>
    (if unat (now s) + unat ms < 2 ^ 32 then GG_Timer_GetRemainingTime t s' = ms
     else GG_Timer_GetRemainingTime t s' = 0 \<and> t \<in> set (due_timers (now s') s')) \<and>
    (\<forall>u. u \<noteq> t \<longrightarrow> timers s' u = timers s u \<and> (u \<in> set (scheduled s') \<longleftrightarrow> u \<in> set (scheduled s))) \<and>
    GG_Timer_GetRemainingTime t (GG_Timer_Unschedule t s') = 0"
proof -
  have w: "if unat (now s) + unat ms < 2 ^ 32 then now s \<le> now s + ms
     else now s + ms < now s"
    using unat_less_length [of ms] unat_less_length [of "now s"]
    by (auto simp: word_le_nat_alt word_less_nat_alt unat_plus_if' not_less)
  have s': "s' = snd (GG_Timer_Schedule t (Some l) ms s)" "r = GG_SUCCESS"
    using assms(3) by (auto simp: GG_Timer_Schedule_def Let_def)
  have rem: "GG_Timer_GetRemainingTime t s' = (if now s < now s + ms then ms else 0)"
    and due: "t \<in> set (due_timers (now s') s') \<longleftrightarrow> now s + ms \<le> now s"
    by (simp_all add: s' GG_Timer_Schedule_def timer_defs GG_Timer_GetRemainingTime_def GG_Timer_IsScheduled_def
        due_timers_def)
  have "(if unat (now s) + unat ms < 2 ^ 32 then GG_Timer_GetRemainingTime t s' = ms
     else GG_Timer_GetRemainingTime t s' = 0 \<and> t \<in> set (due_timers (now s') s'))"
  proof (cases "unat (now s) + unat ms < 2 ^ 32")
    case True
    with w rem show ?thesis by (cases "ms = 0") (simp_all add: order_less_le)
  next
    case False
    with w have "now s + ms < now s" by (simp only: if_False)
    then have "\<not> now s < now s + ms" "now s + ms \<le> now s" by auto
    with False rem due show ?thesis by (simp only: if_False simp_thms)
  qed
  then show ?thesis
    by (auto simp: s' GG_Timer_Schedule_def timer_defs GG_Timer_GetRemainingTime_def GG_Timer_IsScheduled_def
        GG_Timer_Unschedule_def)
qed

theorem timer_schedule_deadline_witness:
  "GG_Timer_GetRemainingTime 3 (snd (GG_Timer_Schedule 3 (Some 9) 50 example_scheduler)) = 50"
proof -
  obtain r s' where c: "GG_Timer_Schedule 3 (Some 9) 50 example_scheduler = (r, s')" by fastforce
  have "now example_scheduler = 100"
    by (simp add: example_scheduler_def GG_Timer_Schedule_def timer_defs)
  with timer_schedule_deadline [OF example_scheduler_ok(1) _ c] c show ?thesis by (simp add: GG_CONFIG_MAX_TIMERS_def)
qed

end
