(* ===== verification/Byte_Order.thy ===== *)
theory Byte_Order
  imports GG_Prelude
begin

text \<open>
  The big-endian conversions of \<^verbatim>\<open>xp/common/gg_utils.c\<close>. A \<^verbatim>\<open>const uint8_t*\<close> argument that points
  into a buffer is the buffer and an offset; a function that fills a buffer yields the bytes.
\<close>

definition GG_BytesFromInt16Be :: "u16 \<Rightarrow> bytes" where
  "GG_BytesFromInt16Be value = [ucast (drop_bit 8 value AND 0xFF), ucast (value AND 0xFF)]"

definition GG_BytesFromInt32Be :: "u32 \<Rightarrow> bytes" where
  "GG_BytesFromInt32Be value =
     [ucast (drop_bit 24 value) AND 0xFF, ucast (drop_bit 16 value) AND 0xFF,
      ucast (drop_bit 8 value) AND 0xFF, ucast value AND 0xFF]"

definition GG_BytesToInt16Be :: "bytes \<Rightarrow> nat \<Rightarrow> u16" where
  "GG_BytesToInt16Be buffer off = push_bit 8 (ucast (buffer ! off)) OR ucast (buffer ! (off + 1))"

definition GG_BytesToInt32Be :: "bytes \<Rightarrow> nat \<Rightarrow> u32" where
  "GG_BytesToInt32Be buffer off =
     push_bit 24 (ucast (buffer ! off)) OR push_bit 16 (ucast (buffer ! (off + 1))) OR
     push_bit 8 (ucast (buffer ! (off + 2))) OR ucast (buffer ! (off + 3))"

lemma bit_and_FF [simp]: "bit ((w :: 'a::len word) AND 0xFF) i \<longleftrightarrow> i < 8 \<and> bit w i"
proof -
  have m: "(0xFF :: 'a word) = mask 8" by (simp add: mask_eq_exp_minus_1)
  show ?thesis unfolding m by (auto simp: bit_and_iff bit_mask_iff dest: bit_imp_le_length)
qed

lemma length_BytesFrom [simp]:
  "length (GG_BytesFromInt16Be v) = 2" "length (GG_BytesFromInt32Be w) = 4"
  by (simp_all add: GG_BytesFromInt16Be_def GG_BytesFromInt32Be_def)

text \<open>A word is put together from its bytes, and the bytes are those of the word.\<close>

lemma be16_of_bytes:
  "push_bit 8 (ucast (ucast (drop_bit 8 (v :: u16)) :: u8)) OR ucast (ucast v :: u8) = v"
  by (rule bit_word_eqI) (auto simp: bit_or_iff bit_push_bit_iff bit_ucast_iff bit_drop_bit_eq)

lemma bytes_of_be16:
  "ucast (drop_bit 8 (push_bit 8 (ucast (a :: u8)) OR ucast (b :: u8) :: u16)) = a"
  "ucast (push_bit 8 (ucast (a :: u8)) OR ucast (b :: u8) :: u16) = b"
  by (rule bit_word_eqI; auto simp: bit_or_iff bit_push_bit_iff bit_ucast_iff bit_drop_bit_eq
      dest: bit_imp_le_length)+

lemma be32_of_bytes:
  "push_bit 24 (ucast (ucast (drop_bit 24 (v :: u32)) AND 0xFF :: u8)) OR
   push_bit 16 (ucast (ucast (drop_bit 16 v) AND 0xFF :: u8)) OR
   push_bit 8 (ucast (ucast (drop_bit 8 v) AND 0xFF :: u8)) OR ucast (ucast v AND 0xFF :: u8) = v"
proof (rule bit_word_eqI)
  fix n assume "n < LENGTH(32)"
  then consider "n < 8" | "8 \<le> n" "n < 16" | "16 \<le> n" "n < 24" | "24 \<le> n" "n < 32" by fastforce
  then show "bit (push_bit 24 (ucast (ucast (drop_bit 24 (v :: u32)) AND 0xFF :: u8)) OR
      push_bit 16 (ucast (ucast (drop_bit 16 v) AND 0xFF :: u8)) OR
      push_bit 8 (ucast (ucast (drop_bit 8 v) AND 0xFF :: u8)) OR ucast (ucast v AND 0xFF :: u8) :: u32) n = bit v n"
    by cases (auto simp: bit_or_iff bit_push_bit_iff bit_ucast_iff bit_drop_bit_eq simp del: push_bit_and)
qed

lemma ucast_and_FF_u8 [simp]: "(w :: u8) AND 0xFF = w"
  by (rule bit_word_eqI) simp

lemma ucast_and_FF: "(ucast ((w :: u16) AND 0xFF) :: u8) = ucast w"
  by (rule bit_word_eqI) (auto simp: bit_ucast_iff)

lemma ToInt16Be_FromInt16Be:
  "GG_BytesToInt16Be (pre @ GG_BytesFromInt16Be v @ post) (length pre) = v"
  using be16_of_bytes [of v]
  by (simp add: GG_BytesToInt16Be_def GG_BytesFromInt16Be_def ucast_and_FF nth_append)

lemma ToInt32Be_FromInt32Be:
  "GG_BytesToInt32Be (pre @ GG_BytesFromInt32Be v @ post) (length pre) = v"
  using be32_of_bytes [of v]
  by (simp add: GG_BytesToInt32Be_def GG_BytesFromInt32Be_def nth_append)

lemma not_bit_u8 [simp]: "8 \<le> n \<Longrightarrow> \<not> bit (w :: u8) n"
  using bit_imp_le_length [of w n] by auto

lemma bytes_of_ToInt16Be:
  "ucast (drop_bit 8 (GG_BytesToInt16Be b off)) = b ! off" "ucast (GG_BytesToInt16Be b off) = b ! (off + 1)"
  unfolding GG_BytesToInt16Be_def by (rule bytes_of_be16)+

lemma FromInt32Be_ToInt32Be:
  "GG_BytesFromInt32Be (GG_BytesToInt32Be b off) = [b ! off, b ! (off + 1), b ! (off + 2), b ! (off + 3)]"
  unfolding GG_BytesFromInt32Be_def GG_BytesToInt32Be_def ucast_and_FF_u8
  by (auto intro!: bit_word_eqI simp: bit_or_iff bit_push_bit_iff bit_ucast_iff bit_drop_bit_eq)

end
