(* ===== verification/Codecs.thy ===== *)
theory Codecs
  imports Byte_Order
begin

text \<open>
  The codecs of \<^verbatim>\<open>xp/common/gg_utils.c\<close>: 64-bit and little-endian integers, hexadecimal, Base64 and
  protobuf varints. Characters are bytes. A \<^verbatim>\<open>char\<close> that is widened to \<^verbatim>\<open>int\<close> is signed or unsigned
  depending on the platform: where that matters it is a parameter. \<open>None\<close> is an access outside of an array.
\<close>

type_synonym u64 = "64 word"

section \<open>Integers\<close>

definition GG_BytesFromInt64Be :: "u64 \<Rightarrow> bytes" where
  "GG_BytesFromInt64Be value =
     [ucast (drop_bit 56 value) AND 0xFF, ucast (drop_bit 48 value) AND 0xFF,
      ucast (drop_bit 40 value) AND 0xFF, ucast (drop_bit 32 value) AND 0xFF,
      ucast (drop_bit 24 value) AND 0xFF, ucast (drop_bit 16 value) AND 0xFF,
      ucast (drop_bit 8 value) AND 0xFF, ucast value AND 0xFF]"

definition GG_BytesToInt64Be :: "bytes \<Rightarrow> u64" where
  "GG_BytesToInt64Be buffer =
     push_bit 56 (ucast (buffer ! 0)) OR push_bit 48 (ucast (buffer ! 1)) OR
     push_bit 40 (ucast (buffer ! 2)) OR push_bit 32 (ucast (buffer ! 3)) OR
     push_bit 24 (ucast (buffer ! 4)) OR push_bit 16 (ucast (buffer ! 5)) OR
     push_bit 8 (ucast (buffer ! 6)) OR ucast (buffer ! 7)"

definition GG_BytesFromInt16Le :: "u16 \<Rightarrow> bytes" where
  "GG_BytesFromInt16Le value = [ucast (value AND 0xFF), ucast (drop_bit 8 value AND 0xFF)]"

definition GG_BytesFromInt32Le :: "u32 \<Rightarrow> bytes" where
  "GG_BytesFromInt32Le value =
     [ucast value AND 0xFF, ucast (drop_bit 8 value) AND 0xFF,
      ucast (drop_bit 16 value) AND 0xFF, ucast (drop_bit 24 value) AND 0xFF]"

definition GG_BytesFromInt64Le :: "u64 \<Rightarrow> bytes" where
  "GG_BytesFromInt64Le value =
     [ucast value AND 0xFF, ucast (drop_bit 8 value) AND 0xFF,
      ucast (drop_bit 16 value) AND 0xFF, ucast (drop_bit 24 value) AND 0xFF,
      ucast (drop_bit 32 value) AND 0xFF, ucast (drop_bit 40 value) AND 0xFF,
      ucast (drop_bit 48 value) AND 0xFF, ucast (drop_bit 56 value) AND 0xFF]"

definition GG_BytesToInt16Le :: "bytes \<Rightarrow> u16" where
  "GG_BytesToInt16Le buffer = push_bit 8 (ucast (buffer ! 1)) OR ucast (buffer ! 0)"

definition GG_BytesToInt32Le :: "bytes \<Rightarrow> u32" where
  "GG_BytesToInt32Le buffer =
     push_bit 24 (ucast (buffer ! 3)) OR push_bit 16 (ucast (buffer ! 2)) OR
     push_bit 8 (ucast (buffer ! 1)) OR ucast (buffer ! 0)"

definition GG_BytesToInt64Le :: "bytes \<Rightarrow> u64" where
  "GG_BytesToInt64Le buffer =
     push_bit 56 (ucast (buffer ! 7)) OR push_bit 48 (ucast (buffer ! 6)) OR
     push_bit 40 (ucast (buffer ! 5)) OR push_bit 32 (ucast (buffer ! 4)) OR
     push_bit 24 (ucast (buffer ! 3)) OR push_bit 16 (ucast (buffer ! 2)) OR
     push_bit 8 (ucast (buffer ! 1)) OR ucast (buffer ! 0)"

section \<open>Hexadecimal\<close>

definition GG_NibbleToHex :: "nat \<Rightarrow> bool \<Rightarrow> u8" where
  "GG_NibbleToHex nibble uppercase =
     of_nat (if uppercase then (if nibble < 10 then 48 + nibble else 65 + (nibble - 10))
             else (if nibble < 10 then 48 + nibble else 97 + (nibble - 10)))"

definition GG_ByteToHex :: "u8 \<Rightarrow> bool \<Rightarrow> bytes" where
  "GG_ByteToHex b uppercase =
     [GG_NibbleToHex (unat (drop_bit 4 b AND 0x0F)) uppercase, GG_NibbleToHex (unat (b AND 0x0F)) uppercase]"

fun GG_BytesToHex :: "bytes \<Rightarrow> bool \<Rightarrow> bytes" where
  "GG_BytesToHex [] uppercase = []"
| "GG_BytesToHex (b # bs) uppercase = GG_ByteToHex b uppercase @ GG_BytesToHex bs uppercase"

definition GG_HexToNibble :: "u8 \<Rightarrow> int" where
  "GG_HexToNibble hex =
     (if hex \<ge> 97 \<and> hex \<le> 102 then (uint hex - 97) + 10
      else if hex \<ge> 65 \<and> hex \<le> 70 then (uint hex - 65) + 10
      else if hex \<ge> 48 \<and> hex \<le> 57 then uint hex - 48
      else - 1)"

definition GG_HexToByte :: "u8 \<Rightarrow> u8 \<Rightarrow> GG_Result + u8" where
  "GG_HexToByte h0 h1 =
     (let nibble_0 = GG_HexToNibble h0; nibble_1 = GG_HexToNibble h1
      in if nibble_0 < 0 \<or> nibble_1 < 0 then Inl GG_ERROR_INVALID_SYNTAX
         else Inr (word_of_int (push_bit 4 nibble_0 OR nibble_1)))"

fun hex_loop :: "bytes \<Rightarrow> GG_Result + bytes" where
  "hex_loop (h0 # h1 # hs) =
     (case GG_HexToByte h0 h1 of Inl r \<Rightarrow> Inl r | Inr b \<Rightarrow> map_sum id (Cons b) (hex_loop hs))"
| "hex_loop _ = Inr []"

text \<open>A length of 0 means that the text ends at its first null character.\<close>

definition GG_HexToBytes :: "bytes \<Rightarrow> nat \<Rightarrow> GG_Result + bytes" where
  "GG_HexToBytes hex hex_length =
     (let chars = (if hex_length = 0 then takeWhile (\<lambda>c. c \<noteq> 0) hex else take hex_length hex)
      in if length chars mod 2 \<noteq> 0 then Inl GG_ERROR_INVALID_PARAMETERS else hex_loop chars)"

section \<open>Varints\<close>

lemma unat_drop_7: "unat (drop_bit 7 (value :: u64)) = unat value div 128"
  by (simp add: drop_bit_eq_div unat_div)

lemma unat_drop_bit_7: "value > 127 \<Longrightarrow> unat (drop_bit 7 (value :: u64)) < unat value"
  by (simp add: unat_drop_7 word_less_nat_alt)

function varint_size_loop :: "u64 \<Rightarrow> nat \<Rightarrow> nat" where
  "varint_size_loop value sz = (if value > 127 then varint_size_loop (drop_bit 7 value) (sz + 1) else sz)"
  by pat_completeness auto
termination by (relation "measure (unat \<circ> fst)") (auto intro: unat_drop_bit_7)

declare varint_size_loop.simps [simp del]

definition GG_ProtobufVarintSize :: "u64 \<Rightarrow> nat" where
  "GG_ProtobufVarintSize value = varint_size_loop value 1"

lemma drop_bit_7_nonzero: "drop_bit 7 (value :: u64) \<noteq> 0 \<longleftrightarrow> value > 127"
proof -
  have "drop_bit 7 value = 0 \<longleftrightarrow> unat value div 128 = 0"
    by (metis unat_drop_7 unsigned_0 unsigned_word_eqI)
  then show ?thesis by (auto simp: word_less_nat_alt)
qed

function GG_EncodeProtobufVarint :: "u64 \<Rightarrow> bytes" where
  "GG_EncodeProtobufVarint value =
     (let b = ucast (value AND 0x7F);
          value = drop_bit 7 value
      in if value \<noteq> 0 then (b OR 0x80) # GG_EncodeProtobufVarint value else [b])"
  by pat_completeness auto
termination by (relation "measure unat") (auto simp: drop_bit_7_nonzero intro: unat_drop_bit_7)

declare GG_EncodeProtobufVarint.simps [simp del]

text \<open>The loop over the encoded bytes: \<open>x\<close> is the last byte read, \<open>sz\<close> the number of bytes read.\<close>

function varint_loop :: "bytes \<Rightarrow> u8 \<Rightarrow> nat \<Rightarrow> u64 \<Rightarrow> u8 \<times> nat \<times> u64" where
  "varint_loop encoded x sz value =
     (if sz < min 10 (length encoded) \<and> x AND 0x80 \<noteq> 0
      then let x = encoded ! sz
           in varint_loop encoded x (sz + 1) (value OR push_bit (sz * 7) (ucast (x AND 0x7F)))
      else (x, sz, value))"
  by pat_completeness auto
termination by (relation "measure (\<lambda>(e, _, s, _). 10 - s)") auto

declare varint_loop.simps [simp del]

definition GG_DecodeProtobufVarint :: "bytes \<Rightarrow> nat \<times> u64" where
  "GG_DecodeProtobufVarint encoded =
     (let (x, sz, value) = varint_loop encoded 0x80 0 0
      in (if x AND 0x80 \<noteq> 0 then 0 else sz, value))"

text \<open>Signed 64-bit integers are words read with \<open>sint\<close>.\<close>

definition GG_ProtobufSignedToZigZag :: "u64 \<Rightarrow> u64" where
  "GG_ProtobufSignedToZigZag value = push_bit 1 value XOR (if sint value < 0 then 0xFFFFFFFFFFFFFFFF else 0)"

definition GG_ProtobufSignedFromZigZag :: "u64 \<Rightarrow> u64" where
  "GG_ProtobufSignedFromZigZag value =
     (if value AND 1 \<noteq> 0 then - drop_bit 1 value - 1 else drop_bit 1 value)"

section \<open>Base64\<close>

definition GG_Base64_Bytes :: "int list" where
  "GG_Base64_Bytes =
     replicate 43 (-1) @ [0x3E, -1, 0x3E, -1, 0x3F,
     0x34, 0x35, 0x36, 0x37, 0x38, 0x39, 0x3A, 0x3B, 0x3C, 0x3D, -1, -1, -1, -1, -1, -1,
     -1, 0x00, 0x01, 0x02, 0x03, 0x04, 0x05, 0x06, 0x07, 0x08, 0x09, 0x0A, 0x0B, 0x0C, 0x0D, 0x0E,
     0x0F, 0x10, 0x11, 0x12, 0x13, 0x14, 0x15, 0x16, 0x17, 0x18, 0x19, -1, -1, -1, -1, 0x3F,
     -1, 0x1A, 0x1B, 0x1C, 0x1D, 0x1E, 0x1F, 0x20, 0x21, 0x22, 0x23, 0x24, 0x25, 0x26, 0x27, 0x28,
     0x29, 0x2A, 0x2B, 0x2C, 0x2D, 0x2E, 0x2F, 0x30, 0x31, 0x32, 0x33, -1, -1, -1, -1, -1]"

definition GG_Base64_Chars :: bytes where
  "GG_Base64_Chars = map of_char ''ABCDEFGHIJKLMNOPQRSTUVWXYZabcdefghijklmnopqrstuvwxyz0123456789+/''"

definition GG_BASE64_MAX_ENCODE_INPUT_SIZE :: nat where
  "GG_BASE64_MAX_ENCODE_INPUT_SIZE = 3 * ((2 ^ 64 - 1) div 4)"

definition base64_char :: "u8 \<Rightarrow> u8" where
  "base64_char v = GG_Base64_Chars ! unat v"

text \<open>The encoding loop and the tail.\<close>

fun base64_blocks :: "bytes \<Rightarrow> bytes" where
  "base64_blocks (a # b # c # input) =
     [base64_char (drop_bit 2 a AND 0x3F),
      base64_char (push_bit 4 (a AND 0x03) OR (drop_bit 4 b AND 0x0F)),
      base64_char (push_bit 2 (b AND 0x0F) OR (drop_bit 6 c AND 0x03)),
      base64_char (c AND 0x3F)] @ base64_blocks input"
| "base64_blocks [a, b] =
     [base64_char (drop_bit 2 a AND 0x3F),
      base64_char (push_bit 4 (a AND 0x03) OR (drop_bit 4 b AND 0x0F)),
      base64_char (push_bit 2 (b AND 0x0F)), 61]"
| "base64_blocks [a] =
     [base64_char (drop_bit 2 a AND 0x3F), base64_char (push_bit 4 (a AND 0x03)), 61, 61]"
| "base64_blocks [] = []"

definition url_safe_char :: "u8 \<Rightarrow> u8" where
  "url_safe_char c = (if c = 43 then 45 else if c = 47 then 95 else c)"

text \<open>The result, the value left in \<^verbatim>\<open>*output_size\<close>, and the characters written to the output.\<close>

definition GG_Base64_Encode :: "bytes \<Rightarrow> nat \<Rightarrow> bool \<Rightarrow> GG_Result \<times> nat \<times> bytes" where
  "GG_Base64_Encode input output_size url_safe =
     (if length input > GG_BASE64_MAX_ENCODE_INPUT_SIZE then (GG_ERROR_INVALID_PARAMETERS, output_size, [])
      else
        let blocks_needed = (length input + 2) div 3
        in if output_size div 4 < blocks_needed then (GG_ERROR_NOT_ENOUGH_SPACE, 4 * blocks_needed, [])
           else
             let output = base64_blocks input;
                 output = (if url_safe then map url_safe_char output else output)
             in (GG_SUCCESS, 4 * blocks_needed, output))"

definition char_value :: "bool \<Rightarrow> u8 \<Rightarrow> int" where
  "char_value char_is_signed b = (if char_is_signed then sint b else uint b)"

text \<open>The first pass: check the input and count the characters that carry data.\<close>

fun base64_check :: "bool \<Rightarrow> int list \<Rightarrow> nat \<Rightarrow> nat \<Rightarrow> (GG_Result + nat) option" where
  "base64_check url_safe [] padding char_count = Some (Inr char_count)"
| "base64_check url_safe (c # input) padding char_count =
     (if c = 13 \<or> c = 10 then base64_check url_safe input padding char_count
      else if c = 61 then
        if padding + 1 > 2 then Some (Inl GG_ERROR_INVALID_FORMAT)
        else base64_check url_safe input (padding + 1) char_count
      else if padding \<noteq> 0 then Some (Inl GG_ERROR_INVALID_FORMAT)
      else if url_safe \<and> (c = 43 \<or> c = 47) then Some (Inl GG_ERROR_INVALID_FORMAT)
      else if \<not> url_safe \<and> (c = 45 \<or> c = 95) then Some (Inl GG_ERROR_INVALID_FORMAT)
      else if c > 127 then Some (Inl GG_ERROR_INVALID_FORMAT)
      else if c < 0 then None
      else if GG_Base64_Bytes ! nat c < 0 then Some (Inl GG_ERROR_INVALID_FORMAT)
      else base64_check url_safe input padding (char_count + 1))"

text \<open>The second pass: collect six bits per character, write three bytes per four characters.\<close>

fun base64_decode_loop :: "int list \<Rightarrow> nat \<Rightarrow> u32 \<Rightarrow> bytes \<Rightarrow> nat \<times> u32 \<times> bytes" where
  "base64_decode_loop [] char_count accumulator output = (char_count, accumulator, output)"
| "base64_decode_loop (c # input) char_count accumulator output =
     (if c = 13 \<or> c = 10 then base64_decode_loop input char_count accumulator output
      else if c = 61 then (char_count, accumulator, output)
      else
        let accumulator = push_bit 6 accumulator OR word_of_int (GG_Base64_Bytes ! nat c);
            char_count = char_count + 1
        in base64_decode_loop input char_count accumulator
             (if char_count mod 4 = 0
              then output @ [ucast (drop_bit 16 accumulator), ucast (drop_bit 8 accumulator), ucast accumulator]
              else output))"

definition base64_tail :: "nat \<times> u32 \<times> bytes \<Rightarrow> bytes" where
  "base64_tail r =
     (let (char_count, accumulator, output) = r;
          tail = char_count mod 4
      in if tail = 3 then output @ [ucast (drop_bit 10 accumulator), ucast (drop_bit 2 accumulator)]
         else if tail \<ge> 2 then output @ [ucast (drop_bit 4 accumulator)]
         else output)"

definition base64_decoded_size :: "nat \<Rightarrow> nat" where
  "base64_decoded_size char_count =
     3 * (char_count div 4) + (if char_count mod 4 \<noteq> 0 then char_count mod 4 - 1 else 0)"

text \<open>As for the encoder; an input size of 0 means that the text ends at its first null character.\<close>

definition GG_Base64_Decode ::
  "bool \<Rightarrow> bytes \<Rightarrow> nat \<Rightarrow> nat \<Rightarrow> bool \<Rightarrow> (GG_Result \<times> nat \<times> bytes) option" where
  "GG_Base64_Decode char_is_signed input input_size buffer_size url_safe =
     (let chars = map (char_value char_is_signed)
            (if input_size = 0 then takeWhile (\<lambda>b. b \<noteq> 0) input else take input_size input)
      in case base64_check url_safe chars 0 0 of
           None \<Rightarrow> None
         | Some (Inl r) \<Rightarrow> Some (r, 0, [])
         | Some (Inr char_count) \<Rightarrow>
             Some (if char_count mod 4 = 1 then (GG_ERROR_INVALID_FORMAT, 0, [])
                   else
                     let output_size = base64_decoded_size char_count
                     in if buffer_size < output_size then (GG_ERROR_NOT_ENOUGH_SPACE, output_size, [])
                        else if output_size = 0 then (GG_SUCCESS, output_size, [])
                        else (GG_SUCCESS, output_size, base64_tail (base64_decode_loop chars 0 0 []))))"

section \<open>Properties of the integer and hexadecimal codecs\<close>

lemmas word_bits = bit_or_iff bit_push_bit_iff bit_ucast_iff bit_drop_bit_eq

lemma be64_of_bytes:
  "push_bit 56 (ucast (ucast (drop_bit 56 (v :: u64)) :: u8)) OR push_bit 48 (ucast (ucast (drop_bit 48 v) :: u8)) OR
   push_bit 40 (ucast (ucast (drop_bit 40 v) :: u8)) OR push_bit 32 (ucast (ucast (drop_bit 32 v) :: u8)) OR
   push_bit 24 (ucast (ucast (drop_bit 24 v) :: u8)) OR push_bit 16 (ucast (ucast (drop_bit 16 v) :: u8)) OR
   push_bit 8 (ucast (ucast (drop_bit 8 v) :: u8)) OR ucast (ucast v :: u8) = v" (is "?w = v")
proof (rule bit_word_eqI)
  fix n assume "n < LENGTH(64)"
  then consider "n < 8" | "8 \<le> n" "n < 16" | "16 \<le> n" "n < 24" | "24 \<le> n" "n < 32"
    | "32 \<le> n" "n < 40" | "40 \<le> n" "n < 48" | "48 \<le> n" "n < 56" | "56 \<le> n" "n < 64" by fastforce
  then show "bit ?w n = bit v n" by cases (auto simp: word_bits)
qed

text \<open>The integer conversions are lossless: a 16-, 32- or 64-bit value written to a buffer in
  big-endian or in little-endian order and read back in the same order is the value, and the
  little-endian bytes are the big-endian ones reversed.\<close>

lemma byte_order_round_trip:
  "GG_BytesToInt16Be (GG_BytesFromInt16Be v16) 0 = v16 \<and> GG_BytesToInt16Le (GG_BytesFromInt16Le v16) = v16 \<and>
   GG_BytesToInt32Be (GG_BytesFromInt32Be v32) 0 = v32 \<and> GG_BytesToInt32Le (GG_BytesFromInt32Le v32) = v32 \<and>
   GG_BytesToInt64Be (GG_BytesFromInt64Be v64) = v64 \<and> GG_BytesToInt64Le (GG_BytesFromInt64Le v64) = v64 \<and>
   GG_BytesFromInt16Le v16 = rev (GG_BytesFromInt16Be v16) \<and>
   GG_BytesFromInt32Le v32 = rev (GG_BytesFromInt32Be v32) \<and>
   GG_BytesFromInt64Le v64 = rev (GG_BytesFromInt64Be v64)"
  using ToInt16Be_FromInt16Be [of "[]" v16 "[]"] ToInt32Be_FromInt32Be [of "[]" v32 "[]"]
    be16_of_bytes [of v16] be32_of_bytes [of v32] be64_of_bytes [of v64]
  by (simp add: GG_BytesToInt16Le_def GG_BytesFromInt16Le_def GG_BytesToInt32Le_def GG_BytesFromInt32Le_def
      GG_BytesToInt64Be_def GG_BytesFromInt64Be_def GG_BytesToInt64Le_def GG_BytesFromInt64Le_def
      GG_BytesFromInt16Be_def GG_BytesFromInt32Be_def ucast_and_FF)

definition nibbles_ok :: bool where
  "nibbles_ok \<longleftrightarrow> (\<forall>n \<in> set [0..<16]. \<forall>u \<in> {True, False}. GG_HexToNibble (GG_NibbleToHex n u) = int n)"

lemma nibbles_ok: nibbles_ok
  by code_simp

lemma HexToNibble_NibbleToHex: "n < 16 \<Longrightarrow> GG_HexToNibble (GG_NibbleToHex n u) = int n"
  using nibbles_ok unfolding nibbles_ok_def by (cases u) auto

lemma and_mask: "(w :: 'a::len word) AND 0x0F = take_bit 4 w" "w AND 0x03 = take_bit 2 w"
  "w AND 0x3F = take_bit 6 w" "w AND 0x7F = take_bit 7 w"
  by (simp_all add: take_bit_eq_mask mask_eq_exp_minus_1)

lemma HexToByte_ByteToHex:
  "GG_HexToByte (GG_ByteToHex b u ! 0) (GG_ByteToHex b u ! 1) = Inr b"
proof -
  have n: "unat (take_bit 4 w) < 16" for w :: u8
    by (simp add: take_bit_eq_mod unat_mod)
  have "word_of_int (push_bit 4 (uint (take_bit 4 (drop_bit 4 b))) OR uint (take_bit 4 b)) = b"
    by (rule bit_word_eqI)
      (auto simp: bit_word_of_int_iff bit_or_iff bit_push_bit_iff bit_uint_iff bit_take_bit_iff bit_drop_bit_eq)
  then show ?thesis
    using n [of "drop_bit 4 b"] n [of b]
    by (simp add: GG_HexToByte_def GG_ByteToHex_def HexToNibble_NibbleToHex and_mask del: of_nat_unat) simp
qed

lemma length_BytesToHex [simp]: "length (GG_BytesToHex bs u) = 2 * length bs"
  by (induction bs) (simp_all add: GG_ByteToHex_def)

lemma hex_loop_BytesToHex: "hex_loop (GG_BytesToHex bs u) = Inr bs"
proof (induction bs)
  case (Cons b bs)
  then show ?case using HexToByte_ByteToHex [of b u] by (simp add: GG_ByteToHex_def)
qed simp

text \<open>Hexadecimal text is lossless: decoding the digits of a non-empty byte string, whether
  they are in upper or in lower case, gives the byte string back, two digits per byte; and the
  decoder rejects an odd number of digits.\<close>

lemma hex_round_trip:
  assumes "bs \<noteq> []" and "odd (length junk)"
  shows "length (GG_BytesToHex bs u) = 2 * length bs \<and>
    GG_HexToBytes (GG_BytesToHex bs u @ rest) (2 * length bs) = Inr bs \<and>
    GG_HexToBytes junk (length junk) = Inl GG_ERROR_INVALID_PARAMETERS"
proof -
  have "length junk \<noteq> 0" using assms(2) by (metis even_zero)
  moreover have "length junk mod 2 = 1" using assms(2) by presburger
  ultimately show ?thesis using assms(1) by (simp add: GG_HexToBytes_def hex_loop_BytesToHex)
qed

theorem hex_round_trip_witness:
  "GG_HexToBytes (GG_BytesToHex [0xDE, 0xAD] True @ []) 4 = Inr [0xDE, 0xAD]"
  using hex_round_trip [of "[0xDE, 0xAD]" "[48]" True "[]"] by simp

section \<open>Properties of varints\<close>

lemma Encode_length_pos: "0 < length (GG_EncodeProtobufVarint v)"
  by (subst GG_EncodeProtobufVarint.simps) (simp add: Let_def)

lemma Encode_step:
  "GG_EncodeProtobufVarint v =
    (if v > 127 then (ucast (take_bit 7 v) OR 0x80) # GG_EncodeProtobufVarint (drop_bit 7 v) else [ucast v])"
proof -
  have "take_bit 7 v = v" if "\<not> v > 127"
    using that unat_mod [of v 128] by (intro word_unat_eq_iff [THEN iffD2])
      (simp add: take_bit_eq_mod word_less_nat_alt)
  then show ?thesis
    by (subst GG_EncodeProtobufVarint.simps) (simp add: Let_def drop_bit_7_nonzero and_mask)
qed

lemma varint_size_loop_eq: "varint_size_loop v sz + 1 = sz + length (GG_EncodeProtobufVarint v)"
proof (induction v sz rule: varint_size_loop.induct)
  case (1 v sz)
  then show ?case by (subst varint_size_loop.simps, subst Encode_step) auto
qed

lemma Encode_length_le: "unat v < 128 ^ k \<Longrightarrow> 0 < k \<Longrightarrow> length (GG_EncodeProtobufVarint v) \<le> k"
proof (induction k arbitrary: v)
  case (Suc k)
  show ?case
  proof (cases "v > 127")
    case True
    then have "unat (drop_bit 7 v) < 128 ^ k" using Suc.prems(1) by (simp add: unat_drop_7 less_mult_imp_div_less)
    moreover have "0 < k" using True Suc.prems(1) by (cases k) (auto simp: word_less_nat_alt)
    ultimately show ?thesis using Suc.IH True by (subst Encode_step) simp
  next
    case False
    then show ?thesis by (subst Encode_step) simp
  qed
qed simp

lemma and_80: "(x :: u8) AND 0x80 = 0 \<longleftrightarrow> \<not> bit x 7"
  using and_exp_eq_0_iff_not_bit [of x 7] by simp

lemma bit_80: "bit (0x80 :: u8) n \<longleftrightarrow> n = 7"
  using bit_exp_iff [where ?'a = u8, of 7 n] by auto

lemma Encode_butlast: "b \<in> set (butlast (GG_EncodeProtobufVarint v)) \<Longrightarrow> bit b 7"
proof (induction v rule: GG_EncodeProtobufVarint.induct)
  case (1 v)
  show ?case
  proof (cases "v > 127")
    case True
    with 1 show ?thesis
      using Encode_length_pos [of "drop_bit 7 v"] Encode_step [of v]
      by (auto simp: drop_bit_7_nonzero bit_or_iff bit_80 Let_def split: if_splits)
  next
    case False
    with 1 Encode_step [of v] show ?thesis by simp
  qed
qed

lemma varint_loop_unfinished:
  "\<forall>b \<in> set e. bit b 7 \<Longrightarrow> bit x 7 \<Longrightarrow> bit (fst (varint_loop e x n acc)) 7"
proof (induction e x n acc rule: varint_loop.induct)
  case (1 e x n acc)
  then show ?case by (subst varint_loop.simps) (auto simp: Let_def and_80)
qed

lemma varint_low_bits:
  "(ucast ((ucast (take_bit 7 (v :: u64)) OR 0x80 :: u8) AND 0x7F) :: u64) = take_bit 7 v"
  unfolding and_mask
  by (rule bit_word_eqI) (auto simp: bit_ucast_iff bit_take_bit_iff bit_or_iff bit_80)

lemma varint_join:
  "acc OR push_bit k (take_bit 7 (v :: u64)) OR push_bit (k + 7) (drop_bit 7 v) = acc OR push_bit k v"
proof (rule bit_word_eqI)
  fix n
  show "bit (acc OR push_bit k (take_bit 7 v) OR push_bit (k + 7) (drop_bit 7 v)) n =
      bit (acc OR push_bit k v) n"
  proof (cases "k + 7 \<le> n")
    case True
    then have "7 + (n - (k + 7)) = n - k" by simp
    with True show ?thesis by (auto simp: bit_or_iff bit_push_bit_iff bit_take_bit_iff bit_drop_bit_eq)
  qed (auto simp: bit_or_iff bit_push_bit_iff bit_take_bit_iff)
qed

lemma varint_loop_Encode:
  assumes "unat v < 2 ^ (64 - 7 * length pre)" "length pre \<le> 9" "bit x 7"
  shows "\<exists>y. varint_loop (pre @ GG_EncodeProtobufVarint v @ rest) x (length pre) acc =
      (y, length pre + length (GG_EncodeProtobufVarint v), acc OR push_bit (7 * length pre) v) \<and> \<not> bit y 7"
  using assms
proof (induction v arbitrary: pre x acc rule: GG_EncodeProtobufVarint.induct)
  case (1 v)
  let ?k = "length pre"
  show ?case
  proof (cases "v > 127")
    case True
    let ?b = "ucast (take_bit 7 v) OR 0x80 :: u8"
    have v: "128 \<le> unat v" using True by (simp add: word_less_nat_alt)
    have "2 ^ 7 < (2 :: nat) ^ (64 - 7 * ?k)" using v 1(2) by simp
    then have k7: "7 < 64 - 7 * ?k" by (simp only: power_strict_increasing_iff) 
    then have k: "?k \<le> 8" by simp
    have e: "64 - 7 * ?k = 7 + (64 - 7 * Suc ?k)" using k7 by simp
    have "unat v < 2 ^ (64 - 7 * Suc ?k) * 2 ^ 7" using 1(2) unfolding e by (simp only: power_add mult.commute)
    then have d: "unat (drop_bit 7 v) < 2 ^ (64 - 7 * length (pre @ [?b]))"
      by (simp add: unat_drop_7 less_mult_imp_div_less)
    have "bit ?b 7" by (simp add: bit_or_iff bit_80)
    with 1(1) [OF refl refl _ d, of ?b "acc OR push_bit (7 * ?k) (take_bit 7 v)"] True k
    obtain y where y: "varint_loop ((pre @ [?b]) @ GG_EncodeProtobufVarint (drop_bit 7 v) @ rest) ?b (Suc ?k)
        (acc OR push_bit (7 * ?k) (take_bit 7 v)) =
        (y, Suc ?k + length (GG_EncodeProtobufVarint (drop_bit 7 v)),
         acc OR push_bit (7 * ?k) (take_bit 7 v) OR push_bit (7 * ?k + 7) (drop_bit 7 v))" "\<not> bit y 7"
      by (auto simp: drop_bit_7_nonzero add.commute or.assoc)
    have "?k < min 10 (length (pre @ GG_EncodeProtobufVarint v @ rest))"
      using k Encode_length_pos [of v] by simp
    then have "varint_loop (pre @ GG_EncodeProtobufVarint v @ rest) x ?k acc =
        varint_loop ((pre @ [?b]) @ GG_EncodeProtobufVarint (drop_bit 7 v) @ rest) ?b (Suc ?k)
          (acc OR push_bit (7 * ?k) (take_bit 7 v))"
      using True 1(4) varint_low_bits [of v] Encode_step [of v]
      by (subst varint_loop.simps) (simp add: Let_def and_80 mult.commute)
    with y True Encode_step [of v] show ?thesis by (simp add: varint_join)
  next
    case False
    have v: "unat v < 128" using False by (simp add: word_less_nat_alt)
    have nb: "\<not> bit v n" if "7 \<le> n" for n
    proof -
      have "drop_bit 7 v = 0" using False drop_bit_7_nonzero [of v] by blast
      then have "\<not> bit (drop_bit 7 v) (n - 7)" by simp
      with that show ?thesis by (simp add: bit_drop_bit_eq)
    qed
    then have n7: "\<not> bit (ucast v :: u8) 7" by (simp add: bit_ucast_iff)
    have low: "ucast ((ucast v :: u8) AND 0x7F) = v"
      unfolding and_mask
    proof (rule bit_word_eqI)
      fix n
      show "bit (ucast (take_bit 7 (ucast v :: u8)) :: u64) n = bit v n"
        using nb [of n] by (cases "n < 7") (auto simp: bit_ucast_iff bit_take_bit_iff)
    qed
    have e: "GG_EncodeProtobufVarint v = [ucast v]" using False by (subst Encode_step) simp
    have "?k < min 10 (length (pre @ ucast v # rest))" using 1(3) by simp
    then have "varint_loop (pre @ ucast v # rest) x ?k acc =
        varint_loop (pre @ ucast v # rest) (ucast v) (Suc ?k) (acc OR push_bit (7 * ?k) v)"
      using 1(4) low by (subst varint_loop.simps) (simp add: Let_def and_80 mult.commute)
    moreover have "\<dots> = (ucast v, Suc ?k, acc OR push_bit (7 * ?k) v)"
      using n7 by (subst varint_loop.simps) (simp add: and_80)
    ultimately show ?thesis using n7 e by simp
  qed
qed

lemma GG_DecodeProtobufVarint_Encode:
  "GG_DecodeProtobufVarint (GG_EncodeProtobufVarint v @ rest) = (length (GG_EncodeProtobufVarint v), v)"
proof -
  have "unat v < 2 ^ (64 - 7 * length ([] :: u8 list))" using unat_less_length [of v] by simp
  from varint_loop_Encode [OF this, where x = "0x80" and rest = rest and acc = 0] obtain y where
    "varint_loop (GG_EncodeProtobufVarint v @ rest) 0x80 0 0 = (y, length (GG_EncodeProtobufVarint v), v)" "\<not> bit y 7"
    by (auto simp: bit_80)
  then show ?thesis by (simp add: GG_DecodeProtobufVarint_def and_80)
qed

text \<open>Varints: the encoding of a 64-bit value has exactly \<open>GG_ProtobufVarintSize\<close> bytes, between 1 and 10;
  decoding it, whatever bytes follow, gives the value and that size; decoding any proper prefix
  of it reports size 0, not a wrong value.\<close>

lemma varint_round_trip:
  "length (GG_EncodeProtobufVarint v) = GG_ProtobufVarintSize v \<and>
   1 \<le> GG_ProtobufVarintSize v \<and> GG_ProtobufVarintSize v \<le> 10 \<and>
   GG_DecodeProtobufVarint (GG_EncodeProtobufVarint v @ rest) = (GG_ProtobufVarintSize v, v) \<and>
   fst (GG_DecodeProtobufVarint (take n (butlast (GG_EncodeProtobufVarint v)))) = 0"
proof -
  have l: "length (GG_EncodeProtobufVarint v) = GG_ProtobufVarintSize v"
    using varint_size_loop_eq [of v 1] by (simp add: GG_ProtobufVarintSize_def)
  have "unat v < 128 ^ 10" using unat_less_length [of v] by simp
  from Encode_length_le [OF this] Encode_length_pos [of v] l
  have s: "1 \<le> GG_ProtobufVarintSize v" "GG_ProtobufVarintSize v \<le> 10" by simp_all
  have "bit (fst (varint_loop (take n (butlast (GG_EncodeProtobufVarint v))) 0x80 0 0)) 7"
    by (rule varint_loop_unfinished) (auto simp: bit_80 dest: in_set_takeD Encode_butlast)
  then have "fst (GG_DecodeProtobufVarint (take n (butlast (GG_EncodeProtobufVarint v)))) = 0"
    by (simp add: GG_DecodeProtobufVarint_def and_80 split_beta)
  with l s GG_DecodeProtobufVarint_Encode [of v rest] show ?thesis by simp
qed

lemma and_1: "(w :: 'a::len word) AND 1 = 0 \<longleftrightarrow> \<not> bit w 0"
  by (simp add: bit_0 even_iff_mod_2_eq_zero and_one_eq)

lemma minus_one_xor: "w XOR 0xFFFFFFFFFFFFFFFF = NOT (w :: u64)"
proof -
  have "(0xFFFFFFFFFFFFFFFF :: u64) = - 1" by simp
  then show ?thesis by (simp only: bit.xor_one_right)
qed

lemma push_bit_1: "push_bit 1 w = 2 * (w :: 'a::len word)"
  by (simp add: push_bit_eq_mult mult.commute)

lemma ToZigZag_eq:
  "GG_ProtobufSignedToZigZag w = (if sint w < 0 then NOT (2 * w) else 2 * w)"
  unfolding GG_ProtobufSignedToZigZag_def push_bit_1 using minus_one_xor [of "2 * w"] by simp

lemma FromZigZag_bits:
  "GG_ProtobufSignedFromZigZag u = (if bit u 0 then NOT (drop_bit 1 u) else drop_bit 1 u)"
  by (simp add: GG_ProtobufSignedFromZigZag_def and_1 not_eq_complement)

lemma sint_negative_bit: "sint (w :: u64) < 0 \<longleftrightarrow> bit w 63"
  using bit_last_iff [of w] by simp

lemma uint_ToZigZag:
  "uint (GG_ProtobufSignedToZigZag w) = (if sint w \<ge> 0 then 2 * sint w else - 2 * sint w - 1)" (is "_ = ?z")
proof -
  have r: "- (2 ^ 63) \<le> sint w" "sint w < 2 ^ 63"
    using sint_greater_eq [of w] sint_less [of w] by simp_all
  have "w = word_of_int (sint w)" by simp
  then have "2 * w = word_of_int (2 * sint w)" by (metis of_int_mult of_int_numeral)
  moreover from this have "NOT (2 * w) = word_of_int (- 2 * sint w - 1)" by (simp add: not_eq_complement)
  ultimately have "GG_ProtobufSignedToZigZag w = word_of_int ?z" by (auto simp: ToZigZag_eq)
  then have "uint (GG_ProtobufSignedToZigZag w) = ?z mod 2 ^ 64" by (simp add: uint_word_of_int)
  also have "\<dots> = ?z" using r by (intro mod_pos_pos_trivial) auto
  finally show ?thesis .
qed

text \<open>Zigzag coding is a bijection between signed and unsigned 64-bit integers: each direction undoes
  the other, and the value \<open>n\<close> is coded as \<open>2 * n\<close> if it is not negative, as \<open>- 2 * n - 1\<close> otherwise, so that
  small magnitudes have small codes.\<close>

lemma zigzag_bijection:
  "GG_ProtobufSignedFromZigZag (GG_ProtobufSignedToZigZag w) = w \<and>
   GG_ProtobufSignedToZigZag (GG_ProtobufSignedFromZigZag u) = u \<and>
   uint (GG_ProtobufSignedToZigZag w) = (if sint w \<ge> 0 then 2 * sint w else - 2 * sint w - 1)"
proof -
  have 1: "GG_ProtobufSignedFromZigZag (GG_ProtobufSignedToZigZag w) = w"
    unfolding ToZigZag_eq FromZigZag_bits sint_negative_bit
  proof (rule bit_word_eqI)
    fix n assume "n < LENGTH(64)"
    then consider "n < 63" | "n = 63" by fastforce
    then show "bit (if bit (if bit w 63 then NOT (2 * w) else 2 * w) 0
        then NOT (drop_bit 1 (if bit w 63 then NOT (2 * w) else 2 * w))
        else drop_bit 1 (if bit w 63 then NOT (2 * w) else 2 * w)) n = bit w n"
      by cases (auto simp: bit_double_iff bit_drop_bit_eq bit_not_iff)
  qed
  have 2: "GG_ProtobufSignedToZigZag (GG_ProtobufSignedFromZigZag u) = u"
    unfolding ToZigZag_eq FromZigZag_bits sint_negative_bit
  proof (rule bit_word_eqI)
    have "\<not> bit u 64" using bit_imp_le_length [of u 64] by auto
    then have s: "bit (if bit u 0 then NOT (drop_bit 1 u) else drop_bit 1 u) 63 = bit u 0"
      by (simp add: bit_not_iff bit_drop_bit_eq)
    fix n assume "n < LENGTH(64)"
    then show "bit (if bit (if bit u 0 then NOT (drop_bit 1 u) else drop_bit 1 u) 63
        then NOT (2 * (if bit u 0 then NOT (drop_bit 1 u) else drop_bit 1 u))
        else 2 * (if bit u 0 then NOT (drop_bit 1 u) else drop_bit 1 u)) n = bit u n"
      unfolding s by (cases n) (auto simp: bit_double_iff bit_drop_bit_eq bit_not_iff)
  qed
  show ?thesis using 1 2 uint_ToZigZag by blast
qed

section \<open>Properties of Base64\<close>

definition enc_char :: "bool \<Rightarrow> u8 \<Rightarrow> u8" where
  "enc_char url_safe v = (if url_safe then url_safe_char (base64_char v) else base64_char v)"

text \<open>What the two tables have in common: the characters of the encoder are in the decoder's table.\<close>

definition base64_codes :: "nat list" where
  "base64_codes = [65, 66, 67, 68, 69, 70, 71, 72, 73, 74, 75, 76, 77, 78, 79, 80, 81, 82, 83, 84, 85, 86, 87, 88, 89, 90,
     97, 98, 99, 100, 101, 102, 103, 104, 105, 106, 107, 108, 109, 110, 111, 112, 113, 114, 115, 116, 117, 118, 119, 120, 121, 122,
     48, 49, 50, 51, 52, 53, 54, 55, 56, 57, 43, 47]"

definition enc_code :: "bool \<Rightarrow> nat \<Rightarrow> nat" where
  "enc_code url v =
     (let n = base64_codes ! v in if url then (if n = 43 then 45 else if n = 47 then 95 else n) else n)"

definition enc_code_ok :: "bool \<Rightarrow> nat \<Rightarrow> bool" where
  "enc_code_ok url v =
     (let n = enc_code url v
      in n \<le> 127 \<and> n \<noteq> 13 \<and> n \<noteq> 10 \<and> n \<noteq> 61 \<and> base64_codes ! v \<le> 127 \<and>
         (if url then n \<noteq> 43 \<and> n \<noteq> 47 else n \<noteq> 45 \<and> n \<noteq> 95) \<and> GG_Base64_Bytes ! n = int v)"

lemma enc_code_table: "list_all (enc_code_ok True) [0..<64] \<and> list_all (enc_code_ok False) [0..<64]"
  by code_simp

lemma enc_code_ok: "v < 64 \<Longrightarrow> enc_code_ok url v"
  using enc_code_table by (cases url) (auto simp: list_all_iff)

lemma Base64_Chars_eq: "GG_Base64_Chars = map of_nat base64_codes"
  by (simp add: GG_Base64_Chars_def base64_codes_def of_char_def)

lemma length_base64_codes: "length base64_codes = 64"
  by (simp add: base64_codes_def)

lemma unat_of_nat_127: "n \<le> 127 \<Longrightarrow> unat (of_nat n :: u8) = n"
  by (simp add: unsigned_of_nat take_bit_nat_eq_self)

lemma url_safe_of_nat:
  assumes "n \<le> 127"
  shows "url_safe_char (of_nat n) = of_nat (if n = 43 then 45 else if n = 47 then 95 else n)"
proof -
  have "(of_nat n :: u8) = 43 \<longleftrightarrow> n = 43" "(of_nat n :: u8) = 47 \<longleftrightarrow> n = 47"
    using unat_of_nat_127 [OF assms] by (auto simp: word_unat_eq_iff)
  then show ?thesis by (simp add: url_safe_char_def)
qed

lemma enc_char_eq:
  assumes "unat v < 64"
  shows "enc_char url v = of_nat (enc_code url (unat v))"
proof -
  have "base64_char v = of_nat (base64_codes ! unat v)"
    using assms by (simp add: base64_char_def Base64_Chars_eq length_base64_codes)
  moreover have "base64_codes ! unat v \<le> 127"
    using enc_code_ok [OF assms, of url] by (simp add: enc_code_ok_def Let_def)
  ultimately show ?thesis by (auto simp: enc_char_def enc_code_def Let_def url_safe_of_nat)
qed

lemma char_value_of_nat: "n \<le> 127 \<Longrightarrow> char_value sg (of_nat n) = int n"
  by (simp add: char_value_def signed_of_nat unsigned_of_nat signed_take_bit_int_eq_self
      take_bit_nat_eq_self)

lemma enc_char_check:
  "unat v < 64 \<Longrightarrow>
    base64_check url (char_value sg (enc_char url v) # cs) 0 n = base64_check url cs 0 (n + 1)"
  using enc_code_ok [of "unat v" url]
  by (auto simp: enc_code_ok_def enc_char_eq char_value_of_nat Let_def)

lemma enc_char_decode:
  assumes "unat v < 64" "acc' = push_bit 6 acc OR ucast v"
  shows "base64_decode_loop (char_value sg (enc_char url v) # cs) n acc out =
    base64_decode_loop cs (Suc n) acc' (if Suc n mod 4 = 0
      then out @ [ucast (drop_bit 16 acc'), ucast (drop_bit 8 acc'), ucast acc'] else out)"
  using enc_code_ok [OF assms(1), of url] assms
  by (auto simp: enc_code_ok_def enc_char_eq char_value_of_nat Let_def)

lemma take_bit_less_64: "unat (take_bit 6 (w :: u8)) < 64"
  by (simp add: take_bit_eq_mod unat_mod)

lemma sextet_less_64:
  "unat (push_bit 4 (take_bit 2 (a :: u8)) OR take_bit 4 (drop_bit 4 b)) < 64"
  "unat (push_bit 2 (take_bit 4 (b :: u8)) OR take_bit 2 (drop_bit 6 c)) < 64"
  "unat (push_bit 2 (take_bit 4 (b :: u8))) < 64" "unat (push_bit 4 (take_bit 2 (a :: u8))) < 64"
proof -
  have *: "unat w < 64" if "\<And>n. bit w n \<Longrightarrow> n < 6" for w :: u8
  proof -
    have "take_bit 6 w = w" by (rule bit_word_eqI) (auto simp: bit_take_bit_iff dest: that)
    then show ?thesis using take_bit_less_64 [of w] by simp
  qed
  show "unat (push_bit 4 (take_bit 2 (a :: u8)) OR take_bit 4 (drop_bit 4 b)) < 64"
    "unat (push_bit 2 (take_bit 4 (b :: u8)) OR take_bit 2 (drop_bit 6 c)) < 64"
    "unat (push_bit 2 (take_bit 4 (b :: u8))) < 64" "unat (push_bit 4 (take_bit 2 (a :: u8))) < 64"
    by (rule *; auto simp: bit_or_iff bit_push_bit_iff bit_take_bit_iff)+
qed

lemmas sextets = take_bit_less_64 sextet_less_64

lemma u8_eqI:
  assumes "bit x 0 = bit y 0" "bit x 1 = bit y 1" "bit x 2 = bit y 2" "bit x 3 = bit y 3"
    "bit x 4 = bit y 4" "bit x 5 = bit y 5" "bit x 6 = bit y 6" "bit x 7 = bit y 7"
  shows "x = (y :: u8)"
proof (rule bit_word_eqI)
  fix n assume "n < LENGTH(8)"
  then have "n \<in> {0, 1, 2, 3, 4, 5, 6, 7}" by auto
  with assms show "bit x n = bit y n" by auto
qed

lemma block_bytes:
  fixes a b c :: u8 and acc :: u32
  defines "v0 \<equiv> take_bit 6 (drop_bit 2 a)"
    and "v1 \<equiv> push_bit 4 (take_bit 2 a) OR take_bit 4 (drop_bit 4 b)"
    and "v2 \<equiv> push_bit 2 (take_bit 4 b) OR take_bit 2 (drop_bit 6 c)"
    and "v3 \<equiv> take_bit 6 c"
  defines "w \<equiv> push_bit 6 (push_bit 6 (push_bit 6 (push_bit 6 acc OR ucast v0) OR ucast v1) OR ucast v2) OR ucast v3"
  shows "ucast (drop_bit 16 w) = a" "ucast (drop_bit 8 w) = b" "ucast w = c"
  unfolding w_def v0_def v1_def v2_def v3_def
  by (rule u8_eqI; simp add: word_bits bit_take_bit_iff)+

text \<open>The character of the text for a character of the encoder: both alphabets leave the padding alone.\<close>

definition enc_map :: "bool \<Rightarrow> u8 \<Rightarrow> u8" where
  "enc_map url c = (if url then url_safe_char c else c)"

lemma enc_map_char: "enc_map url (base64_char v) = enc_char url v"
  by (simp add: enc_char_def enc_map_def)

lemma enc_map_pad: "char_value sg (enc_map url 61) = 61"
  using char_value_of_nat [of 61 sg] by (simp add: url_safe_char_def enc_map_def)

definition sextet_count :: "nat \<Rightarrow> nat" where
  "sextet_count n = 4 * (n div 3) + (if n mod 3 = 0 then 0 else n mod 3 + 1)"

lemma sextet_count_step: "sextet_count (Suc (Suc (Suc n))) = 4 + sextet_count n"
proof -
  have "Suc (Suc (Suc n)) div 3 = Suc (n div 3)" "Suc (Suc (Suc n)) mod 3 = n mod 3" by presburger+
  then show ?thesis by (simp add: sextet_count_def)
qed

lemma base64_check_pad: "base64_check url (61 # cs) 0 n = base64_check url cs 1 n"
  "base64_check url [61] (Suc 0) n = Some (Inr n)"
  by simp_all

lemmas base64_texts = enc_map_char and_mask sextets enc_map_pad list.map base64_blocks.simps append.simps

lemma base64_check_blocks:
  "base64_check url (map (char_value sg) (map (enc_map url) (base64_blocks input))) 0 n =
    Some (Inr (n + sextet_count (length input)))"
proof (induction input arbitrary: n rule: base64_blocks.induct)
  case (1 a b c input)
  then show ?case
    by (simp add: base64_texts enc_char_check sextet_count_step del: base64_check.simps)
next
  case (2 a b)
  then show ?case
    by (simp add: base64_texts enc_char_check base64_check_pad sextet_count_def del: base64_check.simps(2))
next
  case (3 a)
  then show ?case
    by (simp add: base64_texts enc_char_check base64_check_pad sextet_count_def del: base64_check.simps(2))
next
  case 4
  then show ?case by (simp add: sextet_count_def)
qed

lemma mod_4_Suc:
  assumes "n mod 4 = (0 :: nat)"
  shows "Suc n mod 4 = 1" "Suc (Suc n) mod 4 = 2" "Suc (Suc (Suc n)) mod 4 = 3" "Suc (Suc (Suc (Suc n))) mod 4 = 0"
  using assms by presburger+

lemmas decode_char = enc_char_decode [OF _ refl]

lemma decode_pad: "base64_decode_loop (61 # cs) n acc out = (n, acc, out)"
  by simp

lemma base64_tail_eq:
  "n mod 4 = 3 \<Longrightarrow> base64_tail (n, acc, out) = out @ [ucast (drop_bit 10 acc), ucast (drop_bit 2 acc)]"
  "n mod 4 = 2 \<Longrightarrow> base64_tail (n, acc, out) = out @ [ucast (drop_bit 4 acc)]"
  by (simp_all add: base64_tail_def)

lemma tail_bytes:
  fixes a b :: u8 and acc :: u32
  shows "ucast (drop_bit 4 (push_bit 6 (push_bit 6 acc OR ucast (take_bit 6 (drop_bit 2 a))) OR
      ucast (push_bit 4 (take_bit 2 a)))) = a"
    and "ucast (drop_bit 10 (push_bit 6 (push_bit 6 (push_bit 6 acc OR ucast (take_bit 6 (drop_bit 2 a))) OR
      ucast (push_bit 4 (take_bit 2 a) OR take_bit 4 (drop_bit 4 b))) OR ucast (push_bit 2 (take_bit 4 b)))) = a"
    and "ucast (drop_bit 2 (push_bit 6 (push_bit 6 (push_bit 6 acc OR ucast (take_bit 6 (drop_bit 2 a))) OR
      ucast (push_bit 4 (take_bit 2 a) OR take_bit 4 (drop_bit 4 b))) OR ucast (push_bit 2 (take_bit 4 b)))) = b"
  by (rule u8_eqI; simp add: word_bits bit_take_bit_iff)+

lemma base64_decode_blocks:
  "n mod 4 = 0 \<Longrightarrow>
    base64_tail (base64_decode_loop (map (char_value sg) (map (enc_map url) (base64_blocks input))) n acc out) =
    out @ input"
proof (induction input arbitrary: n acc out rule: base64_blocks.induct)
  case (1 a b c input)
  note m = mod_4_Suc [OF 1(2)]
  show ?case
    by (simp only: base64_texts decode_char m block_bytes 1(1) [OF m(4)]) simp
next
  case (2 a b)
  note m = mod_4_Suc [OF 2]
  show ?case
    by (simp only: base64_texts decode_char decode_pad m base64_tail_eq tail_bytes) simp
next
  case (3 a)
  note m = mod_4_Suc [OF 3]
  show ?case
    by (simp only: base64_texts decode_char decode_pad m base64_tail_eq tail_bytes) simp
next
  case 4
  then show ?case by (simp add: base64_tail_def)
qed

lemma base64_decoded_size_count: "base64_decoded_size (sextet_count n) = n" "sextet_count n mod 4 \<noteq> 1"
proof -
  define q where "q = n div 3"
  consider "n = 3 * q" | "n = 3 * q + 1" | "n = 3 * q + 2" unfolding q_def by atomize_elim presburger
  then have "base64_decoded_size (sextet_count n) = n \<and> sextet_count n mod 4 \<noteq> 1"
  proof cases
    case 1
    then have "sextet_count n = 4 * q" by (simp add: sextet_count_def)
    with 1 show ?thesis by (simp add: base64_decoded_size_def)
  next
    case 2
    then have "n div 3 = q" "n mod 3 = 1" by presburger+
    then have "sextet_count n = 4 * q + 2" by (simp add: sextet_count_def)
    moreover have "(4 * q + 2) div 4 = q" "(4 * q + 2) mod 4 = 2" by presburger+
    ultimately show ?thesis using 2 unfolding base64_decoded_size_def by simp
  next
    case 3
    then have "n div 3 = q" "n mod 3 = 2" by presburger+
    then have "sextet_count n = 4 * q + 3" by (simp add: sextet_count_def)
    moreover have "(4 * q + 3) div 4 = q" "(4 * q + 3) mod 4 = 3" by presburger+
    ultimately show ?thesis using 3 unfolding base64_decoded_size_def by simp
  qed
  then show "base64_decoded_size (sextet_count n) = n" "sextet_count n mod 4 \<noteq> 1" by simp_all
qed

lemma length_base64_blocks: "length (base64_blocks input) = 4 * ((length input + 2) div 3)"
proof (induction input rule: base64_blocks.induct)
  case (1 a b c input)
  have "(length (a # b # c # input) + 2) div 3 = Suc ((length input + 2) div 3)" unfolding list.size by presburger
  with 1 show ?case by simp
qed simp_all

lemma base64_encode_blocks:
  assumes "length data \<le> GG_BASE64_MAX_ENCODE_INPUT_SIZE" and "4 * ((length data + 2) div 3) \<le> text_size"
  shows "GG_Base64_Encode data text_size url_safe =
    (GG_SUCCESS, 4 * ((length data + 2) div 3), map (enc_map url_safe) (base64_blocks data))"
  using assms by (auto simp: GG_Base64_Encode_def Let_def enc_map_def [abs_def] map_idI)

lemma base64_blocks_nonempty: "data \<noteq> [] \<Longrightarrow> base64_blocks data \<noteq> []"
  by (cases data rule: base64_blocks.cases) simp_all

lemma base64_decode_encoded:
  assumes "data \<noteq> []" and "txt = map (enc_map url_safe) (base64_blocks data)"
  shows "GG_Base64_Decode char_is_signed (txt @ rest) (length txt) buffer_size url_safe =
    Some (if buffer_size < length data then (GG_ERROR_NOT_ENOUGH_SPACE, length data, [])
          else (GG_SUCCESS, length data, data))"
  using assms base64_blocks_nonempty [OF assms(1)] base64_check_blocks [of url_safe char_is_signed data 0]
    base64_decode_blocks [of 0 char_is_signed url_safe data 0 "[]"] base64_decoded_size_count [of "length data"]
  by (simp add: GG_Base64_Decode_def Let_def)

text \<open>C24: Base64 is lossless, in both alphabets and whether \<^verbatim>\<open>char\<close> is signed or not: encoding a non-empty
  byte string into a buffer of at least \<open>4 * ceil(n / 3)\<close> characters succeeds, writes exactly that many, and
  decoding the text into a buffer of at least \<open>n\<close> bytes gives back the byte string.\<close>

theorem base64_round_trip:
  assumes "data \<noteq> []" and "length data \<le> GG_BASE64_MAX_ENCODE_INPUT_SIZE"
    and "4 * ((length data + 2) div 3) \<le> text_size" and "length data \<le> buffer_size"
  shows "\<exists>txt. GG_Base64_Encode data text_size url_safe = (GG_SUCCESS, 4 * ((length data + 2) div 3), txt) \<and>
    length txt = 4 * ((length data + 2) div 3) \<and>
    GG_Base64_Decode char_is_signed (txt @ rest) (length txt) buffer_size url_safe =
      Some (GG_SUCCESS, length data, data)"
  using base64_encode_blocks [OF assms(2,3)] base64_decode_encoded [OF assms(1) refl] assms(4)
  by (simp add: length_base64_blocks)

theorem base64_round_trip_witness:
  "\<exists>txt. GG_Base64_Encode [0xFB, 0xFF, 7, 8] 8 True = (GG_SUCCESS, 8, txt) \<and>
    GG_Base64_Decode True (txt @ []) (length txt) 4 True = Some (GG_SUCCESS, 4, [0xFB, 0xFF, 7, 8])"
  using base64_round_trip [of "[0xFB, 0xFF, 7, 8]" 8 4 True True "[]"]
  by (auto simp: GG_BASE64_MAX_ENCODE_INPUT_SIZE_def)

lemma base64_check_padding: "base64_check url cs (Suc p) n = Some (Inr m) \<Longrightarrow> m = n"
  by (induction cs arbitrary: p) (auto split: if_splits)

lemma base64_decode_loop_size:
  "base64_check url cs 0 n = Some (Inr m) \<Longrightarrow> length out = 3 * (n div 4) \<Longrightarrow>
    \<exists>acc' out'. base64_decode_loop cs n acc out = (m, acc', out') \<and> length out' = 3 * (m div 4)"
proof (induction cs arbitrary: n acc out)
  case (Cons c cs)
  show ?case
  proof (cases "c = 13 \<or> c = 10 \<or> c = 61")
    case True
    with Cons show ?thesis by (auto dest: base64_check_padding)
  next
    case False
    then have c: "base64_check url cs 0 (Suc n) = Some (Inr m)" using Cons.prems(1) by (auto split: if_splits)
    have "Suc n mod 4 = 0 \<Longrightarrow> Suc n div 4 = Suc (n div 4)" "Suc n mod 4 \<noteq> 0 \<Longrightarrow> Suc n div 4 = n div 4"
      by presburger+
    with Cons.IH [OF c] Cons.prems(2) False show ?thesis by (simp add: Let_def)
  qed
qed simp

lemma base64_check_total:
  "\<forall>c \<in> set cs. 0 \<le> c \<Longrightarrow> \<exists>r. base64_check url cs p n = Some r \<and> (\<forall>e. r = Inl e \<longrightarrow> e = GG_ERROR_INVALID_FORMAT)"
  by (induction cs arbitrary: p n) auto

text \<open>The Base64 decoder on arbitrary text, on a platform where \<^verbatim>\<open>char\<close> is unsigned: it never indexes its
  table out of range, it never writes beyond the buffer, and it succeeds only with exactly as many
  bytes written as it reports; a failure writes nothing.\<close>

lemma base64_decode_safe:
  "\<exists>r n out. GG_Base64_Decode False input input_size buffer_size url_safe = Some (r, n, out) \<and>
    (if r = GG_SUCCESS then length out = n \<and> n \<le> buffer_size
     else out = [] \<and> (r = GG_ERROR_INVALID_FORMAT \<and> n = 0 \<or> r = GG_ERROR_NOT_ENOUGH_SPACE \<and> buffer_size < n))"
proof -
  define cs where "cs = map (char_value False)
    (if input_size = 0 then takeWhile (\<lambda>b. b \<noteq> 0) input else take input_size input)"
  have "\<forall>c \<in> set cs. 0 \<le> c" by (auto simp: cs_def char_value_def)
  then obtain r where r: "base64_check url_safe cs 0 0 = Some r" "\<And>e. r = Inl e \<Longrightarrow> e = GG_ERROR_INVALID_FORMAT"
    using base64_check_total by blast
  show ?thesis
  proof (cases r)
    case (Inl e)
    with r show ?thesis by (simp add: GG_Base64_Decode_def flip: cs_def)
  next
    case (Inr m)
    obtain acc out where d: "base64_decode_loop cs 0 0 [] = (m, acc, out)" "length out = 3 * (m div 4)"
      using base64_decode_loop_size [of url_safe cs 0 m "[]" 0] r(1) Inr by auto
    have m: "m mod 4 < 4" by simp
    have "m mod 4 \<noteq> 1 \<Longrightarrow> length (base64_tail (m, acc, out)) = base64_decoded_size m"
      using d(2) m by (auto simp: base64_tail_def base64_decoded_size_def Let_def)
    with r(1) Inr d(1) show ?thesis by (simp add: GG_Base64_Decode_def Let_def flip: cs_def)
  qed
qed

text \<open>Where \<^verbatim>\<open>char\<close> is signed, a character above 127 becomes a negative index of the table.\<close>

lemma base64_decode_negative_index: "GG_Base64_Decode True [0x80] 1 buffer_size url_safe = None"
  by (simp add: GG_Base64_Decode_def char_value_def)

end
