(* ===== verification/Gattlink.thy ===== *)
theory Gattlink
  imports GG_Prelude "HOL-Library.Monad_Syntax"
begin

text \<open>
  The Gattlink protocol of \<^verbatim>\<open>xp/gattlink/gg_gattlink.c\<close>: a sliding-window protocol that turns a
  packet transport into a reliable byte stream. This theory holds its state and every
  operation; \<^verbatim>\<open>Gattlink_Sender\<close> and \<^verbatim>\<open>Gattlink_Props\<close> hold the proofs.

  The client of the protocol (\<^verbatim>\<open>GG_GattlinkClient\<close>) is a record of functions over a client
  state \<open>'c\<close>, as the C interface is a table of function pointers. The two timers are the
  timeouts they are armed with, \<open>None\<close> when not scheduled. Serial numbers, sizes and 8-bit
  counters are \<open>nat\<close> with the wrap written out; stall times are 32-bit words.

  An operation returns \<open>None\<close> when it does not return to its caller: a \<open>GG_ASSERT\<close> failed, or
  its send loop runs for ever. That an operation returns \<open>Some\<close> is therefore a theorem.
\<close>

section \<open>Constants\<close>

definition GG_GATTLINK_SN_WINDOW_SIZE :: nat where
  [simp]: "GG_GATTLINK_SN_WINDOW_SIZE = 32"

definition GG_GATTLINK_MAX_PACKET_SIZE :: nat where
  [simp]: "GG_GATTLINK_MAX_PACKET_SIZE = 512"

definition GG_GATTLINK_SEND_ACK_TIMEOUT :: u32 where
  "GG_GATTLINK_SEND_ACK_TIMEOUT = 200"

definition GG_GATTLINK_RESET_COMPLETE_TIMEOUT :: u32 where
  "GG_GATTLINK_RESET_COMPLETE_TIMEOUT = 1000"

definition GG_GATTLINK_RESET_COMPLETE_ACK_TIMEOUT :: u32 where
  "GG_GATTLINK_RESET_COMPLETE_ACK_TIMEOUT = 2000"

definition GG_GATTLINK_EXPECTED_ACK_TIMEOUT :: u32 where
  "GG_GATTLINK_EXPECTED_ACK_TIMEOUT = 4000"

definition GG_GATTLINK_STALL_NOTIFICATION_INTERVAL :: u32 where
  "GG_GATTLINK_STALL_NOTIFICATION_INTERVAL = 12000"

text \<open>The size of the \<^verbatim>\<open>GG_GattlinkResetCompletePacket\<close> struct: five bytes.\<close>

definition RESET_COMPLETE_PACKET_SIZE :: nat where
  [simp]: "RESET_COMPLETE_PACKET_SIZE = 5"

definition GG_GATTLINK_CONTROL_PACKET_TYPE_RESET_REQUEST :: u8 where
  "GG_GATTLINK_CONTROL_PACKET_TYPE_RESET_REQUEST = 0"

definition GG_GATTLINK_CONTROL_PACKET_TYPE_RESET_COMPLETE :: u8 where
  "GG_GATTLINK_CONTROL_PACKET_TYPE_RESET_COMPLETE = 1"

section \<open>State\<close>

datatype GG_GattlinkState =
    GG_GATTLINK_STATE_INITIALIZED
  | GG_GATTLINK_STATE_AWAITING_RESET_COMPLETE_SELF_INITIATED
  | GG_GATTLINK_STATE_AWAITING_RESET_COMPLETE_REMOTE_INITIATED
  | GG_GATTLINK_STATE_READY

record GG_GattlinkSessionConfig =
  max_tx_window_size :: nat
  max_rx_window_size :: nat

record GG_GattlinkOutboundPayloadInfo =
  psn_to_ack_with :: nat
  outstanding_unacked_packets :: nat
  next_expected_ack_sn :: nat
  next_data_sn :: nat
  payload_sizes :: "nat list"
  ack_timer :: "u32 option"
  retransmit_timer :: "u32 option"
  ack_now :: bool

record GG_GattlinkInboundPayloadInfo =
  next_expected_data_psn :: nat
  payload_buffer_full :: bool
  payload_buf :: bytes
  payload_len :: nat
  bytes_consumed :: nat

record 'c GG_GattlinkProtocol =
  gl_client :: 'c
  gl_state :: GG_GattlinkState
  desired_session_cfg :: GG_GattlinkSessionConfig
  actual_session_cfg :: GG_GattlinkSessionConfig
  stall_time :: u32
  last_notified_stall_time :: u32
  gl_in :: GG_GattlinkInboundPayloadInfo
  gl_out :: GG_GattlinkOutboundPayloadInfo

text \<open>
  The client interface. \<open>GetOutgoingData\<close> yields what the call leaves in the destination.
  \<open>NotifyIncomingDataAvailable\<close> may call back into the protocol to read and consume the
  received payload, so it is given the inbound state and returns it, or \<open>None\<close> when it does
  not return; other callbacks into
  the protocol from within a client function are separate operations.
\<close>

record 'c GG_GattlinkClient =
  GetOutgoingDataAvailable :: "'c \<Rightarrow> nat"
  GetOutgoingData :: "'c \<Rightarrow> nat \<Rightarrow> nat \<Rightarrow> bytes"
  ConsumeOutgoingData :: "nat \<Rightarrow> 'c \<Rightarrow> 'c"
  NotifyIncomingDataAvailable ::
    "'c \<times> GG_GattlinkInboundPayloadInfo \<Rightarrow> ('c \<times> GG_GattlinkInboundPayloadInfo) option"
  GetTransportMaxPacketSize :: "'c \<Rightarrow> nat"
  SendRawData :: "bytes \<Rightarrow> 'c \<Rightarrow> GG_Result \<times> 'c"
  NotifySessionReady :: "'c \<Rightarrow> 'c"
  NotifySessionReset :: "'c \<Rightarrow> 'c"
  NotifySessionStalled :: "u32 \<Rightarrow> 'c \<Rightarrow> 'c"

text \<open>The zeroed structs of \<^verbatim>\<open>memset\<close> and of the allocation, with freshly created timers.\<close>

definition zero_out :: GG_GattlinkOutboundPayloadInfo where
  "zero_out = \<lparr>psn_to_ack_with = 0, outstanding_unacked_packets = 0, next_expected_ack_sn = 0,
     next_data_sn = 0, payload_sizes = replicate GG_GATTLINK_SN_WINDOW_SIZE 0,
     ack_timer = None, retransmit_timer = None, ack_now = False\<rparr>"

definition zero_in :: GG_GattlinkInboundPayloadInfo where
  "zero_in = \<lparr>next_expected_data_psn = 0, payload_buffer_full = False,
     payload_buf = replicate GG_GATTLINK_MAX_PACKET_SIZE 0, payload_len = 0, bytes_consumed = 0\<rparr>"

definition upd_out ::
  "(GG_GattlinkOutboundPayloadInfo \<Rightarrow> GG_GattlinkOutboundPayloadInfo) \<Rightarrow>
   'c GG_GattlinkProtocol \<Rightarrow> 'c GG_GattlinkProtocol" where
  [simp]: "upd_out f self = self\<lparr>gl_out := f (gl_out self)\<rparr>"

definition upd_client ::
  "('c \<Rightarrow> 'c) \<Rightarrow> 'c GG_GattlinkProtocol \<Rightarrow> 'c GG_GattlinkProtocol" where
  [simp]: "upd_client f self = self\<lparr>gl_client := f (gl_client self)\<rparr>"

section \<open>Reset handshake\<close>

definition GG_GattlinkProtocol_BuildControlPacket :: "u8 \<Rightarrow> u8" where
  "GG_GattlinkProtocol_BuildControlPacket type = (type AND 0x7F) OR 0x80"

definition GG_GattlinkProtocol_UnscheduleTimers ::
  "'c GG_GattlinkProtocol \<Rightarrow> 'c GG_GattlinkProtocol" where
  "GG_GattlinkProtocol_UnscheduleTimers =
     upd_out (\<lambda>ob. ob\<lparr>ack_timer := None, retransmit_timer := None\<rparr>)"

definition GG_GattlinkProtocol_SendRawData ::
  "'c GG_GattlinkClient \<Rightarrow> bytes \<Rightarrow> 'c GG_GattlinkProtocol \<Rightarrow> GG_Result \<times> 'c GG_GattlinkProtocol" where
  "GG_GattlinkProtocol_SendRawData C buffer self =
     (let (result, c) = SendRawData C buffer (gl_client self) in (result, self\<lparr>gl_client := c\<rparr>))"

definition GG_GattlinkProtocol_SendResetPacket ::
  "'c GG_GattlinkClient \<Rightarrow> 'c GG_GattlinkProtocol \<Rightarrow> (GG_Result \<times> 'c GG_GattlinkProtocol) option" where
  "GG_GattlinkProtocol_SendResetPacket C self =
     (let self = upd_out (\<lambda>ob. ob\<lparr>retransmit_timer := Some GG_GATTLINK_RESET_COMPLETE_TIMEOUT\<rparr>) self;
          packet = GG_GattlinkProtocol_BuildControlPacket GG_GATTLINK_CONTROL_PACKET_TYPE_RESET_REQUEST
      in if GetTransportMaxPacketSize C (gl_client self) \<ge> 1
         then Some (GG_GattlinkProtocol_SendRawData C [packet] self)
         else None)"

definition reset_complete_packet :: "GG_GattlinkSessionConfig \<Rightarrow> bytes" where
  "reset_complete_packet cfg =
     [GG_GattlinkProtocol_BuildControlPacket GG_GATTLINK_CONTROL_PACKET_TYPE_RESET_COMPLETE, 0, 0,
      of_nat (max_rx_window_size cfg), of_nat (max_tx_window_size cfg)]"

definition GG_GattlinkProtocol_SendResetCompletePacket ::
  "'c GG_GattlinkClient \<Rightarrow> 'c GG_GattlinkProtocol \<Rightarrow> (GG_Result \<times> 'c GG_GattlinkProtocol) option" where
  "GG_GattlinkProtocol_SendResetCompletePacket C self =
     (let self = upd_out (\<lambda>ob. ob\<lparr>retransmit_timer := Some GG_GATTLINK_RESET_COMPLETE_ACK_TIMEOUT\<rparr>) self;
          packet = reset_complete_packet (desired_session_cfg self)
      in if GetTransportMaxPacketSize C (gl_client self) \<ge> RESET_COMPLETE_PACKET_SIZE
         then Some (GG_GattlinkProtocol_SendRawData C packet self)
         else None)"

definition GG_GattlinkProtocol_Reset ::
  "'c GG_GattlinkClient \<Rightarrow> 'c GG_GattlinkProtocol \<Rightarrow> (GG_Result \<times> 'c GG_GattlinkProtocol) option" where
  "GG_GattlinkProtocol_Reset C self =
     (let self = GG_GattlinkProtocol_UnscheduleTimers self;
          was_ready = (gl_state self = GG_GATTLINK_STATE_READY);
          self = self\<lparr>gl_state := GG_GATTLINK_STATE_AWAITING_RESET_COMPLETE_SELF_INITIATED\<rparr>;
          self = (if was_ready then upd_client (NotifySessionReset C) self else self)
      in GG_GattlinkProtocol_SendResetPacket C self)"

definition GG_GattlinkProtocol_HandleResetRequest ::
  "'c GG_GattlinkClient \<Rightarrow> 'c GG_GattlinkProtocol \<Rightarrow> (GG_Result \<times> 'c GG_GattlinkProtocol) option" where
  "GG_GattlinkProtocol_HandleResetRequest C self =
     (let self = GG_GattlinkProtocol_UnscheduleTimers self;
          was_ready = (gl_state self = GG_GATTLINK_STATE_READY);
          self = self\<lparr>gl_state := GG_GATTLINK_STATE_AWAITING_RESET_COMPLETE_REMOTE_INITIATED\<rparr>;
          self = (if was_ready then upd_client (NotifySessionReset C) self else self)
      in GG_GattlinkProtocol_SendResetCompletePacket C self)"

text \<open>Fields 3 and 4 of the packet are the window sizes the peer wishes for itself.\<close>

definition GG_GattlinkProtocol_HandleResetComplete ::
  "'c GG_GattlinkClient \<Rightarrow> bytes \<Rightarrow> 'c GG_GattlinkProtocol \<Rightarrow>
   (GG_Result \<times> 'c GG_GattlinkProtocol) option" where
  "GG_GattlinkProtocol_HandleResetComplete C rx_raw_data self =
     (if length rx_raw_data < RESET_COMPLETE_PACKET_SIZE
      then Some (GG_ERROR_INVALID_PARAMETERS, self)
      else do {
        let pkt_max_rx_window_size = unat (rx_raw_data ! 3);
        let pkt_max_tx_window_size = unat (rx_raw_data ! 4);
        let desired_cfg = desired_session_cfg self;
        let self = self\<lparr>actual_session_cfg :=
          \<lparr>max_tx_window_size = min (max_tx_window_size desired_cfg) pkt_max_rx_window_size,
           max_rx_window_size = min (max_rx_window_size desired_cfg) pkt_max_tx_window_size\<rparr>\<rparr>;
        self \<leftarrow> (if gl_state self = GG_GATTLINK_STATE_AWAITING_RESET_COMPLETE_SELF_INITIATED
                then map_option snd (GG_GattlinkProtocol_SendResetCompletePacket C self)
                else Some self);
        let self = self\<lparr>gl_out := zero_out, gl_in := zero_in, gl_state := GG_GATTLINK_STATE_READY\<rparr>;
        Some (GG_SUCCESS, upd_client (NotifySessionReady C) self)
      })"

definition GG_GattlinkProtocol_HandleControlPacket ::
  "'c GG_GattlinkClient \<Rightarrow> u8 \<Rightarrow> bytes \<Rightarrow> 'c GG_GattlinkProtocol \<Rightarrow>
   (GG_Result \<times> 'c GG_GattlinkProtocol) option" where
  "GG_GattlinkProtocol_HandleControlPacket C type rx_raw_data self =
     (if type = GG_GATTLINK_CONTROL_PACKET_TYPE_RESET_COMPLETE then
        if gl_state self = GG_GATTLINK_STATE_AWAITING_RESET_COMPLETE_SELF_INITIATED \<or>
           gl_state self = GG_GATTLINK_STATE_AWAITING_RESET_COMPLETE_REMOTE_INITIATED
        then GG_GattlinkProtocol_HandleResetComplete C rx_raw_data self
        else Some (GG_SUCCESS, self)
      else if type = GG_GATTLINK_CONTROL_PACKET_TYPE_RESET_REQUEST
      then GG_GattlinkProtocol_HandleResetRequest C self
      else Some (GG_ERROR_INVALID_PARAMETERS, self))"

section \<open>Serial numbers and the record of unacknowledged payloads\<close>

definition GG_GattlinkProtocol_CalculateDistance :: "nat \<Rightarrow> nat \<Rightarrow> nat" where
  "GG_GattlinkProtocol_CalculateDistance sn_begin_incl sn_end_excl =
     (GG_GATTLINK_SN_WINDOW_SIZE + sn_end_excl - sn_begin_incl) mod GG_GATTLINK_SN_WINDOW_SIZE"

definition GG_GattlinkProtocol_GetNextSn :: "nat \<Rightarrow> nat" where
  "GG_GattlinkProtocol_GetNextSn current_sn = (current_sn + 1) mod GG_GATTLINK_SN_WINDOW_SIZE"

definition GG_GattlinkProtocol_GetNumPacketsInFlight :: "GG_GattlinkOutboundPayloadInfo \<Rightarrow> nat" where
  "GG_GattlinkProtocol_GetNumPacketsInFlight ob =
     GG_GattlinkProtocol_CalculateDistance (next_expected_ack_sn ob) (next_data_sn ob)"

definition GG_GattlinkProtocol_SetPayloadSize ::
  "nat \<Rightarrow> nat \<Rightarrow> GG_GattlinkOutboundPayloadInfo \<Rightarrow> GG_GattlinkOutboundPayloadInfo" where
  "GG_GattlinkProtocol_SetPayloadSize sn n ob = ob\<lparr>payload_sizes := (payload_sizes ob)[sn := n]\<rparr>"

definition GG_GattlinkProtocol_GetPayloadSize :: "GG_GattlinkOutboundPayloadInfo \<Rightarrow> nat \<Rightarrow> nat" where
  "GG_GattlinkProtocol_GetPayloadSize ob sn = payload_sizes ob ! sn"

definition GG_GattlinkProtocol_PacketIsAwaitingAck :: "GG_GattlinkOutboundPayloadInfo \<Rightarrow> nat \<Rightarrow> bool" where
  "GG_GattlinkProtocol_PacketIsAwaitingAck ob sn \<longleftrightarrow> payload_sizes ob ! sn \<noteq> 0"

text \<open>The two loops over a range of serial numbers; they end when \<open>sn\<close> meets the bound.\<close>

partial_function (option) sum_sizes :: "nat list \<Rightarrow> nat \<Rightarrow> nat \<Rightarrow> nat \<Rightarrow> nat option" where
  "sum_sizes sizes num_bytes sn sn_end_excl =
     (if sn = sn_end_excl then Some num_bytes
      else sum_sizes sizes (num_bytes + sizes ! sn) (GG_GattlinkProtocol_GetNextSn sn) sn_end_excl)"

partial_function (option) clear_sizes :: "nat list \<Rightarrow> nat \<Rightarrow> nat \<Rightarrow> nat list option" where
  "clear_sizes sizes sn sn_end_excl =
     (if sn = sn_end_excl then Some sizes
      else clear_sizes (sizes[sn := 0]) (GG_GattlinkProtocol_GetNextSn sn) sn_end_excl)"

definition GG_GattlinkProtocol_GetTotalNumBytesAwaitingAckUpTo ::
  "GG_GattlinkOutboundPayloadInfo \<Rightarrow> nat \<Rightarrow> nat option" where
  "GG_GattlinkProtocol_GetTotalNumBytesAwaitingAckUpTo ob sn_end_excl =
     sum_sizes (payload_sizes ob) 0 (next_expected_ack_sn ob) sn_end_excl"

definition GG_GattlinkProtocol_GetTotalNumBytesAwaitingAck ::
  "GG_GattlinkOutboundPayloadInfo \<Rightarrow> nat option" where
  "GG_GattlinkProtocol_GetTotalNumBytesAwaitingAck ob =
     GG_GattlinkProtocol_GetTotalNumBytesAwaitingAckUpTo ob (next_data_sn ob)"

definition ClearPayloadSizesUpTo ::
  "nat \<Rightarrow> GG_GattlinkOutboundPayloadInfo \<Rightarrow> GG_GattlinkOutboundPayloadInfo option" where
  "ClearPayloadSizesUpTo sn_end_excl ob =
     map_option (\<lambda>sizes. ob\<lparr>payload_sizes := sizes\<rparr>)
       (clear_sizes (payload_sizes ob) (next_expected_ack_sn ob) sn_end_excl)"

section \<open>Sending\<close>

text \<open>
  The packet the C function assembles in \<^verbatim>\<open>send_buf\<close>, with the number of payload bytes in it;
  \<open>None\<close> is the C \<^verbatim>\<open>false\<close>, nothing to send.
\<close>

type_synonym prepared = "(bytes \<times> nat) option"

definition want_ack :: "'c GG_GattlinkProtocol \<Rightarrow> bool" where
  "want_ack self \<longleftrightarrow> ack_now (gl_out self) \<or>
     outstanding_unacked_packets (gl_out self) > max_rx_window_size (actual_session_cfg self) div 2"

definition ack_header :: "'c GG_GattlinkProtocol \<Rightarrow> bytes" where
  "ack_header self = (if want_ack self then [0x40 OR of_nat (psn_to_ack_with (gl_out self))] else [])"

definition GG_GattlinkProtocol_PrepareNextPacket ::
  "'c GG_GattlinkClient \<Rightarrow> 'c GG_GattlinkProtocol \<Rightarrow> (prepared \<times> 'c GG_GattlinkProtocol) option" where
  "GG_GattlinkProtocol_PrepareNextPacket C self = do {
     let ob = gl_out self;
     let max_packet_size = min (GetTransportMaxPacketSize C (gl_client self)) GG_GATTLINK_MAX_PACKET_SIZE;
     GG_ASSERT (max_packet_size \<ge> RESET_COMPLETE_PACKET_SIZE);
     let hdr = ack_header self;
     let max_packet_size = max_packet_size - length hdr;
     let only_ack = (if want_ack self then Some (hdr, 0) else None);
     if GG_GattlinkProtocol_GetNumPacketsInFlight ob \<ge> max_tx_window_size (actual_session_cfg self)
     then Some (only_ack, self)
     else do {
       let data_to_send = GetOutgoingDataAvailable C (gl_client self);
       if data_to_send = 0
       then Some (only_ack, self)
       else do {
         offset \<leftarrow> GG_GattlinkProtocol_GetTotalNumBytesAwaitingAck ob;
         let previous_size = GG_GattlinkProtocol_GetPayloadSize ob (next_data_sn ob);
         GG_ASSERT (previous_size = 0 \<longrightarrow> data_to_send \<ge> offset);
         if previous_size = 0 \<and> data_to_send - offset = 0
         then Some (only_ack, self)
         else do {
           let data_size = (if previous_size = 0 then min (data_to_send - offset) (max_packet_size - 1)
                            else previous_size);
           let payload = GetOutgoingData C (gl_client self) offset data_size;
           let packet = hdr @ of_nat (next_data_sn ob) # payload;
           let self = (if retransmit_timer ob = None
                       then upd_out (\<lambda>ob. ob\<lparr>retransmit_timer := Some GG_GATTLINK_EXPECTED_ACK_TIMEOUT\<rparr>) self
                       else self);
           Some (Some (packet, data_size), self)
         }
       }
     }
   }"

text \<open>The bookkeeping after a packet was sent.\<close>

definition book_sent :: "bytes \<Rightarrow> nat \<Rightarrow> GG_GattlinkOutboundPayloadInfo \<Rightarrow> GG_GattlinkOutboundPayloadInfo" where
  "book_sent packet payload_size ob =
     (let ob = (if hd packet AND 0x40 = 0x40
               then ob\<lparr>outstanding_unacked_packets := 0, ack_now := False, ack_timer := None\<rparr> else ob)
      in if payload_size > 0
         then (GG_GattlinkProtocol_SetPayloadSize (next_data_sn ob) payload_size ob)
                \<lparr>next_data_sn := GG_GattlinkProtocol_GetNextSn (next_data_sn ob)\<rparr>
         else ob)"

partial_function (option) GG_GattlinkProtocol_SendNextPackets ::
  "'c GG_GattlinkClient \<Rightarrow> 'c GG_GattlinkProtocol \<Rightarrow> 'c GG_GattlinkProtocol option" where
  "GG_GattlinkProtocol_SendNextPackets C self = do {
     (prepared, self) \<leftarrow> GG_GattlinkProtocol_PrepareNextPacket C self;
     case prepared of
       None \<Rightarrow> Some self
     | Some (packet, payload_size) \<Rightarrow>
         (let (result, self) = GG_GattlinkProtocol_SendRawData C packet self
          in if result \<noteq> GG_SUCCESS then Some self
             else GG_GattlinkProtocol_SendNextPackets C (upd_out (book_sent packet payload_size) self))
   }"

section \<open>Timers\<close>

definition GG_GattlinkProtocol_OnAckTimerFired ::
  "'c GG_GattlinkClient \<Rightarrow> 'c GG_GattlinkProtocol \<Rightarrow> 'c GG_GattlinkProtocol option" where
  "GG_GattlinkProtocol_OnAckTimerFired C self =
     GG_GattlinkProtocol_SendNextPackets C (upd_out (\<lambda>ob. ob\<lparr>ack_now := True\<rparr>) self)"

definition update_stall ::
  "'c GG_GattlinkClient \<Rightarrow> u32 \<Rightarrow> 'c GG_GattlinkProtocol \<Rightarrow> 'c GG_GattlinkProtocol" where
  "update_stall C elapsed self =
     (let self = self\<lparr>stall_time := stall_time self + elapsed\<rparr>;
          self = (if stall_time self < last_notified_stall_time self
                  then self\<lparr>last_notified_stall_time := 0, stall_time := elapsed\<rparr> else self)
      in if stall_time self - last_notified_stall_time self > GG_GATTLINK_STALL_NOTIFICATION_INTERVAL
         then upd_client (NotifySessionStalled C (stall_time self))
                (self\<lparr>last_notified_stall_time := stall_time self\<rparr>)
         else self)"

definition GG_GattlinkProtocol_OnSendTimeoutFired ::
  "'c GG_GattlinkClient \<Rightarrow> u32 \<Rightarrow> 'c GG_GattlinkProtocol \<Rightarrow> 'c GG_GattlinkProtocol option" where
  "GG_GattlinkProtocol_OnSendTimeoutFired C elapsed self =
     (let self = update_stall C elapsed self;
          awaiting_reset_complete =
            (gl_state self = GG_GATTLINK_STATE_AWAITING_RESET_COMPLETE_SELF_INITIATED \<or>
             gl_state self = GG_GATTLINK_STATE_AWAITING_RESET_COMPLETE_REMOTE_INITIATED)
      in if awaiting_reset_complete then map_option snd (GG_GattlinkProtocol_Reset C self)
         else if gl_state self \<noteq> GG_GATTLINK_STATE_READY then Some self
         else GG_GattlinkProtocol_SendNextPackets C
                (upd_out (\<lambda>ob. ob\<lparr>next_data_sn := next_expected_ack_sn ob\<rparr>) self))"

text \<open>
  A timer that fires has been unscheduled by the scheduler before the listener is called
  (\<^verbatim>\<open>GG_TimerScheduler_SetTime\<close>).
\<close>

datatype gl_timer = AckTimer | RetransmitTimer

definition GG_GattlinkProtocol_OnTimerFired ::
  "'c GG_GattlinkClient \<Rightarrow> gl_timer \<Rightarrow> u32 \<Rightarrow> 'c GG_GattlinkProtocol \<Rightarrow> 'c GG_GattlinkProtocol option" where
  "GG_GattlinkProtocol_OnTimerFired C timer elapsed self =
     (case timer of
        AckTimer \<Rightarrow> GG_GattlinkProtocol_OnAckTimerFired C (upd_out (\<lambda>ob. ob\<lparr>ack_timer := None\<rparr>) self)
      | RetransmitTimer \<Rightarrow> GG_GattlinkProtocol_OnSendTimeoutFired C elapsed
          (upd_out (\<lambda>ob. ob\<lparr>retransmit_timer := None\<rparr>) self))"

section \<open>Receiving\<close>

definition ack_psn :: "u8 \<Rightarrow> nat" where
  "ack_psn b = unat (b AND 0x1F)"

definition has_ack :: "u8 \<Rightarrow> bool" where
  "has_ack b \<longleftrightarrow> b AND 0x40 = 0x40"

text \<open>The processing of an acknowledgement: the first block of \<^verbatim>\<open>HandleDataPacket\<close>.\<close>

definition handle_ack ::
  "'c GG_GattlinkClient \<Rightarrow> nat \<Rightarrow> 'c GG_GattlinkProtocol \<Rightarrow> 'c GG_GattlinkProtocol option" where
  "handle_ack C ackd_psn self =
     (if GG_GattlinkProtocol_PacketIsAwaitingAck (gl_out self) ackd_psn then do {
        let next_psn = GG_GattlinkProtocol_GetNextSn ackd_psn;
        num_bytes_acked \<leftarrow> GG_GattlinkProtocol_GetTotalNumBytesAwaitingAckUpTo (gl_out self) next_psn;
        ob \<leftarrow> ClearPayloadSizesUpTo next_psn (gl_out self);
        let ob = (if \<not> GG_GattlinkProtocol_PacketIsAwaitingAck ob next_psn
                  then ob\<lparr>retransmit_timer := None\<rparr>
                  else ob\<lparr>retransmit_timer := Some GG_GATTLINK_EXPECTED_ACK_TIMEOUT\<rparr>);
        let ob = ob\<lparr>next_expected_ack_sn := next_psn\<rparr>;
        Some (upd_client (ConsumeOutgoingData C num_bytes_acked) (self\<lparr>gl_out := ob\<rparr>))
      } else Some self)"

text \<open>The payload with the expected serial number is copied to the receive buffer.\<close>

definition accept_payload ::
  "'c GG_GattlinkClient \<Rightarrow> nat \<Rightarrow> bytes \<Rightarrow> 'c GG_GattlinkProtocol \<Rightarrow> 'c GG_GattlinkProtocol option" where
  "accept_payload C psn payload self =
     (let i = (gl_in self)\<lparr>payload_buf := memcpy_at (payload_buf (gl_in self)) 0 payload,
                payload_len := length payload, bytes_consumed := 0, payload_buffer_full := True,
                next_expected_data_psn := GG_GattlinkProtocol_GetNextSn psn\<rparr>
      in map_option (\<lambda>(c, i). upd_out (\<lambda>ob. ob\<lparr>psn_to_ack_with := psn\<rparr>) (self\<lparr>gl_client := c, gl_in := i\<rparr>))
           (NotifyIncomingDataAvailable C (gl_client self, i)))"

text \<open>The end of \<^verbatim>\<open>HandleDataPacket\<close>: count the packet, arm the ack timer, flush.\<close>

definition ack_later ::
  "'c GG_GattlinkClient \<Rightarrow> 'c GG_GattlinkProtocol \<Rightarrow> (GG_Result \<times> 'c GG_GattlinkProtocol) option" where
  "ack_later C self =
     (let self = upd_out (\<lambda>ob. ob\<lparr>
            outstanding_unacked_packets := (outstanding_unacked_packets ob + 1) mod 256,
            ack_timer := Some GG_GATTLINK_SEND_ACK_TIMEOUT\<rparr>) self
      in map_option (Pair GG_SUCCESS) (GG_GattlinkProtocol_SendNextPackets C self))"

definition GG_GattlinkProtocol_HandleDataPacket ::
  "'c GG_GattlinkClient \<Rightarrow> bytes \<Rightarrow> 'c GG_GattlinkProtocol \<Rightarrow>
   (GG_Result \<times> 'c GG_GattlinkProtocol) option" where
  "GG_GattlinkProtocol_HandleDataPacket C rx_raw_data self =
     (if length rx_raw_data > GG_GATTLINK_MAX_PACKET_SIZE then Some (GG_ERROR_INVALID_PARAMETERS, self)
      else do {
        self \<leftarrow> (if has_ack (hd rx_raw_data) then handle_ack C (ack_psn (hd rx_raw_data)) self
                else Some self);
        let data = (if has_ack (hd rx_raw_data) then tl rx_raw_data else rx_raw_data);
        if data = []
        then map_option (Pair GG_SUCCESS) (GG_GattlinkProtocol_SendNextPackets C self)
        else if payload_buffer_full (gl_in self) then Some (GG_ERROR_NOT_ENOUGH_SPACE, self)
        else
          let psn = ack_psn (hd data)
          in if psn = next_expected_data_psn (gl_in self)
             then accept_payload C psn (tl data) self \<bind> ack_later C
             else if GG_GattlinkProtocol_CalculateDistance psn (next_expected_data_psn (gl_in self))
                       \<ge> max_rx_window_size (actual_session_cfg self)
             then Some (GG_ERROR_GATTLINK_UNEXPECTED_PSN, self)
             else ack_later C self
      })"

definition clear_stall ::
  "'c GG_GattlinkClient \<Rightarrow> 'c GG_GattlinkProtocol \<Rightarrow> 'c GG_GattlinkProtocol" where
  "clear_stall C self =
     (let self = (if stall_time self > GG_GATTLINK_STALL_NOTIFICATION_INTERVAL
                  then upd_client (NotifySessionStalled C 0) self else self)
      in self\<lparr>stall_time := 0, last_notified_stall_time := 0\<rparr>)"

definition GG_GattlinkProtocol_HandleIncomingRawData ::
  "'c GG_GattlinkClient \<Rightarrow> bytes \<Rightarrow> 'c GG_GattlinkProtocol \<Rightarrow>
   (GG_Result \<times> 'c GG_GattlinkProtocol) option" where
  "GG_GattlinkProtocol_HandleIncomingRawData C rx_raw_data self =
     (if rx_raw_data = [] then Some (GG_SUCCESS, self)
      else if gl_state self = GG_GATTLINK_STATE_INITIALIZED then Some (GG_SUCCESS, self)
      else
        let self = clear_stall C self;
            hdr = hd rx_raw_data
        in if hdr AND 0x80 = 0x80
           then GG_GattlinkProtocol_HandleControlPacket C (hdr AND 0x7F) rx_raw_data self
           else if gl_state self \<noteq> GG_GATTLINK_STATE_READY then Some (GG_ERROR_INVALID_STATE, self)
           else GG_GattlinkProtocol_HandleDataPacket C rx_raw_data self)"

section \<open>The functions the client calls\<close>

definition GG_GattlinkProtocol_Create ::
  "'c \<Rightarrow> GG_GattlinkSessionConfig \<Rightarrow> 'c GG_GattlinkProtocol" where
  "GG_GattlinkProtocol_Create c config =
     \<lparr>gl_client = c, gl_state = GG_GATTLINK_STATE_INITIALIZED, desired_session_cfg = config,
      actual_session_cfg = \<lparr>max_tx_window_size = 0, max_rx_window_size = 0\<rparr>,
      stall_time = 0, last_notified_stall_time = 0, gl_in = zero_in, gl_out = zero_out\<rparr>"

definition GG_GattlinkProtocol_GetIncomingDataAvailable :: "GG_GattlinkInboundPayloadInfo \<Rightarrow> nat" where
  "GG_GattlinkProtocol_GetIncomingDataAvailable i =
     (if \<not> payload_buffer_full i then 0 else payload_len i - bytes_consumed i)"

definition GG_GattlinkProtocol_GetIncomingData ::
  "GG_GattlinkInboundPayloadInfo \<Rightarrow> nat \<Rightarrow> nat \<Rightarrow> GG_Result \<times> bytes" where
  "GG_GattlinkProtocol_GetIncomingData i offset n =
     (let bytes_ready = GG_GattlinkProtocol_GetIncomingDataAvailable i
      in if bytes_ready < n \<or> offset + n > bytes_ready then (GG_ERROR_INVALID_PARAMETERS, [])
         else (GG_SUCCESS, subarray (payload_buf i) (bytes_consumed i + offset) n))"

definition GG_GattlinkProtocol_ConsumeIncomingData ::
  "nat \<Rightarrow> GG_GattlinkInboundPayloadInfo \<Rightarrow> GG_Result \<times> GG_GattlinkInboundPayloadInfo" where
  "GG_GattlinkProtocol_ConsumeIncomingData num_bytes i =
     (if num_bytes > GG_GattlinkProtocol_GetIncomingDataAvailable i
      then (GG_ERROR_INVALID_PARAMETERS, i)
      else
        let i = i\<lparr>bytes_consumed := bytes_consumed i + num_bytes\<rparr>
        in (GG_SUCCESS, if bytes_consumed i = payload_len i then i\<lparr>payload_buffer_full := False\<rparr> else i))"

definition GG_GattlinkProtocol_NotifyOutgoingDataAvailable ::
  "'c GG_GattlinkClient \<Rightarrow> 'c GG_GattlinkProtocol \<Rightarrow> 'c GG_GattlinkProtocol option" where
  "GG_GattlinkProtocol_NotifyOutgoingDataAvailable C self = GG_GattlinkProtocol_SendNextPackets C self"

definition GG_GattlinkProtocol_Start ::
  "'c GG_GattlinkClient \<Rightarrow> 'c GG_GattlinkProtocol \<Rightarrow> (GG_Result \<times> 'c GG_GattlinkProtocol) option" where
  "GG_GattlinkProtocol_Start C self =
     (if gl_state self = GG_GATTLINK_STATE_INITIALIZED then GG_GattlinkProtocol_Reset C self else None)"

text \<open>The equations of the loops, for evaluation.\<close>

declare sum_sizes.simps [code] clear_sizes.simps [code] GG_GattlinkProtocol_SendNextPackets.simps [code]

end
