(* ===== verification/Gattlink_Sender.thy ===== *)
theory Gattlink_Sender
  imports Gattlink
begin

text \<open>
  The sending half of Gattlink. The window is described by two numbers: \<open>k\<close> packets were sent
  and not yet acknowledged, and the next packet to send is the \<open>j\<close>-th of the window (\<open>j < k\<close>
  while retransmitting). The contract of the client is a locale; under it the send loop is
  shown to end, to send exactly the window in order, and to stop only when the window is full
  or everything is in flight.
\<close>

section \<open>Serial number arithmetic\<close>

definition sn_add :: "nat \<Rightarrow> nat \<Rightarrow> nat" where
  "sn_add a i = (a + i) mod GG_GATTLINK_SN_WINDOW_SIZE"

definition win_sizes :: "nat list \<Rightarrow> nat \<Rightarrow> nat \<Rightarrow> nat list" where
  "win_sizes sizes a k = map (\<lambda>i. sizes ! sn_add a i) [0..<k]"

definition win_bytes :: "nat list \<Rightarrow> nat \<Rightarrow> nat \<Rightarrow> nat" where
  "win_bytes sizes a k = sum_list (win_sizes sizes a k)"

lemma sn_add_less [simp]: "sn_add a i < 32"
  by (simp add: sn_add_def)

lemma sn_add_0 [simp]: "a < 32 \<Longrightarrow> sn_add a 0 = a"
  by (simp add: sn_add_def)

lemma sn_add_add: "sn_add (sn_add a i) m = sn_add a (i + m)"
  by (simp add: sn_add_def mod_add_left_eq add.assoc)

lemma GetNextSn_eq: "GG_GattlinkProtocol_GetNextSn a = sn_add a 1"
  by (simp add: GG_GattlinkProtocol_GetNextSn_def sn_add_def)

lemma mod_32_cases: "(x::nat) < 64 \<Longrightarrow> x mod 32 = (if x < 32 then x else x - 32)"
  by (simp add: le_mod_geq)

lemma sn_add_inj:
  assumes "i < 32" and "m < 32"
  shows "sn_add a i = sn_add a m \<longleftrightarrow> i = m"
proof -
  have "sn_add a n = (if a mod 32 + n < 32 then a mod 32 + n else a mod 32 + n - 32)" if "n < 32" for n
    using that mod_32_cases [of "a mod 32 + n"] by (simp add: sn_add_def mod_add_left_eq)
  with assms show ?thesis by auto
qed

lemma CalculateDistance_sn_add:
  assumes "a < 32" and "i < 32"
  shows "GG_GattlinkProtocol_CalculateDistance a (sn_add a i) = i"
proof (cases "a + i < 32")
  case True
  with assms show ?thesis
    by (simp add: GG_GattlinkProtocol_CalculateDistance_def sn_add_def)
next
  case False
  then have "sn_add a i = a + i - 32" using assms by (simp add: sn_add_def le_mod_geq)
  with assms False show ?thesis
    by (simp add: GG_GattlinkProtocol_CalculateDistance_def)
qed

lemma CalculateDistance_less: "GG_GattlinkProtocol_CalculateDistance a b < 32"
  by (simp add: GG_GattlinkProtocol_CalculateDistance_def)

lemma sn_add_CalculateDistance:
  assumes "a < 32" and "b < 32"
  shows "sn_add a (GG_GattlinkProtocol_CalculateDistance a b) = b"
proof -
  have "GG_GattlinkProtocol_CalculateDistance a b = (if b < a then 32 + b - a else b - a)"
    using assms mod_32_cases [of "32 + b - a"] by (auto simp: GG_GattlinkProtocol_CalculateDistance_def)
  then show ?thesis using assms by (auto simp: sn_add_def)
qed

lemma win_sizes_Suc: "win_sizes sizes a (Suc k) = win_sizes sizes a k @ [sizes ! sn_add a k]"
  by (simp add: win_sizes_def)

lemma win_bytes_Suc [simp]: "win_bytes sizes a (Suc k) = win_bytes sizes a k + sizes ! sn_add a k"
  by (simp add: win_bytes_def win_sizes_Suc)

lemma win_bytes_0 [simp]: "win_bytes sizes a 0 = 0"
  by (simp add: win_bytes_def win_sizes_def)

lemma win_bytes_mono: "i \<le> k \<Longrightarrow> win_bytes sizes a i \<le> win_bytes sizes a k"
  by (induction rule: dec_induct) auto

lemma win_bytes_split:
  "win_bytes sizes a (i + m) = win_bytes sizes a i + win_bytes sizes (sn_add a i) m"
  by (induction m) (auto simp: sn_add_add)

lemma win_bytes_upd:
  "k \<le> m \<Longrightarrow> m < 32 \<Longrightarrow> length sizes = 32 \<Longrightarrow>
    win_bytes (sizes[sn_add a m := v]) a k = win_bytes sizes a k"
  by (induction k) (auto simp: nth_list_update sn_add_inj)

lemma sum_sizes_eq:
  "a < 32 \<Longrightarrow> k < 32 \<Longrightarrow> sum_sizes sizes acc a (sn_add a k) = Some (acc + win_bytes sizes a k)"
proof (induction k arbitrary: a acc)
  case 0
  then show ?case by (subst sum_sizes.simps) simp
next
  case (Suc k)
  have ne: "a \<noteq> sn_add a (Suc k)" using sn_add_inj [of 0 "Suc k" a] Suc.prems by simp
  have "sum_sizes sizes acc a (sn_add a (Suc k)) =
      sum_sizes sizes (acc + sizes ! a) (sn_add a 1) (sn_add (sn_add a 1) k)"
    using ne by (subst sum_sizes.simps) (simp add: GetNextSn_eq sn_add_add)
  also have "\<dots> = Some (acc + sizes ! a + win_bytes sizes (sn_add a 1) k)"
    using Suc.IH [of "sn_add a 1"] Suc.prems by simp
  also have "acc + sizes ! a + win_bytes sizes (sn_add a 1) k = acc + win_bytes sizes a (Suc k)"
    using win_bytes_split [of sizes a 1 k] Suc.prems by simp
  finally show ?case .
qed

lemma clear_sizes_eq:
  "a < 32 \<Longrightarrow> k < 32 \<Longrightarrow> length sizes = 32 \<Longrightarrow>
    \<exists>sizes'. clear_sizes sizes a (sn_add a k) = Some sizes' \<and> length sizes' = 32 \<and>
      (\<forall>i < 32. sizes' ! sn_add a i = (if i < k then 0 else sizes ! sn_add a i))"
proof (induction k arbitrary: a sizes)
  case 0
  then show ?case by (subst clear_sizes.simps) simp
next
  case (Suc k)
  have ne: "a \<noteq> sn_add a (Suc k)" using sn_add_inj [of 0 "Suc k" a] Suc.prems by simp
  have step: "clear_sizes sizes a (sn_add a (Suc k)) =
      clear_sizes (sizes[a := 0]) (sn_add a 1) (sn_add (sn_add a 1) k)"
    using ne by (subst clear_sizes.simps) (simp add: GetNextSn_eq sn_add_add)
  obtain sizes' where s': "clear_sizes (sizes[a := 0]) (sn_add a 1) (sn_add (sn_add a 1) k) = Some sizes'"
    "length sizes' = 32"
    "\<And>i. i < 32 \<Longrightarrow> sizes' ! sn_add a (Suc i) = (if i < k then 0 else sizes[a := 0] ! sn_add a (Suc i))"
    using Suc.IH [of "sn_add a 1" "sizes[a := 0]"] Suc.prems by (auto simp: sn_add_add)
  have "sizes' ! sn_add a i = (if i < Suc k then 0 else sizes ! sn_add a i)" if "i < 32" for i
  proof (cases i)
    case 0
    have "sizes' ! sn_add a 32 = (if 31 < k then 0 else sizes[a := 0] ! sn_add a 32)"
      using s'(3) [of 31] by simp
    with 0 Suc.prems show ?thesis by (simp add: sn_add_def)
  next
    case (Suc m)
    with that s'(3) [of m] Suc.prems sn_add_inj [of "Suc m" 0 a] show ?thesis
      by (auto simp: nth_list_update)
  qed
  with s' step show ?case by auto
qed

section \<open>The window\<close>

text \<open>
  \<open>window_ok tx avail ob k j\<close>: the outbound record \<open>ob\<close> describes a window of \<open>k\<close> unacknowledged
  packets, of at most \<open>tx\<close>, that cover the first bytes of the \<open>avail\<close> outgoing ones; the next
  packet to send is number \<open>j\<close> of the window. Packets outside the window have size 0.
\<close>

definition window_ok :: "nat \<Rightarrow> nat \<Rightarrow> GG_GattlinkOutboundPayloadInfo \<Rightarrow> nat \<Rightarrow> nat \<Rightarrow> bool" where
  "window_ok tx avail ob k j \<longleftrightarrow>
     next_expected_ack_sn ob < 32 \<and> length (payload_sizes ob) = 32 \<and> psn_to_ack_with ob < 32 \<and>
     j \<le> k \<and> k \<le> tx \<and> tx < 32 \<and> next_data_sn ob = sn_add (next_expected_ack_sn ob) j \<and>
     (\<forall>i < 32. payload_sizes ob ! sn_add (next_expected_ack_sn ob) i > 0 \<longleftrightarrow> i < k) \<and>
     win_bytes (payload_sizes ob) (next_expected_ack_sn ob) k \<le> avail"

text \<open>The frame of window position \<open>i\<close>: its serial number and its piece of the byte stream.\<close>

definition win_frame :: "GG_GattlinkOutboundPayloadInfo \<Rightarrow> bytes \<Rightarrow> nat \<Rightarrow> nat \<times> bytes" where
  "win_frame ob stream i =
     (sn_add (next_expected_ack_sn ob) i,
      subarray stream (win_bytes (payload_sizes ob) (next_expected_ack_sn ob) i)
        (payload_sizes ob ! sn_add (next_expected_ack_sn ob) i))"

definition win_frames :: "GG_GattlinkOutboundPayloadInfo \<Rightarrow> bytes \<Rightarrow> nat \<Rightarrow> nat \<Rightarrow> (nat \<times> bytes) list" where
  "win_frames ob stream i k = map (win_frame ob stream) [i..<k]"

text \<open>The data frame a receiver finds in a packet, and in a sequence of packets.\<close>

definition data_frame :: "bytes \<Rightarrow> (nat \<times> bytes) list" where
  "data_frame packet =
     (let data = (if has_ack (hd packet) then tl packet else packet)
      in if data = [] then [] else [(ack_psn (hd data), tl data)])"

definition data_frames :: "bytes list \<Rightarrow> (nat \<times> bytes) list" where
  "data_frames packets = concat (map data_frame packets)"

lemma window_okD:
  assumes "window_ok tx avail ob k j"
  shows "next_expected_ack_sn ob < 32" "length (payload_sizes ob) = 32" "psn_to_ack_with ob < 32"
    "j \<le> k" "k \<le> tx" "tx < 32" "next_data_sn ob = sn_add (next_expected_ack_sn ob) j"
    "\<And>i. i < 32 \<Longrightarrow> payload_sizes ob ! sn_add (next_expected_ack_sn ob) i > 0 \<longleftrightarrow> i < k"
    "win_bytes (payload_sizes ob) (next_expected_ack_sn ob) k \<le> avail"
  using assms by (auto simp: window_ok_def)

text \<open>The fields of the outbound record that are not part of the window.\<close>

lemma window_ok_irrelevant [simp]:
  "window_ok tx avail (ob\<lparr>ack_timer := t\<rparr>) k j = window_ok tx avail ob k j"
  "window_ok tx avail (ob\<lparr>retransmit_timer := t\<rparr>) k j = window_ok tx avail ob k j"
  "window_ok tx avail (ob\<lparr>ack_now := a\<rparr>) k j = window_ok tx avail ob k j"
  "window_ok tx avail (ob\<lparr>outstanding_unacked_packets := n\<rparr>) k j = window_ok tx avail ob k j"
  "p < 32 \<Longrightarrow> psn_to_ack_with ob < 32 \<Longrightarrow>
    window_ok tx avail (ob\<lparr>psn_to_ack_with := p\<rparr>) k j = window_ok tx avail ob k j"
  by (simp_all add: window_ok_def)

lemma window_in_flight:
  "window_ok tx avail ob k j \<Longrightarrow> GG_GattlinkProtocol_GetNumPacketsInFlight ob = j"
  using window_okD [of tx avail ob k j]
  by (simp add: GG_GattlinkProtocol_GetNumPacketsInFlight_def CalculateDistance_sn_add)

lemma window_awaiting:
  "window_ok tx avail ob k j \<Longrightarrow> GG_GattlinkProtocol_GetTotalNumBytesAwaitingAck ob =
    Some (win_bytes (payload_sizes ob) (next_expected_ack_sn ob) j)"
  using window_okD [of tx avail ob k j] sum_sizes_eq [of "next_expected_ack_sn ob" j]
  by (simp add: GG_GattlinkProtocol_GetTotalNumBytesAwaitingAck_def
      GG_GattlinkProtocol_GetTotalNumBytesAwaitingAckUpTo_def)

text \<open>Bytes up to a window position, and the position of a packet that is not acknowledged.\<close>

lemma window_bytes_less:
  assumes w: "window_ok tx avail ob k j" and "i < k"
  shows "win_bytes (payload_sizes ob) (next_expected_ack_sn ob) i +
    payload_sizes ob ! sn_add (next_expected_ack_sn ob) i \<le> avail"
  using window_okD(9) [OF w] win_bytes_mono [of "Suc i" k "payload_sizes ob" "next_expected_ack_sn ob"]
    assms(2) by simp

lemma window_resend:
  assumes w: "window_ok tx avail ob k j" and j: "j < k"
  shows "window_ok tx avail (ob\<lparr>next_data_sn := sn_add (next_expected_ack_sn ob) (Suc j)\<rparr>) k (Suc j)"
  using w j by (auto simp: window_ok_def)

lemma window_extend:
  assumes w: "window_ok tx avail ob k k" and k: "k < tx" and n: "0 < n"
    and fit: "win_bytes (payload_sizes ob) (next_expected_ack_sn ob) k + n \<le> avail"
  shows "window_ok tx avail
    (ob\<lparr>payload_sizes := (payload_sizes ob)[sn_add (next_expected_ack_sn ob) k := n],
        next_data_sn := sn_add (next_expected_ack_sn ob) (Suc k)\<rparr>) (Suc k) (Suc k)"
proof -
  note d = window_okD [OF w]
  have "(payload_sizes ob)[sn_add (next_expected_ack_sn ob) k := n] ! sn_add (next_expected_ack_sn ob) i > 0
      \<longleftrightarrow> i < Suc k" if "i < 32" for i
    using that d(2,6,8) k n by (auto simp: nth_list_update sn_add_inj less_Suc_eq)
  moreover have "win_bytes ((payload_sizes ob)[sn_add (next_expected_ack_sn ob) k := n])
      (next_expected_ack_sn ob) k = win_bytes (payload_sizes ob) (next_expected_ack_sn ob) k"
    using win_bytes_upd [of k k "payload_sizes ob"] d(2,6) k by simp
  ultimately show ?thesis
    using d(1-7) k fit by (simp add: window_ok_def nth_list_update)
qed

text \<open>Frames of earlier positions do not change when the window is extended.\<close>

lemma win_frames_extend:
  assumes w: "window_ok tx avail ob k k" and k: "k < tx" and j: "j \<le> k"
  shows "win_frames (ob\<lparr>payload_sizes := (payload_sizes ob)[sn_add (next_expected_ack_sn ob) k := n],
      next_data_sn := x\<rparr>) stream j k = win_frames ob stream j k"
proof -
  note d = window_okD [OF w]
  have "win_frame (ob\<lparr>payload_sizes := (payload_sizes ob)[sn_add (next_expected_ack_sn ob) k := n],
      next_data_sn := x\<rparr>) stream i = win_frame ob stream i" if "i < k" for i
    using that d(2,6) k win_bytes_upd [of i k "payload_sizes ob"]
    by (simp add: win_frame_def nth_list_update sn_add_inj)
  then show ?thesis by (simp add: win_frames_def)
qed

section \<open>Packet headers\<close>

lemma not_has_ack_psn: "n < 32 \<Longrightarrow> \<not> has_ack (of_nat n)"
proof -
  have "\<forall>n \<in> set [0..<32]. \<not> has_ack (of_nat n)" by code_simp
  then show "n < 32 \<Longrightarrow> \<not> has_ack (of_nat n)" by simp
qed

lemma has_ack_ack: "n < 32 \<Longrightarrow> has_ack (0x40 OR of_nat n)"
proof -
  have "\<forall>n \<in> set [0..<32]. has_ack (0x40 OR of_nat n)" by code_simp
  then show "n < 32 \<Longrightarrow> has_ack (0x40 OR of_nat n)" by simp
qed

lemma ack_psn_of_nat: "n < 32 \<Longrightarrow> ack_psn (of_nat n) = n"
proof -
  have "\<forall>n \<in> set [0..<32]. ack_psn (of_nat n) = n" by code_simp
  then show "n < 32 \<Longrightarrow> ack_psn (of_nat n) = n" by simp
qed

lemma ack_psn_ack: "n < 32 \<Longrightarrow> ack_psn (0x40 OR of_nat n) = n"
proof -
  have "\<forall>n \<in> set [0..<32]. ack_psn (0x40 OR of_nat n) = n" by code_simp
  then show "n < 32 \<Longrightarrow> ack_psn (0x40 OR of_nat n) = n" by simp
qed

lemma ack_psn_less: "ack_psn b < 32"
proof -
  have "b AND 0x1F \<le> (0x1F :: u8)" by (rule word_and_le1)
  then show ?thesis by (simp add: ack_psn_def word_le_nat_alt)
qed

lemma data_frame_packet:
  "psn_to_ack_with (gl_out self) < 32 \<Longrightarrow> n < 32 \<Longrightarrow>
    data_frame (ack_header self @ of_nat n # payload) = [(n, payload)]"
  by (simp add: data_frame_def ack_header_def has_ack_ack not_has_ack_psn ack_psn_of_nat)

lemma data_frame_ack:
  "psn_to_ack_with (gl_out self) < 32 \<Longrightarrow> want_ack self \<Longrightarrow> data_frame (ack_header self) = []"
  by (simp add: data_frame_def ack_header_def has_ack_ack)

lemma hd_packet_ack:
  "psn_to_ack_with (gl_out self) < 32 \<Longrightarrow> n < 32 \<Longrightarrow>
    hd (ack_header self @ of_nat n # payload) AND 0x40 = 0x40 \<longleftrightarrow> want_ack self"
  using not_has_ack_psn [of n] has_ack_ack [of "psn_to_ack_with (gl_out self)"]
  by (auto simp: ack_header_def has_ack_def)

section \<open>The contract of the client\<close>

text \<open>Well-formed inbound records: the receive buffer is never overrun.\<close>

definition in_ok :: "GG_GattlinkInboundPayloadInfo \<Rightarrow> bool" where
  "in_ok i \<longleftrightarrow> next_expected_data_psn i < 32 \<and> length (payload_buf i) = GG_GATTLINK_MAX_PACKET_SIZE \<and>
     payload_len i \<le> GG_GATTLINK_MAX_PACKET_SIZE \<and> bytes_consumed i \<le> payload_len i"

text \<open>
  What the protocol relies on of its client: the outgoing data is a byte stream that can be
  read at any offset and consumed at the front, sending leaves it alone, and the transport
  can carry at least a reset packet. A client that was told of a reset is not open for new
  data (\<open>opn\<close>) until the session is ready again. \<open>sent\<close> is the sequence of packets handed to the transport.
  A connected client also accepts every packet.
\<close>

locale gattlink_client =
  fixes C :: "'c GG_GattlinkClient"
    and cinv :: "'c \<Rightarrow> bool"
    and stream :: "'c \<Rightarrow> bytes"
    and sent :: "'c \<Rightarrow> bytes list"
    and opn :: "'c \<Rightarrow> bool"
  assumes avail: "cinv c \<Longrightarrow> GetOutgoingDataAvailable C c = length (stream c)"
    and get: "cinv c \<Longrightarrow> off + n \<le> length (stream c) \<Longrightarrow>
      GetOutgoingData C c off n = subarray (stream c) off n"
    and consume_stream: "cinv c \<Longrightarrow> n \<le> length (stream c) \<Longrightarrow>
      stream (ConsumeOutgoingData C n c) = drop n (stream c)"
    and consume_sent: "sent (ConsumeOutgoingData C n c) = sent c"
    and consume_cinv: "cinv c \<Longrightarrow> n \<le> length (stream c) \<Longrightarrow> cinv (ConsumeOutgoingData C n c)"
    and max_packet: "cinv c \<Longrightarrow> RESET_COMPLETE_PACKET_SIZE \<le> GetTransportMaxPacketSize C c"
    and send_stream: "stream (snd (SendRawData C p c)) = stream c"
    and send_cinv: "cinv c \<Longrightarrow> cinv (snd (SendRawData C p c))"
    and send_opn: "opn (snd (SendRawData C p c)) = opn c"
    and incoming: "cinv c \<Longrightarrow> in_ok i \<Longrightarrow>
      \<exists>c' i'. NotifyIncomingDataAvailable C (c, i) = Some (c', i') \<and> cinv c' \<and> in_ok i' \<and>
        stream c' = stream c \<and> sent c' = sent c \<and> opn c' = opn c"
    and stalled: "stream (NotifySessionStalled C t c) = stream c"
      "sent (NotifySessionStalled C t c) = sent c"
      "cinv c \<Longrightarrow> cinv (NotifySessionStalled C t c)"
      "opn (NotifySessionStalled C t c) = opn c"
    and ready: "stream (NotifySessionReady C c) = stream c"
      "cinv c \<Longrightarrow> cinv (NotifySessionReady C c)"
    and reset: "cinv c \<Longrightarrow> stream (NotifySessionReset C c) = []"
      "cinv c \<Longrightarrow> cinv (NotifySessionReset C c)"
      "\<not> opn (NotifySessionReset C c)"

locale gattlink_client_connected = gattlink_client +
  assumes send_ok: "cinv c \<Longrightarrow> fst (SendRawData C p c) = GG_SUCCESS"
    and send_sent: "cinv c \<Longrightarrow> sent (snd (SendRawData C p c)) = sent c @ [p]"

text \<open>The retransmission timer, armed when a data packet is about to be sent.\<close>

definition arm_retransmit :: "'c GG_GattlinkProtocol \<Rightarrow> 'c GG_GattlinkProtocol" where
  "arm_retransmit self =
     (if retransmit_timer (gl_out self) = None
      then upd_out (\<lambda>ob. ob\<lparr>retransmit_timer := Some GG_GATTLINK_EXPECTED_ACK_TIMEOUT\<rparr>) self else self)"

lemma arm_retransmit_simps [simp]:
  "gl_client (arm_retransmit self) = gl_client self"
  "gl_in (arm_retransmit self) = gl_in self"
  "gl_state (arm_retransmit self) = gl_state self"
  "actual_session_cfg (arm_retransmit self) = actual_session_cfg self"
  "desired_session_cfg (arm_retransmit self) = desired_session_cfg self"
  "stall_time (arm_retransmit self) = stall_time self"
  "last_notified_stall_time (arm_retransmit self) = last_notified_stall_time self"
  "next_expected_ack_sn (gl_out (arm_retransmit self)) = next_expected_ack_sn (gl_out self)"
  "next_data_sn (gl_out (arm_retransmit self)) = next_data_sn (gl_out self)"
  "payload_sizes (gl_out (arm_retransmit self)) = payload_sizes (gl_out self)"
  "psn_to_ack_with (gl_out (arm_retransmit self)) = psn_to_ack_with (gl_out self)"
  "ack_now (gl_out (arm_retransmit self)) = ack_now (gl_out self)"
  "outstanding_unacked_packets (gl_out (arm_retransmit self)) = outstanding_unacked_packets (gl_out self)"
  "retransmit_timer (gl_out (arm_retransmit self)) \<noteq> None"
  by (simp_all add: arm_retransmit_def)

text \<open>The largest payload that fits beside the headers of the next packet.\<close>

definition payload_room :: "'c GG_GattlinkClient \<Rightarrow> 'c GG_GattlinkProtocol \<Rightarrow> nat" where
  "payload_room C self =
     min (GetTransportMaxPacketSize C (gl_client self)) GG_GATTLINK_MAX_PACKET_SIZE
       - length (ack_header self) - 1"

lemma length_ack_header: "length (ack_header self) \<le> 1"
  by (simp add: ack_header_def)

context gattlink_client
begin

lemma payload_room_pos: "cinv (gl_client self) \<Longrightarrow> 0 < payload_room C self"
  using max_packet [of "gl_client self"] length_ack_header [of self] by (simp add: payload_room_def)

lemma prepare_stop:
  assumes inv: "cinv (gl_client self)"
    and w: "window_ok tx (length (stream (gl_client self))) (gl_out self) k k"
    and tx: "tx = max_tx_window_size (actual_session_cfg self)"
    and stop: "k = tx \<or>
      win_bytes (payload_sizes (gl_out self)) (next_expected_ack_sn (gl_out self)) k =
        length (stream (gl_client self))"
  shows "GG_GattlinkProtocol_PrepareNextPacket C self =
    Some (if want_ack self then Some (ack_header self, 0) else None, self)"
proof -
  note d = window_okD [OF w]
  have z: "payload_sizes (gl_out self) ! next_data_sn (gl_out self) = 0" if "k \<noteq> tx"
    using d(8) [of k] d(4-7) that by simp
  show ?thesis
    using max_packet [OF inv] stop z
    by (auto simp: GG_GattlinkProtocol_PrepareNextPacket_def Let_def window_in_flight [OF w]
        window_awaiting [OF w] avail [OF inv] tx GG_GattlinkProtocol_GetPayloadSize_def)
qed

lemma prepare_data:
  assumes inv: "cinv (gl_client self)"
    and w: "window_ok tx (length (stream (gl_client self))) (gl_out self) k j"
    and tx: "tx = max_tx_window_size (actual_session_cfg self)"
    and size: "if j < k then n = payload_sizes (gl_out self) ! next_data_sn (gl_out self)
      else k < tx \<and> b < length (stream (gl_client self)) \<and>
        n = min (length (stream (gl_client self)) - b) (payload_room C self)"
    and b: "b = win_bytes (payload_sizes (gl_out self)) (next_expected_ack_sn (gl_out self)) j"
  shows "GG_GattlinkProtocol_PrepareNextPacket C self =
      Some (Some (ack_header self @ of_nat (next_data_sn (gl_out self)) #
        subarray (stream (gl_client self)) b n, n), arm_retransmit self)"
    and "0 < n" and "b + n \<le> length (stream (gl_client self))" and "j < tx"
proof -
  note d = window_okD [OF w]
  have prev: "payload_sizes (gl_out self) ! next_data_sn (gl_out self) > 0 \<longleftrightarrow> j < k"
    using d(8) [of j] d(4-7) by simp
  show n: "0 < n" using size prev payload_room_pos [OF inv] by (auto split: if_splits)
  show jt: "j < tx" using size d(4,5) by (auto split: if_splits)
  show bn: "b + n \<le> length (stream (gl_client self))"
    using size window_bytes_less [OF w, of j] d(7) b by (auto split: if_splits)
  have g: "GetOutgoingData C (gl_client self) b n = subarray (stream (gl_client self)) b n"
    by (rule get [OF inv bn])
  have pr: "min (GetTransportMaxPacketSize C (gl_client self)) 512 - Suc (length (ack_header self)) =
      payload_room C self"
    by (simp add: payload_room_def)
  show "GG_GattlinkProtocol_PrepareNextPacket C self =
      Some (Some (ack_header self @ of_nat (next_data_sn (gl_out self)) #
        subarray (stream (gl_client self)) b n, n), arm_retransmit self)"
    using max_packet [OF inv] jt bn n g size prev
    by (auto simp: GG_GattlinkProtocol_PrepareNextPacket_def Let_def window_in_flight [OF w]
        window_awaiting [OF w] avail [OF inv] GG_GattlinkProtocol_GetPayloadSize_def
        arm_retransmit_def pr simp flip: tx b split: if_splits)
qed

end

section \<open>The send loop\<close>

text \<open>The parts of the protocol state that sending does not touch.\<close>

definition same_session :: "'c GG_GattlinkProtocol \<Rightarrow> 'c GG_GattlinkProtocol \<Rightarrow> bool" where
  "same_session self self' \<longleftrightarrow>
     gl_state self' = gl_state self \<and> gl_in self' = gl_in self \<and>
     actual_session_cfg self' = actual_session_cfg self \<and>
     desired_session_cfg self' = desired_session_cfg self \<and>
     stall_time self' = stall_time self \<and>
     last_notified_stall_time self' = last_notified_stall_time self \<and>
     psn_to_ack_with (gl_out self') = psn_to_ack_with (gl_out self) \<and>
     next_expected_ack_sn (gl_out self') = next_expected_ack_sn (gl_out self)"

lemma same_session_refl [simp]: "same_session self self"
  by (simp add: same_session_def)

lemma same_session_trans [trans]: "same_session a b \<Longrightarrow> same_session b c \<Longrightarrow> same_session a c"
  by (simp add: same_session_def)

text \<open>The state after a packet was prepared, accepted by the transport and booked.\<close>

definition after_send ::
  "'c GG_GattlinkClient \<Rightarrow> bytes \<Rightarrow> nat \<Rightarrow> 'c GG_GattlinkProtocol \<Rightarrow> 'c GG_GattlinkProtocol" where
  "after_send C packet n self =
     self\<lparr>gl_client := snd (SendRawData C packet (gl_client self)),
          gl_out := book_sent packet n (gl_out self)\<rparr>"

lemma SendNextPackets_unfold:
  assumes "GG_GattlinkProtocol_PrepareNextPacket C self = Some (Some (packet, n), self1)"
    and "fst (SendRawData C packet (gl_client self1)) = GG_SUCCESS"
  shows "GG_GattlinkProtocol_SendNextPackets C self =
    GG_GattlinkProtocol_SendNextPackets C (after_send C packet n self1)"
  using assms
  by (subst GG_GattlinkProtocol_SendNextPackets.simps)
    (simp add: GG_GattlinkProtocol_SendRawData_def after_send_def split_beta)

lemma book_sent_data:
  assumes p: "psn_to_ack_with (gl_out self) < 32" and n: "0 < n" and sn: "next_data_sn (gl_out self) < 32"
    and ob: "ob = book_sent (ack_header self @ of_nat (next_data_sn (gl_out self)) # payload) n
      (gl_out (arm_retransmit self))"
  shows "next_expected_ack_sn ob = next_expected_ack_sn (gl_out self)"
    and "psn_to_ack_with ob = psn_to_ack_with (gl_out self)"
    and "payload_sizes ob = (payload_sizes (gl_out self))[next_data_sn (gl_out self) := n]"
    and "next_data_sn ob = sn_add (next_data_sn (gl_out self)) 1"
    and "ack_now ob = (ack_now (gl_out self) \<and> \<not> want_ack self)"
    and "outstanding_unacked_packets ob =
      (if want_ack self then 0 else outstanding_unacked_packets (gl_out self))"
  using hd_packet_ack [OF p sn] n
  by (simp_all add: ob book_sent_def GG_GattlinkProtocol_SetPayloadSize_def GetNextSn_eq)

lemma window_ok_cong:
  assumes "window_ok tx avail ob k j" and "next_expected_ack_sn ob' = next_expected_ack_sn ob"
    and "psn_to_ack_with ob' < 32" and "payload_sizes ob' = payload_sizes ob"
    and "next_data_sn ob' = next_data_sn ob"
  shows "window_ok tx avail ob' k j"
  using assms by (simp add: window_ok_def)

lemma win_frames_cong:
  assumes "next_expected_ack_sn ob' = next_expected_ack_sn ob" and "payload_sizes ob' = payload_sizes ob"
  shows "win_frames ob' str i k = win_frames ob str i k"
  using assms by (simp add: win_frames_def win_frame_def)

text \<open>The effect on the window of booking the frame at position \<open>j\<close> with \<open>n\<close> payload bytes.\<close>

lemma window_after_send:
  assumes w: "window_ok tx avail ob k j"
    and b: "b = win_bytes (payload_sizes ob) (next_expected_ack_sn ob) j"
    and n: "0 < n" "b + n \<le> avail" "if j < k then n = payload_sizes ob ! next_data_sn ob else k < tx"
    and ob': "next_expected_ack_sn ob' = next_expected_ack_sn ob" "psn_to_ack_with ob' = psn_to_ack_with ob"
      "payload_sizes ob' = (payload_sizes ob)[next_data_sn ob := n]"
      "next_data_sn ob' = sn_add (next_data_sn ob) 1"
  shows "window_ok tx avail ob' (max k (Suc j)) (Suc j)"
    and "win_frame ob' str j = (next_data_sn ob, subarray str b n)"
    and "win_frames ob' str 0 k = win_frames ob str 0 k"
proof -
  note d = window_okD [OF w]
  let ?a = "next_expected_ack_sn ob"
  have nsn: "next_data_sn ob' = sn_add ?a (Suc j)" using ob'(4) d(7) by (simp add: sn_add_add)
  have jlt: "j < 32" using n(3) d(4-6) by (auto split: if_splits)
  have psn: "psn_to_ack_with ob' < 32" using ob'(2) d(3) by simp
  show "win_frame ob' str j = (next_data_sn ob, subarray str b n)"
    using ob' b d(2,7) jlt by (simp add: win_frame_def nth_list_update win_bytes_upd)
  show "window_ok tx avail ob' (max k (Suc j)) (Suc j)"
  proof (cases "j < k")
    case True
    then have "payload_sizes ob' = payload_sizes ob" using ob'(3) n(3) by simp
    with True nsn ob'(1) psn show ?thesis
      using window_ok_cong [OF window_resend [OF w True], of ob'] by (simp add: max_absorb1)
  next
    case False
    then have jk: "j = k" "k < tx" using d(4) n(3) by auto
    have "window_ok tx avail ob' (Suc k) (Suc k)"
      by (rule window_ok_cong [OF window_extend [OF w [unfolded jk] jk(2) n(1)]])
        (use n(2) b ob' nsn d(7) jk psn in auto)
    with jk show ?thesis by simp
  qed
  show "win_frames ob' str 0 k = win_frames ob str 0 k"
  proof (cases "j < k")
    case True
    with ob' n(3) show ?thesis by (intro win_frames_cong) auto
  next
    case False
    then have jk: "j = k" "k < tx" using d(4) n(3) by auto
    let ?ob = "ob\<lparr>payload_sizes := (payload_sizes ob)[sn_add ?a k := n], next_data_sn := 0\<rparr>"
    have "win_frames ob' str 0 k = win_frames ?ob str 0 k"
      using ob' d(7) jk by (intro win_frames_cong) auto
    then show ?thesis using win_frames_extend [OF w [unfolded jk] jk(2), of 0] by simp
  qed
qed

text \<open>One turn of the loop that sends data: the packet is the next frame of the window.\<close>

context gattlink_client_connected
begin

lemma send_data_step:
  assumes inv: "cinv (gl_client self)"
    and w: "window_ok tx (length str) (gl_out self) k j"
    and str: "stream (gl_client self) = str"
    and tx: "tx = max_tx_window_size (actual_session_cfg self)"
    and more: "j < k \<or> k < tx \<and>
      win_bytes (payload_sizes (gl_out self)) (next_expected_ack_sn (gl_out self)) k < length str"
  shows "\<exists>self' packet. GG_GattlinkProtocol_SendNextPackets C self =
      GG_GattlinkProtocol_SendNextPackets C self' \<and> same_session self self' \<and>
      cinv (gl_client self') \<and> stream (gl_client self') = str \<and>
      sent (gl_client self') = sent (gl_client self) @ [packet] \<and>
      j < tx \<and> window_ok tx (length str) (gl_out self') (max k (Suc j)) (Suc j) \<and>
      data_frame packet = [win_frame (gl_out self') str j] \<and>
      win_frames (gl_out self') str 0 k = win_frames (gl_out self) str 0 k"
proof -
  note d = window_okD [OF w]
  define ob where "ob = gl_out self"
  define b where "b = win_bytes (payload_sizes ob) (next_expected_ack_sn ob) j"
  define n where "n = (if j < k then payload_sizes ob ! next_data_sn ob
    else min (length str - b) (payload_room C self))"
  define packet where "packet = ack_header self @ of_nat (next_data_sn ob) # subarray str b n"
  define self' where "self' = after_send C packet n (arm_retransmit self)"
  have jk: "j = k" if "\<not> j < k" using d(4) that by simp
  have size: "if j < k then n = payload_sizes (gl_out self) ! next_data_sn (gl_out self)
      else k < tx \<and> b < length (stream (gl_client self)) \<and>
        n = min (length (stream (gl_client self)) - b) (payload_room C self)"
    using more jk str by (auto simp: n_def b_def ob_def)
  note pd = prepare_data [OF inv w [folded str] tx size b_def [unfolded ob_def], unfolded str,
      folded ob_def, folded packet_def]
  have sn: "next_data_sn (gl_out self) < 32" using d(7) by simp
  have out: "gl_out self' = book_sent packet n (gl_out (arm_retransmit self))"
    by (simp add: self'_def after_send_def)
  note bs = book_sent_data [OF d(3) pd(2) sn out [unfolded packet_def ob_def], folded ob_def]
  have nc: "if j < k then n = payload_sizes ob ! next_data_sn ob else k < tx"
    using size by (auto simp: ob_def)
  note wa = window_after_send [OF w [folded ob_def] b_def pd(2,3) nc bs(1-4)]
  have unf: "GG_GattlinkProtocol_SendNextPackets C self = GG_GattlinkProtocol_SendNextPackets C self'"
    using SendNextPackets_unfold [OF pd(1)] send_ok inv by (simp add: self'_def)
  have ses: "same_session self self'"
    using bs by (simp add: same_session_def self'_def after_send_def ob_def)
  have cl: "cinv (gl_client self')" "stream (gl_client self') = str"
    "sent (gl_client self') = sent (gl_client self) @ [packet]"
    using inv send_cinv send_stream send_sent str by (simp_all add: self'_def after_send_def)
  have fr: "data_frame packet = [win_frame (gl_out self') str j]"
    using data_frame_packet [OF d(3) sn] wa(2) by (simp add: packet_def ob_def)
  from unf ses cl pd(4) wa(1,3) fr show ?thesis unfolding ob_def by blast
qed

text \<open>With no data to send, the loop sends the acknowledgement that is due, if any, and ends.\<close>

lemma send_acks:
  assumes inv: "cinv (gl_client self)" and psn: "psn_to_ack_with (gl_out self) < 32"
    and prep: "\<And>s. cinv (gl_client s) \<Longrightarrow> stream (gl_client s) = stream (gl_client self) \<Longrightarrow>
      same_session self s \<Longrightarrow> payload_sizes (gl_out s) = payload_sizes (gl_out self) \<Longrightarrow>
      next_data_sn (gl_out s) = next_data_sn (gl_out self) \<Longrightarrow>
      GG_GattlinkProtocol_PrepareNextPacket C s = Some (if want_ack s then Some (ack_header s, 0) else None, s)"
  shows "\<exists>self' packets. GG_GattlinkProtocol_SendNextPackets C self = Some self' \<and>
      same_session self self' \<and> cinv (gl_client self') \<and> stream (gl_client self') = stream (gl_client self) \<and>
      sent (gl_client self') = sent (gl_client self) @ packets \<and> data_frames packets = [] \<and>
      opn (gl_client self') = opn (gl_client self) \<and>
      \<not> want_ack self' \<and> payload_sizes (gl_out self') = payload_sizes (gl_out self) \<and>
      next_data_sn (gl_out self') = next_data_sn (gl_out self)"
proof (cases "want_ack self")
  case False
  have "GG_GattlinkProtocol_SendNextPackets C self = Some self"
    using prep [OF inv] False by (subst GG_GattlinkProtocol_SendNextPackets.simps) simp
  with False inv show ?thesis by (intro exI [of _ self] exI [of _ "[]"]) (simp add: data_frames_def)
next
  case True
  let ?p = "ack_header self"
  define self' where "self' = after_send C ?p 0 self"
  have hd: "hd ?p AND 0x40 = 0x40"
    using True has_ack_ack [OF psn] by (simp add: ack_header_def has_ack_def)
  have out: "gl_out self' = (gl_out self)\<lparr>outstanding_unacked_packets := 0, ack_now := False, ack_timer := None\<rparr>"
    using hd by (simp add: self'_def after_send_def book_sent_def)
  have rest: "same_session self self'" "cinv (gl_client self')"
    "stream (gl_client self') = stream (gl_client self)"
    "sent (gl_client self') = sent (gl_client self) @ [?p]"
    "opn (gl_client self') = opn (gl_client self)"
    using inv send_cinv send_stream send_sent send_opn out by (simp_all add: self'_def after_send_def same_session_def)
  have nw: "\<not> want_ack self'" using out by (simp add: want_ack_def)
  have "GG_GattlinkProtocol_SendNextPackets C self = GG_GattlinkProtocol_SendNextPackets C self'"
    using SendNextPackets_unfold [of C self ?p 0 self] prep [OF inv] True send_ok inv
    by (simp add: self'_def)
  also have "\<dots> = Some self'"
    using prep [OF rest(2,3,1)] nw out by (subst GG_GattlinkProtocol_SendNextPackets.simps) simp
  finally have "GG_GattlinkProtocol_SendNextPackets C self = Some self'" .
  with rest nw out data_frame_ack [OF psn True] show ?thesis
    by (intro exI [of _ self'] exI [of _ "[?p]"]) (simp add: data_frames_def)
qed

lemma send_stop_step:
  assumes inv: "cinv (gl_client self)"
    and w: "window_ok tx (length str) (gl_out self) k k"
    and str: "stream (gl_client self) = str"
    and tx: "tx = max_tx_window_size (actual_session_cfg self)"
    and stop: "k = tx \<or>
      win_bytes (payload_sizes (gl_out self)) (next_expected_ack_sn (gl_out self)) k = length str"
  shows "\<exists>self' packets. GG_GattlinkProtocol_SendNextPackets C self = Some self' \<and>
      same_session self self' \<and> cinv (gl_client self') \<and> stream (gl_client self') = str \<and>
      sent (gl_client self') = sent (gl_client self) @ packets \<and> data_frames packets = [] \<and>
      window_ok tx (length str) (gl_out self') k k \<and> \<not> want_ack self' \<and>
      payload_sizes (gl_out self') = payload_sizes (gl_out self)"
proof -
  have "GG_GattlinkProtocol_PrepareNextPacket C s = Some (if want_ack s then Some (ack_header s, 0) else None, s)"
    if "cinv (gl_client s)" "stream (gl_client s) = stream (gl_client self)" "same_session self s"
      "payload_sizes (gl_out s) = payload_sizes (gl_out self)"
      "next_data_sn (gl_out s) = next_data_sn (gl_out self)" for s
  proof (rule prepare_stop [OF that(1), of tx k])
    show "window_ok tx (length (stream (gl_client s))) (gl_out s) k k"
      using window_ok_cong [OF w, of "gl_out s"] that str window_okD(3) [OF w] by (simp add: same_session_def)
  qed (use that str tx stop in \<open>auto simp: same_session_def\<close>)
  from send_acks [OF inv window_okD(3) [OF w] this] show ?thesis
    using window_ok_cong [OF w] window_okD(3) [OF w] str by (fastforce simp: same_session_def)
qed

lemma send_idle:
  assumes inv: "cinv (gl_client self)" and psn: "psn_to_ack_with (gl_out self) < 32"
    and str: "stream (gl_client self) = []"
  shows "\<exists>self'. GG_GattlinkProtocol_SendNextPackets C self = Some self' \<and>
      same_session self self' \<and> cinv (gl_client self') \<and> stream (gl_client self') = [] \<and>
      opn (gl_client self') = opn (gl_client self)"
proof -
  have "GG_GattlinkProtocol_PrepareNextPacket C s = Some (if want_ack s then Some (ack_header s, 0) else None, s)"
    if "cinv (gl_client s)" "stream (gl_client s) = stream (gl_client self)" for s
    using max_packet [OF that(1)] avail [OF that(1)] that(2) str
    by (simp add: GG_GattlinkProtocol_PrepareNextPacket_def Let_def)
  from send_acks [OF inv psn this] str show ?thesis by fastforce
qed

text \<open>
  The whole loop: it ends; it sends the frames of the window from position \<open>j\<close> on, in order and
  without gaps; it stops with the window full or with all the data in flight; no
  acknowledgement is left waiting.
\<close>

lemma send_loop:
  assumes "cinv (gl_client self)"
    and "window_ok tx (length str) (gl_out self) k j"
    and "stream (gl_client self) = str"
    and "tx = max_tx_window_size (actual_session_cfg self)"
  shows "\<exists>self' packets k'. GG_GattlinkProtocol_SendNextPackets C self = Some self' \<and>
      same_session self self' \<and> cinv (gl_client self') \<and> stream (gl_client self') = str \<and>
      sent (gl_client self') = sent (gl_client self) @ packets \<and>
      window_ok tx (length str) (gl_out self') k' k' \<and> k \<le> k' \<and> \<not> want_ack self' \<and>
      data_frames packets = win_frames (gl_out self') str j k' \<and>
      win_frames (gl_out self') str 0 k = win_frames (gl_out self) str 0 k \<and>
      (k' = tx \<or> win_bytes (payload_sizes (gl_out self')) (next_expected_ack_sn (gl_out self')) k' = length str)"
  using assms
proof (induction "tx - j" arbitrary: self k j)
  case less: 0
  note d = window_okD [OF less.prems(2)]
  have "j = tx" "k = tx" using less.hyps d(4,5) by auto
  with send_stop_step [OF less.prems(1) _ less.prems(3,4), of k] less.prems(2) show ?case
    by (fastforce simp: win_frames_def win_frame_def same_session_def)
next
  case (Suc m)
  note d = window_okD [OF Suc.prems(2)]
  let ?b = "win_bytes (payload_sizes (gl_out self)) (next_expected_ack_sn (gl_out self))"
  show ?case
  proof (cases "j < k \<or> k < tx \<and> ?b k < length str")
    case False
    then have "j = k" and stop: "k = tx \<or> ?b k = length str" using d(4,5,9) by auto
    with send_stop_step [OF Suc.prems(1) _ Suc.prems(3,4) stop] Suc.prems(2) stop show ?thesis
      by (fastforce simp: win_frames_def win_frame_def same_session_def)
  next
    case True
    from send_data_step [OF Suc.prems True] obtain self1 packet where s1:
      "GG_GattlinkProtocol_SendNextPackets C self = GG_GattlinkProtocol_SendNextPackets C self1"
      "same_session self self1" "cinv (gl_client self1)" "stream (gl_client self1) = str"
      "sent (gl_client self1) = sent (gl_client self) @ [packet]" "j < tx"
      "window_ok tx (length str) (gl_out self1) (max k (Suc j)) (Suc j)"
      "data_frame packet = [win_frame (gl_out self1) str j]"
      "win_frames (gl_out self1) str 0 k = win_frames (gl_out self) str 0 k"
      by blast
    have m: "m = tx - Suc j" and tx1: "tx = max_tx_window_size (actual_session_cfg self1)"
      using Suc.hyps(2) s1(2) Suc.prems(4) by (auto simp: same_session_def)
    from Suc.hyps(1) [OF m s1(3,7,4) tx1] obtain self' packets k' where s':
      "GG_GattlinkProtocol_SendNextPackets C self1 = Some self'" "same_session self1 self'"
      "cinv (gl_client self')" "stream (gl_client self') = str"
      "sent (gl_client self') = sent (gl_client self1) @ packets"
      "window_ok tx (length str) (gl_out self') k' k'" "max k (Suc j) \<le> k'" "\<not> want_ack self'"
      "data_frames packets = win_frames (gl_out self') str (Suc j) k'"
      "win_frames (gl_out self') str 0 (max k (Suc j)) = win_frames (gl_out self1) str 0 (max k (Suc j))"
      "k' = tx \<or> win_bytes (payload_sizes (gl_out self')) (next_expected_ack_sn (gl_out self')) k' = length str"
      by blast
    have nth: "win_frame (gl_out self') str i = win_frame (gl_out self1) str i" if "i < max k (Suc j)" for i
      using arg_cong [OF s'(10), of "\<lambda>xs. xs ! i"] that by (simp add: win_frames_def)
    have k: "win_frames (gl_out self') str 0 k = win_frames (gl_out self) str 0 k"
      unfolding s1(9) [symmetric] using nth by (simp add: win_frames_def)
    have "data_frames (packet # packets) = win_frames (gl_out self') str j k'"
      using s1(8) s'(7,9) nth [of j] by (simp add: data_frames_def win_frames_def upt_conv_Cons)
    then have "data_frames (packet # packets) = win_frames (gl_out self') str j k' \<and>
      sent (gl_client self') = sent (gl_client self) @ packet # packets"
      using s1(5) s'(5) by simp
    with s1(1) same_session_trans [OF s1(2) s'(2)] s'(1,3,4,6,7,8,11) k show ?thesis
      by (metis max.bounded_iff)
  qed
qed

end

end
