(* ===== verification/Gattlink_Props.thy ===== *)
theory Gattlink_Props
  imports Gattlink_Sender
begin

text \<open>
  The handlers of the Gattlink protocol under the contract of its client: what an
  acknowledgement does to the window, and that every operation returns and keeps the
  invariant, whatever the peer sends and whichever timer fires.
\<close>

section \<open>Acknowledgements\<close>

text \<open>Acknowledging window position \<open>i\<close> drops the first \<open>i + 1\<close> packets of the window.\<close>

lemma window_ack:
  assumes w: "window_ok tx avail ob k k" and i: "i < k"
    and a: "a = next_expected_ack_sn ob" and b: "b = win_bytes (payload_sizes ob) a (Suc i)"
    and len: "length sizes' = 32"
    and sizes: "\<And>m. m < 32 \<Longrightarrow> sizes' ! sn_add a m = (if m < Suc i then 0 else payload_sizes ob ! sn_add a m)"
    and ob': "ob' = ob\<lparr>payload_sizes := sizes', next_expected_ack_sn := sn_add a (Suc i), retransmit_timer := t\<rparr>"
  shows "b \<le> avail" and "window_ok tx (avail - b) ob' (k - Suc i) (k - Suc i)"
    and "win_frames ob' (drop b str) 0 (k - Suc i) = win_frames ob str (Suc i) k"
proof -
  note d = window_okD [OF w]
  have k32: "k < 32" using d(5,6) by simp
  have le: "b \<le> win_bytes (payload_sizes ob) a k" unfolding b using i by (intro win_bytes_mono) simp
  then show ba: "b \<le> avail" using d(9) a by simp
  have same: "sizes' ! sn_add a m = payload_sizes ob ! sn_add a m" if "Suc i \<le> m" "m < 32" for m
    using sizes [of m] that by simp
  have part: "win_bytes sizes' (sn_add a (Suc i)) m = win_bytes (payload_sizes ob) (sn_add a (Suc i)) m"
    if "m \<le> k - Suc i" for m
    using that k32 by (induction m) (auto simp: sn_add_add same)
  have split: "win_bytes (payload_sizes ob) a (Suc i + m) =
      b + win_bytes (payload_sizes ob) (sn_add a (Suc i)) m" for m
    using win_bytes_split [of "payload_sizes ob" a "Suc i" m] b by simp
  have pos: "sizes' ! sn_add (sn_add a (Suc i)) m > 0 \<longleftrightarrow> m < k - Suc i" if "m < 32" for m
  proof (cases "Suc i + m < 32")
    case True
    then show ?thesis using d(8) [of "Suc i + m"] same [of "Suc i + m"] a by (auto simp: sn_add_add)
  next
    case False
    have "sn_add a (Suc i + m) = sn_add a (Suc i + m - 32)"
      using False by (simp add: sn_add_def le_mod_geq)
    moreover have "Suc i + m - 32 < Suc i" "Suc i + m - 32 < 32" using that i k32 by auto
    ultimately have "sizes' ! sn_add (sn_add a (Suc i)) m = 0"
      using sizes [of "Suc i + m - 32"] by (simp only: sn_add_add if_True)
    with False k32 show ?thesis by simp
  qed
  show "window_ok tx (avail - b) ob' (k - Suc i) (k - Suc i)"
  proof -
    have "win_bytes (payload_sizes ob) (sn_add a (Suc i)) (k - Suc i) \<le> avail - b" and "k - Suc i \<le> tx"
      using d(5,9) split [of "k - Suc i"] i a by auto
    with d len pos part [of "k - Suc i"] i a show ?thesis
      by (simp add: window_ok_def ob' sn_add_add)
  qed
  show "win_frames ob' (drop b str) 0 (k - Suc i) = win_frames ob str (Suc i) k"
  proof -
    have "win_frame ob' (drop b str) m = win_frame ob str (Suc i + m)" if "m < k - Suc i" for m
      using that part [of m] split [of m] same [of "Suc i + m"] k32 a
      by (simp add: win_frame_def ob' sn_add_add subarray_def add.commute)
    then show ?thesis
      using i by (intro nth_equalityI) (auto simp: win_frames_def)
  qed
qed

lemma window_awaiting_ack:
  assumes w: "window_ok tx avail ob k j" and p: "p < 32"
  shows "GG_GattlinkProtocol_PacketIsAwaitingAck ob p \<longleftrightarrow>
    GG_GattlinkProtocol_CalculateDistance (next_expected_ack_sn ob) p < k"
  using window_okD(8) [OF w CalculateDistance_less [of "next_expected_ack_sn ob" p]]
    sn_add_CalculateDistance [OF window_okD(1) [OF w] p]
  by (simp add: GG_GattlinkProtocol_PacketIsAwaitingAck_def)

context gattlink_client
begin

lemma handle_ack_spec:
  assumes inv: "cinv (gl_client self)" and p: "p < 32"
    and w: "window_ok tx (length (stream (gl_client self))) (gl_out self) k k"
    and i: "i = GG_GattlinkProtocol_CalculateDistance (next_expected_ack_sn (gl_out self)) p"
    and b: "b = win_bytes (payload_sizes (gl_out self)) (next_expected_ack_sn (gl_out self)) (Suc i)"
  shows "\<not> i < k \<Longrightarrow> handle_ack C p self = Some self"
    and "i < k \<Longrightarrow> \<exists>ob. handle_ack C p self =
        Some (self\<lparr>gl_out := ob, gl_client := ConsumeOutgoingData C b (gl_client self)\<rparr>) \<and>
      b \<le> length (stream (gl_client self)) \<and>
      window_ok tx (length (stream (gl_client self)) - b) ob (k - Suc i) (k - Suc i) \<and>
      win_frames ob (drop b (stream (gl_client self))) 0 (k - Suc i) =
        win_frames (gl_out self) (stream (gl_client self)) (Suc i) k \<and>
      psn_to_ack_with ob = psn_to_ack_with (gl_out self) \<and> ack_now ob = ack_now (gl_out self) \<and>
      outstanding_unacked_packets ob = outstanding_unacked_packets (gl_out self) \<and>
      ack_timer ob = ack_timer (gl_out self) \<and>
      next_expected_ack_sn ob = sn_add (next_expected_ack_sn (gl_out self)) (Suc i)"
proof -
  note d = window_okD [OF w]
  let ?a = "next_expected_ack_sn (gl_out self)"
  note aw = window_awaiting_ack [OF w p, folded i]
  show "handle_ack C p self = Some self" if "\<not> i < k"
    using that aw by (simp add: handle_ack_def)
  assume ik: "i < k"
  have nx: "GG_GattlinkProtocol_GetNextSn p = sn_add ?a (Suc i)"
    using sn_add_CalculateDistance [OF d(1) p, folded i] by (metis GetNextSn_eq sn_add_add Suc_eq_plus1)
  have i32: "Suc i < 32" using ik d(5,6) by simp
  obtain sizes' where cl: "clear_sizes (payload_sizes (gl_out self)) ?a (sn_add ?a (Suc i)) = Some sizes'"
    "length sizes' = 32"
    "\<And>m. m < 32 \<Longrightarrow> sizes' ! sn_add ?a m =
      (if m < Suc i then 0 else payload_sizes (gl_out self) ! sn_add ?a m)"
    using clear_sizes_eq [OF d(1) i32 d(2)] by auto
  have sum: "GG_GattlinkProtocol_GetTotalNumBytesAwaitingAckUpTo (gl_out self) (sn_add ?a (Suc i)) = Some b"
    using sum_sizes_eq [OF d(1) i32] b
    by (simp add: GG_GattlinkProtocol_GetTotalNumBytesAwaitingAckUpTo_def)
  define t where "t = (if GG_GattlinkProtocol_PacketIsAwaitingAck
      ((gl_out self)\<lparr>payload_sizes := sizes'\<rparr>) (sn_add ?a (Suc i))
    then Some GG_GATTLINK_EXPECTED_ACK_TIMEOUT else None)"
  define ob where "ob = (gl_out self)\<lparr>payload_sizes := sizes',
    next_expected_ack_sn := sn_add ?a (Suc i), retransmit_timer := t\<rparr>"
  have "handle_ack C p self =
      Some (self\<lparr>gl_out := ob, gl_client := ConsumeOutgoingData C b (gl_client self)\<rparr>)"
    using ik aw by (simp add: handle_ack_def nx sum ClearPayloadSizesUpTo_def cl(1) ob_def t_def)
  with window_ack [OF w ik refl b cl(2,3) ob_def] show "\<exists>ob. handle_ack C p self =
        Some (self\<lparr>gl_out := ob, gl_client := ConsumeOutgoingData C b (gl_client self)\<rparr>) \<and>
      b \<le> length (stream (gl_client self)) \<and>
      window_ok tx (length (stream (gl_client self)) - b) ob (k - Suc i) (k - Suc i) \<and>
      win_frames ob (drop b (stream (gl_client self))) 0 (k - Suc i) =
        win_frames (gl_out self) (stream (gl_client self)) (Suc i) k \<and>
      psn_to_ack_with ob = psn_to_ack_with (gl_out self) \<and> ack_now ob = ack_now (gl_out self) \<and>
      outstanding_unacked_packets ob = outstanding_unacked_packets (gl_out self) \<and>
      ack_timer ob = ack_timer (gl_out self) \<and>
      next_expected_ack_sn ob = sn_add (next_expected_ack_sn (gl_out self)) (Suc i)"
    by (auto simp: ob_def)
qed

end

section \<open>The protocol invariant\<close>

text \<open>
  In the ready state the outbound record is a settled window over the outgoing stream; in the
  other states there is nothing to send, and the client takes no data to send. The
  configured transmit window leaves one serial number unused.
\<close>

definition gl_inv ::
  "('c \<Rightarrow> bool) \<Rightarrow> ('c \<Rightarrow> bytes) \<Rightarrow> ('c \<Rightarrow> bool) \<Rightarrow> 'c GG_GattlinkProtocol \<Rightarrow> bool" where
  "gl_inv cinv stream opn self \<longleftrightarrow>
     cinv (gl_client self) \<and> in_ok (gl_in self) \<and> max_tx_window_size (desired_session_cfg self) < 32 \<and>
     psn_to_ack_with (gl_out self) < 32 \<and>
     (if gl_state self = GG_GATTLINK_STATE_READY
      then \<exists>k. window_ok (max_tx_window_size (actual_session_cfg self))
             (length (stream (gl_client self))) (gl_out self) k k
      else stream (gl_client self) = [] \<and> \<not> opn (gl_client self))"

lemma zero_in_ok [simp]: "in_ok zero_in"
  by (simp add: in_ok_def zero_in_def)

lemma zero_out_window: "tx < 32 \<Longrightarrow> window_ok tx avail zero_out 0 0"
  by (simp add: window_ok_def zero_out_def)

lemma Create_gl_inv:
  "cinv c \<Longrightarrow> stream c = [] \<Longrightarrow> \<not> opn c \<Longrightarrow> max_tx_window_size cfg < 32 \<Longrightarrow>
    gl_inv cinv stream opn (GG_GattlinkProtocol_Create c cfg)"
  by (simp add: gl_inv_def GG_GattlinkProtocol_Create_def zero_out_def)

text \<open>The operations a session is driven by.\<close>

datatype gl_event =
    Receive bytes
  | TimerFired gl_timer u32
  | OutgoingDataAvailable
  | SessionReset

definition gl_step ::
  "'c GG_GattlinkClient \<Rightarrow> gl_event \<Rightarrow> 'c GG_GattlinkProtocol \<Rightarrow> 'c GG_GattlinkProtocol option" where
  "gl_step C ev self =
     (case ev of
        Receive data \<Rightarrow> map_option snd (GG_GattlinkProtocol_HandleIncomingRawData C data self)
      | TimerFired t elapsed \<Rightarrow> GG_GattlinkProtocol_OnTimerFired C t elapsed self
      | OutgoingDataAvailable \<Rightarrow> GG_GattlinkProtocol_NotifyOutgoingDataAvailable C self
      | SessionReset \<Rightarrow> map_option snd (GG_GattlinkProtocol_Reset C self))"

fun gl_run ::
  "'c GG_GattlinkClient \<Rightarrow> gl_event list \<Rightarrow> 'c GG_GattlinkProtocol \<Rightarrow> 'c GG_GattlinkProtocol option" where
  "gl_run C [] self = Some self"
| "gl_run C (ev # evs) self = gl_step C ev self \<bind> gl_run C evs"

context gattlink_client
begin

lemma Reset_restarts:
  assumes c: "cinv (gl_client self)" and i: "in_ok (gl_in self)"
    and d: "max_tx_window_size (desired_session_cfg self) < 32" and p: "psn_to_ack_with (gl_out self) < 32"
    and n: "gl_state self \<noteq> GG_GATTLINK_STATE_READY \<Longrightarrow>
      stream (gl_client self) = [] \<and> \<not> opn (gl_client self)"
  shows "\<exists>r self'. GG_GattlinkProtocol_Reset C self = Some (r, self') \<and> gl_inv cinv stream opn self'"
proof -
  have m: "1 \<le> GetTransportMaxPacketSize C c" if "cinv c" for c using max_packet [OF that] by simp
  show ?thesis
    using assms m [OF c] m [OF reset(2) [OF c]] reset(1,2) [OF c] reset(3) send_cinv send_stream send_opn
    by (auto simp: GG_GattlinkProtocol_Reset_def GG_GattlinkProtocol_SendResetPacket_def
        GG_GattlinkProtocol_UnscheduleTimers_def GG_GattlinkProtocol_SendRawData_def
        gl_inv_def Let_def split_beta)
qed

lemma Reset_total:
  assumes inv: "gl_inv cinv stream opn self"
  shows "\<exists>r self'. GG_GattlinkProtocol_Reset C self = Some (r, self') \<and> gl_inv cinv stream opn self'"
  by (rule Reset_restarts) (use inv in \<open>auto simp: gl_inv_def\<close>)

lemma HandleResetRequest_total:
  assumes inv: "gl_inv cinv stream opn self"
  shows "\<exists>r self'. GG_GattlinkProtocol_HandleResetRequest C self = Some (r, self') \<and>
    gl_inv cinv stream opn self'"
proof -
  have c: "cinv (gl_client self)" using inv by (simp add: gl_inv_def)
  show ?thesis
    using inv max_packet [OF c] max_packet [OF reset(2) [OF c]] reset(1,2) [OF c] reset(3) send_cinv send_stream send_opn
    by (auto simp: GG_GattlinkProtocol_HandleResetRequest_def
        GG_GattlinkProtocol_SendResetCompletePacket_def
        GG_GattlinkProtocol_UnscheduleTimers_def GG_GattlinkProtocol_SendRawData_def
        gl_inv_def Let_def split_beta)
qed

lemma HandleResetComplete_total:
  assumes inv: "gl_inv cinv stream opn self" and st: "gl_state self \<noteq> GG_GATTLINK_STATE_READY"
  shows "\<exists>r self'. GG_GattlinkProtocol_HandleResetComplete C data self = Some (r, self') \<and>
    gl_inv cinv stream opn self'"
proof -
  have c: "cinv (gl_client self)" and s: "stream (gl_client self) = []"
    and d: "max_tx_window_size (desired_session_cfg self) < 32"
    using inv st by (simp_all add: gl_inv_def)
  have z: "\<exists>k. window_ok (min (max_tx_window_size (desired_session_cfg self)) n) 0 zero_out k k" for n
    using zero_out_window d by (meson min.strict_coboundedI1)
  have psn: "psn_to_ack_with zero_out = 0" by (simp add: zero_out_def)
  show ?thesis
    using inv z d s max_packet [OF c] ready send_cinv [OF c] send_stream send_opn
    by (auto simp: GG_GattlinkProtocol_HandleResetComplete_def
        GG_GattlinkProtocol_SendResetCompletePacket_def GG_GattlinkProtocol_SendRawData_def
        gl_inv_def Let_def split_beta psn)
qed

lemma HandleControlPacket_total:
  assumes inv: "gl_inv cinv stream opn self"
  shows "\<exists>r self'. GG_GattlinkProtocol_HandleControlPacket C type data self = Some (r, self') \<and>
    gl_inv cinv stream opn self'"
  using HandleResetRequest_total [OF inv] HandleResetComplete_total [OF inv, of data] inv
  by (auto simp: GG_GattlinkProtocol_HandleControlPacket_def)

end

context gattlink_client_connected
begin

lemma SendNextPackets_total:
  assumes inv: "gl_inv cinv stream opn self"
  shows "\<exists>self'. GG_GattlinkProtocol_SendNextPackets C self = Some self' \<and>
    gl_inv cinv stream opn self' \<and> same_session self self'"
proof (cases "gl_state self = GG_GATTLINK_STATE_READY")
  case True
  then obtain k where k: "window_ok (max_tx_window_size (actual_session_cfg self))
      (length (stream (gl_client self))) (gl_out self) k k"
    using inv by (auto simp: gl_inv_def)
  have c: "cinv (gl_client self)" using inv by (simp add: gl_inv_def)
  from send_loop [OF c k refl refl] True inv show ?thesis
    by (fastforce simp: gl_inv_def same_session_def)
next
  case False
  with inv have "cinv (gl_client self)" "psn_to_ack_with (gl_out self) < 32" "stream (gl_client self) = []"
    by (auto simp: gl_inv_def)
  from send_idle [OF this] False inv show ?thesis
    by (fastforce simp: gl_inv_def same_session_def)
qed

lemma handle_ack_total:
  assumes inv: "gl_inv cinv stream opn self" and st: "gl_state self = GG_GATTLINK_STATE_READY" and p: "p < 32"
  shows "\<exists>self'. handle_ack C p self = Some self' \<and> gl_inv cinv stream opn self' \<and>
    gl_state self' = GG_GATTLINK_STATE_READY \<and> gl_in self' = gl_in self"
proof -
  obtain k where k: "window_ok (max_tx_window_size (actual_session_cfg self))
      (length (stream (gl_client self))) (gl_out self) k k"
    using inv st by (auto simp: gl_inv_def)
  have c: "cinv (gl_client self)" using inv by (simp add: gl_inv_def)
  let ?i = "GG_GattlinkProtocol_CalculateDistance (next_expected_ack_sn (gl_out self)) p"
  show ?thesis
  proof (cases "?i < k")
    case True
    from handle_ack_spec(2) [OF c p k refl refl True] inv st c show ?thesis
      by (fastforce simp: gl_inv_def consume_stream consume_cinv)
  next
    case False
    with handle_ack_spec(1) [OF c p k refl refl] inv st show ?thesis by auto
  qed
qed

lemma accept_payload_total:
  assumes inv: "gl_inv cinv stream opn self" and p: "psn < 32" and len: "length payload \<le> 512"
  shows "\<exists>self'. accept_payload C psn payload self = Some self' \<and> gl_inv cinv stream opn self'"
proof -
  define i where "i = (gl_in self)\<lparr>payload_buf := memcpy_at (payload_buf (gl_in self)) 0 payload,
    payload_len := length payload, bytes_consumed := 0, payload_buffer_full := True,
    next_expected_data_psn := GG_GattlinkProtocol_GetNextSn psn\<rparr>"
  have "in_ok i"
    using inv len by (auto simp: i_def in_ok_def gl_inv_def GetNextSn_eq)
  then obtain c' i' where c': "NotifyIncomingDataAvailable C (gl_client self, i) = Some (c', i')"
    "cinv c'" "in_ok i'" "stream c' = stream (gl_client self)" "opn c' = opn (gl_client self)"
    using incoming [of "gl_client self" i] inv by (auto simp: gl_inv_def)
  then have "accept_payload C psn payload self =
      Some (self\<lparr>gl_client := c', gl_in := i', gl_out := (gl_out self)\<lparr>psn_to_ack_with := psn\<rparr>\<rparr>)"
    by (simp add: accept_payload_def i_def [symmetric])
  with c' inv p show ?thesis by (auto simp: gl_inv_def)
qed

lemma ack_later_total:
  assumes inv: "gl_inv cinv stream opn self"
  shows "\<exists>r self'. ack_later C self = Some (r, self') \<and> gl_inv cinv stream opn self'"
proof -
  let ?s = "upd_out (\<lambda>ob. ob\<lparr>outstanding_unacked_packets := (outstanding_unacked_packets ob + 1) mod 256,
    ack_timer := Some GG_GATTLINK_SEND_ACK_TIMEOUT\<rparr>) self"
  have "gl_inv cinv stream opn ?s" using inv by (auto simp: gl_inv_def)
  from SendNextPackets_total [OF this] show ?thesis by (auto simp: ack_later_def)
qed

lemma HandleDataPacket_total:
  assumes inv: "gl_inv cinv stream opn self" and st: "gl_state self = GG_GATTLINK_STATE_READY"
  shows "\<exists>r self'. GG_GattlinkProtocol_HandleDataPacket C data self = Some (r, self') \<and>
    gl_inv cinv stream opn self'"
proof (cases "length data \<le> 512")
  case False
  with inv show ?thesis by (simp add: GG_GattlinkProtocol_HandleDataPacket_def)
next
  case True
  define rest where "rest = (if has_ack (hd data) then tl data else data)"
  obtain self1 where s1: "(if has_ack (hd data) then handle_ack C (ack_psn (hd data)) self else Some self) =
      Some self1" "gl_inv cinv stream opn self1"
    using handle_ack_total [OF inv st ack_psn_less, of "hd data"] inv by (cases "has_ack (hd data)") auto
  have len: "length (tl rest) \<le> 512" using True by (cases "has_ack (hd data)") (auto simp: rest_def)
  show ?thesis
    using SendNextPackets_total [OF s1(2)] s1(2) ack_later_total
      accept_payload_total [OF s1(2) ack_psn_less len, of "hd rest"] True
    unfolding GG_GattlinkProtocol_HandleDataPacket_def s1(1) rest_def [symmetric]
    by (fastforce simp: Let_def)
qed

lemma HandleIncomingRawData_total:
  assumes inv: "gl_inv cinv stream opn self"
  shows "\<exists>r self'. GG_GattlinkProtocol_HandleIncomingRawData C data self = Some (r, self') \<and>
    gl_inv cinv stream opn self'"
proof -
  have cs: "gl_inv cinv stream opn (clear_stall C self)" "gl_state (clear_stall C self) = gl_state self"
    using inv stalled by (auto simp: clear_stall_def gl_inv_def Let_def)
  show ?thesis
    using HandleControlPacket_total [OF cs(1), of "hd data AND 0x7F" data]
      HandleDataPacket_total [OF cs(1), of data] cs inv
    by (auto simp: GG_GattlinkProtocol_HandleIncomingRawData_def Let_def)
qed

lemma OnTimerFired_total:
  assumes inv: "gl_inv cinv stream opn self"
  shows "\<exists>self'. GG_GattlinkProtocol_OnTimerFired C t elapsed self = Some self' \<and> gl_inv cinv stream opn self'"
proof (cases t)
  case AckTimer
  let ?s = "upd_out (\<lambda>ob. ob\<lparr>ack_timer := None, ack_now := True\<rparr>) self"
  have "gl_inv cinv stream opn ?s" using inv by (auto simp: gl_inv_def)
  from SendNextPackets_total [OF this] AckTimer show ?thesis
    by (auto simp: GG_GattlinkProtocol_OnTimerFired_def GG_GattlinkProtocol_OnAckTimerFired_def)
next
  case RetransmitTimer
  let ?u = "update_stall C elapsed (upd_out (\<lambda>ob. ob\<lparr>retransmit_timer := None\<rparr>) self)"
  have u: "gl_inv cinv stream opn ?u" "gl_state ?u = gl_state self"
    using inv stalled by (auto simp: update_stall_def gl_inv_def Let_def)
  show ?thesis
  proof (cases "gl_state self = GG_GATTLINK_STATE_READY")
    case False
    with Reset_total [OF u(1)] u RetransmitTimer show ?thesis
      by (auto simp: GG_GattlinkProtocol_OnTimerFired_def GG_GattlinkProtocol_OnSendTimeoutFired_def Let_def)
  next
    case True
    let ?r = "upd_out (\<lambda>ob. ob\<lparr>next_data_sn := next_expected_ack_sn ob\<rparr>) ?u"
    obtain k where k: "window_ok (max_tx_window_size (actual_session_cfg ?u))
        (length (stream (gl_client ?u))) (gl_out ?u) k k"
      using u True by (auto simp: gl_inv_def)
    then have "window_ok (max_tx_window_size (actual_session_cfg ?r))
        (length (stream (gl_client ?r))) (gl_out ?r) k 0"
      by (auto simp: window_ok_def)
    from send_loop [OF _ this refl refl] u True RetransmitTimer show ?thesis
      by (fastforce simp: GG_GattlinkProtocol_OnTimerFired_def GG_GattlinkProtocol_OnSendTimeoutFired_def
          Let_def gl_inv_def same_session_def)
  qed
qed

lemma gl_step_total:
  "gl_inv cinv stream opn self \<Longrightarrow> \<exists>self'. gl_step C ev self = Some self' \<and> gl_inv cinv stream opn self'"
  using HandleIncomingRawData_total [of self] OnTimerFired_total [of self] SendNextPackets_total [of self]
    Reset_total [of self]
  by (cases ev)
    (fastforce simp: gl_step_def GG_GattlinkProtocol_NotifyOutgoingDataAvailable_def)+

lemma gl_run_total:
  "gl_inv cinv stream opn self \<Longrightarrow> \<exists>self'. gl_run C evs self = Some self' \<and> gl_inv cinv stream opn self'"
proof (induction evs arbitrary: self)
  case (Cons ev evs)
  from gl_step_total [OF Cons.prems] obtain self1 where
    "gl_step C ev self = Some self1" "gl_inv cinv stream opn self1" by blast
  with Cons.IH show ?case by auto
qed simp

end

end
