(* ===== verification/Ring_Buffer.thy ===== *)
theory Ring_Buffer
  imports GG_Prelude
begin

text \<open>
  The ring buffer of \<^verbatim>\<open>xp/common/gg_ring_buffer.c\<close>: the byte queue in which the Gattlink
  client keeps its outgoing data. The record mirrors \<^verbatim>\<open>GG_RingBuffer\<close>: the storage area, its
  size, and the \<open>in\<close> and \<open>out\<close> pointers as offsets from \<^verbatim>\<open>data.start\<close>. The abstract value of
  a ring buffer is the list of bytes still to be read, \<open>rb_contents\<close>; every operation is
  shown to act on that list as the operation of a bounded byte queue does.
\<close>

section \<open>State\<close>

record GG_RingBuffer =
  rb_mem :: bytes
  rb_size :: nat
  rb_in :: nat
  rb_out :: nat

text \<open>The two pointers \<^verbatim>\<open>data.start\<close> and \<^verbatim>\<open>data.end\<close>, as offsets from \<^verbatim>\<open>data.start\<close>.\<close>

definition data_start :: "GG_RingBuffer \<Rightarrow> nat" where
  [simp]: "data_start self = 0"

definition data_end :: "GG_RingBuffer \<Rightarrow> nat" where
  [simp]: "data_end self = data_start self + rb_size self"

section \<open>Operations\<close>

definition GG_RingBuffer_Init :: "bytes \<Rightarrow> GG_RingBuffer" where
  "GG_RingBuffer_Init buffer =
     \<lparr>rb_mem = buffer, rb_size = length buffer, rb_in = 0, rb_out = 0\<rparr>"

definition GG_RingBuffer_GetContiguousSpace :: "GG_RingBuffer \<Rightarrow> nat" where
  "GG_RingBuffer_GetContiguousSpace self = size_t_of
     (if rb_in self < rb_out self then int (rb_out self) - int (rb_in self) - 1
      else if rb_out self = data_start self then int (data_end self) - int (rb_in self) - 1
      else int (data_end self) - int (rb_in self))"

definition GG_RingBuffer_GetSpace :: "GG_RingBuffer \<Rightarrow> nat" where
  "GG_RingBuffer_GetSpace self = size_t_of
     (if rb_in self < rb_out self then int (rb_out self) - int (rb_in self) - 1
      else int (data_end self) - int (rb_in self) + int (rb_out self) - int (data_start self) - 1)"

text \<open>The wrap of a pointer that reached \<^verbatim>\<open>data.end\<close>.\<close>

definition wrap_in :: "GG_RingBuffer \<Rightarrow> GG_RingBuffer" where
  "wrap_in self = (if rb_in self = data_end self then self\<lparr>rb_in := data_start self\<rparr> else self)"

definition wrap_out :: "GG_RingBuffer \<Rightarrow> GG_RingBuffer" where
  "wrap_out self = (if rb_out self = data_end self then self\<lparr>rb_out := data_start self\<rparr> else self)"

definition copy_in :: "bytes \<Rightarrow> GG_RingBuffer \<Rightarrow> GG_RingBuffer" where
  "copy_in src self =
     wrap_in (self\<lparr>rb_mem := memcpy_at (rb_mem self) (rb_in self) src,
                   rb_in := rb_in self + length src\<rparr>)"

definition GG_RingBuffer_Write :: "GG_RingBuffer \<Rightarrow> bytes \<Rightarrow> nat \<times> GG_RingBuffer" where
  "GG_RingBuffer_Write self buffer =
     (let can_write = GG_RingBuffer_GetSpace self;
          sz = (if length buffer > can_write then can_write else length buffer)
      in if sz = 0 then (0, self)
         else if rb_in self < rb_out self then (sz, copy_in (take sz buffer) self)
         else
           let chunk = size_t_of (int (data_end self) - int (rb_in self));
               chunk = (if chunk \<ge> sz then sz else chunk);
               self = copy_in (take chunk buffer) self;
               self = (if chunk \<noteq> sz then copy_in (take (sz - chunk) (drop chunk buffer)) self
                       else self)
           in (sz, self))"

definition GG_RingBuffer_GetContiguousAvailable :: "GG_RingBuffer \<Rightarrow> nat" where
  "GG_RingBuffer_GetContiguousAvailable self = size_t_of
     (if rb_out self \<le> rb_in self then int (rb_in self) - int (rb_out self)
      else int (data_end self) - int (rb_out self))"

definition GG_RingBuffer_GetAvailable :: "GG_RingBuffer \<Rightarrow> nat" where
  "GG_RingBuffer_GetAvailable self = size_t_of
     (if rb_out self \<le> rb_in self then int (rb_in self) - int (rb_out self)
      else int (data_end self) - int (rb_out self) + int (rb_in self) - int (data_start self))"

definition copy_out :: "nat \<Rightarrow> GG_RingBuffer \<Rightarrow> bytes \<times> GG_RingBuffer" where
  "copy_out n self =
     (subarray (rb_mem self) (rb_out self) n, wrap_out (self\<lparr>rb_out := rb_out self + n\<rparr>))"

text \<open>
  \<open>GG_RingBuffer_Read\<close> returns the bytes it copied to the caller's buffer; their number is
  the \<^verbatim>\<open>size_t\<close> the C function returns.
\<close>

definition GG_RingBuffer_Read :: "GG_RingBuffer \<Rightarrow> nat \<Rightarrow> bytes \<times> GG_RingBuffer" where
  "GG_RingBuffer_Read self sz =
     (let can_read = GG_RingBuffer_GetAvailable self;
          sz = (if sz > can_read then can_read else sz)
      in if sz = 0 then ([], self)
         else if rb_in self > rb_out self then copy_out sz self
         else
           let chunk = size_t_of (int (data_end self) - int (rb_out self));
               chunk = (if chunk \<ge> sz then sz else chunk);
               (first, self) = copy_out chunk self
           in if chunk \<noteq> sz
              then (let (rest, self) = copy_out (sz - chunk) self in (first @ rest, self))
              else (first, self))"

definition GG_RingBuffer_Peek :: "GG_RingBuffer \<Rightarrow> nat \<Rightarrow> nat \<Rightarrow> bytes" where
  "GG_RingBuffer_Peek self offset sz =
     (let can_read = GG_RingBuffer_GetAvailable self
      in if offset \<ge> can_read then []
         else
           let can_read = can_read - offset;
               sz = (if sz > can_read then can_read else sz)
           in if sz = 0 then []
              else
                let out = rb_out self + offset;
                    out = (if out \<ge> data_end self then out - (data_end self - data_start self) else out)
                in if rb_in self > out then subarray (rb_mem self) out sz
                   else
                     let chunk = size_t_of (int (data_end self) - int out);
                         chunk = (if chunk \<ge> sz then sz else chunk)
                     in if chunk \<noteq> sz
                        then subarray (rb_mem self) out chunk
                             @ subarray (rb_mem self) (data_start self) (sz - chunk)
                        else subarray (rb_mem self) out chunk)"

text \<open>\<^verbatim>\<open>ReadByte\<close> asserts that the buffer is not empty: \<open>None\<close> is the failed assertion.\<close>

definition GG_RingBuffer_ReadByte :: "GG_RingBuffer \<Rightarrow> (u8 \<times> GG_RingBuffer) option" where
  "GG_RingBuffer_ReadByte self =
     (if rb_in self = rb_out self then None
      else Some (rb_mem self ! rb_out self, wrap_out (self\<lparr>rb_out := rb_out self + 1\<rparr>)))"

definition GG_RingBuffer_PeekByte :: "GG_RingBuffer \<Rightarrow> nat \<Rightarrow> u8" where
  "GG_RingBuffer_PeekByte self offset =
     (let pos = rb_out self + offset;
          pos = (if pos \<ge> data_end self then pos - (data_end self - data_start self) else pos)
      in rb_mem self ! pos)"

definition GG_RingBuffer_MoveIn :: "GG_RingBuffer \<Rightarrow> nat \<Rightarrow> GG_RingBuffer" where
  "GG_RingBuffer_MoveIn self offset =
     (let self = self\<lparr>rb_in := rb_in self + offset\<rparr>
      in if rb_in self < data_start self then self\<lparr>rb_in := rb_in self + rb_size self\<rparr>
         else if rb_in self \<ge> data_end self then self\<lparr>rb_in := rb_in self - rb_size self\<rparr>
         else self)"

definition GG_RingBuffer_MoveOut :: "GG_RingBuffer \<Rightarrow> nat \<Rightarrow> GG_RingBuffer" where
  "GG_RingBuffer_MoveOut self offset =
     (let self = self\<lparr>rb_out := rb_out self + offset\<rparr>
      in if rb_out self < data_start self then self\<lparr>rb_out := rb_out self + rb_size self\<rparr>
         else if rb_out self \<ge> data_end self then self\<lparr>rb_out := rb_out self - rb_size self\<rparr>
         else self)"

definition GG_RingBuffer_Reset :: "GG_RingBuffer \<Rightarrow> GG_RingBuffer" where
  "GG_RingBuffer_Reset self = self\<lparr>rb_in := data_start self, rb_out := data_start self\<rparr>"

section \<open>Invariant and abstract value\<close>

definition rb_invar :: "GG_RingBuffer \<Rightarrow> bool" where
  "rb_invar self \<longleftrightarrow> length (rb_mem self) = rb_size self \<and> rb_size self < 2 ^ 64 \<and>
     rb_in self < rb_size self \<and> rb_out self < rb_size self"

definition rb_contents :: "GG_RingBuffer \<Rightarrow> bytes" where
  "rb_contents self =
     (if rb_out self \<le> rb_in self then subarray (rb_mem self) (rb_out self) (rb_in self - rb_out self)
      else drop (rb_out self) (rb_mem self) @ take (rb_in self) (rb_mem self))"

lemma rb_invarD:
  assumes "rb_invar self"
  shows "length (rb_mem self) = rb_size self" "rb_size self < 2 ^ 64"
    "rb_in self < rb_size self" "rb_out self < rb_size self" "0 < rb_size self"
  using assms by (auto simp: rb_invar_def)

lemma length_rb_contents:
  assumes "rb_invar self"
  shows "length (rb_contents self) =
    (if rb_out self \<le> rb_in self then rb_in self - rb_out self
     else rb_size self - rb_out self + rb_in self)"
  using rb_invarD [OF assms] by (auto simp: rb_contents_def subarray_def)

lemma GetAvailable_eq: "rb_invar self \<Longrightarrow> GG_RingBuffer_GetAvailable self = length (rb_contents self)"
  using rb_invarD [of self]
  by (auto simp: GG_RingBuffer_GetAvailable_def length_rb_contents size_t_of_def nat_eq_iff)

lemma GetSpace_eq:
  "rb_invar self \<Longrightarrow> GG_RingBuffer_GetSpace self = rb_size self - 1 - length (rb_contents self)"
  using rb_invarD [of self]
  by (auto simp: GG_RingBuffer_GetSpace_def length_rb_contents size_t_of_def nat_eq_iff)

lemma length_rb_contents_less: "rb_invar self \<Longrightarrow> length (rb_contents self) < rb_size self"
  using rb_invarD [of self] by (auto simp: length_rb_contents)

subsection \<open>Writing\<close>

lemma take_memcpy_at_end:
  "off \<le> length mem \<Longrightarrow> take (off + length src) (memcpy_at mem off src) = take off mem @ src"
  by (simp add: memcpy_at_def)

lemma drop_memcpy_at_before:
  "n \<le> off \<Longrightarrow> off \<le> length mem \<Longrightarrow>
    drop n (memcpy_at mem off src) = subarray mem n (off - n) @ src @ drop (off + length src) mem"
  by (simp add: memcpy_at_def subarray_def drop_take)

lemma copy_in_invar:
  assumes "rb_invar self" and "rb_in self + length src \<le> rb_size self"
  shows "rb_invar (copy_in src self)" "rb_size (copy_in src self) = rb_size self"
  using assms by (auto simp: rb_invar_def copy_in_def wrap_in_def)

lemma copy_in_contents:
  assumes inv: "rb_invar self" and fit: "rb_in self + length src \<le> rb_size self"
    and space: "length (rb_contents self) + length src < rb_size self"
  shows "rb_contents (copy_in src self) = rb_contents self @ src"
proof -
  note d = rb_invarD [OF inv]
  show ?thesis
  proof (cases "rb_out self \<le> rb_in self")
    case True
    have len: "rb_in self - rb_out self + length src < rb_size self"
      using space True by (simp add: length_rb_contents [OF inv])
    show ?thesis
    proof (cases "rb_in self + length src = rb_size self")
      case wrapped: True
      with len d True have "0 < rb_out self" by linarith
      with wrapped True d show ?thesis
        by (simp add: rb_contents_def copy_in_def wrap_in_def drop_memcpy_at_before)
    next
      case False
      with True d fit show ?thesis
        by (simp add: rb_contents_def copy_in_def wrap_in_def subarray_def memcpy_at_def drop_take)
    qed
  next
    case False
    have "rb_in self + length src < rb_out self"
      using space False d by (simp add: length_rb_contents [OF inv])
    with False d show ?thesis
      by (simp add: rb_contents_def copy_in_def wrap_in_def take_memcpy_at_end drop_memcpy_at)
  qed
qed

lemma copy_in_spec:
  assumes "rb_invar self" and "rb_in self + length src \<le> rb_size self"
    and "length (rb_contents self) + length src < rb_size self"
  shows "rb_invar (copy_in src self) \<and> rb_size (copy_in src self) = rb_size self \<and>
    rb_contents (copy_in src self) = rb_contents self @ src"
  using copy_in_invar [OF assms(1,2)] copy_in_contents [OF assms] by simp

lemma copy_in_Nil: "rb_invar self \<Longrightarrow> copy_in [] self = self"
  by (auto simp: copy_in_def wrap_in_def rb_invar_def)

text \<open>
  Under the invariant every branch of \<^verbatim>\<open>Write\<close> is the same pair of copies, one up to the end of
  the storage and one from its start, either of which may be empty.
\<close>

lemma Write_eq:
  assumes inv: "rb_invar self"
    and n: "n = min (length buffer) (GG_RingBuffer_GetSpace self)"
    and c: "c = min n (rb_size self - rb_in self)"
  shows "GG_RingBuffer_Write self buffer =
    (n, copy_in (take (n - c) (drop c buffer)) (copy_in (take c buffer) self))"
proof -
  note d = rb_invarD [OF inv]
  have inv1: "rb_invar (copy_in (take c buffer) self)"
    using copy_in_invar(1) [OF inv] c d(3) by simp
  have sz: "(if GG_RingBuffer_GetSpace self < length buffer then GG_RingBuffer_GetSpace self
      else length buffer) = n"
    by (simp add: n min_def)
  have chunk: "size_t_of (int (data_end self) - int (rb_in self)) = rb_size self - rb_in self"
    using d by (simp add: nat_diff_distrib)
  have ch: "(if n \<le> rb_size self - rb_in self then n else rb_size self - rb_in self) = c"
    by (simp add: c min_def)
  have "n \<le> rb_out self - rb_in self - 1" if "rb_in self < rb_out self"
    using that d by (simp add: n GetSpace_eq [OF inv] length_rb_contents [OF inv])
  then have nc: "c = n" if "rb_in self < rb_out self" using that d c by simp
  show ?thesis
    unfolding GG_RingBuffer_Write_def Let_def sz chunk ch
    using nc copy_in_Nil [OF inv] copy_in_Nil [OF inv1]
    by (cases "n = 0"; cases "rb_in self < rb_out self"; cases "c = n") (use c in auto)
qed

lemma copy_in_twice:
  assumes inv: "rb_invar self" and space: "length (rb_contents self) + n < rb_size self"
    and n: "n \<le> length buffer"
    and c: "c \<le> n" "rb_in self + c \<le> rb_size self" "c = n \<or> rb_in self + c = rb_size self"
  defines "s1 \<equiv> copy_in (take c buffer) self"
  defines "s2 \<equiv> copy_in (take (n - c) (drop c buffer)) s1"
  shows "rb_invar s2 \<and> rb_size s2 = rb_size self \<and> rb_contents s2 = rb_contents self @ take n buffer"
proof -
  have lc: "length (take c buffer) = c" using n c by simp
  have s1: "rb_invar s1" "rb_size s1 = rb_size self" "rb_contents s1 = rb_contents self @ take c buffer"
    using copy_in_spec [OF inv, of "take c buffer"] c space lc by (auto simp: s1_def)
  have "rb_in s1 = 0" if "c \<noteq> n"
    using that c lc by (auto simp: s1_def copy_in_def wrap_in_def)
  then have fit: "rb_in s1 + (n - c) \<le> rb_size s1"
    using s1 space rb_invarD(3) [OF s1(1)] by (cases "c = n") auto
  have "length (rb_contents s1) + (n - c) < rb_size s1"
    using s1 space lc c(1) by simp
  with fit s1 n c(1) show ?thesis
    using copy_in_spec [OF s1(1), of "take (n - c) (drop c buffer)"]
    by (simp add: s2_def take_drop_append)
qed

lemma Write_spec:
  assumes inv: "rb_invar self" and n: "n = min (length buffer) (GG_RingBuffer_GetSpace self)"
  shows "fst (GG_RingBuffer_Write self buffer) = n"
    and "rb_invar (snd (GG_RingBuffer_Write self buffer))"
    and "rb_contents (snd (GG_RingBuffer_Write self buffer)) = rb_contents self @ take n buffer"
    and "rb_size (snd (GG_RingBuffer_Write self buffer)) = rb_size self"
proof -
  have "length (rb_contents self) + n < rb_size self" and "n \<le> length buffer"
    using length_rb_contents_less [OF inv] by (auto simp: n GetSpace_eq [OF inv])
  note t = copy_in_twice [OF inv this, of "min n (rb_size self - rb_in self)"]
  have c: "rb_in self + min n (rb_size self - rb_in self) \<le> rb_size self"
    "min n (rb_size self - rb_in self) = n \<or> rb_in self + min n (rb_size self - rb_in self) = rb_size self"
    using rb_invarD(3) [OF inv] by auto
  show "fst (GG_RingBuffer_Write self buffer) = n"
    and "rb_invar (snd (GG_RingBuffer_Write self buffer))"
    and "rb_contents (snd (GG_RingBuffer_Write self buffer)) = rb_contents self @ take n buffer"
    and "rb_size (snd (GG_RingBuffer_Write self buffer)) = rb_size self"
    using t [OF min.cobounded1 c] by (simp_all add: Write_eq [OF inv n refl])
qed

subsection \<open>Reading\<close>

lemma copy_out_spec:
  assumes inv: "rb_invar self" and n: "n \<le> length (rb_contents self)"
    and fit: "rb_out self + n \<le> rb_size self"
  shows "fst (copy_out n self) = take n (rb_contents self) \<and>
    rb_invar (snd (copy_out n self)) \<and> rb_size (snd (copy_out n self)) = rb_size self \<and>
    rb_contents (snd (copy_out n self)) = drop n (rb_contents self)"
proof (cases "rb_out self \<le> rb_in self")
  case True
  then have "rb_out self + n \<le> rb_in self" using n by (simp add: length_rb_contents [OF inv])
  with True rb_invarD [OF inv] show ?thesis
    by (auto simp: copy_out_def wrap_out_def rb_contents_def subarray_def rb_invar_def drop_take add.commute)
next
  case False
  with rb_invarD [OF inv] fit show ?thesis
    by (auto simp: copy_out_def wrap_out_def rb_contents_def subarray_def rb_invar_def add.commute)
qed

lemma copy_out_0: "rb_invar self \<Longrightarrow> copy_out 0 self = ([], self)"
  by (auto simp: copy_out_def wrap_out_def rb_invar_def)

lemma Read_eq:
  assumes inv: "rb_invar self"
    and n: "n = min sz (length (rb_contents self))"
    and c: "c = min n (rb_size self - rb_out self)"
  shows "GG_RingBuffer_Read self sz =
    (fst (copy_out c self) @ fst (copy_out (n - c) (snd (copy_out c self))),
     snd (copy_out (n - c) (snd (copy_out c self))))"
proof -
  note d = rb_invarD [OF inv]
  have "c \<le> length (rb_contents self)" and "rb_out self + c \<le> rb_size self"
    using d(4) by (auto simp: c n)
  then have inv1: "rb_invar (snd (copy_out c self))"
    using copy_out_spec [OF inv] by blast
  have sz: "(if GG_RingBuffer_GetAvailable self < sz then GG_RingBuffer_GetAvailable self else sz) = n"
    by (simp add: n min_def GetAvailable_eq [OF inv])
  have chunk: "size_t_of (int (data_end self) - int (rb_out self)) = rb_size self - rb_out self"
    using d by (simp add: nat_diff_distrib)
  have ch: "(if n \<le> rb_size self - rb_out self then n else rb_size self - rb_out self) = c"
    by (simp add: c min_def)
  have "n \<le> rb_in self - rb_out self" if "rb_out self < rb_in self"
    using that d by (simp add: n length_rb_contents [OF inv])
  then have nc: "c = n" if "rb_out self < rb_in self" using that d c by simp
  have c0: "n = 0 \<Longrightarrow> c = 0" by (simp add: c)
  show ?thesis
    unfolding GG_RingBuffer_Read_def Let_def sz chunk ch
    using nc copy_out_0 [OF inv] copy_out_0 [OF inv1] c0
    by (cases "n = 0"; cases "rb_out self < rb_in self"; cases "c = n") (simp_all add: split_beta)
qed

lemma copy_out_twice:
  assumes inv: "rb_invar self" and n: "n \<le> length (rb_contents self)"
    and c: "c \<le> n" "rb_out self + c \<le> rb_size self" "c = n \<or> rb_out self + c = rb_size self"
  defines "s1 \<equiv> snd (copy_out c self)"
  defines "s2 \<equiv> snd (copy_out (n - c) s1)"
  shows "fst (copy_out c self) @ fst (copy_out (n - c) s1) = take n (rb_contents self) \<and>
    rb_invar s2 \<and> rb_size s2 = rb_size self \<and> rb_contents s2 = drop n (rb_contents self)"
proof -
  have s1: "fst (copy_out c self) = take c (rb_contents self)" "rb_invar s1"
    "rb_size s1 = rb_size self" "rb_contents s1 = drop c (rb_contents self)"
    using copy_out_spec [OF inv, of c] n c by (auto simp: s1_def)
  have "rb_out s1 = 0" if "c \<noteq> n"
    using that c by (auto simp: s1_def copy_out_def wrap_out_def)
  then have fit: "rb_out s1 + (n - c) \<le> rb_size s1"
    using s1 n rb_invarD(4) [OF s1(2)] length_rb_contents_less [OF inv] by (cases "c = n") auto
  have "n - c \<le> length (rb_contents s1)" using s1 n by simp
  with fit s1 c(1) show ?thesis
    using copy_out_spec [OF s1(2), of "n - c"] by (simp add: s2_def take_drop_append)
qed

lemma Read_spec:
  assumes inv: "rb_invar self"
  shows "fst (GG_RingBuffer_Read self n) = take n (rb_contents self)"
    and "rb_invar (snd (GG_RingBuffer_Read self n))"
    and "rb_contents (snd (GG_RingBuffer_Read self n)) = drop n (rb_contents self)"
    and "rb_size (snd (GG_RingBuffer_Read self n)) = rb_size self"
proof -
  define m where "m = min n (length (rb_contents self))"
  define c where "c = min m (rb_size self - rb_out self)"
  have c: "c \<le> m" "rb_out self + c \<le> rb_size self" "c = m \<or> rb_out self + c = rb_size self"
    using rb_invarD(4) [OF inv] by (auto simp: c_def)
  have m: "m \<le> length (rb_contents self)" "take m (rb_contents self) = take n (rb_contents self)"
    "drop m (rb_contents self) = drop n (rb_contents self)"
    by (auto simp: m_def min_def)
  show "fst (GG_RingBuffer_Read self n) = take n (rb_contents self)"
    and "rb_invar (snd (GG_RingBuffer_Read self n))"
    and "rb_contents (snd (GG_RingBuffer_Read self n)) = drop n (rb_contents self)"
    and "rb_size (snd (GG_RingBuffer_Read self n)) = rb_size self"
    using copy_out_twice [OF inv m(1) c] m by (simp_all add: Read_eq [OF inv m_def c_def])
qed

subsection \<open>Peeking, moving the pointers, single bytes\<close>

lemma rb_contents_nth:
  assumes inv: "rb_invar self" and i: "i < length (rb_contents self)"
  shows "rb_contents self ! i =
    rb_mem self ! (if rb_out self + i \<ge> rb_size self then rb_out self + i - rb_size self
                   else rb_out self + i)"
proof (cases "rb_out self \<le> rb_in self")
  case True
  with i rb_invarD [OF inv] show ?thesis
    by (auto simp: rb_contents_def length_rb_contents [OF inv] subarray_def)
next
  case False
  with i rb_invarD [OF inv] show ?thesis
    by (auto simp: rb_contents_def length_rb_contents [OF inv] nth_append add.commute)
qed

lemma PeekByte_spec:
  "rb_invar self \<Longrightarrow> i < length (rb_contents self) \<Longrightarrow>
    GG_RingBuffer_PeekByte self i = rb_contents self ! i"
  by (simp add: GG_RingBuffer_PeekByte_def rb_contents_nth)

lemma ReadByte_spec:
  assumes inv: "rb_invar self"
  shows "GG_RingBuffer_ReadByte self =
    (if rb_contents self = [] then None
     else Some (hd (rb_contents self), snd (copy_out 1 self)))"
proof -
  have "rb_in self = rb_out self \<longleftrightarrow> rb_contents self = []"
    using length_rb_contents [OF inv] rb_invarD [OF inv] by (auto simp flip: length_0_conv split: if_splits)
  moreover have "hd (rb_contents self) = rb_mem self ! rb_out self" if "rb_contents self \<noteq> []"
    using that rb_contents_nth [OF inv, of 0] rb_invarD [OF inv] by (simp add: hd_conv_nth)
  ultimately show ?thesis by (auto simp: GG_RingBuffer_ReadByte_def copy_out_def)
qed

lemma MoveOut_spec:
  assumes inv: "rb_invar self" and n: "n \<le> length (rb_contents self)"
  shows "rb_invar (GG_RingBuffer_MoveOut self n)"
    and "rb_contents (GG_RingBuffer_MoveOut self n) = drop n (rb_contents self)"
    and "rb_size (GG_RingBuffer_MoveOut self n) = rb_size self"
proof -
  note d = rb_invarD [OF inv] and l = length_rb_contents [OF inv]
  show "rb_size (GG_RingBuffer_MoveOut self n) = rb_size self"
    by (simp add: GG_RingBuffer_MoveOut_def Let_def)
  show "rb_invar (GG_RingBuffer_MoveOut self n)"
    using d n l by (auto simp: GG_RingBuffer_MoveOut_def rb_invar_def Let_def split: if_splits)
  show "rb_contents (GG_RingBuffer_MoveOut self n) = drop n (rb_contents self)"
  proof (cases "rb_out self \<le> rb_in self")
    case True
    with n l d have "rb_out self + n \<le> rb_in self" "rb_out self + n < rb_size self" by simp_all
    with True d show ?thesis
      by (simp add: GG_RingBuffer_MoveOut_def rb_contents_def subarray_def Let_def drop_take add.commute)
  next
    case False
    then show ?thesis
      using n l d
      by (auto simp: GG_RingBuffer_MoveOut_def rb_contents_def subarray_def Let_def drop_take add.commute)
  qed
qed

lemma Reset_spec:
  assumes "rb_invar self"
  shows "rb_invar (GG_RingBuffer_Reset self)" and "rb_contents (GG_RingBuffer_Reset self) = []"
    and "rb_size (GG_RingBuffer_Reset self) = rb_size self"
  using rb_invarD [OF assms]
  by (simp_all add: GG_RingBuffer_Reset_def rb_invar_def rb_contents_def)

lemma Init_spec:
  assumes "buffer \<noteq> []" and "length buffer < 2 ^ 64"
  shows "rb_invar (GG_RingBuffer_Init buffer)" and "rb_contents (GG_RingBuffer_Init buffer) = []"
    and "rb_size (GG_RingBuffer_Init buffer) = length buffer"
  using assms by (simp_all add: GG_RingBuffer_Init_def rb_invar_def rb_contents_def)

text \<open>
  Peeking at an offset copies what reading would after the \<open>out\<close> pointer has moved there.
\<close>

lemma Peek_unfold:
  assumes inv: "rb_invar self" and off: "off < length (rb_contents self)"
    and m: "m = min n (length (rb_contents self) - off)" and m0: "m \<noteq> 0"
    and q: "q = rb_out (GG_RingBuffer_MoveOut self off)"
    and c: "c = min m (rb_size self - q)"
  shows "GG_RingBuffer_Peek self off n =
    (if q < rb_in self then subarray (rb_mem self) q m
     else if c \<noteq> m then subarray (rb_mem self) q c @ subarray (rb_mem self) 0 (m - c)
     else subarray (rb_mem self) q c)"
proof -
  note d = rb_invarD [OF inv]
  have av: "GG_RingBuffer_GetAvailable self = length (rb_contents self)" by (rule GetAvailable_eq [OF inv])
  have sz: "(if length (rb_contents self) - off < n then length (rb_contents self) - off else n) = m"
    by (simp add: m min_def)
  have out: "(if data_end self \<le> rb_out self + off then rb_out self + off - (data_end self - data_start self)
      else rb_out self + off) = q"
    by (simp add: q GG_RingBuffer_MoveOut_def)
  have "q < rb_size self" using MoveOut_spec(1,3) [OF inv, of off] off q by (auto simp: rb_invar_def)
  then have chunk: "size_t_of (int (data_end self) - int q) = rb_size self - q"
    using d by (simp add: nat_diff_distrib)
  have ch: "(if m \<le> rb_size self - q then m else rb_size self - q) = c"
    by (simp add: c min_def)
  show ?thesis
    unfolding GG_RingBuffer_Peek_def Let_def av sz out chunk ch using off m0 by simp
qed

lemma Peek_eq_Read:
  assumes inv: "rb_invar self" and off: "off < length (rb_contents self)"
    and m: "m = min n (length (rb_contents self) - off)" and m0: "m \<noteq> 0"
  shows "GG_RingBuffer_Peek self off n = fst (GG_RingBuffer_Read (GG_RingBuffer_MoveOut self off) m)"
proof -
  define ring where "ring = GG_RingBuffer_MoveOut self off"
  define c where "c = min m (rb_size self - rb_out ring)"
  have mv: "rb_invar ring" "rb_contents ring = drop off (rb_contents self)" "rb_size ring = rb_size self"
    using MoveOut_spec [OF inv, of off] off by (simp_all add: ring_def)
  have same: "rb_mem ring = rb_mem self" "rb_in ring = rb_in self"
    by (simp_all add: ring_def GG_RingBuffer_MoveOut_def Let_def)
  have mm: "m = min m (length (rb_contents ring))" using m by (simp add: mv)
  have cc: "c = min m (rb_size ring - rb_out ring)" by (simp add: c_def mv)
  have "m \<le> rb_in ring - rb_out ring" if "rb_out ring < rb_in ring"
    using that mm rb_invarD [OF mv(1)] by (simp add: length_rb_contents [OF mv(1)])
  then have nc: "c = m" if "rb_out ring < rb_in ring"
    using that cc rb_invarD [OF mv(1)] by simp
  have z: "rb_out (snd (copy_out c ring)) = 0" if "c \<noteq> m"
    using that cc rb_invarD(4) [OF mv(1)] by (auto simp: copy_out_def wrap_out_def min_def)
  have fst: "fst (copy_out k r) = subarray (rb_mem r) (rb_out r) k" for k r
    by (simp add: copy_out_def)
  have mem: "rb_mem (snd (copy_out k r)) = rb_mem r" for k r
    by (simp add: copy_out_def wrap_out_def)
  show ?thesis
    unfolding Peek_unfold [OF inv off m m0 refl refl, folded ring_def, folded c_def]
      ring_def [symmetric] Read_eq [OF mv(1) mm cc] fst mem same
    using nc z by (cases "c = m") (auto simp: same)
qed

lemma Peek_spec:
  assumes inv: "rb_invar self"
  shows "GG_RingBuffer_Peek self off n = take n (drop off (rb_contents self))"
proof -
  define m where "m = min n (length (rb_contents self) - off)"
  have m: "take m (drop off (rb_contents self)) = take n (drop off (rb_contents self))"
    by (simp add: m_def min_def)
  show ?thesis
  proof (cases "off < length (rb_contents self) \<and> m \<noteq> 0")
    case False
    then show ?thesis
      by (auto simp: GG_RingBuffer_Peek_def GetAvailable_eq [OF inv] Let_def m_def)
  next
    case True
    then have off: "off \<le> length (rb_contents self)" by simp
    from True show ?thesis
      using Peek_eq_Read [OF inv _ m_def] Read_spec(1) [OF MoveOut_spec(1) [OF inv off]]
        MoveOut_spec(2) [OF inv off] m
      by simp
  qed
qed

section \<open>The byte queue interface\<close>

text \<open>
  What the clients of a ring buffer rely on: the abstract value is a list, \<open>put\<close> appends what
  fits, \<open>get\<close>, \<open>peek\<close> and \<open>discard\<close> work on the front. A producer and a consumer that use
  the queue through this interface see a lossless FIFO, whatever the interleaving.
\<close>

datatype 'a queue_op = Put "'a list" | Get nat | Discard nat | Flush

text \<open>
  Runs a sequence of queue operations and collects the elements the queue accepted and those
  that left it at the front, in order; \<open>Flush\<close> forgets both, as the queue does.
\<close>

fun queue_run ::
  "('q \<Rightarrow> 'a list \<Rightarrow> nat \<times> 'q) \<Rightarrow> ('q \<Rightarrow> nat \<Rightarrow> 'a list \<times> 'q) \<Rightarrow> ('q \<Rightarrow> nat \<Rightarrow> 'a list) \<Rightarrow>
   ('q \<Rightarrow> nat \<Rightarrow> 'q) \<Rightarrow> ('q \<Rightarrow> 'q) \<Rightarrow>
   'a queue_op list \<Rightarrow> 'a list \<Rightarrow> 'a list \<Rightarrow> 'q \<Rightarrow> 'a list \<times> 'a list \<times> 'q" where
  "queue_run put get front discard reset [] acc out q = (acc, out, q)"
| "queue_run put get front discard reset (Put xs # ops) acc out q =
     (let (n, q') = put q xs
      in queue_run put get front discard reset ops (acc @ take n xs) out q')"
| "queue_run put get front discard reset (Get n # ops) acc out q =
     (let (xs, q') = get q n
      in queue_run put get front discard reset ops acc (out @ xs) q')"
| "queue_run put get front discard reset (Discard n # ops) acc out q =
     (let xs = front q n
      in queue_run put get front discard reset ops acc (out @ xs) (discard q (length xs)))"
| "queue_run put get front discard reset (Flush # ops) acc out q =
     queue_run put get front discard reset ops [] [] (reset q)"

locale byte_queue =
  fixes invar :: "'q \<Rightarrow> bool"
    and contents :: "'q \<Rightarrow> 'a list"
    and capacity :: "'q \<Rightarrow> nat"
    and avail :: "'q \<Rightarrow> nat"
    and space :: "'q \<Rightarrow> nat"
    and put :: "'q \<Rightarrow> 'a list \<Rightarrow> nat \<times> 'q"
    and get :: "'q \<Rightarrow> nat \<Rightarrow> 'a list \<times> 'q"
    and peek :: "'q \<Rightarrow> nat \<Rightarrow> nat \<Rightarrow> 'a list"
    and discard :: "'q \<Rightarrow> nat \<Rightarrow> 'q"
    and reset :: "'q \<Rightarrow> 'q"
  assumes avail: "invar q \<Longrightarrow> avail q = length (contents q)"
    and space: "invar q \<Longrightarrow> length (contents q) + space q = capacity q"
    and put_count: "invar q \<Longrightarrow> fst (put q xs) = min (length xs) (space q)"
    and put_contents: "invar q \<Longrightarrow>
      contents (snd (put q xs)) = contents q @ take (min (length xs) (space q)) xs"
    and put_invar: "invar q \<Longrightarrow> invar (snd (put q xs))"
    and put_capacity: "invar q \<Longrightarrow> capacity (snd (put q xs)) = capacity q"
    and get_value: "invar q \<Longrightarrow> fst (get q n) = take n (contents q)"
    and get_contents: "invar q \<Longrightarrow> contents (snd (get q n)) = drop n (contents q)"
    and get_invar: "invar q \<Longrightarrow> invar (snd (get q n))"
    and get_capacity: "invar q \<Longrightarrow> capacity (snd (get q n)) = capacity q"
    and peek_value: "invar q \<Longrightarrow> peek q off n = take n (drop off (contents q))"
    and discard_contents: "invar q \<Longrightarrow> n \<le> length (contents q) \<Longrightarrow>
      contents (discard q n) = drop n (contents q)"
    and discard_invar: "invar q \<Longrightarrow> n \<le> length (contents q) \<Longrightarrow> invar (discard q n)"
    and discard_capacity: "invar q \<Longrightarrow> n \<le> length (contents q) \<Longrightarrow> capacity (discard q n) = capacity q"
    and reset_contents: "invar q \<Longrightarrow> contents (reset q) = []"
    and reset_invar: "invar q \<Longrightarrow> invar (reset q)"
    and reset_capacity: "invar q \<Longrightarrow> capacity (reset q) = capacity q"
begin

lemmas queue_specs = avail put_count put_contents put_invar put_capacity get_value get_contents
  get_invar get_capacity peek_value reset_contents reset_invar reset_capacity

lemma run_fifo:
  assumes "invar q" and "acc = out @ contents q"
    and "queue_run put get (\<lambda>q. peek q 0) discard reset ops acc out q = (acc', out', q')"
  shows "invar q' \<and> capacity q' = capacity q \<and> acc' = out' @ contents q' \<and>
    length (contents q') \<le> capacity q"
  using assms
proof (induction ops arbitrary: acc out q)
  case Nil
  then show ?case using space [of q] by auto
next
  case (Cons op ops)
  note IH = Cons.IH and prems = Cons.prems
  show ?case
  proof (cases op)
    case (Put xs)
    obtain n q1 where p: "put q xs = (n, q1)" by fastforce
    with prems Put show ?thesis
      using IH [of q1 "acc @ take n xs" out] put_invar [of q xs] put_capacity [of q xs]
        put_contents [of q xs] put_count [of q xs]
      by simp
  next
    case (Get n)
    obtain xs q1 where p: "get q n = (xs, q1)" by fastforce
    with prems Get show ?thesis
      using IH [of q1 acc "out @ xs"] get_invar [of q n] get_capacity [of q n]
        get_contents [of q n] get_value [of q n]
      by simp
  next
    case (Discard n)
    let ?xs = "peek q 0 n"
    have "?xs = take n (contents q)" using peek_value prems(1) by simp
    with prems Discard show ?thesis
      using IH [of "discard q (length ?xs)" acc "out @ ?xs"] discard_invar [of q "length ?xs"]
        discard_capacity [of q "length ?xs"] discard_contents [of q "length ?xs"]
      by (simp add: min_def)
  next
    case Flush
    with prems show ?thesis
      using IH [of "reset q" "[]" "[]"] reset_contents [of q] reset_invar [of q] reset_capacity [of q]
      by simp
  qed
qed

lemma put_all: "invar q \<Longrightarrow> length xs \<le> space q \<Longrightarrow> contents (snd (put q xs)) = contents q @ xs"
  by (simp add: put_contents)

lemma peek_then_discard:
  "invar q \<Longrightarrow> contents q = peek q 0 n @ contents (discard q (length (peek q 0 n)))"
  by (simp add: peek_value discard_contents min_def)

end

definition rb_capacity :: "GG_RingBuffer \<Rightarrow> nat" where
  "rb_capacity self = rb_size self - 1"

interpretation ring: byte_queue rb_invar rb_contents rb_capacity GG_RingBuffer_GetAvailable
  GG_RingBuffer_GetSpace GG_RingBuffer_Write GG_RingBuffer_Read GG_RingBuffer_Peek
  GG_RingBuffer_MoveOut GG_RingBuffer_Reset
proof (unfold_locales, goal_cases)
  case (2 q)
  then show ?case using length_rb_contents_less [of q] by (simp add: GetSpace_eq rb_capacity_def)
qed (simp_all add: GetAvailable_eq Write_spec Read_spec Peek_spec MoveOut_spec Reset_spec rb_capacity_def)

section \<open>Access without a copy\<close>

text \<open>
  A caller may also write into the storage directly: up to \<open>GetContiguousSpace\<close> bytes at the \<open>in\<close>
  pointer, announced by \<open>MoveIn\<close>; and read up to \<open>GetContiguousAvailable\<close> bytes at the \<open>out\<close> pointer.
\<close>

lemma contiguous_space:
  assumes inv: "rb_invar self" and n: "n \<le> GG_RingBuffer_GetContiguousSpace self"
  shows "rb_in self + n \<le> rb_size self" and "length (rb_contents self) + n < rb_size self"
proof -
  note d = rb_invarD [OF inv]
  have e: "GG_RingBuffer_GetContiguousSpace self =
      (if rb_in self < rb_out self then rb_out self - rb_in self - 1
       else if rb_out self = 0 then rb_size self - rb_in self - 1 else rb_size self - rb_in self)"
    using d by (auto simp: GG_RingBuffer_GetContiguousSpace_def size_t_of_def nat_eq_iff)
  show "rb_in self + n \<le> rb_size self" "length (rb_contents self) + n < rb_size self"
    using n d unfolding e length_rb_contents [OF inv] by (auto split: if_splits)
qed

lemma MoveIn_copy:
  "rb_in self + length src \<le> rb_size self \<Longrightarrow>
    GG_RingBuffer_MoveIn (self\<lparr>rb_mem := memcpy_at (rb_mem self) (rb_in self) src\<rparr>) (length src) = copy_in src self"
  by (simp add: GG_RingBuffer_MoveIn_def copy_in_def wrap_in_def)

lemma contiguous_available:
  assumes inv: "rb_invar self"
  shows "GG_RingBuffer_GetContiguousAvailable self \<le> length (rb_contents self)"
    and "subarray (rb_mem self) (rb_out self) (GG_RingBuffer_GetContiguousAvailable self) =
      take (GG_RingBuffer_GetContiguousAvailable self) (rb_contents self)"
    and "GG_RingBuffer_GetContiguousAvailable self = 0 \<longleftrightarrow> rb_contents self = []"
proof -
  note d = rb_invarD [OF inv]
  have e: "GG_RingBuffer_GetContiguousAvailable self =
      (if rb_out self \<le> rb_in self then rb_in self - rb_out self else rb_size self - rb_out self)"
    using d by (auto simp: GG_RingBuffer_GetContiguousAvailable_def size_t_of_def nat_eq_iff)
  show "GG_RingBuffer_GetContiguousAvailable self \<le> length (rb_contents self)"
    unfolding e length_rb_contents [OF inv] by simp
  show "subarray (rb_mem self) (rb_out self) (GG_RingBuffer_GetContiguousAvailable self) =
      take (GG_RingBuffer_GetContiguousAvailable self) (rb_contents self)"
    unfolding e using d by (auto simp: rb_contents_def subarray_def)
  show "GG_RingBuffer_GetContiguousAvailable self = 0 \<longleftrightarrow> rb_contents self = []"
    unfolding e using d length_rb_contents [OF inv] by (auto simp flip: length_0_conv split: if_splits)
qed

section \<open>Properties\<close>

text \<open>C8: A ring buffer is a lossless first-in first-out byte queue. Take any buffer, initialise it,
  and run any sequence of writes, reads, peek-and-skip steps (\<open>MoveOut\<close>) and resets: the bytes
  accepted since the last reset are, in order, those that were taken out followed by those still
  in the ring; what is in the ring never exceeds the size of the storage less one byte; and
  \<open>GetAvailable\<close> and \<open>GetSpace\<close> report exactly what is in the ring and what still fits.\<close>

theorem ring_buffer_fifo:
  assumes "buffer \<noteq> []" "length buffer < 2 ^ 64"
    and "queue_run GG_RingBuffer_Write GG_RingBuffer_Read (\<lambda>q. GG_RingBuffer_Peek q 0)
      GG_RingBuffer_MoveOut GG_RingBuffer_Reset ops [] [] (GG_RingBuffer_Init buffer) = (accepted, taken, rb)"
  shows "accepted = taken @ rb_contents rb \<and>
    GG_RingBuffer_GetAvailable rb = length (rb_contents rb) \<and>
    GG_RingBuffer_GetAvailable rb + GG_RingBuffer_GetSpace rb = length buffer - 1"
proof -
  note i = Init_spec [OF assms(1,2)]
  have "rb_invar rb \<and> rb_capacity rb = rb_capacity (GG_RingBuffer_Init buffer) \<and>
      accepted = taken @ rb_contents rb \<and> length (rb_contents rb) \<le> rb_capacity (GG_RingBuffer_Init buffer)"
    by (rule ring.run_fifo [OF i(1) _ assms(3)]) (simp add: i)
  then show ?thesis using ring.avail [of rb] ring.space [of rb] by (simp add: rb_capacity_def i)
qed

theorem ring_buffer_fifo_witness:
  "queue_run GG_RingBuffer_Write GG_RingBuffer_Read (\<lambda>q. GG_RingBuffer_Peek q 0)
      GG_RingBuffer_MoveOut GG_RingBuffer_Reset [Put [1, 2, 3], Get 2, Put [4, 5], Discard 1] [] []
      (GG_RingBuffer_Init [0, 0, 0, 0]) =
    ([1, 2, 3, 4, 5], [1, 2, 3], \<lparr>rb_mem = [5, 2, 3, 4], rb_size = 4, rb_in = 1, rb_out = 3\<rparr>) \<and>
   [1, 2, 3, 4, 5] = [1, 2, 3] @ rb_contents \<lparr>rb_mem = [5, 2, 3, 4], rb_size = 4, rb_in = 1, rb_out = 3\<rparr>"
proof -
  have run: "queue_run GG_RingBuffer_Write GG_RingBuffer_Read (\<lambda>q. GG_RingBuffer_Peek q 0)
      GG_RingBuffer_MoveOut GG_RingBuffer_Reset [Put [1, 2, 3], Get 2, Put [4, 5], Discard 1] [] []
      (GG_RingBuffer_Init [0, 0, 0, 0]) =
    ([1, 2, 3, 4, 5], [1, 2, 3], \<lparr>rb_mem = [5, 2, 3, 4], rb_size = 4, rb_in = 1, rb_out = 3\<rparr>)"
    by code_simp
  from ring_buffer_fifo [OF _ _ run] run show ?thesis by simp
qed

text \<open>\<open>Write\<close> accepts as many bytes as there is space, reports that number and appends exactly
  those; a read of \<open>n\<close> bytes returns the first \<open>n\<close> bytes of what the ring held (all of it if it held
  fewer) followed, if it reaches that far, by the bytes just written, and removes them.\<close>

lemma ring_buffer_write_read:
  assumes "rb_invar rb" and "GG_RingBuffer_Write rb src = (count, rb1)" and "GG_RingBuffer_Read rb1 n = (dst, rb2)"
  shows "count = min (length src) (GG_RingBuffer_GetSpace rb) \<and>
    dst = take n (rb_contents rb @ take count src) \<and>
    rb_contents rb2 = drop n (rb_contents rb @ take count src) \<and> rb_invar rb2 \<and> rb_size rb2 = rb_size rb"
  using Write_spec [OF assms(1) refl, of src] Read_spec [of rb1 n] assms(2,3) by simp

lemma ring_buffer_write_read_example:
  "let rb = \<lparr>rb_mem = [10, 11, 12, 13], rb_size = 4, rb_in = 3, rb_out = 2\<rparr>
   in GG_RingBuffer_Write rb [7, 8, 9] = (2, \<lparr>rb_mem = [8, 11, 12, 7], rb_size = 4, rb_in = 1, rb_out = 2\<rparr>) \<and>
      [12, 7] = take 2 (rb_contents rb @ take 2 [7, 8, 9])"
proof -
  let ?rb = "\<lparr>rb_mem = [10, 11, 12, 13], rb_size = 4, rb_in = 3, rb_out = 2\<rparr>"
  have w: "GG_RingBuffer_Write ?rb [7, 8, 9] = (2, \<lparr>rb_mem = [8, 11, 12, 7], rb_size = 4, rb_in = 1, rb_out = 2\<rparr>)"
    by code_simp
  have r: "GG_RingBuffer_Read \<lparr>rb_mem = [8, 11, 12, 7], rb_size = 4, rb_in = 1, rb_out = 2\<rparr> 2 =
      ([12, 7], \<lparr>rb_mem = [8, 11, 12, 7], rb_size = 4, rb_in = 1, rb_out = 0\<rparr>)"
    by code_simp
  have "rb_invar ?rb" by (simp add: rb_invar_def)
  from ring_buffer_write_read [OF this w r] w show ?thesis by (simp only: Let_def simp_thms)
qed

text \<open>Peeking at an offset and then skipping with \<open>MoveOut\<close> is the same as reading: a peek
  returns the bytes a read would return after the first \<open>offset\<close> bytes, without changing the ring,
  and moving the \<open>out\<close> pointer over what was peeked leaves the ring a read would leave.\<close>

lemma ring_buffer_peek_read:
  assumes "rb_invar rb" and "offset \<le> GG_RingBuffer_GetAvailable rb"
  shows "GG_RingBuffer_Peek rb offset n = fst (GG_RingBuffer_Read (snd (GG_RingBuffer_Read rb offset)) n) \<and>
    rb_contents (GG_RingBuffer_MoveOut rb (offset + length (GG_RingBuffer_Peek rb offset n))) =
      rb_contents (snd (GG_RingBuffer_Read (snd (GG_RingBuffer_Read rb offset)) n))"
proof -
  have "offset + length (take n (drop offset (rb_contents rb))) \<le> length (rb_contents rb)"
    using assms by (simp add: GetAvailable_eq)
  from MoveOut_spec(2) [OF assms(1) this] show ?thesis
    using Read_spec [OF assms(1), of offset] Read_spec [of "snd (GG_RingBuffer_Read rb offset)" n]
    by (simp add: Peek_spec [OF assms(1)] add.commute min_def)
qed

lemma ring_buffer_peek_read_example:
  "GG_RingBuffer_Peek \<lparr>rb_mem = [8, 11, 12, 7], rb_size = 4, rb_in = 1, rb_out = 2\<rparr> 1 5 = [7, 8] \<and>
   [7, 8] = fst (GG_RingBuffer_Read (snd (GG_RingBuffer_Read
     \<lparr>rb_mem = [8, 11, 12, 7], rb_size = 4, rb_in = 1, rb_out = 2\<rparr> 1)) 5)"
proof -
  let ?rb = "\<lparr>rb_mem = [8, 11, 12, 7], rb_size = 4, rb_in = 1, rb_out = 2\<rparr>"
  have i: "rb_invar ?rb" by (simp add: rb_invar_def)
  have o: "1 \<le> GG_RingBuffer_GetAvailable ?rb" by code_simp
  have p: "GG_RingBuffer_Peek ?rb 1 5 = [7, 8]" by code_simp
  from ring_buffer_peek_read [OF i o, of 5] p show ?thesis by metis
qed

text \<open>Writing without a copy is writing: storing up to \<open>GetContiguousSpace\<close> bytes at the \<open>in\<close>
  pointer and announcing them with \<open>MoveIn\<close> appends exactly these bytes, as \<open>Write\<close> does, and the
  store stays inside the storage; reading up to \<open>GetContiguousAvailable\<close> bytes at the \<open>out\<close> pointer
  sees a prefix of the contents, which is empty only when the ring is.\<close>

lemma ring_buffer_contiguous:
  assumes "rb_invar rb" and "length src \<le> GG_RingBuffer_GetContiguousSpace rb"
  shows "rb_contents (GG_RingBuffer_MoveIn (rb\<lparr>rb_mem := memcpy_at (rb_mem rb) (rb_in rb) src\<rparr>) (length src)) =
      rb_contents (snd (GG_RingBuffer_Write rb src)) \<and>
    rb_in rb + length src \<le> length (rb_mem rb) \<and>
    rb_invar (GG_RingBuffer_MoveIn (rb\<lparr>rb_mem := memcpy_at (rb_mem rb) (rb_in rb) src\<rparr>) (length src)) \<and>
    subarray (rb_mem rb) (rb_out rb) (GG_RingBuffer_GetContiguousAvailable rb) =
      take (GG_RingBuffer_GetContiguousAvailable rb) (rb_contents rb) \<and>
    (GG_RingBuffer_GetContiguousAvailable rb = 0 \<longleftrightarrow> rb_contents rb = [])"
proof -
  note c = contiguous_space [OF assms]
  have "length src \<le> GG_RingBuffer_GetSpace rb" using c(2) by (simp add: GetSpace_eq [OF assms(1)])
  then have "rb_contents (snd (GG_RingBuffer_Write rb src)) = rb_contents rb @ src"
    by (rule ring.put_all [OF assms(1)])
  with copy_in_spec [OF assms(1) c] contiguous_available [OF assms(1)] c(1) rb_invarD(1) [OF assms(1)]
  show ?thesis by (simp add: MoveIn_copy)
qed

lemma ring_buffer_contiguous_example:
  "rb_contents (GG_RingBuffer_MoveIn \<lparr>rb_mem = [0, 5, 6, 7], rb_size = 4, rb_in = 2, rb_out = 1\<rparr> 2) = [5, 6, 7]"
proof -
  let ?rb = "\<lparr>rb_mem = [0, 5, 0, 0], rb_size = 4, rb_in = 2, rb_out = 1\<rparr>"
  have i: "rb_invar ?rb" by (simp add: rb_invar_def)
  have c: "length [6, 7 :: u8] \<le> GG_RingBuffer_GetContiguousSpace ?rb" by code_simp
  have w: "rb_contents (snd (GG_RingBuffer_Write ?rb [6, 7])) = [5, 6, 7]" by code_simp
  from ring_buffer_contiguous [OF i c] w show ?thesis by (simp add: memcpy_at_def numeral_2_eq_2)
qed

end
