(* ===== verification/Gattlink_Client.thy ===== *)
theory Gattlink_Client
  imports Gattlink_Props Ring_Buffer
begin

text \<open>
  The generic Gattlink client of \<^verbatim>\<open>xp/gattlink/gg_gattlink_generic_client.c\<close>: it keeps outgoing
  frames in a ring buffer, feeds received bytes to a frame assembler and connects both to a
  user-side and a transport-side sink. The frame assembler is an interface of the C code, here
  a record of functions over a state \<open>'a\<close>: \<open>GetFeedBuffer\<close> yields the size of the buffer,
  \<open>Feed\<close> is given the bytes the caller copied into it. The user-side sink is a function over a state \<open>'u\<close>;
  the transport-side sink is the list of the buffers put to it. Calls of listeners are recorded
  as events, for a client whose listeners are set. The optional data probe is not modelled (the
  client is created without one). \<open>GetOutgoingData\<close> yields the bytes it copied: fewer than asked
  for is the C \<^verbatim>\<open>GG_ERROR_OUT_OF_RANGE\<close>, which the protocol never meets (law \<open>get\<close> of the locale
  \<open>gattlink_client\<close>, with the window invariant).
\<close>

section \<open>State\<close>

record 'a GG_FrameAssembler =
  GetFeedBuffer :: "'a \<Rightarrow> nat option"
  Feed :: "bytes \<Rightarrow> 'a \<Rightarrow> (GG_Result \<times> nat \<times> bytes option \<times> 'a) option"
  FrameAssembler_Reset :: "'a \<Rightarrow> 'a"

type_synonym 'u data_sink = "bytes \<Rightarrow> 'u \<Rightarrow> GG_Result \<times> 'u"

type_synonym frame_serializer = "bytes \<Rightarrow> GG_RingBuffer \<Rightarrow> (GG_Result \<times> GG_RingBuffer) option"

datatype client_event =
    OnCanPut
  | GG_EVENT_TYPE_GATTLINK_SESSION_READY
  | GG_EVENT_TYPE_GATTLINK_SESSION_RESET
  | GG_EVENT_TYPE_GATTLINK_SESSION_STALLED u32

record ('a, 'u) GG_GattlinkGenericClient =
  session_open :: bool
  frame_assembler :: 'a
  output_buffer :: GG_RingBuffer
  max_transport_fragment_size :: nat
  transport_sink :: "bytes list option"
  user_sink :: "'u option"
  client_events :: "client_event list"

definition emit ::
  "client_event \<Rightarrow> ('a, 'u) GG_GattlinkGenericClient \<Rightarrow> ('a, 'u) GG_GattlinkGenericClient" where
  "emit ev self = self\<lparr>client_events := client_events self @ [ev]\<rparr>"

section \<open>The client interface of the protocol\<close>

definition GG_GattlinkGenericClient_GetOutgoingDataAvailable ::
  "('a, 'u) GG_GattlinkGenericClient \<Rightarrow> nat" where
  "GG_GattlinkGenericClient_GetOutgoingDataAvailable self = GG_RingBuffer_GetAvailable (output_buffer self)"

definition GG_GattlinkGenericClient_GetOutgoingData ::
  "('a, 'u) GG_GattlinkGenericClient \<Rightarrow> nat \<Rightarrow> nat \<Rightarrow> bytes" where
  "GG_GattlinkGenericClient_GetOutgoingData self offset n =
     GG_RingBuffer_Peek (output_buffer self) offset n"

definition GG_GattlinkGenericClient_ConsumeOutgoingData ::
  "nat \<Rightarrow> ('a, 'u) GG_GattlinkGenericClient \<Rightarrow> ('a, 'u) GG_GattlinkGenericClient" where
  "GG_GattlinkGenericClient_ConsumeOutgoingData n self =
     (if GG_RingBuffer_GetAvailable (output_buffer self) \<ge> n
      then emit OnCanPut (self\<lparr>output_buffer := GG_RingBuffer_MoveOut (output_buffer self) n\<rparr>)
      else self)"

text \<open>The feeding loop; \<open>None\<close> when an assertion fails in the assembler, or the loop never ends.\<close>

partial_function (option) feed_loop ::
  "'a GG_FrameAssembler \<Rightarrow> 'u data_sink \<Rightarrow>
   ('a, 'u) GG_GattlinkGenericClient \<Rightarrow> GG_GattlinkInboundPayloadInfo \<Rightarrow>
   (('a, 'u) GG_GattlinkGenericClient \<times> GG_GattlinkInboundPayloadInfo) option" where
  "feed_loop A PutData self i =
     (case user_sink self of
        None \<Rightarrow> Some (self, i)
      | Some u \<Rightarrow> do {
          feed_buffer_size \<leftarrow> GetFeedBuffer A (frame_assembler self);
          if feed_buffer_size = 0 then Some (self, i)
          else do {
            let bytes_available = GG_GattlinkProtocol_GetIncomingDataAvailable i;
            let feed_buffer_size = min feed_buffer_size bytes_available;
            let (gl_result, feed_buffer) = GG_GattlinkProtocol_GetIncomingData i 0 feed_buffer_size;
            if gl_result \<noteq> GG_SUCCESS then Some (self, i)
            else do {
              (result, consumed, frame, a) \<leftarrow> Feed A feed_buffer (frame_assembler self);
              let self = self\<lparr>frame_assembler := a\<rparr>;
              let (put_result, self) =
                (case frame of
                   None \<Rightarrow> (GG_SUCCESS, self)
                 | Some f \<Rightarrow> let (r, u) = PutData f u in (r, self\<lparr>user_sink := Some u\<rparr>));
              if put_result \<noteq> GG_SUCCESS then Some (self, i)
              else if consumed = 0 then Some (self, i)
              else do {
                let i = snd (GG_GattlinkProtocol_ConsumeIncomingData consumed i);
                if consumed = bytes_available then Some (self, i)
                else feed_loop A PutData self i
              }
            }
          }
        })"

declare feed_loop.simps [code]

definition GG_GattlinkGenericClient_NotifyIncomingDataAvailable ::
  "'a GG_FrameAssembler \<Rightarrow> 'u data_sink \<Rightarrow>
   ('a, 'u) GG_GattlinkGenericClient \<times> GG_GattlinkInboundPayloadInfo \<Rightarrow>
   (('a, 'u) GG_GattlinkGenericClient \<times> GG_GattlinkInboundPayloadInfo) option" where
  "GG_GattlinkGenericClient_NotifyIncomingDataAvailable A PutData st = feed_loop A PutData (fst st) (snd st)"

definition GG_GattlinkGenericClient_GetTransportMaxPacketSize ::
  "('a, 'u) GG_GattlinkGenericClient \<Rightarrow> nat" where
  "GG_GattlinkGenericClient_GetTransportMaxPacketSize self = max_transport_fragment_size self"

definition GG_GattlinkGenericClient_SendRawData ::
  "bytes \<Rightarrow> ('a, 'u) GG_GattlinkGenericClient \<Rightarrow> GG_Result \<times> ('a, 'u) GG_GattlinkGenericClient" where
  "GG_GattlinkGenericClient_SendRawData data self =
     (case transport_sink self of
        None \<Rightarrow> (GG_ERROR_INVALID_STATE, self)
      | Some buffers \<Rightarrow> (GG_SUCCESS, self\<lparr>transport_sink := Some (buffers @ [data])\<rparr>))"

definition GG_GattlinkGenericClient_Flush ::
  "'a GG_FrameAssembler \<Rightarrow> ('a, 'u) GG_GattlinkGenericClient \<Rightarrow> ('a, 'u) GG_GattlinkGenericClient" where
  "GG_GattlinkGenericClient_Flush A self =
     self\<lparr>frame_assembler := FrameAssembler_Reset A (frame_assembler self),
          output_buffer := GG_RingBuffer_Reset (output_buffer self)\<rparr>"

definition GG_GattlinkGenericClient_NotifySessionReady ::
  "('a, 'u) GG_GattlinkGenericClient \<Rightarrow> ('a, 'u) GG_GattlinkGenericClient" where
  "GG_GattlinkGenericClient_NotifySessionReady self =
     emit GG_EVENT_TYPE_GATTLINK_SESSION_READY (emit OnCanPut (self\<lparr>session_open := True\<rparr>))"

definition GG_GattlinkGenericClient_NotifySessionReset ::
  "'a GG_FrameAssembler \<Rightarrow> ('a, 'u) GG_GattlinkGenericClient \<Rightarrow> ('a, 'u) GG_GattlinkGenericClient" where
  "GG_GattlinkGenericClient_NotifySessionReset A self =
     emit GG_EVENT_TYPE_GATTLINK_SESSION_RESET
       ((GG_GattlinkGenericClient_Flush A self)\<lparr>session_open := False\<rparr>)"

definition GG_GattlinkGenericClient_NotifySessionStalled ::
  "u32 \<Rightarrow> ('a, 'u) GG_GattlinkGenericClient \<Rightarrow> ('a, 'u) GG_GattlinkGenericClient" where
  "GG_GattlinkGenericClient_NotifySessionStalled stalled_time self =
     emit (GG_EVENT_TYPE_GATTLINK_SESSION_STALLED stalled_time) self"

text \<open>The function table of the client.\<close>

definition generic_client ::
  "'a GG_FrameAssembler \<Rightarrow> 'u data_sink \<Rightarrow> ('a, 'u) GG_GattlinkGenericClient GG_GattlinkClient" where
  "generic_client A PutData =
     \<lparr>GetOutgoingDataAvailable = GG_GattlinkGenericClient_GetOutgoingDataAvailable,
      GetOutgoingData = GG_GattlinkGenericClient_GetOutgoingData,
      ConsumeOutgoingData = GG_GattlinkGenericClient_ConsumeOutgoingData,
      NotifyIncomingDataAvailable = GG_GattlinkGenericClient_NotifyIncomingDataAvailable A PutData,
      GetTransportMaxPacketSize = GG_GattlinkGenericClient_GetTransportMaxPacketSize,
      SendRawData = GG_GattlinkGenericClient_SendRawData,
      NotifySessionReady = GG_GattlinkGenericClient_NotifySessionReady,
      NotifySessionReset = GG_GattlinkGenericClient_NotifySessionReset A,
      NotifySessionStalled = GG_GattlinkGenericClient_NotifySessionStalled\<rparr>"

section \<open>The sides of the client\<close>

text \<open>A client object is the protocol it owns, with the client state in its \<open>gl_client\<close> field.\<close>

type_synonym ('a, 'u) client_object = "('a, 'u) GG_GattlinkGenericClient GG_GattlinkProtocol"

definition GG_GattlinkGenericClient_Create ::
  "nat \<Rightarrow> nat \<Rightarrow> nat \<Rightarrow> nat \<Rightarrow> 'a \<Rightarrow> ('a, 'u) client_object" where
  "GG_GattlinkGenericClient_Create buffer_size max_tx max_rx max_fragment a =
     (let config = \<lparr>max_tx_window_size = (if max_tx \<noteq> 0 then max_tx else 8),
                    max_rx_window_size = (if max_rx \<noteq> 0 then max_rx else 8)\<rparr>
      in GG_GattlinkProtocol_Create
           \<lparr>session_open = False, frame_assembler = a,
            output_buffer = GG_RingBuffer_Init (replicate buffer_size 0),
            max_transport_fragment_size = min max_fragment GG_GATTLINK_MAX_PACKET_SIZE,
            transport_sink = None, user_sink = None, client_events = []\<rparr> config)"

definition GG_GattlinkGenericClient_UserSide_PutData ::
  "'a GG_FrameAssembler \<Rightarrow> 'u data_sink \<Rightarrow> frame_serializer \<Rightarrow> bytes \<Rightarrow> ('a, 'u) client_object \<Rightarrow>
   (GG_Result \<times> ('a, 'u) client_object) option" where
  "GG_GattlinkGenericClient_UserSide_PutData A PutData SerializeFrame data self =
     (let c = gl_client self
      in if \<not> session_open c then Some (GG_ERROR_WOULD_BLOCK, self)
         else if length data > GG_RingBuffer_GetSpace (output_buffer c) then Some (GG_ERROR_WOULD_BLOCK, self)
         else do {
           (result, rb) \<leftarrow> SerializeFrame data (output_buffer c);
           let self = self\<lparr>gl_client := c\<lparr>output_buffer := rb\<rparr>\<rparr>;
           if result \<noteq> GG_SUCCESS then Some (result, self)
           else map_option (Pair GG_SUCCESS)
                  (GG_GattlinkProtocol_NotifyOutgoingDataAvailable (generic_client A PutData) self)
         })"

definition GG_GattlinkGenericClient_UserSide_OnCanPut ::
  "'a GG_FrameAssembler \<Rightarrow> 'u data_sink \<Rightarrow> ('a, 'u) client_object \<Rightarrow> ('a, 'u) client_object option" where
  "GG_GattlinkGenericClient_UserSide_OnCanPut A PutData self =
     map_option (\<lambda>(c, i). self\<lparr>gl_client := c, gl_in := i\<rparr>)
       (GG_GattlinkGenericClient_NotifyIncomingDataAvailable A PutData (gl_client self, gl_in self))"

definition GG_GattlinkGenericClient_TransportSide_PutData ::
  "'a GG_FrameAssembler \<Rightarrow> 'u data_sink \<Rightarrow> bytes \<Rightarrow> ('a, 'u) client_object \<Rightarrow>
   (GG_Result \<times> ('a, 'u) client_object) option" where
  "GG_GattlinkGenericClient_TransportSide_PutData A PutData data self =
     map_option (\<lambda>(_, self). (GG_SUCCESS, self))
       (GG_GattlinkProtocol_HandleIncomingRawData (generic_client A PutData) data self)"

definition GG_GattlinkGenericClient_TransportSide_SetDataSink ::
  "bytes list option \<Rightarrow> ('a, 'u) client_object \<Rightarrow> ('a, 'u) client_object" where
  "GG_GattlinkGenericClient_TransportSide_SetDataSink sink self =
     upd_client (\<lambda>c. c\<lparr>transport_sink := sink\<rparr>) self"

definition GG_GattlinkGenericClient_UserSide_SetDataSink ::
  "'u option \<Rightarrow> ('a, 'u) client_object \<Rightarrow> ('a, 'u) client_object" where
  "GG_GattlinkGenericClient_UserSide_SetDataSink sink self =
     upd_client (\<lambda>c. c\<lparr>user_sink := sink\<rparr>) self"

definition GG_GattlinkGenericClient_TransportSide_OnCanPut ::
  "'a GG_FrameAssembler \<Rightarrow> 'u data_sink \<Rightarrow> ('a, 'u) client_object \<Rightarrow> ('a, 'u) client_object option" where
  "GG_GattlinkGenericClient_TransportSide_OnCanPut A PutData self =
     GG_GattlinkProtocol_NotifyOutgoingDataAvailable (generic_client A PutData) self"

definition GG_GattlinkGenericClient_Start ::
  "'a GG_FrameAssembler \<Rightarrow> 'u data_sink \<Rightarrow> ('a, 'u) client_object \<Rightarrow>
   (GG_Result \<times> ('a, 'u) client_object) option" where
  "GG_GattlinkGenericClient_Start A PutData self = GG_GattlinkProtocol_Start (generic_client A PutData) self"

definition GG_GattlinkGenericClient_Reset ::
  "'a GG_FrameAssembler \<Rightarrow> 'u data_sink \<Rightarrow> ('a, 'u) client_object \<Rightarrow>
   (GG_Result \<times> ('a, 'u) client_object) option" where
  "GG_GattlinkGenericClient_Reset A PutData self =
     map_option (\<lambda>(_, self). (GG_SUCCESS, self))
       (GG_GattlinkProtocol_Reset (generic_client A PutData)
         (upd_client (GG_GattlinkGenericClient_Flush A) self))"

definition GG_GattlinkGenericClient_SetMaxTransportFragmentSize ::
  "nat \<Rightarrow> ('a, 'u) client_object \<Rightarrow> ('a, 'u) client_object" where
  "GG_GattlinkGenericClient_SetMaxTransportFragmentSize n self =
     upd_client (\<lambda>c. c\<lparr>max_transport_fragment_size := min n GG_GATTLINK_MAX_PACKET_SIZE\<rparr>) self"

section \<open>The contract of a frame assembler\<close>

lemma ConsumeIncomingData_available:
  "n \<le> GG_GattlinkProtocol_GetIncomingDataAvailable i \<Longrightarrow>
    GG_GattlinkProtocol_GetIncomingDataAvailable (snd (GG_GattlinkProtocol_ConsumeIncomingData n i)) =
    GG_GattlinkProtocol_GetIncomingDataAvailable i - n"
  by (auto simp: GG_GattlinkProtocol_ConsumeIncomingData_def GG_GattlinkProtocol_GetIncomingDataAvailable_def
      Let_def)

lemma ConsumeIncomingData_in_ok:
  "in_ok i \<Longrightarrow> in_ok (snd (GG_GattlinkProtocol_ConsumeIncomingData n i))"
  by (auto simp: GG_GattlinkProtocol_ConsumeIncomingData_def GG_GattlinkProtocol_GetIncomingDataAvailable_def
      Let_def in_ok_def split: if_splits)

lemma GetIncomingData_length:
  "GG_GattlinkProtocol_GetIncomingData i off n = (GG_SUCCESS, d) \<Longrightarrow> length d \<le> n"
  by (auto simp: GG_GattlinkProtocol_GetIncomingData_def Let_def subarray_def split: if_splits)

definition client_stream :: "('a, 'u) GG_GattlinkGenericClient \<Rightarrow> bytes" where
  "client_stream c = rb_contents (output_buffer c)"

definition client_sent :: "('a, 'u) GG_GattlinkGenericClient \<Rightarrow> bytes list" where
  "client_sent c = (case transport_sink c of None \<Rightarrow> [] | Some buffers \<Rightarrow> buffers)"

definition client_inv :: "('a \<Rightarrow> bool) \<Rightarrow> ('a, 'u) GG_GattlinkGenericClient \<Rightarrow> bool" where
  "client_inv ainv c \<longleftrightarrow> rb_invar (output_buffer c) \<and> transport_sink c \<noteq> None \<and>
     RESET_COMPLETE_PACKET_SIZE \<le> max_transport_fragment_size c \<and> ainv (frame_assembler c)"

text \<open>The parts of a client that feeding the assembler leaves alone.\<close>

definition same_output :: "('a, 'u) GG_GattlinkGenericClient \<Rightarrow> ('a, 'u) GG_GattlinkGenericClient \<Rightarrow> bool" where
  "same_output c c' \<longleftrightarrow> output_buffer c' = output_buffer c \<and> transport_sink c' = transport_sink c \<and>
     max_transport_fragment_size c' = max_transport_fragment_size c \<and> session_open c' = session_open c \<and>
     client_events c' = client_events c"

text \<open>
  What the client relies on of its frame assembler: in a well-formed state it accepts any bytes
  up to the size of its feed buffer, consumes at most those, and stays well-formed.
\<close>

locale assembler_contract =
  fixes A :: "'a GG_FrameAssembler" and ainv :: "'a \<Rightarrow> bool"
  assumes feed_buffer: "ainv a \<Longrightarrow> \<exists>n. GetFeedBuffer A a = Some n"
    and feed: "ainv a \<Longrightarrow> GetFeedBuffer A a = Some n \<Longrightarrow> length data \<le> n \<Longrightarrow>
      \<exists>r consumed frame a'. Feed A data a = Some (r, consumed, frame, a') \<and>
        consumed \<le> length data \<and> ainv a'"
    and reset_ainv: "ainv a \<Longrightarrow> ainv (FrameAssembler_Reset A a)"
begin

lemma feed_loop_total:
  assumes "ainv (frame_assembler self)" and "in_ok i"
  shows "\<exists>self' i'. feed_loop A PutData self i = Some (self', i') \<and>
    ainv (frame_assembler self') \<and> in_ok i' \<and> same_output self self'"
  using assms
proof (induction "GG_GattlinkProtocol_GetIncomingDataAvailable i" arbitrary: self i rule: less_induct)
  case less
  let ?av = "GG_GattlinkProtocol_GetIncomingDataAvailable i"
  obtain n where n: "GetFeedBuffer A (frame_assembler self) = Some n" using feed_buffer less.prems(1) by blast
  obtain r d where d: "GG_GattlinkProtocol_GetIncomingData i 0 (min n ?av) = (r, d)" by fastforce
  show ?case
  proof (cases "user_sink self = None \<or> n = 0 \<or> r \<noteq> GG_SUCCESS")
    case True
    with n d less.prems show ?thesis
      by (subst feed_loop.simps) (auto simp: Let_def same_output_def split: option.splits)
  next
    case False
    then obtain u where u: "user_sink self = Some u" and nr: "n \<noteq> 0" "r = GG_SUCCESS" by auto
    have "length d \<le> min n ?av" using GetIncomingData_length [of i 0 "min n ?av" d] d nr by simp
    then obtain x consumed frame a' where f: "Feed A d (frame_assembler self) = Some (x, consumed, frame, a')"
      "consumed \<le> ?av" "ainv a'"
      using feed [OF less.prems(1) n, of d] by auto
    have IH: "\<exists>self' i'. feed_loop A PutData s (snd (GG_GattlinkProtocol_ConsumeIncomingData consumed i)) =
        Some (self', i') \<and> ainv (frame_assembler self') \<and> in_ok i' \<and> same_output self self'"
      if "consumed \<noteq> 0" "ainv (frame_assembler s)" "same_output self s" for s
      using less.hyps [of "snd (GG_GattlinkProtocol_ConsumeIncomingData consumed i)" s] that f(2)
        ConsumeIncomingData_available [OF f(2)] ConsumeIncomingData_in_ok [OF less.prems(2)]
      by (fastforce simp: same_output_def)
    show ?thesis
      using u nr n d f less.prems(2) ConsumeIncomingData_in_ok [OF less.prems(2)]
        IH [of "self\<lparr>frame_assembler := a', user_sink := w\<rparr>" for w] IH [of "self\<lparr>frame_assembler := a'\<rparr>"]
      by (subst feed_loop.simps)
        (auto simp: Let_def same_output_def split: option.splits prod.splits)
  qed
qed

end

lemmas client_ops = generic_client_def client_stream_def client_sent_def client_inv_def emit_def
  GG_GattlinkGenericClient_GetOutgoingDataAvailable_def GG_GattlinkGenericClient_GetOutgoingData_def
  GG_GattlinkGenericClient_ConsumeOutgoingData_def GG_GattlinkGenericClient_GetTransportMaxPacketSize_def
  GG_GattlinkGenericClient_SendRawData_def GG_GattlinkGenericClient_Flush_def
  GG_GattlinkGenericClient_NotifySessionReady_def GG_GattlinkGenericClient_NotifySessionReset_def
  GG_GattlinkGenericClient_NotifySessionStalled_def

section \<open>The generic client is a client of the protocol\<close>

sublocale assembler_contract \<subseteq> generic: gattlink_client_connected
  "generic_client A PutData" "client_inv ainv" client_stream client_sent session_open
  for PutData
proof (unfold_locales, goal_cases)
  case (10 c i)
  then show ?case
    using feed_loop_total [of c i PutData]
    by (fastforce simp: generic_client_def GG_GattlinkGenericClient_NotifyIncomingDataAvailable_def
        client_inv_def client_stream_def client_sent_def same_output_def)
qed (auto simp: client_ops GetAvailable_eq Peek_spec MoveOut_spec Reset_spec subarray_def reset_ainv
      split: option.splits)

end
