(* ===== verification/Gattlink_Session.thy ===== *)
theory Gattlink_Session
  imports Gattlink_Client
begin

text \<open>
  Sessions of the generic client: the calls that drive a client object, in any order, and what
  holds along every such run, given a frame assembler that meets its contract and a serializer
  that only appends to the output buffer (locale \<open>framing\<close>).
\<close>

section \<open>Driving a client\<close>

datatype client_op =
    UserPutData bytes
  | TransportPutData bytes
  | UserCanPut
  | TransportCanPut
  | ClientTimer gl_timer u32
  | ClientReset
  | SetMaxFragment nat

fun client_step ::
  "'a GG_FrameAssembler \<Rightarrow> 'u data_sink \<Rightarrow> frame_serializer \<Rightarrow> client_op \<Rightarrow>
   ('a, 'u) client_object \<Rightarrow> ('a, 'u) client_object option" where
  "client_step A P S (UserPutData data) self =
     map_option snd (GG_GattlinkGenericClient_UserSide_PutData A P S data self)"
| "client_step A P S (TransportPutData data) self =
     map_option snd (GG_GattlinkGenericClient_TransportSide_PutData A P data self)"
| "client_step A P S UserCanPut self = GG_GattlinkGenericClient_UserSide_OnCanPut A P self"
| "client_step A P S TransportCanPut self = GG_GattlinkGenericClient_TransportSide_OnCanPut A P self"
| "client_step A P S (ClientTimer t elapsed) self =
     GG_GattlinkProtocol_OnTimerFired (generic_client A P) t elapsed self"
| "client_step A P S ClientReset self = map_option snd (GG_GattlinkGenericClient_Reset A P self)"
| "client_step A P S (SetMaxFragment n) self = Some (GG_GattlinkGenericClient_SetMaxTransportFragmentSize n self)"

fun client_run ::
  "'a GG_FrameAssembler \<Rightarrow> 'u data_sink \<Rightarrow> frame_serializer \<Rightarrow> client_op list \<Rightarrow>
   ('a, 'u) client_object \<Rightarrow> ('a, 'u) client_object option" where
  "client_run A P S [] self = Some self"
| "client_run A P S (op # ops) self = client_step A P S op self \<bind> client_run A P S ops"

text \<open>Calls a user may make: frames the serializer takes, and transports that can carry a reset packet.\<close>

definition op_ok :: "(bytes \<Rightarrow> bool) \<Rightarrow> client_op \<Rightarrow> bool" where
  "op_ok sendable op = (case op of
       UserPutData d \<Rightarrow> sendable d
     | SetMaxFragment n \<Rightarrow> RESET_COMPLETE_PACKET_SIZE \<le> n
     | _ \<Rightarrow> True)"

definition connected_client ::
  "nat \<Rightarrow> nat \<Rightarrow> nat \<Rightarrow> nat \<Rightarrow> 'a \<Rightarrow> 'u \<Rightarrow> ('a, 'u) client_object" where
  "connected_client buffer_size max_tx max_rx max_fragment a u =
     GG_GattlinkGenericClient_UserSide_SetDataSink (Some u)
       (GG_GattlinkGenericClient_TransportSide_SetDataSink (Some [])
         (GG_GattlinkGenericClient_Create buffer_size max_tx max_rx max_fragment a))"

abbreviation session_inv :: "('a \<Rightarrow> bool) \<Rightarrow> ('a, 'u) client_object \<Rightarrow> bool" where
  "session_inv ainv \<equiv> gl_inv (client_inv ainv) client_stream session_open"

lemma connected_client_inv:
  assumes "0 < buffer_size" "buffer_size < 2 ^ 64" "max_tx < 32" "5 \<le> max_fragment" "ainv a"
  shows "session_inv ainv (connected_client buffer_size max_tx max_rx max_fragment a u)"
  using assms Init_spec [of "replicate buffer_size 0"]
  by (simp add: connected_client_def GG_GattlinkGenericClient_UserSide_SetDataSink_def
      GG_GattlinkGenericClient_TransportSide_SetDataSink_def GG_GattlinkGenericClient_Create_def
      GG_GattlinkProtocol_Create_def gl_inv_def client_inv_def client_stream_def zero_out_def)

lemma window_ok_more_data: "window_ok tx n ob k j \<Longrightarrow> n \<le> m \<Longrightarrow> window_ok tx m ob k j"
  by (auto simp: window_ok_def)

section \<open>Runs\<close>

locale framing = assembler_contract A ainv for A :: "'a GG_FrameAssembler" and ainv +
  fixes S :: frame_serializer and sendable :: "bytes \<Rightarrow> bool"
  assumes serialize: "rb_invar rb \<Longrightarrow> sendable data \<Longrightarrow>
    \<exists>r rb' xs. S data rb = Some (r, rb') \<and> rb_invar rb' \<and> rb_contents rb' = rb_contents rb @ xs"
begin

lemma OnCanPut_total:
  assumes inv: "session_inv ainv self"
  shows "\<exists>self'. GG_GattlinkGenericClient_UserSide_OnCanPut A P self = Some self' \<and> session_inv ainv self'"
proof -
  obtain c' i' where "feed_loop A P (gl_client self) (gl_in self) = Some (c', i')"
    "ainv (frame_assembler c')" "in_ok i'" "same_output (gl_client self) c'"
    using feed_loop_total [of "gl_client self" "gl_in self" P] inv by (auto simp: gl_inv_def client_inv_def)
  with inv show ?thesis
    by (auto simp: GG_GattlinkGenericClient_UserSide_OnCanPut_def gl_inv_def client_inv_def client_stream_def
        GG_GattlinkGenericClient_NotifyIncomingDataAvailable_def same_output_def)
qed

text \<open>
  \<^verbatim>\<open>GG_GattlinkGenericClient_Reset\<close> empties the buffers before it resets the protocol: the window
  then describes bytes that are gone, but the reset leaves the ready state at once.
\<close>

lemma client_Reset_total:
  assumes inv: "session_inv ainv self"
  shows "\<exists>self'. GG_GattlinkGenericClient_Reset A P self = Some (GG_SUCCESS, self') \<and> session_inv ainv self'"
proof -
  have "\<exists>r self'. GG_GattlinkProtocol_Reset (generic_client A P) (upd_client (GG_GattlinkGenericClient_Flush A) self) =
      Some (r, self') \<and> session_inv ainv self'"
    by (rule generic.Reset_restarts) (use inv in \<open>auto simp: gl_inv_def client_ops Reset_spec reset_ainv\<close>)
  then show ?thesis by (auto simp: GG_GattlinkGenericClient_Reset_def)
qed

lemma UserPutData_total:
  assumes inv: "session_inv ainv self" and snd: "sendable data"
  shows "\<exists>r self'. GG_GattlinkGenericClient_UserSide_PutData A P S data self = Some (r, self') \<and>
    session_inv ainv self'"
proof -
  let ?c = "gl_client self"
  have rb: "rb_invar (output_buffer ?c)" using inv by (simp add: gl_inv_def client_inv_def)
  obtain r rb' xs where s: "S data (output_buffer ?c) = Some (r, rb')" "rb_invar rb'"
    "rb_contents rb' = rb_contents (output_buffer ?c) @ xs" using serialize [OF rb snd] by blast
  let ?s = "self\<lparr>gl_client := ?c\<lparr>output_buffer := rb'\<rparr>\<rparr>"
  show ?thesis
  proof (cases "session_open ?c")
    case False
    with inv show ?thesis by (simp add: GG_GattlinkGenericClient_UserSide_PutData_def)
  next
    case True
    with inv have ready: "gl_state self = GG_GATTLINK_STATE_READY" by (auto simp: gl_inv_def split: if_splits)
    have len: "length (rb_contents (output_buffer ?c)) \<le> length (rb_contents rb')" using s by simp
    have inv': "session_inv ainv ?s"
      using inv ready s(2)
      by (auto simp: gl_inv_def client_inv_def client_stream_def intro: window_ok_more_data [OF _ len])
    from generic.SendNextPackets_total [OF inv'] inv' inv s(1) show ?thesis
      by (auto simp: GG_GattlinkGenericClient_UserSide_PutData_def Let_def
          GG_GattlinkProtocol_NotifyOutgoingDataAvailable_def)
  qed
qed

lemma SetMaxTransportFragmentSize_inv:
  assumes inv: "session_inv ainv self" and n: "5 \<le> n"
  shows "session_inv ainv (GG_GattlinkGenericClient_SetMaxTransportFragmentSize n self)"
  using assms
  by (auto simp: GG_GattlinkGenericClient_SetMaxTransportFragmentSize_def gl_inv_def client_inv_def client_stream_def)

lemma Start_total:
  assumes inv: "session_inv ainv self" and st: "gl_state self = GG_GATTLINK_STATE_INITIALIZED"
  shows "\<exists>r self'. GG_GattlinkGenericClient_Start A P self = Some (r, self') \<and> session_inv ainv self'"
  using generic.Reset_total [OF inv, of P] st
  by (simp add: GG_GattlinkGenericClient_Start_def GG_GattlinkProtocol_Start_def)

lemma client_step_total:
  "session_inv ainv self \<Longrightarrow> op_ok sendable op \<Longrightarrow>
    \<exists>self'. client_step A P S op self = Some self' \<and> session_inv ainv self'"
  using UserPutData_total [of self _ P] generic.HandleIncomingRawData_total [of self P] OnCanPut_total [of self P]
    generic.SendNextPackets_total [of self P] generic.OnTimerFired_total [of self P]
    client_Reset_total [of self P] SetMaxTransportFragmentSize_inv [of self]
  by (cases op) (fastforce simp: op_ok_def GG_GattlinkGenericClient_TransportSide_PutData_def
      GG_GattlinkGenericClient_TransportSide_OnCanPut_def GG_GattlinkProtocol_NotifyOutgoingDataAvailable_def)+

lemma client_run_total:
  "session_inv ainv self \<Longrightarrow> \<forall>op \<in> set ops. op_ok sendable op \<Longrightarrow>
    \<exists>self'. client_run A P S ops self = Some self' \<and> session_inv ainv self'"
proof (induction ops arbitrary: self)
  case (Cons op ops)
  from client_step_total [OF Cons.prems(1), of op P] Cons.prems(2) obtain self1 where
    "client_step A P S op self = Some self1" "session_inv ainv self1" by auto
  with Cons.IH Cons.prems(2) show ?case by auto
qed simp

end

end
