(* ===== verification/Bitstream.thy ===== *)
theory Bitstream
  imports GG_Prelude
begin

text \<open>
  The bit streams of \<^verbatim>\<open>xp/common/gg_bitstream.c\<close>: readers and writers of groups of 1 to 32 bits
  over a byte buffer, most significant bit first, with a 32-bit cache. The theorems relate the
  cached state to the plain sequence of bits; reading back what was written returns it.
\<close>

section \<open>Operations\<close>

definition GG_BITSTREAM_WORD_BITS :: nat where
  [simp]: "GG_BITSTREAM_WORD_BITS = 32"

definition GG_BITSTREAM_WORD_BYTES :: nat where
  [simp]: "GG_BITSTREAM_WORD_BYTES = 4"

definition GG_BITSTREAM_BIT_MASK :: "nat \<Rightarrow> u32" where
  "GG_BITSTREAM_BIT_MASK n = (if n \<noteq> 0 then drop_bit (GG_BITSTREAM_WORD_BITS - n) 0xFFFFFFFF else 0)"

record GG_BitInputStream =
  in_bytes :: bytes
  in_byte_position :: nat
  in_cache :: u32
  in_bits_cached :: nat

record GG_BitOutputStream =
  out_bytes :: bytes
  out_byte_size :: nat
  out_byte_position :: nat
  out_cache :: u32
  out_bits_cached :: nat

definition GG_BitInputStream_Init :: "bytes \<Rightarrow> GG_BitInputStream" where
  "GG_BitInputStream_Init data =
     \<lparr>in_bytes = data, in_byte_position = 0, in_cache = 0, in_bits_cached = 0\<rparr>"

definition GG_BitInputStream_Reset :: "GG_BitInputStream \<Rightarrow> GG_BitInputStream" where
  "GG_BitInputStream_Reset self = self\<lparr>in_byte_position := 0, in_cache := 0, in_bits_cached := 0\<rparr>"

definition GG_BitInputStream_GetPosition :: "GG_BitInputStream \<Rightarrow> nat" where
  "GG_BitInputStream_GetPosition self = 8 * in_byte_position self - in_bits_cached self"

text \<open>The loop shifts in four bytes, zeros past the end of the data.\<close>

fun read_cache_loop :: "bytes \<Rightarrow> nat \<Rightarrow> nat \<Rightarrow> u32 \<Rightarrow> u32 \<times> nat" where
  "read_cache_loop data 0 position result = (result, position)"
| "read_cache_loop data (Suc i) position result =
     (let value = (if position < length data then data ! position else 0)
      in read_cache_loop data i (position + 1) (push_bit 8 result OR ucast value))"

definition GG_BitInputStream_ReadCache :: "GG_BitInputStream \<Rightarrow> u32 \<times> nat" where
  "GG_BitInputStream_ReadCache self =
     read_cache_loop (in_bytes self) GG_BITSTREAM_WORD_BYTES (in_byte_position self) 0"

definition GG_BitInputStream_Read :: "GG_BitInputStream \<Rightarrow> nat \<Rightarrow> (u32 \<times> GG_BitInputStream) option" where
  "GG_BitInputStream_Read self bit_count =
     (if \<not> bit_count \<le> GG_BITSTREAM_WORD_BITS then None
      else if in_bits_cached self \<ge> bit_count then
        let self = self\<lparr>in_bits_cached := in_bits_cached self - bit_count\<rparr>
        in Some (drop_bit (in_bits_cached self) (in_cache self) AND GG_BITSTREAM_BIT_MASK bit_count, self)
      else
        let (word, position) = GG_BitInputStream_ReadCache self;
            cache = in_cache self AND GG_BITSTREAM_BIT_MASK (in_bits_cached self);
            bit_count = bit_count - in_bits_cached self;
            bits_cached = GG_BITSTREAM_WORD_BITS - bit_count;
            result = drop_bit bits_cached word OR
              (if bit_count = GG_BITSTREAM_WORD_BITS then 0 else push_bit bit_count cache)
        in Some (result, self\<lparr>in_byte_position := position, in_cache := word, in_bits_cached := bits_cached\<rparr>))"

definition GG_BitInputStream_Peek :: "GG_BitInputStream \<Rightarrow> nat \<Rightarrow> u32 option" where
  "GG_BitInputStream_Peek self bit_count =
     (if \<not> bit_count \<le> GG_BITSTREAM_WORD_BITS then None
      else if in_bits_cached self \<ge> bit_count then
        Some (drop_bit (in_bits_cached self - bit_count) (in_cache self) AND GG_BITSTREAM_BIT_MASK bit_count)
      else
        let word = fst (GG_BitInputStream_ReadCache self);
            cache = in_cache self AND GG_BITSTREAM_BIT_MASK (in_bits_cached self);
            bit_count = bit_count - in_bits_cached self
        in Some (drop_bit (GG_BITSTREAM_WORD_BITS - bit_count) word OR
             (if bit_count = GG_BITSTREAM_WORD_BITS then 0 else push_bit bit_count cache)))"

definition GG_BitInputStream_ByteAlign :: "GG_BitInputStream \<Rightarrow> GG_BitInputStream option" where
  "GG_BitInputStream_ByteAlign self =
     (let bits_to_flush = in_bits_cached self mod 8
      in if bits_to_flush \<noteq> 0 then map_option snd (GG_BitInputStream_Read self bits_to_flush) else Some self)"

definition GG_BitOutputStream_Init :: "bytes \<Rightarrow> GG_BitOutputStream" where
  "GG_BitOutputStream_Init buffer =
     \<lparr>out_bytes = buffer, out_byte_size = length buffer, out_byte_position = 0, out_cache = 0,
      out_bits_cached = 0\<rparr>"

definition GG_BitOutputStream_Reset :: "GG_BitOutputStream \<Rightarrow> GG_BitOutputStream" where
  "GG_BitOutputStream_Reset self = self\<lparr>out_byte_position := 0, out_cache := 0, out_bits_cached := 0\<rparr>"

text \<open>The loop writes the bytes of a word, most significant first, and drops those that do not fit.\<close>

fun write_word_loop :: "u32 \<Rightarrow> nat \<Rightarrow> nat \<Rightarrow> nat \<Rightarrow> bytes \<Rightarrow> bytes \<times> nat" where
  "write_word_loop word byte_size 0 position bytes = (bytes, position)"
| "write_word_loop word byte_size (Suc i) position bytes =
     write_word_loop word byte_size i (position + 1)
       (if position < byte_size then bytes[position := ucast (drop_bit (8 * i) word)] else bytes)"

definition GG_BitOutputStream_Write ::
  "GG_BitOutputStream \<Rightarrow> u32 \<Rightarrow> nat \<Rightarrow> GG_BitOutputStream option" where
  "GG_BitOutputStream_Write self bits bit_count =
     (if \<not> bit_count \<le> GG_BITSTREAM_WORD_BITS then None
      else
        let bits = bits AND GG_BITSTREAM_BIT_MASK bit_count
        in if out_bits_cached self + bit_count \<le> GG_BITSTREAM_WORD_BITS then
             Some (self\<lparr>out_cache :=
                     (if bit_count = GG_BITSTREAM_WORD_BITS then 0
                      else push_bit bit_count (out_cache self)) OR bits,
                   out_bits_cached := out_bits_cached self + bit_count\<rparr>)
           else
             let partial_bit_count = GG_BITSTREAM_WORD_BITS - out_bits_cached self;
                 word = (if partial_bit_count \<noteq> 0
                         then push_bit partial_bit_count (out_cache self) OR
                              drop_bit (bit_count - partial_bit_count) bits
                         else out_cache self);
                 (bytes, position) = write_word_loop word (out_byte_size self) GG_BITSTREAM_WORD_BYTES
                   (out_byte_position self) (out_bytes self)
             in Some (self\<lparr>out_bytes := bytes, out_byte_position := position,
                  out_cache := bits AND GG_BITSTREAM_BIT_MASK (bit_count - partial_bit_count),
                  out_bits_cached := bit_count - partial_bit_count\<rparr>))"

definition GG_BitOutputStream_GetPosition :: "GG_BitOutputStream \<Rightarrow> nat" where
  "GG_BitOutputStream_GetPosition self = 8 * out_byte_position self + out_bits_cached self"

definition GG_BitOutputStream_Flush :: "GG_BitOutputStream \<Rightarrow> GG_BitOutputStream option" where
  "GG_BitOutputStream_Flush self =
     (if out_bits_cached self \<noteq> 0 then
        let position = out_byte_position self
        in map_option (\<lambda>self. self\<lparr>
               out_byte_position := min (out_byte_size self) (position + (out_bits_cached self + 7) div 8),
               out_bits_cached := 0\<rparr>)
             (GG_BitOutputStream_Write self 0 (1 + GG_BITSTREAM_WORD_BITS - out_bits_cached self))
      else Some self)"

section \<open>Bits of a byte sequence\<close>

text \<open>Bit \<open>k\<close> of a byte sequence, the most significant bit of the first byte first; zeros follow.\<close>

definition data_bit :: "bytes \<Rightarrow> nat \<Rightarrow> bool" where
  "data_bit d k \<longleftrightarrow> k div 8 < length d \<and> bit (d ! (k div 8)) (7 - k mod 8)"

text \<open>The \<open>n\<close> low bits of a word, most significant first.\<close>

definition wbits :: "nat \<Rightarrow> u32 \<Rightarrow> bool list" where
  "wbits n w = map (\<lambda>i. bit w (n - 1 - i)) [0..<n]"

lemma length_wbits [simp]: "length (wbits n w) = n"
  by (simp add: wbits_def)

lemma nth_wbits: "i < n \<Longrightarrow> wbits n w ! i = bit w (n - 1 - i)"
  by (simp add: wbits_def)

lemma wbits_0 [simp]: "wbits 0 w = []"
  by (simp add: wbits_def)

lemma BIT_MASK_eq: "n \<le> 32 \<Longrightarrow> GG_BITSTREAM_BIT_MASK n = mask n"
proof -
  assume n: "n \<le> 32"
  have "(0xFFFFFFFF :: u32) = - 1" by simp
  then have "GG_BITSTREAM_BIT_MASK n = (if n = 0 then 0 else drop_bit (32 - n) (- 1))"
    by (simp only: GG_BITSTREAM_BIT_MASK_def GG_BITSTREAM_WORD_BITS_def if_not_P cong: if_cong) simp
  with n show ?thesis by simp
qed

lemma bit_mask_iff': "n \<le> 32 \<Longrightarrow> bit (GG_BITSTREAM_BIT_MASK n) i \<longleftrightarrow> i < n"
  by (auto simp: BIT_MASK_eq bit_mask_iff)

lemma bit_read_cache_loop:
  "bit (fst (read_cache_loop d n p r)) i \<longleftrightarrow>
    i < 32 \<and> (if i < 8 * n then data_bit d (8 * p + (8 * n - 1 - i)) else bit r (i - 8 * n))"
proof (induction n arbitrary: p r)
  case 0
  then show ?case using bit_imp_le_length [of r i] by auto
next
  case (Suc n)
  let ?v = "if p < length d then d ! p else 0"
  have v: "i < 32 \<and> bit (push_bit 8 r OR ucast ?v) (i - 8 * n) \<longleftrightarrow>
      i < 32 \<and> (if i < 8 * Suc n then data_bit d (8 * p + (8 * Suc n - 1 - i)) else bit r (i - 8 * Suc n))"
    if "\<not> i < 8 * n"
  proof (cases "i < 8 * Suc n")
    case True
    let ?j = "i - 8 * n"
    have j: "?j < 8" "8 * Suc n - 1 - i = 7 - ?j" using True that by auto
    define x where "x = 7 - ?j"
    have "x < 8" "7 - x = ?j" using j(1) by (auto simp: x_def)
    then have "(8 * p + x) div 8 = p" "7 - (8 * p + x) mod 8 = ?j" by simp_all
    then have "data_bit d (8 * p + (8 * Suc n - 1 - i)) \<longleftrightarrow> p < length d \<and> bit (d ! p) ?j"
      unfolding j x_def by (simp only: data_bit_def)
    moreover have "bit (push_bit 8 r OR ucast ?v) ?j \<longleftrightarrow> bit ?v ?j"
      using j(1) by (simp add: bit_or_iff bit_push_bit_iff bit_ucast_iff)
    ultimately show ?thesis using True by simp
  next
    case False
    then have e: "i - 8 * n - 8 = i - 8 * Suc n" "8 \<le> i - 8 * n" by auto
    have "\<not> bit ?v (i - 8 * n)" using e(2) bit_imp_le_length [of ?v "i - 8 * n"] by auto
    then have "bit (push_bit 8 r OR ucast ?v) (i - 8 * n) \<longleftrightarrow> i - 8 * n < 32 \<and> bit r (i - 8 * Suc n)"
      using e by (simp add: bit_or_iff bit_push_bit_iff bit_ucast_iff)
    with False show ?thesis by auto
  qed
  show ?case
    using v by (auto simp: Let_def Suc.IH algebra_simps)
qed

lemma snd_read_cache_loop [simp]: "snd (read_cache_loop d n p r) = p + n"
  by (induction n arbitrary: p r) (simp_all add: Let_def)

section \<open>Reading\<close>

text \<open>The cache holds the bits before the byte position.\<close>

definition in_inv :: "GG_BitInputStream \<Rightarrow> bool" where
  "in_inv s \<longleftrightarrow> in_bits_cached s \<le> 32 \<and> in_bits_cached s \<le> 8 * in_byte_position s \<and>
     (\<forall>i < in_bits_cached s. bit (in_cache s) i = data_bit (in_bytes s) (8 * in_byte_position s - 1 - i))"

lemma Init_in_inv: "in_inv (GG_BitInputStream_Init d)"
  by (simp add: in_inv_def GG_BitInputStream_Init_def)

lemma bit_Read_spec:
  assumes inv: "in_inv s" and n: "n \<le> 32"
  shows "\<exists>w s'. GG_BitInputStream_Read s n = Some (w, s') \<and> in_inv s' \<and> in_bytes s' = in_bytes s \<and>
    GG_BitInputStream_GetPosition s' = GG_BitInputStream_GetPosition s + n \<and>
    (\<forall>i. bit w i \<longleftrightarrow> i < n \<and> data_bit (in_bytes s) (GG_BitInputStream_GetPosition s + (n - 1 - i)))"
proof (cases "n \<le> in_bits_cached s")
  case True
  let ?c = "in_bits_cached s - n"
  have "bit (drop_bit ?c (in_cache s) AND GG_BITSTREAM_BIT_MASK n) i \<longleftrightarrow>
      i < n \<and> data_bit (in_bytes s) (GG_BitInputStream_GetPosition s + (n - 1 - i))" for i
  proof (cases "i < n")
    case i: True
    then have "8 * in_byte_position s - 1 - (?c + i) = GG_BitInputStream_GetPosition s + (n - 1 - i)"
      using True inv by (auto simp: in_inv_def GG_BitInputStream_GetPosition_def)
    with i True inv n show ?thesis
      by (auto simp: in_inv_def bit_and_iff bit_drop_bit_eq bit_mask_iff')
  qed (simp add: bit_and_iff bit_mask_iff' n)
  with True inv n show ?thesis
    by (auto simp: GG_BitInputStream_Read_def in_inv_def GG_BitInputStream_GetPosition_def)
next
  case False
  define m where "m = n - in_bits_cached s"
  have m: "0 < m" "m \<le> 32" "m + in_bits_cached s = n" "in_bits_cached s \<le> 8 * in_byte_position s"
    using False n inv by (auto simp: m_def in_inv_def)
  obtain word where w: "GG_BitInputStream_ReadCache s = (word, in_byte_position s + 4)"
    by (cases "GG_BitInputStream_ReadCache s")
      (metis GG_BITSTREAM_WORD_BYTES_def GG_BitInputStream_ReadCache_def snd_conv snd_read_cache_loop)
  have word: "bit word i \<longleftrightarrow> i < 32 \<and> data_bit (in_bytes s) (8 * in_byte_position s + (31 - i))" for i
    using w bit_read_cache_loop [of "in_bytes s" 4 "in_byte_position s" 0 i]
    by (auto simp: GG_BitInputStream_ReadCache_def)
  let ?cache = "in_cache s AND GG_BITSTREAM_BIT_MASK (in_bits_cached s)"
  let ?r = "drop_bit (32 - m) word OR (if m = 32 then 0 else push_bit m ?cache)"
  let ?s = "s\<lparr>in_byte_position := in_byte_position s + 4, in_cache := word, in_bits_cached := 32 - m\<rparr>"
  have eq: "GG_BitInputStream_Read s n = Some (?r, ?s)"
    using False n w m_def by (simp add: GG_BitInputStream_Read_def Let_def)
  have "in_inv ?s" unfolding in_inv_def using m(1,2) by (auto simp: word add.commute)
  moreover have "GG_BitInputStream_GetPosition ?s = GG_BitInputStream_GetPosition s + n"
    using m by (auto simp: GG_BitInputStream_GetPosition_def)
  moreover have "bit ?r i \<longleftrightarrow> i < n \<and> data_bit (in_bytes s) (GG_BitInputStream_GetPosition s + (n - 1 - i))" for i
  proof (cases "i < m")
    case True
    have "8 * in_byte_position s + (31 - (32 - m + i)) = GG_BitInputStream_GetPosition s + (n - 1 - i)"
      using m True by (auto simp: GG_BitInputStream_GetPosition_def)
    moreover have "\<not> bit (if m = 32 then 0 else push_bit m ?cache) i"
      using True by (simp add: bit_push_bit_iff del: push_bit_and)
    ultimately show ?thesis
      using True m by (auto simp: bit_or_iff bit_drop_bit_eq word)
  next
    case ge: False
    have nw: "\<not> bit (drop_bit (32 - m) word) i" using ge m by (auto simp: bit_drop_bit_eq word)
    show ?thesis
    proof (cases "i < n")
      case True
      have "8 * in_byte_position s - 1 - (i - m) = GG_BitInputStream_GetPosition s + (n - 1 - i)"
        using m True ge by (auto simp: GG_BitInputStream_GetPosition_def)
      with True ge nw inv m n show ?thesis
        by (auto simp: in_inv_def bit_or_iff bit_push_bit_iff bit_and_iff bit_mask_iff')
    next
      case False
      with nw m ge inv show ?thesis
        by (auto simp: in_inv_def bit_or_iff bit_push_bit_iff bit_and_iff bit_mask_iff')
    qed
  qed
  ultimately show ?thesis using eq by auto
qed

text \<open>
  \<open>reads s bs\<close>: the stream \<open>s\<close> is about to read the bits \<open>bs\<close>. Reading a group that starts with the
  bits of a word returns that word.
\<close>

definition reads :: "GG_BitInputStream \<Rightarrow> bool list \<Rightarrow> bool" where
  "reads s bs \<longleftrightarrow> in_inv s \<and>
     (\<forall>k < length bs. data_bit (in_bytes s) (GG_BitInputStream_GetPosition s + k) = bs ! k)"

lemma Read_wbits:
  assumes r: "reads s (wbits n v @ bs)" and n: "n \<le> 32"
  shows "\<exists>s'. GG_BitInputStream_Read s n = Some (take_bit n v, s') \<and> reads s' bs \<and>
    in_bytes s' = in_bytes s \<and>
    GG_BitInputStream_GetPosition s' = GG_BitInputStream_GetPosition s + n"
proof -
  have inv: "in_inv s" using r by (simp add: reads_def)
  from bit_Read_spec [OF inv n] obtain w s' where s': "GG_BitInputStream_Read s n = Some (w, s')" "in_inv s'"
    "in_bytes s' = in_bytes s" "GG_BitInputStream_GetPosition s' = GG_BitInputStream_GetPosition s + n"
    "\<And>i. bit w i \<longleftrightarrow> i < n \<and> data_bit (in_bytes s) (GG_BitInputStream_GetPosition s + (n - 1 - i))"
    by blast
  have bits: "data_bit (in_bytes s) (GG_BitInputStream_GetPosition s + k) = (wbits n v @ bs) ! k"
    if "k < n + length bs" for k using r that by (simp add: reads_def)
  have "w = take_bit n v"
  proof (rule bit_word_eqI)
    fix i
    show "bit w i = bit (take_bit n v) i"
      using bits [of "n - 1 - i"] by (auto simp: s'(5) bit_take_bit_iff nth_append nth_wbits)
  qed
  moreover have "reads s' bs"
    using bits [of "n + k" for k] s' by (auto simp: reads_def nth_append add.assoc)
  ultimately show ?thesis using s' by auto
qed

section \<open>Writing\<close>

lemma nth_write_word_loop:
  assumes "length bs = sz" and "q < sz"
  shows "fst (write_word_loop w sz n p bs) ! q =
    (if p \<le> q \<and> q < p + n then ucast (drop_bit (8 * (p + n - 1 - q)) w) else bs ! q)"
  using assms
proof (induction n arbitrary: p bs)
  case (Suc n)
  show ?case
  proof (cases "p = q")
    case True
    with Suc show ?thesis by simp
  next
    case False
    with Suc show ?thesis by (auto simp: Suc_le_eq le_less)
  qed
qed auto

lemma write_word_loop_simps [simp]:
  "snd (write_word_loop w sz n p bs) = p + n"
  "length (fst (write_word_loop w sz n p bs)) = length bs"
  by (induction n arbitrary: p bs) simp_all

text \<open>
  \<open>wrote s bs\<close>: the bits \<open>bs\<close> have been written to the stream \<open>s\<close>; those before the byte position are
  in the buffer, as far as it reaches, the others in the cache.
\<close>

definition wrote :: "GG_BitOutputStream \<Rightarrow> bool list \<Rightarrow> bool" where
  "wrote s bs \<longleftrightarrow>
     length (out_bytes s) = out_byte_size s \<and> out_bits_cached s \<le> 32 \<and>
     length bs = 8 * out_byte_position s + out_bits_cached s \<and>
     (\<forall>k < 8 * out_byte_position s. k < 8 * out_byte_size s \<longrightarrow> data_bit (out_bytes s) k = bs ! k) \<and>
     (\<forall>i < out_bits_cached s. bit (out_cache s) i = bs ! (length bs - 1 - i))"

lemma wrote_Init: "wrote (GG_BitOutputStream_Init buffer) []"
  by (simp add: wrote_def GG_BitOutputStream_Init_def)

lemma wrote_position: "wrote s bs \<Longrightarrow> GG_BitOutputStream_GetPosition s = length bs"
  by (simp add: wrote_def GG_BitOutputStream_GetPosition_def)

lemma data_bit_write_word:
  assumes len: "length bs = sz" and k: "k < 8 * sz"
  shows "data_bit (fst (write_word_loop w sz 4 p bs)) k =
    (if 8 * p \<le> k \<and> k < 8 * p + 32 then bit w (8 * p + 31 - k) else data_bit bs k)"
proof -
  have q: "k div 8 < sz" using k by auto
  have d: "data_bit (fst (write_word_loop w sz 4 p bs)) k \<longleftrightarrow>
      bit (if p \<le> k div 8 \<and> k div 8 < p + 4 then ucast (drop_bit (8 * (p + 3 - k div 8)) w) else bs ! (k div 8))
        (7 - k mod 8)"
    unfolding data_bit_def using nth_write_word_loop [OF len q, of w 4 p] len q by (simp add: add.commute)
  show ?thesis
  proof (cases "8 * p \<le> k \<and> k < 8 * p + 32")
    case True
    then have r: "p \<le> k div 8" "k div 8 < p + 4" by auto
    have "8 * (k div 8) + k mod 8 = k" "k mod 8 < 8" by simp_all
    with r have "8 * (p + 3 - k div 8) + (7 - k mod 8) = 8 * p + 31 - k" by arith
    with True r d show ?thesis by (auto simp: bit_ucast_iff bit_drop_bit_eq)
  next
    case False
    then have "\<not> (p \<le> k div 8 \<and> k div 8 < p + 4)" by auto
    with False d len q show ?thesis by (auto simp: data_bit_def)
  qed
qed

lemma Write_cached:
  assumes w: "wrote s bs" and n: "n \<le> 32" and fit: "out_bits_cached s + n \<le> 32"
  shows "\<exists>s'. GG_BitOutputStream_Write s b n = Some s' \<and> wrote s' (bs @ wbits n b) \<and>
    out_byte_size s' = out_byte_size s"
proof -
  let ?b = "b AND GG_BITSTREAM_BIT_MASK n"
  let ?c = "(if n = 32 then 0 else push_bit n (out_cache s)) OR ?b"
  let ?s = "s\<lparr>out_cache := ?c, out_bits_cached := out_bits_cached s + n\<rparr>"
  have len: "length bs = 8 * out_byte_position s + out_bits_cached s" using w by (simp add: wrote_def)
  have "bit ?c i = (bs @ wbits n b) ! (length bs + n - 1 - i)" if i: "i < out_bits_cached s + n" for i
  proof (cases "i < n")
    case True
    then have "length bs + n - 1 - i = length bs + (n - 1 - i)" by simp
    with True n show ?thesis
      by (auto simp: bit_or_iff bit_and_iff bit_mask_iff' bit_push_bit_iff nth_append nth_wbits)
  next
    case False
    then have e: "length bs + n - 1 - i = length bs - 1 - (i - n)" "length bs - 1 - (i - n) < length bs"
      using i len by auto
    have "bit (out_cache s) (i - n) = bs ! (length bs - 1 - (i - n))"
      using w False i by (simp add: wrote_def)
    with False e i fit n show ?thesis
      by (auto simp: bit_or_iff bit_and_iff bit_mask_iff' bit_push_bit_iff nth_append simp del: push_bit_and)
  qed
  then have "wrote ?s (bs @ wbits n b)"
    using w fit by (auto simp: wrote_def nth_append)
  with n fit show ?thesis by (simp add: GG_BitOutputStream_Write_def)
qed

lemma Write_spill:
  assumes w: "wrote s bs" and n: "n \<le> 32" and full: "\<not> out_bits_cached s + n \<le> 32"
  shows "\<exists>s'. GG_BitOutputStream_Write s b n = Some s' \<and> wrote s' (bs @ wbits n b) \<and>
    out_byte_size s' = out_byte_size s \<and> out_byte_position s' = out_byte_position s + 4 \<and>
    out_bits_cached s' = out_bits_cached s + n - 32"
proof -
  define m where "m = 32 - out_bits_cached s"
  let ?b = "b AND GG_BITSTREAM_BIT_MASK n"
  have c: "out_bits_cached s \<le> 32" "length bs = 8 * out_byte_position s + out_bits_cached s"
    "length (out_bytes s) = out_byte_size s"
    "\<And>i. i < out_bits_cached s \<Longrightarrow> bit (out_cache s) i = bs ! (length bs - 1 - i)"
    "\<And>k. k < 8 * out_byte_position s \<Longrightarrow> k < 8 * out_byte_size s \<Longrightarrow> data_bit (out_bytes s) k = bs ! k"
    using w by (auto simp: wrote_def)
  have m: "m < n" "m < 32" "out_bits_cached s = 32 - m" using c(1) n full by (auto simp: m_def)
  let ?w = "if m \<noteq> 0 then push_bit m (out_cache s) OR drop_bit (n - m) ?b else out_cache s"
  let ?bytes = "fst (write_word_loop ?w (out_byte_size s) 4 (out_byte_position s) (out_bytes s))"
  let ?s = "s\<lparr>out_bytes := ?bytes, out_byte_position := out_byte_position s + 4,
    out_cache := ?b AND GG_BITSTREAM_BIT_MASK (n - m), out_bits_cached := n - m\<rparr>"
  have word: "bit ?w i = (bs @ wbits n b) ! (length bs + m - 1 - i)" if i: "i < 32" for i
  proof (cases "i < m")
    case True
    then have "length bs + m - 1 - i = length bs + (m - 1 - i)" "n - 1 - (m - 1 - i) = n - m + i"
      using m by auto
    with True m n show ?thesis
      by (auto simp: bit_or_iff bit_and_iff bit_mask_iff' bit_push_bit_iff bit_drop_bit_eq nth_append nth_wbits)
  next
    case False
    then have e: "length bs + m - 1 - i = length bs - 1 - (i - m)" "length bs - 1 - (i - m) < length bs"
      "i - m < out_bits_cached s" using i c(2) m by auto
    moreover have "\<not> bit (drop_bit (n - m) ?b) i"
      using False n m by (auto simp: bit_drop_bit_eq bit_and_iff bit_mask_iff')
    ultimately show ?thesis using c(4) [OF e(3)] False i
      by (auto simp: bit_or_iff bit_push_bit_iff nth_append)
  qed
  have "data_bit ?bytes k = (bs @ wbits n b) ! k"
    if k: "k < 8 * (out_byte_position s + 4)" "k < 8 * out_byte_size s" for k
  proof (cases "8 * out_byte_position s \<le> k")
    case True
    have "length bs + m - 1 - (8 * out_byte_position s + 31 - k) = k" using c(2) m True k by simp
    with True k word [of "8 * out_byte_position s + 31 - k"] show ?thesis
      by (simp add: data_bit_write_word [OF c(3)])
  next
    case False
    with c(2) c(5) [of k] k show ?thesis by (simp add: data_bit_write_word [OF c(3)] nth_append)
  qed
  moreover have "bit (?b AND GG_BITSTREAM_BIT_MASK (n - m)) i = (bs @ wbits n b) ! (length bs + n - 1 - i)"
    if "i < n - m" for i
  proof -
    have "length bs + n - 1 - i = length bs + (n - 1 - i)" using that by simp
    with that n show ?thesis by (auto simp: bit_and_iff bit_mask_iff' nth_append nth_wbits)
  qed
  ultimately have "wrote ?s (bs @ wbits n b)"
    using c(2,3) m n unfolding wrote_def by simp
  moreover have "GG_BitOutputStream_Write s b n = Some ?s"
    using n full by (simp add: GG_BitOutputStream_Write_def m_def Let_def split_beta)
  ultimately show ?thesis using m n by simp
qed

lemma Write_wrote:
  assumes "wrote s bs" and "n \<le> 32"
  shows "\<exists>s'. GG_BitOutputStream_Write s b n = Some s' \<and> wrote s' (bs @ wbits n b) \<and>
    out_byte_size s' = out_byte_size s"
  using Write_cached [OF assms] Write_spill [OF assms] by blast

text \<open>After a flush the buffer holds all the bits written, up to its size.\<close>

lemma Flush_wrote:
  assumes w: "wrote s bs"
  shows "\<exists>s'. GG_BitOutputStream_Flush s = Some s' \<and> length (out_bytes s') = out_byte_size s \<and>
    (\<forall>k < length bs. k < 8 * out_byte_size s \<longrightarrow> data_bit (out_bytes s') k = bs ! k) \<and>
    out_byte_position s' = (if out_bits_cached s = 0 then out_byte_position s
      else min (out_byte_size s) (out_byte_position s + 1))"
proof (cases "out_bits_cached s = 0")
  case True
  with w show ?thesis by (auto simp: GG_BitOutputStream_Flush_def wrote_def)
next
  case False
  have c: "out_bits_cached s \<le> 32" "length bs = 8 * out_byte_position s + out_bits_cached s"
    using w by (auto simp: wrote_def)
  have n: "33 - out_bits_cached s \<le> 32" "\<not> out_bits_cached s + (33 - out_bits_cached s) \<le> 32"
    using False c by auto
  from Write_spill [OF w n, of 0] obtain s' where s':
    "GG_BitOutputStream_Write s 0 (33 - out_bits_cached s) = Some s'"
    "wrote s' (bs @ wbits (33 - out_bits_cached s) 0)" "out_byte_size s' = out_byte_size s"
    "out_byte_position s' = out_byte_position s + 4" "out_bits_cached s' = 1" using c by auto
  then have "data_bit (out_bytes s') k = bs ! k" if "k < length bs" "k < 8 * out_byte_size s" for k
    using that c unfolding wrote_def by (fastforce simp: nth_append)
  moreover have "length (out_bytes s') = out_byte_size s" using s' by (simp add: wrote_def)
  ultimately show ?thesis using False s' by (auto simp: GG_BitOutputStream_Flush_def Let_def)
qed

section \<open>Round trip\<close>

fun write_fields :: "(u32 \<times> nat) list \<Rightarrow> GG_BitOutputStream \<Rightarrow> GG_BitOutputStream option" where
  "write_fields [] s = Some s"
| "write_fields ((b, n) # fs) s = Option.bind (GG_BitOutputStream_Write s b n) (write_fields fs)"

fun read_fields :: "nat list \<Rightarrow> GG_BitInputStream \<Rightarrow> u32 list option" where
  "read_fields [] s = Some []"
| "read_fields (n # ns) s =
     Option.bind (GG_BitInputStream_Read s n) (\<lambda>(b, s). map_option (Cons b) (read_fields ns s))"

definition field_bits :: "(u32 \<times> nat) list \<Rightarrow> bool list" where
  "field_bits fs = concat (map (\<lambda>(b, n). wbits n b) fs)"

lemma field_bits_simps [simp]:
  "field_bits [] = []" "field_bits ((b, n) # fs) = wbits n b @ field_bits fs"
  by (simp_all add: field_bits_def)

lemma length_field_bits: "length (field_bits fs) = sum_list (map snd fs)"
  by (induction fs) auto

lemma write_fields_wrote:
  "wrote s bs \<Longrightarrow> \<forall>f \<in> set fs. snd f \<le> 32 \<Longrightarrow>
    \<exists>s'. write_fields fs s = Some s' \<and> wrote s' (bs @ field_bits fs) \<and> out_byte_size s' = out_byte_size s"
proof (induction fs arbitrary: s bs)
  case (Cons f fs)
  obtain b n where f: "f = (b, n)" by fastforce
  from Write_wrote [OF Cons.prems(1), of n b] Cons.prems(2) f obtain s1 where
    "GG_BitOutputStream_Write s b n = Some s1" "wrote s1 (bs @ wbits n b)" "out_byte_size s1 = out_byte_size s"
    by auto
  with Cons.IH [of s1 "bs @ wbits n b"] Cons.prems(2) f show ?case by auto
qed simp

lemma read_fields_reads:
  "reads s (field_bits fs @ bs) \<Longrightarrow> \<forall>f \<in> set fs. snd f \<le> 32 \<Longrightarrow>
    read_fields (map snd fs) s = Some (map (\<lambda>(b, n). take_bit n b) fs)"
proof (induction fs arbitrary: s)
  case (Cons f fs)
  obtain b n where f: "f = (b, n)" by fastforce
  from Read_wbits [of s n b "field_bits fs @ bs"] Cons.prems f obtain s1 where
    "GG_BitInputStream_Read s n = Some (take_bit n b, s1)" "reads s1 (field_bits fs @ bs)" by auto
  with Cons.IH [of s1] Cons.prems(2) f show ?case by simp
qed simp

lemma flushed_reads:
  assumes w: "wrote s bs" and "length bs \<le> 8 * out_byte_size s" and f: "GG_BitOutputStream_Flush s = Some s'"
  shows "reads (GG_BitInputStream_Init (out_bytes s')) bs"
  using Flush_wrote [OF w] assms(2) f Init_in_inv [of "out_bytes s'"]
  by (auto simp: reads_def GG_BitInputStream_Init_def GG_BitInputStream_GetPosition_def)

text \<open>
  C12: The bit streams are a lossless channel. Whatever groups of at most 32 bits are written to
  a buffer that can hold them all, after a flush a reader of the buffer that asks for groups of
  the same sizes gets back the low bits of every value written, in order.
\<close>

theorem bitstream_round_trip:
  assumes "\<forall>f \<in> set fs. snd f \<le> 32" and "sum_list (map snd fs) \<le> 8 * length buffer"
  shows "\<exists>s s'. write_fields fs (GG_BitOutputStream_Init buffer) = Some s \<and>
    GG_BitOutputStream_Flush s = Some s' \<and>
    read_fields (map snd fs) (GG_BitInputStream_Init (out_bytes s')) =
      Some (map (\<lambda>(b, n). take_bit n b) fs)"
proof -
  from write_fields_wrote [OF wrote_Init assms(1)] obtain s where s:
    "write_fields fs (GG_BitOutputStream_Init buffer) = Some s" "wrote s (field_bits fs)"
    "out_byte_size s = length buffer" by (auto simp: GG_BitOutputStream_Init_def)
  from Flush_wrote [OF s(2)] obtain s' where s': "GG_BitOutputStream_Flush s = Some s'" by blast
  have "reads (GG_BitInputStream_Init (out_bytes s')) (field_bits fs @ [])"
    using flushed_reads [OF s(2) _ s'] s(3) assms(2) by (simp add: length_field_bits)
  with read_fields_reads [OF this assms(1)] s s' show ?thesis by blast
qed

theorem bitstream_round_trip_witness:
  "\<exists>s s'. write_fields [(5, 4), (0xFFFFFFFF, 32), (1, 13)] (GG_BitOutputStream_Init (replicate 8 0)) = Some s \<and>
    GG_BitOutputStream_Flush s = Some s' \<and>
    read_fields [4, 32, 13] (GG_BitInputStream_Init (out_bytes s')) = Some [5, 0xFFFFFFFF, 1]"
  using bitstream_round_trip [of "[(5, 4), (0xFFFFFFFF, 32), (1, 13)]" "replicate 8 0"]
  by (simp add: take_bit_eq_mod)

end
