(* ===== verification/Ipv4.thy ===== *)
theory Ipv4
  imports Byte_Order Bitstream Ring_Buffer "HOL-Library.Monad_Syntax"
begin

text \<open>
  IPv4 framing, \<^verbatim>\<open>xp/protocols/gg_ipv4_protocol.c\<close>: header parsing and serialization, checksum,
  header compression, and the frame assembler and serializer that carry IP packets over a byte
  stream. This theory holds the operations; \<^verbatim>\<open>Ipv4_Headers\<close> and \<^verbatim>\<open>Ipv4_Framing\<close> hold the proofs.

  The C header structs are records; the \<^verbatim>\<open>options\<close> array is the list of the \<open>4 * (ihl - 5)\<close> bytes
  of it that are meaningful. \<open>None\<close> is a failed assertion or an access outside a buffer.
\<close>

section \<open>Constants and types\<close>

definition GG_UDP_HEADER_SIZE :: nat where [simp]: "GG_UDP_HEADER_SIZE = 8"
definition GG_IPV4_MIN_IP_HEADER_SIZE :: nat where [simp]: "GG_IPV4_MIN_IP_HEADER_SIZE = 20"
definition GG_IPV4_MIN_PARTIAL_HEADER_SIZE :: nat where [simp]: "GG_IPV4_MIN_PARTIAL_HEADER_SIZE = 4"
definition GG_IPV4_BASE_HEADER_SIZE :: nat where [simp]: "GG_IPV4_BASE_HEADER_SIZE = 20"
definition GG_IPV4_HEADER_COMPRESSION_FIXED_SIZE :: nat where
  [simp]: "GG_IPV4_HEADER_COMPRESSION_FIXED_SIZE = 6"
definition GG_IPV4_PROTOCOL_ICMP :: u8 where [simp]: "GG_IPV4_PROTOCOL_ICMP = 1"
definition GG_IPV4_PROTOCOL_TCP :: u8 where [simp]: "GG_IPV4_PROTOCOL_TCP = 6"
definition GG_IPV4_PROTOCOL_UDP :: u8 where [simp]: "GG_IPV4_PROTOCOL_UDP = 17"

record GG_Ipv4PacketHeader =
  ip_version :: u8
  ip_ihl :: u8
  ip_dscp :: u8
  ip_ecn :: u8
  ip_total_length :: u16
  ip_identification :: u16
  ip_flags :: u8
  ip_fragment_offset :: u16
  ip_ttl :: u8
  ip_protocol :: u8
  ip_checksum :: u16
  ip_src_address :: u32
  ip_dst_address :: u32
  ip_options :: bytes

record GG_UdpPacketHeader =
  udp_src_port :: u16
  udp_dst_port :: u16
  udp_length :: u16
  udp_checksum :: u16

record GG_Ipv4FrameSerializationIpConfig =
  default_src_address :: u32
  default_dst_address :: u32
  udp_src_ports :: "u16 \<times> u16 \<times> u16"
  udp_dst_ports :: "u16 \<times> u16 \<times> u16"

record GG_Ipv4FrameAssemblerIpMap =
  map_src_address :: u32
  remapped_src_address :: u32
  map_dst_address :: u32
  remapped_dst_address :: u32

record GG_Ipv4FrameAssembler =
  asm_ip_config :: "GG_Ipv4FrameSerializationIpConfig option"
  asm_ip_map :: "GG_Ipv4FrameAssemblerIpMap option"
  asm_skip :: nat
  asm_payload_size :: nat
  asm_packet_size :: nat
  asm_buffer_size :: nat
  asm_buffer :: bytes

record GG_Ipv4FrameSerializer =
  ser_ip_config :: "GG_Ipv4FrameSerializationIpConfig option"
  ser_workspace :: bytes

section \<open>Checksum\<close>

fun checksum_loop :: "bytes \<Rightarrow> u32 \<Rightarrow> u32" where
  "checksum_loop [] checksum = checksum"
| "checksum_loop [b] checksum = checksum + push_bit 8 (ucast b)"
| "checksum_loop (a # b # data) checksum =
     checksum_loop data (checksum + ucast (push_bit 8 (ucast a) OR ucast b :: u16))"

definition GG_Ipv4Checksum :: "bytes \<Rightarrow> u16" where
  "GG_Ipv4Checksum data =
     (let checksum = checksum_loop data 0;
          checksum = drop_bit 16 checksum + (checksum AND 0x0000FFFF);
          checksum = (if checksum AND 0xFFFF0000 \<noteq> 0
                      then drop_bit 16 checksum + (checksum AND 0x0000FFFF) else checksum)
      in ucast checksum)"

section \<open>Headers\<close>

definition GG_Ipv4PacketHeader_Parse :: "bytes \<Rightarrow> GG_Result + GG_Ipv4PacketHeader" where
  "GG_Ipv4PacketHeader_Parse packet =
     (if length packet < GG_IPV4_BASE_HEADER_SIZE then Inl GG_ERROR_INVALID_PARAMETERS
      else if drop_bit 4 (packet ! 0) \<noteq> 4 then Inl GG_ERROR_INVALID_FORMAT
      else
        let ihl = packet ! 0 AND 0x0F
        in if ihl < 5 \<or> unat ihl * 4 > length packet then Inl GG_ERROR_INVALID_FORMAT
           else Inr
             \<lparr>ip_version = drop_bit 4 (packet ! 0),
              ip_ihl = ihl,
              ip_dscp = drop_bit 2 (packet ! 1),
              ip_ecn = packet ! 1 AND 0x03,
              ip_total_length = GG_BytesToInt16Be packet 2,
              ip_identification = GG_BytesToInt16Be packet 4,
              ip_flags = drop_bit 5 (packet ! 6),
              ip_fragment_offset = push_bit 8 (ucast (packet ! 6 AND 0x1F)) OR ucast (packet ! 7),
              ip_ttl = packet ! 8,
              ip_protocol = packet ! 9,
              ip_checksum = GG_BytesToInt16Be packet 10,
              ip_src_address = GG_BytesToInt32Be packet 12,
              ip_dst_address = GG_BytesToInt32Be packet 16,
              ip_options = subarray packet 20 ((unat ihl - 5) * 4)\<rparr>)"

text \<open>
  The serialized header, for a buffer of \<open>buffer_size\<close> bytes; the C function also fills in the
  required size, \<open>4 * ihl\<close>.
\<close>

definition header_bytes :: "GG_Ipv4PacketHeader \<Rightarrow> u16 \<Rightarrow> bytes" where
  "header_bytes self checksum =
     [push_bit 4 (ip_version self) OR ip_ihl self,
      push_bit 2 (ip_dscp self) OR (ip_ecn self AND 0x03),
      ucast (drop_bit 8 (ip_total_length self)), ucast (ip_total_length self),
      ucast (drop_bit 8 (ip_identification self)), ucast (ip_identification self),
      push_bit 5 (ip_flags self) OR (ucast (drop_bit 8 (ip_fragment_offset self)) AND 0x1F),
      ucast (ip_fragment_offset self),
      ip_ttl self, ip_protocol self,
      ucast (drop_bit 8 checksum), ucast checksum] @
     GG_BytesFromInt32Be (ip_src_address self) @ GG_BytesFromInt32Be (ip_dst_address self) @
     take (4 * (unat (ip_ihl self) - 5)) (ip_options self)"

definition GG_Ipv4PacketHeader_Serialize ::
  "GG_Ipv4PacketHeader \<Rightarrow> nat \<Rightarrow> bool \<Rightarrow> GG_Result + bytes" where
  "GG_Ipv4PacketHeader_Serialize self buffer_size compute_checksum =
     (if ip_ihl self < 5 \<or> ip_ihl self > 15 then Inl GG_ERROR_INVALID_PARAMETERS
      else if buffer_size < 4 * unat (ip_ihl self) then Inl GG_ERROR_NOT_ENOUGH_SPACE
      else if compute_checksum
      then Inr (header_bytes self (NOT (GG_Ipv4Checksum (header_bytes self 0))))
      else Inr (header_bytes self (ip_checksum self)))"

definition GG_UdpPacketHeader_Parse :: "bytes \<Rightarrow> GG_Result + GG_UdpPacketHeader" where
  "GG_UdpPacketHeader_Parse packet =
     (if length packet < GG_UDP_HEADER_SIZE then Inl GG_ERROR_INVALID_PARAMETERS
      else Inr
        \<lparr>udp_src_port = GG_BytesToInt16Be packet 0,
         udp_dst_port = GG_BytesToInt16Be packet 2,
         udp_length = GG_BytesToInt16Be packet 4,
         udp_checksum = GG_BytesToInt16Be packet 6\<rparr>)"

definition GG_UdpPacketHeader_Serialize :: "GG_UdpPacketHeader \<Rightarrow> bytes" where
  "GG_UdpPacketHeader_Serialize self =
     [ucast (drop_bit 8 (udp_src_port self)), ucast (udp_src_port self),
      ucast (drop_bit 8 (udp_dst_port self)), ucast (udp_dst_port self),
      ucast (drop_bit 8 (udp_length self)), ucast (udp_length self),
      ucast (drop_bit 8 (udp_checksum self)), ucast (udp_checksum self)]"

section \<open>Header compression\<close>

type_synonym compressor = "u16 \<times> GG_BitOutputStream"

text \<open>The pattern of the compressor: a field that is not elided sets a flag and is written.\<close>

definition put_field :: "bool \<Rightarrow> u16 \<Rightarrow> u32 \<Rightarrow> nat \<Rightarrow> compressor \<Rightarrow> compressor option" where
  "put_field present flag val n st =
     (if present then map_option (Pair (fst st OR flag)) (GG_BitOutputStream_Write (snd st) val n)
      else Some st)"

fun write_options :: "bytes \<Rightarrow> GG_BitOutputStream \<Rightarrow> GG_BitOutputStream option" where
  "write_options [] bits = Some bits"
| "write_options (b # bs) bits = GG_BitOutputStream_Write bits (ucast b) 8 \<bind> write_options bs"

definition put_protocol :: "u8 \<Rightarrow> compressor \<Rightarrow> compressor option" where
  "put_protocol protocol st =
     (if protocol = GG_IPV4_PROTOCOL_TCP then Some (fst st OR 0x0000, snd st)
      else if protocol = GG_IPV4_PROTOCOL_UDP then Some (fst st OR 0x0040, snd st)
      else if protocol = GG_IPV4_PROTOCOL_ICMP then Some (fst st OR 0x0080, snd st)
      else put_field True 0x00C0 (ucast protocol) 8 st)"

text \<open>A UDP port is one of three known ones, or is written out. \<open>unit\<close> is the lowest flag bit.\<close>

definition put_port :: "u16 \<Rightarrow> u16 \<times> u16 \<times> u16 \<Rightarrow> u16 \<Rightarrow> compressor \<Rightarrow> compressor option" where
  "put_port port ports unit st =
     (case ports of (a, b, c) \<Rightarrow>
        if port = a then Some (fst st OR 0, snd st)
        else if port = b then Some (fst st OR unit, snd st)
        else if port = c then Some (fst st OR push_bit 1 unit, snd st)
        else put_field True (push_bit 1 unit OR unit) (ucast port) 16 st)"

definition compress_ip_fields ::
  "GG_Ipv4PacketHeader \<Rightarrow> GG_Ipv4FrameSerializationIpConfig \<Rightarrow> compressor \<Rightarrow> compressor option" where
  "compress_ip_fields ip cfg st = do {
     st \<leftarrow> put_field (ip_ihl ip \<noteq> 5) 0x0001 (ucast (ip_ihl ip)) 4 st;
     st \<leftarrow> put_field (ip_dscp ip \<noteq> 0) 0x0002 (ucast (ip_dscp ip)) 6 st;
     st \<leftarrow> put_field (ip_ecn ip \<noteq> 0) 0x0004 (ucast (ip_ecn ip)) 2 st;
     st \<leftarrow> put_field (ip_flags ip \<noteq> 0) 0x0008 (ucast (ip_flags ip)) 3 st;
     st \<leftarrow> put_field (ip_fragment_offset ip \<noteq> 0) 0x0010 (ucast (ip_fragment_offset ip)) 13 st;
     st \<leftarrow> put_field (ip_ttl ip \<noteq> 0) 0x0020 (ucast (ip_ttl ip)) 8 st;
     st \<leftarrow> put_protocol (ip_protocol ip) st;
     st \<leftarrow> put_field (ip_src_address ip \<noteq> default_src_address cfg) 0x0100 (ip_src_address ip) 32 st;
     put_field (ip_dst_address ip \<noteq> default_dst_address cfg) 0x0200 (ip_dst_address ip) 32 st
   }"

definition compress_udp_fields ::
  "GG_Ipv4PacketHeader \<Rightarrow> GG_UdpPacketHeader \<Rightarrow> GG_Ipv4FrameSerializationIpConfig \<Rightarrow>
   compressor \<Rightarrow> compressor option" where
  "compress_udp_fields ip udp cfg st = do {
     st \<leftarrow> put_port (udp_src_port udp) (udp_src_ports cfg) 0x0400 st;
     st \<leftarrow> put_port (udp_dst_port udp) (udp_dst_ports cfg) 0x1000 st;
     put_field (4 * unat (ip_ihl ip) + unat (udp_length udp) \<noteq> unat (ip_total_length ip))
       0x4000 (ucast (udp_length udp)) 16 st
   }"

text \<open>Yields the buffer and the size of the compressed headers in it.\<close>

definition GG_Ipv4_CompressHeaders ::
  "GG_Ipv4PacketHeader \<Rightarrow> GG_UdpPacketHeader option \<Rightarrow> GG_Ipv4FrameSerializationIpConfig \<Rightarrow>
   bytes \<Rightarrow> (bytes \<times> nat) option" where
  "GG_Ipv4_CompressHeaders ip udp cfg buffer = do {
     GG_ASSERT (length buffer \<ge> GG_IPV4_HEADER_COMPRESSION_FIXED_SIZE);
     GG_ASSERT (ip_ihl ip \<ge> 5);
     let bits = GG_BitOutputStream_Init (drop GG_IPV4_HEADER_COMPRESSION_FIXED_SIZE buffer);
     (flags, bits) \<leftarrow> compress_ip_fields ip cfg (0x8000, bits);
     let options_size = 4 * (unat (ip_ihl ip) - 5);
     bits \<leftarrow> write_options (take options_size (ip_options ip)) bits;
     (flags, bits) \<leftarrow> (case udp of
        None \<Rightarrow> Some (flags, bits)
      | Some udp \<Rightarrow> compress_udp_fields ip udp cfg (flags, bits));
     let header_size = 4 * unat (ip_ihl ip) +
       (if ip_protocol ip = GG_IPV4_PROTOCOL_UDP then GG_UDP_HEADER_SIZE else 0);
     GG_ASSERT (unat (ip_total_length ip) \<ge> header_size);
     let payload_size = unat (ip_total_length ip) - header_size;
     let compressed_headers_size = GG_IPV4_HEADER_COMPRESSION_FIXED_SIZE +
       (GG_BitOutputStream_GetPosition bits + 7) div 8;
     let total_length = compressed_headers_size + payload_size;
     let fixed =
       [ucast (drop_bit 8 flags), ucast (flags AND 0xFF),
        of_nat (total_length div 256), of_nat (total_length mod 256),
        ucast (drop_bit 8 (ip_identification ip)), ucast (ip_identification ip AND 0xFF)];
     bits \<leftarrow> GG_BitOutputStream_Flush bits;
     Some (fixed @ out_bytes bits, compressed_headers_size)
   }"

text \<open>The pattern of the decompressor: a field is read when its flag is set.\<close>

definition get_field :: "bool \<Rightarrow> nat \<Rightarrow> u32 \<Rightarrow> GG_BitInputStream \<Rightarrow> (u32 \<times> GG_BitInputStream) option" where
  "get_field present n dflt bits = (if present then GG_BitInputStream_Read bits n else Some (dflt, bits))"

fun read_options :: "nat \<Rightarrow> GG_BitInputStream \<Rightarrow> (bytes \<times> GG_BitInputStream) option" where
  "read_options 0 bits = Some ([], bits)"
| "read_options (Suc n) bits = do {
     (b, bits) \<leftarrow> GG_BitInputStream_Read bits 8;
     (bs, bits) \<leftarrow> read_options n bits;
     Some (ucast b # bs, bits)
   }"

definition get_protocol :: "u16 \<Rightarrow> GG_BitInputStream \<Rightarrow> (u8 \<times> GG_BitInputStream) option" where
  "get_protocol flags bits =
     (if flags AND 0x00C0 = 0x0000 then Some (GG_IPV4_PROTOCOL_TCP, bits)
      else if flags AND 0x00C0 = 0x0040 then Some (GG_IPV4_PROTOCOL_UDP, bits)
      else if flags AND 0x00C0 = 0x0080 then Some (GG_IPV4_PROTOCOL_ICMP, bits)
      else map_option (\<lambda>(v, bits). (ucast v, bits)) (GG_BitInputStream_Read bits 8))"

definition get_port ::
  "u16 \<Rightarrow> u16 \<times> u16 \<times> u16 \<Rightarrow> u16 \<Rightarrow> GG_BitInputStream \<Rightarrow> (u16 \<times> GG_BitInputStream) option" where
  "get_port flags ports unit bits =
     (case ports of (a, b, c) \<Rightarrow>
        let sel = flags AND (push_bit 1 unit OR unit)
        in if sel = 0 then Some (a, bits)
           else if sel = unit then Some (b, bits)
           else if sel = push_bit 1 unit then Some (c, bits)
           else map_option (\<lambda>(v, bits). (ucast v, bits)) (GG_BitInputStream_Read bits 16))"

definition decompress_ip_fields ::
  "u16 \<Rightarrow> u16 \<Rightarrow> GG_Ipv4FrameSerializationIpConfig \<Rightarrow> GG_BitInputStream \<Rightarrow>
   (GG_Ipv4PacketHeader \<times> GG_BitInputStream) option" where
  "decompress_ip_fields flags identification cfg bits = do {
     (ihl, bits) \<leftarrow> get_field (flags AND 0x0001 \<noteq> 0) 4 5 bits;
     (dscp, bits) \<leftarrow> get_field (flags AND 0x0002 \<noteq> 0) 6 0 bits;
     (ecn, bits) \<leftarrow> get_field (flags AND 0x0004 \<noteq> 0) 2 0 bits;
     (ipflags, bits) \<leftarrow> get_field (flags AND 0x0008 \<noteq> 0) 3 0 bits;
     (fragment_offset, bits) \<leftarrow> get_field (flags AND 0x0010 \<noteq> 0) 13 0 bits;
     (ttl, bits) \<leftarrow> get_field (flags AND 0x0020 \<noteq> 0) 8 0 bits;
     (protocol, bits) \<leftarrow> get_protocol flags bits;
     (src, bits) \<leftarrow> get_field (flags AND 0x0100 \<noteq> 0) 32 (default_src_address cfg) bits;
     (dst, bits) \<leftarrow> get_field (flags AND 0x0200 \<noteq> 0) 32 (default_dst_address cfg) bits;
     Some (\<lparr>ip_version = 4, ip_ihl = ucast ihl, ip_dscp = ucast dscp, ip_ecn = ucast ecn,
       ip_total_length = 0, ip_identification = identification, ip_flags = ucast ipflags,
       ip_fragment_offset = ucast fragment_offset, ip_ttl = ucast ttl, ip_protocol = protocol,
       ip_checksum = 0, ip_src_address = src, ip_dst_address = dst, ip_options = []\<rparr>, bits)
   }"

definition decompress_udp_fields ::
  "u16 \<Rightarrow> GG_Ipv4FrameSerializationIpConfig \<Rightarrow> GG_BitInputStream \<Rightarrow>
   (GG_UdpPacketHeader \<times> GG_BitInputStream) option" where
  "decompress_udp_fields flags cfg bits = do {
     (src_port, bits) \<leftarrow> get_port flags (udp_src_ports cfg) 0x0400 bits;
     (dst_port, bits) \<leftarrow> get_port flags (udp_dst_ports cfg) 0x1000 bits;
     (len, bits) \<leftarrow> get_field (flags AND 0x4000 \<noteq> 0) 16 0 bits;
     Some (\<lparr>udp_src_port = src_port, udp_dst_port = dst_port, udp_length = ucast len, udp_checksum = 0\<rparr>, bits)
   }"

text \<open>
  The result is an error or the IP header, the UDP header of a UDP packet, and the size of the
  compressed headers.
\<close>

definition GG_Ipv4_DecompressHeaders ::
  "bytes \<Rightarrow> GG_Ipv4FrameSerializationIpConfig \<Rightarrow>
   (GG_Result + GG_Ipv4PacketHeader \<times> GG_UdpPacketHeader option \<times> nat) option" where
  "GG_Ipv4_DecompressHeaders data cfg = do {
     GG_ASSERT (length data \<ge> GG_IPV4_HEADER_COMPRESSION_FIXED_SIZE);
     let flags = GG_BytesToInt16Be data 0;
     let bits = GG_BitInputStream_Init (drop GG_IPV4_HEADER_COMPRESSION_FIXED_SIZE data);
     (ip, bits) \<leftarrow> decompress_ip_fields flags (GG_BytesToInt16Be data 4) cfg bits;
     let header_size = 4 * unat (ip_ihl ip);
     if header_size < GG_IPV4_MIN_IP_HEADER_SIZE then Some (Inl GG_ERROR_INVALID_FORMAT)
     else do {
       (options, bits) \<leftarrow> read_options (4 * (unat (ip_ihl ip) - 5)) bits;
       let is_udp = (ip_protocol ip = GG_IPV4_PROTOCOL_UDP);
       let header_size = header_size + (if is_udp then GG_UDP_HEADER_SIZE else 0);
       (udp, bits) \<leftarrow> (if is_udp
         then map_option (\<lambda>(udp, bits). (Some udp, bits)) (decompress_udp_fields flags cfg bits)
         else Some (None, bits));
       let variable_size = (GG_BitInputStream_GetPosition bits + 7) div 8;
       let compressed_header_size = GG_IPV4_HEADER_COMPRESSION_FIXED_SIZE + variable_size;
       if compressed_header_size > length data then Some (Inl GG_ERROR_INVALID_FORMAT)
       else do {
         let payload_size = length data - compressed_header_size;
         let ip = ip\<lparr>ip_options := options, ip_total_length := of_nat (header_size + payload_size)\<rparr>;
         let udp = (if flags AND 0x4000 = 0
                    then map_option (\<lambda>u. u\<lparr>udp_length := of_nat payload_size - of_nat GG_UDP_HEADER_SIZE\<rparr>) udp
                    else udp);
         Some (Inr (ip, udp, compressed_header_size))
       }
     }
   }"

section \<open>Frame assembler\<close>

definition GG_Ipv4FrameAssembler_Create ::
  "u16 \<Rightarrow> GG_Ipv4FrameSerializationIpConfig option \<Rightarrow> GG_Ipv4FrameAssemblerIpMap option \<Rightarrow>
   GG_Result + GG_Ipv4FrameAssembler" where
  "GG_Ipv4FrameAssembler_Create max_packet_size ip_config ip_map =
     (if unat max_packet_size < GG_IPV4_MIN_IP_HEADER_SIZE then Inl GG_ERROR_INVALID_PARAMETERS
      else Inr \<lparr>asm_ip_config = ip_config, asm_ip_map = ip_map, asm_skip = 0, asm_payload_size = 0,
             asm_packet_size = 0, asm_buffer_size = unat max_packet_size,
             asm_buffer = replicate (unat max_packet_size) 0\<rparr>)"

definition GG_Ipv4FrameAssembler_GetFeedBuffer :: "GG_Ipv4FrameAssembler \<Rightarrow> nat option" where
  "GG_Ipv4FrameAssembler_GetFeedBuffer self =
     (if asm_skip self \<noteq> 0 then Some (min (asm_skip self) (asm_buffer_size self))
      else if \<not> asm_buffer_size self \<ge> asm_payload_size self then None
      else if asm_packet_size self = 0
      then Some (size_t_of (int GG_IPV4_MIN_PARTIAL_HEADER_SIZE - int (asm_payload_size self)))
      else Some (asm_buffer_size self - asm_payload_size self))"

definition GG_Ipv4FrameAssembler_DecompressAndEmitPacket ::
  "GG_Ipv4FrameAssembler \<Rightarrow> (GG_Result \<times> bytes option) option" where
  "GG_Ipv4FrameAssembler_DecompressAndEmitPacket self =
     (case asm_ip_config self of
        None \<Rightarrow> Some (GG_ERROR_NOT_SUPPORTED, None)
      | Some cfg \<Rightarrow> do {
          let packet = take (asm_packet_size self) (asm_buffer self);
          r \<leftarrow> GG_Ipv4_DecompressHeaders packet cfg;
          case r of
            Inl result \<Rightarrow> Some (result, None)
          | Inr (ip, udp, compressed_header_size) \<Rightarrow> do {
              GG_ASSERT (compressed_header_size \<le> asm_packet_size self);
              GG_ASSERT (compressed_header_size \<le> unat (ip_total_length ip));
              case GG_Ipv4PacketHeader_Serialize ip (4 * unat (ip_ihl ip)) True of
                Inl result \<Rightarrow> Some (result, None)
              | Inr ip_bytes \<Rightarrow> do {
                  let output = ip_bytes @
                    (case udp of None \<Rightarrow> [] | Some u \<Rightarrow> GG_UdpPacketHeader_Serialize u) @
                    drop compressed_header_size packet;
                  GG_ASSERT (length output = unat (ip_total_length ip));
                  Some (GG_SUCCESS, Some output)
                }
            }
        })"

definition GG_Ipv4FrameAssembler_CopyAndEmitPacket ::
  "GG_Ipv4FrameAssembler \<Rightarrow> GG_Result \<times> bytes option" where
  "GG_Ipv4FrameAssembler_CopyAndEmitPacket self =
     (GG_SUCCESS, Some (take (asm_packet_size self) (asm_buffer self)))"

text \<open>The checksum update after a remapping, and the remapping itself.\<close>

definition update_checksum :: "bytes \<Rightarrow> bytes" where
  "update_checksum packet =
     (let ihl = unat (packet ! 0 AND 0x0F)
      in if ihl \<ge> 5 \<and> ihl * 4 \<le> length packet then
           let packet = packet[10 := 0, 11 := 0];
               checksum = NOT (GG_Ipv4Checksum (take (4 * ihl) packet));
               packet = packet[10 := ucast (drop_bit 8 checksum), 11 := ucast checksum]
           in if packet ! 9 = GG_IPV4_PROTOCOL_UDP \<and> ihl * 4 + GG_UDP_HEADER_SIZE \<le> length packet
              then packet[ihl * 4 + 6 := 0, ihl * 4 + 7 := 0]
              else packet
         else packet)"

definition remap_addresses :: "GG_Ipv4FrameAssemblerIpMap \<Rightarrow> bytes \<Rightarrow> bytes option" where
  "remap_addresses ip_map packet = do {
     GG_ASSERT (20 \<le> length packet);
     let src_match = (GG_BytesToInt32Be packet 12 = map_src_address ip_map);
     let packet = (if src_match
                   then memcpy_at packet 12 (GG_BytesFromInt32Be (remapped_src_address ip_map)) else packet);
     let dst_match = (GG_BytesToInt32Be packet 16 = map_dst_address ip_map);
     let packet = (if dst_match
                   then memcpy_at packet 16 (GG_BytesFromInt32Be (remapped_dst_address ip_map)) else packet);
     Some (if src_match \<or> dst_match then update_checksum packet else packet)
   }"

text \<open>The frame of a complete packet: decompressed or copied, then remapped if so configured.\<close>

definition packet_frame :: "GG_Ipv4FrameAssembler \<Rightarrow> (GG_Result \<times> bytes option) option" where
  "packet_frame self = do {
     (result, frame) \<leftarrow>
       (if asm_buffer self ! 0 AND 0x80 \<noteq> 0
        then GG_Ipv4FrameAssembler_DecompressAndEmitPacket self
        else Some (GG_Ipv4FrameAssembler_CopyAndEmitPacket self));
     case (asm_ip_map self, frame) of
       (Some ip_map, Some packet) \<Rightarrow>
         if result = GG_SUCCESS then map_option (\<lambda>p. (result, Some p)) (remap_addresses ip_map packet)
         else Some (result, frame)
     | _ \<Rightarrow> Some (result, frame)
   }"

definition GG_Ipv4FrameAssembler_EmitPacket ::
  "GG_Ipv4FrameAssembler \<Rightarrow> (GG_Result \<times> bytes option \<times> GG_Ipv4FrameAssembler) option" where
  "GG_Ipv4FrameAssembler_EmitPacket self =
     map_option (\<lambda>(result, frame). (result, frame, self\<lparr>asm_packet_size := 0, asm_payload_size := 0\<rparr>))
       (packet_frame self)"

definition GG_Ipv4FrameAssembler_Reset :: "GG_Ipv4FrameAssembler \<Rightarrow> GG_Ipv4FrameAssembler" where
  "GG_Ipv4FrameAssembler_Reset self = self\<lparr>asm_skip := 0, asm_payload_size := 0, asm_packet_size := 0\<rparr>"

text \<open>The end of \<^verbatim>\<open>Feed\<close>: consume up to the packet size, emit a packet that is complete.\<close>

definition feed_packet ::
  "nat \<Rightarrow> nat \<Rightarrow> GG_Ipv4FrameAssembler \<Rightarrow>
   (GG_Result \<times> nat \<times> bytes option \<times> GG_Ipv4FrameAssembler) option" where
  "feed_packet consumed data_size self =
     (let will_take = (if consumed < data_size
            then min (data_size - consumed) (asm_packet_size self - asm_payload_size self) else 0);
          self = self\<lparr>asm_payload_size := asm_payload_size self + will_take\<rparr>;
          consumed = consumed + will_take
      in if asm_payload_size self = asm_packet_size self
         then map_option (\<lambda>(result, frame, self). (result, consumed, frame, self))
                (GG_Ipv4FrameAssembler_EmitPacket self)
         else Some (GG_SUCCESS, consumed, None, self))"

text \<open>The caller has copied \<open>data\<close> into the feed buffer: at its start when data is skipped, else at
  the end of the payload received so far.\<close>

definition GG_Ipv4FrameAssembler_Feed ::
  "bytes \<Rightarrow> GG_Ipv4FrameAssembler \<Rightarrow>
   (GG_Result \<times> nat \<times> bytes option \<times> GG_Ipv4FrameAssembler) option" where
  "GG_Ipv4FrameAssembler_Feed data self =
     (let data_size = length data
      in if asm_skip self \<noteq> 0 then
           let self = self\<lparr>asm_buffer := memcpy_at (asm_buffer self) 0 data\<rparr>
           in if data_size \<le> asm_skip self
              then Some (GG_SUCCESS, data_size, None, self\<lparr>asm_skip := asm_skip self - data_size\<rparr>)
              else Some (GG_SUCCESS, asm_skip self, None, self\<lparr>asm_skip := 0\<rparr>)
         else
           let self = self\<lparr>asm_buffer := memcpy_at (asm_buffer self) (asm_payload_size self) data\<rparr>
           in if asm_packet_size self \<noteq> 0 then feed_packet 0 data_size self
              else do {
                GG_ASSERT (asm_payload_size self < GG_IPV4_MIN_PARTIAL_HEADER_SIZE);
                let needed = GG_IPV4_MIN_PARTIAL_HEADER_SIZE - asm_payload_size self;
                if needed > data_size
                then Some (GG_SUCCESS, data_size, None,
                       self\<lparr>asm_payload_size := asm_payload_size self + data_size\<rparr>)
                else do {
                  let self = self\<lparr>asm_payload_size := asm_payload_size self + needed,
                    asm_packet_size := unat (GG_BytesToInt16Be (asm_buffer self) 2)\<rparr>;
                  if asm_packet_size self < GG_IPV4_MIN_PARTIAL_HEADER_SIZE
                  then Some (GG_ERROR_INVALID_SYNTAX, needed, None, GG_Ipv4FrameAssembler_Reset self)
                  else if asm_packet_size self > asm_buffer_size self
                  then Some (GG_SUCCESS, needed, None,
                         self\<lparr>asm_skip := asm_packet_size self - asm_payload_size self,
                              asm_payload_size := 0, asm_packet_size := 0\<rparr>)
                  else feed_packet needed data_size self
                }
              })"

section \<open>Frame serializer\<close>

text \<open>\<^verbatim>\<open>workspace\<close> is scratch memory: what it holds before the call does not matter.\<close>

definition GG_Ipv4FrameSerializer_Create ::
  "GG_Ipv4FrameSerializationIpConfig option \<Rightarrow> GG_Ipv4FrameSerializer" where
  "GG_Ipv4FrameSerializer_Create ip_config = \<lparr>ser_ip_config = ip_config, ser_workspace = replicate 70 0\<rparr>"

definition serialize_compressed ::
  "GG_Ipv4FrameSerializer \<Rightarrow> GG_Ipv4FrameSerializationIpConfig \<Rightarrow> bytes \<Rightarrow> GG_RingBuffer \<Rightarrow>
   (GG_Result \<times> GG_RingBuffer) option" where
  "serialize_compressed self cfg frame output_buffer =
     (case GG_Ipv4PacketHeader_Parse frame of
        Inl result \<Rightarrow> Some (result, output_buffer)
      | Inr ip \<Rightarrow>
          let ip_header_size = 4 * unat (ip_ihl ip);
              is_udp = (ip_protocol ip = GG_IPV4_PROTOCOL_UDP);
              header_size = ip_header_size + (if is_udp then GG_UDP_HEADER_SIZE else 0)
          in if length frame < header_size then Some (GG_ERROR_INVALID_FORMAT, output_buffer)
             else
               (case (if is_udp then map_sum id Some (GG_UdpPacketHeader_Parse (drop ip_header_size frame))
                      else Inr None) of
                  Inl result \<Rightarrow> Some (result, output_buffer)
                | Inr udp \<Rightarrow> do {
                    (workspace, compressed_header_size) \<leftarrow> GG_Ipv4_CompressHeaders ip udp cfg (ser_workspace self);
                    let output_buffer = snd (GG_RingBuffer_Write output_buffer (take compressed_header_size workspace));
                    Some (GG_SUCCESS, snd (GG_RingBuffer_Write output_buffer (drop header_size frame)))
                  }))"

definition GG_Ipv4FrameSerializer_SerializeFrame ::
  "GG_Ipv4FrameSerializer \<Rightarrow> bytes \<Rightarrow> GG_RingBuffer \<Rightarrow> (GG_Result \<times> GG_RingBuffer) option" where
  "GG_Ipv4FrameSerializer_SerializeFrame self frame output_buffer =
     (if length frame \<ge> rb_size output_buffer then Some (GG_ERROR_INVALID_PARAMETERS, output_buffer)
      else if length frame + 2 > GG_RingBuffer_GetSpace output_buffer
      then Some (GG_ERROR_WOULD_BLOCK, output_buffer)
      else case ser_ip_config self of
             Some cfg \<Rightarrow> serialize_compressed self cfg frame output_buffer
           | None \<Rightarrow> Some (GG_SUCCESS, snd (GG_RingBuffer_Write output_buffer frame)))"

end
