(* ===== verification/Ipv4_Headers.thy ===== *)
theory Ipv4_Headers
  imports Ipv4
begin

text \<open>
  IPv4 and UDP headers: parsing and serialization are inverse to each other, serialized headers
  carry a valid checksum, and header compression loses nothing but what it is meant to lose,
  except for the length of UDP packets.
\<close>

section \<open>Words\<close>

lemma bit_less_exp:
  assumes "unat (w :: 'a::len word) < 2 ^ k" and "bit w n"
  shows "n < k"
proof (rule ccontr)
  assume "\<not> n < k"
  have "unat (take_bit k w) = unat w" using assms(1) by (simp add: unsigned_take_bit_eq take_bit_nat_eq_self)
  then have "take_bit k w = w" by (simp add: unsigned_word_eqI)
  then have "bit w n = (n < k \<and> bit w n)" by (metis bit_take_bit_iff)
  with assms(2) \<open>\<not> n < k\<close> show False by simp
qed

lemma unat_less_exp:
  assumes "\<And>n. bit (w :: 'a::len word) n \<Longrightarrow> n < k"
  shows "unat w < 2 ^ k"
proof -
  have "take_bit k w = w" by (rule bit_word_eqI) (use assms in \<open>auto simp: bit_take_bit_iff\<close>)
  then have "unat w = take_bit k (unat w)" by (metis unsigned_take_bit_eq)
  then show ?thesis by (metis take_bit_nat_less_exp)
qed

lemma and_mask_bits:
  "bit ((w :: 'a::len word) AND 0x0F) i \<longleftrightarrow> i < 4 \<and> bit w i"
  "bit ((w :: 'a::len word) AND 0x03) i \<longleftrightarrow> i < 2 \<and> bit w i"
  "bit ((w :: 'a::len word) AND 0x1F) i \<longleftrightarrow> i < 5 \<and> bit w i"
proof -
  have m: "(0x0F :: 'a word) = mask 4" "(0x03 :: 'a word) = mask 2" "(0x1F :: 'a word) = mask 5"
    by (simp_all add: mask_eq_exp_minus_1)
  show "bit ((w :: 'a::len word) AND 0x0F) i \<longleftrightarrow> i < 4 \<and> bit w i"
    "bit ((w :: 'a::len word) AND 0x03) i \<longleftrightarrow> i < 2 \<and> bit w i"
    "bit ((w :: 'a::len word) AND 0x1F) i \<longleftrightarrow> i < 5 \<and> bit w i"
    unfolding m by (auto simp: bit_and_iff bit_mask_iff dest: bit_imp_le_length)
qed

lemmas bit_word = bit_or_iff bit_push_bit_iff bit_ucast_iff bit_drop_bit_eq and_mask_bits

lemma nibbles:
  fixes hi lo :: u8
  assumes "unat lo < 2 ^ 4" "unat hi < 2 ^ 4"
  shows "drop_bit 4 (push_bit 4 hi OR lo) = hi" "(push_bit 4 hi OR lo) AND 0x0F = lo"
proof -
  note b = bit_less_exp [OF assms(1)] bit_less_exp [OF assms(2)]
  show "drop_bit 4 (push_bit 4 hi OR lo) = hi"
    by (rule bit_word_eqI) (auto simp: bit_word dest: b)
  show "(push_bit 4 hi OR lo) AND 0x0F = lo"
    by (rule bit_word_eqI) (auto simp: bit_word dest: b)
qed

lemma dscp_ecn:
  fixes hi lo :: u8
  assumes "unat lo < 2 ^ 2" "unat hi < 2 ^ 6"
  shows "drop_bit 2 (push_bit 2 hi OR (lo AND 3)) = hi" "(push_bit 2 hi OR (lo AND 3)) AND 3 = lo"
proof -
  note b = bit_less_exp [OF assms(1)] bit_less_exp [OF assms(2)]
  show "drop_bit 2 (push_bit 2 hi OR (lo AND 3)) = hi"
    by (rule bit_word_eqI) (auto simp: bit_word dest: b)
  show "(push_bit 2 hi OR (lo AND 3)) AND 3 = lo"
    by (rule bit_word_eqI) (auto simp: bit_word dest: b)
qed

lemma flags_offset:
  fixes fl :: u8 and off :: u16
  assumes "unat fl < 2 ^ 3" "unat off < 2 ^ 13"
  shows "drop_bit 5 (push_bit 5 fl OR (ucast (drop_bit 8 off) AND 0x1F)) = fl"
    and "push_bit 8 (ucast ((push_bit 5 fl OR (ucast (drop_bit 8 off) AND 0x1F)) AND 0x1F)) OR
      ucast (ucast off :: u8) = off"
proof -
  note b = bit_less_exp [OF assms(1)] bit_less_exp [OF assms(2)]
  show "drop_bit 5 (push_bit 5 fl OR (ucast (drop_bit 8 off) AND 0x1F)) = fl"
    by (rule bit_word_eqI) (auto simp: bit_word dest: b)
  show "push_bit 8 (ucast ((push_bit 5 fl OR (ucast (drop_bit 8 off) AND 0x1F)) AND 0x1F)) OR
      ucast (ucast off :: u8) = off"
    by (rule bit_word_eqI) (auto simp: bit_word dest: b)
qed

lemma joined_bytes:
  fixes b c :: u8
  shows "push_bit 4 (drop_bit 4 b) OR (b AND 0x0F) = b"
    and "push_bit 2 (drop_bit 2 b) OR ((b AND 3) AND 3) = b"
    and "push_bit 5 (drop_bit 5 b) OR
      (ucast (drop_bit 8 (push_bit 8 (ucast (b AND 0x1F)) OR ucast c :: u16)) AND 0x1F) = b"
    and "ucast (push_bit 8 (ucast (b AND 0x1F)) OR ucast c :: u16) = c"
proof -
  show "push_bit 4 (drop_bit 4 b) OR (b AND 0x0F) = b"
    by (rule bit_word_eqI) (auto simp: bit_word)
  show "push_bit 2 (drop_bit 2 b) OR ((b AND 3) AND 3) = b"
    by (rule bit_word_eqI) (auto simp: bit_word simp del: add_2_eq_Suc)
  show "push_bit 5 (drop_bit 5 b) OR
      (ucast (drop_bit 8 (push_bit 8 (ucast (b AND 0x1F)) OR ucast c :: u16)) AND 0x1F) = b"
  proof (rule bit_word_eqI)
    fix n
    show "bit (push_bit 5 (drop_bit 5 b) OR
        (ucast (drop_bit 8 (push_bit 8 (ucast (b AND 0x1F)) OR ucast c :: u16)) AND 0x1F)) n = bit b n"
      if "n < LENGTH(8)"
      using that by (cases "n < 5") (auto simp: bit_word dest: bit_imp_le_length)
  qed
  show "ucast (push_bit 8 (ucast (b AND 0x1F)) OR ucast c :: u16) = c"
    by (rule bit_word_eqI) (auto simp: bit_word)
qed

section \<open>Round trips\<close>

definition ip_header_ok :: "GG_Ipv4PacketHeader \<Rightarrow> bool" where
  "ip_header_ok h \<longleftrightarrow> ip_version h = 4 \<and> 5 \<le> unat (ip_ihl h) \<and> unat (ip_ihl h) \<le> 15 \<and>
     unat (ip_dscp h) < 2 ^ 6 \<and> unat (ip_ecn h) < 2 ^ 2 \<and> unat (ip_flags h) < 2 ^ 3 \<and>
     unat (ip_fragment_offset h) < 2 ^ 13 \<and> length (ip_options h) = 4 * (unat (ip_ihl h) - 5)"

lemma length_header_bytes: "ip_header_ok h \<Longrightarrow> length (header_bytes h ck) = 4 * unat (ip_ihl h)"
  by (auto simp: ip_header_ok_def header_bytes_def)

lemma header_bytes_nth:
  fixes h ck rest
  defines "p \<equiv> header_bytes h ck @ rest"
  shows "p ! 0 = push_bit 4 (ip_version h) OR ip_ihl h"
    "p ! Suc 0 = push_bit 2 (ip_dscp h) OR (ip_ecn h AND 3)"
    "GG_BytesToInt16Be p 2 = ip_total_length h" "GG_BytesToInt16Be p 4 = ip_identification h"
    "p ! 6 = push_bit 5 (ip_flags h) OR (ucast (drop_bit 8 (ip_fragment_offset h)) AND 0x1F)"
    "p ! 7 = ucast (ip_fragment_offset h)" "p ! 8 = ip_ttl h" "p ! 9 = ip_protocol h"
    "GG_BytesToInt16Be p 10 = ck"
    "GG_BytesToInt32Be p 12 = ip_src_address h" "GG_BytesToInt32Be p 16 = ip_dst_address h"
    "drop 20 p = take (4 * (unat (ip_ihl h) - 5)) (ip_options h) @ rest"
  by (simp_all add: p_def header_bytes_def GG_BytesToInt16Be_def GG_BytesToInt32Be_def
      GG_BytesFromInt32Be_def be16_of_bytes be32_of_bytes [simplified])

lemma Parse_header_bytes:
  assumes ok: "ip_header_ok h"
  shows "GG_Ipv4PacketHeader_Parse (header_bytes h ck @ rest) = Inr (h\<lparr>ip_checksum := ck\<rparr>)"
proof -
  let ?p = "header_bytes h ck @ rest"
  note d = ok [unfolded ip_header_ok_def]
  have nib: "drop_bit 4 (?p ! 0) = 4" "?p ! 0 AND 0x0F = ip_ihl h"
    using nibbles [of "ip_ihl h" 4] d by (simp_all add: header_bytes_nth)
  have len: "20 \<le> length ?p" "unat (ip_ihl h) * 4 \<le> length ?p" "\<not> ip_ihl h < 5"
    using length_header_bytes [OF ok, of ck] d by (auto simp: word_less_nat_alt)
  have "subarray ?p 20 ((unat (ip_ihl h) - 5) * 4) = ip_options h"
    using d by (simp only: subarray_def header_bytes_nth) simp
  then show ?thesis
    using nib len d dscp_ecn [of "ip_ecn h" "ip_dscp h"] flags_offset [of "ip_flags h" "ip_fragment_offset h"]
    by (simp add: GG_Ipv4PacketHeader_Parse_def Let_def)
      (intro GG_Ipv4PacketHeader.equality; simp add: header_bytes_nth)
qed

lemma take_20:
  assumes "20 \<le> length p"
  shows "take 20 p = [p ! 0, p ! 1, p ! 2, p ! 3, p ! 4, p ! 5, p ! 6, p ! 7, p ! 8, p ! 9, p ! 10, p ! 11,
    p ! 12, p ! 13, p ! 14, p ! 15, p ! 16, p ! 17, p ! 18, p ! 19]"
proof -
  have "take 20 p = map ((!) p) [0..<20]" using assms by (intro nth_equalityI) auto
  also have "[0..<20] = [0, 1, 2, 3, 4, 5, 6, 7, 8, 9, 10, 11, 12, 13, 14, 15, 16, 17, 18, 19]"
    by (simp add: upt_rec numeral_nat)
  finally show ?thesis by simp
qed

lemma Parse_ok:
  assumes "GG_Ipv4PacketHeader_Parse p = Inr h"
  shows "ip_header_ok h" and "header_bytes h (ip_checksum h) = take (4 * unat (ip_ihl h)) p"
    and "4 * unat (ip_ihl h) \<le> length p" and "20 \<le> length p"
proof -
  have c: "20 \<le> length p" "drop_bit 4 (p ! 0) = 4" "5 \<le> unat (ip_ihl h)" "4 * unat (ip_ihl h) \<le> length p"
    "ip_ihl h = p ! 0 AND 0x0F" "ip_version h = drop_bit 4 (p ! 0)"
    and o: "ip_options h = subarray p 20 ((unat (ip_ihl h) - 5) * 4)"
    and f: "ip_dscp h = drop_bit 2 (p ! 1)" "ip_ecn h = p ! 1 AND 3" "ip_flags h = drop_bit 5 (p ! 6)"
      "ip_fragment_offset h = push_bit 8 (ucast (p ! 6 AND 0x1F)) OR ucast (p ! 7)"
      "ip_total_length h = GG_BytesToInt16Be p 2" "ip_identification h = GG_BytesToInt16Be p 4"
      "ip_ttl h = p ! 8" "ip_protocol h = p ! 9" "ip_checksum h = GG_BytesToInt16Be p 10"
      "ip_src_address h = GG_BytesToInt32Be p 12" "ip_dst_address h = GG_BytesToInt32Be p 16"
    using assms by (auto simp: GG_Ipv4PacketHeader_Parse_def Let_def word_less_nat_alt split: if_splits)
  show "4 * unat (ip_ihl h) \<le> length p" "20 \<le> length p" using c by auto
  have ihl: "unat (ip_ihl h) \<le> 15"
    using word_and_le1 [of "p ! 0" "0x0F"] unfolding c(5) word_le_nat_alt by simp
  have "4 * unat (ip_ihl h) = 20 + (unat (ip_ihl h) - 5) * 4" using c(3) by simp
  then have t: "take (4 * unat (ip_ihl h)) p = take 20 p @ ip_options h"
    unfolding o subarray_def by (simp only: take_add)
  have l: "length (ip_options h) = (unat (ip_ihl h) - 5) * 4" using c(3,4) o by simp
  show "header_bytes h (ip_checksum h) = take (4 * unat (ip_ihl h)) p"
    unfolding t take_20 [OF c(1)] header_bytes_def using l joined_bytes
    by (simp add: f FromInt32Be_ToInt32Be bytes_of_ToInt16Be c(5,6))
  have small: "unat (drop_bit 2 (p ! 1)) < 2 ^ 6" "unat (p ! 1 AND 3) < 2 ^ 2" "unat (drop_bit 5 (p ! 6)) < 2 ^ 3"
    "unat (push_bit 8 (ucast (p ! 6 AND 0x1F)) OR ucast (p ! 7) :: u16) < 2 ^ 13"
    by (rule unat_less_exp, fastforce simp: bit_word dest: bit_imp_le_length)+
  show "ip_header_ok h"
    unfolding ip_header_ok_def using c ihl l small
    by (simp add: f mult.commute)
qed

section \<open>Checksum\<close>

text \<open>The sum of the 16-bit big-endian words of the data, the last padded with a zero byte.\<close>

fun word_sum :: "bytes \<Rightarrow> nat" where
  "word_sum [] = 0"
| "word_sum [b] = 256 * unat b"
| "word_sum (a # b # data) = 256 * unat a + unat b + word_sum data"

lemma unat_be16: "unat (push_bit 8 (ucast (a :: u8)) OR ucast (b :: u8) :: u16) = 256 * unat a + unat b"
proof -
  have "(push_bit 8 (ucast a) :: u16) AND ucast b = 0"
    by (rule bit_word_eqI) (auto simp: bit_word bit_and_iff)
  then have "(push_bit 8 (ucast a) OR ucast b :: u16) = push_bit 8 (ucast a) + ucast b"
    by (simp add: disjunctive_add_eq_or)
  moreover have "unat (push_bit 8 (ucast a) :: u16) = 256 * unat a"
    using unat_less_length [of a] by (simp add: push_bit_eq_mult unat_word_ariths unat_ucast_up)
  moreover have "unat (ucast b :: u16) = unat b" using unat_less_length [of b] by (simp add: unat_ucast_up)
  ultimately show ?thesis using unat_less_length [of a] unat_less_length [of b] by (simp add: unat_word_ariths)
qed

lemma unat_checksum_loop:
  "unat (checksum_loop data c) = (unat c + word_sum data) mod 2 ^ 32"
proof (induction data c rule: checksum_loop.induct)
  case (1 c)
  then show ?case using unat_less_length [of c] by simp
next
  case (2 b c)
  have "unat (push_bit 8 (ucast b) :: u32) = 256 * unat b"
    using unat_less_length [of b] by (simp add: push_bit_eq_mult unat_word_ariths unat_ucast_up)
  then show ?case by (simp add: unat_word_ariths)
next
  case (3 a b data c)
  have "unat (ucast (push_bit 8 (ucast a) OR ucast b :: u16) :: u32) = 256 * unat a + unat b"
    using unat_less_length [of a] unat_less_length [of b] by (simp add: unat_ucast_up unat_be16)
  then have "unat (c + ucast (push_bit 8 (ucast a) OR ucast b :: u16)) =
      (unat c + (256 * unat a + unat b)) mod 2 ^ 32" by (simp add: unat_word_ariths)
  then show ?case unfolding checksum_loop.simps "3.IH" word_sum.simps by (simp only: mod_add_left_eq add.assoc)
qed

definition carry_fold :: "nat \<Rightarrow> nat" where
  "carry_fold x = x div 65536 + x mod 65536"

lemma unat_carry_fold:
  "unat (drop_bit 16 (c :: u32) + (c AND 0xFFFF)) = carry_fold (unat c)"
proof -
  have m: "(0xFFFF :: u32) = mask 16" by (simp add: mask_eq_exp_minus_1)
  have "unat (c AND 0xFFFF) = unat c mod 65536"
    unfolding m take_bit_eq_mask [symmetric] by (simp add: unsigned_take_bit_eq take_bit_eq_mod unat_mod_distrib)
  moreover have "unat (drop_bit 16 c) = unat c div 65536"
    by (simp add: unsigned_drop_bit_eq drop_bit_eq_div unat_div_distrib)
  moreover have "unat c div 65536 < 65536" using unat_less_length [of c] by simp
  ultimately show ?thesis
    by (simp add: unat_word_ariths carry_fold_def)
qed

lemma high_half_zero: "(c :: u32) AND 0xFFFF0000 = 0 \<longleftrightarrow> unat c < 65536"
proof -
  have m: "(0xFFFF0000 :: u32) = NOT (mask 16)" by (simp add: mask_eq_exp_minus_1)
  have "c AND 0xFFFF0000 = 0 \<longleftrightarrow> (\<forall>n. bit c n \<longrightarrow> n < 16)"
    unfolding m bit_eq_iff by (simp add: bit_and_iff bit_not_iff bit_mask_iff)
      (metis bit_imp_le_length len_num1 len_bit0 mult_2 numeral_Bit0 one_add_one)
  also have "\<dots> \<longleftrightarrow> unat c < 65536"
    using bit_less_exp [of c 16] unat_less_exp [of c 16] by auto
  finally show ?thesis .
qed

lemma carry_fold_props:
  assumes "x < 2 ^ 32"
  shows "carry_fold (carry_fold x) < 65536" "carry_fold x < 65536 \<Longrightarrow> carry_fold (carry_fold x) = carry_fold x"
    "carry_fold x mod 65535 = x mod 65535" "carry_fold x = 0 \<longleftrightarrow> x = 0"
proof -
  have d: "x div 65536 < 65536" using assms by simp
  show "carry_fold (carry_fold x) < 65536"
  proof (cases "carry_fold x < 65536")
    case False
    have "x mod 65536 < 65536" by simp
    define y where "y = carry_fold x - 65536"
    have y: "carry_fold x = 65536 + y" "y < 65535"
      using d False \<open>x mod 65536 < 65536\<close> unfolding y_def carry_fold_def by linarith+
    then have "carry_fold (65536 + y) = 1 + y" by (simp add: carry_fold_def)
    with y show ?thesis by simp
  qed (simp add: carry_fold_def)
  show "carry_fold (carry_fold x) = carry_fold x" if "carry_fold x < 65536"
    using that by (simp add: carry_fold_def)
  have "x = 65536 * (x div 65536) + x mod 65536" by simp
  then have "x = 65535 * (x div 65536) + carry_fold x" unfolding carry_fold_def by linarith
  then show "carry_fold x mod 65535 = x mod 65535" by (metis mod_mult_self4)
  show "carry_fold x = 0 \<longleftrightarrow> x = 0"
    using \<open>x = 65536 * (x div 65536) + x mod 65536\<close> by (auto simp: carry_fold_def)
qed

lemma Ipv4Checksum_fold:
  "unat (GG_Ipv4Checksum data) = carry_fold (carry_fold (word_sum data mod 2 ^ 32))"
proof -
  let ?c = "checksum_loop data 0"
  let ?c1 = "drop_bit 16 ?c + (?c AND 0xFFFF)"
  have c: "unat ?c = word_sum data mod 2 ^ 32" by (simp add: unat_checksum_loop)
  have c1: "unat ?c1 = carry_fold (word_sum data mod 2 ^ 32)" by (simp add: unat_carry_fold c)
  note p = carry_fold_props [of "word_sum data mod 2 ^ 32", simplified]
  let ?c2 = "if ?c1 AND 0xFFFF0000 \<noteq> 0 then drop_bit 16 ?c1 + (?c1 AND 0xFFFF) else ?c1"
  have c2: "unat ?c2 = carry_fold (carry_fold (word_sum data mod 2 ^ 32))"
    using p(2) by (simp add: high_half_zero unat_carry_fold c)
  have "unat (ucast ?c2 :: u16) = unat ?c2"
    using p(1) c2 by (simp add: unsigned_ucast_eq take_bit_nat_eq_self)
  then show ?thesis using c2 by (simp add: GG_Ipv4Checksum_def Let_def)
qed

lemma word_sum_bound: "word_sum data \<le> 65535 * length data"
proof (induction data rule: word_sum.induct)
  case (2 b)
  then show ?case using unat_less_length [of b] by simp
next
  case (3 a b data)
  then show ?case using unat_less_length [of a] unat_less_length [of b] by simp
qed simp

text \<open>The one's complement sum of RFC 1071: the sum modulo 65535, where 0 is only for all zeros.\<close>

definition ones_complement_sum :: "nat \<Rightarrow> nat" where
  "ones_complement_sum n = (if n = 0 then 0 else if n mod 65535 = 0 then 65535 else n mod 65535)"

lemma Ipv4Checksum_eq:
  assumes "length data \<le> 65536"
  shows "unat (GG_Ipv4Checksum data) = ones_complement_sum (word_sum data)"
proof -
  let ?n = "word_sum data"
  have n: "?n < 2 ^ 32" using word_sum_bound [of data] assms by simp
  then have f: "carry_fold ?n < 2 ^ 32" by (simp add: carry_fold_def)
  let ?r = "carry_fold (carry_fold ?n)"
  have r: "?r < 65536" "?r mod 65535 = ?n mod 65535" "?r = 0 \<longleftrightarrow> ?n = 0"
    using carry_fold_props [OF n] carry_fold_props(3,4) [OF f] by auto
  have "?r = 65535 \<or> ?r < 65535" using r(1) by linarith
  then have "?r = ones_complement_sum ?n"
    using r by (auto simp: ones_complement_sum_def)
  with n show ?thesis by (simp add: Ipv4Checksum_fold)
qed

lemma word_sum_header:
  "word_sum (header_bytes h ck) = word_sum (header_bytes h 0) + unat ck"
proof -
  have "256 * unat (ucast (drop_bit 8 ck) :: u8) + unat (ucast ck :: u8) = unat ck"
    by (simp only: be16_of_bytes flip: unat_be16)
  then show ?thesis by (simp add: header_bytes_def)
qed

lemma Checksum_header:
  assumes ok: "ip_header_ok h"
  shows "GG_Ipv4Checksum (header_bytes h (NOT (GG_Ipv4Checksum (header_bytes h 0)))) = 0xFFFF"
proof -
  let ?c = "GG_Ipv4Checksum (header_bytes h 0)" and ?n = "word_sum (header_bytes h 0)"
  have len: "length (header_bytes h ck) \<le> 65536" for ck
    using length_header_bytes [OF ok] ok by (simp add: ip_header_ok_def)
  have c: "unat ?c = ones_complement_sum ?n" by (rule Ipv4Checksum_eq [OF len])
  have "NOT ?c = - 1 - ?c" by (simp add: not_eq_complement)
  moreover have "unat (- 1 - ?c) = unat (- 1 :: u16) - unat ?c" by (rule unat_sub) simp
  moreover have "unat (- 1 :: u16) = 65535" by (simp add: unsigned_minus_1_eq_mask mask_eq_exp_minus_1)
  ultimately have nc: "unat (NOT ?c) = 65535 - unat ?c" by simp
  have "ones_complement_sum (?n + (65535 - ones_complement_sum ?n)) = 65535"
  proof (cases "?n mod 65535 = 0")
    case True
    then show ?thesis by (auto simp: ones_complement_sum_def mod_add_eq)
  next
    case False
    have "?n mod 65535 < 65535" by simp
    then have "?n + (65535 - ?n mod 65535) = 65535 + (?n - ?n mod 65535)" by (simp add: le_simps)
    then have "(?n + (65535 - ?n mod 65535)) mod 65535 = 0" by (simp add: minus_mod_eq_mult_div)
    moreover have "0 < ?n + (65535 - ?n mod 65535)" using False by (auto simp: mod_eq_0_iff_dvd)
    ultimately show ?thesis using False by (auto simp: ones_complement_sum_def)
  qed
  then have "unat (GG_Ipv4Checksum (header_bytes h (NOT ?c))) = 65535"
    unfolding Ipv4Checksum_eq [OF len] word_sum_header [of h "NOT ?c"] nc c .
  then show ?thesis by (simp add: unsigned_word_eqI)
qed

end
