(* ===== verification/Ipv4_Compression.thy ===== *)
theory Ipv4_Compression
  imports Ipv4_Headers
begin

text \<open>
  Header compression and decompression: what the decompressor makes of the output of the
  compressor.
\<close>

section \<open>Flags\<close>

lemma bit_if: "bit (if c then x else 0) n \<longleftrightarrow> c \<and> bit x n"
  by simp

lemma and_flag:
  "(w :: u16) AND 0x0001 \<noteq> 0 \<longleftrightarrow> bit w 0" "w AND 0x0002 \<noteq> 0 \<longleftrightarrow> bit w 1"
  "w AND 0x0004 \<noteq> 0 \<longleftrightarrow> bit w 2" "w AND 0x0008 \<noteq> 0 \<longleftrightarrow> bit w 3"
  "w AND 0x0010 \<noteq> 0 \<longleftrightarrow> bit w 4" "w AND 0x0020 \<noteq> 0 \<longleftrightarrow> bit w 5"
  "w AND 0x0100 \<noteq> 0 \<longleftrightarrow> bit w 8" "w AND 0x0200 \<noteq> 0 \<longleftrightarrow> bit w 9"
  "w AND 0x4000 \<noteq> 0 \<longleftrightarrow> bit w 14"
  using and_exp_eq_0_iff_not_bit [of w 0] and_exp_eq_0_iff_not_bit [of w 1] and_exp_eq_0_iff_not_bit [of w 2]
    and_exp_eq_0_iff_not_bit [of w 3] and_exp_eq_0_iff_not_bit [of w 4] and_exp_eq_0_iff_not_bit [of w 5]
    and_exp_eq_0_iff_not_bit [of w 8] and_exp_eq_0_iff_not_bit [of w 9] and_exp_eq_0_iff_not_bit [of w 14]
  by simp_all

lemma and_flag_pair:
  fixes w :: u16
  shows "w AND (2 ^ Suc k OR 2 ^ k) = (if bit w k then 2 ^ k else 0) OR (if bit w (Suc k) then 2 ^ Suc k else 0)"
  by (rule bit_word_eqI) (auto simp: bit_and_iff bit_or_iff bit_exp_iff bit_if simp del: power_Suc)

lemma and_flag_pairs:
  fixes w :: u16
  shows "w AND 0x00C0 = (if bit w 6 then 0x40 else 0) OR (if bit w 7 then 0x80 else 0)"
    and "w AND (push_bit 1 0x0400 OR 0x0400) = (if bit w 10 then 0x400 else 0) OR (if bit w 11 then 0x800 else 0)"
    and "w AND (push_bit 1 0x1000 OR 0x1000) = (if bit w 12 then 0x1000 else 0) OR (if bit w 13 then 0x2000 else 0)"
  using and_flag_pair [of w 6] and_flag_pair [of w 10] and_flag_pair [of w 12] by simp_all

section \<open>Fields\<close>

definition fbits :: "bool \<Rightarrow> nat \<Rightarrow> u32 \<Rightarrow> bool list" where
  "fbits c n v = (if c then wbits n v else [])"

lemma put_field_wrote:
  assumes "wrote (snd st) bs" and "n \<le> 32"
  shows "\<exists>bits. put_field c fl v n st = Some (fst st OR (if c then fl else 0), bits) \<and>
    wrote bits (bs @ fbits c n v) \<and> out_byte_size bits = out_byte_size (snd st)"
  using Write_wrote [OF assms, of v] assms(1) by (cases c; cases st) (auto simp: put_field_def fbits_def)

lemma get_field_reads:
  assumes "reads s (fbits c n v @ rest)" and "n \<le> 32"
  shows "\<exists>s'. get_field c n d s = Some (if c then take_bit n v else d, s') \<and> reads s' rest \<and>
    in_bytes s' = in_bytes s \<and>
    GG_BitInputStream_GetPosition s' = GG_BitInputStream_GetPosition s + length (fbits c n v)"
  using Read_wbits [of s n v rest] assms by (cases c) (auto simp: get_field_def fbits_def)

definition protocol_flag :: "u8 \<Rightarrow> u16" where
  "protocol_flag p = (if p = 6 then 0 else if p = 17 then 0x40 else if p = 1 then 0x80 else 0xC0)"

definition protocol_bits :: "u8 \<Rightarrow> bool list" where
  "protocol_bits p = fbits (p \<noteq> 6 \<and> p \<noteq> 17 \<and> p \<noteq> 1) 8 (ucast p)"

lemma put_protocol_wrote:
  assumes "wrote (snd st) bs"
  shows "\<exists>bits. put_protocol p st = Some (fst st OR protocol_flag p, bits) \<and>
    wrote bits (bs @ protocol_bits p) \<and> out_byte_size bits = out_byte_size (snd st)"
  using put_field_wrote [OF assms, of 8 True "0xC0" "ucast p"] assms
  by (cases st) (auto simp: put_protocol_def protocol_flag_def protocol_bits_def fbits_def)

lemma take_bit_ucast: "LENGTH('a) \<le> n \<Longrightarrow> take_bit n (ucast (w :: 'a::len word)) = (ucast w :: 'b::len word)"
  by (rule bit_word_eqI) (auto simp: bit_take_bit_iff bit_ucast_iff dest: bit_imp_le_length)

lemma ucast_ucast_up: "LENGTH('a) \<le> LENGTH('b) \<Longrightarrow> ucast (ucast (w :: 'a::len word) :: 'b::len word) = w"
  by (rule bit_word_eqI) (auto simp: bit_ucast_iff)

lemma get_protocol_reads:
  assumes r: "reads s (protocol_bits p @ rest)"
    and f: "flags AND 0xC0 = protocol_flag p"
  shows "\<exists>s'. get_protocol flags s = Some (p, s') \<and> reads s' rest \<and> in_bytes s' = in_bytes s \<and>
    GG_BitInputStream_GetPosition s' = GG_BitInputStream_GetPosition s + length (protocol_bits p)"
  using Read_wbits [of s 8 "ucast p" rest] r f
  by (auto simp: get_protocol_def protocol_flag_def protocol_bits_def fbits_def take_bit_ucast ucast_ucast_up
      split: if_splits)

definition port_flag :: "u16 \<Rightarrow> u16 \<times> u16 \<times> u16 \<Rightarrow> u16 \<Rightarrow> u16" where
  "port_flag port ports unit = (case ports of (a, b, c) \<Rightarrow>
     if port = a then 0 else if port = b then unit else if port = c then push_bit 1 unit
     else push_bit 1 unit OR unit)"

definition port_bits :: "u16 \<Rightarrow> u16 \<times> u16 \<times> u16 \<Rightarrow> bool list" where
  "port_bits port ports = (case ports of (a, b, c) \<Rightarrow> fbits (port \<noteq> a \<and> port \<noteq> b \<and> port \<noteq> c) 16 (ucast port))"

lemma put_port_wrote:
  assumes "wrote (snd st) bs"
  shows "\<exists>bits. put_port port ports unit st = Some (fst st OR port_flag port ports unit, bits) \<and>
    wrote bits (bs @ port_bits port ports) \<and> out_byte_size bits = out_byte_size (snd st)"
  using put_field_wrote [OF assms, of 16 True "push_bit 1 unit OR unit" "ucast port"] assms
  by (cases ports; cases st) (auto simp: put_port_def port_flag_def port_bits_def fbits_def)

lemma get_port_reads:
  assumes r: "reads s (port_bits port ports @ rest)"
    and f: "flags AND (push_bit 1 unit OR unit) = port_flag port ports unit"
    and u: "unit \<noteq> 0" "push_bit 1 unit \<noteq> 0" "push_bit 1 unit \<noteq> unit" "push_bit 1 unit OR unit \<noteq> unit"
      "push_bit 1 unit OR unit \<noteq> push_bit 1 unit" "push_bit 1 unit OR unit \<noteq> 0"
  shows "\<exists>s'. get_port flags ports unit s = Some (port, s') \<and> reads s' rest \<and> in_bytes s' = in_bytes s \<and>
    GG_BitInputStream_GetPosition s' = GG_BitInputStream_GetPosition s + length (port_bits port ports)"
  using Read_wbits [of s 16 "ucast port" rest] r f u
  by (cases ports) (auto simp: get_port_def port_flag_def port_bits_def fbits_def take_bit_ucast ucast_ucast_up Let_def
      split: if_splits)

section \<open>IP fields\<close>

definition ip_flag_word :: "GG_Ipv4PacketHeader \<Rightarrow> GG_Ipv4FrameSerializationIpConfig \<Rightarrow> u16" where
  "ip_flag_word ip cfg =
     (if ip_ihl ip \<noteq> 5 then 0x0001 else 0) OR (if ip_dscp ip \<noteq> 0 then 0x0002 else 0) OR
     (if ip_ecn ip \<noteq> 0 then 0x0004 else 0) OR (if ip_flags ip \<noteq> 0 then 0x0008 else 0) OR
     (if ip_fragment_offset ip \<noteq> 0 then 0x0010 else 0) OR (if ip_ttl ip \<noteq> 0 then 0x0020 else 0) OR
     protocol_flag (ip_protocol ip) OR
     (if ip_src_address ip \<noteq> default_src_address cfg then 0x0100 else 0) OR
     (if ip_dst_address ip \<noteq> default_dst_address cfg then 0x0200 else 0)"

definition ip_bits :: "GG_Ipv4PacketHeader \<Rightarrow> GG_Ipv4FrameSerializationIpConfig \<Rightarrow> bool list" where
  "ip_bits ip cfg =
     fbits (ip_ihl ip \<noteq> 5) 4 (ucast (ip_ihl ip)) @ fbits (ip_dscp ip \<noteq> 0) 6 (ucast (ip_dscp ip)) @
     fbits (ip_ecn ip \<noteq> 0) 2 (ucast (ip_ecn ip)) @ fbits (ip_flags ip \<noteq> 0) 3 (ucast (ip_flags ip)) @
     fbits (ip_fragment_offset ip \<noteq> 0) 13 (ucast (ip_fragment_offset ip)) @
     fbits (ip_ttl ip \<noteq> 0) 8 (ucast (ip_ttl ip)) @ protocol_bits (ip_protocol ip) @
     fbits (ip_src_address ip \<noteq> default_src_address cfg) 32 (ip_src_address ip) @
     fbits (ip_dst_address ip \<noteq> default_dst_address cfg) 32 (ip_dst_address ip)"

text \<open>One step of a chain of writes.\<close>

lemma put_step:
  assumes "wrote bits bs" "out_byte_size bits = sz" "n \<le> 32"
    and "\<And>bits'. wrote bits' (bs @ fbits c n v) \<Longrightarrow> out_byte_size bits' = sz \<Longrightarrow>
      \<exists>r. k (f OR (if c then fl else 0), bits') = Some r \<and> P r"
  shows "\<exists>r. put_field c fl v n (f, bits) \<bind> k = Some r \<and> P r"
  using put_field_wrote [of "(f, bits)" bs n c fl v] assms by auto

lemma put_last:
  assumes "wrote bits bs" "out_byte_size bits = sz" "n \<le> 32"
    and "\<And>bits'. wrote bits' (bs @ fbits c n v) \<Longrightarrow> out_byte_size bits' = sz \<Longrightarrow>
      P (f OR (if c then fl else 0), bits')"
  shows "\<exists>r. put_field c fl v n (f, bits) = Some r \<and> P r"
  using put_field_wrote [of "(f, bits)" bs n c fl v] assms by auto

lemma put_protocol_step:
  assumes "wrote bits bs" "out_byte_size bits = sz"
    and "\<And>bits'. wrote bits' (bs @ protocol_bits p) \<Longrightarrow> out_byte_size bits' = sz \<Longrightarrow>
      \<exists>r. k (f OR protocol_flag p, bits') = Some r \<and> P r"
  shows "\<exists>r. put_protocol p (f, bits) \<bind> k = Some r \<and> P r"
  using put_protocol_wrote [of "(f, bits)" bs p] assms by auto

lemma put_port_step:
  assumes "wrote bits bs" "out_byte_size bits = sz"
    and "\<And>bits'. wrote bits' (bs @ port_bits port ports) \<Longrightarrow> out_byte_size bits' = sz \<Longrightarrow>
      \<exists>r. k (f OR port_flag port ports u, bits') = Some r \<and> P r"
  shows "\<exists>r. put_port port ports u (f, bits) \<bind> k = Some r \<and> P r"
  using put_port_wrote [of "(f, bits)" bs port ports u] assms by auto

lemma compress_ip_fields_wrote:
  assumes w: "wrote bits bs" and sz: "out_byte_size bits = sz"
  shows "\<exists>r. compress_ip_fields ip cfg (f, bits) = Some r \<and>
    (fst r = f OR ip_flag_word ip cfg \<and> wrote (snd r) (bs @ ip_bits ip cfg) \<and> out_byte_size (snd r) = sz)"
  unfolding compress_ip_fields_def
  apply (rule put_step [OF w sz], simp)
  apply (erule (1) put_step, simp)+
  apply (erule (1) put_protocol_step)
  apply (erule (1) put_step, simp)
  apply (erule (1) put_last, simp)
  by (simp only: ip_flag_word_def ip_bits_def or.assoc append_assoc fst_conv snd_conv)

text \<open>One step of a chain of reads.\<close>

lemma get_step:
  assumes "reads s (fbits c n v @ rest)" "GG_BitInputStream_GetPosition s = p" "n \<le> 32" "present = c"
    and "\<And>s'. reads s' rest \<Longrightarrow> GG_BitInputStream_GetPosition s' = p + length (fbits c n v) \<Longrightarrow>
      \<exists>r. k (if c then take_bit n v else d) s' = Some r \<and> P r"
  shows "\<exists>r. get_field present n d s \<bind> (\<lambda>(x, s). k x s) = Some r \<and> P r"
  using get_field_reads [OF assms(1,3), of d] assms(2,4,5) by fastforce

lemma get_protocol_step:
  assumes "reads s (protocol_bits pr @ rest)" "GG_BitInputStream_GetPosition s = p"
    and "flags AND 0xC0 = protocol_flag pr"
    and "\<And>s'. reads s' rest \<Longrightarrow> GG_BitInputStream_GetPosition s' = p + length (protocol_bits pr) \<Longrightarrow>
      \<exists>r. k pr s' = Some r \<and> P r"
  shows "\<exists>r. get_protocol flags s \<bind> (\<lambda>(x, s). k x s) = Some r \<and> P r"
  using get_protocol_reads [OF assms(1,3)] assms(2,4) by fastforce

lemma get_port_step:
  assumes "reads s (port_bits port ports @ rest)" "GG_BitInputStream_GetPosition s = p"
    and "flags AND (push_bit 1 u OR u) = port_flag port ports u" "u = 0x0400 \<or> u = 0x1000"
    and "\<And>s'. reads s' rest \<Longrightarrow> GG_BitInputStream_GetPosition s' = p + length (port_bits port ports) \<Longrightarrow>
      \<exists>r. k port s' = Some r \<and> P r"
  shows "\<exists>r. get_port flags ports u s \<bind> (\<lambda>(x, s). k x s) = Some r \<and> P r"
  using get_port_reads [OF assms(1,3)] assms(2,4,5) by fastforce

text \<open>What the flags must say for the fields of a header to be found.\<close>

definition ip_flags_match :: "u16 \<Rightarrow> GG_Ipv4PacketHeader \<Rightarrow> GG_Ipv4FrameSerializationIpConfig \<Rightarrow> bool" where
  "ip_flags_match flags ip cfg \<longleftrightarrow>
     (flags AND 0x0001 \<noteq> 0 \<longleftrightarrow> ip_ihl ip \<noteq> 5) \<and> (flags AND 0x0002 \<noteq> 0 \<longleftrightarrow> ip_dscp ip \<noteq> 0) \<and>
     (flags AND 0x0004 \<noteq> 0 \<longleftrightarrow> ip_ecn ip \<noteq> 0) \<and> (flags AND 0x0008 \<noteq> 0 \<longleftrightarrow> ip_flags ip \<noteq> 0) \<and>
     (flags AND 0x0010 \<noteq> 0 \<longleftrightarrow> ip_fragment_offset ip \<noteq> 0) \<and> (flags AND 0x0020 \<noteq> 0 \<longleftrightarrow> ip_ttl ip \<noteq> 0) \<and>
     flags AND 0x00C0 = protocol_flag (ip_protocol ip) \<and>
     (flags AND 0x0100 \<noteq> 0 \<longleftrightarrow> ip_src_address ip \<noteq> default_src_address cfg) \<and>
     (flags AND 0x0200 \<noteq> 0 \<longleftrightarrow> ip_dst_address ip \<noteq> default_dst_address cfg)"

lemma restored_field:
  assumes "unat (x :: 'a::len word) < 2 ^ n" "LENGTH('a) \<le> LENGTH('b)" "ucast d' = d"
  shows "ucast (if x \<noteq> d then take_bit n (ucast x :: 'b::len word) else d') = x"
proof -
  have "take_bit n (ucast x :: 'b word) = ucast x"
    by (rule bit_word_eqI) (use bit_less_exp [OF assms(1)] in \<open>auto simp: bit_take_bit_iff bit_ucast_iff\<close>)
  with assms ucast_ucast_up [of x] show ?thesis by auto
qed

lemma decompress_ip_fields_reads:
  assumes r: "reads s (ip_bits ip cfg @ rest)" and p: "GG_BitInputStream_GetPosition s = p"
    and m: "ip_flags_match flags ip cfg" and ok: "ip_header_ok ip"
  shows "\<exists>r. decompress_ip_fields flags ident cfg s = Some r \<and>
    (fst r = ip\<lparr>ip_total_length := 0, ip_identification := ident, ip_checksum := 0, ip_options := []\<rparr> \<and>
     reads (snd r) rest \<and> GG_BitInputStream_GetPosition (snd r) = p + length (ip_bits ip cfg))"
proof -
  note m = m [unfolded ip_flags_match_def]
  have ihl: "unat (ip_ihl ip) < 2 ^ 4" using ok by (simp add: ip_header_ok_def)
  note o = ok [unfolded ip_header_ok_def]
  note fields = restored_field [OF ihl, where d = 5 and d' = "5 :: u32"]
    restored_field [of "ip_dscp ip" 6 "0 :: u32" 0] restored_field [of "ip_ecn ip" 2 "0 :: u32" 0]
    restored_field [of "ip_flags ip" 3 "0 :: u32" 0] restored_field [of "ip_fragment_offset ip" 13 "0 :: u32" 0]
    restored_field [of "ip_ttl ip" 8 "0 :: u32" 0]
  show ?thesis
    unfolding decompress_ip_fields_def
    apply (rule get_step [OF r [unfolded ip_bits_def append_assoc] p], simp, use m in simp)
    apply (erule (1) get_step, simp, use m in simp)+
    apply (erule (1) get_protocol_step, use m in simp)
    apply (erule (1) get_step, simp, use m in simp)+
    using o fields unat_less_length [of "ip_ttl ip"]
    by (auto simp: ip_bits_def take_bit_word_eq_self intro!: GG_Ipv4PacketHeader.equality)
qed

section \<open>Options and UDP fields\<close>

definition option_bits :: "bytes \<Rightarrow> bool list" where
  "option_bits os = concat (map (\<lambda>b. wbits 8 (ucast b)) os)"

lemma option_bits_simps [simp]:
  "option_bits [] = []" "option_bits (b # bs) = wbits 8 (ucast b) @ option_bits bs"
  by (simp_all add: option_bits_def)

lemma length_option_bits [simp]: "length (option_bits os) = 8 * length os"
  by (induction os) simp_all

lemma write_options_wrote:
  "wrote bits bs \<Longrightarrow> \<exists>bits'. write_options os bits = Some bits' \<and> wrote bits' (bs @ option_bits os) \<and>
    out_byte_size bits' = out_byte_size bits"
proof (induction os arbitrary: bits bs)
  case (Cons b os)
  from Write_wrote [OF Cons.prems, of 8 "ucast b"] obtain b1 where
    "GG_BitOutputStream_Write bits (ucast b) 8 = Some b1" "wrote b1 (bs @ wbits 8 (ucast b))"
    "out_byte_size b1 = out_byte_size bits" by auto
  with Cons.IH [of b1 "bs @ wbits 8 (ucast b)"] show ?case by auto
qed simp

lemma read_options_reads:
  "reads s (option_bits os @ rest) \<Longrightarrow> \<exists>s'. read_options (length os) s = Some (os, s') \<and> reads s' rest \<and>
    GG_BitInputStream_GetPosition s' = GG_BitInputStream_GetPosition s + 8 * length os"
proof (induction os arbitrary: s)
  case (Cons b os)
  then have "reads s (wbits 8 (ucast b) @ option_bits os @ rest)" by simp
  from Read_wbits [OF this] obtain s1 where
    "GG_BitInputStream_Read s 8 = Some (ucast b, s1)" "reads s1 (option_bits os @ rest)"
    "GG_BitInputStream_GetPosition s1 = GG_BitInputStream_GetPosition s + 8" by (auto simp: take_bit_ucast)
  with Cons.IH [of s1] show ?case by (auto simp: ucast_ucast_up)
qed simp

definition length_elided :: "GG_Ipv4PacketHeader \<Rightarrow> GG_UdpPacketHeader \<Rightarrow> bool" where
  "length_elided ip udp \<longleftrightarrow> 4 * unat (ip_ihl ip) + unat (udp_length udp) = unat (ip_total_length ip)"

definition udp_flag_word ::
  "GG_Ipv4PacketHeader \<Rightarrow> GG_UdpPacketHeader \<Rightarrow> GG_Ipv4FrameSerializationIpConfig \<Rightarrow> u16" where
  "udp_flag_word ip udp cfg =
     port_flag (udp_src_port udp) (udp_src_ports cfg) 0x0400 OR
     port_flag (udp_dst_port udp) (udp_dst_ports cfg) 0x1000 OR
     (if \<not> length_elided ip udp then 0x4000 else 0)"

definition udp_bits ::
  "GG_Ipv4PacketHeader \<Rightarrow> GG_UdpPacketHeader \<Rightarrow> GG_Ipv4FrameSerializationIpConfig \<Rightarrow> bool list" where
  "udp_bits ip udp cfg =
     port_bits (udp_src_port udp) (udp_src_ports cfg) @ port_bits (udp_dst_port udp) (udp_dst_ports cfg) @
     fbits (\<not> length_elided ip udp) 16 (ucast (udp_length udp))"

lemma compress_udp_fields_wrote:
  assumes w: "wrote bits bs" and sz: "out_byte_size bits = sz"
  shows "\<exists>r. compress_udp_fields ip udp cfg (f, bits) = Some r \<and>
    (fst r = f OR udp_flag_word ip udp cfg \<and> wrote (snd r) (bs @ udp_bits ip udp cfg) \<and>
     out_byte_size (snd r) = sz)"
  unfolding compress_udp_fields_def length_elided_def [symmetric]
  apply (rule put_port_step [OF w sz])
  apply (erule (1) put_port_step)
  apply (erule (1) put_last, simp)
  by (simp only: udp_flag_word_def udp_bits_def or.assoc append_assoc fst_conv snd_conv)

definition udp_flags_match ::
  "u16 \<Rightarrow> GG_Ipv4PacketHeader \<Rightarrow> GG_UdpPacketHeader \<Rightarrow> GG_Ipv4FrameSerializationIpConfig \<Rightarrow> bool" where
  "udp_flags_match flags ip udp cfg \<longleftrightarrow>
     flags AND (push_bit 1 0x0400 OR 0x0400) = port_flag (udp_src_port udp) (udp_src_ports cfg) 0x0400 \<and>
     flags AND (push_bit 1 0x1000 OR 0x1000) = port_flag (udp_dst_port udp) (udp_dst_ports cfg) 0x1000 \<and>
     (flags AND 0x4000 \<noteq> 0 \<longleftrightarrow> \<not> length_elided ip udp)"

lemma decompress_udp_fields_reads:
  assumes r: "reads s (udp_bits ip udp cfg @ rest)" and p: "GG_BitInputStream_GetPosition s = p"
    and m: "udp_flags_match flags ip udp cfg"
  shows "\<exists>r. decompress_udp_fields flags cfg s = Some r \<and>
    (fst r = udp\<lparr>udp_length := (if length_elided ip udp then 0 else udp_length udp), udp_checksum := 0\<rparr> \<and>
     reads (snd r) rest \<and> GG_BitInputStream_GetPosition (snd r) = p + length (udp_bits ip udp cfg))"
proof -
  note m = m [unfolded udp_flags_match_def]
  show ?thesis
    unfolding decompress_udp_fields_def
    apply (rule get_port_step [OF r [unfolded udp_bits_def append_assoc] p], use m in blast, simp)
    apply (erule (1) get_port_step, use m in blast, simp)
    apply (erule (1) get_step, simp, use m in blast)
    by (auto simp: udp_bits_def take_bit_ucast ucast_ucast_up intro!: GG_UdpPacketHeader.equality)
qed

section \<open>The flags written are the flags read\<close>

lemma bit_pow2:
  assumes "(w :: u16) = 2 ^ j" "j < 16"
  shows "bit w k \<longleftrightarrow> k = j"
  using assms by (auto simp: bit_exp_iff)

lemma bit_consts:
  fixes k :: nat
  shows "bit (0x0001 :: u16) k \<longleftrightarrow> k = 0"
    "bit (0x0002 :: u16) k \<longleftrightarrow> k = 1" "bit (0x0004 :: u16) k \<longleftrightarrow> k = 2"
    "bit (0x0008 :: u16) k \<longleftrightarrow> k = 3" "bit (0x0010 :: u16) k \<longleftrightarrow> k = 4"
    "bit (0x0020 :: u16) k \<longleftrightarrow> k = 5" "bit (0x0040 :: u16) k \<longleftrightarrow> k = 6"
    "bit (0x0080 :: u16) k \<longleftrightarrow> k = 7" "bit (0x0100 :: u16) k \<longleftrightarrow> k = 8"
    "bit (0x0200 :: u16) k \<longleftrightarrow> k = 9" "bit (0x0400 :: u16) k \<longleftrightarrow> k = 10"
    "bit (0x0800 :: u16) k \<longleftrightarrow> k = 11" "bit (0x1000 :: u16) k \<longleftrightarrow> k = 12"
    "bit (0x2000 :: u16) k \<longleftrightarrow> k = 13" "bit (0x4000 :: u16) k \<longleftrightarrow> k = 14"
    "bit (0x8000 :: u16) k \<longleftrightarrow> k = 15"
  by (rule bit_pow2; simp)+

lemma bit_protocol_flag:
  "bit (protocol_flag p) k \<longleftrightarrow> k = 6 \<and> p \<noteq> 6 \<and> p \<noteq> 1 \<or> k = 7 \<and> p \<noteq> 6 \<and> p \<noteq> 17"
proof -
  have "(0xC0 :: u16) = 0x40 OR 0x80" by simp
  then have c: "bit (0xC0 :: u16) k \<longleftrightarrow> k = 6 \<or> k = 7" by (simp only: bit_or_iff bit_consts)
  show ?thesis
    unfolding protocol_flag_def if_distrib [of "\<lambda>w. bit w k"] c bit_consts by auto
qed

lemma bit_port_flag:
  "bit (port_flag port (a, b, c) 0x0400) k \<longleftrightarrow>
    k = 10 \<and> port \<noteq> a \<and> (port = b \<or> port \<noteq> c) \<or> k = 11 \<and> port \<noteq> a \<and> port \<noteq> b"
  "bit (port_flag port (a, b, c) 0x1000) k \<longleftrightarrow>
    k = 12 \<and> port \<noteq> a \<and> (port = b \<or> port \<noteq> c) \<or> k = 13 \<and> port \<noteq> a \<and> port \<noteq> b"
proof -
  have p: "push_bit 1 (0x0400 :: u16) = 0x0800" "push_bit 1 (0x1000 :: u16) = 0x2000" by simp_all
  show "bit (port_flag port (a, b, c) 0x0400) k \<longleftrightarrow>
      k = 10 \<and> port \<noteq> a \<and> (port = b \<or> port \<noteq> c) \<or> k = 11 \<and> port \<noteq> a \<and> port \<noteq> b"
    "bit (port_flag port (a, b, c) 0x1000) k \<longleftrightarrow>
      k = 12 \<and> port \<noteq> a \<and> (port = b \<or> port \<noteq> c) \<or> k = 13 \<and> port \<noteq> a \<and> port \<noteq> b"
    unfolding port_flag_def p prod.case if_distrib [of "\<lambda>w. bit w k"] bit_or_iff bit_consts by auto
qed

lemma bit_ip_flag_word:
  "bit (ip_flag_word ip cfg) k \<longleftrightarrow>
    k = 0 \<and> ip_ihl ip \<noteq> 5 \<or> k = 1 \<and> ip_dscp ip \<noteq> 0 \<or> k = 2 \<and> ip_ecn ip \<noteq> 0 \<or> k = 3 \<and> ip_flags ip \<noteq> 0 \<or>
    k = 4 \<and> ip_fragment_offset ip \<noteq> 0 \<or> k = 5 \<and> ip_ttl ip \<noteq> 0 \<or> bit (protocol_flag (ip_protocol ip)) k \<or>
    k = 8 \<and> ip_src_address ip \<noteq> default_src_address cfg \<or> k = 9 \<and> ip_dst_address ip \<noteq> default_dst_address cfg"
  unfolding ip_flag_word_def bit_or_iff bit_if bit_consts by auto

lemma bit_udp_flag_word:
  "bit (udp_flag_word ip udp cfg) k \<longleftrightarrow>
    bit (port_flag (udp_src_port udp) (udp_src_ports cfg) 0x0400) k \<or>
    bit (port_flag (udp_dst_port udp) (udp_dst_ports cfg) 0x1000) k \<or> k = 14 \<and> \<not> length_elided ip udp"
  unfolding udp_flag_word_def bit_or_iff bit_if bit_consts by auto

lemma small_flag_bits:
  "bit (udp_flag_word ip udp cfg) k \<Longrightarrow> 10 \<le> k" "bit (ip_flag_word ip cfg) k \<Longrightarrow> k < 10"
  by (cases "udp_src_ports cfg"; cases "udp_dst_ports cfg"; auto simp: bit_udp_flag_word bit_port_flag)
    (auto simp: bit_ip_flag_word bit_protocol_flag)

lemma flags_match:
  assumes "\<And>k. bit flags k \<longleftrightarrow> k = 15 \<or> bit (ip_flag_word ip cfg) k \<or> bit uw k" "\<And>k. bit uw k \<Longrightarrow> 10 \<le> k"
  shows "ip_flags_match flags ip cfg"
proof -
  have b: "bit flags k \<longleftrightarrow> bit (ip_flag_word ip cfg) k" if "k < 10" for k
    using assms(1) [of k] assms(2) [of k] that by auto
  have "flags AND 0x00C0 = protocol_flag (ip_protocol ip)"
    unfolding and_flag_pairs b [of 6, simplified] b [of 7, simplified] bit_ip_flag_word bit_protocol_flag
    by (auto simp: protocol_flag_def)
  then show ?thesis
    unfolding ip_flags_match_def and_flag
    by (simp add: b bit_ip_flag_word bit_protocol_flag)
qed

lemma udp_match:
  assumes "\<And>k. bit flags k \<longleftrightarrow> k = 15 \<or> bit (ip_flag_word ip cfg) k \<or> bit (udp_flag_word ip udp cfg) k"
  shows "udp_flags_match flags ip udp cfg"
proof -
  have b: "bit flags k \<longleftrightarrow> bit (udp_flag_word ip udp cfg) k" if "10 \<le> k" "k < 15" for k
    using assms [of k] small_flag_bits(2) [of ip cfg k] that by auto
  obtain a1 a2 a3 b1 b2 b3 where p: "udp_src_ports cfg = (a1, a2, a3)" "udp_dst_ports cfg = (b1, b2, b3)"
    by (cases "udp_src_ports cfg"; cases "udp_dst_ports cfg")
  show ?thesis
    unfolding udp_flags_match_def and_flag and_flag_pairs
    by (simp add: b bit_udp_flag_word p bit_port_flag) (auto simp: port_flag_def)
qed

section \<open>Compression and decompression\<close>

lemma length_fields:
  "length (fbits c n v) \<le> n" "length (protocol_bits p) \<le> 8" "length (port_bits port ports) \<le> 16"
  by (cases ports; simp add: fbits_def protocol_bits_def port_bits_def)+

lemma length_ip_bits: "length (ip_bits ip cfg) \<le> 108"
  using length_fields(1) [of "ip_ihl ip \<noteq> 5" 4 "ucast (ip_ihl ip)"] length_fields(1) [of "ip_dscp ip \<noteq> 0" 6 "ucast (ip_dscp ip)"]
    length_fields(1) [of "ip_ecn ip \<noteq> 0" 2 "ucast (ip_ecn ip)"] length_fields(1) [of "ip_flags ip \<noteq> 0" 3 "ucast (ip_flags ip)"]
    length_fields(1) [of "ip_fragment_offset ip \<noteq> 0" 13 "ucast (ip_fragment_offset ip)"]
    length_fields(1) [of "ip_ttl ip \<noteq> 0" 8 "ucast (ip_ttl ip)"] length_fields(2) [of "ip_protocol ip"]
    length_fields(1) [of "ip_src_address ip \<noteq> default_src_address cfg" 32 "ip_src_address ip"]
    length_fields(1) [of "ip_dst_address ip \<noteq> default_dst_address cfg" 32 "ip_dst_address ip"]
  by (simp add: ip_bits_def)

lemma length_udp_bits: "length (udp_bits ip udp cfg) \<le> 48"
  using length_fields(3) [of "udp_src_port udp" "udp_src_ports cfg"]
    length_fields(3) [of "udp_dst_port udp" "udp_dst_ports cfg"]
    length_fields(1) [of "\<not> length_elided ip udp" 16 "ucast (udp_length udp)"]
  by (simp add: udp_bits_def)

definition udp_part ::
  "GG_Ipv4PacketHeader \<Rightarrow> GG_UdpPacketHeader option \<Rightarrow> GG_Ipv4FrameSerializationIpConfig \<Rightarrow> bool list" where
  "udp_part ip udp cfg = (case udp of None \<Rightarrow> [] | Some u \<Rightarrow> udp_bits ip u cfg)"

definition udp_flag_part ::
  "GG_Ipv4PacketHeader \<Rightarrow> GG_UdpPacketHeader option \<Rightarrow> GG_Ipv4FrameSerializationIpConfig \<Rightarrow> u16" where
  "udp_flag_part ip udp cfg = (case udp of None \<Rightarrow> 0 | Some u \<Rightarrow> udp_flag_word ip u cfg)"

definition headers_size :: "GG_Ipv4PacketHeader \<Rightarrow> nat" where
  "headers_size ip = 4 * unat (ip_ihl ip) + (if ip_protocol ip = 17 then 8 else 0)"

definition variable_bits ::
  "GG_Ipv4PacketHeader \<Rightarrow> GG_UdpPacketHeader option \<Rightarrow> GG_Ipv4FrameSerializationIpConfig \<Rightarrow> bool list" where
  "variable_bits ip udp cfg = ip_bits ip cfg @ option_bits (ip_options ip) @ udp_part ip udp cfg"

definition compressed_size ::
  "GG_Ipv4PacketHeader \<Rightarrow> GG_UdpPacketHeader option \<Rightarrow> GG_Ipv4FrameSerializationIpConfig \<Rightarrow> nat" where
  "compressed_size ip udp cfg = 6 + (length (variable_bits ip udp cfg) + 7) div 8"

definition headers_ok :: "GG_Ipv4PacketHeader \<Rightarrow> GG_UdpPacketHeader option \<Rightarrow> bool" where
  "headers_ok ip udp \<longleftrightarrow> ip_header_ok ip \<and> (udp \<noteq> None \<longleftrightarrow> ip_protocol ip = 17) \<and>
     headers_size ip \<le> unat (ip_total_length ip)"

lemma compressed_size_le:
  assumes "headers_ok ip udp"
  shows "compressed_size ip udp cfg \<le> headers_size ip"
proof -
  have o: "length (ip_options ip) = 4 * (unat (ip_ihl ip) - 5)" "5 \<le> unat (ip_ihl ip)"
    using assms by (auto simp: headers_ok_def ip_header_ok_def)
  have u: "length (udp_part ip udp cfg) \<le> (if ip_protocol ip = 17 then 48 else 0)"
    using assms length_udp_bits by (auto simp: udp_part_def headers_ok_def split: option.splits)
  have "length (variable_bits ip udp cfg) \<le> 108 + 32 * (unat (ip_ihl ip) - 5) + (if ip_protocol ip = 17 then 48 else 0)"
    using length_ip_bits [of ip cfg] u o by (simp add: variable_bits_def)
  with o show ?thesis by (simp add: compressed_size_def headers_size_def split: if_splits)
qed

lemma CompressHeaders_spec:
  assumes ok: "headers_ok ip udp" and buf: "6 \<le> length buffer"
  shows "\<exists>flags ob. GG_Ipv4_CompressHeaders ip udp cfg buffer =
      Some ([ucast (drop_bit 8 flags), ucast (flags AND 0xFF),
        of_nat ((compressed_size ip udp cfg + (unat (ip_total_length ip) - headers_size ip)) div 256),
        of_nat ((compressed_size ip udp cfg + (unat (ip_total_length ip) - headers_size ip)) mod 256),
        ucast (drop_bit 8 (ip_identification ip)), ucast (ip_identification ip AND 0xFF)] @ ob,
        compressed_size ip udp cfg) \<and>
    flags = 0x8000 OR ip_flag_word ip cfg OR udp_flag_part ip udp cfg \<and>
    length ob = length buffer - 6 \<and>
    (\<forall>k < length (variable_bits ip udp cfg). k < 8 * length ob \<longrightarrow> data_bit ob k = variable_bits ip udp cfg ! k)"
proof -
  let ?o = "GG_BitOutputStream_Init (drop 6 buffer)"
  have o: "length (ip_options ip) = 4 * (unat (ip_ihl ip) - 5)" "5 \<le> ip_ihl ip"
    using ok by (auto simp: headers_ok_def ip_header_ok_def word_le_nat_alt)
  obtain f1 b1 where 1: "compress_ip_fields ip cfg (0x8000, ?o) = Some (f1, b1)"
    "f1 = 0x8000 OR ip_flag_word ip cfg" "wrote b1 (ip_bits ip cfg)" "out_byte_size b1 = length buffer - 6"
    using compress_ip_fields_wrote [OF wrote_Init [of "drop 6 buffer"] refl, of ip cfg "0x8000"]
    by (auto simp: GG_BitOutputStream_Init_def)
  obtain b2 where 2: "write_options (ip_options ip) b1 = Some b2"
    "wrote b2 (ip_bits ip cfg @ option_bits (ip_options ip))" "out_byte_size b2 = length buffer - 6"
    using write_options_wrote [OF 1(3), of "ip_options ip"] 1(4) by auto
  have "\<exists>f3 b3. (case udp of None \<Rightarrow> Some (f1, b2) | Some udp \<Rightarrow> compress_udp_fields ip udp cfg (f1, b2)) = Some (f3, b3) \<and>
      f3 = f1 OR udp_flag_part ip udp cfg \<and> wrote b3 (variable_bits ip udp cfg) \<and> out_byte_size b3 = length buffer - 6"
    using compress_udp_fields_wrote [OF 2(2,3), of ip _ cfg f1] 2
    by (cases udp) (auto simp: udp_flag_part_def udp_part_def variable_bits_def)
  then obtain f3 b3 where 3: "(case udp of None \<Rightarrow> Some (f1, b2) | Some udp \<Rightarrow> compress_udp_fields ip udp cfg (f1, b2)) = Some (f3, b3)"
    "f3 = f1 OR udp_flag_part ip udp cfg" "wrote b3 (variable_bits ip udp cfg)" "out_byte_size b3 = length buffer - 6"
    by blast
  obtain b4 where 4: "GG_BitOutputStream_Flush b3 = Some b4" "length (out_bytes b4) = length buffer - 6"
    "\<forall>k < length (variable_bits ip udp cfg). k < 8 * length (out_bytes b4) \<longrightarrow>
      data_bit (out_bytes b4) k = variable_bits ip udp cfg ! k"
    using Flush_wrote [OF 3(3)] 3(4) by auto
  have hs: "4 * unat (ip_ihl ip) + (if ip_protocol ip = GG_IPV4_PROTOCOL_UDP then GG_UDP_HEADER_SIZE else 0) =
      headers_size ip" by (simp add: headers_size_def)
  have le: "headers_size ip \<le> unat (ip_total_length ip)" using ok by (simp add: headers_ok_def)
  show ?thesis
  proof (intro exI [of _ f3] exI [of _ "out_bytes b4"] conjI)
    show "f3 = 0x8000 OR ip_flag_word ip cfg OR udp_flag_part ip udp cfg"
      using 1(2) 3(2) by (simp add: or.assoc)
  qed (use 1(1) 2(1) 3(1) 4 o le buf wrote_position [OF 3(3)] in \<open>simp_all add: compressed_size_def
      GG_Ipv4_CompressHeaders_def Let_def hs del: GG_IPV4_PROTOCOL_UDP_def GG_UDP_HEADER_SIZE_def\<close>)
qed

lemma data_bit_take:
  "k < n \<Longrightarrow> (n + 7) div 8 \<le> length ob \<Longrightarrow> data_bit (take ((n + 7) div 8) ob @ rest) k = data_bit ob k"
  by (auto simp: data_bit_def nth_append)

lemma DecompressHeaders_spec:
  fixes ip udp cfg ob payload flags
  defines "vb \<equiv> variable_bits ip udp cfg"
  assumes ok: "headers_ok ip udp"
    and flags: "flags = 0x8000 OR ip_flag_word ip cfg OR udp_flag_part ip udp cfg"
    and ob: "(length vb + 7) div 8 \<le> length ob"
    and bits: "\<And>k. k < length vb \<Longrightarrow> data_bit ob k = vb ! k"
    and pl: "length payload = unat (ip_total_length ip) - headers_size ip"
  shows "GG_Ipv4_DecompressHeaders
      ([ucast (drop_bit 8 flags), ucast (flags AND 0xFF), t1, t2,
        ucast (drop_bit 8 (ip_identification ip)), ucast (ip_identification ip AND 0xFF)] @
       take ((length vb + 7) div 8) ob @ payload) cfg =
    Some (Inr (ip\<lparr>ip_checksum := 0\<rparr>,
      map_option (\<lambda>u. u\<lparr>udp_checksum := 0,
        udp_length := (if length_elided ip u then of_nat (length payload) - 8 else udp_length u)\<rparr>) udp,
      compressed_size ip udp cfg))"
proof -
  let ?var = "take ((length vb + 7) div 8) ob @ payload"
  let ?s = "GG_BitInputStream_Init ?var"
  have fb: "bit flags k \<longleftrightarrow> k = 15 \<or> bit (ip_flag_word ip cfg) k \<or> bit (udp_flag_part ip udp cfg) k" for k
    unfolding flags bit_or_iff bit_consts by blast
  have um: "10 \<le> k" if "bit (udp_flag_part ip udp cfg) k" for k
    using that small_flag_bits(1) by (auto simp: udp_flag_part_def split: option.splits)
  note m = flags_match [OF fb um]
  have r0: "reads ?s (ip_bits ip cfg @ option_bits (ip_options ip) @ udp_part ip udp cfg)"
    using bits data_bit_take [OF _ ob] Init_in_inv [of ?var]
    by (auto simp: reads_def GG_BitInputStream_Init_def GG_BitInputStream_GetPosition_def vb_def variable_bits_def)
  have p0: "GG_BitInputStream_GetPosition ?s = 0"
    by (simp add: GG_BitInputStream_Init_def GG_BitInputStream_GetPosition_def)
  have iok: "ip_header_ok ip" using ok by (simp add: headers_ok_def)
  let ?ip = "ip\<lparr>ip_total_length := 0, ip_checksum := 0, ip_options := []\<rparr>"
  obtain s1 where 1: "decompress_ip_fields flags (ip_identification ip) cfg ?s = Some (?ip, s1)"
    "reads s1 (option_bits (ip_options ip) @ udp_part ip udp cfg)"
    "GG_BitInputStream_GetPosition s1 = length (ip_bits ip cfg)"
    using decompress_ip_fields_reads [OF r0 p0 m iok, of "ip_identification ip"] by auto
  have o: "length (ip_options ip) = 4 * (unat (ip_ihl ip) - 5)" "5 \<le> unat (ip_ihl ip)"
    using iok by (auto simp: ip_header_ok_def)
  obtain s2 where 2: "read_options (length (ip_options ip)) s1 = Some (ip_options ip, s2)" "reads s2 (udp_part ip udp cfg)"
    "GG_BitInputStream_GetPosition s2 = length (ip_bits ip cfg) + 8 * length (ip_options ip)"
    using read_options_reads [OF 1(2)] 1(3) by auto
  have "\<exists>s3. (if ip_protocol ip = 17
      then map_option (\<lambda>(udp, bits). (Some udp, bits)) (decompress_udp_fields flags cfg s2) else Some (None, s2)) =
      Some (map_option (\<lambda>u. u\<lparr>udp_length := (if length_elided ip u then 0 else udp_length u), udp_checksum := 0\<rparr>) udp, s3) \<and>
      GG_BitInputStream_GetPosition s3 = length vb \<and>
      (\<forall>u. udp = Some u \<longrightarrow> (flags AND 0x4000 \<noteq> 0 \<longleftrightarrow> \<not> length_elided ip u))"
  proof (cases udp)
    case None
    with ok 2 show ?thesis by (auto simp: headers_ok_def vb_def variable_bits_def udp_part_def)
  next
    case (Some u)
    have fu: "bit flags k \<longleftrightarrow> k = 15 \<or> bit (ip_flag_word ip cfg) k \<or> bit (udp_flag_word ip u cfg) k" for k
      using fb [of k] Some by (simp add: udp_flag_part_def)
    note um = udp_match [OF fu]
    have "reads s2 (udp_bits ip u cfg @ [])" using 2(2) Some by (simp add: udp_part_def)
    from decompress_udp_fields_reads [OF this 2(3) um] show ?thesis
      using ok Some um by (auto simp: headers_ok_def vb_def variable_bits_def udp_part_def udp_flags_match_def)
  qed
  then obtain s3 where 3: "(if ip_protocol ip = 17
      then map_option (\<lambda>(udp, bits). (Some udp, bits)) (decompress_udp_fields flags cfg s2) else Some (None, s2)) =
      Some (map_option (\<lambda>u. u\<lparr>udp_length := (if length_elided ip u then 0 else udp_length u), udp_checksum := 0\<rparr>) udp, s3)"
    "GG_BitInputStream_GetPosition s3 = length vb"
    "\<And>u. udp = Some u \<Longrightarrow> (flags AND 0x4000 \<noteq> 0 \<longleftrightarrow> \<not> length_elided ip u)"
    by blast
  have fl: "GG_BytesToInt16Be (ucast (drop_bit 8 v) # ucast (v AND 0xFF) # rest) 0 = v" for v rest
    using be16_of_bytes [of v] by (simp add: GG_BytesToInt16Be_def ucast_and_FF)
  have id: "GG_BytesToInt16Be (a # b # c # d # ucast (drop_bit 8 v) # ucast (v AND 0xFF) # rest) 4 = v" for a b c d v rest
    using be16_of_bytes [of v] by (simp add: GG_BytesToInt16Be_def ucast_and_FF)
  have tl: "headers_size ip + length payload = unat (ip_total_length ip)" using pl ok by (simp add: headers_ok_def)
  have cs: "compressed_size ip udp cfg = 6 + (length vb + 7) div 8" by (simp add: compressed_size_def vb_def)
  have len: "length (take ((length vb + 7) div 8) ob) = (length vb + 7) div 8" using ob by simp
  have tl16: "of_nat (headers_size ip + length payload) = ip_total_length ip" unfolding tl by simp
  have ipeq: "?ip\<lparr>ip_options := ip_options ip, ip_total_length := ip_total_length ip\<rparr> = ip\<lparr>ip_checksum := 0\<rparr>"
    by simp
  show ?thesis
  proof (cases udp)
    case None
    then have np: "ip_protocol ip \<noteq> 17" using ok by (auto simp: headers_ok_def)
    with None 1(1) 2(1) 3(1,2) o tl16 len cs show ?thesis
      by (simp add: GG_Ipv4_DecompressHeaders_def fl id headers_size_def)
  next
    case (Some u)
    then have np: "ip_protocol ip = 17" using ok by (auto simp: headers_ok_def)
    with Some 1(1) 2(1) 3(1,2) 3(3) [OF Some] o tl16 len cs show ?thesis
      by (simp add: GG_Ipv4_DecompressHeaders_def fl id headers_size_def)
  qed
qed

end
