(* ===== verification/Ipv4_Framing.thy ===== *)
theory Ipv4_Framing
  imports Ipv4_Compression
begin

text \<open>
  The frame assembler and the frame serializer: the packets written to a byte stream by the
  serializer come out of the assembler one by one, in order, however the stream is cut into
  pieces on the way.
\<close>

section \<open>The assembler invariant\<close>

definition asm_ok :: "GG_Ipv4FrameAssembler \<Rightarrow> bool" where
  "asm_ok a \<longleftrightarrow> length (asm_buffer a) = asm_buffer_size a \<and> 20 \<le> asm_buffer_size a \<and>
     (asm_skip a \<noteq> 0 \<longrightarrow> asm_payload_size a = 0 \<and> asm_packet_size a = 0) \<and>
     (if asm_packet_size a = 0 then asm_payload_size a < 4
      else 4 \<le> asm_payload_size a \<and> asm_payload_size a < asm_packet_size a \<and>
        asm_packet_size a \<le> asm_buffer_size a)"

text \<open>The frame a complete packet turns into.\<close>

definition frame_of ::
  "GG_Ipv4FrameSerializationIpConfig option \<Rightarrow> GG_Ipv4FrameAssemblerIpMap option \<Rightarrow> bytes \<Rightarrow>
   (GG_Result \<times> bytes option) option" where
  "frame_of cfg mp x =
     packet_frame \<lparr>asm_ip_config = cfg, asm_ip_map = mp, asm_skip = 0, asm_payload_size = length x,
       asm_packet_size = length x, asm_buffer_size = length x, asm_buffer = x\<rparr>"

lemma packet_frame_eq:
  assumes "asm_packet_size a \<le> length (asm_buffer a)" "0 < asm_packet_size a"
  shows "packet_frame a = frame_of (asm_ip_config a) (asm_ip_map a) (take (asm_packet_size a) (asm_buffer a))"
proof -
  have "take (asm_packet_size a) (asm_buffer a) ! 0 = asm_buffer a ! 0"
    "length (take (asm_packet_size a) (asm_buffer a)) = asm_packet_size a" using assms by auto
  then show ?thesis
    by (cases "asm_ip_config a") (simp_all add: frame_of_def packet_frame_def
        GG_Ipv4FrameAssembler_CopyAndEmitPacket_def GG_Ipv4FrameAssembler_DecompressAndEmitPacket_def)
qed

text \<open>
  \<open>pend a p\<close>: the assembler is between two feeds, has received the first bytes \<open>p\<close> of a packet and
  skips nothing.
\<close>

definition pend :: "GG_Ipv4FrameAssembler \<Rightarrow> bytes \<Rightarrow> bool" where
  "pend a p \<longleftrightarrow> asm_ok a \<and> asm_skip a = 0 \<and> asm_payload_size a = length p \<and>
     take (length p) (asm_buffer a) = p \<and>
     asm_packet_size a = (if length p < 4 then 0 else unat (GG_BytesToInt16Be p 2))"

text \<open>A packet as it is on the wire, for an assembler with a buffer of \<open>n\<close> bytes.\<close>

definition wire_ok :: "nat \<Rightarrow> bytes \<Rightarrow> bool" where
  "wire_ok n x \<longleftrightarrow> 4 \<le> length x \<and> length x \<le> n \<and> unat (GG_BytesToInt16Be x 2) = length x"

lemma be16_prefix: "4 \<le> length p \<Longrightarrow> GG_BytesToInt16Be (p @ q) 2 = GG_BytesToInt16Be p 2"
  by (simp add: GG_BytesToInt16Be_def nth_append)

lemma pend_feed_buffer:
  assumes "pend a p" and x: "wire_ok (asm_buffer_size a) (p @ q)" and "q \<noteq> []"
  shows "GG_Ipv4FrameAssembler_GetFeedBuffer a =
    Some (if length p < 4 then 4 - length p else asm_buffer_size a - length p)"
  using assms
  by (auto simp: pend_def asm_ok_def GG_Ipv4FrameAssembler_GetFeedBuffer_def wire_ok_def nat_diff_distrib)

lemma take_memcpy_append:
  assumes "length p + length d \<le> length buf" "take (length p) buf = p" "n \<le> length d"
  shows "take (length p + n) (memcpy_at buf (length p) d) = p @ take n d"
  using assms by (simp add: memcpy_at_def)

text \<open>The end of a feed: \<open>p\<close> bytes of the packet are there, of \<open>t\<close> more \<open>n\<close> are taken.\<close>

lemma feed_packet_step:
  assumes len: "length (asm_buffer b) = asm_buffer_size b" "20 \<le> asm_buffer_size b" and sk: "asm_skip b = 0"
    and x: "wire_ok (asm_buffer_size b) (p @ q)" and p4: "4 \<le> length p"
    and sz: "asm_payload_size b = length p" "asm_packet_size b = length (p @ q)"
    and tk: "take (length p + n) (asm_buffer b) = p @ take n q"
    and n: "n = (if c0 < ds then min (ds - c0) (length q) else 0)"
  shows "n < length q \<Longrightarrow> \<exists>a'. feed_packet c0 ds b = Some (GG_SUCCESS, c0 + n, None, a') \<and>
      pend a' (p @ take n q) \<and> asm_buffer_size a' = asm_buffer_size b \<and>
      asm_ip_config a' = asm_ip_config b \<and> asm_ip_map a' = asm_ip_map b"
    and "n = length q \<Longrightarrow> frame_of (asm_ip_config b) (asm_ip_map b) (p @ q) = Some (r, f) \<Longrightarrow>
      \<exists>a'. feed_packet c0 ds b = Some (r, c0 + n, f, a') \<and> pend a' [] \<and>
      asm_buffer_size a' = asm_buffer_size b \<and> asm_ip_config a' = asm_ip_config b \<and> asm_ip_map a' = asm_ip_map b"
proof -
  let ?b = "b\<lparr>asm_payload_size := length p + n\<rparr>"
  have nq: "n \<le> length q" using n by auto
  have w: "(if c0 < ds then min (ds - c0) (asm_packet_size b - asm_payload_size b) else 0) = n"
    using n sz by simp
  have be: "unat (GG_BytesToInt16Be (p @ take n q) 2) = length (p @ q)"
    using x be16_prefix [OF p4] by (simp add: wire_ok_def)
  have fp: "feed_packet c0 ds b = (if length p + n = length (p @ q)
      then map_option (\<lambda>(result, frame, self). (result, c0 + n, frame, self)) (GG_Ipv4FrameAssembler_EmitPacket ?b)
      else Some (GG_SUCCESS, c0 + n, None, ?b))"
    unfolding feed_packet_def Let_def w using sz by simp
  show "\<exists>a'. feed_packet c0 ds b = Some (GG_SUCCESS, c0 + n, None, a') \<and>
      pend a' (p @ take n q) \<and> asm_buffer_size a' = asm_buffer_size b \<and>
      asm_ip_config a' = asm_ip_config b \<and> asm_ip_map a' = asm_ip_map b" if "n < length q"
    using that len sk p4 sz be tk x
    by (intro exI [of _ ?b]) (auto simp: fp pend_def asm_ok_def wire_ok_def)
  assume full: "n = length q" and fr: "frame_of (asm_ip_config b) (asm_ip_map b) (p @ q) = Some (r, f)"
  have "asm_packet_size ?b \<le> length (asm_buffer ?b)" "0 < asm_packet_size ?b"
    "take (asm_packet_size ?b) (asm_buffer ?b) = p @ q"
    using x sz len full tk p4 by (auto simp: wire_ok_def)
  with packet_frame_eq [of ?b] fr have "packet_frame ?b = Some (r, f)" by simp
  with full fp len sk show "\<exists>a'. feed_packet c0 ds b = Some (r, c0 + n, f, a') \<and> pend a' [] \<and>
      asm_buffer_size a' = asm_buffer_size b \<and> asm_ip_config a' = asm_ip_config b \<and> asm_ip_map a' = asm_ip_map b"
    by (simp add: GG_Ipv4FrameAssembler_EmitPacket_def pend_def asm_ok_def)
qed

lemma feed_step:
  assumes p: "pend a p" and x: "wire_ok (asm_buffer_size a) (p @ q)" and q: "q \<noteq> []"
    and d: "length d \<le> (if length p < 4 then 4 - length p else asm_buffer_size a - length p)"
    and c: "c = min (length d) (length q)" and dq: "take c d = take c q" and "d \<noteq> []"
  shows "c < length q \<Longrightarrow> \<exists>a'. GG_Ipv4FrameAssembler_Feed d a = Some (GG_SUCCESS, c, None, a') \<and>
      pend a' (p @ take c q) \<and> asm_buffer_size a' = asm_buffer_size a \<and>
      asm_ip_config a' = asm_ip_config a \<and> asm_ip_map a' = asm_ip_map a"
    and "c = length q \<Longrightarrow> frame_of (asm_ip_config a) (asm_ip_map a) (p @ q) = Some (r, f) \<Longrightarrow>
      \<exists>a'. GG_Ipv4FrameAssembler_Feed d a = Some (r, c, f, a') \<and> pend a' [] \<and>
      asm_buffer_size a' = asm_buffer_size a \<and> asm_ip_config a' = asm_ip_config a \<and> asm_ip_map a' = asm_ip_map a"
proof -
  let ?b = "a\<lparr>asm_buffer := memcpy_at (asm_buffer a) (length p) d\<rparr>"
  note pd = p [unfolded pend_def asm_ok_def]
  note xd = x [unfolded wire_ok_def]
  have fit: "length p + length d \<le> length (asm_buffer a)" using d pd by (auto split: if_splits)
  have tk: "take (length p + n) (asm_buffer ?b) = p @ take n d" if "n \<le> length d" for n
    using take_memcpy_append [OF fit _ that] pd by simp
  have lb: "length (asm_buffer ?b) = asm_buffer_size a" using fit pd by simp
  consider (short) "length p + length d < 4" | (header) "length p < 4" "length p + length d = 4" | (body) "4 \<le> length p"
    using d by atomize_elim (auto split: if_splits)
  then have "(c < length q \<longrightarrow> (\<exists>a'. GG_Ipv4FrameAssembler_Feed d a = Some (GG_SUCCESS, c, None, a') \<and>
      pend a' (p @ take c q) \<and> asm_buffer_size a' = asm_buffer_size a \<and>
      asm_ip_config a' = asm_ip_config a \<and> asm_ip_map a' = asm_ip_map a)) \<and>
    (c = length q \<longrightarrow> frame_of (asm_ip_config a) (asm_ip_map a) (p @ q) = Some (r, f) \<longrightarrow>
      (\<exists>a'. GG_Ipv4FrameAssembler_Feed d a = Some (r, c, f, a') \<and> pend a' [] \<and>
      asm_buffer_size a' = asm_buffer_size a \<and> asm_ip_config a' = asm_ip_config a \<and> asm_ip_map a' = asm_ip_map a))"
  proof cases
    case short
    let ?a = "?b\<lparr>asm_payload_size := length p + length d\<rparr>"
    have cd: "c = length d" "c < length q" using short xd c by auto
    then have td: "take c q = d" using dq by simp
    have "GG_Ipv4FrameAssembler_Feed d a = Some (GG_SUCCESS, length d, None, ?a)"
      using short pd by (auto simp: GG_Ipv4FrameAssembler_Feed_def Let_def)
    moreover have "pend ?a (p @ d)"
      using short pd lb tk [of "length d"] by (auto simp: pend_def asm_ok_def)
    ultimately show ?thesis using cd td by auto
  next
    case header
    let ?p = "p @ d" and ?q = "drop (length d) q"
    have cd: "c = length d" using header xd c by auto
    then have td: "take (length d) q = d" using dq by simp
    then have pq: "?p @ ?q = p @ q" by (metis append.assoc append_take_drop_id)
    have b4: "take 4 (asm_buffer ?b) = ?p" using tk [of "length d"] header by simp
    have "GG_BytesToInt16Be (asm_buffer ?b) 2 = GG_BytesToInt16Be (p @ q) 2"
      using be16_prefix [of ?p "drop 4 (asm_buffer ?b)"] be16_prefix [of ?p ?q] b4 header pq
      by (metis append_take_drop_id length_append order_refl)
    then have pk: "unat (GG_BytesToInt16Be (asm_buffer ?b) 2) = length (?p @ ?q)" using xd pq by simp
    let ?c = "?b\<lparr>asm_payload_size := 4, asm_packet_size := length (?p @ ?q)\<rparr>"
    have ld: "4 - length p = length d" using header by simp
    have feed: "GG_Ipv4FrameAssembler_Feed d a = feed_packet (length d) (length d) ?c"
      using header pd pk xd ld by (simp add: GG_Ipv4FrameAssembler_Feed_def Let_def pq)
    have st: "length (asm_buffer ?c) = asm_buffer_size ?c" "20 \<le> asm_buffer_size ?c" "asm_skip ?c = 0"
      "wire_ok (asm_buffer_size ?c) (?p @ ?q)" "4 \<le> length ?p" "asm_payload_size ?c = length ?p"
      "asm_packet_size ?c = length (?p @ ?q)" "take (length ?p + 0) (asm_buffer ?c) = ?p @ take 0 ?q"
      "0 = (if length d < length d then min (length d - length d) (length ?q) else 0)"
      using lb pd x pq header b4 by auto
    from feed_packet_step(1) [OF st] feed_packet_step(2) [OF st, of r f] show ?thesis
      using cd td by (auto simp: feed pq)
  next
    case body
    have "asm_packet_size a \<noteq> 0" using body pd by (auto split: if_splits)
    have feed: "GG_Ipv4FrameAssembler_Feed d a = feed_packet 0 (length d) ?b"
      using body pd \<open>asm_packet_size a \<noteq> 0\<close> by (simp add: GG_Ipv4FrameAssembler_Feed_def Let_def)
    have be: "unat (GG_BytesToInt16Be p 2) = length (p @ q)" using xd be16_prefix [OF body, of q] by simp
    have st: "length (asm_buffer ?b) = asm_buffer_size ?b" "20 \<le> asm_buffer_size ?b" "asm_skip ?b = 0"
      "wire_ok (asm_buffer_size ?b) (p @ q)" "4 \<le> length p" "asm_payload_size ?b = length p"
      "asm_packet_size ?b = length (p @ q)" "take (length p + c) (asm_buffer ?b) = p @ take c q"
      "c = (if 0 < length d then min (length d - 0) (length q) else 0)"
      using lb pd x body be tk [of c] c dq \<open>d \<noteq> []\<close> by auto
    from feed_packet_step(1) [OF st] feed_packet_step(2) [OF st, of r f] show ?thesis by (simp add: feed)
  qed
  then show "c < length q \<Longrightarrow> \<exists>a'. GG_Ipv4FrameAssembler_Feed d a = Some (GG_SUCCESS, c, None, a') \<and>
      pend a' (p @ take c q) \<and> asm_buffer_size a' = asm_buffer_size a \<and>
      asm_ip_config a' = asm_ip_config a \<and> asm_ip_map a' = asm_ip_map a"
    and "c = length q \<Longrightarrow> frame_of (asm_ip_config a) (asm_ip_map a) (p @ q) = Some (r, f) \<Longrightarrow>
      \<exists>a'. GG_Ipv4FrameAssembler_Feed d a = Some (r, c, f, a') \<and> pend a' [] \<and>
      asm_buffer_size a' = asm_buffer_size a \<and> asm_ip_config a' = asm_ip_config a \<and> asm_ip_map a' = asm_ip_map a"
    by blast+
qed

section \<open>Assembling a stream\<close>

text \<open>
  Gives a piece of the byte stream to an assembler, as the Gattlink client does: as much as the
  feed buffer takes, again and again, until all is consumed. The frames that come out are
  collected.
\<close>

function assemble :: "GG_Ipv4FrameAssembler \<Rightarrow> bytes \<Rightarrow> (bytes list \<times> GG_Ipv4FrameAssembler) option" where
  "assemble a data =
     (if data = [] then Some ([], a)
      else do {
        n \<leftarrow> GG_Ipv4FrameAssembler_GetFeedBuffer a;
        (result, consumed, frame, a) \<leftarrow> GG_Ipv4FrameAssembler_Feed (take n data) a;
        if consumed = 0 then Some ([], a)
        else do {
          (frames, a) \<leftarrow> assemble a (drop consumed data);
          Some ((case frame of None \<Rightarrow> [] | Some f \<Rightarrow> [f]) @ frames, a)
        }
      })"
  by pat_completeness auto
termination by (relation "measure (length \<circ> snd)") auto

declare assemble.simps [simp del]

fun assemble_pieces :: "GG_Ipv4FrameAssembler \<Rightarrow> bytes list \<Rightarrow> (bytes list \<times> GG_Ipv4FrameAssembler) option" where
  "assemble_pieces a [] = Some ([], a)"
| "assemble_pieces a (v # vs) = do {
     (fs, a) \<leftarrow> assemble a v;
     (gs, a) \<leftarrow> assemble_pieces a vs;
     Some (fs @ gs, a)
   }"

definition frames_of ::
  "GG_Ipv4FrameSerializationIpConfig option \<Rightarrow> GG_Ipv4FrameAssemblerIpMap option \<Rightarrow> bytes list \<Rightarrow> bytes list" where
  "frames_of cfg mp xs =
     concat (map (\<lambda>x. case frame_of cfg mp x of Some (r, Some f) \<Rightarrow> [f] | _ \<Rightarrow> []) xs)"

text \<open>
  The assembler after a part \<open>C\<close> of the stream of the packets \<open>xs\<close>: the packets in \<open>C\<close> have come out,
  the rest of \<open>C\<close> is pending.
\<close>

definition progress ::
  "GG_Ipv4FrameSerializationIpConfig option \<Rightarrow> GG_Ipv4FrameAssemblerIpMap option \<Rightarrow> nat \<Rightarrow>
   bytes list \<Rightarrow> bytes \<Rightarrow> bytes list \<Rightarrow> GG_Ipv4FrameAssembler \<Rightarrow> bool" where
  "progress cfg mp n xs C out a \<longleftrightarrow>
     asm_ip_config a = cfg \<and> asm_ip_map a = mp \<and> asm_buffer_size a = n \<and>
     (\<exists>done p todo. xs = done @ todo \<and> out = frames_of cfg mp done \<and> C = concat done @ p \<and> pend a p \<and>
        (case todo of [] \<Rightarrow> p = [] | x # _ \<Rightarrow> \<exists>q. q \<noteq> [] \<and> x = p @ q))"

lemma frames_of_append: "frames_of cfg mp (xs @ ys) = frames_of cfg mp xs @ frames_of cfg mp ys"
  by (simp add: frames_of_def)

lemma progress_within:
  assumes "asm_ip_config a = cfg" "asm_ip_map a = mp" "asm_buffer_size a = n" "pend a p"
    and "xs = done @ (p @ q) # todo" "q \<noteq> []"
  shows "progress cfg mp n xs (concat done @ p) (frames_of cfg mp done) a"
  unfolding progress_def using assms by (intro conjI exI [of _ "done"] exI [of _ p] exI [of _ "(p @ q) # todo"]) auto

lemma progress_between:
  assumes "asm_ip_config a = cfg" "asm_ip_map a = mp" "asm_buffer_size a = n" "pend a []"
    and "xs = done @ todo" "[] \<notin> set todo"
  shows "progress cfg mp n xs (concat done) (frames_of cfg mp done) a"
  unfolding progress_def using assms
  by (intro conjI exI [of _ "done"] exI [of _ "[]"] exI [of _ todo]) (auto split: list.splits)

text \<open>One turn of a loop that feeds the stream: something is consumed, at most one packet comes out.\<close>

lemma progress_step:
  assumes pr: "progress cfg mp n xs C out a" and st: "C @ v @ w = concat xs" and v: "v \<noteq> []"
    and ok: "\<forall>x \<in> set xs. wire_ok n x \<and> frame_of cfg mp x \<noteq> None"
  shows "\<exists>m r c f a'. GG_Ipv4FrameAssembler_GetFeedBuffer a = Some m \<and> 0 < m \<and>
    GG_Ipv4FrameAssembler_Feed (take m v) a = Some (r, c, f, a') \<and> 0 < c \<and> c \<le> length v \<and>
    progress cfg mp n xs (C @ take c v) (out @ (case f of None \<Rightarrow> [] | Some f \<Rightarrow> [f])) a'"
proof -
  from pr obtain dn p todo where s: "asm_ip_config a = cfg" "asm_ip_map a = mp" "asm_buffer_size a = n"
    "xs = dn @ todo" "out = frames_of cfg mp dn" "C = concat dn @ p" "pend a p"
    "case todo of [] \<Rightarrow> p = [] | x # _ \<Rightarrow> \<exists>q. q \<noteq> [] \<and> x = p @ q"
    unfolding progress_def by blast
  have "todo \<noteq> []" using s v st by auto
  then obtain q todo' where q: "todo = (p @ q) # todo'" "q \<noteq> []" using s(8) by (cases todo) auto
  have sq: "v @ w = q @ concat todo'" using st s q by simp
  have wok: "wire_ok (asm_buffer_size a) (p @ q)" and fok: "frame_of cfg mp (p @ q) \<noteq> None"
    using ok s q by auto
  define m where "m = (if length p < 4 then 4 - length p else asm_buffer_size a - length p)"
  have gb: "GG_Ipv4FrameAssembler_GetFeedBuffer a = Some m"
    using pend_feed_buffer [OF s(7) wok q(2)] by (simp add: m_def)
  have m0: "0 < m" using wok q(2) by (cases q) (auto simp: m_def wire_ok_def)
  define d where "d = take m v"
  define c where "c = min (length d) (length q)"
  have d: "length d \<le> (if length p < 4 then 4 - length p else asm_buffer_size a - length p)" "d \<noteq> []"
    using v m0 by (auto simp: d_def m_def)
  have c0: "0 < c" "c \<le> length v" using d(2) q(2) by (auto simp: c_def d_def)
  have tv: "take c v = take c q"
  proof -
    have "take c (v @ w) = take c (q @ concat todo')" by (simp only: sq)
    then show ?thesis using c0 by (simp add: c_def)
  qed
  then have dq: "take c d = take c q" by (simp add: c_def d_def)
  note step = feed_step [OF s(7) wok q(2) d(1) c_def dq d(2)]
  have "\<exists>r f a'. GG_Ipv4FrameAssembler_Feed d a = Some (r, c, f, a') \<and>
    progress cfg mp n xs (C @ take c v) (out @ (case f of None \<Rightarrow> [] | Some f \<Rightarrow> [f])) a'"
  proof (cases "c < length q")
    case True
    from step(1) [OF True] obtain a' where a': "GG_Ipv4FrameAssembler_Feed d a = Some (GG_SUCCESS, c, None, a')"
      "pend a' (p @ take c q)" "asm_buffer_size a' = n" "asm_ip_config a' = cfg" "asm_ip_map a' = mp"
      using s by auto
    have "progress cfg mp n xs (C @ take c v) out a'"
      using progress_within [OF a'(4,5,3,2), of xs dn "drop c q" todo'] s q tv True by simp
    with a'(1) show ?thesis by auto
  next
    case False
    then have cq: "c = length q" by (simp add: c_def)
    obtain r f where rf: "frame_of cfg mp (p @ q) = Some (r, f)" using fok by auto
    from step(2) [OF cq] rf obtain a' where a': "GG_Ipv4FrameAssembler_Feed d a = Some (r, c, f, a')"
      "pend a' []" "asm_buffer_size a' = n" "asm_ip_config a' = cfg" "asm_ip_map a' = mp"
      using s by auto
    have nonempty: "[] \<notin> set todo'" using bspec [OF ok, of "[]"] s q by (auto simp: wire_ok_def)
    have "progress cfg mp n xs (C @ take c v) (out @ (case f of None \<Rightarrow> [] | Some f \<Rightarrow> [f])) a'"
      using progress_between [OF a'(4,5,3,2), of xs "dn @ [p @ q]" todo'] s q tv cq rf nonempty
      by (auto simp: frames_of_append frames_of_def split: option.splits)
    with a'(1) show ?thesis by blast
  qed
  with gb m0 c0 show ?thesis by (auto simp: d_def)
qed

lemma assemble_progress:
  assumes "progress cfg mp n xs C out a" and "C @ v @ w = concat xs"
    and ok: "\<forall>x \<in> set xs. wire_ok n x \<and> frame_of cfg mp x \<noteq> None"
  shows "\<exists>fs a'. assemble a v = Some (fs, a') \<and> progress cfg mp n xs (C @ v) (out @ fs) a'"
  using assms(1,2)
proof (induction "length v" arbitrary: v C out a rule: less_induct)
  case less
  show ?case
  proof (cases "v = []")
    case True
    with less.prems show ?thesis by (simp add: assemble.simps)
  next
    case False
    from progress_step [OF less.prems False ok] obtain m r c f a' where s:
      "GG_Ipv4FrameAssembler_GetFeedBuffer a = Some m" "GG_Ipv4FrameAssembler_Feed (take m v) a = Some (r, c, f, a')"
      "0 < c" "c \<le> length v" "progress cfg mp n xs (C @ take c v) (out @ (case f of None \<Rightarrow> [] | Some f \<Rightarrow> [f])) a'"
      by blast
    have split: "(C @ take c v) @ drop c v @ w = concat xs"
      using less.prems(2) by (metis append.assoc append_take_drop_id)
    have shorter: "length (drop c v) < length v" using s(3,4) by simp
    from less.hyps [OF shorter s(5) split] obtain fs a'' where "assemble a' (drop c v) = Some (fs, a'')"
      "progress cfg mp n xs (C @ v) (out @ (case f of None \<Rightarrow> [] | Some f \<Rightarrow> [f]) @ fs) a''" by auto
    with False s(1-3) show ?thesis by (simp add: assemble.simps [of a v])
  qed
qed

lemma assemble_pieces_progress:
  assumes "progress cfg mp n xs C out a" and "C @ concat vs @ w = concat xs"
    and ok: "\<forall>x \<in> set xs. wire_ok n x \<and> frame_of cfg mp x \<noteq> None"
  shows "\<exists>fs a'. assemble_pieces a vs = Some (fs, a') \<and> progress cfg mp n xs (C @ concat vs) (out @ fs) a'"
  using assms(1,2)
proof (induction vs arbitrary: C out a)
  case (Cons v vs)
  have "C @ v @ (concat vs @ w) = concat xs" using Cons.prems(2) by simp
  from assemble_progress [OF Cons.prems(1) this ok] obtain fs a' where
    1: "assemble a v = Some (fs, a')" "progress cfg mp n xs (C @ v) (out @ fs) a'" by blast
  have "(C @ v) @ concat vs @ w = concat xs" using Cons.prems(2) by simp
  from Cons.IH [OF 1(2) this] 1 show ?case by auto
qed simp

text \<open>At the end of the stream everything has come out.\<close>

lemma progress_complete:
  assumes "progress cfg mp n xs (concat xs) out a"
  shows "out = frames_of cfg mp xs" and "pend a []"
proof -
  obtain dn p todo where s: "xs = dn @ todo" "out = frames_of cfg mp dn" "concat xs = concat dn @ p" "pend a p"
    "case todo of [] \<Rightarrow> p = [] | x # _ \<Rightarrow> \<exists>q. q \<noteq> [] \<and> x = p @ q"
    using assms by (auto simp: progress_def)
  have "concat todo = p" using s(1,3) by simp
  then have "todo = []" using s(5) by (cases todo) auto
  with s show "out = frames_of cfg mp xs" "pend a []" by auto
qed

lemma Create_pend:
  "GG_Ipv4FrameAssembler_Create m cfg mp = Inr a \<Longrightarrow>
    pend a [] \<and> asm_ip_config a = cfg \<and> asm_ip_map a = mp \<and> asm_buffer_size a = unat m"
  by (auto simp: GG_Ipv4FrameAssembler_Create_def pend_def asm_ok_def split: if_splits)

lemma assemble_all:
  assumes a: "GG_Ipv4FrameAssembler_Create m cfg mp = Inr a"
    and ok: "\<forall>x \<in> set xs. wire_ok (unat m) x \<and> frame_of cfg mp x \<noteq> None"
    and vs: "concat vs = concat xs"
  shows "\<exists>a'. assemble_pieces a vs = Some (frames_of cfg mp xs, a') \<and> pend a' []"
proof -
  note c = Create_pend [OF a]
  have "[] \<notin> set xs" using bspec [OF ok, of "[]"] by (auto simp: wire_ok_def)
  with progress_between [of a cfg mp "unat m" xs "[]" xs] c have "progress cfg mp (unat m) xs [] [] a"
    by (simp add: frames_of_def)
  from assemble_pieces_progress [OF this _ ok, of vs "[]"] vs obtain fs a' where
    "assemble_pieces a vs = Some (fs, a')" "progress cfg mp (unat m) xs (concat xs) fs a'" by auto
  with progress_complete show ?thesis by blast
qed

section \<open>Plain packets\<close>

text \<open>A packet that is not marked as compressed comes out as it is.\<close>

definition plain :: "bytes \<Rightarrow> bool" where
  "plain x \<longleftrightarrow> x \<noteq> [] \<and> hd x AND 0x80 = 0"

lemma frame_of_plain: "plain x \<Longrightarrow> frame_of cfg None x = Some (GG_SUCCESS, Some x)"
  by (cases x) (simp_all add: plain_def frame_of_def packet_frame_def GG_Ipv4FrameAssembler_CopyAndEmitPacket_def)

lemma frames_of_plain: "\<forall>x \<in> set xs. plain x \<Longrightarrow> frames_of cfg None xs = xs"
  by (induction xs) (simp_all add: frames_of_def frame_of_plain)

section \<open>Compressed packets\<close>

text \<open>What compression and decompression do to a UDP header.\<close>

definition restored_udp :: "GG_Ipv4PacketHeader \<Rightarrow> nat \<Rightarrow> GG_UdpPacketHeader \<Rightarrow> GG_UdpPacketHeader" where
  "restored_udp ip payload_size u = u\<lparr>udp_checksum := 0,
     udp_length := (if length_elided ip u then of_nat payload_size - 8 else udp_length u)\<rparr>"

text \<open>The packet that comes out of the assembler.\<close>

definition restored :: "GG_Ipv4PacketHeader \<Rightarrow> GG_UdpPacketHeader option \<Rightarrow> bytes \<Rightarrow> bytes" where
  "restored ip udp payload =
     header_bytes ip (NOT (GG_Ipv4Checksum (header_bytes ip 0))) @
     (case udp of None \<Rightarrow> [] | Some u \<Rightarrow> GG_UdpPacketHeader_Serialize (restored_udp ip (length payload) u)) @
     payload"

lemma header_bytes_checksum [simp]: "header_bytes (ip\<lparr>ip_checksum := c\<rparr>) ck = header_bytes ip ck"
  by (simp add: header_bytes_def)

lemma be16_at_2: "GG_BytesToInt16Be (a # b # c # d # rest) 2 = push_bit 8 (ucast c) OR ucast d"
  by (simp add: GG_BytesToInt16Be_def)

lemma unat_be16_of_nat:
  assumes "m < 65536"
  shows "unat (push_bit 8 (ucast (of_nat (m div 256) :: u8)) OR ucast (of_nat (m mod 256) :: u8) :: u16) = m"
proof -
  have "unat (of_nat (m div 256) :: u8) = m div 256" "unat (of_nat (m mod 256) :: u8) = m mod 256"
    using assms by (simp_all add: unsigned_of_nat take_bit_nat_eq_self)
  then show ?thesis by (simp only: unat_be16) simp
qed

lemma compressed_packet:
  assumes ok: "headers_ok ip udp" and ws: "length ws = 70"
    and pl: "length payload = unat (ip_total_length ip) - headers_size ip"
  shows "\<exists>ws'. GG_Ipv4_CompressHeaders ip udp cfg ws = Some (ws', compressed_size ip udp cfg) \<and>
    length ws' = 70 \<and>
    (let x = take (compressed_size ip udp cfg) ws' @ payload
     in length x = compressed_size ip udp cfg + length payload \<and> unat (GG_BytesToInt16Be x 2) = length x \<and>
        GG_Ipv4_DecompressHeaders x cfg = Some (Inr (ip\<lparr>ip_checksum := 0\<rparr>,
          map_option (restored_udp ip (length payload)) udp, compressed_size ip udp cfg)) \<and>
        frame_of (Some cfg) None x = Some (GG_SUCCESS, Some (restored ip udp payload)))"
proof -
  let ?n = "compressed_size ip udp cfg"
  let ?vb = "variable_bits ip udp cfg"
  have iok: "ip_header_ok ip" and hs: "headers_size ip \<le> unat (ip_total_length ip)"
    using ok by (auto simp: headers_ok_def)
  have n68: "?n \<le> 68" "?n \<le> headers_size ip"
    using compressed_size_le [OF ok, of cfg] iok by (auto simp: headers_size_def ip_header_ok_def split: if_splits)
  have vb: "(length ?vb + 7) div 8 = ?n - 6" "6 \<le> ?n" by (auto simp: compressed_size_def)
  have t: "?n + length payload \<le> unat (ip_total_length ip)" using n68 hs pl by simp
  then have t16: "?n + length payload < 65536" using unat_less_length [of "ip_total_length ip"] by simp
  have "6 \<le> length ws" using ws by simp
  from CompressHeaders_spec [OF ok this, of cfg] obtain flags ob where c:
    "GG_Ipv4_CompressHeaders ip udp cfg ws =
      Some ([ucast (drop_bit 8 flags), ucast (flags AND 0xFF),
        of_nat ((?n + length payload) div 256), of_nat ((?n + length payload) mod 256),
        ucast (drop_bit 8 (ip_identification ip)), ucast (ip_identification ip AND 0xFF)] @ ob, ?n)"
    "flags = 0x8000 OR ip_flag_word ip cfg OR udp_flag_part ip udp cfg" "length ob = 64"
    "\<And>k. k < length ?vb \<Longrightarrow> k < 8 * length ob \<Longrightarrow> data_bit ob k = ?vb ! k"
    unfolding pl ws by auto
  let ?fix = "[ucast (drop_bit 8 flags), ucast (flags AND 0xFF),
    of_nat ((?n + length payload) div 256), of_nat ((?n + length payload) mod 256),
    ucast (drop_bit 8 (ip_identification ip)), ucast (ip_identification ip AND 0xFF)] :: bytes"
  have ob: "(length ?vb + 7) div 8 \<le> length ob" using n68 vb c(3) by simp
  have bits: "data_bit ob k = ?vb ! k" if "k < length ?vb" for k
    by (rule c(4) [OF that]) (use that ob in linarith)
  let ?x = "take ?n (?fix @ ob) @ payload"
  have x: "?x = ?fix @ take ((length ?vb + 7) div 8) ob @ payload"
  proof -
    have lf: "length ?fix = 6" by simp
    then have "take ?n ?fix = ?fix" using vb(2) by (intro take_all) simp
    then show ?thesis by (simp only: take_append lf vb(1) append_assoc)
  qed
  have len: "length ?x = ?n + length payload" unfolding x using vb ob by simp
  have be: "unat (GG_BytesToInt16Be ?x 2) = length ?x"
    unfolding len unfolding x unfolding append_Cons be16_at_2 by (rule unat_be16_of_nat [OF t16])
  have dec: "GG_Ipv4_DecompressHeaders ?x cfg = Some (Inr (ip\<lparr>ip_checksum := 0\<rparr>,
      map_option (restored_udp ip (length payload)) udp, ?n))"
    unfolding x using DecompressHeaders_spec [OF ok c(2) ob bits pl]
    by (simp add: restored_udp_def [abs_def])
  have "bit flags 15" unfolding c(2) bit_or_iff bit_consts by simp
  then have "bit (ucast (drop_bit 8 flags) :: u8) 7" by (simp add: bit_ucast_iff bit_drop_bit_eq)
  moreover have "?x ! 0 = ucast (drop_bit 8 flags)" unfolding x by (simp only: append_Cons nth_Cons_0)
  ultimately have hd: "?x ! 0 AND 0x80 \<noteq> 0"
    using and_exp_eq_0_iff_not_bit [of "?x ! 0" 7] by simp
  have ser: "GG_Ipv4PacketHeader_Serialize (ip\<lparr>ip_checksum := 0\<rparr>) (4 * unat (ip_ihl ip)) True =
      Inr (header_bytes ip (NOT (GG_Ipv4Checksum (header_bytes ip 0))))"
    using iok by (auto simp: GG_Ipv4PacketHeader_Serialize_def ip_header_ok_def word_less_nat_alt)
  have "drop ?n (take ?n z @ payload) = payload" if "?n \<le> length z" for z using that by simp
  then have dr: "drop ?n ?x = payload" using c(3) n68(1) by simp
  have lr: "length (restored ip udp payload) = unat (ip_total_length ip)"
    using ok pl hs length_header_bytes [OF iok]
    by (cases udp) (auto simp: restored_def headers_ok_def headers_size_def GG_UdpPacketHeader_Serialize_def)
  have "frame_of (Some cfg) None ?x = Some (GG_SUCCESS, Some (restored ip udp payload))"
    using hd dec ser t lr len dr n68 hs
    by (cases udp) (simp_all add: frame_of_def packet_frame_def GG_Ipv4FrameAssembler_DecompressAndEmitPacket_def
        restored_def)
  with c(1,3) len be dec show ?thesis by (intro exI [of _ "?fix @ ob"]) (simp add: Let_def)
qed

end
