(* ===== verification/Ipv4_Link.thy ===== *)
theory Ipv4_Link
  imports Gattlink_Session Ipv4_Framing
begin

text \<open>
  The IPv4 framing as the Gattlink client uses it: the assembler and the serializer meet the
  contracts of the locales \<open>assembler_contract\<close> and \<open>framing\<close>, so that the results on Gattlink
  sessions hold for a link that carries IP packets.
\<close>

section \<open>The serializer\<close>

definition udp_of :: "GG_Ipv4PacketHeader \<Rightarrow> bytes \<Rightarrow> GG_UdpPacketHeader option" where
  "udp_of ip frame = (if ip_protocol ip = GG_IPV4_PROTOCOL_UDP
     then (case GG_UdpPacketHeader_Parse (drop (4 * unat (ip_ihl ip)) frame) of Inl _ \<Rightarrow> None | Inr u \<Rightarrow> Some u)
     else None)"

text \<open>
  A frame the serializer takes: with compression, the total length in its header must not be
  smaller than its headers, else an assertion of \<^verbatim>\<open>GG_Ipv4_CompressHeaders\<close> fails.
\<close>

definition frame_sendable :: "GG_Ipv4FrameSerializationIpConfig option \<Rightarrow> bytes \<Rightarrow> bool" where
  "frame_sendable cfg frame \<longleftrightarrow> cfg = None \<or>
     (case GG_Ipv4PacketHeader_Parse frame of
        Inl _ \<Rightarrow> True
      | Inr ip \<Rightarrow> headers_size ip \<le> unat (ip_total_length ip))"

lemma ring_write_all:
  assumes "rb_invar rb" "length xs \<le> GG_RingBuffer_GetSpace rb"
  shows "rb_invar (snd (GG_RingBuffer_Write rb xs))"
    "rb_contents (snd (GG_RingBuffer_Write rb xs)) = rb_contents rb @ xs"
    "GG_RingBuffer_GetSpace (snd (GG_RingBuffer_Write rb xs)) = GG_RingBuffer_GetSpace rb - length xs"
    "rb_size (snd (GG_RingBuffer_Write rb xs)) = rb_size rb"
proof -
  show "rb_size (snd (GG_RingBuffer_Write rb xs)) = rb_size rb" by (rule Write_spec(4) [OF assms(1) refl])
  show c: "rb_contents (snd (GG_RingBuffer_Write rb xs)) = rb_contents rb @ xs"
    by (rule ring.put_all [OF assms])
  show i: "rb_invar (snd (GG_RingBuffer_Write rb xs))" by (rule ring.put_invar [OF assms(1)])
  show "GG_RingBuffer_GetSpace (snd (GG_RingBuffer_Write rb xs)) = GG_RingBuffer_GetSpace rb - length xs"
    using ring.space [OF assms(1)] ring.space [OF i] ring.put_capacity [OF assms(1), of xs] c by simp
qed

lemma SerializeFrame_plain:
  assumes "rb_invar rb" "length frame + 2 \<le> GG_RingBuffer_GetSpace rb" "ser_ip_config ser = None"
  shows "\<exists>rb'. GG_Ipv4FrameSerializer_SerializeFrame ser frame rb = Some (GG_SUCCESS, rb') \<and>
    rb_invar rb' \<and> rb_size rb' = rb_size rb \<and> rb_contents rb' = rb_contents rb @ frame"
proof -
  have "length frame < rb_size rb"
    using assms(1,2) by (simp add: GetSpace_eq)
  with assms ring_write_all [of rb frame] show ?thesis
    by (simp add: GG_Ipv4FrameSerializer_SerializeFrame_def)
qed

lemma headers_of_frame:
  assumes ip: "GG_Ipv4PacketHeader_Parse frame = Inr ip" and hs: "headers_size ip \<le> unat (ip_total_length ip)"
    and len: "headers_size ip \<le> length frame"
  shows "headers_ok ip (udp_of ip frame)"
    and "(if ip_protocol ip = GG_IPV4_PROTOCOL_UDP
      then map_sum id Some (GG_UdpPacketHeader_Parse (drop (4 * unat (ip_ihl ip)) frame)) else Inr None) =
      Inr (udp_of ip frame)"
  using Parse_ok(1) [OF ip] hs len
  by (auto simp: headers_ok_def udp_of_def headers_size_def GG_UdpPacketHeader_Parse_def)

lemma SerializeFrame_compressed:
  assumes rb: "rb_invar rb" "length frame + 2 \<le> GG_RingBuffer_GetSpace rb"
    and ser: "ser_ip_config ser = Some cfg" "length (ser_workspace ser) = 70"
    and ip: "GG_Ipv4PacketHeader_Parse frame = Inr ip" and hs: "headers_size ip \<le> unat (ip_total_length ip)"
    and len: "headers_size ip \<le> length frame"
  shows "\<exists>rb' ws. GG_Ipv4FrameSerializer_SerializeFrame ser frame rb = Some (GG_SUCCESS, rb') \<and> rb_invar rb' \<and>
    rb_size rb' = rb_size rb \<and> GG_Ipv4_CompressHeaders ip (udp_of ip frame) cfg (ser_workspace ser) =
      Some (ws, compressed_size ip (udp_of ip frame) cfg) \<and>
    rb_contents rb' = rb_contents rb @
      take (compressed_size ip (udp_of ip frame) cfg) ws @ drop (headers_size ip) frame"
proof -
  let ?udp = "udp_of ip frame" and ?n = "compressed_size ip (udp_of ip frame) cfg"
  note h = headers_of_frame [OF ip hs len]
  have pl: "length (replicate (unat (ip_total_length ip) - headers_size ip) (0::u8)) =
    unat (ip_total_length ip) - headers_size ip" by simp
  from compressed_packet [OF h(1) ser(2) pl, of cfg] obtain ws where
    ws: "GG_Ipv4_CompressHeaders ip ?udp cfg (ser_workspace ser) = Some (ws, ?n)" "length ws = 70" by blast
  have n: "?n \<le> headers_size ip" by (rule compressed_size_le [OF h(1)])
  let ?rb1 = "snd (GG_RingBuffer_Write rb (take ?n ws))"
  have 1: "rb_invar ?rb1" "rb_contents ?rb1 = rb_contents rb @ take ?n ws"
    "GG_RingBuffer_GetSpace ?rb1 = GG_RingBuffer_GetSpace rb - length (take ?n ws)" "rb_size ?rb1 = rb_size rb"
    using ring_write_all [OF rb(1), of "take ?n ws"] rb(2) n len by auto
  have 2: "rb_invar (snd (GG_RingBuffer_Write ?rb1 (drop (headers_size ip) frame)))"
    "rb_contents (snd (GG_RingBuffer_Write ?rb1 (drop (headers_size ip) frame))) =
      rb_contents ?rb1 @ drop (headers_size ip) frame"
    "rb_size (snd (GG_RingBuffer_Write ?rb1 (drop (headers_size ip) frame))) = rb_size ?rb1"
    using ring_write_all [OF 1(1), of "drop (headers_size ip) frame"] 1(3) rb(2) n len by auto
  have "length frame < rb_size rb" using rb by (simp add: GetSpace_eq)
  moreover have hse: "4 * unat (ip_ihl ip) + (if ip_protocol ip = GG_IPV4_PROTOCOL_UDP then GG_UDP_HEADER_SIZE else 0) =
      headers_size ip" by (simp add: headers_size_def)
  ultimately have "GG_Ipv4FrameSerializer_SerializeFrame ser frame rb =
      Some (GG_SUCCESS, snd (GG_RingBuffer_Write ?rb1 (drop (headers_size ip) frame)))"
    using rb(2) ser ip len ws h(2)
    by (simp add: GG_Ipv4FrameSerializer_SerializeFrame_def serialize_compressed_def Let_def hse
        del: GG_IPV4_PROTOCOL_UDP_def GG_UDP_HEADER_SIZE_def)
  with 1 2 ws show ?thesis by simp
qed

lemma SerializeFrame_total:
  assumes rb: "rb_invar rb" and ok: "frame_sendable (ser_ip_config ser) frame" and ws: "length (ser_workspace ser) = 70"
  shows "\<exists>r rb' xs. GG_Ipv4FrameSerializer_SerializeFrame ser frame rb = Some (r, rb') \<and> rb_invar rb' \<and>
    rb_contents rb' = rb_contents rb @ xs"
proof (cases "length frame \<ge> rb_size rb \<or> length frame + 2 > GG_RingBuffer_GetSpace rb")
  case True
  with rb show ?thesis by (auto simp: GG_Ipv4FrameSerializer_SerializeFrame_def)
next
  case False
  then have space: "length frame + 2 \<le> GG_RingBuffer_GetSpace rb" by simp
  show ?thesis
  proof (cases "ser_ip_config ser")
    case None
    from SerializeFrame_plain [OF rb space None] show ?thesis by blast
  next
    case (Some cfg)
    show ?thesis
    proof (cases "GG_Ipv4PacketHeader_Parse frame")
      case (Inl e)
      with Some False rb show ?thesis
        by (simp add: GG_Ipv4FrameSerializer_SerializeFrame_def serialize_compressed_def)
    next
      case (Inr ip)
      show ?thesis
      proof (cases "headers_size ip \<le> length frame")
        case True
        from SerializeFrame_compressed [OF rb space Some ws Inr _ True] ok Some Inr show ?thesis
          by (auto simp: frame_sendable_def)
      next
        case short: False
        with Some False rb Inr show ?thesis
          by (auto simp: GG_Ipv4FrameSerializer_SerializeFrame_def serialize_compressed_def headers_size_def Let_def)
      qed
    qed
  qed
qed

section \<open>The assembler\<close>

text \<open>The function table of the assembler.\<close>

definition ipv4_assembler :: "GG_Ipv4FrameAssembler GG_FrameAssembler" where
  "ipv4_assembler = \<lparr>GetFeedBuffer = GG_Ipv4FrameAssembler_GetFeedBuffer,
     Feed = GG_Ipv4FrameAssembler_Feed, FrameAssembler_Reset = GG_Ipv4FrameAssembler_Reset\<rparr>"

text \<open>An assembler without header decompression and without address remapping.\<close>

definition asm_plain :: "GG_Ipv4FrameAssembler \<Rightarrow> bool" where
  "asm_plain a \<longleftrightarrow> asm_ok a \<and> asm_ip_config a = None \<and> asm_ip_map a = None"

lemma packet_frame_plain:
  "asm_ip_config a = None \<Longrightarrow> asm_ip_map a = None \<Longrightarrow>
    \<exists>r f. packet_frame a = Some (r, f) \<and> (f = None \<or> f = Some (take (asm_packet_size a) (asm_buffer a)))"
  by (simp add: packet_frame_def GG_Ipv4FrameAssembler_DecompressAndEmitPacket_def
      GG_Ipv4FrameAssembler_CopyAndEmitPacket_def)

text \<open>What a feed leaves behind: a plain assembler, and perhaps a frame that fits the buffer.\<close>

definition fed :: "nat \<Rightarrow> bytes option \<Rightarrow> GG_Ipv4FrameAssembler \<Rightarrow> bool" where
  "fed n f a \<longleftrightarrow> asm_plain a \<and> asm_buffer_size a = n \<and> (\<forall>x. f = Some x \<longrightarrow> 4 \<le> length x \<and> length x \<le> n)"

lemma feed_packet_plain:
  assumes "length (asm_buffer a) = asm_buffer_size a" "20 \<le> asm_buffer_size a" "asm_skip a = 0"
    "asm_ip_config a = None" "asm_ip_map a = None" "4 \<le> asm_payload_size a"
    "asm_payload_size a \<le> asm_packet_size a" "asm_packet_size a \<le> asm_buffer_size a" "c \<le> n"
  shows "\<exists>r consumed f a'. feed_packet c n a = Some (r, consumed, f, a') \<and> consumed \<le> n \<and>
    fed (asm_buffer_size a) f a'"
proof -
  define t where "t = (if c < n then min (n - c) (asm_packet_size a - asm_payload_size a) else 0)"
  obtain r f where pf: "packet_frame (a\<lparr>asm_payload_size := asm_payload_size a + t\<rparr>) = Some (r, f)"
    "f = None \<or> f = Some (take (asm_packet_size a) (asm_buffer a))"
    using packet_frame_plain [of "a\<lparr>asm_payload_size := asm_payload_size a + t\<rparr>"] assms by auto
  have t: "c + t \<le> n" "asm_payload_size a + t \<le> asm_packet_size a" using assms by (auto simp: t_def)
  show ?thesis
    unfolding feed_packet_def t_def [symmetric] Let_def
    using assms t pf by (auto simp: GG_Ipv4FrameAssembler_EmitPacket_def asm_plain_def asm_ok_def fed_def)
qed

lemma GetFeedBuffer_total: "asm_ok a \<Longrightarrow> \<exists>n. GG_Ipv4FrameAssembler_GetFeedBuffer a = Some n"
  by (auto simp: asm_ok_def GG_Ipv4FrameAssembler_GetFeedBuffer_def split: if_splits)

lemma Feed_plain:
  assumes a: "asm_plain a" and n: "GG_Ipv4FrameAssembler_GetFeedBuffer a = Some n" and d: "length data \<le> n"
  shows "\<exists>r consumed f a'. GG_Ipv4FrameAssembler_Feed data a = Some (r, consumed, f, a') \<and>
    consumed \<le> length data \<and> fed (asm_buffer_size a) f a'"
proof -
  note ad = a [unfolded asm_plain_def asm_ok_def]
  consider (skip) "asm_skip a \<noteq> 0" | (start) "asm_skip a = 0" "asm_packet_size a = 0"
    | (body) "asm_skip a = 0" "asm_packet_size a \<noteq> 0" by blast
  then show ?thesis
  proof cases
    case skip
    then have "length data \<le> asm_skip a" "length data \<le> length (asm_buffer a)"
      using n d ad by (auto simp: GG_Ipv4FrameAssembler_GetFeedBuffer_def)
    with skip ad show ?thesis
      by (auto simp: GG_Ipv4FrameAssembler_Feed_def Let_def asm_plain_def asm_ok_def fed_def)
  next
    case body
    then have "asm_payload_size a + length data \<le> length (asm_buffer a)"
      using n d ad by (auto simp: GG_Ipv4FrameAssembler_GetFeedBuffer_def)
    with body ad feed_packet_plain [of "a\<lparr>asm_buffer := memcpy_at (asm_buffer a) (asm_payload_size a) data\<rparr>"
        0 "length data"] show ?thesis
      by (simp add: GG_Ipv4FrameAssembler_Feed_def Let_def)
  next
    case start
    let ?b = "a\<lparr>asm_buffer := memcpy_at (asm_buffer a) (asm_payload_size a) data\<rparr>"
    let ?s = "unat (GG_BytesToInt16Be (asm_buffer ?b) 2)"
    have le: "asm_payload_size a + length data \<le> 4" "asm_payload_size a < 4"
      using start n d ad by (auto simp: GG_Ipv4FrameAssembler_GetFeedBuffer_def nat_diff_distrib split: if_splits)
    then have lb: "length (asm_buffer ?b) = asm_buffer_size a" using ad by simp
    show ?thesis
    proof (cases "4 - asm_payload_size a > length data \<or> ?s < 4 \<or> ?s > asm_buffer_size a")
      case True
      with start ad le lb show ?thesis
        by (auto simp: GG_Ipv4FrameAssembler_Feed_def Let_def asm_plain_def asm_ok_def fed_def
            GG_Ipv4FrameAssembler_Reset_def)
    next
      case False
      with start ad le lb feed_packet_plain [of "?b\<lparr>asm_payload_size := 4, asm_packet_size := ?s\<rparr>"
          "4 - asm_payload_size a" "length data"] show ?thesis
        by (auto simp: GG_Ipv4FrameAssembler_Feed_def Let_def)
    qed
  qed
qed

lemma Create_plain:
  "GG_Ipv4FrameAssembler_Create mtu None None = Inr a \<Longrightarrow> asm_plain a"
  by (auto simp: GG_Ipv4FrameAssembler_Create_def asm_plain_def asm_ok_def split: if_splits)

interpretation ipv4_link: framing ipv4_assembler asm_plain
  "GG_Ipv4FrameSerializer_SerializeFrame (GG_Ipv4FrameSerializer_Create cfg)" "frame_sendable cfg"
  for cfg
proof (unfold_locales, goal_cases)
  case (1 a)
  then show ?case using GetFeedBuffer_total [of a] by (simp add: ipv4_assembler_def asm_plain_def)
next
  case (2 a n data)
  then show ?case using Feed_plain [of a n data] by (fastforce simp: ipv4_assembler_def fed_def)
next
  case (3 a)
  then show ?case
    by (auto simp: ipv4_assembler_def GG_Ipv4FrameAssembler_Reset_def asm_plain_def asm_ok_def)
next
  case (4 rb data)
  then show ?case
    using SerializeFrame_total [of rb "GG_Ipv4FrameSerializer_Create cfg" data]
    by (simp add: GG_Ipv4FrameSerializer_Create_def)
qed

end
