(* ===== verification/Ipv4_Props.thy ===== *)
theory Ipv4_Props
  imports Ipv4_Link
begin

text \<open>
  The properties of the IPv4 layer: headers, checksum, header compression, and the path of IP
  packets through serializer, byte stream and assembler.
\<close>

section \<open>Headers and checksum\<close>

text \<open>Serializing an IPv4 header and parsing the result, whatever follows it, gives the header
  back: every field, the options included. The checksum field is the one given, or the
  computed one if the caller asked for that. The buffer is filled with exactly \<open>4 * ihl\<close> bytes.\<close>

lemma ipv4_header_round_trip:
  assumes "ip_header_ok h" and "4 * unat (ip_ihl h) \<le> buffer_size"
  shows "\<exists>bs. GG_Ipv4PacketHeader_Serialize h buffer_size compute = Inr bs \<and> length bs = 4 * unat (ip_ihl h) \<and>
    GG_Ipv4PacketHeader_Parse (bs @ payload) =
      Inr (h\<lparr>ip_checksum := (if compute then NOT (GG_Ipv4Checksum (header_bytes h 0)) else ip_checksum h)\<rparr>)"
proof -
  have "\<not> ip_ihl h < 5" "\<not> 15 < ip_ihl h" using assms(1) by (auto simp: ip_header_ok_def word_less_nat_alt)
  with assms show ?thesis
    by (auto simp: GG_Ipv4PacketHeader_Serialize_def length_header_bytes Parse_header_bytes)
qed

definition example_ip :: GG_Ipv4PacketHeader where
  "example_ip = \<lparr>ip_version = 4, ip_ihl = 6, ip_dscp = 10, ip_ecn = 1, ip_total_length = 44, ip_identification = 0x1234,
     ip_flags = 2, ip_fragment_offset = 0x123, ip_ttl = 64, ip_protocol = 17, ip_checksum = 0xFAFA,
     ip_src_address = 0x0A000001, ip_dst_address = 0x0A000002, ip_options = [1, 2, 3, 4]\<rparr>"

lemma example_ip_ok: "ip_header_ok example_ip"
  by (simp add: example_ip_def ip_header_ok_def)

lemma ipv4_header_round_trip_example:
  "\<exists>bs. GG_Ipv4PacketHeader_Serialize example_ip 100 False = Inr bs \<and>
    GG_Ipv4PacketHeader_Parse (bs @ [7, 8]) = Inr example_ip"
  using ipv4_header_round_trip [OF example_ip_ok, of 100 False "[7, 8]"] by (auto simp: example_ip_def)

text \<open>Parsing is exact: a packet whose header parses has at least \<open>4 * ihl >= 20\<close> bytes, all fields
  are in their ranges, and serializing the parsed header without recomputing the checksum gives back
  the header bytes of the packet, bit for bit.\<close>

lemma ipv4_header_parse_serialize:
  assumes "GG_Ipv4PacketHeader_Parse packet = Inr h"
  shows "ip_header_ok h \<and> 20 \<le> 4 * unat (ip_ihl h) \<and> 4 * unat (ip_ihl h) \<le> length packet \<and>
    GG_Ipv4PacketHeader_Serialize h (length packet) False = Inr (take (4 * unat (ip_ihl h)) packet)"
  using Parse_ok [OF assms]
  by (auto simp: GG_Ipv4PacketHeader_Serialize_def ip_header_ok_def word_less_nat_alt)

definition example_packet :: bytes where
  "example_packet = header_bytes example_ip 0xFAFA @ [0, 53, 0, 80, 0, 20, 0, 0] @ replicate 12 9"

lemma example_packet_parse: "GG_Ipv4PacketHeader_Parse example_packet = Inr example_ip"
  using Parse_header_bytes [OF example_ip_ok, of "0xFAFA"] by (simp add: example_packet_def example_ip_def)

lemma ipv4_header_parse_serialize_example:
  "GG_Ipv4PacketHeader_Serialize example_ip 44 False = Inr (take 24 example_packet)"
  using ipv4_header_parse_serialize [OF example_packet_parse]
  by (simp add: example_packet_def example_ip_def header_bytes_def GG_BytesFromInt32Be_def)

text \<open>C13: The checksum routine computes the one's complement sum of RFC 1071 over the big-endian 16-bit
  words of the data, an odd last byte padded with zero: the 32-bit accumulator does not overflow and
  two carry folds are enough, for data of up to 65536 bytes.\<close>

theorem ipv4_checksum_ones_complement:
  assumes "length data \<le> 65536"
  shows "unat (GG_Ipv4Checksum data) = ones_complement_sum (word_sum data)"
  by (rule Ipv4Checksum_eq [OF assms])

theorem ipv4_checksum_ones_complement_witness:
  "unat (GG_Ipv4Checksum [0xFF, 0xFF, 0x00, 0x02, 0x80]) = 0x8002"
  using ipv4_checksum_ones_complement [of "[0xFF, 0xFF, 0x00, 0x02, 0x80]"]
  by (simp add: ones_complement_sum_def)

text \<open>A header serialized with a computed checksum verifies: the checksum routine over its
  bytes gives \<open>0xFFFF\<close>, which is what a receiver checks.\<close>

lemma ipv4_header_checksum_verifies:
  assumes "ip_header_ok h" and "GG_Ipv4PacketHeader_Serialize h buffer_size True = Inr bs"
  shows "GG_Ipv4Checksum bs = 0xFFFF"
  using assms Checksum_header [OF assms(1)] by (auto simp: GG_Ipv4PacketHeader_Serialize_def split: if_splits)

lemma ipv4_header_checksum_verifies_example:
  "\<exists>bs. GG_Ipv4PacketHeader_Serialize example_ip 60 True = Inr bs \<and> GG_Ipv4Checksum bs = 0xFFFF"
proof -
  have "\<exists>bs. GG_Ipv4PacketHeader_Serialize example_ip 60 True = Inr bs"
    by (simp add: GG_Ipv4PacketHeader_Serialize_def example_ip_def)
  with ipv4_header_checksum_verifies [OF example_ip_ok] show ?thesis by blast
qed

lemma take_8:
  assumes "8 \<le> length p"
  shows "take 8 p = [p ! 0, p ! 1, p ! 2, p ! 3, p ! 4, p ! 5, p ! 6, p ! 7]"
proof -
  have "take 8 p = map ((!) p) [0..<8]" using assms by (intro nth_equalityI) auto
  also have "[0..<8] = [0, 1, 2, 3, 4, 5, 6, 7]" by (simp add: upt_rec numeral_nat)
  finally show ?thesis by simp
qed

lemma udp_serialize_parse:
  "case GG_UdpPacketHeader_Parse p of Inl _ \<Rightarrow> length p < 8 | Inr v \<Rightarrow> GG_UdpPacketHeader_Serialize v = take 8 p"
  using bytes_of_ToInt16Be [of p 0] bytes_of_ToInt16Be [of p 2] bytes_of_ToInt16Be [of p 4] bytes_of_ToInt16Be [of p 6]
  by (auto simp: GG_UdpPacketHeader_Parse_def GG_UdpPacketHeader_Serialize_def take_8 not_less)

text \<open>UDP headers: parsing what was serialized gives the header back, and serializing what was
  parsed gives the eight header bytes back.\<close>

lemma udp_header_round_trip:
  "GG_UdpPacketHeader_Parse (GG_UdpPacketHeader_Serialize u @ payload) = Inr u \<and>
   (case GG_UdpPacketHeader_Parse packet of
      Inl _ \<Rightarrow> length packet < 8 | Inr v \<Rightarrow> GG_UdpPacketHeader_Serialize v = take 8 packet)"
  using udp_serialize_parse [of packet]
  by (simp add: GG_UdpPacketHeader_Parse_def GG_UdpPacketHeader_Serialize_def GG_BytesToInt16Be_def be16_of_bytes)

section \<open>Header compression\<close>

text \<open>C14: Decompression gives back what header compression keeps. For every well-formed IPv4 header, with or without
  UDP, every configuration of default addresses and ports and every payload: the headers compress
  into the 70-byte workspace, to no more bytes than they had. Decompressing the compressed headers
  followed by the payload gives back every field of the IP header, options included, except for
  the checksum, which is 0 for the caller to recompute. A UDP header comes back with its ports and without a checksum, and with
  its length when the length is part of the compressed headers, that is when it is not the one that follows from the
  IP header. (Of a length that was left out the theorem says nothing, see \<open>udp_length_off_by_16\<close>.)\<close>

theorem ipv4_compression_round_trip:
  assumes "headers_ok ip udp" and "length workspace = 70"
    and "length payload = unat (ip_total_length ip) - headers_size ip"
  shows "\<exists>out n udp'. GG_Ipv4_CompressHeaders ip udp cfg workspace = Some (out, n) \<and> length out = 70 \<and>
    n \<le> headers_size ip \<and> n \<le> 70 \<and>
    GG_Ipv4_DecompressHeaders (take n out @ payload) cfg = Some (Inr (ip\<lparr>ip_checksum := 0\<rparr>, udp', n)) \<and>
    rel_option (\<lambda>u u'. udp_src_port u' = udp_src_port u \<and> udp_dst_port u' = udp_dst_port u \<and> udp_checksum u' = 0 \<and>
      (4 * unat (ip_ihl ip) + unat (udp_length u) \<noteq> unat (ip_total_length ip) \<longrightarrow> udp_length u' = udp_length u)) udp udp'"
proof -
  have "headers_size ip \<le> 68"
    using assms(1) by (auto simp: headers_ok_def ip_header_ok_def headers_size_def)
  then have "compressed_size ip udp cfg \<le> headers_size ip" "compressed_size ip udp cfg \<le> 70"
    using compressed_size_le [OF assms(1), of cfg] by linarith+
  moreover have "rel_option (\<lambda>u u'. udp_src_port u' = udp_src_port u \<and> udp_dst_port u' = udp_dst_port u \<and> udp_checksum u' = 0 \<and>
      (4 * unat (ip_ihl ip) + unat (udp_length u) \<noteq> unat (ip_total_length ip) \<longrightarrow> udp_length u' = udp_length u))
      udp (map_option (restored_udp ip (length payload)) udp)"
    by (cases udp) (simp_all add: restored_udp_def length_elided_def)
  ultimately show ?thesis using compressed_packet [OF assms, of cfg] unfolding Let_def by blast
qed

definition example_config :: GG_Ipv4FrameSerializationIpConfig where
  "example_config = \<lparr>default_src_address = 0x0A000001, default_dst_address = 0x0A000002,
     udp_src_ports = (5683, 5684, 53), udp_dst_ports = (5683, 5684, 53)\<rparr>"

definition example_udp :: GG_UdpPacketHeader where
  "example_udp = \<lparr>udp_src_port = 53, udp_dst_port = 80, udp_length = 20, udp_checksum = 0\<rparr>"

lemma example_headers_ok: "headers_ok example_ip (Some example_udp)"
  using example_ip_ok by (simp add: headers_ok_def headers_size_def example_ip_def)

theorem ipv4_compression_round_trip_witness:
  "\<exists>out n udp. GG_Ipv4_CompressHeaders example_ip (Some example_udp) example_config (replicate 70 0) = Some (out, n) \<and>
    n \<le> 32 \<and> GG_Ipv4_DecompressHeaders (take n out @ replicate 12 9) example_config =
      Some (Inr (example_ip\<lparr>ip_checksum := 0\<rparr>, Some udp, n)) \<and> udp_src_port udp = 53 \<and> udp_dst_port udp = 80"
  using ipv4_compression_round_trip [OF example_headers_ok, of "replicate 70 0" "replicate 12 9" example_config]
  by (auto simp: example_ip_def example_udp_def headers_size_def option_rel_Some1)

text \<open>So the length field of a UDP header that had the right length is wrong by 16 after a round trip.\<close>

lemma udp_length_off_by_16:
  assumes "headers_ok ip (Some u)" and "length_elided ip u"
    and "length payload = unat (ip_total_length ip) - headers_size ip"
  shows "udp_length (restored_udp ip (length payload) u) = udp_length u - 16"
proof -
  have "headers_size ip = 4 * unat (ip_ihl ip) + 8" "headers_size ip \<le> unat (ip_total_length ip)"
    using assms(1) by (auto simp: headers_ok_def headers_size_def)
  then have "length payload + 8 = unat (udp_length u)" using assms(2,3) by (simp add: length_elided_def)
  then have "of_nat (length payload + 8) = udp_length u" by simp
  then have "udp_length u = of_nat (length payload) + 8" by simp
  then show ?thesis using assms(2) by (simp add: restored_udp_def)
qed

section \<open>Packets over a byte stream\<close>

fun serialize_frames ::
  "GG_Ipv4FrameSerializer \<Rightarrow> bytes list \<Rightarrow> GG_RingBuffer \<Rightarrow> GG_RingBuffer option" where
  "serialize_frames ser [] rb = Some rb"
| "serialize_frames ser (f # fs) rb =
     (case GG_Ipv4FrameSerializer_SerializeFrame ser f rb of
        Some (r, rb) \<Rightarrow> if r = GG_SUCCESS then serialize_frames ser fs rb else None
      | None \<Rightarrow> None)"

text \<open>Each frame is written as \<open>wire f\<close>, which is not longer than the frame.\<close>

lemma serialize_frames_wire:
  assumes step: "\<And>f rb. f \<in> set fs \<Longrightarrow> rb_invar rb \<Longrightarrow> length f + 2 \<le> GG_RingBuffer_GetSpace rb \<Longrightarrow>
      \<exists>rb'. GG_Ipv4FrameSerializer_SerializeFrame ser f rb = Some (GG_SUCCESS, rb') \<and> rb_invar rb' \<and>
        rb_size rb' = rb_size rb \<and> rb_contents rb' = rb_contents rb @ wire f"
    and short: "\<And>f. f \<in> set fs \<Longrightarrow> length (wire f) \<le> length f"
    and rb: "rb_invar rb" and space: "sum_list (map length fs) + 2 \<le> GG_RingBuffer_GetSpace rb"
  shows "\<exists>rb'. serialize_frames ser fs rb = Some rb' \<and> rb_invar rb' \<and>
    rb_contents rb' = rb_contents rb @ concat (map wire fs)"
  using assms
proof (induction fs arbitrary: rb)
  case (Cons f fs)
  from Cons.prems(1) [of f rb] Cons.prems(3,4) obtain rb1 where
    1: "GG_Ipv4FrameSerializer_SerializeFrame ser f rb = Some (GG_SUCCESS, rb1)" "rb_invar rb1"
      "rb_size rb1 = rb_size rb" "rb_contents rb1 = rb_contents rb @ wire f" by auto
  have "GG_RingBuffer_GetSpace rb \<le> GG_RingBuffer_GetSpace rb1 + length f"
    using 1 Cons.prems(2) [of f] by (simp add: GetSpace_eq [OF Cons.prems(3)] GetSpace_eq [OF 1(2)])
  then have "sum_list (map length fs) + 2 \<le> GG_RingBuffer_GetSpace rb1" using Cons.prems(4) by simp
  from Cons.IH [OF _ _ 1(2) this] Cons.prems(1,2) 1 show ?case by auto
qed simp

text \<open>C15: IP packets cross the link unchanged, without header compression. Whatever packets are serialized
  into the output buffer of the sender, as long as they fit, and however the resulting byte stream is cut
  into pieces on the way, an assembler fed with the pieces emits exactly these packets, in order.
  (Packets of at least 4 bytes whose length field is their length, up to the size of the assembler's buffer.)\<close>

theorem ipv4_stream_plain:
  assumes "GG_Ipv4FrameAssembler_Create mtu None None = Inr assembler"
    and "\<forall>f \<in> set frames. plain f \<and> wire_ok (unat mtu) f"
    and "rb_invar rb" and "rb_contents rb = []" and "sum_list (map length frames) + 2 \<le> GG_RingBuffer_GetSpace rb"
  shows "\<exists>rb'. serialize_frames (GG_Ipv4FrameSerializer_Create None) frames rb = Some rb' \<and>
    (\<forall>pieces. concat pieces = rb_contents rb' \<longrightarrow>
      (\<exists>assembler'. assemble_pieces assembler pieces = Some (frames, assembler')))"
proof -
  have "\<exists>rb'. serialize_frames (GG_Ipv4FrameSerializer_Create None) frames rb = Some rb' \<and> rb_invar rb' \<and>
      rb_contents rb' = rb_contents rb @ concat (map (\<lambda>f. f) frames)"
    by (rule serialize_frames_wire [OF _ _ assms(3,5)])
      (auto intro: SerializeFrame_plain simp: GG_Ipv4FrameSerializer_Create_def)
  moreover have "\<forall>x \<in> set frames. wire_ok (unat mtu) x \<and> frame_of None None x \<noteq> None"
    using assms(2) by (simp add: frame_of_plain)
  ultimately show ?thesis
    using assemble_all [OF assms(1)] frames_of_plain [of frames None] assms(2,4) by fastforce
qed

definition example_frames :: "bytes list" where
  "example_frames = [[0x45, 0, 0, 6, 1, 2], [0x45, 0, 0, 4], [0x45, 0, 0, 5, 9]]"

theorem ipv4_stream_plain_witness:
  "\<exists>assembler rb. GG_Ipv4FrameAssembler_Create 100 None None = Inr assembler \<and>
    serialize_frames (GG_Ipv4FrameSerializer_Create None) example_frames (GG_RingBuffer_Init (replicate 32 0)) = Some rb \<and>
    (\<exists>assembler'. assemble_pieces assembler [take 3 (rb_contents rb), drop 3 (rb_contents rb)] =
      Some (example_frames, assembler'))"
proof -
  obtain a where a: "GG_Ipv4FrameAssembler_Create 100 None None = Inr a"
    by (simp add: GG_Ipv4FrameAssembler_Create_def)
  have i: "rb_invar (GG_RingBuffer_Init (replicate 32 0))" "rb_contents (GG_RingBuffer_Init (replicate 32 0)) = []"
    using Init_spec [of "replicate 32 0"] by simp_all
  have f: "\<forall>f \<in> set example_frames. plain f \<and> wire_ok (unat (100 :: u16)) f"
    by (simp add: example_frames_def plain_def wire_ok_def GG_BytesToInt16Be_def)
  have s: "sum_list (map length example_frames) + 2 \<le> GG_RingBuffer_GetSpace (GG_RingBuffer_Init (replicate 32 0))"
    by (simp add: example_frames_def GetSpace_eq [OF i(1)] i(2)) (simp add: GG_RingBuffer_Init_def)
  from ipv4_stream_plain [OF a f i s] obtain rb where
    r: "serialize_frames (GG_Ipv4FrameSerializer_Create None) example_frames (GG_RingBuffer_Init (replicate 32 0)) = Some rb"
    "\<And>pieces. concat pieces = rb_contents rb \<Longrightarrow> \<exists>a'. assemble_pieces a pieces = Some (example_frames, a')"
    by blast
  from r(2) [of "[take 3 (rb_contents rb), drop 3 (rb_contents rb)]"] a r(1) show ?thesis by auto
qed

text \<open>A frame as the other end sees it when both ends compress headers.\<close>

definition restored_frame :: "bytes \<Rightarrow> bytes" where
  "restored_frame f =
     (case GG_Ipv4PacketHeader_Parse f of
        Inl _ \<Rightarrow> f
      | Inr ip \<Rightarrow> restored ip (udp_of ip f) (drop (headers_size ip) f))"

definition frame_ok :: "nat \<Rightarrow> bytes \<Rightarrow> bool" where
  "frame_ok n f \<longleftrightarrow> length f \<le> n \<and>
     (case GG_Ipv4PacketHeader_Parse f of
        Inl _ \<Rightarrow> False
      | Inr ip \<Rightarrow> unat (ip_total_length ip) = length f \<and> headers_size ip \<le> length f)"

definition frame_wire :: "GG_Ipv4FrameSerializationIpConfig \<Rightarrow> bytes \<Rightarrow> bytes" where
  "frame_wire cfg f =
     (case GG_Ipv4PacketHeader_Parse f of
        Inl _ \<Rightarrow> f
      | Inr ip \<Rightarrow>
          (case GG_Ipv4_CompressHeaders ip (udp_of ip f) cfg (replicate 70 0) of
             None \<Rightarrow> f
           | Some (ws, n) \<Rightarrow> take n ws @ drop (headers_size ip) f))"

lemma frame_wire_spec:
  assumes "frame_ok m f"
  shows "length (frame_wire cfg f) \<le> length f" and "wire_ok m (frame_wire cfg f)"
    and "frame_of (Some cfg) None (frame_wire cfg f) = Some (GG_SUCCESS, Some (restored_frame f))"
    and "rb_invar rb \<Longrightarrow> length f + 2 \<le> GG_RingBuffer_GetSpace rb \<Longrightarrow>
      \<exists>rb'. GG_Ipv4FrameSerializer_SerializeFrame (GG_Ipv4FrameSerializer_Create (Some cfg)) f rb = Some (GG_SUCCESS, rb') \<and>
        rb_invar rb' \<and> rb_size rb' = rb_size rb \<and> rb_contents rb' = rb_contents rb @ frame_wire cfg f"
proof -
  obtain ip where ip: "GG_Ipv4PacketHeader_Parse f = Inr ip" "unat (ip_total_length ip) = length f"
    "headers_size ip \<le> length f" and m: "length f \<le> m"
    using assms by (auto simp: frame_ok_def split: sum.splits)
  have hs: "headers_size ip \<le> unat (ip_total_length ip)" using ip by simp
  note h = headers_of_frame [OF ip(1) hs ip(3)]
  let ?n = "compressed_size ip (udp_of ip f) cfg"
  have n: "?n \<le> headers_size ip" "6 \<le> ?n"
    using compressed_size_le [OF h(1)] by (auto simp: compressed_size_def)
  have pl: "length (drop (headers_size ip) f) = unat (ip_total_length ip) - headers_size ip" using ip by simp
  from compressed_packet [OF h(1) _ pl, of "replicate 70 0" cfg] obtain ws where
    ws: "GG_Ipv4_CompressHeaders ip (udp_of ip f) cfg (replicate 70 0) = Some (ws, ?n)" "length ws = 70"
      and x: "length (take ?n ws @ drop (headers_size ip) f) = ?n + length (drop (headers_size ip) f)"
      "unat (GG_BytesToInt16Be (take ?n ws @ drop (headers_size ip) f) 2) = length (take ?n ws @ drop (headers_size ip) f)"
      "frame_of (Some cfg) None (take ?n ws @ drop (headers_size ip) f) =
        Some (GG_SUCCESS, Some (restored ip (udp_of ip f) (drop (headers_size ip) f)))"
    by (auto simp: Let_def)
  have w: "frame_wire cfg f = take ?n ws @ drop (headers_size ip) f" by (simp add: frame_wire_def ip(1) ws(1))
  show l: "length (frame_wire cfg f) \<le> length f" unfolding w x(1) using n ip(3) by simp
  show "wire_ok m (frame_wire cfg f)"
    using x(1,2) n l m unfolding wire_ok_def w by linarith
  show "frame_of (Some cfg) None (frame_wire cfg f) = Some (GG_SUCCESS, Some (restored_frame f))"
    using x(3) by (simp add: w restored_frame_def ip(1))
  show "\<exists>rb'. GG_Ipv4FrameSerializer_SerializeFrame (GG_Ipv4FrameSerializer_Create (Some cfg)) f rb = Some (GG_SUCCESS, rb') \<and>
      rb_invar rb' \<and> rb_size rb' = rb_size rb \<and> rb_contents rb' = rb_contents rb @ frame_wire cfg f"
    if "rb_invar rb" "length f + 2 \<le> GG_RingBuffer_GetSpace rb"
    using SerializeFrame_compressed [OF that _ _ ip(1) hs ip(3), of "GG_Ipv4FrameSerializer_Create (Some cfg)" cfg] ws(1)
    by (auto simp: GG_Ipv4FrameSerializer_Create_def w)
qed

text \<open>What an assembler makes of the serialized packets.\<close>

lemma compressed_stream:
  assumes "GG_Ipv4FrameAssembler_Create mtu (Some cfg) None = Inr assembler"
    and "\<forall>f \<in> set frames. frame_ok (unat mtu) f"
    and "rb_invar rb" and "rb_contents rb = []" and "sum_list (map length frames) + 2 \<le> GG_RingBuffer_GetSpace rb"
  shows "\<exists>rb'. serialize_frames (GG_Ipv4FrameSerializer_Create (Some cfg)) frames rb = Some rb' \<and>
    (\<forall>pieces. concat pieces = rb_contents rb' \<longrightarrow>
      (\<exists>assembler'. assemble_pieces assembler pieces = Some (map restored_frame frames, assembler')))"
proof -
  have ser: "\<exists>rb'. serialize_frames (GG_Ipv4FrameSerializer_Create (Some cfg)) frames rb = Some rb' \<and> rb_invar rb' \<and>
      rb_contents rb' = rb_contents rb @ concat (map (frame_wire cfg) frames)"
  proof (rule serialize_frames_wire [OF _ _ assms(3,5)])
    fix f rb assume f: "f \<in> set frames"
    show "length (frame_wire cfg f) \<le> length f" using assms(2) f frame_wire_spec(1) by blast
    assume "rb_invar rb" "length f + 2 \<le> GG_RingBuffer_GetSpace rb"
    then show "\<exists>rb'. GG_Ipv4FrameSerializer_SerializeFrame (GG_Ipv4FrameSerializer_Create (Some cfg)) f rb =
        Some (GG_SUCCESS, rb') \<and> rb_invar rb' \<and> rb_size rb' = rb_size rb \<and>
        rb_contents rb' = rb_contents rb @ frame_wire cfg f"
      by (rule frame_wire_spec(4) [OF bspec [OF assms(2) f]])
  qed
  have wires: "\<forall>x \<in> set (map (frame_wire cfg) frames). wire_ok (unat mtu) x \<and> frame_of (Some cfg) None x \<noteq> None"
    using assms(2) frame_wire_spec(2,3) by auto
  have out: "frames_of (Some cfg) None (map (frame_wire cfg) frames) = map restored_frame frames"
    using assms(2) by (induction frames) (auto simp: frames_of_def frame_wire_spec(3))
  have "\<exists>assembler'. assemble_pieces assembler pieces = Some (map restored_frame frames, assembler')"
    if "concat pieces = concat (map (frame_wire cfg) frames)" for pieces
    using assemble_all [OF assms(1) wires that] unfolding out by blast
  with ser assms(4) show ?thesis by auto
qed

text \<open>C16: IP packets cross the link with header compression. With the same configuration at both ends, the
  packets serialized into the output buffer come out of the assembler, in order, however the byte
  stream is cut into pieces; each with its headers as compression and decompression leave them
  (\<open>restored_frame\<close>) and its payload unchanged.\<close>

theorem ipv4_stream_compressed:
  assumes "GG_Ipv4FrameAssembler_Create mtu (Some cfg) None = Inr assembler"
    and "\<forall>f \<in> set frames. frame_ok (unat mtu) f"
    and "rb_invar rb" and "rb_contents rb = []" and "sum_list (map length frames) + 2 \<le> GG_RingBuffer_GetSpace rb"
  shows "\<exists>rb'. serialize_frames (GG_Ipv4FrameSerializer_Create (Some cfg)) frames rb = Some rb' \<and>
    (\<forall>pieces. concat pieces = rb_contents rb' \<longrightarrow>
      (\<exists>assembler'. assemble_pieces assembler pieces = Some (map restored_frame frames, assembler')))"
  by (rule compressed_stream [OF assms])

definition example_icmp :: GG_Ipv4PacketHeader where
  "example_icmp = example_ip\<lparr>ip_protocol := 1, ip_total_length := 28\<rparr>"

definition example_icmp_packet :: bytes where
  "example_icmp_packet =
     header_bytes example_icmp (NOT (GG_Ipv4Checksum (header_bytes example_icmp 0))) @ [8, 0, 1, 2]"

lemma example_icmp_fields:
  "ip_protocol example_icmp = 1" "ip_ihl example_icmp = 6" "ip_total_length example_icmp = 28"
  by (simp_all add: example_icmp_def example_ip_def)

lemma example_icmp_ok: "ip_header_ok example_icmp"
  using example_ip_ok by (simp add: ip_header_ok_def example_icmp_def example_ip_def)

lemma example_icmp_parse: "GG_Ipv4PacketHeader_Parse example_icmp_packet =
    Inr (example_icmp\<lparr>ip_checksum := NOT (GG_Ipv4Checksum (header_bytes example_icmp 0))\<rparr>)"
  unfolding example_icmp_packet_def by (rule Parse_header_bytes [OF example_icmp_ok])

lemma example_icmp_length: "length example_icmp_packet = 28"
  using length_header_bytes [OF example_icmp_ok] by (simp add: example_icmp_packet_def example_icmp_fields)

lemma example_icmp_frame_ok: "frame_ok 100 example_icmp_packet"
  by (simp add: frame_ok_def example_icmp_parse headers_size_def example_icmp_length example_icmp_fields)

lemma example_ring:
  "rb_invar (GG_RingBuffer_Init (replicate 64 0))" "rb_contents (GG_RingBuffer_Init (replicate 64 0)) = []"
  "sum_list (map length [example_icmp_packet]) + 2 \<le> GG_RingBuffer_GetSpace (GG_RingBuffer_Init (replicate 64 0))"
proof -
  show i: "rb_invar (GG_RingBuffer_Init (replicate 64 0))" "rb_contents (GG_RingBuffer_Init (replicate 64 0)) = []"
    using Init_spec [of "replicate 64 0"] by simp_all
  show "sum_list (map length [example_icmp_packet]) + 2 \<le> GG_RingBuffer_GetSpace (GG_RingBuffer_Init (replicate 64 0))"
    by (simp add: GetSpace_eq [OF i(1)] i(2) example_icmp_length) (simp add: GG_RingBuffer_Init_def)
qed

theorem ipv4_stream_compressed_witness:
  "\<exists>assembler rb. GG_Ipv4FrameAssembler_Create 100 (Some example_config) None = Inr assembler \<and>
    serialize_frames (GG_Ipv4FrameSerializer_Create (Some example_config)) [example_icmp_packet]
      (GG_RingBuffer_Init (replicate 64 0)) = Some rb \<and>
    (\<exists>assembler'. assemble_pieces assembler [rb_contents rb] = Some ([restored_frame example_icmp_packet], assembler'))"
proof -
  obtain a where a: "GG_Ipv4FrameAssembler_Create 100 (Some example_config) None = Inr a"
    by (simp add: GG_Ipv4FrameAssembler_Create_def)
  have f: "\<forall>f \<in> set [example_icmp_packet]. frame_ok (unat (100 :: u16)) f" using example_icmp_frame_ok by simp
  from ipv4_stream_compressed [OF a f example_ring] obtain rb where
    r: "serialize_frames (GG_Ipv4FrameSerializer_Create (Some example_config)) [example_icmp_packet]
      (GG_RingBuffer_Init (replicate 64 0)) = Some rb"
    "\<And>pieces. concat pieces = rb_contents rb \<Longrightarrow>
      \<exists>a'. assemble_pieces a pieces = Some (map restored_frame [example_icmp_packet], a')"
    by blast
  from r(2) [of "[rb_contents rb]"] a r(1) show ?thesis by auto
qed

lemma restored_frame_same:
  assumes "GG_Ipv4PacketHeader_Parse f = Inr ip"
    and "ip_checksum ip = NOT (GG_Ipv4Checksum (header_bytes ip 0))"
    and "ip_protocol ip = GG_IPV4_PROTOCOL_UDP \<Longrightarrow> \<exists>u. udp_of ip f = Some u \<and> udp_checksum u = 0 \<and> \<not> length_elided ip u"
  shows "restored_frame f = f"
proof -
  note p = Parse_ok [OF assms(1)]
  let ?h = "4 * unat (ip_ihl ip)"
  have head: "header_bytes ip (NOT (GG_Ipv4Checksum (header_bytes ip 0))) = take ?h f" using p(2) assms(2) by simp
  show ?thesis
  proof (cases "ip_protocol ip = GG_IPV4_PROTOCOL_UDP")
    case False
    then have "udp_of ip f = None" "headers_size ip = ?h" by (simp_all add: udp_of_def headers_size_def)
    with assms(1) head show ?thesis by (simp add: restored_frame_def restored_def)
  next
    case True
    obtain u where u: "udp_of ip f = Some u" "udp_checksum u = 0" "\<not> length_elided ip u" using assms(3) [OF True] by blast
    have "GG_UdpPacketHeader_Parse (drop ?h f) = Inr u"
      using u(1) True by (auto simp: udp_of_def split: sum.splits)
    then have "GG_UdpPacketHeader_Serialize u = take 8 (drop ?h f)"
      using udp_serialize_parse [of "drop ?h f"] by simp
    moreover have "restored_udp ip n u = u" for n using u(2,3) by (simp add: restored_udp_def)
    moreover have "headers_size ip = ?h + 8" using True by (simp add: headers_size_def)
    moreover have "take ?h f @ take 8 (drop ?h f) @ drop (?h + 8) f = f"
      by (metis append.assoc append_take_drop_id take_add)
    ultimately show ?thesis using assms(1) head u(1) by (simp add: restored_frame_def restored_def)
  qed
qed

text \<open>
  A packet of which compression loses nothing: the IP checksum is the computed one, and the packet is not
  UDP, or is UDP without a checksum and with a length field that is not the one implied by the IP length.
\<close>

definition lossless :: "bytes \<Rightarrow> bool" where
  "lossless f \<longleftrightarrow>
     (case GG_Ipv4PacketHeader_Parse f of
        Inl _ \<Rightarrow> False
      | Inr ip \<Rightarrow> ip_checksum ip = NOT (GG_Ipv4Checksum (header_bytes ip 0)) \<and>
          (if ip_protocol ip = GG_IPV4_PROTOCOL_UDP
           then (case udp_of ip f of None \<Rightarrow> False | Some u \<Rightarrow> udp_checksum u = 0 \<and> \<not> length_elided ip u)
           else True))"

lemma lossless_restored: "lossless f \<Longrightarrow> restored_frame f = f"
  by (auto simp: lossless_def split: sum.splits option.splits if_splits intro!: restored_frame_same)

text \<open>C17: Packets of which compression loses nothing (\<open>lossless\<close>: a correct IP checksum, and not UDP, or UDP without a checksum whose
  length field is part of the compressed headers) cross a compressing link byte for byte: serialized with compression and
  fed, in any pieces, to an assembler with the same configuration, exactly these packets are emitted, in order.\<close>

theorem ipv4_compression_lossless:
  assumes "GG_Ipv4FrameAssembler_Create mtu (Some cfg) None = Inr assembler"
    and "\<forall>f \<in> set frames. frame_ok (unat mtu) f \<and> lossless f"
    and "rb_invar rb" and "rb_contents rb = []" and "sum_list (map length frames) + 2 \<le> GG_RingBuffer_GetSpace rb"
  shows "\<exists>rb'. serialize_frames (GG_Ipv4FrameSerializer_Create (Some cfg)) frames rb = Some rb' \<and>
    (\<forall>pieces. concat pieces = rb_contents rb' \<longrightarrow>
      (\<exists>assembler'. assemble_pieces assembler pieces = Some (frames, assembler')))"
proof -
  have "map restored_frame frames = frames" using assms(2) by (intro map_idI) (simp add: lossless_restored)
  with compressed_stream [OF assms(1) _ assms(3-5)] assms(2) show ?thesis by simp
qed

theorem ipv4_compression_lossless_witness:
  "\<exists>assembler rb. GG_Ipv4FrameAssembler_Create 100 (Some example_config) None = Inr assembler \<and>
    serialize_frames (GG_Ipv4FrameSerializer_Create (Some example_config)) [example_icmp_packet]
      (GG_RingBuffer_Init (replicate 64 0)) = Some rb \<and>
    (\<exists>assembler'. assemble_pieces assembler [rb_contents rb] = Some ([example_icmp_packet], assembler'))"
proof -
  obtain a where a: "GG_Ipv4FrameAssembler_Create 100 (Some example_config) None = Inr a"
    by (simp add: GG_Ipv4FrameAssembler_Create_def)
  have "ip_protocol (example_icmp\<lparr>ip_checksum := c\<rparr>) \<noteq> GG_IPV4_PROTOCOL_UDP" for c by (simp add: example_icmp_fields)
  moreover have "header_bytes (example_icmp\<lparr>ip_checksum := c\<rparr>) 0 = header_bytes example_icmp 0" for c
    by (simp add: header_bytes_def)
  ultimately have "lossless example_icmp_packet" by (simp add: lossless_def example_icmp_parse)
  then have f: "\<forall>f \<in> set [example_icmp_packet]. frame_ok (unat (100 :: u16)) f \<and> lossless f" using example_icmp_frame_ok by simp
  from ipv4_compression_lossless [OF a f example_ring] obtain rb where
    r: "serialize_frames (GG_Ipv4FrameSerializer_Create (Some example_config)) [example_icmp_packet]
      (GG_RingBuffer_Init (replicate 64 0)) = Some rb"
    "\<And>pieces. concat pieces = rb_contents rb \<Longrightarrow> \<exists>a'. assemble_pieces a pieces = Some ([example_icmp_packet], a')"
    by blast
  from r(2) [of "[rb_contents rb]"] a r(1) show ?thesis by auto
qed

lemma assemble_plain:
  "asm_plain a \<Longrightarrow> \<exists>fs a'. assemble a data = Some (fs, a') \<and> asm_plain a' \<and> asm_buffer_size a' = asm_buffer_size a \<and>
    (\<forall>f \<in> set fs. 4 \<le> length f \<and> length f \<le> asm_buffer_size a)"
proof (induction "length data" arbitrary: a data rule: less_induct)
  case less
  show ?case
  proof (cases "data = []")
    case True
    with less.prems show ?thesis by (simp add: assemble.simps)
  next
    case False
    obtain n where n: "GG_Ipv4FrameAssembler_GetFeedBuffer a = Some n"
      using GetFeedBuffer_total less.prems by (auto simp: asm_plain_def)
    obtain r consumed f a1 where 1: "GG_Ipv4FrameAssembler_Feed (take n data) a = Some (r, consumed, f, a1)"
      "fed (asm_buffer_size a) f a1"
      using Feed_plain [OF less.prems n, of "take n data"] by auto
    have "consumed \<noteq> 0 \<Longrightarrow> length (drop consumed data) < length data" using False by simp
    with less.hyps [of "drop consumed data" a1] 1 n False show ?thesis
      by (subst assemble.simps) (fastforce simp: fed_def split: option.splits)
  qed
qed

lemma assemble_pieces_plain:
  "asm_plain a \<Longrightarrow> \<exists>fs a'. assemble_pieces a pieces = Some (fs, a') \<and> asm_plain a' \<and> asm_buffer_size a' = asm_buffer_size a \<and>
    (\<forall>f \<in> set fs. 4 \<le> length f \<and> length f \<le> asm_buffer_size a)"
proof (induction pieces arbitrary: a)
  case (Cons v pieces)
  from assemble_plain [OF Cons.prems, of v] obtain fs a1 where
    "assemble a v = Some (fs, a1)" "asm_plain a1" "asm_buffer_size a1 = asm_buffer_size a"
    "\<forall>f \<in> set fs. 4 \<le> length f \<and> length f \<le> asm_buffer_size a" by blast
  with Cons.IH [of a1] show ?case by auto
qed simp

text \<open>C18: An assembler without decompression withstands any input: whatever bytes arrive, in whatever pieces,
  every call returns without a failed assertion, and every frame it emits has at least 4 bytes and at most the size of the buffer.
  In every state it reaches it offers a feed buffer that ends inside its buffer, and of any data that fits there it
  consumes at most what it is given and keeps at most what its buffer holds.\<close>

theorem ipv4_assembler_robust:
  assumes "GG_Ipv4FrameAssembler_Create mtu None None = Inr assembler"
  shows "\<exists>frames assembler'. assemble_pieces assembler pieces = Some (frames, assembler') \<and>
    (\<forall>f \<in> set frames. 4 \<le> length f \<and> length f \<le> unat mtu) \<and>
    (\<exists>n. GG_Ipv4FrameAssembler_GetFeedBuffer assembler' = Some n \<and> asm_payload_size assembler' + n \<le> unat mtu \<and>
      (\<forall>data. length data \<le> n \<longrightarrow>
        (\<exists>r consumed f next. GG_Ipv4FrameAssembler_Feed data assembler' = Some (r, consumed, f, next) \<and>
          consumed \<le> length data \<and> (\<forall>x. f = Some x \<longrightarrow> 4 \<le> length x \<and> length x \<le> unat mtu) \<and>
          asm_payload_size next \<le> unat mtu \<and> length (asm_buffer next) = unat mtu)))"
proof -
  have size: "asm_buffer_size assembler = unat mtu"
    using assms by (auto simp: GG_Ipv4FrameAssembler_Create_def split: if_splits)
  obtain frames a where a: "assemble_pieces assembler pieces = Some (frames, a)" "asm_plain a" "asm_buffer_size a = unat mtu"
    "\<forall>f \<in> set frames. 4 \<le> length f \<and> length f \<le> unat mtu"
    using assemble_pieces_plain [OF Create_plain [OF assms], of pieces] size by auto
  obtain n where n: "GG_Ipv4FrameAssembler_GetFeedBuffer a = Some n"
    using GetFeedBuffer_total a(2) by (auto simp: asm_plain_def)
  have "\<exists>r consumed f next. GG_Ipv4FrameAssembler_Feed data a = Some (r, consumed, f, next) \<and>
      consumed \<le> length data \<and> (\<forall>x. f = Some x \<longrightarrow> 4 \<le> length x \<and> length x \<le> unat mtu) \<and>
      asm_payload_size next \<le> unat mtu \<and> length (asm_buffer next) = unat mtu" if "length data \<le> n" for data
    using Feed_plain [OF a(2) n that] a(3) by (auto simp: fed_def asm_plain_def asm_ok_def split: if_splits)
  moreover have "asm_payload_size a + n \<le> unat mtu"
    using n a(2,3) by (auto simp: GG_Ipv4FrameAssembler_GetFeedBuffer_def asm_plain_def asm_ok_def split: if_splits)
  ultimately show ?thesis using a(1,4) n by blast
qed

theorem ipv4_assembler_robust_witness:
  "\<exists>assembler frames assembler'. GG_Ipv4FrameAssembler_Create 64 None None = Inr assembler \<and>
    assemble_pieces assembler [[0xFF, 0, 1], [2, 0xFF], [0, 0, 0, 0, 0x45]] = Some (frames, assembler')"
proof -
  obtain a where a: "GG_Ipv4FrameAssembler_Create 64 None None = Inr a"
    by (simp add: GG_Ipv4FrameAssembler_Create_def)
  with ipv4_assembler_robust [OF a, of "[[0xFF, 0, 1], [2, 0xFF], [0, 0, 0, 0, 0x45]]"] show ?thesis by blast
qed

text \<open>
  With decompression that does not hold: a packet marked as compressed whose length field is 4 (or 5)
  fails the assertion at the start of \<^verbatim>\<open>GG_Ipv4_DecompressHeaders\<close>.
\<close>

lemma assembler_short_compressed_packet:
  assumes "GG_Ipv4FrameAssembler_Create mtu (Some cfg) None = Inr assembler"
  shows "GG_Ipv4FrameAssembler_Feed [0x80, 0, 0, 4] assembler = None"
proof -
  let ?n = "unat mtu"
  have a: "assembler = \<lparr>asm_ip_config = Some cfg, asm_ip_map = None, asm_skip = 0, asm_payload_size = 0,
      asm_packet_size = 0, asm_buffer_size = ?n, asm_buffer = replicate ?n 0\<rparr>" "20 \<le> ?n"
    using assms by (auto simp: GG_Ipv4FrameAssembler_Create_def split: if_splits)
  have m: "memcpy_at (replicate ?n 0) 0 [0x80, 0, 0, 4] = [0x80, 0, 0, 4] @ replicate (?n - 4) 0"
    using a(2) by (simp add: memcpy_at_def)
  have be: "unat (GG_BytesToInt16Be ([0x80, 0, 0, 4] @ replicate (?n - 4) 0) 2) = 4"
    by (simp add: GG_BytesToInt16Be_def)
  show ?thesis
    using a(2) unfolding a(1)
    by (simp add: GG_Ipv4FrameAssembler_Feed_def m be del: append_Cons)
      (simp add: feed_packet_def GG_Ipv4FrameAssembler_EmitPacket_def packet_frame_def
        GG_Ipv4FrameAssembler_DecompressAndEmitPacket_def GG_Ipv4_DecompressHeaders_def)
qed

end
