(* ===== verification/Gattlink_Delivery.thy ===== *)
theory Gattlink_Delivery
  imports Gattlink_Props "HOL-Library.Sublist"
begin

text \<open>
  One direction of a Gattlink session, with absolute packet numbers. \<open>P\<close> is the list of all payloads
  the sender has cut out of its byte stream since the session started, \<open>b\<close> of them are acknowledged,
  and the receiver has accepted the first \<open>r\<close>. The serial numbers of the protocol are these numbers
  modulo 32. The theory relates the outbound record of the sender (\<open>snd_inv\<close>), the inbound state of
  the receiver (\<open>rcv_inv\<close>) and the packets under way (\<open>chan_inv\<close>), and shows how each step of
  either end changes the three.
\<close>

section \<open>Packets under way\<close>

definition frames_at :: "bytes list \<Rightarrow> nat list \<Rightarrow> (nat \<times> bytes) list" where
  "frames_at P is = map (\<lambda>i. (i mod 32, P ! i)) is"

definition ack_of :: "bytes \<Rightarrow> nat list" where
  "ack_of packet = (if has_ack (hd packet) then [ack_psn (hd packet)] else [])"

definition acks :: "bytes list \<Rightarrow> nat list" where
  "acks packets = concat (map ack_of packets)"

lemma acks_simps [simp]:
  "acks [] = []" "acks (p # ps) = ack_of p @ acks ps" "acks (ps @ qs) = acks ps @ acks qs"
  by (simp_all add: acks_def)

lemma data_frames_simps [simp]:
  "data_frames [] = []" "data_frames (p # ps) = data_frame p @ data_frames ps"
  "data_frames (ps @ qs) = data_frames ps @ data_frames qs"
  by (simp_all add: data_frames_def)

text \<open>
  The data frames \<open>fs\<close> on their way to the receiver carry numbers that are less than 32 away from the
  next expected one, and stay so in the order of their arrival; the acknowledgements \<open>as\<close> on their way
  back never decrease, and are at most one behind what the sender knows.
\<close>

definition frames_ok :: "bytes list \<Rightarrow> nat \<Rightarrow> (nat \<times> bytes) list \<Rightarrow> bool" where
  "frames_ok P r fs \<longleftrightarrow> (\<exists>is. fs = frames_at P is \<and> sorted_wrt (\<lambda>i j. i \<le> j + 30) is \<and>
     (\<forall>i \<in> set is. i < length P \<and> r \<le> i + 31))"

definition acks_ok :: "nat \<Rightarrow> nat \<Rightarrow> nat list \<Rightarrow> bool" where
  "acks_ok b r as \<longleftrightarrow> (\<exists>js. as = map (\<lambda>j. j mod 32) js \<and> sorted js \<and> (\<forall>j \<in> set js. b \<le> j + 1 \<and> j < r))"

definition chan_inv :: "bytes list \<Rightarrow> nat \<Rightarrow> nat \<Rightarrow> (nat \<times> bytes) list \<Rightarrow> nat list \<Rightarrow> bool" where
  "chan_inv P b r fs as \<longleftrightarrow> b \<le> r \<and> r \<le> length P \<and> length P \<le> b + 31 \<and> frames_ok P r fs \<and> acks_ok b r as"

lemma frames_okI:
  "fs = frames_at P is \<Longrightarrow> sorted_wrt (\<lambda>i j. i \<le> j + 30) is \<Longrightarrow>
    (\<And>i. i \<in> set is \<Longrightarrow> i < length P) \<Longrightarrow> (\<And>i. i \<in> set is \<Longrightarrow> r \<le> i + 31) \<Longrightarrow> frames_ok P r fs"
  unfolding frames_ok_def by blast

lemma acks_okI:
  "as = map (\<lambda>j. j mod 32) js \<Longrightarrow> sorted js \<Longrightarrow>
    (\<And>j. j \<in> set js \<Longrightarrow> b \<le> j + 1) \<Longrightarrow> (\<And>j. j \<in> set js \<Longrightarrow> j < r) \<Longrightarrow> acks_ok b r as"
  unfolding acks_ok_def by blast

lemma frames_ok_Cons:
  assumes "frames_ok P r ((psn, payload) # fs)"
  obtains i "is" where "psn = i mod 32" "payload = P ! i" "fs = frames_at P is" "i < length P" "r \<le> i + 31"
    "\<And>j. j \<in> set is \<Longrightarrow> i \<le> j + 30" "sorted_wrt (\<lambda>i j. i \<le> j + 30) is"
    "\<And>j. j \<in> set is \<Longrightarrow> j < length P" "\<And>j. j \<in> set is \<Longrightarrow> r \<le> j + 31"
  using assms by (auto simp: frames_ok_def frames_at_def Cons_eq_map_conv)

lemma acks_ok_Cons:
  assumes "acks_ok b r (a # as)"
  obtains j js where "a = j mod 32" "as = map (\<lambda>j. j mod 32) js" "sorted js" "\<And>i. i \<in> set js \<Longrightarrow> j \<le> i"
    "\<And>j. j \<in> set js \<Longrightarrow> b \<le> j + 1" "\<And>j. j \<in> set js \<Longrightarrow> j < r" "b \<le> j + 1" "j < r"
  using assms by (auto simp: acks_ok_def Cons_eq_map_conv)

lemma frames_ok_lose:
  assumes "frames_ok P r (fs1 @ fs2 @ fs3)"
  shows "frames_ok P r (fs1 @ fs3)"
proof -
  obtain "is" where i: "fs1 @ fs2 @ fs3 = frames_at P is" "sorted_wrt (\<lambda>i j. i \<le> j + 30) is"
    "\<forall>i \<in> set is. i < length P \<and> r \<le> i + 31" using assms unfolding frames_ok_def by blast
  obtain i1 i2 i3 where s: "is = i1 @ i2 @ i3" "fs1 = frames_at P i1" "fs3 = frames_at P i3"
    using i(1) unfolding frames_at_def by (metis (no_types, lifting) map_eq_append_conv)
  show ?thesis
    by (rule frames_okI [of _ _ "i1 @ i3"]) (use i(2,3) s in \<open>auto simp: frames_at_def sorted_wrt_append\<close>)
qed

lemma acks_ok_lose:
  assumes "acks_ok b r (as1 @ as2 @ as3)"
  shows "acks_ok b r (as1 @ as3)"
proof -
  obtain js where a: "as1 @ as2 @ as3 = map (\<lambda>j. j mod 32) js" "sorted js" "\<forall>j \<in> set js. b \<le> j + 1 \<and> j < r"
    using assms unfolding acks_ok_def by blast
  obtain j1 j2 j3 where s: "js = j1 @ j2 @ j3" "as1 = map (\<lambda>j. j mod 32) j1" "as3 = map (\<lambda>j. j mod 32) j3"
    using a(1) by (metis (no_types, lifting) map_eq_append_conv)
  show ?thesis
    by (rule acks_okI [of _ "j1 @ j3"]) (use a(2,3) s in \<open>auto simp: sorted_append\<close>)
qed

lemma chan_inv_init [simp]: "chan_inv [] 0 0 [] []"
  by (auto simp: chan_inv_def frames_ok_def acks_ok_def frames_at_def)

lemma chan_inv_lose:
  "chan_inv P b r (fs1 @ fs2 @ fs3) as \<Longrightarrow> chan_inv P b r (fs1 @ fs3) as"
  "chan_inv P b r fs (as1 @ as2 @ as3) \<Longrightarrow> chan_inv P b r fs (as1 @ as3)"
  unfolding chan_inv_def by (blast intro: frames_ok_lose acks_ok_lose)+

lemma chan_inv_send:
  assumes c: "chan_inv P b r fs as" and j: "b \<le> j" and len: "length (P @ Q) \<le> b + 31"
  shows "chan_inv (P @ Q) b r (fs @ frames_at (P @ Q) [j..<length (P @ Q)]) as"
proof -
  obtain "is" where i: "fs = frames_at P is" "sorted_wrt (\<lambda>i j. i \<le> j + 30) is"
    "\<And>i. i \<in> set is \<Longrightarrow> i < length P" "\<And>i. i \<in> set is \<Longrightarrow> r \<le> i + 31"
    using c by (auto simp: chan_inv_def frames_ok_def)
  have P: "length P \<le> b + 31" "r \<le> length P" using c by (auto simp: chan_inv_def)
  have new: "sorted_wrt (\<lambda>i j. i \<le> j + 30) [j..<length (P @ Q)]"
    by (rule sorted_wrt_mono_rel [OF _ sorted_wrt_upt]) simp
  have old: "i \<le> m + 30" if "i \<in> set is" "j \<le> m" for i m using i(3) [OF that(1)] that(2) P(1) j by simp
  have "frames_ok (P @ Q) r (fs @ frames_at (P @ Q) [j..<length (P @ Q)])"
  proof (rule frames_okI [of _ _ "is @ [j..<length (P @ Q)]"])
    show "fs @ frames_at (P @ Q) [j..<length (P @ Q)] = frames_at (P @ Q) (is @ [j..<length (P @ Q)])"
      using i(1,3) by (auto simp: frames_at_def nth_append)
    show "sorted_wrt (\<lambda>i j. i \<le> j + 30) (is @ [j..<length (P @ Q)])"
      using i(2) new old unfolding sorted_wrt_append by auto
  qed (use i(3,4) P j in \<open>force+\<close>)
  then show ?thesis using c len by (auto simp: chan_inv_def)
qed

lemma eq_mod_32:
  fixes i r :: nat
  assumes "i mod 32 = r mod 32" "i < r + 32" "r < i + 32"
  shows "i = r"
proof -
  have d: "i = 32 * (i div 32) + r mod 32" "r = 32 * (r div 32) + r mod 32"
    using assms(1) mult_div_mod_eq [of 32 i] mult_div_mod_eq [of 32 r] by simp_all
  then have "i div 32 = r div 32" using assms(2,3) by linarith
  with d show ?thesis by simp
qed

text \<open>The frame with the expected serial number is the next one.\<close>

lemma chan_inv_accept:
  assumes c: "chan_inv P b r ((psn, payload) # fs) as" and e: "psn = r mod 32"
  shows "r < length P" "payload = P ! r" "chan_inv P b (Suc r) fs as"
proof -
  have "frames_ok P r ((psn, payload) # fs)" using c by (simp add: chan_inv_def)
  then obtain i "is" where i: "psn = i mod 32" "payload = P ! i" "fs = frames_at P is" "i < length P" "r \<le> i + 31"
    "\<And>j. j \<in> set is \<Longrightarrow> i \<le> j + 30" "sorted_wrt (\<lambda>i j. i \<le> j + 30) is"
    "\<And>j. j \<in> set is \<Longrightarrow> j < length P" "\<And>j. j \<in> set is \<Longrightarrow> r \<le> j + 31"
    by (rule frames_ok_Cons) (rule that)
  have "length P \<le> b + 31" "b \<le> r" using c by (auto simp: chan_inv_def)
  then have lt: "i < r + 32" "r < i + 32" using i(4,5) by auto
  have ir: "i = r" using eq_mod_32 [OF trans [OF i(1) [symmetric] e] lt] .
  with i show "r < length P" "payload = P ! r" by auto
  have near: "Suc r \<le> j + 31" if "j \<in> set is" for j using i(6) [OF that] ir by simp
  have "frames_ok P (Suc r) fs" by (rule frames_okI [OF i(3,7,8) near])
  moreover have "acks_ok b (Suc r) as" using c unfolding chan_inv_def acks_ok_def by (fastforce dest: less_SucI)
  ultimately show "chan_inv P b (Suc r) fs as" using c i(4) ir by (auto simp: chan_inv_def)
qed

text \<open>
  Before the first packet was accepted, a packet that is not the expected one is refused and not
  acknowledged, as long as the two windows together leave room in the space of serial numbers.
\<close>

lemma chan_inv_first:
  assumes c: "chan_inv P b 0 ((psn, payload) # fs) as" and e: "psn \<noteq> 0" and w: "length P \<le> b + tx" "tx + rx \<le> 33"
  shows "rx \<le> GG_GattlinkProtocol_CalculateDistance psn 0"
proof -
  have f: "frames_ok P 0 ((psn, payload) # fs)" and P: "length P \<le> b + 31" "b = 0" using c by (auto simp: chan_inv_def)
  obtain i where i: "psn = i mod 32" "i < length P" by (rule frames_ok_Cons [OF f]) blast
  then have "psn = i" using P by simp
  moreover have "(32 - i) mod 32 = 32 - i" using e i by simp
  ultimately show ?thesis using w i P by (simp add: GG_GattlinkProtocol_CalculateDistance_def)
qed

lemma chan_inv_drop_frame: "chan_inv P b r (f # fs) as \<Longrightarrow> chan_inv P b r fs as"
  using chan_inv_lose(1) [of P b r "[]" "[f]" fs] by simp

lemma chan_inv_ack:
  assumes c: "chan_inv P b r fs (a # as)" and d: "d = GG_GattlinkProtocol_CalculateDistance (b mod 32) a"
  shows "a < 32" "chan_inv P (if d < length P - b then b + Suc d else b) r fs as"
proof -
  have "acks_ok b r (a # as)" using c by (simp add: chan_inv_def)
  then obtain j js where j: "a = j mod 32" "as = map (\<lambda>j. j mod 32) js" "sorted js" "\<And>i. i \<in> set js \<Longrightarrow> j \<le> i"
    "\<And>j. j \<in> set js \<Longrightarrow> b \<le> j + 1" "\<And>j. j \<in> set js \<Longrightarrow> j < r" "b \<le> j + 1" "j < r"
    by (rule acks_ok_Cons) (rule that)
  show "a < 32" using j(1) by simp
  have P: "length P \<le> b + 31" "r \<le> length P" "b \<le> r" using c by (auto simp: chan_inv_def)
  show "chan_inv P (if d < length P - b then b + Suc d else b) r fs as"
  proof (cases "b \<le> j")
    case True
    then have "a = sn_add (b mod 32) (j - b)" using j(1) mod_add_left_eq [of b 32 "j - b"] by (simp add: sn_add_def)
    then have dj: "d = j - b" using d j(8) P by (simp add: CalculateDistance_sn_add)
    have "acks_ok (Suc j) r as" by (rule acks_okI [OF j(2,3)]) (use j(4,6) in auto)
    with c True j(8) P have "chan_inv P (Suc j) r fs as" by (auto simp: chan_inv_def)
    moreover have "d < length P - b" "b + Suc d = Suc j" using dj True j(8) P by auto
    ultimately show ?thesis by simp
  next
    case False
    then have "b = Suc j" using j(7) by simp
    then have "a = sn_add (b mod 32) 31" using j(1)
      by (simp add: sn_add_def mod_add_left_eq)
    then have "d = 31" using d by (simp add: CalculateDistance_sn_add)
    moreover have "acks_ok b r as" by (rule acks_okI [OF j(2,3,5,6)])
    ultimately show ?thesis using c P by (auto simp: chan_inv_def)
  qed
qed

lemma chan_inv_acked:
  assumes c: "chan_inv P b r fs as" and q: "\<forall>a \<in> set qs. a = (r - 1) mod 32" "qs \<noteq> [] \<longrightarrow> 0 < r"
  shows "chan_inv P b r fs (as @ qs)"
proof (cases "qs = []")
  case False
  obtain js where j: "as = map (\<lambda>j. j mod 32) js" "sorted js" "\<And>j. j \<in> set js \<Longrightarrow> b \<le> j + 1" "\<And>j. j \<in> set js \<Longrightarrow> j < r"
    using c by (auto simp: chan_inv_def acks_ok_def)
  have r: "0 < r" "b \<le> r" using False q c by (auto simp: chan_inv_def)
  have "qs = replicate (length qs) ((r - 1) mod 32)" using q(1) by (metis replicate_eqI)
  then have "acks_ok b r (as @ qs)"
    by (intro acks_okI [of _ "js @ replicate (length qs) (r - 1)"])
      (use j(1,2) r in \<open>auto simp: sorted_append dest: j(3,4)\<close>)
  then show ?thesis using c by (auto simp: chan_inv_def)
qed (use c in simp)

section \<open>The sender\<close>

definition snd_inv ::
  "nat \<Rightarrow> bytes \<Rightarrow> GG_GattlinkOutboundPayloadInfo \<Rightarrow> bytes list \<Rightarrow> nat \<Rightarrow> nat \<Rightarrow> bool" where
  "snd_inv tx str ob P b j \<longleftrightarrow> b \<le> length P \<and> window_ok tx (length str) ob (length P - b) j \<and>
     next_expected_ack_sn ob = b mod 32 \<and>
     (\<forall>i < length P - b. snd (win_frame ob str i) = P ! (b + i))"

lemma snd_inv_frame:
  "snd_inv tx str ob P b j \<Longrightarrow> i < length P - b \<Longrightarrow> win_frame ob str i = ((b + i) mod 32, P ! (b + i))"
  by (auto simp: snd_inv_def win_frame_def sn_add_def mod_add_left_eq prod_eq_iff)

lemma win_frames_bytes: "concat (map snd (win_frames ob str 0 k)) =
    take (win_bytes (payload_sizes ob) (next_expected_ack_sn ob) k) str"
  by (induction k) (simp_all add: win_frames_def win_frame_def subarray_def take_add)

lemma snd_inv_stream:
  assumes "snd_inv tx str ob P b j"
  shows "\<exists>rest. str = concat (drop b P) @ rest"
proof -
  have "map snd (win_frames ob str 0 (length P - b)) = drop b P"
    using assms by (intro nth_equalityI) (auto simp: snd_inv_def win_frames_def)
  then have "concat (drop b P) = take (win_bytes (payload_sizes ob) (next_expected_ack_sn ob) (length P - b)) str"
    using win_frames_bytes [of ob str "length P - b"] by simp
  then show ?thesis by (metis append_take_drop_id)
qed

lemma snd_inv_window: "snd_inv tx str ob P b j \<Longrightarrow> length P \<le> b + tx \<and> tx < 32 \<and> j \<le> length P - b"
  using window_okD(4-6) [of tx "length str" ob "length P - b" j] by (auto simp: snd_inv_def)

text \<open>New data at the end of the stream does not disturb the window.\<close>

lemma snd_inv_more:
  assumes "snd_inv tx str ob P b j"
  shows "snd_inv tx (str @ xs) ob P b j"
proof -
  have w: "window_ok tx (length str) ob (length P - b) j" using assms by (simp add: snd_inv_def)
  have "win_frame ob (str @ xs) i = win_frame ob str i" if "i < length P - b" for i
    using window_bytes_less [OF w that] by (simp add: win_frame_def subarray_def)
  with assms show ?thesis by (auto simp: snd_inv_def window_ok_def)
qed

context gattlink_client_connected
begin

lemma snd_inv_send:
  assumes inv: "cinv (gl_client self)" and s: "snd_inv tx (stream (gl_client self)) (gl_out self) P b j"
    and tx: "tx = max_tx_window_size (actual_session_cfg self)"
  shows "\<exists>self' packets Q. GG_GattlinkProtocol_SendNextPackets C self = Some self' \<and> same_session self self' \<and>
    cinv (gl_client self') \<and> stream (gl_client self') = stream (gl_client self) \<and>
    sent (gl_client self') = sent (gl_client self) @ packets \<and>
    snd_inv tx (stream (gl_client self)) (gl_out self') (P @ Q) b (length (P @ Q) - b) \<and>
    data_frames packets = frames_at (P @ Q) [b + j..<length (P @ Q)]"
proof -
  let ?str = "stream (gl_client self)" and ?k = "length P - b"
  have w: "window_ok tx (length ?str) (gl_out self) ?k j" and b: "b \<le> length P"
    and a: "next_expected_ack_sn (gl_out self) = b mod 32" using s by (auto simp: snd_inv_def)
  from send_loop [OF inv w refl tx] obtain self' packets k' where r:
    "GG_GattlinkProtocol_SendNextPackets C self = Some self'" "same_session self self'"
    "cinv (gl_client self')" "stream (gl_client self') = ?str"
    "sent (gl_client self') = sent (gl_client self) @ packets"
    "window_ok tx (length ?str) (gl_out self') k' k'" "?k \<le> k'"
    "data_frames packets = win_frames (gl_out self') ?str j k'"
    "win_frames (gl_out self') ?str 0 ?k = win_frames (gl_out self) ?str 0 ?k" by blast
  define Q where "Q = map snd (win_frames (gl_out self') ?str ?k k')"
  have len: "length (P @ Q) = b + k'" using r(7) b by (simp add: Q_def win_frames_def)
  have a': "next_expected_ack_sn (gl_out self') = b mod 32" using r(2) a by (simp add: same_session_def)
  have old: "win_frame (gl_out self') ?str i = win_frame (gl_out self) ?str i" if "i < ?k" for i
    using arg_cong [OF r(9), of "\<lambda>xs. xs ! i"] that by (simp add: win_frames_def)
  have "snd (win_frame (gl_out self') ?str i) = (P @ Q) ! (b + i)" if "i < k'" for i
  proof (cases "i < ?k")
    case True
    then show ?thesis using old [OF True] s by (auto simp: snd_inv_def nth_append)
  next
    case False
    then show ?thesis using that b by (auto simp: Q_def nth_append win_frames_def)
  qed
  then have s': "snd_inv tx ?str (gl_out self') (P @ Q) b (length (P @ Q) - b)"
    using len r(6) a' by (auto simp: snd_inv_def)
  have "data_frames packets = frames_at (P @ Q) [b + j..<length (P @ Q)]"
    unfolding r(8) len
    by (rule nth_equalityI) (use snd_inv_frame [OF s'] len in \<open>auto simp: win_frames_def frames_at_def add.assoc\<close>)
  with r(1-5) s' show ?thesis by blast
qed

end

context gattlink_client
begin

lemma snd_inv_ack:
  assumes inv: "cinv (gl_client self)" and s: "snd_inv tx (stream (gl_client self)) (gl_out self) P b (length P - b)"
    and p: "p < 32" and d: "d = GG_GattlinkProtocol_CalculateDistance (b mod 32) p"
    and b': "b' = (if d < length P - b then b + Suc d else b)"
  shows "\<exists>ob c. handle_ack C p self = Some (self\<lparr>gl_out := ob, gl_client := c\<rparr>) \<and>
    (c = gl_client self \<or> (\<exists>n. c = ConsumeOutgoingData C n (gl_client self))) \<and> cinv c \<and>
    sent c = sent (gl_client self) \<and>
    snd_inv tx (stream c) ob P b' (length P - b') \<and>
    concat (take b' P) @ stream c = concat (take b P) @ stream (gl_client self) \<and>
    psn_to_ack_with ob = psn_to_ack_with (gl_out self) \<and> ack_now ob = ack_now (gl_out self) \<and>
    outstanding_unacked_packets ob = outstanding_unacked_packets (gl_out self) \<and>
    ack_timer ob = ack_timer (gl_out self)"
proof -
  let ?str = "stream (gl_client self)" and ?k = "length P - b"
  have w: "window_ok tx (length ?str) (gl_out self) ?k ?k" and a: "next_expected_ack_sn (gl_out self) = b mod 32"
    using s by (auto simp: snd_inv_def)
  show ?thesis
  proof (cases "d < ?k")
    case False
    with handle_ack_spec(1) [OF inv p w, of d] a d have "handle_ack C p self = Some self" by simp
    with False inv s b' show ?thesis
      by (intro exI [of _ "gl_out self"] exI [of _ "gl_client self"]) simp
  next
    case True
    define n where "n = win_bytes (payload_sizes (gl_out self)) (b mod 32) (Suc d)"
    from handle_ack_spec(2) [OF inv p w, of d n] a d True obtain ob where o:
      "handle_ack C p self = Some (self\<lparr>gl_out := ob, gl_client := ConsumeOutgoingData C n (gl_client self)\<rparr>)"
      "n \<le> length ?str" "window_ok tx (length ?str - n) ob (?k - Suc d) (?k - Suc d)"
      "win_frames ob (drop n ?str) 0 (?k - Suc d) = win_frames (gl_out self) ?str (Suc d) ?k"
      "psn_to_ack_with ob = psn_to_ack_with (gl_out self)" "ack_now ob = ack_now (gl_out self)"
      "outstanding_unacked_packets ob = outstanding_unacked_packets (gl_out self)"
      "ack_timer ob = ack_timer (gl_out self)" "next_expected_ack_sn ob = sn_add (b mod 32) (Suc d)"
      by (auto simp: n_def)
    let ?c = "ConsumeOutgoingData C n (gl_client self)"
    have str: "stream ?c = drop n ?str" by (rule consume_stream [OF inv o(2)])
    have bS: "b' = b + Suc d" "b' \<le> length P" "length P - b' = ?k - Suc d" using b' True by auto
    have "snd (win_frame ob (drop n ?str) i) = P ! (b' + i)" if "i < ?k - Suc d" for i
    proof -
      have "win_frame ob (drop n ?str) i = win_frame (gl_out self) ?str (Suc d + i)"
        using arg_cong [OF o(4), of "\<lambda>xs. xs ! i"] that by (simp add: win_frames_def)
      then show ?thesis using snd_inv_frame [OF s, of "Suc d + i"] that bS(1) by (simp add: add.assoc)
    qed
    then have s': "snd_inv tx (stream ?c) ob P b' (length P - b')"
      using o(2,3,9) str bS mod_add_left_eq [of b 32 "Suc d"] by (simp add: snd_inv_def sn_add_def)
    have "map snd (win_frames (gl_out self) ?str 0 (Suc d)) = take (Suc d) (drop b P)"
      by (rule nth_equalityI) (use snd_inv_frame [OF s] True in \<open>auto simp: win_frames_def simp del: upt_Suc\<close>)
    then have "take n ?str = concat (take (Suc d) (drop b P))"
      using win_frames_bytes [of "gl_out self" ?str "Suc d"] a by (simp add: n_def)
    then have "concat (take b' P) @ stream ?c = concat (take b P) @ ?str"
      unfolding bS(1) take_add str by (simp flip: \<open>take n ?str = _\<close>)
    with o(1,5-8) s' consume_sent consume_cinv [OF inv o(2)] show ?thesis by blast
  qed
qed

end

section \<open>The receiver\<close>

text \<open>The received bytes the client has not consumed yet.\<close>

definition unread :: "GG_GattlinkInboundPayloadInfo \<Rightarrow> bytes" where
  "unread i = subarray (payload_buf i) (bytes_consumed i) (payload_len i - bytes_consumed i)"

text \<open>An acknowledgement is due, at once or when the timer fires.\<close>

definition ack_pend :: "GG_GattlinkOutboundPayloadInfo \<Rightarrow> bool" where
  "ack_pend ob \<longleftrightarrow> ack_now ob \<or> 0 < outstanding_unacked_packets ob \<or> ack_timer ob \<noteq> None"

text \<open>
  A client that takes all the data it is given: \<open>rcvd x D c\<close> says that of the byte stream \<open>source x\<close>
  the peer sends, the client in state \<open>c\<close> has consumed the first bytes \<open>D\<close>. Only incoming data
  changes that.
\<close>

locale gattlink_receiver = gattlink_client_connected C cinv stream sent opn
  for C :: "'c GG_GattlinkClient" and cinv and stream and sent and opn +
  fixes source :: "'x \<Rightarrow> bytes" and rcvd :: "'x \<Rightarrow> bytes \<Rightarrow> 'c \<Rightarrow> bool"
  assumes rcvd_consume: "rcvd x D c \<Longrightarrow> rcvd x D (ConsumeOutgoingData C n c)"
    and rcvd_send: "rcvd x D c \<Longrightarrow> rcvd x D (snd (SendRawData C p c))"
    and rcvd_stalled: "rcvd x D c \<Longrightarrow> rcvd x D (NotifySessionStalled C t c)"
    and rcvd_incoming: "cinv c \<Longrightarrow> in_ok i \<Longrightarrow> payload_buffer_full i \<Longrightarrow> unread i \<noteq> [] \<Longrightarrow>
      rcvd x D c \<Longrightarrow> D @ unread i @ w = source x \<Longrightarrow>
      \<exists>c' i'. NotifyIncomingDataAvailable C (c, i) = Some (c', i') \<and> rcvd x (D @ unread i) c' \<and>
        \<not> payload_buffer_full i' \<and> next_expected_data_psn i' = next_expected_data_psn i"

lemma prepare_cases:
  assumes "GG_GattlinkProtocol_PrepareNextPacket C self = Some (prepared, self1)"
  shows "self1 = self \<or> self1 = arm_retransmit self"
    and "prepared = Some (packet, n) \<Longrightarrow> (packet = ack_header self \<and> want_ack self) \<or>
      (\<exists>payload. packet = ack_header self @ of_nat (next_data_sn (gl_out self)) # payload)"
  using assms
  by (auto simp: GG_GattlinkProtocol_PrepareNextPacket_def arm_retransmit_def Let_def
      split: if_splits bind_splits)

lemma packet_header:
  assumes "psn_to_ack_with (gl_out self) < 32" "next_data_sn (gl_out self) < 32"
    and "(packet = ack_header self \<and> want_ack self) \<or>
      (\<exists>payload. packet = ack_header self @ of_nat (next_data_sn (gl_out self)) # payload)"
  shows "packet \<noteq> []" "hd packet AND 0x80 = 0"
    "ack_of packet = (if want_ack self then [psn_to_ack_with (gl_out self)] else [])"
proof -
  have bit: "(of_nat n :: u8) AND 0x80 = 0" "(0x40 OR of_nat n :: u8) AND 0x80 = 0" if "n < 32" for n
  proof -
    have "\<forall>n \<in> set [0..<32]. (of_nat n :: u8) AND 0x80 = 0 \<and> (0x40 OR of_nat n :: u8) AND 0x80 = 0" by code_simp
    with that show "(of_nat n :: u8) AND 0x80 = 0" "(0x40 OR of_nat n :: u8) AND 0x80 = 0" by simp_all
  qed
  show "packet \<noteq> []" "hd packet AND 0x80 = 0"
    "ack_of packet = (if want_ack self then [psn_to_ack_with (gl_out self)] else [])"
    using assms bit
    by (cases "want_ack self"; auto simp: ack_header_def ack_of_def has_ack_ack not_has_ack_psn ack_psn_ack)+
qed

lemma want_ack_pend: "want_ack self \<Longrightarrow> ack_pend (gl_out self)"
  by (auto simp: want_ack_def ack_pend_def)

lemma book_sent_fields:
  assumes "next_data_sn ob < 32"
  shows "psn_to_ack_with (book_sent packet n ob) = psn_to_ack_with ob" "next_data_sn (book_sent packet n ob) < 32"
    "ack_pend (book_sent packet n ob) \<Longrightarrow> ack_pend ob"
  using assms
  by (auto simp: book_sent_def Let_def GG_GattlinkProtocol_SetPayloadSize_def GG_GattlinkProtocol_GetNextSn_def
      ack_pend_def split: if_splits)

lemma ack_pend_arm [simp]: "ack_pend (gl_out (arm_retransmit self)) = ack_pend (gl_out self)"
  by (simp add: arm_retransmit_def ack_pend_def)

context gattlink_receiver
begin

text \<open>The acknowledgements among the packets that the send loop sends.\<close>

definition acks_of_send :: "'c GG_GattlinkProtocol \<Rightarrow> 'c GG_GattlinkProtocol \<Rightarrow> bool" where
  "acks_of_send self self' \<longleftrightarrow>
     (\<exists>packets. sent (gl_client self') = sent (gl_client self) @ packets \<and>
       (\<forall>a \<in> set (acks packets). a = psn_to_ack_with (gl_out self) \<and> ack_pend (gl_out self)) \<and>
       (\<forall>p \<in> set packets. p \<noteq> [] \<and> hd p AND 0x80 = 0)) \<and>
     (ack_pend (gl_out self') \<longrightarrow> ack_pend (gl_out self)) \<and>
     (\<forall>x D. rcvd x D (gl_client self) \<longrightarrow> rcvd x D (gl_client self'))"

lemma acks_of_send_refl: "acks_of_send self self"
  by (auto simp: acks_of_send_def)

lemma acks_of_send_step:
  assumes c: "cinv (gl_client self)" and sn: "psn_to_ack_with (gl_out self) < 32" "next_data_sn (gl_out self) < 32"
    and p: "GG_GattlinkProtocol_PrepareNextPacket C self = Some (Some (packet, n), self1)"
    and s2: "self2 = after_send C packet n self1"
  shows "cinv (gl_client self2)" "psn_to_ack_with (gl_out self2) < 32" "next_data_sn (gl_out self2) < 32"
    "acks_of_send self2 self' \<Longrightarrow> acks_of_send self self'"
proof -
  note pc = prepare_cases [OF p]
  note h = packet_header [OF sn pc(2) [OF refl]]
  have 1: "gl_client self1 = gl_client self" "psn_to_ack_with (gl_out self1) = psn_to_ack_with (gl_out self)"
    "next_data_sn (gl_out self1) = next_data_sn (gl_out self)" "ack_pend (gl_out self1) = ack_pend (gl_out self)"
    using pc(1) by auto
  have psn: "psn_to_ack_with (gl_out self2) = psn_to_ack_with (gl_out self)"
    and pend: "ack_pend (gl_out self2) \<Longrightarrow> ack_pend (gl_out self)"
    and nx: "next_data_sn (gl_out self2) < 32"
    using book_sent_fields [of "gl_out self1" packet n] 1 sn by (auto simp: s2 after_send_def)
  have cl: "gl_client self2 = snd (SendRawData C packet (gl_client self))" by (simp add: s2 after_send_def 1)
  from cl c show "cinv (gl_client self2)" using send_cinv by simp
  from psn sn show "psn_to_ack_with (gl_out self2) < 32" by simp
  from nx show "next_data_sn (gl_out self2) < 32" .
  assume a: "acks_of_send self2 self'"
  then obtain packets where ps: "sent (gl_client self') = sent (gl_client self) @ packet # packets"
    "\<forall>a \<in> set (acks packets). a = psn_to_ack_with (gl_out self2) \<and> ack_pend (gl_out self2)"
    "\<forall>p \<in> set packets. p \<noteq> [] \<and> hd p AND 0x80 = 0"
    using send_sent [OF c, of packet] cl by (auto simp: acks_of_send_def)
  from a have "ack_pend (gl_out self') \<longrightarrow> ack_pend (gl_out self)"
    and "\<forall>x D. rcvd x D (gl_client self) \<longrightarrow> rcvd x D (gl_client self')"
    using pend rcvd_send cl by (auto simp: acks_of_send_def)
  moreover have "\<forall>a \<in> set (acks (packet # packets)). a = psn_to_ack_with (gl_out self) \<and> ack_pend (gl_out self)"
    using ps(2) psn pend h(3) want_ack_pend [of self] by auto
  ultimately show "acks_of_send self self'" using ps h(1,2) unfolding acks_of_send_def
    by (intro conjI exI [of _ "packet # packets"]) auto
qed

lemma send_acks_spec:
  assumes "GG_GattlinkProtocol_SendNextPackets C self = Some self'" and "cinv (gl_client self)"
    and "psn_to_ack_with (gl_out self) < 32" and "next_data_sn (gl_out self) < 32"
  shows "acks_of_send self self'"
proof -
  define spec where "spec C0 s s' \<longleftrightarrow> (C0 = C \<longrightarrow> cinv (gl_client s) \<longrightarrow> psn_to_ack_with (gl_out s) < 32 \<longrightarrow>
    next_data_sn (gl_out s) < 32 \<longrightarrow> acks_of_send s s')" for C0 s s'
  have "spec C self self'"
  proof (rule GG_GattlinkProtocol_SendNextPackets.raw_induct [rotated, OF assms(1)], goal_cases)
    case (1 f C0 s s')
    have "acks_of_send s s'" if "C0 = C" and s: "cinv (gl_client s)" "psn_to_ack_with (gl_out s) < 32"
      "next_data_sn (gl_out s) < 32"
    proof -
      obtain prepared s1 where p: "GG_GattlinkProtocol_PrepareNextPacket C s = Some (prepared, s1)"
        using 1(2) \<open>C0 = C\<close> by (auto split: bind_splits)
      note pc = prepare_cases(1) [OF p]
      show ?thesis
      proof (cases prepared)
        case None
        with p 1(2) \<open>C0 = C\<close> pc show ?thesis by (auto simp: acks_of_send_def)
      next
        case (Some pn)
        obtain packet n where pn: "pn = (packet, n)" by (cases pn)
        define s2 where "s2 = after_send C packet n s1"
        have "fst (SendRawData C packet (gl_client s1)) = GG_SUCCESS" using send_ok pc s(1) by auto
        with p 1(2) \<open>C0 = C\<close> Some pn have "f C s2 = Some s'"
          by (simp add: GG_GattlinkProtocol_SendRawData_def split_beta s2_def after_send_def)
        from 1(1) [OF this] acks_of_send_step [OF s p [unfolded Some pn] s2_def] show ?thesis
          by (simp add: spec_def)
      qed
    qed
    then show ?case by (simp add: spec_def)
  qed
  with assms show ?thesis by (simp add: spec_def)
qed

end

end
