(* ===== verification/Gattlink_Link.thy ===== *)
theory Gattlink_Link
  imports Gattlink_Delivery
begin

text \<open>
  Two Gattlink endpoints and the packets under way between them. The invariant \<open>link\<close> joins the two
  directions of a session; every operation of one end keeps it, whatever packets were lost. The
  lemmas treat the operations of the left end; the right end is the same with the roles exchanged.
\<close>

lemma snd_inv_nonempty:
  assumes s: "snd_inv tx str ob P b j" and i: "b \<le> i" "i < length P"
  shows "P ! i \<noteq> []"
proof -
  have w: "window_ok tx (length str) ob (length P - b) j" using s by (simp add: snd_inv_def)
  have k: "i - b < length P - b" using i by simp
  have "payload_sizes ob ! sn_add (next_expected_ack_sn ob) (i - b) > 0"
    using window_okD(5,6,8) [OF w] k by simp
  moreover have "P ! i = snd (win_frame ob str (i - b))" using snd_inv_frame [OF s k] i by simp
  ultimately show ?thesis using window_bytes_less [OF w k] by (auto simp: win_frame_def subarray_def)
qed

lemma snd_inv_cong:
  assumes "snd_inv tx str ob P b j" and "next_expected_ack_sn ob' = next_expected_ack_sn ob"
    and "psn_to_ack_with ob' < 32" and "payload_sizes ob' = payload_sizes ob"
    and "next_data_sn ob' = next_data_sn ob"
  shows "snd_inv tx str ob' P b j"
  using assms window_ok_cong [of tx "length str" ob "length P - b" j ob']
  by (auto simp: snd_inv_def win_frame_def)

text \<open>Going back to the start of the window, for a retransmission.\<close>

lemma snd_inv_rewind:
  assumes "snd_inv tx str ob P b j" and "next_expected_ack_sn ob' = next_expected_ack_sn ob"
    and "psn_to_ack_with ob' < 32" and "payload_sizes ob' = payload_sizes ob"
    and "next_data_sn ob' = next_expected_ack_sn ob"
  shows "snd_inv tx str ob' P b 0"
  using assms by (auto simp: snd_inv_def win_frame_def window_ok_def)

definition data_packets :: "bytes list \<Rightarrow> bool" where
  "data_packets ps \<longleftrightarrow> (\<forall>p \<in> set ps. p \<noteq> [] \<and> hd p AND 0x80 = 0)"

context gattlink_receiver
begin

section \<open>One end\<close>

definition endpoint ::
  "nat \<Rightarrow> nat \<Rightarrow> 'x \<Rightarrow> bytes list \<Rightarrow> nat \<Rightarrow> nat \<Rightarrow> bytes \<Rightarrow> nat \<Rightarrow> 'c GG_GattlinkProtocol \<Rightarrow> bool" where
  "endpoint tx rx x P b j D r self \<longleftrightarrow>
     gl_state self = GG_GATTLINK_STATE_READY \<and> cinv (gl_client self) \<and> in_ok (gl_in self) \<and>
     max_tx_window_size (actual_session_cfg self) = tx \<and> max_rx_window_size (actual_session_cfg self) = rx \<and>
     snd_inv tx (stream (gl_client self)) (gl_out self) P b j \<and>
     next_expected_data_psn (gl_in self) = r mod 32 \<and> (0 < r \<longrightarrow> psn_to_ack_with (gl_out self) = (r - 1) mod 32) \<and>
     (ack_pend (gl_out self) \<longrightarrow> 0 < r) \<and> \<not> payload_buffer_full (gl_in self) \<and> rcvd x D (gl_client self)"

lemma endpoint_psn: "endpoint tx rx x P b j D r self \<Longrightarrow> psn_to_ack_with (gl_out self) < 32"
  by (auto simp: endpoint_def snd_inv_def dest: window_okD(3))

lemma endpoint_send:
  assumes e: "endpoint tx rx x P b j D r self"
  shows "\<exists>self' packets Q. GG_GattlinkProtocol_SendNextPackets C self = Some self' \<and>
    endpoint tx rx x (P @ Q) b (length (P @ Q) - b) D r self' \<and>
    stream (gl_client self') = stream (gl_client self) \<and>
    sent (gl_client self') = sent (gl_client self) @ packets \<and> data_packets packets \<and>
    data_frames packets = frames_at (P @ Q) [b + j..<length (P @ Q)] \<and>
    (\<forall>a \<in> set (acks packets). a = (r - 1) mod 32 \<and> 0 < r)"
proof -
  have c: "cinv (gl_client self)" and s: "snd_inv tx (stream (gl_client self)) (gl_out self) P b j"
    and tx: "tx = max_tx_window_size (actual_session_cfg self)" using e by (auto simp: endpoint_def)
  have nd: "next_data_sn (gl_out self) < 32" using s window_okD(7) by (fastforce simp: snd_inv_def)
  from snd_inv_send [OF c s tx] obtain self' packets Q where r:
    "GG_GattlinkProtocol_SendNextPackets C self = Some self'" "same_session self self'" "cinv (gl_client self')"
    "stream (gl_client self') = stream (gl_client self)" "sent (gl_client self') = sent (gl_client self) @ packets"
    "snd_inv tx (stream (gl_client self)) (gl_out self') (P @ Q) b (length (P @ Q) - b)"
    "data_frames packets = frames_at (P @ Q) [b + j..<length (P @ Q)]" by blast
  have a: "acks_of_send self self'" by (rule send_acks_spec [OF r(1) c endpoint_psn [OF e] nd])
  have acks: "\<forall>a \<in> set (acks packets). a = psn_to_ack_with (gl_out self) \<and> ack_pend (gl_out self)"
    and dp: "data_packets packets" using a r(5) by (auto simp: acks_of_send_def data_packets_def)
  have "endpoint tx rx x (P @ Q) b (length (P @ Q) - b) D r self'"
    using e r(2,3,4,6) a by (auto simp: endpoint_def same_session_def acks_of_send_def)
  with r(1,4,5,7) acks dp e show ?thesis by (auto simp: endpoint_def)
qed

section \<open>Both ends\<close>

definition link ::
  "nat \<Rightarrow> nat \<Rightarrow> 'x \<Rightarrow> 'x \<Rightarrow> 'c GG_GattlinkProtocol \<Rightarrow> 'c GG_GattlinkProtocol \<Rightarrow>
   (nat \<times> bytes) list \<Rightarrow> nat list \<Rightarrow> (nat \<times> bytes) list \<Rightarrow> nat list \<Rightarrow>
   bytes list \<Rightarrow> nat \<Rightarrow> nat \<Rightarrow> bytes list \<Rightarrow> nat \<Rightarrow> nat \<Rightarrow> nat \<Rightarrow> bool" where
  "link w1 w2 xL xR L R f1 a1 f2 a2 P1 b1 r1 P2 b2 r2 j \<longleftrightarrow>
     endpoint w1 w2 xR P1 b1 j (concat (take r2 P2)) r2 L \<and>
     endpoint w2 w1 xL P2 b2 (length P2 - b2) (concat (take r1 P1)) r1 R \<and>
     source xL = concat (take b1 P1) @ stream (gl_client L) \<and>
     source xR = concat (take b2 P2) @ stream (gl_client R) \<and>
     chan_inv P1 b1 r1 f1 a1 \<and> chan_inv P2 b2 r2 f2 a2"

lemma link_send:
  assumes l: "link w1 w2 xL xR L R f1 a1 f2 a2 P1 b1 r1 P2 b2 r2 j"
  shows "\<exists>L' packets Q. GG_GattlinkProtocol_SendNextPackets C L = Some L' \<and>
    sent (gl_client L') = sent (gl_client L) @ packets \<and> data_packets packets \<and>
    link w1 w2 xL xR L' R (f1 @ data_frames packets) a1 f2 (a2 @ acks packets) (P1 @ Q) b1 r1 P2 b2 r2
      (length (P1 @ Q) - b1)"
proof -
  have e: "endpoint w1 w2 xR P1 b1 j (concat (take r2 P2)) r2 L"
    and c: "chan_inv P1 b1 r1 f1 a1" "chan_inv P2 b2 r2 f2 a2" using l by (auto simp: link_def)
  from endpoint_send [OF e] obtain L' packets Q where r: "GG_GattlinkProtocol_SendNextPackets C L = Some L'"
    "endpoint w1 w2 xR (P1 @ Q) b1 (length (P1 @ Q) - b1) (concat (take r2 P2)) r2 L'"
    "stream (gl_client L') = stream (gl_client L)" "sent (gl_client L') = sent (gl_client L) @ packets"
    "data_packets packets" "data_frames packets = frames_at (P1 @ Q) [b1 + j..<length (P1 @ Q)]"
    "\<forall>a \<in> set (acks packets). a = (r2 - 1) mod 32 \<and> 0 < r2" by blast
  have "length (P1 @ Q) \<le> b1 + 31" using r(2) snd_inv_window unfolding endpoint_def by fastforce
  from chan_inv_send [OF c(1) _ this, of "b1 + j"]
  have c1: "chan_inv (P1 @ Q) b1 r1 (f1 @ data_frames packets) a1" using r(6) by simp
  have c2: "chan_inv P2 b2 r2 f2 (a2 @ acks packets)" using r(7)
    by (intro chan_inv_acked [OF c(2)]; cases "acks packets") auto
  have "r1 \<le> length P1" "b1 \<le> length P1" using c(1) by (auto simp: chan_inv_def)
  with l c1 c2 r(2,3) have "link w1 w2 xL xR L' R (f1 @ data_frames packets) a1 f2 (a2 @ acks packets)
      (P1 @ Q) b1 r1 P2 b2 r2 (length (P1 @ Q) - b1)"
    by (simp add: link_def)
  with r(1,4,5) show ?thesis by blast
qed

text \<open>All the payloads of a direction are the beginning of the stream of its sender.\<close>

lemma link_source:
  assumes l: "link w1 w2 xL xR L R f1 a1 f2 a2 P1 b1 r1 P2 b2 r2 j" and r: "r2 < length P2"
  shows "\<exists>w. concat (take r2 P2) @ P2 ! r2 @ w = source xR"
proof -
  have "snd_inv w2 (stream (gl_client R)) (gl_out R) P2 b2 (length P2 - b2)"
    and s: "source xR = concat (take b2 P2) @ stream (gl_client R)" using l by (auto simp: link_def endpoint_def)
  then obtain rest where "stream (gl_client R) = concat (drop b2 P2) @ rest" using snd_inv_stream by blast
  with s have "source xR = concat P2 @ rest"
    by (metis append.assoc append_take_drop_id concat_append)
  also have "P2 = take r2 P2 @ P2 ! r2 # drop (Suc r2) P2" using r by (rule id_take_nth_drop)
  then have "concat P2 = concat (take r2 P2) @ P2 ! r2 @ concat (drop (Suc r2) P2)"
    by (metis concat.simps(2) concat_append)
  finally show ?thesis by (metis append.assoc)
qed

section \<open>Receiving a packet\<close>

lemma link_ack:
  assumes l: "link w1 w2 xL xR L R f1 (a # a1) f2 a2 P1 b1 r1 P2 b2 r2 (length P1 - b1)"
  shows "\<exists>L' b1'. handle_ack C a L = Some L' \<and> sent (gl_client L') = sent (gl_client L) \<and>
    link w1 w2 xL xR L' R f1 a1 f2 a2 P1 b1' r1 P2 b2 r2 (length P1 - b1')"
proof -
  have e: "endpoint w1 w2 xR P1 b1 (length P1 - b1) (concat (take r2 P2)) r2 L"
    and c: "chan_inv P1 b1 r1 f1 (a # a1)" using l by (auto simp: link_def)
  define d where "d = GG_GattlinkProtocol_CalculateDistance (b1 mod 32) a"
  define b1' where "b1' = (if d < length P1 - b1 then b1 + Suc d else b1)"
  have "cinv (gl_client L)" "snd_inv w1 (stream (gl_client L)) (gl_out L) P1 b1 (length P1 - b1)"
    using e by (auto simp: endpoint_def)
  from snd_inv_ack [OF this chan_inv_ack(1) [OF c d_def] d_def b1'_def] obtain ob k where o:
    "handle_ack C a L = Some (L\<lparr>gl_out := ob, gl_client := k\<rparr>)"
    "k = gl_client L \<or> (\<exists>n. k = ConsumeOutgoingData C n (gl_client L))" "cinv k" "sent k = sent (gl_client L)"
    "snd_inv w1 (stream k) ob P1 b1' (length P1 - b1')"
    "concat (take b1' P1) @ stream k = concat (take b1 P1) @ stream (gl_client L)"
    "psn_to_ack_with ob = psn_to_ack_with (gl_out L)" "ack_now ob = ack_now (gl_out L)"
    "outstanding_unacked_packets ob = outstanding_unacked_packets (gl_out L)" "ack_timer ob = ack_timer (gl_out L)"
    by blast
  have "rcvd xR (concat (take r2 P2)) k" using o(2) e rcvd_consume by (auto simp: endpoint_def)
  then have "endpoint w1 w2 xR P1 b1' (length P1 - b1') (concat (take r2 P2)) r2 (L\<lparr>gl_out := ob, gl_client := k\<rparr>)"
    using e o by (simp add: endpoint_def ack_pend_def)
  then have "link w1 w2 xL xR (L\<lparr>gl_out := ob, gl_client := k\<rparr>) R f1 a1 f2 a2 P1 b1' r1 P2 b2 r2 (length P1 - b1')"
    using l o(6) chan_inv_ack(2) [OF c d_def] by (simp add: link_def b1'_def)
  with o(1,4) show ?thesis by (intro exI [of _ "L\<lparr>gl_out := ob, gl_client := k\<rparr>"] exI [of _ b1']) simp
qed

text \<open>Fields of the outbound record that are not part of the window may change.\<close>

lemma link_out:
  assumes l: "link w1 w2 xL xR L R f1 a1 f2 a2 P1 b1 r1 P2 b2 r2 j"
    and ob: "next_expected_ack_sn ob = next_expected_ack_sn (gl_out L)"
      "psn_to_ack_with ob = psn_to_ack_with (gl_out L)" "payload_sizes ob = payload_sizes (gl_out L)"
      "next_data_sn ob = next_data_sn (gl_out L)" "ack_pend ob \<Longrightarrow> 0 < r2"
  shows "link w1 w2 xL xR (L\<lparr>gl_out := ob\<rparr>) R f1 a1 f2 a2 P1 b1 r1 P2 b2 r2 j"
proof -
  have e: "endpoint w1 w2 xR P1 b1 j (concat (take r2 P2)) r2 L" using l by (simp add: link_def)
  have "snd_inv w1 (stream (gl_client L)) ob P1 b1 j"
    by (rule snd_inv_cong [OF _ ob(1) _ ob(3,4)]) (use e endpoint_psn [OF e] ob(2) in \<open>auto simp: endpoint_def\<close>)
  with e ob have "endpoint w1 w2 xR P1 b1 j (concat (take r2 P2)) r2 (L\<lparr>gl_out := ob\<rparr>)"
    by (simp add: endpoint_def)
  with l show ?thesis by (simp add: link_def)
qed

lemma link_ack_later:
  assumes l: "link w1 w2 xL xR L R f1 a1 f2 a2 P1 b1 r1 P2 b2 r2 (length P1 - b1)" and r: "0 < r2"
  shows "\<exists>L' packets Q. ack_later C L = Some (GG_SUCCESS, L') \<and>
    sent (gl_client L') = sent (gl_client L) @ packets \<and> data_packets packets \<and>
    link w1 w2 xL xR L' R (f1 @ data_frames packets) a1 f2 (a2 @ acks packets) (P1 @ Q) b1 r1 P2 b2 r2
      (length (P1 @ Q) - b1)"
proof -
  let ?ob = "(gl_out L)\<lparr>outstanding_unacked_packets := (outstanding_unacked_packets (gl_out L) + 1) mod 256,
    ack_timer := Some GG_GATTLINK_SEND_ACK_TIMEOUT\<rparr>"
  have "link w1 w2 xL xR (L\<lparr>gl_out := ?ob\<rparr>) R f1 a1 f2 a2 P1 b1 r1 P2 b2 r2 (length P1 - b1)"
    by (rule link_out [OF l]) (use r in auto)
  from link_send [OF this] show ?thesis by (auto simp: ack_later_def)
qed

lemma link_accept:
  assumes l: "link w1 w2 xL xR L R f1 a1 ((psn, payload) # f2) a2 P1 b1 r1 P2 b2 r2 (length P1 - b1)"
    and psn: "psn = next_expected_data_psn (gl_in L)" and len: "length payload \<le> 512"
  shows "\<exists>L'. accept_payload C psn payload L = Some L' \<and> sent (gl_client L') = sent (gl_client L) \<and>
    link w1 w2 xL xR L' R f1 a1 f2 a2 P1 b1 r1 P2 b2 (Suc r2) (length P1 - b1)"
proof -
  have e: "endpoint w1 w2 xR P1 b1 (length P1 - b1) (concat (take r2 P2)) r2 L"
    and c: "chan_inv P2 b2 r2 ((psn, payload) # f2) a2"
    and s: "snd_inv w2 (stream (gl_client R)) (gl_out R) P2 b2 (length P2 - b2)"
    using l by (auto simp: link_def endpoint_def)
  have pr: "psn = r2 mod 32" using e psn by (simp add: endpoint_def)
  note ac = chan_inv_accept [OF c pr]
  have ne: "payload \<noteq> []" using snd_inv_nonempty [OF s _ ac(1)] c ac(2) by (simp add: chan_inv_def)
  define i where "i = (gl_in L)\<lparr>payload_buf := memcpy_at (payload_buf (gl_in L)) 0 payload,
    payload_len := length payload, bytes_consumed := 0, payload_buffer_full := True,
    next_expected_data_psn := GG_GattlinkProtocol_GetNextSn psn\<rparr>"
  have i: "in_ok i" "payload_buffer_full i"
    using e len by (auto simp: i_def in_ok_def endpoint_def GetNextSn_eq)
  have u: "unread i = payload" by (simp add: unread_def i_def memcpy_at_def subarray_def)
  have nx: "next_expected_data_psn i = Suc r2 mod 32"
    using pr by (simp add: i_def GG_GattlinkProtocol_GetNextSn_def mod_Suc_eq)
  have cl: "cinv (gl_client L)" "rcvd xR (concat (take r2 P2)) (gl_client L)" using e by (auto simp: endpoint_def)
  from link_source [OF l ac(1)] obtain w where "concat (take r2 P2) @ unread i @ w = source xR"
    using u ac(2) by auto
  with rcvd_incoming [OF cl(1) i _ cl(2)] ne u incoming [OF cl(1) i(1)] obtain c' i' where
    n: "NotifyIncomingDataAvailable C (gl_client L, i) = Some (c', i')" "rcvd xR (concat (take r2 P2) @ payload) c'"
    "\<not> payload_buffer_full i'" "next_expected_data_psn i' = next_expected_data_psn i" "cinv c'" "in_ok i'"
    "stream c' = stream (gl_client L)" "sent c' = sent (gl_client L)" by auto
  define L' where "L' = L\<lparr>gl_client := c', gl_in := i', gl_out := (gl_out L)\<lparr>psn_to_ack_with := psn\<rparr>\<rparr>"
  have acc: "accept_payload C psn payload L = Some L'"
    using n(1) by (simp add: accept_payload_def i_def [symmetric] L'_def)
  have "snd_inv w1 (stream (gl_client L)) ((gl_out L)\<lparr>psn_to_ack_with := psn\<rparr>) P1 b1 (length P1 - b1)"
    by (rule snd_inv_cong [of _ _ "gl_out L"]) (use e pr in \<open>auto simp: endpoint_def\<close>)
  then have "endpoint w1 w2 xR P1 b1 (length P1 - b1) (concat (take (Suc r2) P2)) (Suc r2) L'"
    using e n nx pr ac(1,2) by (simp add: endpoint_def L'_def ack_pend_def take_Suc_conv_app_nth)
  with l ac(3) n(7) have "link w1 w2 xL xR L' R f1 a1 f2 a2 P1 b1 r1 P2 b2 (Suc r2) (length P1 - b1)"
    by (simp add: link_def L'_def)
  with acc n(8) show ?thesis by (simp add: L'_def)
qed

text \<open>What becomes of a data frame that arrives at the left end.\<close>

lemma link_data:
  assumes l: "link w1 w2 xL xR L R f1 a1 ((psn, payload) # f2) a2 P1 b1 r1 P2 b2 r2 (length P1 - b1)"
    and len: "length payload \<le> 512" and w: "w2 \<le> 16"
  shows "\<exists>res L' packets P1' r2'.
    (if psn = next_expected_data_psn (gl_in L) then accept_payload C psn payload L \<bind> ack_later C
     else if GG_GattlinkProtocol_CalculateDistance psn (next_expected_data_psn (gl_in L))
               \<ge> max_rx_window_size (actual_session_cfg L)
     then Some (GG_ERROR_GATTLINK_UNEXPECTED_PSN, L) else ack_later C L) = Some (res, L') \<and>
    sent (gl_client L') = sent (gl_client L) @ packets \<and> data_packets packets \<and>
    link w1 w2 xL xR L' R (f1 @ data_frames packets) a1 f2 (a2 @ acks packets) P1' b1 r1 P2 b2 r2'
      (length P1' - b1)"
proof (cases "psn = next_expected_data_psn (gl_in L)")
  case True
  from link_accept [OF l True len] obtain L1 where 1: "accept_payload C psn payload L = Some L1"
    "sent (gl_client L1) = sent (gl_client L)"
    "link w1 w2 xL xR L1 R f1 a1 f2 a2 P1 b1 r1 P2 b2 (Suc r2) (length P1 - b1)" by blast
  from link_ack_later [OF 1(3)] 1(1,2) True show ?thesis by fastforce
next
  case False
  have e: "next_expected_data_psn (gl_in L) = r2 mod 32" "max_rx_window_size (actual_session_cfg L) = w2"
    and c: "chan_inv P2 b2 r2 ((psn, payload) # f2) a2"
    and s: "snd_inv w2 (stream (gl_client R)) (gl_out R) P2 b2 (length P2 - b2)"
    using l by (auto simp: link_def endpoint_def)
  have l': "link w1 w2 xL xR L R f1 a1 f2 a2 P1 b1 r1 P2 b2 r2 (length P1 - b1)"
    using l chan_inv_drop_frame [OF c] by (simp add: link_def)
  show ?thesis
  proof (cases "GG_GattlinkProtocol_CalculateDistance psn (next_expected_data_psn (gl_in L)) \<ge> w2")
    case True
    with False e l' show ?thesis
      by (intro exI [of _ GG_ERROR_GATTLINK_UNEXPECTED_PSN] exI [of _ L] exI [of _ "[]"] exI [of _ P1] exI [of _ r2])
        (simp add: data_packets_def)
  next
    case near: False
    have "0 < r2"
    proof (rule ccontr)
      assume "\<not> 0 < r2"
      then have "r2 = 0" by simp
      with chan_inv_first [of P2 b2 psn payload f2 a2 w2 w2] c False e near snd_inv_window [OF s] w show False
        by auto
    qed
    from link_ack_later [OF l' this] False near e show ?thesis by fastforce
  qed
qed

text \<open>Notifications of a stall change nothing that matters here.\<close>

lemma link_client:
  assumes "link w1 w2 xL xR L R f1 a1 f2 a2 P1 b1 r1 P2 b2 r2 j"
    and "L' = L \<lparr>gl_client := c, stall_time := s, last_notified_stall_time := n\<rparr>"
    and "c = gl_client L \<or> (\<exists>t. c = NotifySessionStalled C t (gl_client L))"
  shows "link w1 w2 xL xR L' R f1 a1 f2 a2 P1 b1 r1 P2 b2 r2 j" "sent (gl_client L') = sent (gl_client L)"
  using assms stalled rcvd_stalled by (auto simp: link_def endpoint_def)

lemma clear_stall_shape:
  "\<exists>c. clear_stall C L = L\<lparr>gl_client := c, stall_time := 0, last_notified_stall_time := 0\<rparr> \<and>
    (c = gl_client L \<or> (\<exists>t. c = NotifySessionStalled C t (gl_client L)))"
  by (cases L) (auto simp: clear_stall_def Let_def)

lemma update_stall_shape:
  "\<exists>c s n. update_stall C elapsed L = L\<lparr>gl_client := c, stall_time := s, last_notified_stall_time := n\<rparr> \<and>
    (c = gl_client L \<or> (\<exists>t. c = NotifySessionStalled C t (gl_client L)))"
  by (cases L) (auto simp: update_stall_def Let_def)

lemma link_deliver:
  assumes l: "link w1 w2 xL xR L R f1 (ack_of p @ a1) (data_frame p @ f2) a2 P1 b1 r1 P2 b2 r2 (length P1 - b1)"
    and p: "p \<noteq> []" "hd p AND 0x80 = 0" and w: "w2 \<le> 16"
  shows "\<exists>res L' packets P1' b1' r2'. GG_GattlinkProtocol_HandleIncomingRawData C p L = Some (res, L') \<and>
    sent (gl_client L') = sent (gl_client L) @ packets \<and> data_packets packets \<and>
    link w1 w2 xL xR L' R (f1 @ data_frames packets) a1 f2 (a2 @ acks packets) P1' b1' r1 P2 b2 r2'
      (length P1' - b1')"
proof -
  define L0 where "L0 = clear_stall C L"
  from clear_stall_shape [of L] link_client [OF l]
  have l0: "link w1 w2 xL xR L0 R f1 (ack_of p @ a1) (data_frame p @ f2) a2 P1 b1 r1 P2 b2 r2 (length P1 - b1)"
    and s0: "sent (gl_client L0) = sent (gl_client L)" unfolding L0_def by metis+
  have st: "gl_state L = GG_GATTLINK_STATE_READY" "gl_state L0 = GG_GATTLINK_STATE_READY"
    using l l0 by (auto simp: link_def endpoint_def)
  have raw: "GG_GattlinkProtocol_HandleIncomingRawData C p L = GG_GattlinkProtocol_HandleDataPacket C p L0"
    using p st by (simp add: GG_GattlinkProtocol_HandleIncomingRawData_def L0_def)
  show ?thesis
  proof (cases "length p \<le> 512")
    case False
    have "link w1 w2 xL xR L0 R f1 a1 f2 a2 P1 b1 r1 P2 b2 r2 (length P1 - b1)"
      using l0 chan_inv_lose(1) [of P2 b2 r2 "[]" "data_frame p" f2 a2]
        chan_inv_lose(2) [of P1 b1 r1 f1 "[]" "ack_of p" a1] by (auto simp: link_def)
    with False raw s0 show ?thesis
      by (intro exI [of _ GG_ERROR_INVALID_PARAMETERS] exI [of _ L0] exI [of _ "[]"] exI [of _ P1] exI [of _ b1]
          exI [of _ r2]) (simp add: GG_GattlinkProtocol_HandleDataPacket_def data_packets_def)
  next
    case True
    obtain L1 b1' where l1: "(if has_ack (hd p) then handle_ack C (ack_psn (hd p)) L0 else Some L0) = Some L1"
      "sent (gl_client L1) = sent (gl_client L)"
      "link w1 w2 xL xR L1 R f1 a1 (data_frame p @ f2) a2 P1 b1' r1 P2 b2 r2 (length P1 - b1')"
      using link_ack [of w1 w2 xL xR L0 R f1 "ack_psn (hd p)"] l0 s0
      by (cases "has_ack (hd p)") (fastforce simp: ack_of_def)+
    have nf: "\<not> payload_buffer_full (gl_in L1)" using l1(3) by (simp add: link_def endpoint_def)
    define data where "data = (if has_ack (hd p) then tl p else p)"
    show ?thesis
    proof (cases "data = []")
      case empty: True
      then have "data_frame p = []" by (simp add: data_frame_def data_def)
      with l1(3) have "link w1 w2 xL xR L1 R f1 a1 f2 a2 P1 b1' r1 P2 b2 r2 (length P1 - b1')" by simp
      from link_send [OF this] l1 True empty show ?thesis
        unfolding raw by (fastforce simp: GG_GattlinkProtocol_HandleDataPacket_def data_def)
    next
      case nonempty: False
      then have f: "data_frame p = [(ack_psn (hd data), tl data)]" by (simp add: data_frame_def data_def Let_def)
      have len: "length (tl data) \<le> 512" using True by (auto simp: data_def)
      from link_data [OF l1(3) [unfolded f append_Cons append_Nil] len w] l1 True nonempty nf show ?thesis
        unfolding raw by (fastforce simp: GG_GattlinkProtocol_HandleDataPacket_def data_def [symmetric] Let_def)
    qed
  qed
qed

section \<open>Timers\<close>

lemma link_ack_timer:
  assumes l: "link w1 w2 xL xR L R f1 a1 f2 a2 P1 b1 r1 P2 b2 r2 (length P1 - b1)"
    and armed: "ack_timer (gl_out L) \<noteq> None"
  shows "\<exists>L' packets P1'. GG_GattlinkProtocol_OnTimerFired C AckTimer elapsed L = Some L' \<and>
    sent (gl_client L') = sent (gl_client L) @ packets \<and> data_packets packets \<and>
    link w1 w2 xL xR L' R (f1 @ data_frames packets) a1 f2 (a2 @ acks packets) P1' b1 r1 P2 b2 r2
      (length P1' - b1)"
proof -
  have r: "0 < r2" using l armed by (auto simp: link_def endpoint_def ack_pend_def)
  have "link w1 w2 xL xR (L\<lparr>gl_out := (gl_out L)\<lparr>ack_timer := None, ack_now := True\<rparr>\<rparr>) R
      f1 a1 f2 a2 P1 b1 r1 P2 b2 r2 (length P1 - b1)"
    by (rule link_out [OF l]) (use r in auto)
  from link_send [OF this] show ?thesis
    by (fastforce simp: GG_GattlinkProtocol_OnTimerFired_def GG_GattlinkProtocol_OnAckTimerFired_def)
qed

lemma link_retransmit_timer:
  assumes l: "link w1 w2 xL xR L R f1 a1 f2 a2 P1 b1 r1 P2 b2 r2 (length P1 - b1)"
  shows "\<exists>L' packets P1'. GG_GattlinkProtocol_OnTimerFired C RetransmitTimer elapsed L = Some L' \<and>
    sent (gl_client L') = sent (gl_client L) @ packets \<and> data_packets packets \<and>
    link w1 w2 xL xR L' R (f1 @ data_frames packets) a1 f2 (a2 @ acks packets) P1' b1 r1 P2 b2 r2
      (length P1' - b1)"
proof -
  define L0 where "L0 = upd_out (\<lambda>ob. ob\<lparr>retransmit_timer := None\<rparr>) L"
  define L1 where "L1 = update_stall C elapsed L0"
  define L2 where "L2 = upd_out (\<lambda>ob. ob\<lparr>next_data_sn := next_expected_ack_sn ob\<rparr>) L1"
  have "link w1 w2 xL xR L0 R f1 a1 f2 a2 P1 b1 r1 P2 b2 r2 (length P1 - b1)"
    unfolding L0_def upd_out_def
    by (rule link_out [OF l]) (use l in \<open>auto simp: link_def endpoint_def ack_pend_def\<close>)
  from link_client [OF this] update_stall_shape [of elapsed L0]
  have l1: "link w1 w2 xL xR L1 R f1 a1 f2 a2 P1 b1 r1 P2 b2 r2 (length P1 - b1)"
    and "sent (gl_client L1) = sent (gl_client L0)" unfolding L1_def by metis+
  then have s1: "sent (gl_client L1) = sent (gl_client L)" by (simp add: L0_def)
  have e: "endpoint w1 w2 xR P1 b1 (length P1 - b1) (concat (take r2 P2)) r2 L1" using l1 by (simp add: link_def)
  have "snd_inv w1 (stream (gl_client L2)) (gl_out L2) P1 b1 0"
    by (rule snd_inv_rewind [of _ _ "gl_out L1"]) (use e endpoint_psn [OF e] in \<open>auto simp: endpoint_def L2_def\<close>)
  with e have "endpoint w1 w2 xR P1 b1 0 (concat (take r2 P2)) r2 L2"
    by (simp add: endpoint_def L2_def ack_pend_def)
  with l1 have l2: "link w1 w2 xL xR L2 R f1 a1 f2 a2 P1 b1 r1 P2 b2 r2 0" by (simp add: link_def L2_def)
  have "GG_GattlinkProtocol_OnTimerFired C RetransmitTimer elapsed L = GG_GattlinkProtocol_SendNextPackets C L2"
    using e by (simp add: GG_GattlinkProtocol_OnTimerFired_def GG_GattlinkProtocol_OnSendTimeoutFired_def
        Let_def L0_def L1_def L2_def endpoint_def del: upd_out_def)
  with link_send [OF l2] s1 show ?thesis by (fastforce simp: L2_def)
qed

end

end
