(* ===== verification/Gattlink_Network.thy ===== *)
theory Gattlink_Network
  imports Gattlink_Link Ipv4_Link
begin

text \<open>
  Two Gattlink clients that carry IP packets, connected by a transport that may lose packets but
  keeps their order. The transport-side sink of a client is the channel to its peer. A step of
  the network is one call into one of the clients, or the loss of a packet.
\<close>

section \<open>The client as a receiver of IP packets\<close>

text \<open>A user-side sink that takes every frame and keeps it.\<close>

definition record_sink :: "bytes list data_sink" where
  "record_sink frame frames = (GG_SUCCESS, frames @ [frame])"

abbreviation ip_client :: "(GG_Ipv4FrameAssembler, bytes list) GG_GattlinkGenericClient GG_GattlinkClient" where
  "ip_client \<equiv> generic_client ipv4_assembler record_sink"

definition ip_frame :: "nat \<Rightarrow> bytes \<Rightarrow> bool" where
  "ip_frame mtu x \<longleftrightarrow> plain x \<and> wire_ok mtu x"

definition ip_rcvd ::
  "nat \<Rightarrow> bytes list \<Rightarrow> bytes \<Rightarrow> (GG_Ipv4FrameAssembler, bytes list) GG_GattlinkGenericClient \<Rightarrow> bool" where
  "ip_rcvd mtu xs D c \<longleftrightarrow> (\<forall>x \<in> set xs. ip_frame mtu x) \<and>
     (\<exists>out. user_sink c = Some out \<and> progress None None mtu xs D out (frame_assembler c))"

lemma ip_frames_ok: "\<forall>x \<in> set xs. ip_frame mtu x \<Longrightarrow> \<forall>x \<in> set xs. wire_ok mtu x \<and> frame_of None None x \<noteq> None"
  by (simp add: ip_frame_def frame_of_plain)

lemma GetIncomingData_unread:
  assumes "in_ok i" "payload_buffer_full i"
  shows "GG_GattlinkProtocol_GetIncomingDataAvailable i = length (unread i)"
    and "GG_GattlinkProtocol_GetIncomingData i 0 (min m (length (unread i))) = (GG_SUCCESS, take m (unread i))"
proof -
  show l: "GG_GattlinkProtocol_GetIncomingDataAvailable i = length (unread i)"
    using assms by (simp add: GG_GattlinkProtocol_GetIncomingDataAvailable_def unread_def in_ok_def)
  show "GG_GattlinkProtocol_GetIncomingData i 0 (min m (length (unread i))) = (GG_SUCCESS, take m (unread i))"
    using assms by (simp add: GG_GattlinkProtocol_GetIncomingData_def l)
      (auto simp: unread_def subarray_def in_ok_def min_def)
qed

lemma ConsumeIncomingData_unread:
  assumes "in_ok i" "payload_buffer_full i" "c \<le> length (unread i)"
  shows "unread (snd (GG_GattlinkProtocol_ConsumeIncomingData c i)) = drop c (unread i)"
    "payload_buffer_full (snd (GG_GattlinkProtocol_ConsumeIncomingData c i)) \<longleftrightarrow> c \<noteq> length (unread i)"
    "next_expected_data_psn (snd (GG_GattlinkProtocol_ConsumeIncomingData c i)) = next_expected_data_psn i"
  using assms
  by (auto simp: GG_GattlinkProtocol_ConsumeIncomingData_def GetIncomingData_unread Let_def)
    (auto simp: unread_def subarray_def in_ok_def drop_take add.commute)

lemma feed_loop_progress:
  assumes "in_ok i" "payload_buffer_full i" "unread i \<noteq> []" "user_sink self = Some out"
    "progress None None mtu xs D out (frame_assembler self)" "D @ unread i @ w = concat xs"
    and ok: "\<forall>x \<in> set xs. ip_frame mtu x"
  shows "\<exists>self' i' out'. feed_loop ipv4_assembler record_sink self i = Some (self', i') \<and> user_sink self' = Some out' \<and>
    progress None None mtu xs (D @ unread i) out' (frame_assembler self') \<and> \<not> payload_buffer_full i' \<and>
    next_expected_data_psn i' = next_expected_data_psn i"
  using assms(1-6)
proof (induction "length (unread i)" arbitrary: i self D out rule: less_induct)
  case less
  let ?v = "unread i"
  from progress_step [OF less.prems(5,6,3) ip_frames_ok [OF ok]] obtain m r c f a' where s:
    "GG_Ipv4FrameAssembler_GetFeedBuffer (frame_assembler self) = Some m" "0 < m"
    "GG_Ipv4FrameAssembler_Feed (take m ?v) (frame_assembler self) = Some (r, c, f, a')" "0 < c" "c \<le> length ?v"
    "progress None None mtu xs (D @ take c ?v) (out @ (case f of None \<Rightarrow> [] | Some f \<Rightarrow> [f])) a'" by blast
  define out' where "out' = out @ (case f of None \<Rightarrow> [] | Some f \<Rightarrow> [f])"
  define self' where "self' = self\<lparr>frame_assembler := a', user_sink := Some out'\<rparr>"
  define i' where "i' = snd (GG_GattlinkProtocol_ConsumeIncomingData c i)"
  note u = ConsumeIncomingData_unread [OF less.prems(1,2) s(5), folded i'_def]
  note g = GetIncomingData_unread [OF less.prems(1,2)]
  have step: "feed_loop ipv4_assembler record_sink self i =
      (if c = length ?v then Some (self', i') else feed_loop ipv4_assembler record_sink self' i')"
  proof -
    have "f = None \<Longrightarrow> self\<lparr>frame_assembler := a'\<rparr> = self'"
      "f = Some x \<Longrightarrow> self\<lparr>frame_assembler := a', user_sink := Some (out @ [x])\<rparr> = self'" for x
      using less.prems(4) by (cases self, simp_all add: self'_def out'_def)
    then show ?thesis
      using s(1-5) less.prems(4) g
      by (subst feed_loop.simps)
        (cases f; simp add: ipv4_assembler_def record_sink_def i'_def [symmetric] Let_def)
  qed
  show ?case
  proof (cases "c = length ?v")
    case True
    with step s(6) u show ?thesis
      by (intro exI [of _ self'] exI [of _ i'] exI [of _ out']) (simp add: self'_def out'_def)
  next
    case False
    have "length (unread i') < length ?v" "unread i' \<noteq> []" "in_ok i'" "payload_buffer_full i'"
      using u False s(4,5) ConsumeIncomingData_in_ok [OF less.prems(1)] by (auto simp: i'_def)
    moreover have "user_sink self' = Some out'" "progress None None mtu xs (D @ take c ?v) out' (frame_assembler self')"
      using s(6) by (simp_all add: self'_def out'_def)
    moreover have "(D @ take c ?v) @ unread i' @ w = concat xs"
      using less.prems(6) u(1) by (metis append.assoc append_take_drop_id)
    ultimately have "\<exists>self'' i'' out''. feed_loop ipv4_assembler record_sink self' i' = Some (self'', i'') \<and>
        user_sink self'' = Some out'' \<and>
        progress None None mtu xs ((D @ take c ?v) @ unread i') out'' (frame_assembler self'') \<and>
        \<not> payload_buffer_full i'' \<and> next_expected_data_psn i'' = next_expected_data_psn i'"
      using less.hyps [of i' self' out' "D @ take c ?v"] by blast
    with step False u show ?thesis by auto
  qed
qed

interpretation ip: gattlink_receiver ip_client "client_inv asm_plain" client_stream client_sent session_open
  concat "ip_rcvd mtu" for mtu
proof (unfold_locales, goal_cases)
  case (4 c i xs D w)
  then obtain out where "user_sink c = Some out" "progress None None mtu xs D out (frame_assembler c)"
    "\<forall>x \<in> set xs. ip_frame mtu x" by (auto simp: ip_rcvd_def)
  with feed_loop_progress [of i c out mtu xs D w] 4 show ?case
    by (fastforce simp: generic_client_def GG_GattlinkGenericClient_NotifyIncomingDataAvailable_def ip_rcvd_def)
qed (auto simp: ip_rcvd_def client_ops split: option.splits)

text \<open>When nothing is unread, a client that is told that its user can take data again does nothing.\<close>

lemma Feed_Nil:
  assumes "pend a p" "GG_Ipv4FrameAssembler_GetFeedBuffer a = Some m"
  shows "\<exists>r. GG_Ipv4FrameAssembler_Feed [] a = Some (r, 0, None, a)"
  using assms
  by (auto simp: GG_Ipv4FrameAssembler_Feed_def feed_packet_def pend_def asm_ok_def Let_def split: if_splits)

lemma feed_loop_idle:
  assumes "\<not> payload_buffer_full i" "ip_rcvd mtu xs D c"
  shows "feed_loop ipv4_assembler record_sink c i = Some (c, i)"
proof -
  obtain out p where o: "user_sink c = Some out" "pend (frame_assembler c) p"
    using assms(2) by (auto simp: ip_rcvd_def progress_def)
  obtain m where m: "GG_Ipv4FrameAssembler_GetFeedBuffer (frame_assembler c) = Some m"
    using GetFeedBuffer_total o(2) by (auto simp: pend_def)
  from Feed_Nil [OF o(2) m] m o(1) assms(1) show ?thesis
    by (subst feed_loop.simps) (auto simp: ipv4_assembler_def GG_GattlinkProtocol_GetIncomingDataAvailable_def
        GG_GattlinkProtocol_GetIncomingData_def Let_def)
qed

section \<open>The network\<close>

type_synonym ip_end = "(GG_Ipv4FrameAssembler, bytes list) client_object"

text \<open>
  \<open>left_put\<close> and \<open>right_put\<close> are the frames the users have put so far, as far as the put was
  successful.
\<close>

record net =
  left :: ip_end
  right :: ip_end
  left_put :: "bytes list"
  right_put :: "bytes list"

definition mirror :: "net \<Rightarrow> net" where
  "mirror s = \<lparr>left = right s, right = left s, left_put = right_put s, right_put = left_put s\<rparr>"

definition channel :: "ip_end \<Rightarrow> bytes list" where
  "channel e = client_sent (gl_client e)"

definition received :: "ip_end \<Rightarrow> bytes list" where
  "received e = (case user_sink (gl_client e) of None \<Rightarrow> [] | Some frames \<Rightarrow> frames)"

abbreviation set_channel :: "bytes list \<Rightarrow> ip_end \<Rightarrow> ip_end" where
  "set_channel ps \<equiv> GG_GattlinkGenericClient_TransportSide_SetDataSink (Some ps)"

abbreviation ip_serializer :: frame_serializer where
  "ip_serializer \<equiv> GG_Ipv4FrameSerializer_SerializeFrame (GG_Ipv4FrameSerializer_Create None)"

text \<open>
  The steps of the left end, and by reflection those of the right end. A timer fires only when it is
  armed. The transport delivers the packets in order, and may lose any of them at any time.
\<close>

inductive net_step :: "nat \<Rightarrow> net \<Rightarrow> net \<Rightarrow> bool" for mtu :: nat where
  put: "ip_frame mtu frame \<Longrightarrow>
    GG_GattlinkGenericClient_UserSide_PutData ipv4_assembler record_sink ip_serializer frame (left s) = Some (r, l) \<Longrightarrow>
    net_step mtu s (s\<lparr>left := l, left_put := left_put s @ (if r = GG_SUCCESS then [frame] else [])\<rparr>)"
| deliver: "channel (right s) = p # ps \<Longrightarrow>
    GG_GattlinkGenericClient_TransportSide_PutData ipv4_assembler record_sink p (left s) = Some (r, l) \<Longrightarrow>
    net_step mtu s (s\<lparr>left := l, right := set_channel ps (right s)\<rparr>)"
| lose: "channel (right s) = ps @ p # qs \<Longrightarrow>
    net_step mtu s (s\<lparr>right := set_channel (ps @ qs) (right s)\<rparr>)"
| ack: "ack_timer (gl_out (left s)) = Some t \<Longrightarrow>
    GG_GattlinkProtocol_OnTimerFired ip_client AckTimer elapsed (left s) = Some l \<Longrightarrow>
    net_step mtu s (s\<lparr>left := l\<rparr>)"
| retransmit: "retransmit_timer (gl_out (left s)) = Some t \<Longrightarrow>
    GG_GattlinkProtocol_OnTimerFired ip_client RetransmitTimer elapsed (left s) = Some l \<Longrightarrow>
    net_step mtu s (s\<lparr>left := l\<rparr>)"
| can_send: "GG_GattlinkGenericClient_TransportSide_OnCanPut ipv4_assembler record_sink (left s) = Some l \<Longrightarrow>
    net_step mtu s (s\<lparr>left := l\<rparr>)"
| can_take: "GG_GattlinkGenericClient_UserSide_OnCanPut ipv4_assembler record_sink (left s) = Some l \<Longrightarrow>
    net_step mtu s (s\<lparr>left := l\<rparr>)"
| set_fragment: "5 \<le> n \<Longrightarrow>
    net_step mtu s (s\<lparr>left := GG_GattlinkGenericClient_SetMaxTransportFragmentSize n (left s)\<rparr>)"
| other: "net_step mtu (mirror s) (mirror s') \<Longrightarrow> net_step mtu s s'"

text \<open>The invariant of the network, for windows of \<open>w1\<close> packets from left to right and \<open>w2\<close> back.\<close>

definition net_inv :: "nat \<Rightarrow> nat \<Rightarrow> nat \<Rightarrow> net \<Rightarrow> bool" where
  "net_inv mtu w1 w2 s \<longleftrightarrow> w1 \<le> 16 \<and> w2 \<le> 16 \<and> data_packets (channel (left s)) \<and> data_packets (channel (right s)) \<and>
     (\<exists>P1 b1 r1 P2 b2 r2. ip.link mtu w1 w2 (left_put s) (right_put s) (left s) (right s)
        (data_frames (channel (left s))) (acks (channel (right s)))
        (data_frames (channel (right s))) (acks (channel (left s)))
        P1 b1 r1 P2 b2 r2 (length P1 - b1))"

lemma net_inv_mirror: "net_inv mtu w2 w1 (mirror s) \<longleftrightarrow> net_inv mtu w1 w2 s"
  unfolding net_inv_def mirror_def ip.link_def by auto blast+

lemma mirror_mirror [simp]: "mirror (mirror s) = s"
  by (simp add: mirror_def)

lemma set_channel_simps [simp]:
  "gl_out (set_channel ps e) = gl_out e" "gl_in (set_channel ps e) = gl_in e"
  "channel (set_channel ps e) = ps" "received (set_channel ps e) = received e"
  by (simp_all add: GG_GattlinkGenericClient_TransportSide_SetDataSink_def channel_def client_sent_def received_def)

text \<open>The state of an end does not depend on what is in its channel.\<close>

lemma endpoint_set_channel:
  "ip.endpoint mtu tx rx x P b j D r (set_channel ps e) \<longleftrightarrow> ip.endpoint mtu tx rx x P b j D r e" if "client_inv asm_plain (gl_client e)"
  using that
  by (auto simp: ip.endpoint_def GG_GattlinkGenericClient_TransportSide_SetDataSink_def client_inv_def client_stream_def
      ip_rcvd_def)

lemma link_set_channel:
  assumes "ip.link mtu w1 w2 xL xR L R f1 a1 f2 a2 P1 b1 r1 P2 b2 r2 j"
  shows "ip.link mtu w1 w2 xL xR L (set_channel ps R) f1 a1 f2 a2 P1 b1 r1 P2 b2 r2 j"
proof -
  have "client_inv asm_plain (gl_client R)" using assms by (simp add: ip.link_def ip.endpoint_def)
  moreover have "client_stream (gl_client (set_channel ps R)) = client_stream (gl_client R)"
    by (simp add: GG_GattlinkGenericClient_TransportSide_SetDataSink_def client_stream_def)
  ultimately show ?thesis using assms by (simp add: ip.link_def endpoint_set_channel)
qed

text \<open>An operation of the left end that keeps the link keeps the invariant.\<close>

lemma net_invI:
  assumes "net_inv mtu w1 w2 s" and "channel l = channel (left s) @ packets" "data_packets packets"
    and "ip.link mtu w1 w2 xs (right_put s) l (right s)
      (data_frames (channel (left s)) @ data_frames packets) (acks (channel (right s)))
      (data_frames (channel (right s))) (acks (channel (left s)) @ acks packets)
      P1 b1 r1 P2 b2 r2 (length P1 - b1)"
  shows "net_inv mtu w1 w2 (s\<lparr>left := l, left_put := xs\<rparr>)"
  using assms unfolding net_inv_def by (fastforce simp: data_packets_def)

section \<open>Every step keeps the invariant\<close>

lemma net_invE:
  assumes "net_inv mtu w1 w2 s"
  obtains P1 b1 r1 P2 b2 r2 where "ip.link mtu w1 w2 (left_put s) (right_put s) (left s) (right s)
      (data_frames (channel (left s))) (acks (channel (right s)))
      (data_frames (channel (right s))) (acks (channel (left s)))
      P1 b1 r1 P2 b2 r2 (length P1 - b1)"
    "w2 \<le> 16" "data_packets (channel (right s))"
  using assms unfolding net_inv_def by blast

lemma SerializeFrame_plain_cases:
  assumes "rb_invar rb" "ip_serializer frame rb = Some (r, rb')"
  shows "r \<noteq> GG_SUCCESS \<and> rb' = rb \<or>
    r = GG_SUCCESS \<and> rb_invar rb' \<and> rb_contents rb' = rb_contents rb @ frame"
proof (cases "length frame + 2 \<le> GG_RingBuffer_GetSpace rb")
  case True
  then show ?thesis
    using SerializeFrame_plain [OF assms(1) True, of "GG_Ipv4FrameSerializer_Create None"] assms(2)
    by (auto simp: GG_Ipv4FrameSerializer_Create_def)
next
  case False
  then show ?thesis using assms(2)
    by (auto simp: GG_Ipv4FrameSerializer_SerializeFrame_def split: if_splits)
qed

lemma ip_rcvd_more:
  assumes "ip_rcvd mtu xs D c" "ip_frame mtu x"
  shows "ip_rcvd mtu (xs @ [x]) D c"
proof -
  have "x \<noteq> []" using assms(2) by (simp add: ip_frame_def plain_def)
  obtain out dn p todo where o: "user_sink c = Some out" "asm_ip_config (frame_assembler c) = None"
    "asm_ip_map (frame_assembler c) = None" "asm_buffer_size (frame_assembler c) = mtu"
    "xs = dn @ todo" "out = frames_of None None dn" "D = concat dn @ p" "pend (frame_assembler c) p"
    "case todo of [] \<Rightarrow> p = [] | x # _ \<Rightarrow> \<exists>q. q \<noteq> [] \<and> x = p @ q"
    using assms(1) by (auto simp: ip_rcvd_def progress_def)
  have "case todo @ [x] of [] \<Rightarrow> p = [] | x # _ \<Rightarrow> \<exists>q. q \<noteq> [] \<and> x = p @ q"
    using o(9) \<open>x \<noteq> []\<close> by (cases todo) auto
  then have "progress None None mtu (xs @ [x]) D out (frame_assembler c)"
    using o(2-8) unfolding progress_def
    by (intro conjI exI [of _ dn] exI [of _ p] exI [of _ "todo @ [x]"]) simp_all
  with o(1) assms show ?thesis by (auto simp: ip_rcvd_def)
qed

lemma link_put:
  assumes l: "ip.link mtu w1 w2 xL xR L R f1 a1 f2 a2 P1 b1 r1 P2 b2 r2 j" and x: "ip_frame mtu x"
    and rb: "rb_invar rb" "rb_contents rb = rb_contents (output_buffer (gl_client L)) @ x"
  shows "ip.link mtu w1 w2 (xL @ [x]) xR (L\<lparr>gl_client := gl_client L\<lparr>output_buffer := rb\<rparr>\<rparr>) R
    f1 a1 f2 a2 P1 b1 r1 P2 b2 r2 j"
proof -
  have "ip.endpoint mtu w1 w2 xR P1 b1 j (concat (take r2 P2)) r2 (L\<lparr>gl_client := gl_client L\<lparr>output_buffer := rb\<rparr>\<rparr>)"
    using l rb snd_inv_more [of w1 "client_stream (gl_client L)" "gl_out L" P1 b1 j x]
    by (auto simp: ip.link_def ip.endpoint_def client_inv_def client_stream_def ip_rcvd_def)
  moreover have "ip.endpoint mtu w2 w1 (xL @ [x]) P2 b2 (length P2 - b2) (concat (take r1 P1)) r1 R"
    using l ip_rcvd_more [OF _ x] by (auto simp: ip.link_def ip.endpoint_def)
  ultimately show ?thesis using l rb(2) by (simp add: ip.link_def client_stream_def)
qed

lemma step_send:
  assumes inv: "net_inv mtu w1 w2 s" and ch: "channel L = channel (left s)"
    and k: "ip.link mtu w1 w2 xs (right_put s) L (right s)
      (data_frames (channel (left s))) (acks (channel (right s)))
      (data_frames (channel (right s))) (acks (channel (left s))) P1 b1 r1 P2 b2 r2 j"
    and st: "GG_GattlinkProtocol_SendNextPackets ip_client L = Some l"
  shows "net_inv mtu w1 w2 (s\<lparr>left := l, left_put := xs\<rparr>)"
proof -
  from ip.link_send [OF k] st obtain packets Q where q: "channel l = channel (left s) @ packets" "data_packets packets"
    "ip.link mtu w1 w2 xs (right_put s) l (right s)
      (data_frames (channel (left s)) @ data_frames packets) (acks (channel (right s)))
      (data_frames (channel (right s))) (acks (channel (left s)) @ acks packets)
      (P1 @ Q) b1 r1 P2 b2 r2 (length (P1 @ Q) - b1)"
    using ch by (auto simp: channel_def)
  show ?thesis by (rule net_invI [OF inv q])
qed

lemma step_put:
  assumes inv: "net_inv mtu w1 w2 s" and x: "ip_frame mtu x"
    and st: "GG_GattlinkGenericClient_UserSide_PutData ipv4_assembler record_sink ip_serializer x (left s) = Some (r, l)"
  shows "net_inv mtu w1 w2 (s\<lparr>left := l, left_put := left_put s @ (if r = GG_SUCCESS then [x] else [])\<rparr>)"
proof -
  from inv obtain P1 b1 r1 P2 b2 r2 where k: "ip.link mtu w1 w2 (left_put s) (right_put s) (left s) (right s)
      (data_frames (channel (left s))) (acks (channel (right s)))
      (data_frames (channel (right s))) (acks (channel (left s))) P1 b1 r1 P2 b2 r2 (length P1 - b1)"
    by (rule net_invE)
  let ?c = "gl_client (left s)"
  have rb: "rb_invar (output_buffer ?c)" using k by (simp add: ip.link_def ip.endpoint_def client_inv_def)
  have same: "s\<lparr>left := left s, left_put := left_put s\<rparr> = s"
    "(left s)\<lparr>gl_client := ?c\<lparr>output_buffer := output_buffer ?c\<rparr>\<rparr> = left s" by simp_all
  consider (refused) "l = left s" "r \<noteq> GG_SUCCESS"
    | (sent) rb' where "r = GG_SUCCESS" "rb_invar rb'" "rb_contents rb' = rb_contents (output_buffer ?c) @ x"
        "GG_GattlinkProtocol_SendNextPackets ip_client ((left s)\<lparr>gl_client := ?c\<lparr>output_buffer := rb'\<rparr>\<rparr>) = Some l"
    using st SerializeFrame_plain_cases [OF rb, of x] same(2)
    by (fastforce simp: GG_GattlinkGenericClient_UserSide_PutData_def Let_def
        GG_GattlinkProtocol_NotifyOutgoingDataAvailable_def split: if_splits bind_splits)
  then show ?thesis
  proof cases
    case refused
    with inv same(1) show ?thesis by simp
  next
    case sent
    have "channel ((left s)\<lparr>gl_client := ?c\<lparr>output_buffer := rb'\<rparr>\<rparr>) = channel (left s)"
      by (simp add: channel_def client_sent_def)
    from step_send [OF inv this link_put [OF k x sent(2,3)] sent(4)] sent(1) show ?thesis by simp
  qed
qed

lemma step_deliver:
  assumes inv: "net_inv mtu w1 w2 s" and ch: "channel (right s) = p # ps"
    and st: "GG_GattlinkGenericClient_TransportSide_PutData ipv4_assembler record_sink p (left s) = Some (r, l)"
  shows "net_inv mtu w1 w2 (s\<lparr>left := l, right := set_channel ps (right s)\<rparr>)"
proof -
  from inv obtain P1 b1 r1 P2 b2 r2 where k: "ip.link mtu w1 w2 (left_put s) (right_put s) (left s) (right s)
      (data_frames (channel (left s))) (acks (channel (right s)))
      (data_frames (channel (right s))) (acks (channel (left s))) P1 b1 r1 P2 b2 r2 (length P1 - b1)"
    and w: "w2 \<le> 16" and dp: "data_packets (channel (right s))"
    by (rule net_invE)
  have p: "p \<noteq> []" "hd p AND 0x80 = 0" "data_packets ps" using dp ch by (auto simp: data_packets_def)
  from ip.link_deliver [OF k [unfolded ch acks_simps data_frames_simps] p(1,2) w] st obtain packets P1' b1' r2' where
    "channel l = channel (left s) @ packets" "data_packets packets"
    "ip.link mtu w1 w2 (left_put s) (right_put s) l (right s)
      (data_frames (channel (left s)) @ data_frames packets) (acks ps) (data_frames ps)
      (acks (channel (left s)) @ acks packets) P1' b1' r1 P2 b2 r2' (length P1' - b1')"
    by (auto simp: GG_GattlinkGenericClient_TransportSide_PutData_def channel_def)
  with inv p(3) link_set_channel [of mtu w1 w2 _ _ l "right s"] show ?thesis
    unfolding net_inv_def by (fastforce simp: data_packets_def)
qed

lemma step_lose:
  assumes inv: "net_inv mtu w1 w2 s" and ch: "channel (right s) = ps @ p # qs"
  shows "net_inv mtu w1 w2 (s\<lparr>right := set_channel (ps @ qs) (right s)\<rparr>)"
proof -
  from inv obtain P1 b1 r1 P2 b2 r2 where k: "ip.link mtu w1 w2 (left_put s) (right_put s) (left s) (right s)
      (data_frames (channel (left s))) (acks (channel (right s)))
      (data_frames (channel (right s))) (acks (channel (left s))) P1 b1 r1 P2 b2 r2 (length P1 - b1)"
    by (rule net_invE)
  have "ip.link mtu w1 w2 (left_put s) (right_put s) (left s) (set_channel (ps @ qs) (right s))
      (data_frames (channel (left s))) (acks (ps @ qs)) (data_frames (ps @ qs)) (acks (channel (left s)))
      P1 b1 r1 P2 b2 r2 (length P1 - b1)"
    by (rule link_set_channel) (use k chan_inv_lose in \<open>auto simp: ip.link_def ch\<close>)
  with inv ch show ?thesis unfolding net_inv_def by (fastforce simp: data_packets_def)
qed

lemma step_timer:
  assumes inv: "net_inv mtu w1 w2 s" and armed: "t = AckTimer \<Longrightarrow> ack_timer (gl_out (left s)) \<noteq> None"
    and st: "GG_GattlinkProtocol_OnTimerFired ip_client t elapsed (left s) = Some l"
  shows "net_inv mtu w1 w2 (s\<lparr>left := l\<rparr>)"
proof -
  from inv obtain P1 b1 r1 P2 b2 r2 where k: "ip.link mtu w1 w2 (left_put s) (right_put s) (left s) (right s)
      (data_frames (channel (left s))) (acks (channel (right s)))
      (data_frames (channel (right s))) (acks (channel (left s))) P1 b1 r1 P2 b2 r2 (length P1 - b1)"
    by (rule net_invE)
  have "\<exists>packets P1'. client_sent (gl_client l) = client_sent (gl_client (left s)) @ packets \<and> data_packets packets \<and>
    ip.link mtu w1 w2 (left_put s) (right_put s) l (right s)
      (data_frames (channel (left s)) @ data_frames packets) (acks (channel (right s)))
      (data_frames (channel (right s))) (acks (channel (left s)) @ acks packets)
      P1' b1 r1 P2 b2 r2 (length P1' - b1)"
    using ip.link_ack_timer [OF k, of elapsed] ip.link_retransmit_timer [OF k, of elapsed] armed st
    by (cases t) fastforce+
  then obtain packets P1' where q: "channel l = channel (left s) @ packets" "data_packets packets"
    "ip.link mtu w1 w2 (left_put s) (right_put s) l (right s)
      (data_frames (channel (left s)) @ data_frames packets) (acks (channel (right s)))
      (data_frames (channel (right s))) (acks (channel (left s)) @ acks packets)
      P1' b1 r1 P2 b2 r2 (length P1' - b1)"
    by (auto simp: channel_def)
  from net_invI [OF inv q] show ?thesis by simp
qed

lemma step_can_send:
  assumes inv: "net_inv mtu w1 w2 s"
    and st: "GG_GattlinkGenericClient_TransportSide_OnCanPut ipv4_assembler record_sink (left s) = Some l"
  shows "net_inv mtu w1 w2 (s\<lparr>left := l\<rparr>)"
proof -
  from inv obtain P1 b1 r1 P2 b2 r2 where k: "ip.link mtu w1 w2 (left_put s) (right_put s) (left s) (right s)
      (data_frames (channel (left s))) (acks (channel (right s)))
      (data_frames (channel (right s))) (acks (channel (left s))) P1 b1 r1 P2 b2 r2 (length P1 - b1)"
    by (rule net_invE)
  from step_send [OF inv refl k] st show ?thesis
    by (simp add: GG_GattlinkGenericClient_TransportSide_OnCanPut_def
        GG_GattlinkProtocol_NotifyOutgoingDataAvailable_def)
qed

lemma step_can_take:
  assumes inv: "net_inv mtu w1 w2 s"
    and st: "GG_GattlinkGenericClient_UserSide_OnCanPut ipv4_assembler record_sink (left s) = Some l"
  shows "net_inv mtu w1 w2 (s\<lparr>left := l\<rparr>)"
proof -
  from inv obtain D where "\<not> payload_buffer_full (gl_in (left s))" "ip_rcvd mtu (right_put s) D (gl_client (left s))"
    unfolding net_inv_def ip.link_def ip.endpoint_def by blast
  from feed_loop_idle [OF this] st have "l = left s"
    by (simp add: GG_GattlinkGenericClient_UserSide_OnCanPut_def
        GG_GattlinkGenericClient_NotifyIncomingDataAvailable_def)
  with inv show ?thesis by simp
qed

lemma step_set_fragment:
  assumes inv: "net_inv mtu w1 w2 s" and n: "5 \<le> n"
  shows "net_inv mtu w1 w2 (s\<lparr>left := GG_GattlinkGenericClient_SetMaxTransportFragmentSize n (left s)\<rparr>)"
proof -
  let ?l = "GG_GattlinkGenericClient_SetMaxTransportFragmentSize n (left s)"
  have "channel ?l = channel (left s)" "client_stream (gl_client ?l) = client_stream (gl_client (left s))"
    by (simp_all add: GG_GattlinkGenericClient_SetMaxTransportFragmentSize_def channel_def client_sent_def client_stream_def)
  moreover have "ip.endpoint mtu tx rx x P b j D r ?l" if "ip.endpoint mtu tx rx x P b j D r (left s)" for tx rx x P b j D r
    using that n by (auto simp: ip.endpoint_def GG_GattlinkGenericClient_SetMaxTransportFragmentSize_def client_inv_def
        client_stream_def ip_rcvd_def)
  ultimately show ?thesis using inv unfolding net_inv_def ip.link_def by fastforce
qed

lemma net_step_inv: "net_step mtu s s' \<Longrightarrow> net_inv mtu w1 w2 s \<Longrightarrow> net_inv mtu w1 w2 s'"
proof (induction arbitrary: w1 w2 rule: net_step.induct)
  case (other s s')
  from other.IH [of w2 w1] other.prems show ?case by (simp add: net_inv_mirror)
next
  case (put frame s r l)
  then show ?case by (intro step_put)
qed (auto intro: step_deliver step_lose step_timer step_can_send step_can_take step_set_fragment)

lemma net_steps_inv: "(net_step mtu)\<^sup>*\<^sup>* s s' \<Longrightarrow> net_inv mtu w1 w2 s \<Longrightarrow> net_inv mtu w1 w2 s'"
  by (induction rule: rtranclp_induct) (auto intro: net_step_inv)

section \<open>What the invariant means for the users\<close>

lemma net_inv_prefix:
  assumes "net_inv mtu w1 w2 s"
  shows "prefix (received (right s)) (left_put s)"
proof -
  obtain D where "ip_rcvd mtu (left_put s) D (gl_client (right s))"
    using assms unfolding net_inv_def ip.link_def ip.endpoint_def by blast
  then obtain out dn todo where "user_sink (gl_client (right s)) = Some out" "left_put s = dn @ todo"
    "out = frames_of None None dn" "\<forall>x \<in> set (left_put s). plain x"
    unfolding ip_rcvd_def progress_def ip_frame_def by blast
  then show ?thesis by (auto simp: received_def frames_of_plain)
qed

text \<open>When the sender has nothing left in its buffer, everything has arrived.\<close>

lemma net_inv_complete:
  assumes "net_inv mtu w1 w2 s" and "client_stream (gl_client (left s)) = []"
  shows "received (right s) = left_put s"
proof -
  from assms(1) obtain P1 b1 r1 where k: "ip_rcvd mtu (left_put s) (concat (take r1 P1)) (gl_client (right s))"
    "concat (left_put s) = concat (take b1 P1) @ client_stream (gl_client (left s))" "b1 \<le> r1" "r1 \<le> length P1"
    "snd_inv w1 (client_stream (gl_client (left s))) (gl_out (left s)) P1 b1 (length P1 - b1)"
    unfolding net_inv_def ip.link_def ip.endpoint_def chan_inv_def by blast
  have "concat (drop b1 P1) = []" using snd_inv_stream [OF k(5)] assms(2) by auto
  then have "concat P1 = concat (take b1 P1)" by (metis append_Nil2 append_take_drop_id concat_append)
  moreover have "take r1 P1 = take b1 P1 @ take (r1 - b1) (drop b1 P1)" using take_drop_append [OF k(3)] by metis
  then have "concat (take r1 P1) = concat (take b1 P1)"
    using \<open>concat (drop b1 P1) = []\<close> by (auto dest: in_set_takeD)
  ultimately have "ip_rcvd mtu (left_put s) (concat (left_put s)) (gl_client (right s))" using k(1,2) assms(2) by simp
  then obtain out where "user_sink (gl_client (right s)) = Some out" "\<forall>x \<in> set (left_put s). plain x"
    "progress None None mtu (left_put s) (concat (left_put s)) out (frame_assembler (gl_client (right s)))"
    unfolding ip_rcvd_def ip_frame_def by blast
  with progress_complete(1) show ?thesis by (fastforce simp: received_def frames_of_plain)
qed

section \<open>Opening a session\<close>

text \<open>The transport hands the first packet of the channel of one end to the other end.\<close>

definition pass :: "ip_end \<Rightarrow> ip_end \<Rightarrow> (ip_end \<times> ip_end) option" where
  "pass x y = (case channel x of
       [] \<Rightarrow> None
     | p # ps \<Rightarrow> map_option (\<lambda>(r, y). (set_channel ps x, y))
         (GG_GattlinkGenericClient_TransportSide_PutData ipv4_assembler record_sink p y))"

text \<open>
  Both ends start. Either the two reset requests cross, or the one of the right end is lost and the
  left end opens the session alone.
\<close>

definition handshake :: "bool \<Rightarrow> ip_end \<Rightarrow> ip_end \<Rightarrow> net option" where
  "handshake cross L R = do {
     (_, L) \<leftarrow> GG_GattlinkGenericClient_Start ipv4_assembler record_sink L;
     (_, R) \<leftarrow> GG_GattlinkGenericClient_Start ipv4_assembler record_sink R;
     let R = (if cross then R else set_channel [] R);
     (L, R) \<leftarrow> pass L R;
     (R, L) \<leftarrow> (if cross then pass R L else Some (R, L));
     (R, L) \<leftarrow> pass R L;
     (L, R) \<leftarrow> pass L R;
     Some \<lparr>left = L, right = R, left_put = [], right_put = []\<rparr>
   }"

definition fresh_end :: "nat \<Rightarrow> nat \<Rightarrow> nat \<Rightarrow> ip_end \<Rightarrow> bool" where
  "fresh_end mtu tx rx e \<longleftrightarrow> gl_state e = GG_GATTLINK_STATE_READY \<and> session_open (gl_client e) \<and>
     actual_session_cfg e = \<lparr>max_tx_window_size = tx, max_rx_window_size = rx\<rparr> \<and>
     gl_out e = zero_out \<and> gl_in e = zero_in \<and> client_inv asm_plain (gl_client e) \<and>
     client_stream (gl_client e) = [] \<and> channel e = [] \<and> user_sink (gl_client e) = Some [] \<and>
     pend (frame_assembler (gl_client e)) [] \<and> asm_buffer_size (frame_assembler (gl_client e)) = mtu"

lemma fresh_endpoint:
  assumes "fresh_end mtu tx rx e" "tx \<le> 16"
  shows "ip.endpoint mtu tx rx [] [] 0 0 [] 0 e"
proof -
  have "progress None None mtu [] [] [] (frame_assembler (gl_client e))"
    using assms progress_between [of "frame_assembler (gl_client e)" None None mtu "[]" "[]" "[]"]
    by (simp add: fresh_end_def frames_of_def client_inv_def asm_plain_def)
  with assms zero_out_window [of tx 0] show ?thesis
    by (simp add: ip.endpoint_def fresh_end_def snd_inv_def ip_rcvd_def)
      (simp add: zero_out_def zero_in_def ack_pend_def)
qed

lemma fresh_net_inv:
  assumes "fresh_end mtu w1 w2 (left s)" "fresh_end mtu w2 w1 (right s)" "left_put s = []" "right_put s = []"
    and "w1 \<le> 16" "w2 \<le> 16"
  shows "net_inv mtu w1 w2 s"
proof -
  have "channel (left s) = []" "channel (right s) = []" "client_stream (gl_client (left s)) = []"
    "client_stream (gl_client (right s)) = []" using assms by (auto simp: fresh_end_def)
  with fresh_endpoint [OF assms(1,5)] fresh_endpoint [OF assms(2,6)] assms(3-6) show ?thesis
    unfolding net_inv_def
    by (intro conjI exI [of _ "[]"] exI [of _ 0]) (simp_all add: ip.link_def data_packets_def)
qed

text \<open>An end that was created with these parameters and connected to a transport and a user.\<close>

record end_cfg =
  end_buffer :: nat
  end_tx :: nat
  end_rx :: nat
  end_fragment :: nat

definition new_end :: "end_cfg \<Rightarrow> GG_Ipv4FrameAssembler \<Rightarrow> ip_end" where
  "new_end cfg a = connected_client (end_buffer cfg) (end_tx cfg) (end_rx cfg) (end_fragment cfg) a []"

definition end_cfg_ok :: "end_cfg \<Rightarrow> bool" where
  "end_cfg_ok cfg \<longleftrightarrow> 0 < end_buffer cfg \<and> end_buffer cfg < 2 ^ 64 \<and> 5 \<le> end_fragment cfg \<and>
     0 < end_tx cfg \<and> end_tx cfg < 256 \<and> 0 < end_rx cfg \<and> end_rx cfg < 256"

text \<open>An end while its session is being opened, with packets \<open>ch\<close> in its channel.\<close>

definition half_open :: "nat \<Rightarrow> nat \<Rightarrow> nat \<Rightarrow> GG_GattlinkState \<Rightarrow> bytes list \<Rightarrow> ip_end \<Rightarrow> bool" where
  "half_open mtu tx rx st ch e \<longleftrightarrow> gl_state e = st \<and>
     desired_session_cfg e = \<lparr>max_tx_window_size = tx, max_rx_window_size = rx\<rparr> \<and>
     client_inv asm_plain (gl_client e) \<and> client_stream (gl_client e) = [] \<and> transport_sink (gl_client e) = Some ch \<and>
     user_sink (gl_client e) = Some [] \<and>
     pend (frame_assembler (gl_client e)) [] \<and> asm_buffer_size (frame_assembler (gl_client e)) = mtu"

lemma new_end_half_open:
  assumes "GG_Ipv4FrameAssembler_Create mtu None None = Inr a" "end_cfg_ok cfg"
  shows "half_open (unat mtu) (end_tx cfg) (end_rx cfg) GG_GATTLINK_STATE_INITIALIZED [] (new_end cfg a)"
  using assms Create_pend [OF assms(1)] Create_plain [OF assms(1)] Init_spec [of "replicate (end_buffer cfg) 0"]
  by (simp add: half_open_def new_end_def connected_client_def GG_GattlinkGenericClient_UserSide_SetDataSink_def
      GG_GattlinkGenericClient_TransportSide_SetDataSink_def GG_GattlinkGenericClient_Create_def
      GG_GattlinkProtocol_Create_def client_inv_def client_stream_def end_cfg_ok_def)

lemma half_open_client:
  "half_open mtu tx rx st ch e \<Longrightarrow> 5 \<le> max_transport_fragment_size (gl_client e)"
  by (simp add: half_open_def client_inv_def)

lemmas half_open_ops = GG_GattlinkGenericClient_TransportSide_PutData_def GG_GattlinkProtocol_HandleIncomingRawData_def
  GG_GattlinkProtocol_HandleControlPacket_def GG_GattlinkProtocol_HandleResetRequest_def
  GG_GattlinkProtocol_HandleResetComplete_def GG_GattlinkProtocol_SendResetCompletePacket_def
  GG_GattlinkProtocol_UnscheduleTimers_def GG_GattlinkProtocol_SendRawData_def
  GG_GATTLINK_CONTROL_PACKET_TYPE_RESET_REQUEST_def GG_GATTLINK_CONTROL_PACKET_TYPE_RESET_COMPLETE_def
  GG_GattlinkProtocol_BuildControlPacket_def

lemma half_open_start:
  assumes "half_open mtu tx rx GG_GATTLINK_STATE_INITIALIZED [] e"
  shows "\<exists>e'. GG_GattlinkGenericClient_Start ipv4_assembler record_sink e = Some (GG_SUCCESS, e') \<and>
    half_open mtu tx rx GG_GATTLINK_STATE_AWAITING_RESET_COMPLETE_SELF_INITIATED [[0x80]] e'"
  using assms half_open_client [OF assms]
  by (simp add: GG_GattlinkGenericClient_Start_def GG_GattlinkProtocol_Start_def GG_GattlinkProtocol_Reset_def
      GG_GattlinkProtocol_SendResetPacket_def half_open_ops half_open_def client_ops Let_def)

lemma clear_stall_client:
  "clear_stall ip_client e = e\<lparr>gl_client := (if stall_time e > GG_GATTLINK_STALL_NOTIFICATION_INTERVAL
     then GG_GattlinkGenericClient_NotifySessionStalled 0 (gl_client e) else gl_client e),
     stall_time := 0, last_notified_stall_time := 0\<rparr>"
  by (simp add: clear_stall_def Let_def generic_client_def)

lemma half_open_clear_stall: "half_open mtu tx rx st ch e \<Longrightarrow> half_open mtu tx rx st ch (clear_stall ip_client e)"
  unfolding clear_stall_client
  by (simp add: half_open_def client_inv_def client_stream_def emit_def
      GG_GattlinkGenericClient_NotifySessionStalled_def)

text \<open>Control packets reach the handler of their type.\<close>

lemma half_open_control:
  assumes o: "half_open mtu tx rx st ch e" and st: "st \<noteq> GG_GATTLINK_STATE_INITIALIZED"
    and e1: "e1 = clear_stall ip_client e"
  shows "half_open mtu tx rx st ch e1"
    "GG_GattlinkGenericClient_TransportSide_PutData ipv4_assembler record_sink [0x80] e =
      map_option (\<lambda>(_, e'). (GG_SUCCESS, e')) (GG_GattlinkProtocol_HandleResetRequest ip_client e1)"
    "st \<noteq> GG_GATTLINK_STATE_READY \<Longrightarrow>
      GG_GattlinkGenericClient_TransportSide_PutData ipv4_assembler record_sink (reset_complete_packet cfg) e =
      map_option (\<lambda>(_, e'). (GG_SUCCESS, e'))
        (GG_GattlinkProtocol_HandleResetComplete ip_client (reset_complete_packet cfg) e1)"
proof -
  show o1: "half_open mtu tx rx st ch e1" using half_open_clear_stall [OF o] e1 by simp
  have g: "gl_state e = st" "gl_state e1 = st" using o o1 by (auto simp: half_open_def)
  show "GG_GattlinkGenericClient_TransportSide_PutData ipv4_assembler record_sink [0x80] e =
      map_option (\<lambda>(_, e'). (GG_SUCCESS, e')) (GG_GattlinkProtocol_HandleResetRequest ip_client e1)"
    using g st by (simp add: GG_GattlinkGenericClient_TransportSide_PutData_def Let_def
        GG_GattlinkProtocol_HandleIncomingRawData_def GG_GattlinkProtocol_HandleControlPacket_def
        GG_GATTLINK_CONTROL_PACKET_TYPE_RESET_REQUEST_def GG_GATTLINK_CONTROL_PACKET_TYPE_RESET_COMPLETE_def e1)
  assume "st \<noteq> GG_GATTLINK_STATE_READY"
  then show "GG_GattlinkGenericClient_TransportSide_PutData ipv4_assembler record_sink (reset_complete_packet cfg) e =
      map_option (\<lambda>(_, e'). (GG_SUCCESS, e'))
        (GG_GattlinkProtocol_HandleResetComplete ip_client (reset_complete_packet cfg) e1)"
    using g st by (cases st) (simp_all add: GG_GattlinkGenericClient_TransportSide_PutData_def Let_def
        GG_GattlinkProtocol_HandleIncomingRawData_def GG_GattlinkProtocol_HandleControlPacket_def
        GG_GATTLINK_CONTROL_PACKET_TYPE_RESET_COMPLETE_def e1 reset_complete_packet_def
        GG_GattlinkProtocol_BuildControlPacket_def)
qed

lemma half_open_request:
  assumes o: "half_open mtu tx rx st ch e"
    and st: "st \<noteq> GG_GATTLINK_STATE_INITIALIZED" "st \<noteq> GG_GATTLINK_STATE_READY"
  shows "\<exists>e'. GG_GattlinkGenericClient_TransportSide_PutData ipv4_assembler record_sink [0x80] e = Some (GG_SUCCESS, e') \<and>
    half_open mtu tx rx GG_GATTLINK_STATE_AWAITING_RESET_COMPLETE_REMOTE_INITIATED
      (ch @ [reset_complete_packet \<lparr>max_tx_window_size = tx, max_rx_window_size = rx\<rparr>]) e'"
proof -
  define e1 where "e1 = clear_stall ip_client e"
  note h = half_open_control [OF o st(1) e1_def]
  from h(1) half_open_client [OF h(1)] st(2) show ?thesis
    unfolding h(2)
    by (simp add: GG_GattlinkProtocol_HandleResetRequest_def GG_GattlinkProtocol_SendResetCompletePacket_def
        GG_GattlinkProtocol_UnscheduleTimers_def GG_GattlinkProtocol_SendRawData_def
        half_open_def client_ops Let_def)
qed

lemma half_open_complete:
  assumes o: "half_open mtu tx rx st ch e"
    and st: "st \<noteq> GG_GATTLINK_STATE_INITIALIZED" "st \<noteq> GG_GATTLINK_STATE_READY"
    and w: "tx' < 256" "rx' < 256"
  shows "\<exists>e'. GG_GattlinkGenericClient_TransportSide_PutData ipv4_assembler record_sink
      (reset_complete_packet \<lparr>max_tx_window_size = tx', max_rx_window_size = rx'\<rparr>) e = Some (GG_SUCCESS, e') \<and>
    fresh_end mtu (min tx rx') (min rx tx') (set_channel [] e') \<and>
    transport_sink (gl_client e') = Some (ch @ (if st = GG_GATTLINK_STATE_AWAITING_RESET_COMPLETE_SELF_INITIATED
      then [reset_complete_packet \<lparr>max_tx_window_size = tx, max_rx_window_size = rx\<rparr>] else []))"
proof -
  define e1 where "e1 = clear_stall ip_client e"
  note h = half_open_control [OF o st(1) e1_def]
  have u: "unat (of_nat tx' :: u8) = tx'" "unat (of_nat rx' :: u8) = rx'"
    using w by (simp_all add: unsigned_of_nat take_bit_nat_eq_self)
  from h(1) half_open_client [OF h(1)] st u show ?thesis
    unfolding h(3) [OF st(2)]
    by (cases st) (simp_all add: GG_GattlinkProtocol_HandleResetComplete_def
        GG_GattlinkProtocol_SendResetCompletePacket_def GG_GattlinkProtocol_SendRawData_def
        half_open_def fresh_end_def client_ops Let_def reset_complete_packet_def channel_def
        GG_GattlinkGenericClient_TransportSide_SetDataSink_def)
qed

lemma half_open_channel: "half_open mtu tx rx st ch e \<Longrightarrow> channel e = ch"
  by (simp add: half_open_def channel_def client_sent_def)

lemma half_open_set_channel: "half_open mtu tx rx st ch e \<Longrightarrow> half_open mtu tx rx st ps (set_channel ps e)"
  by (simp add: half_open_def client_inv_def client_stream_def GG_GattlinkGenericClient_TransportSide_SetDataSink_def)

lemma pass_eq: "channel x = p # ps \<Longrightarrow>
    GG_GattlinkGenericClient_TransportSide_PutData ipv4_assembler record_sink p y = Some (r, y') \<Longrightarrow>
    pass x y = Some (set_channel ps x, y')"
  by (simp add: pass_def)

lemma handshake_established:
  assumes a: "GG_Ipv4FrameAssembler_Create mtu None None = Inr a" and cl: "end_cfg_ok cl" and cr: "end_cfg_ok cr"
  shows "\<exists>s. handshake cross (new_end cl a) (new_end cr a) = Some s \<and> left_put s = [] \<and> right_put s = [] \<and>
    fresh_end (unat mtu) (min (end_tx cl) (end_rx cr)) (min (end_rx cl) (end_tx cr)) (left s) \<and>
    fresh_end (unat mtu) (min (end_tx cr) (end_rx cl)) (min (end_rx cr) (end_tx cl)) (right s)"
proof -
  let ?m = "unat mtu" and ?S = GG_GATTLINK_STATE_AWAITING_RESET_COMPLETE_SELF_INITIATED
    and ?Q = GG_GATTLINK_STATE_AWAITING_RESET_COMPLETE_REMOTE_INITIATED
  let ?rc = "\<lambda>c. reset_complete_packet \<lparr>max_tx_window_size = end_tx c, max_rx_window_size = end_rx c\<rparr>"
  have w: "end_tx c < 256" "end_rx c < 256" if "end_cfg_ok c" for c using that by (auto simp: end_cfg_ok_def)
  obtain L1 where L1: "GG_GattlinkGenericClient_Start ipv4_assembler record_sink (new_end cl a) = Some (GG_SUCCESS, L1)"
    "half_open ?m (end_tx cl) (end_rx cl) ?S [[0x80]] L1"
    using half_open_start [OF new_end_half_open [OF a cl]] by blast
  obtain R1 where R1: "GG_GattlinkGenericClient_Start ipv4_assembler record_sink (new_end cr a) = Some (GG_SUCCESS, R1)"
    "half_open ?m (end_tx cr) (end_rx cr) ?S [[0x80]] R1"
    using half_open_start [OF new_end_half_open [OF a cr]] by blast
  define Rs where "Rs = (if cross then R1 else set_channel [] R1)"
  have Rs: "half_open ?m (end_tx cr) (end_rx cr) ?S (if cross then [[0x80]] else []) Rs"
    using R1(2) half_open_set_channel [OF R1(2)] by (simp add: Rs_def)
  obtain R2 where R2: "GG_GattlinkGenericClient_TransportSide_PutData ipv4_assembler record_sink [0x80] Rs = Some (GG_SUCCESS, R2)"
    "half_open ?m (end_tx cr) (end_rx cr) ?Q ((if cross then [[0x80]] else []) @ [?rc cr]) R2"
    using half_open_request [OF Rs] by auto
  define L2 where "L2 = set_channel [] L1"
  have L2: "half_open ?m (end_tx cl) (end_rx cl) ?S [] L2" using half_open_set_channel [OF L1(2)] by (simp add: L2_def)
  have p1: "pass L1 Rs = Some (L2, R2)"
    using pass_eq [OF half_open_channel [OF L1(2)] R2(1)] by (simp add: L2_def)
  obtain L3 R3 where 3: "(if cross then pass R2 L2 else Some (R2, L2)) = Some (R3, L3)"
    "half_open ?m (end_tx cr) (end_rx cr) ?Q [?rc cr] R3"
    "half_open ?m (end_tx cl) (end_rx cl) (if cross then ?Q else ?S) (if cross then [?rc cl] else []) L3"
  proof (cases cross)
    case True
    obtain L3 where "GG_GattlinkGenericClient_TransportSide_PutData ipv4_assembler record_sink [0x80] L2 = Some (GG_SUCCESS, L3)"
      "half_open ?m (end_tx cl) (end_rx cl) ?Q [?rc cl] L3"
      using half_open_request [OF L2] by auto
    with that [of "set_channel [?rc cr] R2" L3] True R2(2) half_open_channel [OF R2(2)] half_open_set_channel [OF R2(2)]
      pass_eq [of R2 "[0x80]" "[?rc cr]" L2 GG_SUCCESS L3] show ?thesis by simp
  qed (use that R2(2) L2 in auto)
  have ne: "(if cross then ?Q else ?S) \<noteq> GG_GATTLINK_STATE_INITIALIZED" "(if cross then ?Q else ?S) \<noteq> GG_GATTLINK_STATE_READY"
    by auto
  obtain L4 where L4: "GG_GattlinkGenericClient_TransportSide_PutData ipv4_assembler record_sink (?rc cr) L3 = Some (GG_SUCCESS, L4)"
    "fresh_end ?m (min (end_tx cl) (end_rx cr)) (min (end_rx cl) (end_tx cr)) (set_channel [] L4)" "channel L4 = [?rc cl]"
    using half_open_complete [OF 3(3) ne w [OF cr]] by (cases cross) (auto simp: channel_def client_sent_def)
  define R4 where "R4 = set_channel [] R3"
  have R4: "half_open ?m (end_tx cr) (end_rx cr) ?Q [] R4" using half_open_set_channel [OF 3(2)] by (simp add: R4_def)
  have p3: "pass R3 L3 = Some (R4, L4)"
    using pass_eq [OF half_open_channel [OF 3(2)] L4(1)] by (simp add: R4_def)
  obtain R5 where R5: "GG_GattlinkGenericClient_TransportSide_PutData ipv4_assembler record_sink (?rc cl) R4 = Some (GG_SUCCESS, R5)"
    "fresh_end ?m (min (end_tx cr) (end_rx cl)) (min (end_rx cr) (end_tx cl)) (set_channel [] R5)" "transport_sink (gl_client R5) = Some []"
    using half_open_complete [OF R4 _ _ w [OF cl]] by auto
  have R5': "set_channel [] R5 = R5"
    using R5(3) by (cases R5) (simp add: GG_GattlinkGenericClient_TransportSide_SetDataSink_def)
  have p4: "pass L4 R4 = Some (set_channel [] L4, R5)" by (rule pass_eq [OF L4(3) R5(1)])
  show ?thesis
    unfolding handshake_def using L1(1) R1(1) p1 3(1) p3 p4 L4(2) R5(2) R5' by (simp add: Let_def Rs_def)
qed

end
