(* ===== verification/Gattlink_Correctness.thy ===== *)
theory Gattlink_Correctness
  imports Gattlink_Network
begin

text \<open>
  The properties of Gattlink sessions: how a session opens, that no call ever hangs or fails an
  assertion, what the send loop, acknowledgements and retransmissions do, and that the link
  delivers the frames of its users in order and without loss. At the end, what goes wrong
  outside the limits these theorems assume.
\<close>

section \<open>Scripted runs of the network\<close>

datatype net_op =
    Put bytes
  | Deliver
  | Lose nat
  | FireAck u32
  | FireRetransmit u32
  | OnRight net_op

fun net_exec :: "nat \<Rightarrow> net_op \<Rightarrow> net \<Rightarrow> net option" where
  "net_exec mtu (Put frame) s =
     (if ip_frame mtu frame
      then map_option (\<lambda>(r, l). s\<lparr>left := l, left_put := left_put s @ (if r = GG_SUCCESS then [frame] else [])\<rparr>)
        (GG_GattlinkGenericClient_UserSide_PutData ipv4_assembler record_sink ip_serializer frame (left s))
      else None)"
| "net_exec mtu Deliver s =
     (case channel (right s) of
        [] \<Rightarrow> None
      | p # ps \<Rightarrow> map_option (\<lambda>(r, l). s\<lparr>left := l, right := set_channel ps (right s)\<rparr>)
          (GG_GattlinkGenericClient_TransportSide_PutData ipv4_assembler record_sink p (left s)))"
| "net_exec mtu (Lose n) s =
     (let ps = channel (right s)
      in if n < length ps then Some (s\<lparr>right := set_channel (take n ps @ drop (Suc n) ps) (right s)\<rparr>) else None)"
| "net_exec mtu (FireAck elapsed) s =
     (if ack_timer (gl_out (left s)) = None then None
      else map_option (\<lambda>l. s\<lparr>left := l\<rparr>) (GG_GattlinkProtocol_OnTimerFired ip_client AckTimer elapsed (left s)))"
| "net_exec mtu (FireRetransmit elapsed) s =
     (if retransmit_timer (gl_out (left s)) = None then None
      else map_option (\<lambda>l. s\<lparr>left := l\<rparr>) (GG_GattlinkProtocol_OnTimerFired ip_client RetransmitTimer elapsed (left s)))"
| "net_exec mtu (OnRight op) s = map_option mirror (net_exec mtu op (mirror s))"

fun net_run :: "nat \<Rightarrow> net_op list \<Rightarrow> net \<Rightarrow> net option" where
  "net_run mtu [] s = Some s"
| "net_run mtu (op # ops) s = net_exec mtu op s \<bind> net_run mtu ops"

lemma net_exec_step: "net_exec mtu op s = Some s' \<Longrightarrow> net_step mtu s s'"
proof (induction op arbitrary: s s')
  case (Put frame)
  then obtain r l where "ip_frame mtu frame"
    "GG_GattlinkGenericClient_UserSide_PutData ipv4_assembler record_sink ip_serializer frame (left s) = Some (r, l)"
    "s' = s\<lparr>left := l, left_put := left_put s @ (if r = GG_SUCCESS then [frame] else [])\<rparr>"
    by (auto split: if_splits)
  then show ?case by (simp only: net_step.put)
next
  case Deliver
  then show ?case by (auto intro: net_step.deliver split: list.splits)
next
  case (Lose n)
  then have "channel (right s) = take n (channel (right s)) @ channel (right s) ! n # drop (Suc n) (channel (right s))"
    by (auto simp: Let_def id_take_nth_drop split: if_splits)
  with Lose net_step.lose [OF this] show ?case by (auto simp: Let_def split: if_splits)
next
  case (OnRight op)
  then obtain t where "net_exec mtu op (mirror s) = Some t" "s' = mirror t" by auto
  with OnRight.IH net_step.other [of mtu s s'] show ?case by simp
qed (auto intro: net_step.ack net_step.retransmit split: if_splits)

lemma net_run_steps: "net_run mtu ops s = Some s' \<Longrightarrow> (net_step mtu)\<^sup>*\<^sup>* s s'"
proof (induction ops arbitrary: s)
  case (Cons op ops)
  then obtain t where "net_exec mtu op s = Some t" "net_run mtu ops t = Some s'" by (auto split: bind_splits)
  with Cons.IH net_exec_step show ?case by (metis converse_rtranclp_into_rtranclp)
qed simp

text \<open>The example: windows of two packets of six bytes, and a frame that takes two packets.\<close>

definition example_cfg :: end_cfg where
  "example_cfg = \<lparr>end_buffer = 64, end_tx = 2, end_rx = 4, end_fragment = 6\<rparr>"

definition example_assembler :: GG_Ipv4FrameAssembler where
  "example_assembler = \<lparr>asm_ip_config = None, asm_ip_map = None, asm_skip = 0, asm_payload_size = 0,
     asm_packet_size = 0, asm_buffer_size = 32, asm_buffer = replicate 32 0\<rparr>"

definition example_frame :: bytes where
  "example_frame = [0x45, 0, 0, 8, 1, 2, 3, 4]"

definition example_net :: "net option" where
  "example_net = handshake True (new_end example_cfg example_assembler) (new_end example_cfg example_assembler)"

text \<open>The first packet is lost, the second refused; after a timeout both are sent again.\<close>

definition example_script :: "net_op list" where
  "example_script = [Put example_frame, OnRight (Lose 0), OnRight Deliver, FireRetransmit 4000, OnRight Deliver,
     OnRight Deliver, Deliver]"

lemma example_created: "GG_Ipv4FrameAssembler_Create 32 None None = Inr example_assembler"
  by (simp add: GG_Ipv4FrameAssembler_Create_def example_assembler_def)

lemma example_cfg_ok: "end_cfg_ok example_cfg"
  by (simp add: end_cfg_ok_def example_cfg_def)

lemma example_run:
  "(case example_net \<bind> net_run 32 example_script of None \<Rightarrow> False
    | Some s \<Rightarrow> left_put s = [example_frame] \<and> received (right s) = [example_frame] \<and>
        client_stream (gl_client (left s)) = [])"
  by code_simp

section \<open>Opening a session\<close>

text \<open>C4: Opening a session. Two clients that are created, connected and started always reach the ready state, whether
  their reset requests cross or only one of them arrives. Both ends are then open for data, nothing is
  under way or buffered, and the windows agree: an end sends with the smaller of its own
  transmit window and the receive window of the peer, and receives with the smaller of the other two.\<close>

theorem gattlink_handshake:
  assumes "GG_Ipv4FrameAssembler_Create mtu None None = Inr a" and "end_cfg_ok cl" and "end_cfg_ok cr"
  shows "\<exists>s. handshake cross (new_end cl a) (new_end cr a) = Some s \<and>
    fresh_end (unat mtu) (min (end_tx cl) (end_rx cr)) (min (end_rx cl) (end_tx cr)) (left s) \<and>
    fresh_end (unat mtu) (min (end_tx cr) (end_rx cl)) (min (end_rx cr) (end_tx cl)) (right s)"
  using handshake_established [OF assms] by blast

theorem gattlink_handshake_witness:
  "\<exists>s. handshake False (new_end example_cfg example_assembler)
      (new_end (example_cfg\<lparr>end_tx := 16, end_rx := 1\<rparr>) example_assembler) = Some s \<and>
    fresh_end 32 1 4 (left s) \<and> fresh_end 32 4 1 (right s)"
  using gattlink_handshake [OF example_created example_cfg_ok, of "example_cfg\<lparr>end_tx := 16, end_rx := 1\<rparr>" False]
  by (simp add: end_cfg_ok_def example_cfg_def)

section \<open>Delivery\<close>

lemma session_net_inv:
  assumes a: "GG_Ipv4FrameAssembler_Create mtu None None = Inr a" "end_cfg_ok cl" "end_cfg_ok cr"
    and w: "min (end_tx cl) (end_rx cr) \<le> 16" "min (end_tx cr) (end_rx cl) \<le> 16"
    and h: "handshake cross (new_end cl a) (new_end cr a) = Some s0" and st: "(net_step (unat mtu))\<^sup>*\<^sup>* s0 s"
  shows "net_inv (unat mtu) (min (end_tx cl) (end_rx cr)) (min (end_tx cr) (end_rx cl)) s"
proof (rule net_steps_inv [OF st], rule fresh_net_inv [OF _ _ _ _ w])
  from handshake_established [OF a, of cross] h
  show "fresh_end (unat mtu) (min (end_tx cl) (end_rx cr)) (min (end_tx cr) (end_rx cl)) (left s0)"
    "fresh_end (unat mtu) (min (end_tx cr) (end_rx cl)) (min (end_tx cl) (end_rx cr)) (right s0)"
    "left_put s0 = []" "right_put s0 = []"
    by (auto simp: min.commute)
qed

text \<open>C1: Reliable delivery. From the start of a session on, and whatever happens on the way - packets are lost in any
  number and at any time, timers fire, users put frames on both sides at any time, the size of the transport packets
  changes - the frames each user has received are, in order and without gaps or duplicates,
  the first of the frames the other user has put. The windows must be at most 16, half the space of the
  serial numbers.\<close>

theorem gattlink_reliable_delivery:
  assumes "GG_Ipv4FrameAssembler_Create mtu None None = Inr a" and "end_cfg_ok cl" and "end_cfg_ok cr"
    and "min (end_tx cl) (end_rx cr) \<le> 16" and "min (end_tx cr) (end_rx cl) \<le> 16"
    and "handshake cross (new_end cl a) (new_end cr a) = Some s0" and "(net_step (unat mtu))\<^sup>*\<^sup>* s0 s"
  shows "prefix (received (right s)) (left_put s) \<and> prefix (received (left s)) (right_put s)"
proof -
  note i = session_net_inv [OF assms]
  from net_inv_prefix [OF i] net_inv_prefix [OF iffD2 [OF net_inv_mirror i]] show ?thesis by (simp add: mirror_def)
qed

theorem gattlink_reliable_delivery_witness:
  "\<exists>s0 s. handshake True (new_end example_cfg example_assembler) (new_end example_cfg example_assembler) = Some s0 \<and>
    net_run 32 example_script s0 = Some s \<and> left_put s = [example_frame] \<and> received (right s) = [example_frame] \<and>
    prefix (received (right s)) (left_put s) \<and> prefix (received (left s)) (right_put s)"
proof -
  from example_run obtain s0 s where s: "example_net = Some s0" "net_run 32 example_script s0 = Some s"
    "left_put s = [example_frame]" "received (right s) = [example_frame]"
    by (auto split: option.splits bind_splits)
  from s(1) have h: "handshake True (new_end example_cfg example_assembler) (new_end example_cfg example_assembler) = Some s0"
    by (simp add: example_net_def)
  have "(net_step (unat (32 :: u16)))\<^sup>*\<^sup>* s0 s" using net_run_steps [OF s(2)] by simp
  moreover have w: "min (end_tx example_cfg) (end_rx example_cfg) \<le> 16" by (simp add: example_cfg_def)
  ultimately have "prefix (received (right s)) (left_put s) \<and> prefix (received (left s)) (right_put s)"
    by (intro gattlink_reliable_delivery [OF example_created example_cfg_ok example_cfg_ok w w h])
  with h s show ?thesis by blast
qed

text \<open>C2: An empty send buffer means that everything has been delivered: data leaves the output buffer of a client only when the
  other user has it. (So no data is lost when a client that has nothing left to send is shut down.)\<close>

theorem gattlink_acknowledged_delivered:
  assumes "GG_Ipv4FrameAssembler_Create mtu None None = Inr a" and "end_cfg_ok cl" and "end_cfg_ok cr"
    and "min (end_tx cl) (end_rx cr) \<le> 16" and "min (end_tx cr) (end_rx cl) \<le> 16"
    and "handshake cross (new_end cl a) (new_end cr a) = Some s0" and "(net_step (unat mtu))\<^sup>*\<^sup>* s0 s"
    and "GG_GattlinkGenericClient_GetOutgoingDataAvailable (gl_client (left s)) = 0"
  shows "received (right s) = left_put s"
proof (rule net_inv_complete)
  show i: "net_inv (unat mtu) (min (end_tx cl) (end_rx cr)) (min (end_tx cr) (end_rx cl)) s"
    by (rule session_net_inv [OF assms(1-7)])
  then have "rb_invar (output_buffer (gl_client (left s)))"
    by (auto simp: net_inv_def ip.link_def ip.endpoint_def client_inv_def)
  with assms(8) show "client_stream (gl_client (left s)) = []"
    by (simp add: GG_GattlinkGenericClient_GetOutgoingDataAvailable_def client_stream_def GetAvailable_eq)
qed

theorem gattlink_acknowledged_delivered_witness:
  "\<exists>s0 s. handshake True (new_end example_cfg example_assembler) (new_end example_cfg example_assembler) = Some s0 \<and>
    net_run 32 example_script s0 = Some s \<and> left_put s = [example_frame] \<and> received (right s) = left_put s"
proof -
  from example_run obtain s0 s where s: "example_net = Some s0" "net_run 32 example_script s0 = Some s"
    "left_put s = [example_frame]" "client_stream (gl_client (left s)) = []"
    by (auto split: option.splits bind_splits)
  from s(1) have h: "handshake True (new_end example_cfg example_assembler) (new_end example_cfg example_assembler) = Some s0"
    by (simp add: example_net_def)
  have st: "(net_step (unat (32 :: u16)))\<^sup>*\<^sup>* s0 s" using net_run_steps [OF s(2)] by simp
  have w: "min (end_tx example_cfg) (end_rx example_cfg) \<le> 16" by (simp add: example_cfg_def)
  from session_net_inv [OF example_created example_cfg_ok example_cfg_ok w w h st] s(4)
  have "GG_GattlinkGenericClient_GetOutgoingDataAvailable (gl_client (left s)) = 0"
    by (auto simp: net_inv_def ip.link_def ip.endpoint_def client_inv_def client_stream_def GetAvailable_eq
        GG_GattlinkGenericClient_GetOutgoingDataAvailable_def)
  from gattlink_acknowledged_delivered [OF example_created example_cfg_ok example_cfg_ok w w h st this] h s show ?thesis
    by blast
qed

section \<open>No call fails\<close>

text \<open>C3: Sessions never get stuck and never fail an assertion. A client with a transmit window of less than 32 packets can
  be started, and from then on every call returns and keeps the invariant of the protocol: any bytes
  from the transport (control and data packets, well-formed or not), timers, frames and resets of the user,
  any behaviour of the user's sink (it may refuse frames), changes of the packet size. In particular the send
  loop and the loop that feeds the frame assembler end, and no copy leaves its buffer.\<close>

theorem gattlink_session_total:
  assumes "0 < buffer_size" and "buffer_size < 2 ^ 64" and "max_tx < 32" and "5 \<le> max_fragment"
    and "GG_Ipv4FrameAssembler_Create mtu None None = Inr a" and "\<forall>op \<in> set ops. op_ok (frame_sendable cfg) op"
  shows "\<exists>r c1 c2. GG_GattlinkGenericClient_Start ipv4_assembler PutData
      (connected_client buffer_size max_tx max_rx max_fragment a u) = Some (r, c1) \<and>
    client_run ipv4_assembler PutData (GG_Ipv4FrameSerializer_SerializeFrame (GG_Ipv4FrameSerializer_Create cfg))
      ops c1 = Some c2 \<and>
    session_inv asm_plain c2"
proof -
  let ?c = "connected_client buffer_size max_tx max_rx max_fragment a u"
  have i: "session_inv asm_plain ?c" by (rule connected_client_inv [where ainv = asm_plain, OF assms(1-4) Create_plain [OF assms(5)]])
  have "gl_state ?c = GG_GATTLINK_STATE_INITIALIZED"
    by (simp add: connected_client_def GG_GattlinkGenericClient_UserSide_SetDataSink_def GG_GattlinkProtocol_Create_def
        GG_GattlinkGenericClient_TransportSide_SetDataSink_def GG_GattlinkGenericClient_Create_def)
  from ipv4_link.Start_total [OF i this, of PutData] ipv4_link.client_run_total [OF _ assms(6)] show ?thesis by blast
qed

theorem gattlink_session_total_witness:
  "\<exists>r c1 c2. GG_GattlinkGenericClient_Start ipv4_assembler (\<lambda>f u. (GG_ERROR_WOULD_BLOCK, u))
      (connected_client 100 31 200 20 example_assembler ()) = Some (r, c1) \<and>
    client_run ipv4_assembler (\<lambda>f u. (GG_ERROR_WOULD_BLOCK, u))
      (GG_Ipv4FrameSerializer_SerializeFrame (GG_Ipv4FrameSerializer_Create None))
      [TransportPutData [0x80], TransportPutData [0x81, 0, 0, 255, 255], UserPutData example_frame,
       TransportPutData [0x5F, 0x3F, 1, 2], ClientTimer RetransmitTimer 4000, SetMaxFragment 5, ClientReset] c1 = Some c2 \<and>
    session_inv asm_plain c2"
  by (rule gattlink_session_total [OF _ _ _ _ example_created]) (simp_all add: op_ok_def frame_sendable_def)

section \<open>Sending\<close>

lemma session_window:
  assumes "session_inv asm_plain self" and "gl_state self = GG_GATTLINK_STATE_READY"
  obtains k where "client_inv asm_plain (gl_client self)"
    "window_ok (max_tx_window_size (actual_session_cfg self)) (length (client_stream (gl_client self))) (gl_out self) k k"
    "GG_GattlinkProtocol_GetNumPacketsInFlight (gl_out self) = k"
  using assms window_in_flight by (fastforce simp: gl_inv_def)

text \<open>An example: a ready session with a window of two packets, both in flight, and more data to send.\<close>

definition example_started :: ip_end where
  "example_started = snd (the (GG_GattlinkGenericClient_Start ipv4_assembler record_sink
     (connected_client 64 8 8 5 example_assembler [])))"

definition example_session :: ip_end where
  "example_session = the (client_run ipv4_assembler record_sink ip_serializer
     [TransportPutData [0x81, 0, 0, 2, 2], UserPutData [0x45, 0, 0, 9, 1, 2, 3, 4, 5]] example_started)"

lemma example_session_ok:
  "session_inv asm_plain example_session" "gl_state example_session = GG_GATTLINK_STATE_READY"
proof -
  have "session_inv asm_plain (connected_client 64 8 8 5 example_assembler [])"
    by (rule connected_client_inv) (use Create_plain [OF example_created] in simp_all)
  from ipv4_link.Start_total [OF this, of record_sink] have "session_inv asm_plain example_started"
    by (auto simp: example_started_def connected_client_def GG_GattlinkGenericClient_UserSide_SetDataSink_def
        GG_GattlinkProtocol_Create_def GG_GattlinkGenericClient_TransportSide_SetDataSink_def
        GG_GattlinkGenericClient_Create_def)
  from ipv4_link.client_run_total [OF this, where cfg = None and P = record_sink and
      ops = "[TransportPutData [0x81, 0, 0, 2, 2], UserPutData [0x45, 0, 0, 9, 1, 2, 3, 4, 5]]"]
  show "session_inv asm_plain example_session" by (auto simp: example_session_def op_ok_def frame_sendable_def)
  show "gl_state example_session = GG_GATTLINK_STATE_READY" by code_simp
qed

lemma win_frames_append: "i \<le> j \<Longrightarrow> j \<le> k \<Longrightarrow> win_frames ob str i k = win_frames ob str i j @ win_frames ob str j k"
  unfolding win_frames_def using upt_add_eq_append [of i j "k - j"] by simp

text \<open>C5: The send loop is exact and work-conserving. In a ready session it returns; the packets it sends carry, one after the other
  and with consecutive serial numbers, the bytes of the output stream that follow those in flight; it
  stops only when the negotiated window is full or all the data is in flight; then no acknowledgement is
  overdue.\<close>

theorem gattlink_send_exact:
  assumes "session_inv asm_plain self" and "gl_state self = GG_GATTLINK_STATE_READY"
  shows "\<exists>self' packets before after.
    GG_GattlinkProtocol_SendNextPackets (generic_client ipv4_assembler PutData) self = Some self' \<and>
    client_sent (gl_client self') = client_sent (gl_client self) @ packets \<and>
    client_stream (gl_client self') = client_stream (gl_client self) \<and>
    GG_GattlinkProtocol_GetTotalNumBytesAwaitingAck (gl_out self) = Some before \<and>
    GG_GattlinkProtocol_GetTotalNumBytesAwaitingAck (gl_out self') = Some after \<and>
    take before (client_stream (gl_client self)) @ concat (map snd (data_frames packets)) =
      take after (client_stream (gl_client self)) \<and>
    map fst (data_frames packets) =
      map (\<lambda>i. (next_data_sn (gl_out self) + i) mod 32) [0..<length (data_frames packets)] \<and>
    (GG_GattlinkProtocol_GetNumPacketsInFlight (gl_out self') = max_tx_window_size (actual_session_cfg self) \<or>
     after = length (client_stream (gl_client self))) \<and>
    GG_GattlinkProtocol_GetNumPacketsInFlight (gl_out self') \<le> max_tx_window_size (actual_session_cfg self) \<and>
    \<not> want_ack self'"
proof -
  let ?tx = "max_tx_window_size (actual_session_cfg self)" and ?str = "client_stream (gl_client self)"
  from assms obtain k where k: "client_inv asm_plain (gl_client self)" "window_ok ?tx (length ?str) (gl_out self) k k"
    by (rule session_window)
  from ipv4_link.generic.send_loop [OF k refl refl] obtain self' packets k' where s:
    "GG_GattlinkProtocol_SendNextPackets (generic_client ipv4_assembler PutData) self = Some self'"
    "same_session self self'" "client_stream (gl_client self') = ?str"
    "client_sent (gl_client self') = client_sent (gl_client self) @ packets"
    "window_ok ?tx (length ?str) (gl_out self') k' k'" "k \<le> k'" "\<not> want_ack self'"
    "data_frames packets = win_frames (gl_out self') ?str k k'"
    "win_frames (gl_out self') ?str 0 k = win_frames (gl_out self) ?str 0 k"
    "k' = ?tx \<or> win_bytes (payload_sizes (gl_out self')) (next_expected_ack_sn (gl_out self')) k' = length ?str"
    by blast
  let ?wb = "\<lambda>ob. win_bytes (payload_sizes ob) (next_expected_ack_sn ob)"
  have "concat (map snd (win_frames (gl_out self) ?str 0 k)) @ concat (map snd (data_frames packets)) =
      concat (map snd (win_frames (gl_out self') ?str 0 k'))"
    unfolding s(8) s(9) [symmetric] using win_frames_append [of 0 k k' "gl_out self'" ?str] s(6) by simp
  then have bytes: "take (?wb (gl_out self) k) ?str @ concat (map snd (data_frames packets)) = take (?wb (gl_out self') k') ?str"
    by (simp only: win_frames_bytes)
  have len: "length (data_frames packets) = k' - k" by (simp add: s(8) win_frames_def)
  have sn: "next_data_sn (gl_out self) = sn_add (next_expected_ack_sn (gl_out self)) k"
    "next_expected_ack_sn (gl_out self') = next_expected_ack_sn (gl_out self)"
    using window_okD(7) [OF k(2)] s(2) by (auto simp: same_session_def)
  have "map fst (data_frames packets) = map (\<lambda>i. (next_data_sn (gl_out self) + i) mod 32) [0..<k' - k]"
    unfolding s(8) by (rule nth_equalityI)
      (simp_all add: win_frames_def win_frame_def sn sn_add_def mod_add_left_eq add.assoc)
  with s(1,3,4,7,10) bytes len window_awaiting [OF k(2)] window_awaiting [OF s(5)] window_in_flight [OF s(5)]
    window_okD(5) [OF s(5)] show ?thesis by auto
qed

theorem gattlink_send_exact_witness:
  "\<exists>self' packets before after.
    GG_GattlinkProtocol_SendNextPackets (generic_client ipv4_assembler record_sink) example_session = Some self' \<and>
    client_sent (gl_client self') = client_sent (gl_client example_session) @ packets \<and>
    GG_GattlinkProtocol_GetTotalNumBytesAwaitingAck (gl_out self') = Some after \<and>
    take before (client_stream (gl_client example_session)) @ concat (map snd (data_frames packets)) =
      take after (client_stream (gl_client example_session)) \<and> \<not> want_ack self'"
  using gattlink_send_exact [OF example_session_ok, of record_sink] by blast

text \<open>C6: A retransmission repeats exactly what is unacknowledged. When the retransmission timer of a ready session fires, the first packets
  sent carry the same serial numbers and the same bytes as the packets in flight, in the same
  order; new data may follow.\<close>

theorem gattlink_retransmit_exact:
  assumes "session_inv asm_plain self" and "gl_state self = GG_GATTLINK_STATE_READY"
  shows "\<exists>self' packets new.
    GG_GattlinkProtocol_OnTimerFired (generic_client ipv4_assembler PutData) RetransmitTimer elapsed self = Some self' \<and>
    client_sent (gl_client self') = client_sent (gl_client self) @ packets \<and>
    client_stream (gl_client self') = client_stream (gl_client self) \<and>
    data_frames packets = win_frames (gl_out self) (client_stream (gl_client self)) 0
      (GG_GattlinkProtocol_GetNumPacketsInFlight (gl_out self)) @ new"
proof -
  let ?C = "generic_client ipv4_assembler PutData" and ?str = "client_stream (gl_client self)"
  let ?tx = "max_tx_window_size (actual_session_cfg self)"
  from assms obtain k where k: "client_inv asm_plain (gl_client self)" "window_ok ?tx (length ?str) (gl_out self) k k"
    "GG_GattlinkProtocol_GetNumPacketsInFlight (gl_out self) = k"
    by (rule session_window)
  define u where "u = update_stall ?C elapsed (upd_out (\<lambda>ob. ob\<lparr>retransmit_timer := None\<rparr>) self)"
  define s2 where "s2 = upd_out (\<lambda>ob. ob\<lparr>next_data_sn := next_expected_ack_sn ob\<rparr>) u"
  have u: "gl_state u = gl_state self" "client_inv asm_plain (gl_client s2)" "client_stream (gl_client s2) = ?str"
    "client_sent (gl_client s2) = client_sent (gl_client self)" "actual_session_cfg s2 = actual_session_cfg self"
    "gl_out s2 = (gl_out self)\<lparr>retransmit_timer := None, next_data_sn := next_expected_ack_sn (gl_out self)\<rparr>"
    using k(1) ipv4_link.generic.stalled by (auto simp: u_def s2_def update_stall_def Let_def)
  have w: "window_ok (max_tx_window_size (actual_session_cfg s2)) (length ?str) (gl_out s2) k 0"
    using k(2) by (auto simp: u window_ok_def)
  from ipv4_link.generic.send_loop [OF u(2) w u(3) refl] obtain self' packets k' where s:
    "GG_GattlinkProtocol_SendNextPackets ?C s2 = Some self'" "client_stream (gl_client self') = ?str"
    "client_sent (gl_client self') = client_sent (gl_client s2) @ packets" "k \<le> k'"
    "data_frames packets = win_frames (gl_out self') ?str 0 k'"
    "win_frames (gl_out self') ?str 0 k = win_frames (gl_out s2) ?str 0 k"
    by blast
  have "win_frames (gl_out s2) ?str 0 k = win_frames (gl_out self) ?str 0 k" by (rule win_frames_cong) (simp_all add: u)
  with s(4-6) win_frames_append [of 0 k k' "gl_out self'" ?str]
  have "data_frames packets = win_frames (gl_out self) ?str 0 k @ win_frames (gl_out self') ?str k k'" by simp
  moreover have "GG_GattlinkProtocol_OnTimerFired ?C RetransmitTimer elapsed self = Some self'"
    using s(1) u(1) assms(2)
    by (simp add: GG_GattlinkProtocol_OnTimerFired_def GG_GattlinkProtocol_OnSendTimeoutFired_def Let_def u_def s2_def
        del: upd_out_def)
  ultimately show ?thesis using s(2,3) u(4) k(3) by auto
qed

theorem gattlink_retransmit_exact_witness:
  "\<exists>self' packets new.
    GG_GattlinkProtocol_OnTimerFired (generic_client ipv4_assembler record_sink) RetransmitTimer 4000 example_session =
      Some self' \<and>
    client_sent (gl_client self') = client_sent (gl_client example_session) @ packets \<and>
    data_frames packets = [(0, [0x45, 0, 0, 9]), (1, [1, 2, 3, 4])] @ new"
proof -
  have "win_frames (gl_out example_session) (client_stream (gl_client example_session)) 0
      (GG_GattlinkProtocol_GetNumPacketsInFlight (gl_out example_session)) = [(0, [0x45, 0, 0, 9]), (1, [1, 2, 3, 4])]"
    by code_simp
  with gattlink_retransmit_exact [OF example_session_ok, of record_sink 4000] show ?thesis by metis
qed

section \<open>Acknowledgements\<close>

text \<open>C7: Acknowledgements are cumulative. An acknowledgement of the serial number of packet number \<open>d\<close> in flight (counted from 0) releases
  the packets up to and including it: exactly their bytes are consumed from the output stream, the
  remaining packets stay in flight, and the next acknowledgement expected is the following one. An
  acknowledgement of any other serial number changes nothing.\<close>

theorem gattlink_ack_cumulative:
  assumes "session_inv asm_plain self" and "gl_state self = GG_GATTLINK_STATE_READY" and "psn < 32"
    and "d = GG_GattlinkProtocol_CalculateDistance (next_expected_ack_sn (gl_out self)) psn"
    and "k = GG_GattlinkProtocol_GetNumPacketsInFlight (gl_out self)"
  shows "\<exists>self'. handle_ack (generic_client ipv4_assembler PutData) psn self = Some self' \<and>
    (if d < k
     then client_stream (gl_client self) =
         concat (map snd (win_frames (gl_out self) (client_stream (gl_client self)) 0 (Suc d))) @
         client_stream (gl_client self') \<and>
       GG_GattlinkProtocol_GetNumPacketsInFlight (gl_out self') = k - Suc d \<and>
       win_frames (gl_out self') (client_stream (gl_client self')) 0 (k - Suc d) =
         win_frames (gl_out self) (client_stream (gl_client self)) (Suc d) k \<and>
       next_expected_ack_sn (gl_out self') = GG_GattlinkProtocol_GetNextSn psn
     else self' = self)"
proof -
  let ?C = "generic_client ipv4_assembler PutData" and ?str = "client_stream (gl_client self)"
  let ?tx = "max_tx_window_size (actual_session_cfg self)"
  define n where "n = win_bytes (payload_sizes (gl_out self)) (next_expected_ack_sn (gl_out self)) (Suc d)"
  from assms(1,2) obtain k' where k': "client_inv asm_plain (gl_client self)" "window_ok ?tx (length ?str) (gl_out self) k' k'"
    "GG_GattlinkProtocol_GetNumPacketsInFlight (gl_out self) = k'"
    by (rule session_window)
  then have w: "window_ok ?tx (length ?str) (gl_out self) k k" using assms(5) by simp
  note h = ipv4_link.generic.handle_ack_spec [OF k'(1) assms(3) w assms(4) n_def]
  show ?thesis
  proof (cases "d < k")
    case False
    with h(1) show ?thesis by auto
  next
    case True
    from h(2) [OF True] obtain ob where o:
      "handle_ack ?C psn self = Some (self\<lparr>gl_out := ob, gl_client := ConsumeOutgoingData ?C n (gl_client self)\<rparr>)"
      "n \<le> length ?str" "window_ok ?tx (length ?str - n) ob (k - Suc d) (k - Suc d)"
      "win_frames ob (drop n ?str) 0 (k - Suc d) = win_frames (gl_out self) ?str (Suc d) k"
      "next_expected_ack_sn ob = sn_add (next_expected_ack_sn (gl_out self)) (Suc d)" by blast
    have str: "client_stream (ConsumeOutgoingData ?C n (gl_client self)) = drop n ?str"
      by (rule ipv4_link.generic.consume_stream [OF k'(1) o(2)])
    have nx: "sn_add (next_expected_ack_sn (gl_out self)) (Suc d) = GG_GattlinkProtocol_GetNextSn psn"
      using sn_add_CalculateDistance [OF window_okD(1) [OF w] assms(3)] assms(4)
      by (metis GetNextSn_eq Suc_eq_plus1 sn_add_add)
    have "?str = concat (map snd (win_frames (gl_out self) ?str 0 (Suc d))) @ drop n ?str"
      unfolding win_frames_bytes n_def by simp
    with True o str nx window_in_flight [OF o(3)] show ?thesis by simp
  qed
qed

theorem gattlink_ack_cumulative_witness:
  "\<exists>self'. handle_ack (generic_client ipv4_assembler record_sink) 0 example_session = Some self' \<and>
    client_stream (gl_client example_session) = [0x45, 0, 0, 9] @ client_stream (gl_client self') \<and>
    GG_GattlinkProtocol_GetNumPacketsInFlight (gl_out self') = 1 \<and>
    next_expected_ack_sn (gl_out self') = 1"
proof -
  have "GG_GattlinkProtocol_CalculateDistance (next_expected_ack_sn (gl_out example_session)) 0 = 0"
    "GG_GattlinkProtocol_GetNumPacketsInFlight (gl_out example_session) = 2"
    "concat (map snd (win_frames (gl_out example_session) (client_stream (gl_client example_session)) 0 (Suc 0))) =
      [0x45, 0, 0, 9]"
    "GG_GattlinkProtocol_GetNextSn 0 = 1"
    by code_simp+
  with gattlink_ack_cumulative [OF example_session_ok, where psn = 0 and d = 0 and k = 2 and PutData = record_sink]
  show ?thesis by (auto simp del: One_nat_def)
qed

section \<open>Outside the limits\<close>

text \<open>
  With a window of one packet, a lost acknowledgement stops the session for good: the receiver takes the
  retransmitted packet for one beyond its window (the distance 1 is not less than the window 1), and does
  not acknowledge it again. Every further retransmission finds the receiver in the same state.
\<close>

definition stall_net :: "net option" where
  "stall_net = handshake True (new_end (example_cfg\<lparr>end_tx := 1, end_fragment := 10\<rparr>) example_assembler)
     (new_end (example_cfg\<lparr>end_rx := 1, end_fragment := 10\<rparr>) example_assembler)"

definition stall_script :: "net_op list" where
  "stall_script = [Put example_frame, OnRight Deliver, Lose 0, FireRetransmit 4000, OnRight Deliver]"

lemma window_of_one_stalls:
  "(case (stall_net \<bind> net_run 32 stall_script,
      stall_net \<bind> net_run 32 (stall_script @ [FireRetransmit 4000, OnRight Deliver])) of
     (Some s1, Some s2) \<Rightarrow> received (right s1) = [example_frame] \<and> channel (right s1) = [] \<and> right s2 = right s1 \<and>
       ack_timer (gl_out (right s1)) = None \<and>
       GG_GattlinkGenericClient_GetOutgoingDataAvailable (gl_client (left s2)) = 8
   | _ \<Rightarrow> False)"
  by code_simp

text \<open>
  With a window of more than 16 packets, data can be lost: when packets 0 to 15 of a session are lost, packet
  16 is taken for a retransmission of a packet before packet 0, and packet 0 is
  acknowledged although it never arrived. The sender drops its bytes.
\<close>

definition wide_cfg :: end_cfg where
  "wide_cfg = \<lparr>end_buffer = 100, end_tx = 20, end_rx = 20, end_fragment = 5\<rparr>"

definition wide_frame :: "u8 \<Rightarrow> bytes" where
  "wide_frame n = [0x45, n, 0, 32] @ replicate 28 n"

definition wide_script :: "net_op list" where
  "wide_script = [Put (wide_frame 1), Put (wide_frame 2), Put (take 3 (wide_frame 3) @ [4])] @
     replicate 16 (OnRight (Lose 0)) @ [OnRight Deliver, OnRight (FireAck 200), Deliver]"

lemma wide_window_loses_data:
  "(case handshake True (new_end wide_cfg example_assembler) (new_end wide_cfg example_assembler) \<bind>
      net_run 32 wide_script of
     Some s \<Rightarrow> length (concat (left_put s)) = 68 \<and>
       GG_GattlinkGenericClient_GetOutgoingDataAvailable (gl_client (left s)) = 64 \<and>
       next_expected_data_psn (gl_in (right s)) = 0 \<and> received (right s) = []
   | None \<Rightarrow> False)"
  by code_simp

text \<open>
  A data packet without payload blocks the receiver: its buffer counts as full, but there is nothing
  the client could consume; all further data packets are refused, and telling the client that its user can take
  data does not help.
\<close>

lemma empty_payload_blocks:
  "(case GG_GattlinkGenericClient_TransportSide_PutData ipv4_assembler record_sink [0] example_session of
     Some (_, e) \<Rightarrow> payload_buffer_full (gl_in e) \<and>
       GG_GattlinkProtocol_GetIncomingDataAvailable (gl_in e) = 0 \<and>
       map_option gl_in (GG_GattlinkGenericClient_UserSide_OnCanPut ipv4_assembler record_sink e) = Some (gl_in e) \<and>
       map_option fst (GG_GattlinkProtocol_HandleDataPacket ip_client [1, 7] e) = Some GG_ERROR_NOT_ENOUGH_SPACE
   | None \<Rightarrow> False)"
  by code_simp

text \<open>
  A retransmitted packet can be longer than the transport allows: it keeps the size of its first
  transmission, and an acknowledgement that has become due is put in front of it. Here the
  transport takes 5 bytes.
\<close>

lemma retransmission_exceeds_packet_size:
  "(case GG_GattlinkGenericClient_TransportSide_PutData ipv4_assembler record_sink [0, 7] example_session of
     Some (_, e) \<Rightarrow>
       (case GG_GattlinkProtocol_OnTimerFired ip_client RetransmitTimer 4000 (upd_out (\<lambda>ob. ob\<lparr>ack_now := True\<rparr>) e) of
          Some e' \<Rightarrow> max_transport_fragment_size (gl_client e') = 5 \<and>
            channel e' = channel e @ [[0x40, 0, 0x45, 0, 0, 9], [1, 1, 2, 3, 4]]
        | None \<Rightarrow> False)
   | None \<Rightarrow> False)"
  by code_simp

text \<open>
  With a window of 32 packets or more the send loop never ends: once 32 packets are in flight, the distance between the
  first unacknowledged and the next serial number is 0, and the loop retransmits the window for ever.
\<close>

definition saturated :: "'c GG_GattlinkProtocol \<Rightarrow> bool" where
  "saturated self \<longleftrightarrow> 32 \<le> max_tx_window_size (actual_session_cfg self) \<and>
     length (payload_sizes (gl_out self)) = 32 \<and> (\<forall>n \<in> set (payload_sizes (gl_out self)). 0 < n) \<and>
     next_expected_ack_sn (gl_out self) < 32 \<and> next_data_sn (gl_out self) < 32"

context gattlink_client_connected
begin

lemma saturated_prepare:
  assumes s: "saturated self" and c: "cinv (gl_client self)" "stream (gl_client self) \<noteq> []"
  shows "\<exists>packet. GG_GattlinkProtocol_PrepareNextPacket C self =
    Some (Some (packet, payload_sizes (gl_out self) ! next_data_sn (gl_out self)), arm_retransmit self)"
proof -
  let ?ob = "gl_out self"
  have d: "GG_GattlinkProtocol_GetNumPacketsInFlight ?ob < max_tx_window_size (actual_session_cfg self)"
    using CalculateDistance_less [of "next_expected_ack_sn ?ob" "next_data_sn ?ob"] s
    by (simp add: GG_GattlinkProtocol_GetNumPacketsInFlight_def saturated_def)
  have pos: "0 < payload_sizes ?ob ! next_data_sn ?ob" using s by (simp add: saturated_def)
  have nd: "next_data_sn ?ob = sn_add (next_expected_ack_sn ?ob)
      (GG_GattlinkProtocol_CalculateDistance (next_expected_ack_sn ?ob) (next_data_sn ?ob))"
    using s by (simp add: sn_add_CalculateDistance saturated_def)
  have "next_expected_ack_sn ?ob < 32" using s by (simp add: saturated_def)
  from sum_sizes_eq [OF this CalculateDistance_less, of "payload_sizes ?ob" 0 "next_expected_ack_sn ?ob" "next_data_sn ?ob",
      folded nd]
  obtain off where "GG_GattlinkProtocol_GetTotalNumBytesAwaitingAck ?ob = Some off"
    by (simp add: GG_GattlinkProtocol_GetTotalNumBytesAwaitingAck_def
        GG_GattlinkProtocol_GetTotalNumBytesAwaitingAckUpTo_def)
  with d pos max_packet [OF c(1)] avail [OF c(1)] c(2) show ?thesis
    by (auto simp: GG_GattlinkProtocol_PrepareNextPacket_def Let_def GG_GattlinkProtocol_GetPayloadSize_def
        arm_retransmit_def)
qed

lemma saturated_step:
  assumes s: "saturated self" and n: "n = payload_sizes (gl_out self) ! next_data_sn (gl_out self)"
  shows "saturated (after_send C packet n (arm_retransmit self))"
  using assms
  by (auto simp: saturated_def after_send_def book_sent_def Let_def GG_GattlinkProtocol_SetPayloadSize_def
      GG_GattlinkProtocol_GetNextSn_def)

lemma full_window_loops:
  assumes "saturated self" and "cinv (gl_client self)" and "stream (gl_client self) \<noteq> []"
  shows "GG_GattlinkProtocol_SendNextPackets C self = None"
proof (rule ccontr)
  assume "GG_GattlinkProtocol_SendNextPackets C self \<noteq> None"
  then obtain self' where r: "GG_GattlinkProtocol_SendNextPackets C self = Some self'" by blast
  define ends where "ends C0 s s' \<longleftrightarrow> (C0 = C \<longrightarrow> saturated s \<longrightarrow> cinv (gl_client s) \<longrightarrow> stream (gl_client s) = [])"
    for C0 s and s' :: "'a GG_GattlinkProtocol"
  have "ends C self self'"
  proof (rule GG_GattlinkProtocol_SendNextPackets.raw_induct [rotated, OF r], goal_cases)
    case (1 f C0 s s')
    show ?case
    proof (unfold ends_def, intro impI, rule ccontr)
      assume a: "C0 = C" "saturated s" "cinv (gl_client s)" "stream (gl_client s) \<noteq> []"
      define n where "n = payload_sizes (gl_out s) ! next_data_sn (gl_out s)"
      from saturated_prepare [OF a(2-4)] obtain packet where
        p: "GG_GattlinkProtocol_PrepareNextPacket C s = Some (Some (packet, n), arm_retransmit s)"
        by (auto simp: n_def)
      define s2 where "s2 = after_send C packet n (arm_retransmit s)"
      have "f C s2 = Some s'" using p 1(2) a(1) send_ok [OF a(3), of packet]
        by (simp add: GG_GattlinkProtocol_SendRawData_def split_beta s2_def after_send_def)
      from 1(1) [OF this] saturated_step [OF a(2) n_def, of packet] send_cinv [OF a(3)] send_stream a(4)
      show False by (simp add: ends_def s2_def after_send_def)
    qed
  qed
  with assms show False by (simp add: ends_def)
qed

end

end
