(* ===== verification/Coap_Message.thy ===== *)
theory Coap_Message
  imports Byte_Order "HOL-Library.Monad_Syntax"
begin

text \<open>
  CoAP messages (\<^verbatim>\<open>xp/coap/gg_coap_message.c\<close>): building a datagram from its parts, parsing a
  datagram, and reading the options of a message with an iterator. A message is the bytes of its datagram and
  the place of the payload, as in the C struct.

  Pointers into the datagram are offsets. The iterator of the C code does no bounds checks of its own
  (\<^verbatim>\<open>GG_CoapMessage_StepOptionIterator_\<close> relies on the checks of the parser); here every access to the
  datagram is checked, and a step yields \<open>None\<close> when it would read outside.
  Allocation does not fail.
\<close>

section \<open>Types\<close>

definition GG_COAP_MESSAGE_MIN_SIZE :: nat where
  [simp]: "GG_COAP_MESSAGE_MIN_SIZE = 4"

definition GG_COAP_MESSGAGE_MAX_TOKEN_LENGTH :: nat where
  [simp]: "GG_COAP_MESSGAGE_MAX_TOKEN_LENGTH = 8"

definition GG_COAP_MESSAGE_OPTION_NONE :: u32 where
  [simp]: "GG_COAP_MESSAGE_OPTION_NONE = 0"

text \<open>
  The type and the value of an option. A string is the memory its pointer points to and a length, which may be
  0 for a null-terminated string.
\<close>

datatype GG_CoapMessageOptionValue =
    GG_COAP_MESSAGE_OPTION_TYPE_EMPTY
  | GG_COAP_MESSAGE_OPTION_TYPE_UINT u32
  | GG_COAP_MESSAGE_OPTION_TYPE_STRING bytes nat
  | GG_COAP_MESSAGE_OPTION_TYPE_OPAQUE bytes

record GG_CoapMessageOption =
  option_number :: u32
  option_value :: GG_CoapMessageOptionValue

record GG_CoapMessage =
  message_data :: bytes
  payload_offset :: nat
  payload_size :: nat

datatype GG_CoapMessageType =
  GG_COAP_MESSAGE_TYPE_CON | GG_COAP_MESSAGE_TYPE_NON | GG_COAP_MESSAGE_TYPE_ACK | GG_COAP_MESSAGE_TYPE_RST

definition message_type_code :: "GG_CoapMessageType \<Rightarrow> u8" where
  "message_type_code t = (case t of GG_COAP_MESSAGE_TYPE_CON \<Rightarrow> 0 | GG_COAP_MESSAGE_TYPE_NON \<Rightarrow> 1
     | GG_COAP_MESSAGE_TYPE_ACK \<Rightarrow> 2 | GG_COAP_MESSAGE_TYPE_RST \<Rightarrow> 3)"

section \<open>Parsing\<close>

text \<open>The extension of a delta or length nibble: the value, and the bytes after it.\<close>

definition option_ext :: "u8 \<Rightarrow> bytes \<Rightarrow> (nat \<times> bytes) option" where
  "option_ext nibble data =
     (if nibble = 13 then (if length data < 1 then None else Some (13 + unat (data ! 0), drop 1 data))
      else if nibble = 14 then (if length data < 2 then None
        else Some (269 + unat (push_bit 8 (ucast (data ! 0)) OR ucast (data ! 1) :: u32), drop 2 data))
      else Some (unat nibble, data))"

lemma option_ext_length: "option_ext nibble data = Some (n, rest) \<Longrightarrow> length rest \<le> length data"
  by (auto simp: option_ext_def split: if_splits)

text \<open>The loop over the options: the bytes that follow them, or an error.\<close>

function skip_options :: "bytes \<Rightarrow> GG_Result + bytes" where
  "skip_options data =
     (if data = [] \<or> hd data = 0xFF then Inr data
      else
        let option_delta = drop_bit 4 (hd data) AND 0xF;
            option_length = hd data AND 0xF
        in if option_delta = 15 \<or> option_length = 15 then Inl GG_ERROR_INVALID_FORMAT
           else case option_ext option_delta (tl data) of
             None \<Rightarrow> Inl GG_ERROR_INVALID_FORMAT
           | Some (_, rest) \<Rightarrow>
               (case option_ext option_length rest of
                  None \<Rightarrow> Inl GG_ERROR_INVALID_FORMAT
                | Some (n, rest) \<Rightarrow>
                    if length rest < n then Inl GG_ERROR_INVALID_FORMAT else skip_options (drop n rest)))"
  by pat_completeness auto
termination
  by (relation "measure length")
    (auto dest!: option_ext_length simp: neq_Nil_conv)

declare skip_options.simps [simp del]

definition GG_CoapMessage_CreateFromDatagram :: "bytes \<Rightarrow> GG_Result + GG_CoapMessage" where
  "GG_CoapMessage_CreateFromDatagram data =
     (if length data < GG_COAP_MESSAGE_MIN_SIZE then Inl GG_ERROR_INVALID_FORMAT
      else if drop_bit 6 (data ! 0) AND 3 \<noteq> 1 then Inl GG_ERROR_COAP_UNSUPPORTED_VERSION
      else
        let token_length = unat (data ! 0 AND 0xF)
        in if token_length > GG_COAP_MESSGAGE_MAX_TOKEN_LENGTH \<or> length data < 4 + token_length
           then Inl GG_ERROR_INVALID_FORMAT
           else case skip_options (drop (4 + token_length) data) of
             Inl e \<Rightarrow> Inl e
           | Inr rest \<Rightarrow>
               if rest = []
               then Inr \<lparr>message_data = data, payload_offset = length data, payload_size = 0\<rparr>
               else if hd rest \<noteq> 0xFF then Inl GG_ERROR_INVALID_FORMAT
               else if length rest = 1 then Inl GG_ERROR_INVALID_FORMAT
               else Inr \<lparr>message_data = data, payload_offset = length data - (length rest - 1),
                         payload_size = length rest - 1\<rparr>)"

section \<open>Building\<close>

text \<open>The nibble, the extension and its size; \<open>None\<close> is \<^verbatim>\<open>GG_ERROR_OUT_OF_RANGE\<close>.\<close>

definition GG_CoapMessage_GetVarInt :: "u32 \<Rightarrow> (u8 \<times> u16 \<times> nat) option" where
  "GG_CoapMessage_GetVarInt n =
     (if n < 13 then Some (ucast n, 0, 0)
      else if n < 269 then Some (13, ucast (n - 13), 1)
      else if n \<le> 269 + 0xFFFF then Some (14, ucast (n - 269), 2)
      else None)"

definition strlen :: "bytes \<Rightarrow> nat" where
  "strlen chars = length (takeWhile (\<lambda>c. c \<noteq> 0) chars)"

definition GG_CoapMessage_OptionLength :: "GG_CoapMessageOption \<Rightarrow> nat" where
  "GG_CoapMessage_OptionLength opt = (case option_value opt of
       GG_COAP_MESSAGE_OPTION_TYPE_UINT v \<Rightarrow>
         if v = 0 then 0 else if v < 0xFF then 1 else if v < 0xFFFF then 2 else if v < 0xFFFFFF then 3 else 4
     | GG_COAP_MESSAGE_OPTION_TYPE_STRING chars n \<Rightarrow> if n = 0 then strlen chars else n
     | GG_COAP_MESSAGE_OPTION_TYPE_OPAQUE bs \<Rightarrow> length bs
     | GG_COAP_MESSAGE_OPTION_TYPE_EMPTY \<Rightarrow> 0)"

fun GG_CoapMessage_ComputeOptionsSize :: "GG_CoapMessageOption list \<Rightarrow> u32 \<Rightarrow> nat \<Rightarrow> nat option" where
  "GG_CoapMessage_ComputeOptionsSize [] current_number n = Some n"
| "GG_CoapMessage_ComputeOptionsSize (opt # opts) current_number n =
     (if option_number opt < current_number then None
      else case GG_CoapMessage_GetVarInt (option_number opt - current_number) of
        None \<Rightarrow> Some n
      | Some (_, _, delta_ext_size) \<Rightarrow>
          (let len = (of_nat (GG_CoapMessage_OptionLength opt) :: u32)
           in case GG_CoapMessage_GetVarInt len of
             None \<Rightarrow> Some n
           | Some (_, _, length_ext_size) \<Rightarrow>
               GG_CoapMessage_ComputeOptionsSize opts (option_number opt)
                 (n + 1 + delta_ext_size + length_ext_size + unat len)))"

definition ext_bytes :: "u16 \<Rightarrow> nat \<Rightarrow> bytes" where
  "ext_bytes ext n = (if n = 1 then [ucast ext] else if n = 2 then [ucast (drop_bit 8 ext), ucast ext] else [])"

text \<open>The bytes the value of an option is copied from.\<close>

definition option_value_bytes :: "GG_CoapMessageOptionValue \<Rightarrow> nat \<Rightarrow> bytes" where
  "option_value_bytes v len = (case v of
       GG_COAP_MESSAGE_OPTION_TYPE_UINT u \<Rightarrow> drop (4 - len) (GG_BytesFromInt32Be u)
     | GG_COAP_MESSAGE_OPTION_TYPE_STRING chars n \<Rightarrow> take len chars
     | GG_COAP_MESSAGE_OPTION_TYPE_OPAQUE bs \<Rightarrow> take len bs
     | GG_COAP_MESSAGE_OPTION_TYPE_EMPTY \<Rightarrow> [])"

text \<open>The bytes the loop writes, from the start of the buffer on. The caller ignores the result code.\<close>

fun GG_CoapMessage_SerializeOptions :: "GG_CoapMessageOption list \<Rightarrow> u32 \<Rightarrow> (GG_Result \<times> bytes) option" where
  "GG_CoapMessage_SerializeOptions [] current_number = Some (GG_SUCCESS, [])"
| "GG_CoapMessage_SerializeOptions (opt # opts) current_number =
     (if option_number opt < current_number then None
      else case GG_CoapMessage_GetVarInt (option_number opt - current_number) of
        None \<Rightarrow> Some (GG_ERROR_OUT_OF_RANGE, [])
      | Some (delta_nibble, delta_ext, delta_ext_size) \<Rightarrow>
          (let len = (of_nat (GG_CoapMessage_OptionLength opt) :: u32)
           in case GG_CoapMessage_GetVarInt len of
             None \<Rightarrow> Some (GG_ERROR_OUT_OF_RANGE, [])
           | Some (length_nibble, length_ext, length_ext_size) \<Rightarrow>
               map_option (map_prod id (\<lambda>bs.
                   (push_bit 4 delta_nibble OR length_nibble) # ext_bytes delta_ext delta_ext_size @
                   ext_bytes length_ext length_ext_size @ option_value_bytes (option_value opt) (unat len) @ bs))
                 (GG_CoapMessage_SerializeOptions opts (option_number opt))))"

text \<open>The linked list of options in the order of their numbers: the loop in \<^verbatim>\<open>GG_CoapMessage_Create\<close>.\<close>

fun insert_option :: "GG_CoapMessageOption \<Rightarrow> GG_CoapMessageOption list \<Rightarrow> GG_CoapMessageOption list" where
  "insert_option opt [] = [opt]"
| "insert_option opt (x # xs) =
     (if option_number x \<le> option_number opt then x # insert_option opt xs else opt # x # xs)"

definition sort_options :: "GG_CoapMessageOption list \<Rightarrow> GG_CoapMessageOption list" where
  "sort_options opts = fold insert_option opts []"

text \<open>
  \<open>junk\<close> is the contents of the newly allocated buffer. A payload that is not given yet (\<open>None\<close> with a size) is
  filled with zeros. The outer \<open>None\<close> is a failed assertion.
\<close>

definition GG_CoapMessage_Create ::
  "(nat \<Rightarrow> u8) \<Rightarrow> u8 \<Rightarrow> GG_CoapMessageType \<Rightarrow> GG_CoapMessageOption list \<Rightarrow> u16 \<Rightarrow> bytes \<Rightarrow> bytes option \<Rightarrow> nat \<Rightarrow>
   (GG_Result + GG_CoapMessage) option" where
  "GG_CoapMessage_Create junk code type options message_id token payload payload_len =
     (if length token > GG_COAP_MESSGAGE_MAX_TOKEN_LENGTH then Some (Inl GG_ERROR_INVALID_PARAMETERS)
      else do {
        let sorted_options = sort_options options;
        options_size \<leftarrow> GG_CoapMessage_ComputeOptionsSize sorted_options 0 0;
        let buffer_size = 4 + length token + options_size + (if payload_len \<noteq> 0 then 1 + payload_len else 0);
        let data = map junk [0..<buffer_size];
        let data = memcpy_at data 0
          [push_bit 6 1 OR push_bit 4 (message_type_code type) OR of_nat (length token), code,
           ucast (drop_bit 8 message_id AND 0xFF), ucast (message_id AND 0xFF)];
        let data = memcpy_at data 4 token;
        (_, bs) \<leftarrow> GG_CoapMessage_SerializeOptions sorted_options 0;
        let data = memcpy_at data (4 + length token) bs;
        let offset = 4 + length token + options_size;
        let (data, offset) =
          (if payload_len \<noteq> 0
           then (memcpy_at (data[offset := 0xFF]) (offset + 1)
                   (case payload of Some p \<Rightarrow> take payload_len p | None \<Rightarrow> replicate payload_len 0), offset + 1)
           else (data, offset));
        Some (Inr \<lparr>message_data = data, payload_offset = offset, payload_size = payload_len\<rparr>)
      })"

section \<open>Reading\<close>

definition GG_CoapMessage_GetType :: "GG_CoapMessage \<Rightarrow> u8" where
  "GG_CoapMessage_GetType self = drop_bit 4 (message_data self ! 0) AND 3"

definition GG_CoapMessage_GetCode :: "GG_CoapMessage \<Rightarrow> u8" where
  "GG_CoapMessage_GetCode self = message_data self ! 1"

definition GG_CoapMessage_GetToken :: "GG_CoapMessage \<Rightarrow> bytes" where
  "GG_CoapMessage_GetToken self =
     subarray (message_data self) 4 (min GG_COAP_MESSGAGE_MAX_TOKEN_LENGTH (unat (message_data self ! 0 AND 0xF)))"

definition GG_CoapMessage_GetMessageId :: "GG_CoapMessage \<Rightarrow> u16" where
  "GG_CoapMessage_GetMessageId self = push_bit 8 (ucast (message_data self ! 2)) OR ucast (message_data self ! 3)"

definition GG_CoapMessage_GetPayloadSize :: "GG_CoapMessage \<Rightarrow> nat" where
  "GG_CoapMessage_GetPayloadSize self = payload_size self"

definition GG_CoapMessage_GetPayload :: "GG_CoapMessage \<Rightarrow> bytes option" where
  "GG_CoapMessage_GetPayload self =
     (if payload_size self \<noteq> 0 then Some (subarray (message_data self) (payload_offset self) (payload_size self))
      else None)"

definition GG_CoapMessage_ToDatagram :: "GG_CoapMessage \<Rightarrow> bytes" where
  "GG_CoapMessage_ToDatagram self = message_data self"

record GG_CoapMessageOptionIterator =
  iter_number :: u32
  iter_value :: GG_CoapMessageOptionValue
  iter_filter :: u32
  iter_location :: nat
  iter_end :: nat

definition uint_option :: "u32 \<Rightarrow> bool" where
  "uint_option n \<longleftrightarrow> n \<in> {7, 12, 14, 17, 60, 28, 27, 23, 2048}"

definition string_option :: "u32 \<Rightarrow> bool" where
  "string_option n \<longleftrightarrow> n \<in> {3, 8, 11, 15, 20, 35, 39}"

definition uint_of_bytes :: "bytes \<Rightarrow> u32" where
  "uint_of_bytes bs = fold (\<lambda>b v. push_bit 8 v OR ucast b) bs 0"

text \<open>The value of an option, by the type its number has.\<close>

definition decode_option :: "u32 \<Rightarrow> bytes \<Rightarrow> GG_CoapMessageOptionValue" where
  "decode_option n bs =
     (if n = 5 then GG_COAP_MESSAGE_OPTION_TYPE_EMPTY
      else if uint_option n then GG_COAP_MESSAGE_OPTION_TYPE_UINT (uint_of_bytes bs)
      else if string_option n then GG_COAP_MESSAGE_OPTION_TYPE_STRING bs (length bs)
      else GG_COAP_MESSAGE_OPTION_TYPE_OPAQUE bs)"

definition end_iteration :: "GG_CoapMessageOptionIterator \<Rightarrow> GG_CoapMessageOptionIterator" where
  "end_iteration it =
     it\<lparr>iter_number := GG_COAP_MESSAGE_OPTION_NONE, iter_value := GG_COAP_MESSAGE_OPTION_TYPE_EMPTY\<rparr>"

definition GG_CoapMessage_StepOptionIterator1 ::
  "bytes \<Rightarrow> GG_CoapMessageOptionIterator \<Rightarrow> GG_CoapMessageOptionIterator option" where
  "GG_CoapMessage_StepOptionIterator1 data it =
     (if iter_location it \<ge> iter_end it then Some (end_iteration it)
      else if iter_location it \<ge> length data then None
      else do {
        let b = data ! iter_location it;
        let option_delta = drop_bit 4 b AND 0xF;
        let option_length = b AND 0xF;
        if option_delta = 15 \<or> option_length = 15 then Some (end_iteration it)
        else do {
          (delta, rest) \<leftarrow> option_ext option_delta (drop (iter_location it + 1) data);
          (len, rest) \<leftarrow> option_ext option_length rest;
          let number = iter_number it + of_nat delta;
          if length rest < len then None
          else Some (it\<lparr>iter_number := number,
            iter_value := (if iter_filter it = 0 \<or> iter_filter it = number
                           then decode_option number (take len rest) else iter_value it),
            iter_location := length data - length rest + len\<rparr>)
        }
      })"

partial_function (option) step_filtered ::
  "bytes \<Rightarrow> GG_CoapMessageOptionIterator \<Rightarrow> GG_CoapMessageOptionIterator option" where
  "step_filtered data it = do {
     it \<leftarrow> GG_CoapMessage_StepOptionIterator1 data it;
     if iter_number it \<noteq> 0 \<and> iter_number it \<noteq> iter_filter it then step_filtered data it else Some it
   }"

definition GG_CoapMessage_StepOptionIterator ::
  "GG_CoapMessage \<Rightarrow> GG_CoapMessageOptionIterator \<Rightarrow> GG_CoapMessageOptionIterator option" where
  "GG_CoapMessage_StepOptionIterator self it =
     (if iter_filter it = 0 then GG_CoapMessage_StepOptionIterator1 (message_data self) it
      else step_filtered (message_data self) it)"

definition GG_CoapMessage_InitOptionIterator :: "GG_CoapMessage \<Rightarrow> u32 \<Rightarrow> GG_CoapMessageOptionIterator option" where
  "GG_CoapMessage_InitOptionIterator self filt =
     GG_CoapMessage_StepOptionIterator self
       \<lparr>iter_number = 0, iter_value = GG_COAP_MESSAGE_OPTION_TYPE_EMPTY, iter_filter = filt,
        iter_location = 4 + unat (message_data self ! 0 AND 0xF), iter_end = payload_offset self\<rparr>"

partial_function (option) get_option_loop ::
  "GG_CoapMessage \<Rightarrow> GG_CoapMessageOptionIterator \<Rightarrow> nat \<Rightarrow> (GG_Result + GG_CoapMessageOption) option" where
  "get_option_loop self it index =
     (if iter_number it = GG_COAP_MESSAGE_OPTION_NONE then Some (Inl GG_ERROR_NO_SUCH_ITEM)
      else if index = 0 then Some (Inr \<lparr>option_number = iter_number it, option_value = iter_value it\<rparr>)
      else do {
        it \<leftarrow> GG_CoapMessage_StepOptionIterator self it;
        get_option_loop self it (index - 1)
      })"

definition GG_CoapMessage_GetOption ::
  "GG_CoapMessage \<Rightarrow> u32 \<Rightarrow> nat \<Rightarrow> (GG_Result + GG_CoapMessageOption) option" where
  "GG_CoapMessage_GetOption self number index = do {
     it \<leftarrow> GG_CoapMessage_InitOptionIterator self number;
     get_option_loop self it index
   }"

declare step_filtered.simps [code] get_option_loop.simps [code]

end
