(* ===== verification/Coap_Util.thy ===== *)
theory Coap_Util
  imports Coap_Message Codecs
begin

text \<open>
  The helpers of \<^verbatim>\<open>xp/coap/gg_coap.c\<close>: splitting a path or a query into options, copying options, and the
  protobuf encoding of extended errors. A null-terminated string is the list of its characters without the
  terminator; a string with an explicit size is the memory its pointer points to and the size, where size 0
  stands for a null-terminated string. Allocation does not fail.
\<close>

section \<open>Paths and queries\<close>

text \<open>
  The loop over the components. \<open>cap\<close> is the number of options there is room for, or \<open>None\<close> when no array was
  passed and the components are only counted.
\<close>

function split_loop :: "u8 \<Rightarrow> nat option \<Rightarrow> bytes \<Rightarrow> GG_Result + bytes list" where
  "split_loop delimiter cap cursor =
     (if cursor = [] then Inr []
      else if cap = Some 0 then Inl GG_ERROR_NOT_ENOUGH_SPACE
      else
        let component = takeWhile (\<lambda>c. c \<noteq> delimiter) cursor;
            rest = dropWhile (\<lambda>c. c \<noteq> delimiter) cursor
        in if component = [] then Inl GG_ERROR_INVALID_SYNTAX
           else map_sum id ((#) component) (split_loop delimiter (map_option (\<lambda>n. n - 1) cap) (drop 1 rest)))"
  by pat_completeness auto
termination
proof (relation "measure (\<lambda>(d, cap, cursor). length cursor)", goal_cases)
  case (2 delimiter cap cursor component rest)
  have "length rest \<le> length cursor" using 2(4) by (simp add: length_dropWhile_le)
  moreover have "length (drop 1 rest) < length cursor"
    using 2(1) calculation by (cases rest) auto
  ultimately show ?case by simp
qed simp

declare split_loop.simps [simp del]

definition GG_Coap_SplitPathOrQuery ::
  "bytes \<Rightarrow> u8 \<Rightarrow> nat option \<Rightarrow> u32 \<Rightarrow> GG_Result + GG_CoapMessageOption list" where
  "GG_Coap_SplitPathOrQuery path_or_query delimiter cap number =
     map_sum id (map (\<lambda>component. \<lparr>option_number = number,
         option_value = GG_COAP_MESSAGE_OPTION_TYPE_STRING component (length component)\<rparr>))
       (split_loop delimiter cap (dropWhile (\<lambda>c. c = delimiter) path_or_query))"

section \<open>Copies of options\<close>

definition GG_COAP_MESSAGE_MAX_OPTION_COUNT :: nat where
  "GG_COAP_MESSAGE_MAX_OPTION_COUNT = 1024"

definition GG_COAP_MESSAGE_MAX_OPTION_SIZE :: nat where
  "GG_COAP_MESSAGE_MAX_OPTION_SIZE = 269 + 65536"

definition clone_size :: "GG_CoapMessageOption \<Rightarrow> nat" where
  "clone_size opt = (case option_value opt of
       GG_COAP_MESSAGE_OPTION_TYPE_STRING chars n \<Rightarrow> if n \<noteq> 0 then n else strlen chars
     | GG_COAP_MESSAGE_OPTION_TYPE_OPAQUE bs \<Rightarrow> length bs
     | _ \<Rightarrow> 0)"

definition clone_option :: "GG_CoapMessageOption \<Rightarrow> GG_CoapMessageOption" where
  "clone_option opt = (case option_value opt of
       GG_COAP_MESSAGE_OPTION_TYPE_STRING chars n \<Rightarrow>
         opt\<lparr>option_value := GG_COAP_MESSAGE_OPTION_TYPE_STRING (take (clone_size opt) chars) (clone_size opt)\<rparr>
     | _ \<Rightarrow> opt)"

definition GG_Coap_CloneOptions :: "GG_CoapMessageOption list \<Rightarrow> GG_CoapMessageOption list option" where
  "GG_Coap_CloneOptions options =
     (if length options > GG_COAP_MESSAGE_MAX_OPTION_COUNT then None
      else if \<exists>opt \<in> set options. clone_size opt > GG_COAP_MESSAGE_MAX_OPTION_SIZE then None
      else Some (map clone_option options))"

section \<open>Extended errors\<close>

record GG_CoapExtendedError =
  name_space :: "(bytes \<times> nat) option"
  error_code :: u32
  error_message :: "(bytes \<times> nat) option"

definition string_size :: "bytes \<times> nat \<Rightarrow> nat" where
  "string_size s = (if snd s \<noteq> 0 then snd s else strlen (fst s))"

definition GG_PROTOBUF_FIELD_KEY :: "u8 \<Rightarrow> u8 \<Rightarrow> u8" where
  "GG_PROTOBUF_FIELD_KEY field_number wire_type = push_bit 3 field_number OR wire_type"

definition string_field_size :: "(bytes \<times> nat) option \<Rightarrow> nat" where
  "string_field_size s = (case s of None \<Rightarrow> 0
     | Some s \<Rightarrow> 1 + GG_ProtobufVarintSize (of_nat (string_size s)) + string_size s)"

definition GG_CoapExtendedError_GetEncodedSize :: "GG_CoapExtendedError \<Rightarrow> nat" where
  "GG_CoapExtendedError_GetEncodedSize self =
     1 + GG_ProtobufVarintSize (GG_ProtobufSignedToZigZag (scast (error_code self))) +
     string_field_size (name_space self) + string_field_size (error_message self)"

definition string_field :: "u8 \<Rightarrow> (bytes \<times> nat) option \<Rightarrow> bytes" where
  "string_field n s = (case s of None \<Rightarrow> []
     | Some s \<Rightarrow> GG_PROTOBUF_FIELD_KEY n 2 # GG_EncodeProtobufVarint (of_nat (string_size s)) @ take (string_size s) (fst s))"

definition GG_CoapExtendedError_Encode :: "GG_CoapExtendedError \<Rightarrow> bytes" where
  "GG_CoapExtendedError_Encode self =
     string_field 1 (name_space self) @
     GG_PROTOBUF_FIELD_KEY 2 0 # GG_EncodeProtobufVarint (GG_ProtobufSignedToZigZag (scast (error_code self))) @
     string_field 3 (error_message self)"

text \<open>The size of a field that is skipped; the sum with the length wraps as \<^verbatim>\<open>size_t\<close> does.\<close>

definition skipped_size :: "u8 \<Rightarrow> bytes \<Rightarrow> nat option" where
  "skipped_size wire_type payload =
     (if wire_type = 0
      then (let n = fst (GG_DecodeProtobufVarint payload) in if n = 0 then None else Some n)
      else if wire_type = 2
      then (case GG_DecodeProtobufVarint payload of (n, len) \<Rightarrow>
              if n = 0 then None else Some ((n + unat len) mod 2 ^ 64))
      else if wire_type = 5 then Some 4
      else if wire_type = 1 then Some 8
      else None)"

text \<open>One field after its key: the rest of the payload and the updated error.\<close>

definition decode_field ::
  "u8 \<Rightarrow> u8 \<Rightarrow> bytes \<Rightarrow> GG_CoapExtendedError \<Rightarrow> (GG_Result + bytes \<times> GG_CoapExtendedError) option" where
  "decode_field field_number wire_type payload self =
     (if field_number = 1 \<or> field_number = 3 then
        if wire_type \<noteq> 2 then Some (Inl GG_ERROR_INVALID_SYNTAX)
        else (case GG_DecodeProtobufVarint payload of (bytes_consumed, string_sz) \<Rightarrow>
          if bytes_consumed = 0 then Some (Inl GG_ERROR_INVALID_FORMAT)
          else if bytes_consumed > length payload then None
          else
            let payload = drop bytes_consumed payload; n = unat string_sz
            in if length payload < n then Some (Inl GG_ERROR_INVALID_FORMAT)
               else Some (Inr (drop n payload,
                 if field_number = 1 then self\<lparr>name_space := Some (take n payload, n)\<rparr>
                 else self\<lparr>error_message := Some (take n payload, n)\<rparr>)))
      else if field_number = 2 then
        if wire_type \<noteq> 0 then Some (Inl GG_ERROR_INVALID_SYNTAX)
        else (case GG_DecodeProtobufVarint payload of (bytes_consumed, zigzag_value) \<Rightarrow>
          if bytes_consumed = 0 then Some (Inl GG_ERROR_INVALID_FORMAT)
          else if bytes_consumed > length payload then None
          else Some (Inr (drop bytes_consumed payload,
            self\<lparr>error_code := ucast (GG_ProtobufSignedFromZigZag zigzag_value)\<rparr>)))
      else (case skipped_size wire_type payload of
              None \<Rightarrow> Some (Inl GG_ERROR_INVALID_FORMAT)
            | Some n \<Rightarrow>
                if n > length payload then Some (Inl GG_ERROR_INVALID_FORMAT)
                else Some (Inr (drop n payload, self))))"

lemma decode_field_length:
  "decode_field field_number wire_type payload self = Some (Inr (rest, self')) \<Longrightarrow> length rest \<le> length payload"
  by (auto simp: decode_field_def Let_def split: if_splits prod.splits option.splits)

function decode_fields :: "bytes \<Rightarrow> GG_CoapExtendedError \<Rightarrow> (GG_Result + GG_CoapExtendedError) option" where
  "decode_fields payload self =
     (if length payload < 2
      then Some (if payload = [] then Inr self else Inl GG_ERROR_INVALID_FORMAT)
      else case decode_field (drop_bit 3 (hd payload)) (hd payload AND 7) (tl payload) self of
        None \<Rightarrow> None
      | Some (Inl e) \<Rightarrow> Some (Inl e)
      | Some (Inr (rest, self')) \<Rightarrow> decode_fields rest self')"
  by pat_completeness auto
termination
  by (relation "measure (length \<circ> fst)") (auto dest!: decode_field_length simp: neq_Nil_conv)

declare decode_fields.simps [simp del]

definition GG_CoapExtendedError_Decode :: "bytes \<Rightarrow> (GG_Result + GG_CoapExtendedError) option" where
  "GG_CoapExtendedError_Decode payload = decode_fields payload \<lparr>name_space = None, error_code = 0, error_message = None\<rparr>"

end
