(* ===== verification/Coap_Util_Props.thy ===== *)
theory Coap_Util_Props
  imports Coap_Util
begin

text \<open>
  Correctness of the CoAP helpers: a path is split into exactly its components, and extended errors survive
  encoding and decoding, while decoding never leaves the payload.
\<close>

section \<open>Paths\<close>

fun join :: "'a \<Rightarrow> 'a list list \<Rightarrow> 'a list" where
  "join d [] = []"
| "join d [c] = c"
| "join d (c # cs) = c @ d # join d cs"

definition component :: "u8 \<Rightarrow> bytes \<Rightarrow> bool" where
  "component d c \<longleftrightarrow> c \<noteq> [] \<and> d \<notin> set c"

text \<open>What a list of components looks like as text: at most one delimiter may follow the last one.\<close>

definition written :: "u8 \<Rightarrow> bytes list \<Rightarrow> bytes \<Rightarrow> bool" where
  "written d comps cs \<longleftrightarrow> list_all (component d) comps \<and> (cs = join d comps \<or> comps \<noteq> [] \<and> cs = join d comps @ [d])"

lemma takeWhile_component: "component d c \<Longrightarrow> takeWhile (\<lambda>x. x \<noteq> d) (c @ d # xs) = c \<and> dropWhile (\<lambda>x. x \<noteq> d) (c @ d # xs) = d # xs"
  by (auto simp: component_def takeWhile_append2 dropWhile_append)

lemma takeWhile_last: "component d c \<Longrightarrow> takeWhile (\<lambda>x. x \<noteq> d) c = c \<and> dropWhile (\<lambda>x. x \<noteq> d) c = []"
  by (auto simp: component_def)

lemma split_written: "written d comps cs \<Longrightarrow> split_loop d None cs = Inr comps"
proof (induction comps arbitrary: cs)
  case Nil
  then show ?case by (simp add: written_def split_loop.simps)
next
  case (Cons c comps)
  have c: "component d c" "c \<noteq> []" using Cons.prems by (auto simp: written_def component_def)
  show ?case
  proof (cases "cs = c")
    case True
    then have "comps = []" using Cons.prems by (cases comps) (auto simp: written_def)
    then show ?thesis using True c takeWhile_last [OF c(1)] 
      by (subst split_loop.simps) (simp add: Let_def split_loop.simps [of d None "[]"]
          del: takeWhile_eq_all_conv dropWhile_eq_Nil_conv)
  next
    case False
    then obtain rest where r: "cs = c @ d # rest" "written d comps rest"
      using Cons.prems by (cases comps) (auto simp: written_def)
    from Cons.IH [OF r(2)] show ?thesis
      using r(1) c takeWhile_component [OF c(1), of rest] by (subst split_loop.simps) simp
  qed
qed

lemma map_sum_Inr: "map_sum f g x = Inr y \<longleftrightarrow> (\<exists>z. x = Inr z \<and> y = g z)"
  by (cases x) auto

lemma written_split: "split_loop d None cs = Inr comps \<Longrightarrow> written d comps cs"
proof (induction cs arbitrary: comps rule: length_induct)
  case (1 cs)
  show ?case
  proof (cases "cs = []")
    case True
    with 1(2) show ?thesis by (simp add: split_loop.simps written_def)
  next
    case False
    let ?c = "takeWhile (\<lambda>x. x \<noteq> d) cs" and ?r = "dropWhile (\<lambda>x. x \<noteq> d) cs"
    from 1(2) False obtain cs' where cs': "?c \<noteq> []" "comps = ?c # cs'" "split_loop d None (drop 1 ?r) = Inr cs'"
      by (subst (asm) split_loop.simps) (auto simp: map_sum_Inr Let_def split: if_splits)
    have cat: "cs = ?c @ ?r" by simp
    have "length (drop 1 ?r) < length cs"
      using cs'(1) arg_cong [OF cat, of length] by (simp only: length_append length_drop) (cases ?c; simp)
    with 1(1) cs'(3) have w: "written d cs' (drop 1 ?r)" by blast
    have c: "component d ?c" using cs'(1) by (auto simp: component_def dest: set_takeWhileD)
    show ?thesis
    proof (cases ?r)
      case Nil
      then have "cs' = []" using w by (cases cs'; cases "tl cs'") (auto simp: written_def component_def)
      then show ?thesis using c cs'(2) cat Nil by (auto simp: written_def)
    next
      case (Cons x rest)
      then have "x = d" using hd_dropWhile [of "\<lambda>x. x \<noteq> d" cs] by (metis list.distinct(1) list.sel(1))
      then have "cs = ?c @ d # rest" using cat Cons by simp
      then show ?thesis using c cs'(2) w Cons by (cases cs') (auto simp: written_def)
    qed
  qed
qed

section \<open>Extended errors\<close>

lemma DecodeProtobufVarint_le: "fst (GG_DecodeProtobufVarint p) \<le> length p"
proof -
  have "fst (snd (varint_loop p x sz v)) \<le> length p" if "sz \<le> length p" for x sz v
    using that
  proof (induction p x sz v rule: varint_loop.induct)
    case (1 p x sz v)
    then show ?case by (subst varint_loop.simps) (auto simp: Let_def)
  qed
  from this [of 0 "0x80" 0] show ?thesis by (auto simp: GG_DecodeProtobufVarint_def split: prod.splits if_splits)
qed


lemma decode_field_total: "decode_field field_number wire_type payload self \<noteq> None"
  using DecodeProtobufVarint_le [of payload]
  by (auto simp: decode_field_def Let_def split: if_splits prod.splits option.splits)

lemma decode_fields_total: "\<exists>r. decode_fields payload self = Some r"
proof (induction payload self rule: decode_fields.induct)
  case (1 payload self)
  show ?case
    using 1 decode_field_total [of "drop_bit 3 (hd payload)" "hd payload AND 7" "tl payload" self]
    by (subst decode_fields.simps) (auto split: option.splits sum.splits)
qed

text \<open>The strings an error refers to, and errors whose strings lie in a payload.\<close>

definition strings_in :: "bytes \<Rightarrow> GG_CoapExtendedError \<Rightarrow> bool" where
  "strings_in payload self \<longleftrightarrow> (\<forall>chars n. name_space self = Some (chars, n) \<or> error_message self = Some (chars, n) \<longrightarrow>
     length chars = n \<and> (\<exists>pre post. payload = pre @ chars @ post))"

lemma decode_field_strings:
  assumes "decode_field field_number wire_type rest self = Some (Inr (rest', self'))" and "strings_in payload self"
    and "payload = pre @ rest"
  shows "strings_in payload self' \<and> (\<exists>pre'. payload = pre' @ rest')"
proof -
  have cut: "\<exists>pre' post. payload = pre' @ take n (drop k rest) @ post" for n k
    using assms(3) by (metis append.assoc append_take_drop_id)
  have rest: "\<exists>pre'. payload = pre' @ drop n (drop k rest)" for n k
    using assms(3) by (metis append.assoc append_take_drop_id)
  from assms(1,2) show ?thesis
    using cut rest rest [of 0]
    by (auto simp: decode_field_def strings_in_def Let_def split: if_splits prod.splits option.splits)
qed

lemma decode_fields_strings:
  assumes "decode_fields rest self = Some (Inr self')" and "strings_in payload self" and "payload = pre @ rest"
  shows "strings_in payload self'"
  using assms
proof (induction rest self arbitrary: pre rule: decode_fields.induct)
  case (1 rest self)
  show ?case
  proof (cases "length rest < 2")
    case True
    with 1(2,3) show ?thesis by (subst (asm) decode_fields.simps) (auto split: if_splits)
  next
    case False
    with 1(2) obtain rest' self1 where f: "decode_field (drop_bit 3 (hd rest)) (hd rest AND 7) (tl rest) self = Some (Inr (rest', self1))"
      "decode_fields rest' self1 = Some (Inr self')"
      by (subst (asm) decode_fields.simps) (auto split: option.splits sum.splits)
    have "payload = (pre @ [hd rest]) @ tl rest" using 1(4) False by (cases rest) auto
    from decode_field_strings [OF f(1) 1(3) this] obtain pre' where "strings_in payload self1" "payload = pre' @ rest'" by blast
    with 1(1) [OF False f(1) refl refl f(2)] show ?thesis by blast
  qed
qed


text \<open>Strings with their size made explicit, and errors that can be encoded.\<close>

definition plain_string :: "bytes \<times> nat \<Rightarrow> bytes \<times> nat" where
  "plain_string s = (take (string_size s) (fst s), string_size s)"

definition string_ok :: "(bytes \<times> nat) option \<Rightarrow> bool" where
  "string_ok s = (case s of None \<Rightarrow> True | Some s \<Rightarrow> string_size s \<le> length (fst s) \<and> length (fst s) < 2 ^ 64)"

lemma string_field_decode:
  assumes "string_ok (Some s)" and "n = 1 \<or> n = 3"
  shows "\<exists>rest'. string_field n (Some s) = GG_PROTOBUF_FIELD_KEY n 2 # rest' \<and> rest' \<noteq> [] \<and>
    decode_field n 2 (rest' @ rest) self =
      Some (Inr (rest, if n = 1 then self\<lparr>name_space := Some (plain_string s)\<rparr> else self\<lparr>error_message := Some (plain_string s)\<rparr>))"
proof -
  let ?k = "string_size s" and ?e = "GG_EncodeProtobufVarint (of_nat (string_size s))"
  have k: "unat (of_nat ?k :: u64) = ?k" "length (take ?k (fst s)) = ?k"
    using assms(1) by (auto simp: string_ok_def unsigned_of_nat take_bit_nat_eq_self)
  have e: "?e \<noteq> []" using Encode_length_pos [of "of_nat ?k"] by auto
  have "decode_field n 2 (?e @ take ?k (fst s) @ rest) self =
      Some (Inr (rest, if n = 1 then self\<lparr>name_space := Some (plain_string s)\<rparr> else self\<lparr>error_message := Some (plain_string s)\<rparr>))"
    using assms(2) k e by (auto simp: decode_field_def GG_DecodeProtobufVarint_Encode plain_string_def Let_def)
  then show ?thesis using e by (auto simp: string_field_def)
qed

lemma field_keys:
  "drop_bit 3 (GG_PROTOBUF_FIELD_KEY 1 2) = 1" "GG_PROTOBUF_FIELD_KEY 1 2 AND 7 = 2"
  "drop_bit 3 (GG_PROTOBUF_FIELD_KEY 3 2) = 3" "GG_PROTOBUF_FIELD_KEY 3 2 AND 7 = 2"
  "drop_bit 3 (GG_PROTOBUF_FIELD_KEY 2 0) = 2" "GG_PROTOBUF_FIELD_KEY 2 0 AND 7 = 0"
  by code_simp+

lemma decode_string_field:
  assumes "string_ok s" and "n = 1 \<or> n = 3"
  shows "decode_fields (string_field n s @ rest) self = decode_fields rest (case s of None \<Rightarrow> self
    | Some s \<Rightarrow> if n = 1 then self\<lparr>name_space := Some (plain_string s)\<rparr> else self\<lparr>error_message := Some (plain_string s)\<rparr>)"
proof (cases s)
  case None
  then show ?thesis by (simp add: string_field_def)
next
  case (Some t)
  from string_field_decode [of t n rest self] assms Some obtain r where
    r: "string_field n s = GG_PROTOBUF_FIELD_KEY n 2 # r" "r \<noteq> []" "decode_field n 2 (r @ rest) self =
      Some (Inr (rest, if n = 1 then self\<lparr>name_space := Some (plain_string t)\<rparr> else self\<lparr>error_message := Some (plain_string t)\<rparr>))"
    by auto
  have "drop_bit 3 (GG_PROTOBUF_FIELD_KEY n 2) = n" "GG_PROTOBUF_FIELD_KEY n 2 AND 7 = 2"
    using assms(2) by (auto simp: field_keys)
  with r Some show ?thesis by (subst decode_fields.simps) (cases r; simp)
qed

lemma ucast_scast_u32: "ucast (scast (w :: u32) :: u64) = w"
  by (rule bit_word_eqI) (auto simp: bit_ucast_iff bit_signed_iff)

lemma decode_code_field:
  "decode_fields (GG_PROTOBUF_FIELD_KEY 2 0 # GG_EncodeProtobufVarint (GG_ProtobufSignedToZigZag (scast c)) @ rest) self =
    decode_fields rest (self\<lparr>error_code := c\<rparr>)"
proof -
  let ?e = "GG_EncodeProtobufVarint (GG_ProtobufSignedToZigZag (scast c))"
  have e: "?e \<noteq> []" using Encode_length_pos [of "GG_ProtobufSignedToZigZag (scast c)"] by auto
  have "decode_field 2 0 (?e @ rest) self = Some (Inr (rest, self\<lparr>error_code := c\<rparr>))"
    using e zigzag_bijection [of "scast c"] by (simp add: decode_field_def GG_DecodeProtobufVarint_Encode ucast_scast_u32)
  with e show ?thesis by (subst decode_fields.simps) (cases ?e; simp add: field_keys)
qed

lemma length_EncodeProtobufVarint: "length (GG_EncodeProtobufVarint v) = GG_ProtobufVarintSize v"
  using varint_size_loop_eq [of v 1] by (simp add: GG_ProtobufVarintSize_def)

lemma length_string_field: "string_ok s \<Longrightarrow> length (string_field n s) = string_field_size s"
  by (auto simp: string_field_def string_field_size_def string_ok_def length_EncodeProtobufVarint split: option.splits)

lemma Decode_Encode:
  assumes "string_ok (name_space self)" and "string_ok (error_message self)"
  shows "GG_CoapExtendedError_Decode (GG_CoapExtendedError_Encode self) =
    Some (Inr \<lparr>name_space = map_option plain_string (name_space self), error_code = error_code self,
               error_message = map_option plain_string (error_message self)\<rparr>)"
proof -
  have "decode_fields (string_field 3 (error_message self)) e = Some (Inr (case error_message self of
      None \<Rightarrow> e | Some s \<Rightarrow> e\<lparr>error_message := Some (plain_string s)\<rparr>))" for e
    using decode_string_field [OF assms(2), of 3 "[]" e] by (auto simp: decode_fields.simps split: option.splits)
  then show ?thesis
    using assms(1) by (auto simp: GG_CoapExtendedError_Decode_def GG_CoapExtendedError_Encode_def decode_string_field
        decode_code_field split: option.splits)
qed

section \<open>The contract\<close>

text \<open>
  An extended error with any code and with or without a name space and a message is encoded in exactly the
  number of bytes announced for it and decoded to the same error, with the sizes of its strings explicit.
\<close>

lemma coap_extended_error_round_trip:
  assumes "string_ok (name_space self)" and "string_ok (error_message self)"
  shows "length (GG_CoapExtendedError_Encode self) = GG_CoapExtendedError_GetEncodedSize self \<and>
    GG_CoapExtendedError_Decode (GG_CoapExtendedError_Encode self) =
      Some (Inr \<lparr>name_space = map_option plain_string (name_space self), error_code = error_code self,
                 error_message = map_option plain_string (error_message self)\<rparr>)"
  using assms Decode_Encode [OF assms]
  by (simp add: GG_CoapExtendedError_Encode_def GG_CoapExtendedError_GetEncodedSize_def length_string_field
      length_EncodeProtobufVarint)

lemma coap_extended_error_round_trip_example:
  "GG_CoapExtendedError_Decode (GG_CoapExtendedError_Encode
      \<lparr>name_space = Some ([0x66, 0x6F, 0x6F, 0], 0), error_code = - 5, error_message = None\<rparr>) =
    Some (Inr \<lparr>name_space = Some ([0x66, 0x6F, 0x6F], 3), error_code = - 5, error_message = None\<rparr>)"
  using coap_extended_error_round_trip [of "\<lparr>name_space = Some ([0x66, 0x6F, 0x6F, 0], 0), error_code = - 5, error_message = None\<rparr>"]
  by (simp add: string_ok_def plain_string_def string_size_def strlen_def)

text \<open>
  Decoding an extended error returns on every payload, without failing an assertion, and an error it
  accepts refers only to strings that lie inside the payload.
\<close>

lemma coap_extended_error_decode_safe:
  "\<exists>r. GG_CoapExtendedError_Decode payload = Some r \<and> (case r of Inl _ \<Rightarrow> True | Inr self \<Rightarrow> strings_in payload self)"
proof -
  let ?e = "\<lparr>name_space = None, error_code = 0, error_message = None\<rparr>"
  have "strings_in payload ?e" by (simp add: strings_in_def)
  with decode_fields_total [of payload ?e] decode_fields_strings [of payload ?e _ payload "[]"]
  show ?thesis by (auto simp: GG_CoapExtendedError_Decode_def split: sum.splits)
qed

text \<open>
  A path or query is split into exactly its components: the components are not empty, contain no delimiter and,
  separated by single delimiters, are the text, apart from any number of delimiters before the first component and at
  most one after the last.
\<close>

lemma coap_split_path:
  "GG_Coap_SplitPathOrQuery path delimiter None number = Inr (map (\<lambda>c. \<lparr>option_number = number,
      option_value = GG_COAP_MESSAGE_OPTION_TYPE_STRING c (length c)\<rparr>) components) \<longleftrightarrow>
    written delimiter components (dropWhile (\<lambda>c. c = delimiter) path)"
proof -
  have inj: "inj (\<lambda>c :: bytes. \<lparr>option_number = number, option_value = GG_COAP_MESSAGE_OPTION_TYPE_STRING c (length c)\<rparr>)"
    by (rule injI) simp
  let ?p = "dropWhile (\<lambda>c. c = delimiter) path"
  have "written delimiter components ?p \<longleftrightarrow> split_loop delimiter None ?p = Inr components"
    using split_written written_split by blast
  then show ?thesis
    by (cases "split_loop delimiter None ?p")
      (auto simp: GG_Coap_SplitPathOrQuery_def dest: map_injective [OF _ inj])
qed

section \<open>What the code accepts\<close>

text \<open>
  An unknown field with a length close to the largest integer is skipped by a few bytes only, since the size of
  the field wraps around.
\<close>

lemma skipped_field_wraps:
  "skipped_size 2 ([0xFB, 0xFF, 0xFF, 0xFF, 0xFF, 0xFF, 0xFF, 0xFF, 0xFF, 1] @ rest) = Some 5"
proof -
  have "[0xFB, 0xFF, 0xFF, 0xFF, 0xFF, 0xFF, 0xFF, 0xFF, 0xFF, 1] = GG_EncodeProtobufVarint 0xFFFFFFFFFFFFFFFB" by code_simp
  note e = this
  have "length (GG_EncodeProtobufVarint 0xFFFFFFFFFFFFFFFB) = 10" unfolding e [symmetric] by simp
  then show ?thesis unfolding e by (simp add: skipped_size_def GG_DecodeProtobufVarint_Encode)
qed

text \<open>
  A decoded string that is empty has a pointer and size 0, which the interface defines as a null-terminated
  string; encoding it again would read the bytes after it.
\<close>

lemma empty_string_decoded:
  "GG_CoapExtendedError_Decode (GG_CoapExtendedError_Encode \<lparr>name_space = Some ([0], 0), error_code = c, error_message = None\<rparr>) =
    Some (Inr \<lparr>name_space = Some ([], 0), error_code = c, error_message = None\<rparr>)"
  using Decode_Encode [of "\<lparr>name_space = Some ([0], 0), error_code = c, error_message = None\<rparr>"]
  by (simp add: string_ok_def plain_string_def string_size_def strlen_def)

end
