(* ===== verification/Coap_Blockwise.thy ===== *)
theory Coap_Blockwise
  imports Coap_Message
begin

text \<open>
  Blockwise transfers (\<^verbatim>\<open>xp/coap/gg_coap_blockwise.c\<close>): the encoding of the block options, the
  responses that carry one block, the server helper that checks the sequence of the blocks of a transfer, and
  the request context of a client, which sends one request per block and reports the blocks of the response.

  The flags of a request context are booleans. A context is destroyed when an operation yields no context.
  The endpoint and the listener of the user are the functions of a record: \<open>SendRequest\<close> is
  \<^verbatim>\<open>GG_CoapEndpoint_SendRequestFromBufferSource\<close> and does not call back before it returns; what a listener
  does to its own request from inside a callback is its reaction. An operation yields \<open>None\<close> where the C code
  fails an assertion or uses an uninitialized variable.
\<close>

section \<open>Codes and options\<close>

definition GG_COAP_MESSAGE_CODE :: "nat \<Rightarrow> nat" where
  "GG_COAP_MESSAGE_CODE x = push_bit 5 (x div 100) OR (x mod 100)"

definition GG_COAP_MESSAGE_OPTION_BLOCK1 :: u32 where
  [simp]: "GG_COAP_MESSAGE_OPTION_BLOCK1 = 27"

definition GG_COAP_MESSAGE_OPTION_BLOCK2 :: u32 where
  [simp]: "GG_COAP_MESSAGE_OPTION_BLOCK2 = 23"

definition GG_COAP_MESSAGE_OPTION_IF_MATCH :: u32 where
  [simp]: "GG_COAP_MESSAGE_OPTION_IF_MATCH = 1"

definition GG_COAP_MESSAGE_OPTION_ETAG :: u32 where
  [simp]: "GG_COAP_MESSAGE_OPTION_ETAG = 4"

definition GG_COAP_MESSAGE_MAX_ETAG_OPTION_SIZE :: nat where
  [simp]: "GG_COAP_MESSAGE_MAX_ETAG_OPTION_SIZE = 8"

definition GG_COAP_BLOCKWISE_DEFAULT_BLOCK_SIZE :: nat where
  [simp]: "GG_COAP_BLOCKWISE_DEFAULT_BLOCK_SIZE = 1024"

definition GG_COAP_METHOD_GET :: u8 where [simp]: "GG_COAP_METHOD_GET = 1"
definition GG_COAP_METHOD_POST :: u8 where [simp]: "GG_COAP_METHOD_POST = 2"
definition GG_COAP_METHOD_PUT :: u8 where [simp]: "GG_COAP_METHOD_PUT = 3"
definition GG_COAP_METHOD_DELETE :: u8 where [simp]: "GG_COAP_METHOD_DELETE = 4"

text \<open>The bytes of an opaque option; other types have none.\<close>

definition opaque_bytes :: "GG_CoapMessageOption \<Rightarrow> bytes" where
  "opaque_bytes opt = (case option_value opt of GG_COAP_MESSAGE_OPTION_TYPE_OPAQUE bs \<Rightarrow> bs | _ \<Rightarrow> [])"

definition uint_param :: "u32 \<Rightarrow> u32 \<Rightarrow> GG_CoapMessageOption" where
  "uint_param n v = \<lparr>option_number = n, option_value = GG_COAP_MESSAGE_OPTION_TYPE_UINT v\<rparr>"

definition opaque_param :: "u32 \<Rightarrow> bytes \<Rightarrow> GG_CoapMessageOption" where
  "opaque_param n bs = \<lparr>option_number = n, option_value = GG_COAP_MESSAGE_OPTION_TYPE_OPAQUE bs\<rparr>"

section \<open>Block descriptions\<close>

record GG_CoapMessageBlockInfo =
  block_offset :: nat
  block_size :: nat
  block_more :: bool

definition GG_CoapMessageBlockInfo_AdjustAndGetChunkSize ::
  "nat \<Rightarrow> nat \<Rightarrow> bool \<Rightarrow> nat \<Rightarrow> GG_Result \<times> nat \<times> bool" where
  "GG_CoapMessageBlockInfo_AdjustAndGetChunkSize offset sz more_flag payload_sz =
     (if offset \<ge> payload_sz then (GG_ERROR_OUT_OF_RANGE, sz, more_flag)
      else if offset + sz \<ge> payload_sz then (GG_SUCCESS, payload_sz - offset, False)
      else (GG_SUCCESS, sz, True))"

definition block_info_of_value :: "u32 \<Rightarrow> GG_Result + GG_CoapMessageBlockInfo" where
  "block_info_of_value v =
     (let block_size_log = unat (v AND 7);
          block_index = unat (drop_bit 4 v)
      in if block_size_log = 7 then Inl GG_ERROR_INVALID_FORMAT
         else Inr \<lparr>block_offset = 2 ^ (4 + block_size_log) * block_index, block_size = 2 ^ (4 + block_size_log),
                   block_more = (drop_bit 3 v AND 1 \<noteq> 0)\<rparr>)"

definition GG_CoapMessage_GetBlockInfo ::
  "GG_CoapMessage \<Rightarrow> u32 \<Rightarrow> nat \<Rightarrow> (GG_Result + GG_CoapMessageBlockInfo) option" where
  "GG_CoapMessage_GetBlockInfo self block_option_number default_block_size = do {
     GG_ASSERT (block_option_number = GG_COAP_MESSAGE_OPTION_BLOCK1 \<or> block_option_number = GG_COAP_MESSAGE_OPTION_BLOCK2);
     result \<leftarrow> GG_CoapMessage_GetOption self block_option_number 0;
     Some (case result of
         Inl e \<Rightarrow>
           if e = GG_ERROR_NO_SUCH_ITEM \<and> default_block_size \<noteq> 0
           then Inr \<lparr>block_offset = 0, block_size = default_block_size, block_more = False\<rparr> else Inl e
       | Inr opt \<Rightarrow>
           (case option_value opt of
              GG_COAP_MESSAGE_OPTION_TYPE_UINT v \<Rightarrow> block_info_of_value v
            | _ \<Rightarrow> Inl GG_ERROR_INVALID_FORMAT))
   }"

function size_log_loop :: "nat \<Rightarrow> nat \<Rightarrow> int \<Rightarrow> int" where
  "size_log_loop sz bs block_size_log =
     (if bs \<noteq> sz \<and> block_size_log \<ge> 0 then size_log_loop sz (bs div 2) (block_size_log - 1) else block_size_log)"
  by pat_completeness auto
termination
  by (relation "measure (\<lambda>(sz, bs, l). nat (l + 1))") auto

declare size_log_loop.simps [simp del]

definition GG_CoapMessageBlockInfo_ToOptionValue :: "GG_CoapMessageBlockInfo \<Rightarrow> GG_Result + u32" where
  "GG_CoapMessageBlockInfo_ToOptionValue info =
     (let block_size_log = size_log_loop (block_size info) 1024 6
      in if block_size_log < 0 then Inl GG_ERROR_INVALID_PARAMETERS
         else
           let block_index = (of_nat (block_offset info div block_size info) :: u32)
           in Inr (push_bit 4 block_index OR (if block_more info then 8 else 0) OR of_int block_size_log))"

section \<open>Responses\<close>

definition GG_CoapEndpoint_CreateResponse ::
  "(nat \<Rightarrow> u8) \<Rightarrow> GG_CoapMessage \<Rightarrow> u8 \<Rightarrow> GG_CoapMessageOption list \<Rightarrow> bytes option \<Rightarrow> nat \<Rightarrow>
   (GG_Result + GG_CoapMessage) option" where
  "GG_CoapEndpoint_CreateResponse junk request code options payload payload_len =
     GG_CoapMessage_Create junk code GG_COAP_MESSAGE_TYPE_ACK options (GG_CoapMessage_GetMessageId request)
       (GG_CoapMessage_GetToken request) payload payload_len"

definition GG_CoapEndpoint_CreateBlockwiseResponse ::
  "(nat \<Rightarrow> u8) \<Rightarrow> GG_CoapMessage \<Rightarrow> u8 \<Rightarrow> GG_CoapMessageOption list \<Rightarrow> bytes option \<Rightarrow> nat \<Rightarrow> u32 \<Rightarrow>
   GG_CoapMessageBlockInfo \<Rightarrow> (GG_Result + GG_CoapMessage) option" where
  "GG_CoapEndpoint_CreateBlockwiseResponse junk request code options payload payload_len block_option_number info =
     (case GG_CoapMessageBlockInfo_ToOptionValue info of
        Inl e \<Rightarrow> Some (Inl e)
      | Inr block_option_value \<Rightarrow>
          if payload_len > block_size info then Some (Inl GG_ERROR_INVALID_PARAMETERS)
          else GG_CoapEndpoint_CreateResponse junk request code
                 (uint_param block_option_number block_option_value # options) payload payload_len)"

text \<open>
  The payload of a message may be written after it was created (\<^verbatim>\<open>GG_CoapMessage_UsePayload\<close>).
  A source of blocks is asked for the size of the block at an offset and then for its bytes.
\<close>

definition GG_CoapMessage_UsePayload :: "bytes \<Rightarrow> GG_CoapMessage \<Rightarrow> GG_CoapMessage" where
  "GG_CoapMessage_UsePayload data self = self\<lparr>message_data := memcpy_at (message_data self) (payload_offset self) data\<rparr>"

record GG_CoapBlockSource =
  GetDataSize :: "nat \<Rightarrow> nat \<Rightarrow> bool \<Rightarrow> GG_Result \<times> nat \<times> bool"
  GetData :: "nat \<Rightarrow> nat \<Rightarrow> GG_Result \<times> bytes"

definition GG_CoapEndpoint_CreateBlockwiseResponseFromBlockSource ::
  "(nat \<Rightarrow> u8) \<Rightarrow> GG_CoapMessage \<Rightarrow> u8 \<Rightarrow> GG_CoapMessageOption list \<Rightarrow> GG_CoapBlockSource \<Rightarrow> u32 \<Rightarrow>
   GG_CoapMessageBlockInfo \<Rightarrow> (GG_Result + GG_CoapMessage) option" where
  "GG_CoapEndpoint_CreateBlockwiseResponseFromBlockSource junk request code options payload_src block_option_number info =
     (case GetDataSize payload_src (block_offset info) (block_size info) (block_more info) of (result, payload_len, more_flag) \<Rightarrow>
        if GG_FAILED result then Some (Inl result)
        else case GG_CoapMessageBlockInfo_ToOptionValue (info\<lparr>block_more := more_flag\<rparr>) of
          Inl e \<Rightarrow> Some (Inl e)
        | Inr block_option_value \<Rightarrow>
            (case GG_CoapEndpoint_CreateResponse junk request code
                    (uint_param block_option_number block_option_value # options) None payload_len of
               None \<Rightarrow> None
             | Some (Inl e) \<Rightarrow> Some (Inl e)
             | Some (Inr response) \<Rightarrow>
                 (case GetData payload_src (block_offset info) payload_len of (result, data) \<Rightarrow>
                    Some (if GG_FAILED result then Inl result else Inr (GG_CoapMessage_UsePayload data response)))))"

text \<open>
  A request is created with room for its payload, which is then copied from the source
  (\<^verbatim>\<open>GG_CoapEndpoint_SendRequestFromBufferSource\<close>).
\<close>

definition create_request ::
  "(nat \<Rightarrow> u8) \<Rightarrow> u8 \<Rightarrow> GG_CoapMessageOption list \<Rightarrow> u16 \<Rightarrow> bytes \<Rightarrow> bytes \<Rightarrow> (GG_Result + GG_CoapMessage) option" where
  "create_request junk method options message_id token payload =
     map_option (map_sum id (\<lambda>m. if payload \<noteq> [] then GG_CoapMessage_UsePayload payload m else m))
       (GG_CoapMessage_Create junk method GG_COAP_MESSAGE_TYPE_CON options message_id token None (length payload))"

section \<open>Sources of blocks in memory\<close>

text \<open>The source of the command line client (\<^verbatim>\<open>xp/apps/coap-client/gg_coap_client.c\<close>).\<close>

definition MemSource :: "bytes \<Rightarrow> GG_CoapBlockSource" where
  "MemSource data = \<lparr>
     GetDataSize = (\<lambda>offset sz more_flag. GG_CoapMessageBlockInfo_AdjustAndGetChunkSize offset sz more_flag (length data)),
     GetData = (\<lambda>offset sz. if offset + sz \<le> length data then (GG_SUCCESS, subarray data offset sz)
                            else (GG_ERROR_OUT_OF_RANGE, []))\<rparr>"

text \<open>What a transfer relies on: a source hands out the blocks of one resource.\<close>

locale coap_block_source =
  fixes src :: GG_CoapBlockSource and resource :: bytes
  assumes data_size: "offset < length resource \<Longrightarrow> GetDataSize src offset sz more_flag =
      (GG_SUCCESS, min sz (length resource - offset), offset + sz < length resource)"
    and data_bytes: "offset + sz \<le> length resource \<Longrightarrow> GetData src offset sz = (GG_SUCCESS, subarray resource offset sz)"

interpretation mem: coap_block_source "MemSource data" data for data
  by unfold_locales (auto simp: MemSource_def GG_CoapMessageBlockInfo_AdjustAndGetChunkSize_def)

section \<open>Servers\<close>

text \<open>
  The handler of \<^verbatim>\<open>xp/examples/coap/coap_blockwise_example.c\<close> that returns a resource block by block.
  The result is a response, or the result code of the handler.
\<close>

definition Handler3_OnRequest ::
  "(nat \<Rightarrow> u8) \<Rightarrow> GG_CoapBlockSource \<Rightarrow> GG_CoapMessage \<Rightarrow> (GG_Result + GG_CoapMessage) option" where
  "Handler3_OnRequest junk src request = do {
     result \<leftarrow> GG_CoapMessage_GetBlockInfo request GG_COAP_MESSAGE_OPTION_BLOCK2 1024;
     case result of
       Inl _ \<Rightarrow> Some (Inl (GG_COAP_RESULT (GG_COAP_MESSAGE_CODE 402)))
     | Inr info \<Rightarrow>
         GG_CoapEndpoint_CreateBlockwiseResponseFromBlockSource junk request (of_nat (GG_COAP_MESSAGE_CODE 205)) [] src
           GG_COAP_MESSAGE_OPTION_BLOCK2 info
   }"

section \<open>The server helper\<close>

record GG_CoapBlockwiseServerHelper =
  block_type :: u32
  next_offset :: nat
  transfer_done :: bool
  helper_block_size :: nat
  block_info :: GG_CoapMessageBlockInfo
  helper_etag :: bytes

definition zero_info :: GG_CoapMessageBlockInfo where
  "zero_info = \<lparr>block_offset = 0, block_size = 0, block_more = False\<rparr>"

definition GG_CoapBlockwiseServerHelper_Init :: "u32 \<Rightarrow> nat \<Rightarrow> GG_CoapBlockwiseServerHelper option" where
  "GG_CoapBlockwiseServerHelper_Init btype preferred = do {
     GG_ASSERT (btype = GG_COAP_MESSAGE_OPTION_BLOCK1 \<or> btype = GG_COAP_MESSAGE_OPTION_BLOCK2);
     Some \<lparr>block_type = btype, next_offset = 0, transfer_done = False,
           helper_block_size = (if preferred \<noteq> 0 then preferred else GG_COAP_BLOCKWISE_DEFAULT_BLOCK_SIZE),
           block_info = zero_info, helper_etag = []\<rparr>
   }"

definition GG_CoapBlockwiseServerHelper_SetEtag ::
  "bytes \<Rightarrow> GG_CoapBlockwiseServerHelper \<Rightarrow> GG_CoapBlockwiseServerHelper" where
  "GG_CoapBlockwiseServerHelper_SetEtag etag self =
     self\<lparr>helper_etag := take (min (length etag) GG_COAP_MESSAGE_MAX_ETAG_OPTION_SIZE) etag\<rparr>"

text \<open>The test of the If-Match option: the response code to refuse the request with, or success.\<close>

definition check_if_match :: "bytes \<Rightarrow> GG_Result + GG_CoapMessageOption \<Rightarrow> GG_Result" where
  "check_if_match etag if_match = (case if_match of
       Inl _ \<Rightarrow> GG_SUCCESS
     | Inr opt \<Rightarrow>
         if length (opaque_bytes opt) > GG_COAP_MESSAGE_MAX_ETAG_OPTION_SIZE
         then GG_COAP_RESULT (GG_COAP_MESSAGE_CODE 402)
         else if opaque_bytes opt \<noteq> etag then GG_COAP_RESULT (GG_COAP_MESSAGE_CODE 412)
         else GG_SUCCESS)"

text \<open>The two halves of the sequence check: the result, whether the request was resent, and the new state.\<close>

definition on_block1 :: "nat \<Rightarrow> GG_CoapBlockwiseServerHelper \<Rightarrow> GG_Result \<times> bool \<times> GG_CoapBlockwiseServerHelper" where
  "on_block1 request_payload_size self =
     (let info = block_info self;
          block_end_offset = block_offset info + request_payload_size;
          update = (\<lambda>self. if block_more info then self\<lparr>next_offset := block_end_offset\<rparr> else self\<lparr>transfer_done := True\<rparr>)
      in if block_offset info = next_offset self
         then if transfer_done self
              then if block_more info then (GG_COAP_RESULT (GG_COAP_MESSAGE_CODE 402), False, self)
                   else (GG_SUCCESS, True, self)
              else (GG_SUCCESS, False, update self)
         else if block_offset info \<noteq> 0
              then if block_end_offset \<noteq> next_offset self
                   then (GG_COAP_RESULT (GG_COAP_MESSAGE_CODE 408), False, self)
                   else (GG_SUCCESS, True, self)
              else (GG_SUCCESS, False, update (self\<lparr>transfer_done := False\<rparr>)))"

definition on_block2 :: "GG_CoapBlockwiseServerHelper \<Rightarrow> GG_Result \<times> bool \<times> GG_CoapBlockwiseServerHelper" where
  "on_block2 self =
     (let info = block_info self;
          block_end_offset = block_offset info + block_size info
      in if block_offset info \<noteq> next_offset self \<and> block_offset info \<noteq> 0 \<and> block_end_offset \<noteq> next_offset self
         then (GG_COAP_RESULT (GG_COAP_MESSAGE_CODE 412), False, self)
         else (GG_SUCCESS, block_offset info \<noteq> next_offset self \<and> block_offset info \<noteq> 0,
               self\<lparr>next_offset := block_end_offset\<rparr>))"

definition GG_CoapBlockwiseServerHelper_OnRequest ::
  "GG_CoapMessage \<Rightarrow> GG_CoapBlockwiseServerHelper \<Rightarrow> (GG_Result \<times> bool \<times> GG_CoapBlockwiseServerHelper) option" where
  "GG_CoapBlockwiseServerHelper_OnRequest request self = do {
     result \<leftarrow> GG_CoapMessage_GetBlockInfo request (block_type self) (helper_block_size self);
     case result of
       Inl _ \<Rightarrow> Some (GG_COAP_RESULT (GG_COAP_MESSAGE_CODE 402), False, self\<lparr>block_info := zero_info\<rparr>)
     | Inr info \<Rightarrow> do {
         let self = self\<lparr>block_info := info\<rparr>;
         if_match \<leftarrow> GG_CoapMessage_GetOption request GG_COAP_MESSAGE_OPTION_IF_MATCH 0;
         let result = check_if_match (helper_etag self) if_match;
         if result \<noteq> GG_SUCCESS then Some (result, False, self)
         else Some (if block_type self = GG_COAP_MESSAGE_OPTION_BLOCK1
                    then on_block1 (GG_CoapMessage_GetPayloadSize request) self else on_block2 self)
       }
   }"

definition GG_CoapBlockwiseServerHelper_CreateResponse ::
  "(nat \<Rightarrow> u8) \<Rightarrow> GG_CoapMessage \<Rightarrow> u8 \<Rightarrow> GG_CoapMessageOption list \<Rightarrow> bytes option \<Rightarrow> nat \<Rightarrow>
   GG_CoapBlockwiseServerHelper \<Rightarrow> (GG_Result + GG_CoapMessage) option" where
  "GG_CoapBlockwiseServerHelper_CreateResponse junk request code options payload payload_len self =
     GG_CoapEndpoint_CreateBlockwiseResponse junk request code
       ((if helper_etag self \<noteq> [] then [opaque_param GG_COAP_MESSAGE_OPTION_ETAG (helper_etag self)] else []) @ options)
       payload payload_len (block_type self) (block_info self)"

section \<open>A server that receives blocks\<close>

text \<open>
  The handler of \<^verbatim>\<open>xp/examples/coap/coap_blockwise_example.c\<close> that accepts an upload. Every first block
  starts a session with a new ETag, made of 4 random bytes and the number of the session. The second component of the
  result tells whether the block was new: the example prints it.
\<close>

record Handler1 =
  block1_helper :: GG_CoapBlockwiseServerHelper
  session_id :: u32

definition Handler1_Init :: "Handler1 option" where
  "Handler1_Init = map_option (\<lambda>helper. \<lparr>block1_helper = helper, session_id = 0\<rparr>)
     (GG_CoapBlockwiseServerHelper_Init GG_COAP_MESSAGE_OPTION_BLOCK1 0)"

definition Handler1_OnRequest ::
  "(nat \<Rightarrow> u8) \<Rightarrow> bytes \<Rightarrow> GG_CoapMessage \<Rightarrow> Handler1 \<Rightarrow> ((GG_Result + GG_CoapMessage) \<times> bool \<times> Handler1) option" where
  "Handler1_OnRequest junk random request self = do {
     (result, resent, helper) \<leftarrow> GG_CoapBlockwiseServerHelper_OnRequest request (block1_helper self);
     let self = self\<lparr>block1_helper := helper\<rparr>;
     if result \<noteq> GG_SUCCESS then Some (Inl result, False, self)
     else do {
       let self = (if block_offset (block_info helper) = 0
                   then self\<lparr>session_id := session_id self + 1,
                     block1_helper := GG_CoapBlockwiseServerHelper_SetEtag
                       (take 4 random @ GG_BytesFromInt32Be (session_id self + 1)) helper\<rparr>
                   else self);
       response \<leftarrow> GG_CoapBlockwiseServerHelper_CreateResponse junk request
         (of_nat (if block_more (block_info (block1_helper self)) then GG_COAP_MESSAGE_CODE 231 else GG_COAP_MESSAGE_CODE 204))
         [] None 0 (block1_helper self);
       Some (response, \<not> resent, self)
     }
   }"

end
