(* ===== verification/Coap_Blockwise_Client.thy ===== *)
theory Coap_Blockwise_Client
  imports Coap_Blockwise Coap_Util
begin

text \<open>
  The client side of blockwise transfers: the request context of \<^verbatim>\<open>xp/coap/gg_coap_blockwise.c\<close>,
  the callbacks by which the endpoint drives it, and the list of contexts of an endpoint.
\<close>

section \<open>State\<close>

record GG_CoapClientParameters =
  ack_timeout :: u32
  max_resend_count :: nat

record GG_CoapBlockwiseRequestContext =
  bw_handle :: nat
  bw_method :: u8
  bw_listener :: bool
  payload_source :: "GG_CoapBlockSource option"
  block1_active :: bool
  block2_active :: bool
  paused :: bool
  preferred_block_size :: nat
  block2_info :: GG_CoapMessageBlockInfo
  block1_info :: GG_CoapMessageBlockInfo
  block1_payload_size :: nat
  option_params :: "GG_CoapMessageOption list"
  pending_request :: nat
  client_parameters :: "GG_CoapClientParameters option"
  bw_etag :: bytes

text \<open>What a listener does to its own request inside a callback.\<close>

datatype listener_reaction = React_None | React_Cancel | React_Pause

record 'e GG_CoapBlockwiseEnv =
  SendRequest :: "u8 \<Rightarrow> GG_CoapMessageOption list \<Rightarrow> bytes \<Rightarrow> GG_CoapClientParameters option \<Rightarrow> 'e \<Rightarrow>
    GG_Result \<times> nat option \<times> 'e"
  CancelRequest :: "nat \<Rightarrow> 'e \<Rightarrow> 'e"
  OnResponseBlock :: "GG_CoapMessageBlockInfo \<Rightarrow> GG_CoapMessage \<Rightarrow> 'e \<Rightarrow> listener_reaction \<times> 'e"
  OnBlockwiseError :: "GG_Result \<Rightarrow> 'e \<Rightarrow> listener_reaction \<times> 'e"

section \<open>Operations of a context\<close>

definition GG_CoapBlockwiseRequestContext_Destroy ::
  "'e GG_CoapBlockwiseEnv \<Rightarrow> GG_CoapBlockwiseRequestContext \<Rightarrow> 'e \<Rightarrow> 'e" where
  "GG_CoapBlockwiseRequestContext_Destroy C self e =
     (if pending_request self \<noteq> 0 then CancelRequest C (pending_request self) e else e)"

definition react ::
  "'e GG_CoapBlockwiseEnv \<Rightarrow> GG_CoapBlockwiseRequestContext \<Rightarrow> listener_reaction \<times> 'e \<Rightarrow>
   GG_CoapBlockwiseRequestContext option \<times> 'e" where
  "react C self r = (case fst r of
       React_None \<Rightarrow> (Some self, snd r)
     | React_Cancel \<Rightarrow> (None, GG_CoapBlockwiseRequestContext_Destroy C self (snd r))
     | React_Pause \<Rightarrow> (Some (self\<lparr>paused := True\<rparr>), snd r))"

definition GG_CoapBlockwiseRequestContext_NotifyErrorAndTerminate ::
  "'e GG_CoapBlockwiseEnv \<Rightarrow> GG_Result \<Rightarrow> GG_CoapBlockwiseRequestContext \<Rightarrow> 'e \<Rightarrow> 'e" where
  "GG_CoapBlockwiseRequestContext_NotifyErrorAndTerminate C err self e =
     (if bw_listener self
      then (case react C self (OnBlockwiseError C err e) of
              (None, e) \<Rightarrow> e
            | (Some self, e) \<Rightarrow> GG_CoapBlockwiseRequestContext_Destroy C self e)
      else GG_CoapBlockwiseRequestContext_Destroy C self e)"

text \<open>The block that is sent: a buffer of zeros of the size of the block, filled by the source.\<close>

definition GG_CoapBlockwiseRequestContext_GetData :: "GG_CoapBlockwiseRequestContext \<Rightarrow> bytes option" where
  "GG_CoapBlockwiseRequestContext_GetData self =
     (if block1_payload_size self = 0 then Some []
      else map_option (\<lambda>src. memcpy_at (replicate (block1_payload_size self) 0) 0
             (snd (GetData src (block_offset (block1_info self)) (block1_payload_size self))))
           (payload_source self))"

text \<open>
  The block options of a request. The variable that receives the option value is shared by both options and
  keeps its value when an encoding fails.
\<close>

definition option_value_or :: "u32 option \<Rightarrow> GG_CoapMessageBlockInfo \<Rightarrow> u32 option" where
  "option_value_or old info = (case GG_CoapMessageBlockInfo_ToOptionValue info of Inl _ \<Rightarrow> old | Inr v \<Rightarrow> Some v)"

definition wants_block2 :: "GG_CoapBlockwiseRequestContext \<Rightarrow> bool" where
  "wants_block2 self \<longleftrightarrow> block2_active self \<or>
     preferred_block_size self \<noteq> 0 \<and>
     (\<not> block1_active self \<or> block1_active self \<and> \<not> block_more (block1_info self))"

definition block_options :: "GG_CoapBlockwiseRequestContext \<Rightarrow> GG_CoapMessageOption list option" where
  "block_options self = do {
     let value1 = (if block1_active self then option_value_or None (block1_info self) else None);
     opts1 \<leftarrow> (if block1_active self then map_option (\<lambda>v. [uint_param GG_COAP_MESSAGE_OPTION_BLOCK1 v]) value1 else Some []);
     opts2 \<leftarrow> (if wants_block2 self
              then map_option (\<lambda>v. [uint_param GG_COAP_MESSAGE_OPTION_BLOCK2 v]) (option_value_or value1 (block2_info self))
              else Some []);
     Some (opts1 @ opts2 @
       (if bw_etag self \<noteq> [] then [opaque_param GG_COAP_MESSAGE_OPTION_IF_MATCH (bw_etag self)] else []))
   }"

definition GG_CoapBlockwiseRequestContext_SendBlockwiseRequest ::
  "'e GG_CoapBlockwiseEnv \<Rightarrow> GG_CoapBlockwiseRequestContext \<Rightarrow> 'e \<Rightarrow>
   (GG_Result \<times> GG_CoapBlockwiseRequestContext \<times> 'e) option" where
  "GG_CoapBlockwiseRequestContext_SendBlockwiseRequest C self e =
     (if paused self then Some (GG_SUCCESS, self, e)
      else do {
        opts \<leftarrow> block_options self;
        payload \<leftarrow> (if block1_active self then GG_CoapBlockwiseRequestContext_GetData self else Some []);
        let (result, h, e) = SendRequest C (bw_method self) (opts @ option_params self) payload (client_parameters self) e;
        Some (result, (case h of None \<Rightarrow> self | Some h \<Rightarrow> self\<lparr>pending_request := h\<rparr>), e)
      })"

definition GG_CoapBlockwiseRequestContext_OnError ::
  "'e GG_CoapBlockwiseEnv \<Rightarrow> GG_Result \<Rightarrow> GG_CoapBlockwiseRequestContext \<Rightarrow> 'e \<Rightarrow>
   GG_CoapBlockwiseRequestContext option \<times> 'e" where
  "GG_CoapBlockwiseRequestContext_OnError C err self e =
     (None, GG_CoapBlockwiseRequestContext_NotifyErrorAndTerminate C err self e)"

definition GG_CoapBlockwiseRequestContext_OnContinueResponse ::
  "'e GG_CoapBlockwiseEnv \<Rightarrow> GG_CoapMessage \<Rightarrow> GG_CoapBlockwiseRequestContext \<Rightarrow> 'e \<Rightarrow>
   (GG_CoapBlockwiseRequestContext option \<times> 'e) option" where
  "GG_CoapBlockwiseRequestContext_OnContinueResponse C response self e = do {
     result \<leftarrow> GG_CoapMessage_GetBlockInfo response GG_COAP_MESSAGE_OPTION_BLOCK1 0;
     case result of
       Inl _ \<Rightarrow> Some (None, GG_CoapBlockwiseRequestContext_NotifyErrorAndTerminate C GG_ERROR_COAP_INVALID_RESPONSE self e)
     | Inr info \<Rightarrow> do {
         let b1 = block1_info self;
         let b1 = b1\<lparr>block_offset := block_offset b1 + block1_payload_size self, block_size := min (block_size b1) (block_size info)\<rparr>;
         src \<leftarrow> payload_source self;
         let (result, payload_len, more_flag) = GetDataSize src (block_offset b1) (block_size b1) (block_more b1);
         let self = self\<lparr>block1_info := b1\<lparr>block_more := more_flag\<rparr>, block1_payload_size := payload_len\<rparr>;
         if GG_FAILED result then Some (None, GG_CoapBlockwiseRequestContext_NotifyErrorAndTerminate C result self e)
         else map_option (\<lambda>(_, self, e). (Some self, e)) (GG_CoapBlockwiseRequestContext_SendBlockwiseRequest C self e)
       }
   }"

text \<open>The block of a response: its BLOCK2 option, or one made up for a response that has none.\<close>

definition response_block ::
  "GG_CoapMessage \<Rightarrow> GG_CoapBlockwiseRequestContext \<Rightarrow>
   (GG_Result + GG_CoapMessageBlockInfo \<times> GG_CoapBlockwiseRequestContext) option" where
  "response_block response self = do {
     result \<leftarrow> GG_CoapMessage_GetBlockInfo response GG_COAP_MESSAGE_OPTION_BLOCK2 0;
     Some (case result of
         Inr info \<Rightarrow> Inr (info, self)
       | Inl err \<Rightarrow>
           if err = GG_ERROR_NO_SUCH_ITEM \<and> block_offset (block2_info self) = 0
           then Inr (\<lparr>block_offset = 0, block_size = block_size (block2_info self), block_more = False\<rparr>,
                     self\<lparr>block2_active := False\<rparr>)
           else Inl GG_ERROR_COAP_INVALID_RESPONSE)
   }"

text \<open>What follows a block that the listener has seen.\<close>

definition after_block ::
  "'e GG_CoapBlockwiseEnv \<Rightarrow> GG_CoapMessageBlockInfo \<Rightarrow> GG_CoapBlockwiseRequestContext \<Rightarrow> 'e \<Rightarrow>
   (GG_CoapBlockwiseRequestContext option \<times> 'e) option" where
  "after_block C info self e = do {
     (self, e) \<leftarrow>
       (if block_more info
        then do {
          let self = self\<lparr>block2_active := True,
            block2_info := info\<lparr>block_offset := block_offset info + block_size info, block_more := False\<rparr>\<rparr>;
          (_, self, e) \<leftarrow> GG_CoapBlockwiseRequestContext_SendBlockwiseRequest C self e;
          Some (self, e)
        }
        else Some (self\<lparr>block2_active := False\<rparr>, e));
     Some (if \<not> block1_active self \<and> \<not> block2_active self
           then (None, GG_CoapBlockwiseRequestContext_Destroy C self e) else (Some self, e))
   }"

definition GG_CoapBlockwiseRequestContext_OnResponseWithFinalResponseCode ::
  "'e GG_CoapBlockwiseEnv \<Rightarrow> GG_CoapMessage \<Rightarrow> GG_CoapBlockwiseRequestContext \<Rightarrow> 'e \<Rightarrow>
   (GG_CoapBlockwiseRequestContext option \<times> 'e) option" where
  "GG_CoapBlockwiseRequestContext_OnResponseWithFinalResponseCode C response self e = do {
     let self = self\<lparr>block1_active := False\<rparr>;
     result \<leftarrow> response_block response self;
     case result of
       Inl err \<Rightarrow> Some (None, GG_CoapBlockwiseRequestContext_NotifyErrorAndTerminate C err self e)
     | Inr (info, self) \<Rightarrow>
         if block_offset info \<noteq> block_offset (block2_info self)
         then Some (None, GG_CoapBlockwiseRequestContext_NotifyErrorAndTerminate C GG_ERROR_COAP_UNEXPECTED_BLOCK self e)
         else if bw_listener self
         then (case react C self (OnResponseBlock C info response e) of
                 (None, e) \<Rightarrow> Some (None, e)
               | (Some self, e) \<Rightarrow> after_block C info self e)
         else after_block C info self e
   }"

text \<open>The ETag of a response: remembered from the first response, and compared after that.\<close>

definition check_etag ::
  "GG_Result + GG_CoapMessageOption \<Rightarrow> GG_CoapBlockwiseRequestContext \<Rightarrow> GG_Result + GG_CoapBlockwiseRequestContext" where
  "check_etag etag_option self = (case etag_option of
       Inl _ \<Rightarrow> Inr self
     | Inr opt \<Rightarrow>
         if length (opaque_bytes opt) > GG_COAP_MESSAGE_MAX_ETAG_OPTION_SIZE then Inl GG_ERROR_COAP_INVALID_RESPONSE
         else if bw_etag self \<noteq> []
         then if bw_etag self \<noteq> opaque_bytes opt then Inl GG_ERROR_COAP_ETAG_MISMATCH else Inr self
         else Inr (self\<lparr>bw_etag := opaque_bytes opt\<rparr>))"

definition GG_CoapBlockwiseRequestContext_OnResponse ::
  "'e GG_CoapBlockwiseEnv \<Rightarrow> GG_CoapMessage \<Rightarrow> GG_CoapBlockwiseRequestContext \<Rightarrow> 'e \<Rightarrow>
   (GG_CoapBlockwiseRequestContext option \<times> 'e) option" where
  "GG_CoapBlockwiseRequestContext_OnResponse C response self e = do {
     let self = self\<lparr>pending_request := 0\<rparr>;
     etag_option \<leftarrow> GG_CoapMessage_GetOption response GG_COAP_MESSAGE_OPTION_ETAG 0;
     case check_etag etag_option self of
       Inl err \<Rightarrow> Some (None, GG_CoapBlockwiseRequestContext_NotifyErrorAndTerminate C err self e)
     | Inr self \<Rightarrow>
         if unat (GG_CoapMessage_GetCode response) = GG_COAP_MESSAGE_CODE 231
         then GG_CoapBlockwiseRequestContext_OnContinueResponse C response self e
         else GG_CoapBlockwiseRequestContext_OnResponseWithFinalResponseCode C response self e
   }"

section \<open>The contexts of an endpoint\<close>

record GG_CoapBlockwiseRequests =
  blockwise_requests :: "GG_CoapBlockwiseRequestContext list"
  blockwise_request_handle_base :: nat

text \<open>
  A new request. The source is asked for the size of the first block of a PUT or POST; when it has none,
  the request is sent without a payload.
\<close>

definition initial_context ::
  "nat \<Rightarrow> u8 \<Rightarrow> GG_CoapMessageOption list \<Rightarrow> GG_CoapBlockSource option \<Rightarrow> nat \<Rightarrow> GG_CoapClientParameters option \<Rightarrow>
   bool \<Rightarrow> GG_CoapBlockwiseRequestContext" where
  "initial_context h method options src preferred params has_listener =
     (let b1_active = (method = GG_COAP_METHOD_PUT \<or> method = GG_COAP_METHOD_POST);
          b1_size = (if b1_active then 1024 else 0);
          (payload_len, more_flag) =
            (if b1_active
             then case src of None \<Rightarrow> (0, False)
               | Some src \<Rightarrow>
                   (case GetDataSize src 0 b1_size False of (result, payload_len, more_flag) \<Rightarrow>
                      if GG_FAILED result then (0, False) else (payload_len, more_flag))
             else (0, False))
      in \<lparr>bw_handle = h, bw_method = method, bw_listener = has_listener, payload_source = src,
          block1_active = b1_active, block2_active = False, paused = False, preferred_block_size = preferred,
          block2_info = \<lparr>block_offset = 0,
            block_size = (if preferred \<noteq> 0 then preferred else GG_COAP_BLOCKWISE_DEFAULT_BLOCK_SIZE), block_more = False\<rparr>,
          block1_info = \<lparr>block_offset = 0, block_size = b1_size, block_more = more_flag\<rparr>,
          block1_payload_size = payload_len, option_params = options, pending_request = 0,
          client_parameters = params, bw_etag = []\<rparr>)"

definition GG_CoapEndpoint_SendBlockwiseRequest ::
  "'e GG_CoapBlockwiseEnv \<Rightarrow> u8 \<Rightarrow> GG_CoapMessageOption list \<Rightarrow> GG_CoapBlockSource option \<Rightarrow> nat \<Rightarrow>
   GG_CoapClientParameters option \<Rightarrow> bool \<Rightarrow> GG_CoapBlockwiseRequests \<Rightarrow> 'e \<Rightarrow>
   (GG_Result \<times> nat option \<times> GG_CoapBlockwiseRequests \<times> 'e) option" where
  "GG_CoapEndpoint_SendBlockwiseRequest C method options src preferred params has_listener self e = do {
     GG_ASSERT (src = None \<or> method = GG_COAP_METHOD_PUT \<or> method = GG_COAP_METHOD_POST);
     case GG_Coap_CloneOptions options of
       None \<Rightarrow> Some (GG_ERROR_OUT_OF_MEMORY, None, self, e)
     | Some cloned_options \<Rightarrow> do {
         let h = blockwise_request_handle_base self;
         let ctx = initial_context h method cloned_options src preferred params has_listener;
         let self = self\<lparr>blockwise_request_handle_base := (h + 1) mod 2 ^ 64\<rparr>;
         (result, ctx, e) \<leftarrow> GG_CoapBlockwiseRequestContext_SendBlockwiseRequest C ctx e;
         Some (if GG_FAILED result
               then (result, None, self, GG_CoapBlockwiseRequestContext_Destroy C ctx e)
               else (GG_SUCCESS, Some h, self\<lparr>blockwise_requests := blockwise_requests self @ [ctx]\<rparr>, e))
       }
   }"

text \<open>The first context with a handle, and the list with this context replaced or removed.\<close>

fun replace_context ::
  "nat \<Rightarrow> GG_CoapBlockwiseRequestContext option \<Rightarrow> GG_CoapBlockwiseRequestContext list \<Rightarrow>
   GG_CoapBlockwiseRequestContext list" where
  "replace_context h new [] = []"
| "replace_context h new (ctx # ctxs) =
     (if bw_handle ctx = h then (case new of None \<Rightarrow> ctxs | Some ctx' \<Rightarrow> ctx' # ctxs)
      else ctx # replace_context h new ctxs)"

definition find_context :: "nat \<Rightarrow> GG_CoapBlockwiseRequests \<Rightarrow> GG_CoapBlockwiseRequestContext option" where
  "find_context h self = find (\<lambda>ctx. bw_handle ctx = h) (blockwise_requests self)"

definition GG_CoapEndpoint_CancelBlockwiseRequest ::
  "'e GG_CoapBlockwiseEnv \<Rightarrow> nat \<Rightarrow> GG_CoapBlockwiseRequests \<Rightarrow> 'e \<Rightarrow> GG_Result \<times> GG_CoapBlockwiseRequests \<times> 'e" where
  "GG_CoapEndpoint_CancelBlockwiseRequest C h self e = (case find_context h self of
       None \<Rightarrow> (GG_ERROR_NO_SUCH_ITEM, self, e)
     | Some ctx \<Rightarrow>
         (GG_SUCCESS, self\<lparr>blockwise_requests := replace_context h None (blockwise_requests self)\<rparr>,
          GG_CoapBlockwiseRequestContext_Destroy C ctx e))"

definition GG_CoapEndpoint_DestroyBlockwiseRequestContexts ::
  "'e GG_CoapBlockwiseEnv \<Rightarrow> GG_CoapBlockwiseRequests \<Rightarrow> 'e \<Rightarrow> GG_CoapBlockwiseRequests \<times> 'e" where
  "GG_CoapEndpoint_DestroyBlockwiseRequestContexts C self e =
     (self\<lparr>blockwise_requests := []\<rparr>,
      fold (GG_CoapBlockwiseRequestContext_Destroy C) (blockwise_requests self) e)"

definition GG_CoapEndpoint_SetBlockwiseRequestPausedState ::
  "'e GG_CoapBlockwiseEnv \<Rightarrow> nat \<Rightarrow> bool \<Rightarrow> GG_CoapBlockwiseRequests \<Rightarrow> 'e \<Rightarrow>
   (GG_Result \<times> GG_CoapBlockwiseRequests \<times> 'e) option" where
  "GG_CoapEndpoint_SetBlockwiseRequestPausedState C h pause self e = (case find_context h self of
       None \<Rightarrow> Some (GG_ERROR_NO_SUCH_ITEM, self, e)
     | Some ctx \<Rightarrow>
         if pause
         then Some (GG_SUCCESS,
                self\<lparr>blockwise_requests := replace_context h (Some (ctx\<lparr>paused := True\<rparr>)) (blockwise_requests self)\<rparr>, e)
         else if paused ctx
         then map_option (\<lambda>(_, ctx, e). (GG_SUCCESS,
                self\<lparr>blockwise_requests := replace_context h (Some ctx) (blockwise_requests self)\<rparr>, e))
                (GG_CoapBlockwiseRequestContext_SendBlockwiseRequest C ctx e)
         else Some (GG_SUCCESS, self, e))"

definition GG_CoapEndpoint_PauseBlockwiseRequest ::
  "'e GG_CoapBlockwiseEnv \<Rightarrow> nat \<Rightarrow> GG_CoapBlockwiseRequests \<Rightarrow> 'e \<Rightarrow> (GG_Result \<times> GG_CoapBlockwiseRequests \<times> 'e) option" where
  "GG_CoapEndpoint_PauseBlockwiseRequest C h self e = GG_CoapEndpoint_SetBlockwiseRequestPausedState C h True self e"

definition GG_CoapEndpoint_ResumeBlockwiseRequest ::
  "'e GG_CoapBlockwiseEnv \<Rightarrow> nat \<Rightarrow> GG_CoapBlockwiseRequests \<Rightarrow> 'e \<Rightarrow> (GG_Result \<times> GG_CoapBlockwiseRequests \<times> 'e) option" where
  "GG_CoapEndpoint_ResumeBlockwiseRequest C h self e = GG_CoapEndpoint_SetBlockwiseRequestPausedState C h False self e"

end
