(* ===== verification/Coap_Message_Props.thy ===== *)
theory Coap_Message_Props
  imports Coap_Message "HOL-Library.Multiset"
begin

text \<open>
  Correctness of CoAP messages: what the parser accepts can be read without leaving the datagram, the
  iterator and \<^verbatim>\<open>GG_CoapMessage_GetOption\<close> find exactly the options that are there, and a message
  that was built is parsed back to what it was built from.
\<close>

section \<open>Options as a list\<close>

text \<open>The first option of a run of options: its delta, its value, and what follows it.\<close>

definition next_option :: "bytes \<Rightarrow> (nat \<times> bytes \<times> bytes) option" where
  "next_option data =
     (let option_delta = drop_bit 4 (hd data) AND 0xF;
          option_length = hd data AND 0xF
      in if option_delta = 15 \<or> option_length = 15 then None
         else do {
           (delta, rest) \<leftarrow> option_ext option_delta (tl data);
           (n, rest) \<leftarrow> option_ext option_length rest;
           if length rest < n then None else Some (delta, take n rest, drop n rest)
         })"

definition options_end :: "bytes \<Rightarrow> bool" where
  "options_end data \<longleftrightarrow> data = [] \<or> hd data = 0xFF"

lemma option_ext_append:
  "option_ext nibble data = Some (n, rest) \<Longrightarrow>
    \<exists>ext. data = ext @ rest \<and> option_ext nibble (data @ xs) = Some (n, rest @ xs)"
  by (cases data; cases "tl data")
    (auto simp: option_ext_def split: if_splits)

lemma next_option_append:
  assumes "next_option data = Some (delta, v, rest)" and "data \<noteq> []"
  shows "\<exists>hdr. hdr \<noteq> [] \<and> data = hdr @ v @ rest"
proof -
  obtain r1 n r2 where o: "option_ext (drop_bit 4 (hd data) AND 0xF) (tl data) = Some (delta, r1)"
    "option_ext (hd data AND 0xF) r1 = Some (n, r2)" "n \<le> length r2" "v = take n r2" "rest = drop n r2"
    using assms(1) by (auto simp: next_option_def Let_def split: if_splits bind_splits)
  obtain e1 where "tl data = e1 @ r1" using option_ext_append [OF o(1)] by blast
  moreover obtain e2 where "r1 = e2 @ r2" using option_ext_append [OF o(2)] by blast
  ultimately have "data = (hd data # e1 @ e2) @ v @ rest"
    using o(4,5) assms(2) by (metis append.assoc append_Cons append_take_drop_id list.collapse)
  then show ?thesis by blast
qed

lemma next_option_shorter: "next_option data = Some (delta, v, rest) \<Longrightarrow> data \<noteq> [] \<Longrightarrow> length rest < length data"
  using next_option_append by fastforce

lemma skip_options_next:
  "skip_options data = (if options_end data then Inr data
     else case next_option data of None \<Rightarrow> Inl GG_ERROR_INVALID_FORMAT | Some (_, _, rest) \<Rightarrow> skip_options rest)"
  by (subst skip_options.simps)
    (auto simp: options_end_def next_option_def Let_def split: option.splits bind_splits)

function raw_options :: "u32 \<Rightarrow> bytes \<Rightarrow> (u32 \<times> bytes) list" where
  "raw_options number data =
     (if options_end data then []
      else case next_option data of
        None \<Rightarrow> []
      | Some (delta, v, rest) \<Rightarrow> (number + of_nat delta, v) # raw_options (number + of_nat delta) rest)"
  by pat_completeness auto
termination
  by (relation "measure (length \<circ> snd)") (auto simp: options_end_def dest: next_option_shorter)

declare raw_options.simps [simp del]

text \<open>The options of a message.\<close>

definition message_options :: "GG_CoapMessage \<Rightarrow> (u32 \<times> bytes) list" where
  "message_options m = raw_options 0 (drop (4 + unat (message_data m ! 0 AND 0xF)) (message_data m))"

text \<open>What the parser guarantees of a message.\<close>

definition message_ok :: "GG_CoapMessage \<Rightarrow> bool" where
  "message_ok m \<longleftrightarrow> 4 + unat (message_data m ! 0 AND 0xF) \<le> length (message_data m) \<and> 4 \<le> length (message_data m) \<and>
     unat (message_data m ! 0 AND 0xF) \<le> 8 \<and> drop_bit 6 (message_data m ! 0) AND 3 = 1 \<and>
     (\<exists>rest. skip_options (drop (4 + unat (message_data m ! 0 AND 0xF)) (message_data m)) = Inr rest \<and>
        (if rest = [] then payload_size m = 0 else hd rest = 0xFF \<and> payload_size m = length rest - 1 \<and> 2 \<le> length rest) \<and>
        payload_offset m = length (message_data m) - payload_size m)"

lemma skip_options_end: "skip_options data = Inr rest \<Longrightarrow> options_end rest"
proof (induction data rule: skip_options.induct)
  case (1 data)
  then show ?case
    by (subst (asm) (2) skip_options.simps)
      (auto simp: options_end_def Let_def split: if_splits option.splits)
qed

lemma skip_options_length: "skip_options data = Inr rest \<Longrightarrow> length rest \<le> length data"
proof (induction data rule: length_induct)
  case (1 data)
  show ?case
  proof (cases "options_end data")
    case True
    with 1(2) show ?thesis by (simp add: skip_options_next)
  next
    case False
    then obtain delta v d where n: "next_option data = Some (delta, v, d)" "skip_options d = Inr rest"
      using 1(2) by (subst (asm) skip_options_next) (auto split: option.splits)
    from next_option_shorter [OF n(1)] False 1(1) n(2) show ?thesis by (fastforce simp: options_end_def)
  qed
qed

lemma CreateFromDatagram_ok:
  "GG_CoapMessage_CreateFromDatagram data = Inr m \<longleftrightarrow> message_ok m \<and> message_data m = data"
  using skip_options_end
  by (cases m) (fastforce simp: GG_CoapMessage_CreateFromDatagram_def message_ok_def options_end_def Let_def neq_Nil_conv
      split: sum.splits if_splits)

section \<open>The iterator\<close>

text \<open>\<open>at data it d\<close>: the iterator stands before the options at the start of \<open>d\<close>, a final part of the datagram.\<close>

definition at :: "bytes \<Rightarrow> GG_CoapMessageOptionIterator \<Rightarrow> bytes \<Rightarrow> bool" where
  "at data it d \<longleftrightarrow> (\<exists>pre rest. data = pre @ d \<and> iter_location it = length pre \<and> skip_options d = Inr rest \<and>
     iter_end it = (if rest = [] then length data else length data - length rest + 1))"

lemma at_end:
  assumes "at data it d" and "options_end d"
  shows "GG_CoapMessage_StepOptionIterator1 data it = Some (end_iteration it)"
proof -
  from assms obtain pre where p: "data = pre @ d" "iter_location it = length pre"
    "iter_end it = (if d = [] then length data else length data - length d + 1)"
    by (auto simp: at_def skip_options_next)
  show ?thesis
  proof (cases "d = []")
    case True
    with p show ?thesis by (simp add: GG_CoapMessage_StepOptionIterator1_def)
  next
    case False
    with assms(2) have "hd d = 0xFF" by (simp add: options_end_def)
    with p False have "data ! iter_location it = 0xFF" "iter_location it < length data" "iter_location it < iter_end it"
      by (auto simp: nth_append hd_conv_nth)
    then show ?thesis by (simp add: GG_CoapMessage_StepOptionIterator1_def)
  qed
qed

lemma at_next:
  assumes a: "at data it d" and ne: "\<not> options_end d"
  shows "\<exists>delta v d'. next_option d = Some (delta, v, d') \<and>
    (\<exists>it'. GG_CoapMessage_StepOptionIterator1 data it = Some it' \<and> at data it' d' \<and>
      iter_number it' = iter_number it + of_nat delta \<and> iter_filter it' = iter_filter it \<and>
      iter_value it' = (if iter_filter it = 0 \<or> iter_filter it = iter_number it + of_nat delta
        then decode_option (iter_number it + of_nat delta) v else iter_value it))"
proof -
  from a obtain pre rest where p: "data = pre @ d" "iter_location it = length pre" "skip_options d = Inr rest"
    "iter_end it = (if rest = [] then length data else length data - length rest + 1)"
    by (auto simp: at_def)
  have d: "d \<noteq> []" using ne by (auto simp: options_end_def)
  obtain delta v d' where n: "next_option d = Some (delta, v, d')" "skip_options d' = Inr rest"
    using p(3) ne by (subst (asm) skip_options_next) (auto split: option.splits)
  have len: "length rest \<le> length d'"
    by (rule skip_options_length [OF n(2)])
  obtain r1 m r2 where o: "option_ext (drop_bit 4 (hd d) AND 0xF) (tl d) = Some (delta, r1)"
    "option_ext (hd d AND 0xF) r1 = Some (m, r2)" "m \<le> length r2" "v = take m r2" "d' = drop m r2"
    "drop_bit 4 (hd d) AND 0xF \<noteq> 15" "hd d AND 0xF \<noteq> 15"
    using n(1) by (auto simp: next_option_def Let_def split: if_splits bind_splits)
  obtain hdr where hdr: "hdr \<noteq> []" "d = hdr @ v @ d'" using next_option_append [OF n(1) d] by blast
  have b: "data ! iter_location it = hd d" "drop (iter_location it + 1) data = tl d"
    using p d by (auto simp: nth_append hd_conv_nth drop_Suc tl_append)
  have lt: "iter_location it < length data" "iter_location it < iter_end it"
    using p d hdr len by (cases d; auto)+
  define it' where "it' = it\<lparr>iter_number := iter_number it + of_nat delta,
    iter_value := (if iter_filter it = 0 \<or> iter_filter it = iter_number it + of_nat delta
                   then decode_option (iter_number it + of_nat delta) v else iter_value it),
    iter_location := length data - length r2 + m\<rparr>"
  have st: "GG_CoapMessage_StepOptionIterator1 data it = Some it'"
    using b lt o by (simp add: GG_CoapMessage_StepOptionIterator1_def it'_def Let_def)
  have "length r2 \<le> length data"
    using option_ext_length [OF o(1)] option_ext_length [OF o(2)] p(1) by simp
  then have "length data - length r2 + m = length (pre @ hdr @ v)"
    using p(1) hdr(2) o(3-5) by (auto dest: arg_cong [of _ _ length])
  then have "at data it' d'"
    unfolding at_def using p(1,4) hdr(2) n(2)
    by (intro exI [of _ "pre @ hdr @ v"] exI [of _ rest]) (simp add: it'_def)
  moreover have "iter_number it' = iter_number it + of_nat delta" "iter_filter it' = iter_filter it"
    "iter_value it' = (if iter_filter it = 0 \<or> iter_filter it = iter_number it + of_nat delta
      then decode_option (iter_number it + of_nat delta) v else iter_value it)" by (simp_all add: it'_def)
  ultimately show ?thesis using n(1) st by blast
qed

text \<open>
  The options a filter lets through. An option with number 0 ends the iteration, since 0 is the mark
  of the end.
\<close>

definition visible :: "u32 \<Rightarrow> (u32 \<times> bytes) list \<Rightarrow> (u32 \<times> bytes) list" where
  "visible filt opts = filter (\<lambda>(n, v). filt = 0 \<or> n = filt) (takeWhile (\<lambda>(n, v). n \<noteq> 0) opts)"

definition step_ok :: "bytes \<Rightarrow> u32 \<Rightarrow> (u32 \<times> bytes) list \<Rightarrow> GG_CoapMessageOptionIterator \<Rightarrow> bool" where
  "step_ok data filt opts it = (case opts of
       [] \<Rightarrow> iter_number it = 0
     | (n, v) # ms \<Rightarrow> n \<noteq> 0 \<and> iter_number it = n \<and> iter_value it = decode_option n v \<and> iter_filter it = filt \<and>
         (\<exists>d. at data it d \<and> visible filt (raw_options n d) = ms))"

lemma step_one:
  assumes a: "at data it d" and f: "iter_filter it = filt"
  shows "\<exists>it'. GG_CoapMessage_StepOptionIterator1 data it = Some it' \<and>
    (iter_number it' = 0 \<and> visible filt (raw_options (iter_number it) d) = [] \<or>
     (\<exists>v d'. iter_number it' \<noteq> 0 \<and> at data it' d' \<and> length d' < length d \<and> iter_filter it' = filt \<and>
        (filt = 0 \<or> filt = iter_number it' \<longrightarrow> iter_value it' = decode_option (iter_number it') v) \<and>
        visible filt (raw_options (iter_number it) d) =
          (if filt = 0 \<or> iter_number it' = filt then [(iter_number it', v)] else []) @
          visible filt (raw_options (iter_number it') d')))"
proof (cases "options_end d")
  case True
  with at_end [OF a True] show ?thesis by (simp add: raw_options.simps visible_def end_iteration_def)
next
  case False
  from at_next [OF a False] obtain delta v d' it' where n: "next_option d = Some (delta, v, d')"
    "GG_CoapMessage_StepOptionIterator1 data it = Some it'" "at data it' d'"
    "iter_number it' = iter_number it + of_nat delta" "iter_filter it' = iter_filter it"
    "iter_value it' = (if iter_filter it = 0 \<or> iter_filter it = iter_number it + of_nat delta
      then decode_option (iter_number it + of_nat delta) v else iter_value it)" by blast
  have "raw_options (iter_number it) d = (iter_number it', v) # raw_options (iter_number it') d'"
    using False n(1,4) by (subst raw_options.simps) simp
  moreover have "length d' < length d" using next_option_shorter [OF n(1)] False by (auto simp: options_end_def)
  ultimately show ?thesis
    using n f by (intro exI [of _ it']; cases "iter_number it' = 0") (auto simp: visible_def)
qed

lemma step_filtered_spec:
  assumes "at data it d" and "iter_filter it = filt" and "filt \<noteq> 0"
  shows "\<exists>it'. step_filtered data it = Some it' \<and> step_ok data filt (visible filt (raw_options (iter_number it) d)) it'"
  using assms
proof (induction "length d" arbitrary: it d rule: less_induct)
  case less
  from step_one [OF less.prems(1,2)] obtain it1 where s: "GG_CoapMessage_StepOptionIterator1 data it = Some it1"
    "iter_number it1 = 0 \<and> visible filt (raw_options (iter_number it) d) = [] \<or>
     (\<exists>v d'. iter_number it1 \<noteq> 0 \<and> at data it1 d' \<and> length d' < length d \<and> iter_filter it1 = filt \<and>
        (filt = 0 \<or> filt = iter_number it1 \<longrightarrow> iter_value it1 = decode_option (iter_number it1) v) \<and>
        visible filt (raw_options (iter_number it) d) =
          (if filt = 0 \<or> iter_number it1 = filt then [(iter_number it1, v)] else []) @
          visible filt (raw_options (iter_number it1) d'))" by blast
  from s(2) show ?case
  proof
    assume "iter_number it1 = 0 \<and> visible filt (raw_options (iter_number it) d) = []"
    with s(1) show ?thesis by (subst step_filtered.simps) (simp add: step_ok_def)
  next
    assume "\<exists>v d'. iter_number it1 \<noteq> 0 \<and> at data it1 d' \<and> length d' < length d \<and> iter_filter it1 = filt \<and>
        (filt = 0 \<or> filt = iter_number it1 \<longrightarrow> iter_value it1 = decode_option (iter_number it1) v) \<and>
        visible filt (raw_options (iter_number it) d) =
          (if filt = 0 \<or> iter_number it1 = filt then [(iter_number it1, v)] else []) @
          visible filt (raw_options (iter_number it1) d')"
    then obtain v d' where v: "iter_number it1 \<noteq> 0" "at data it1 d'" "length d' < length d" "iter_filter it1 = filt"
      "filt = iter_number it1 \<Longrightarrow> iter_value it1 = decode_option (iter_number it1) v"
      "visible filt (raw_options (iter_number it) d) =
        (if iter_number it1 = filt then [(iter_number it1, v)] else []) @ visible filt (raw_options (iter_number it1) d')"
      using less.prems(3) by auto
    show ?thesis
    proof (cases "iter_number it1 = filt")
      case True
      with s(1) v show ?thesis by (subst step_filtered.simps) (auto simp: step_ok_def)
    next
      case False
      from less.hyps [OF v(3,2,4) less.prems(3)] False s(1) v(1,4,6) show ?thesis
        by (subst step_filtered.simps) simp
    qed
  qed
qed

lemma StepOptionIterator_spec:
  assumes a: "at (message_data m) it d" and f: "iter_filter it = filt"
  shows "\<exists>it'. GG_CoapMessage_StepOptionIterator m it = Some it' \<and>
    step_ok (message_data m) filt (visible filt (raw_options (iter_number it) d)) it'"
proof (cases "filt = 0")
  case True
  from step_one [OF a f] True f show ?thesis
    by (auto simp: GG_CoapMessage_StepOptionIterator_def step_ok_def)
next
  case False
  from step_filtered_spec [OF a f False] False f show ?thesis by (simp add: GG_CoapMessage_StepOptionIterator_def)
qed

lemma InitOptionIterator_spec:
  assumes ok: "message_ok m"
  shows "\<exists>it. GG_CoapMessage_InitOptionIterator m filt = Some it \<and>
    step_ok (message_data m) filt (visible filt (message_options m)) it"
proof -
  let ?t = "4 + unat (message_data m ! 0 AND 0xF)"
  let ?it = "\<lparr>iter_number = 0, iter_value = GG_COAP_MESSAGE_OPTION_TYPE_EMPTY, iter_filter = filt,
    iter_location = ?t, iter_end = payload_offset m\<rparr>"
  have "at (message_data m) ?it (drop ?t (message_data m))"
  proof -
    from ok obtain rest where r: "skip_options (drop ?t (message_data m)) = Inr rest"
      "if rest = [] then payload_size m = 0 else payload_size m = length rest - 1 \<and> 2 \<le> length rest"
      "payload_offset m = length (message_data m) - payload_size m" "?t \<le> length (message_data m)"
      by (auto simp: message_ok_def split: if_splits)
    have "length rest \<le> length (message_data m)" using skip_options_length [OF r(1)] by simp
    with r show ?thesis
      unfolding at_def by (intro exI [of _ "take ?t (message_data m)"] exI [of _ rest]) (auto split: if_splits)
  qed
  from StepOptionIterator_spec [OF this, of filt] show ?thesis
    by (simp add: GG_CoapMessage_InitOptionIterator_def message_options_def)
qed

lemma get_option_loop_spec:
  assumes "step_ok (message_data m) filt opts it"
  shows "get_option_loop m it index = Some (if index < length opts
    then Inr \<lparr>option_number = fst (opts ! index), option_value = decode_option (fst (opts ! index)) (snd (opts ! index))\<rparr>
    else Inl GG_ERROR_NO_SUCH_ITEM)"
  using assms
proof (induction index arbitrary: it opts)
  case 0
  then show ?case by (subst get_option_loop.simps) (auto simp: step_ok_def split: list.splits)
next
  case (Suc index)
  show ?case
  proof (cases opts)
    case Nil
    with Suc.prems show ?thesis by (subst get_option_loop.simps) (simp add: step_ok_def)
  next
    case (Cons nv ms)
    obtain n v where nv: "nv = (n, v)" by (cases nv)
    from Suc.prems Cons nv obtain d where d: "n \<noteq> 0" "iter_number it = n" "iter_filter it = filt"
      "at (message_data m) it d" "visible filt (raw_options n d) = ms" by (auto simp: step_ok_def)
    from StepOptionIterator_spec [OF d(4,3)] d obtain it' where
      "GG_CoapMessage_StepOptionIterator m it = Some it'" "step_ok (message_data m) filt ms it'" by auto
    with Suc.IH [of ms it'] d(1,2) Cons show ?thesis by (subst get_option_loop.simps) simp
  qed
qed

section \<open>Building options\<close>

lemma option_header_byte:
  assumes "unat d < 15" "unat l < 15"
  shows "drop_bit 4 (push_bit 4 d OR l :: u8) AND 0xF = d" "(push_bit 4 d OR l :: u8) AND 0xF = l"
    "push_bit 4 d OR l \<noteq> (0xFF :: u8)" "d \<noteq> 15" "l \<noteq> 15"
proof -
  have "\<forall>d \<in> set [0..<15]. \<forall>l \<in> set [0..<15].
    drop_bit 4 (push_bit 4 (of_nat d) OR of_nat l :: u8) AND 0xF = of_nat d \<and>
    (push_bit 4 (of_nat d) OR of_nat l :: u8) AND 0xF = of_nat l \<and>
    push_bit 4 (of_nat d) OR of_nat l \<noteq> (0xFF :: u8) \<and> of_nat d \<noteq> (15 :: u8)"
    by code_simp
  from bspec [OF bspec [OF this, of "unat d"], of "unat l"] assms
  show "drop_bit 4 (push_bit 4 d OR l :: u8) AND 0xF = d" "(push_bit 4 d OR l :: u8) AND 0xF = l"
    "push_bit 4 d OR l \<noteq> (0xFF :: u8)" "d \<noteq> 15" by simp_all
  show "l \<noteq> 15" using assms by auto
qed

lemma be16_u32:
  "push_bit 8 (ucast (ucast (drop_bit 8 (ext :: u16)) :: u8)) OR ucast (ucast ext :: u8) = (ucast ext :: u32)"
  by (rule bit_word_eqI) (auto simp: bit_or_iff bit_push_bit_iff bit_ucast_iff bit_drop_bit_eq dest: bit_imp_le_length)

lemma unat_ucast_small: "unat w < 2 ^ LENGTH('b) \<Longrightarrow> unat (ucast (w :: 'a::len word) :: 'b::len word) = unat w"
  by (simp add: unsigned_ucast_eq take_bit_nat_eq_self)

lemma GetVarInt_ext:
  assumes "GG_CoapMessage_GetVarInt n = Some (nibble, ext, sz)"
  shows "unat nibble < 15" "option_ext nibble (ext_bytes ext sz @ xs) = Some (unat n, xs)"
    "length (ext_bytes ext sz) = sz"
proof -
  consider (small) "unat n < 13" "nibble = ucast n" "ext = 0" "sz = 0"
    | (one) "13 \<le> unat n" "unat n < 269" "nibble = 13" "ext = ucast (n - 13)" "sz = 1"
    | (two) "269 \<le> unat n" "unat n \<le> 65804" "nibble = 14" "ext = ucast (n - 269)" "sz = 2"
    using assms by (auto simp: GG_CoapMessage_GetVarInt_def word_less_nat_alt word_le_nat_alt split: if_splits)
  then have "unat nibble < 15 \<and> option_ext nibble (ext_bytes ext sz @ xs) = Some (unat n, xs) \<and>
      length (ext_bytes ext sz) = sz"
  proof cases
    case small
    then have u: "unat nibble = unat n" by (simp add: unat_ucast_small)
    then have "nibble \<noteq> 13" "nibble \<noteq> 14" using small(1) by auto
    with small(1,3,4) u show ?thesis by (simp add: option_ext_def ext_bytes_def)
  next
    case one
    then have m: "unat (n - 13) = unat n - 13" by (simp add: unat_sub word_le_nat_alt)
    have "unat (ucast (ucast (n - 13) :: u16) :: u8) = unat n - 13"
      using m one(2) by (simp add: unat_ucast_small)
    with one show ?thesis by (simp add: option_ext_def ext_bytes_def)
  next
    case two
    then have m: "unat (n - 269) = unat n - 269" by (simp add: unat_sub word_le_nat_alt)
    have "unat (ucast (ucast (n - 269) :: u16) :: u32) = unat n - 269"
      using m two(2) by (simp add: unat_ucast_small)
    with two show ?thesis by (simp add: option_ext_def ext_bytes_def be16_u32)
  qed
  then show "unat nibble < 15" "option_ext nibble (ext_bytes ext sz @ xs) = Some (unat n, xs)"
    "length (ext_bytes ext sz) = sz" by auto
qed

text \<open>Options that can be encoded: a representable length, and memory behind a string.\<close>

definition option_ok :: "GG_CoapMessageOption \<Rightarrow> bool" where
  "option_ok opt \<longleftrightarrow> GG_CoapMessage_OptionLength opt \<le> 65804 \<and> option_number opt \<le> 65804 \<and>
     (case option_value opt of GG_COAP_MESSAGE_OPTION_TYPE_STRING chars n \<Rightarrow> GG_CoapMessage_OptionLength opt \<le> length chars
      | _ \<Rightarrow> True)"

definition option_bytes :: "GG_CoapMessageOption \<Rightarrow> bytes" where
  "option_bytes opt = option_value_bytes (option_value opt) (GG_CoapMessage_OptionLength opt)"

lemma length_option_bytes: "option_ok opt \<Longrightarrow> length (option_bytes opt) = GG_CoapMessage_OptionLength opt"
  by (auto simp: option_bytes_def option_value_bytes_def option_ok_def GG_CoapMessage_OptionLength_def
      split: GG_CoapMessageOptionValue.splits)

lemma GetVarInt_defined: "unat n \<le> 65804 \<Longrightarrow> \<exists>nibble ext sz. GG_CoapMessage_GetVarInt n = Some (nibble, ext, sz)"
  by (auto simp: GG_CoapMessage_GetVarInt_def word_less_nat_alt word_le_nat_alt)

lemma SerializeOptions_spec:
  assumes "\<forall>opt \<in> set opts. option_ok opt" and "sorted (map option_number opts)"
    and "\<forall>opt \<in> set opts. current \<le> option_number opt"
  shows "\<exists>bs. GG_CoapMessage_SerializeOptions opts current = Some (GG_SUCCESS, bs) \<and>
    (\<forall>n. GG_CoapMessage_ComputeOptionsSize opts current n = Some (n + length bs)) \<and>
    (\<forall>tail. options_end tail \<longrightarrow> skip_options (bs @ tail) = Inr tail \<and>
      raw_options current (bs @ tail) = map (\<lambda>opt. (option_number opt, option_bytes opt)) opts)"
  using assms
proof (induction opts arbitrary: current)
  case Nil
  then show ?case by (simp add: skip_options_next raw_options.simps)
next
  case (Cons opt opts)
  let ?num = "option_number opt" and ?L = "GG_CoapMessage_OptionLength opt"
  have ok: "option_ok opt" and le: "current \<le> ?num" using Cons.prems by auto
  have L: "unat (of_nat ?L :: u32) = ?L" "?L \<le> 65804"
    using ok by (auto simp: option_ok_def unsigned_of_nat take_bit_nat_eq_self)
  have dl: "unat (?num - current) = unat ?num - unat current" using le by (simp add: unat_sub)
  have "unat ?num \<le> 65804" using ok by (simp add: option_ok_def word_le_nat_alt)
  then have "unat (?num - current) \<le> 65804" using dl by simp
  then obtain dn de ds where d: "GG_CoapMessage_GetVarInt (?num - current) = Some (dn, de, ds)"
    using GetVarInt_defined by blast
  obtain ln le' ls where l: "GG_CoapMessage_GetVarInt (of_nat ?L) = Some (ln, le', ls)"
    using GetVarInt_defined [of "of_nat ?L"] L by auto
  obtain bs where bs: "GG_CoapMessage_SerializeOptions opts ?num = Some (GG_SUCCESS, bs)"
    "\<And>n. GG_CoapMessage_ComputeOptionsSize opts ?num n = Some (n + length bs)"
    "\<And>tail. options_end tail \<Longrightarrow> skip_options (bs @ tail) = Inr tail \<and>
      raw_options ?num (bs @ tail) = map (\<lambda>opt. (option_number opt, option_bytes opt)) opts"
    using Cons.IH [of ?num] Cons.prems by auto
  define b where "b = push_bit 4 dn OR ln"
  define all where "all = b # ext_bytes de ds @ ext_bytes le' ls @ option_bytes opt @ bs"
  note h = option_header_byte [OF GetVarInt_ext(1) [OF d] GetVarInt_ext(1) [OF l], folded b_def]
  have nx: "next_option (all @ tail) = Some (unat (?num - current), option_bytes opt, bs @ tail)" for tail
    using h GetVarInt_ext(2) [OF d] GetVarInt_ext(2) [OF l] length_option_bytes [OF ok] L
    by (simp add: next_option_def all_def)
  have ne: "\<not> options_end (all @ tail)" for tail using h(3) by (simp add: options_end_def all_def)
  have ser: "GG_CoapMessage_SerializeOptions (opt # opts) current = Some (GG_SUCCESS, all)"
    using d l bs(1) le L by (simp add: all_def b_def option_bytes_def Let_def not_less)
  moreover have "GG_CoapMessage_ComputeOptionsSize (opt # opts) current n = Some (n + length all)" for n
    using d l bs(2) le L GetVarInt_ext(3) [OF d] GetVarInt_ext(3) [OF l] length_option_bytes [OF ok]
    by (simp add: all_def Let_def not_less)
  moreover have "skip_options (all @ tail) = Inr tail \<and>
      raw_options current (all @ tail) = map (\<lambda>opt. (option_number opt, option_bytes opt)) (opt # opts)"
    if "options_end tail" for tail
  proof -
    have "current + of_nat (unat (?num - current)) = ?num" by simp
    then show ?thesis
      using nx ne bs(3) [OF that] by (subst skip_options_next, subst raw_options.simps) simp
  qed
  ultimately show ?case by blast
qed

section \<open>Sorting options\<close>

lemma mset_insert_option [simp]: "mset (insert_option opt opts) = add_mset opt (mset opts)"
  by (induction opts) auto

lemma set_insert_option [simp]: "set (insert_option opt opts) = insert opt (set opts)"
  by (induction opts) auto

lemma sorted_insert_option: "sorted (map option_number opts) \<Longrightarrow> sorted (map option_number (insert_option opt opts))"
  by (induction opts) auto

lemma stable_insert_option:
  "sorted (map option_number opts) \<Longrightarrow> filter (\<lambda>x. k = option_number x) (insert_option opt opts) =
    filter (\<lambda>x. k = option_number x) (opts @ [opt])"
proof (induction opts)
  case (Cons a opts)
  show ?case
  proof (cases "option_number a \<le> option_number opt")
    case False
    with Cons.prems have "\<forall>x \<in> set (a # opts). option_number opt < option_number x" by auto
    then have "filter (\<lambda>x. k = option_number x) (a # opts) = []" if "k = option_number opt"
      using that by (auto simp: filter_empty_conv)
    with False show ?thesis by auto
  qed (use Cons in auto)
qed simp

text \<open>The insertion loop is a stable sort.\<close>

lemma sort_options_eq: "sort_options opts = sort_key option_number opts"
proof -
  define inv where "inv xs ys \<longleftrightarrow> mset ys = mset xs \<and> sorted (map option_number ys) \<and>
    (\<forall>k. filter (\<lambda>x. k = option_number x) ys = filter (\<lambda>x. k = option_number x) xs)" for xs ys :: "GG_CoapMessageOption list"
  have "inv (xs @ opts) (fold insert_option opts ys)" if "inv xs ys" for xs ys
    using that
  proof (induction opts arbitrary: xs ys)
    case (Cons opt opts)
    have "inv (xs @ [opt]) (insert_option opt ys)"
      using Cons.prems by (auto simp: inv_def sorted_insert_option stable_insert_option)
    from Cons.IH [OF this] show ?case by simp
  qed simp
  from this [of "[]" "[]"] have "inv opts (sort_options opts)" by (simp add: inv_def sort_options_def)
  then show ?thesis by (intro properties_for_sort_key [symmetric]) (auto simp: inv_def)
qed

section \<open>Building messages\<close>

lemma type_token_byte:
  assumes "n \<le> 8"
  shows "unat ((push_bit 6 1 OR push_bit 4 (message_type_code t) OR of_nat n :: u8) AND 0xF) = n"
    "drop_bit 6 (push_bit 6 1 OR push_bit 4 (message_type_code t) OR of_nat n :: u8) AND 3 = 1"
    "drop_bit 4 (push_bit 6 1 OR push_bit 4 (message_type_code t) OR of_nat n :: u8) AND 3 = message_type_code t"
proof -
  have "\<forall>n \<in> set [0..<9]. \<forall>t \<in> set [0, 1, 2, 3 :: u8]. unat ((push_bit 6 1 OR push_bit 4 t OR of_nat n :: u8) AND 0xF) = n \<and>
    drop_bit 6 (push_bit 6 1 OR push_bit 4 t OR of_nat n :: u8) AND 3 = 1 \<and>
    drop_bit 4 (push_bit 6 1 OR push_bit 4 t OR of_nat n :: u8) AND 3 = t" by code_simp
  moreover have "message_type_code t \<in> set [0, 1, 2, 3]"
    by (cases t) (simp_all add: message_type_code_def)
  ultimately show "unat ((push_bit 6 1 OR push_bit 4 (message_type_code t) OR of_nat n :: u8) AND 0xF) = n"
    "drop_bit 6 (push_bit 6 1 OR push_bit 4 (message_type_code t) OR of_nat n :: u8) AND 3 = 1"
    "drop_bit 4 (push_bit 6 1 OR push_bit 4 (message_type_code t) OR of_nat n :: u8) AND 3 = message_type_code t"
    using assms by auto
qed

text \<open>The bytes of a built message: nothing of the uninitialized buffer is left, and no copy leaves it.\<close>

lemma memcpy_fill:
  "off + length src \<le> length mem \<Longrightarrow> take (off + length src) (memcpy_at mem off src) = take off mem @ src"
  by (simp add: memcpy_at_def)

lemma list_update_memcpy: "off < length mem \<Longrightarrow> mem[off := x] = memcpy_at mem off [x]"
  by (simp add: memcpy_at_def upd_conv_take_nth_drop)

definition payload_part :: "bytes option \<Rightarrow> nat \<Rightarrow> bytes" where
  "payload_part payload n =
     (if n \<noteq> 0 then 0xFF # (case payload of Some p \<Rightarrow> take n p | None \<Rightarrow> replicate n 0) else [])"

definition message_header :: "u8 \<Rightarrow> GG_CoapMessageType \<Rightarrow> u16 \<Rightarrow> bytes \<Rightarrow> bytes" where
  "message_header code type message_id token =
     [push_bit 6 1 OR push_bit 4 (message_type_code type) OR of_nat (length token), code,
      ucast (drop_bit 8 message_id AND 0xFF), ucast (message_id AND 0xFF)]"

lemma Create_spec:
  assumes tok: "length token \<le> 8" and opts: "\<forall>opt \<in> set options. option_ok opt"
    and pl: "\<forall>p. payload = Some p \<longrightarrow> payload_len \<le> length p"
  shows "\<exists>bs m. GG_CoapMessage_Create junk code type options message_id token payload payload_len = Some (Inr m) \<and>
    message_data m = message_header code type message_id token @ token @ bs @ payload_part payload payload_len \<and>
    payload_size m = payload_len \<and> payload_offset m = length (message_data m) - payload_len \<and>
    GG_CoapMessage_SerializeOptions (sort_options options) 0 = Some (GG_SUCCESS, bs) \<and>
    (\<forall>tail. options_end tail \<longrightarrow> skip_options (bs @ tail) = Inr tail \<and>
      raw_options 0 (bs @ tail) = map (\<lambda>opt. (option_number opt, option_bytes opt)) (sort_options options))"
proof -
  have "\<forall>opt \<in> set (sort_options options). option_ok opt" "sorted (map option_number (sort_options options))"
    "\<forall>opt \<in> set (sort_options options). 0 \<le> option_number opt"
    using opts by (simp_all add: sort_options_eq)
  from SerializeOptions_spec [OF this] obtain bs where
    bs: "GG_CoapMessage_SerializeOptions (sort_options options) 0 = Some (GG_SUCCESS, bs)"
    "GG_CoapMessage_ComputeOptionsSize (sort_options options) 0 0 = Some (length bs)"
    "\<forall>tail. options_end tail \<longrightarrow> skip_options (bs @ tail) = Inr tail \<and>
      raw_options 0 (bs @ tail) = map (\<lambda>opt. (option_number opt, option_bytes opt)) (sort_options options)" by auto
  let ?h = "message_header code type message_id token" and ?tl = "length token"
  define n where "n = 4 + ?tl + length bs + (if payload_len \<noteq> 0 then 1 + payload_len else 0)"
  define pp where "pp = (case payload of Some p \<Rightarrow> take payload_len p | None \<Rightarrow> replicate payload_len (0 :: u8))"
  have lpp: "length pp = payload_len" using pl by (auto simp: pp_def split: option.splits)
  have lh: "length ?h = 4" by (simp add: message_header_def)
  define d0 where "d0 = map junk [0..<n]"
  define d1 where "d1 = memcpy_at d0 0 ?h"
  define d2 where "d2 = memcpy_at d1 4 token"
  define d3 where "d3 = memcpy_at d2 (4 + ?tl) bs"
  have l: "length d0 = n" "length d1 = n" "length d2 = n" "length d3 = n"
    using lh by (simp_all add: d0_def d1_def d2_def d3_def n_def)
  have "take 4 d1 = ?h" using memcpy_fill [of 0 ?h d0] lh l by (simp add: d1_def n_def)
  then have "take (4 + ?tl) d2 = ?h @ token" using memcpy_fill [of 4 token d1] l by (simp add: d2_def n_def)
  then have t3: "take (4 + ?tl + length bs) d3 = ?h @ token @ bs"
    using memcpy_fill [of "4 + ?tl" bs d2] l by (simp add: d3_def n_def)
  define o3 where "o3 = 4 + ?tl + length bs"
  define d5 where "d5 = (if payload_len \<noteq> 0 then memcpy_at (d3[o3 := 0xFF]) (o3 + 1) pp else d3)"
  have d5: "d5 = ?h @ token @ bs @ payload_part payload payload_len"
  proof (cases "payload_len = 0")
    case True
    with t3 l show ?thesis by (simp add: d5_def n_def payload_part_def)
  next
    case False
    have "take (o3 + 1) (d3[o3 := 0xFF]) = take o3 d3 @ [0xFF]"
      using memcpy_fill [of o3 "[0xFF]" d3] list_update_memcpy [of o3 d3 "0xFF"] l False by (simp add: n_def o3_def)
    with memcpy_fill [of "o3 + 1" pp "d3[o3 := 0xFF]"] l False lpp t3
    have "memcpy_at (d3[o3 := 0xFF]) (o3 + 1) pp = ?h @ token @ bs @ 0xFF # pp"
      by (simp add: n_def o3_def)
    then show ?thesis using False by (simp add: d5_def payload_part_def pp_def)
  qed
  define m where "m = \<lparr>message_data = d5, payload_offset = o3 + (if payload_len \<noteq> 0 then 1 else 0),
    payload_size = payload_len\<rparr>"
  have "GG_CoapMessage_Create junk code type options message_id token payload payload_len = Some (Inr m)"
    using tok bs(1,2)
    by (simp add: GG_CoapMessage_Create_def Let_def m_def d5_def o3_def pp_def d3_def d2_def d1_def d0_def n_def
        message_header_def)
  moreover have "payload_offset m = length (message_data m) - payload_len"
    using d5 lh lpp by (simp add: m_def o3_def payload_part_def pp_def)
  ultimately show ?thesis using d5 bs(1,3) by (intro exI [of _ bs] exI [of _ m]) (simp add: m_def)
qed


lemma message_options_eq:
  assumes "message_data m = message_header code type message_id token @ token @ d" and "length token \<le> 8"
  shows "unat (message_data m ! 0 AND 0xF) = length token"
    "drop (4 + unat (message_data m ! 0 AND 0xF)) (message_data m) = d"
    "message_options m = raw_options 0 d"
proof -
  show len: "unat (message_data m ! 0 AND 0xF) = length token"
    using assms type_token_byte(1) [OF assms(2), of type] by (simp add: message_header_def)
  have "length (message_header code type message_id token @ token) = 4 + length token" by (simp add: message_header_def)
  then show d: "drop (4 + unat (message_data m ! 0 AND 0xF)) (message_data m) = d"
    using len assms(1) by (metis append.assoc append_eq_conv_conj)
  show "message_options m = raw_options 0 d" by (simp add: message_options_def d)
qed

lemma header_read:
  assumes "message_data m = message_header code type message_id token @ token @ d" and "length token \<le> 8"
  shows "GG_CoapMessage_GetCode m = code" "GG_CoapMessage_GetType m = message_type_code type"
    "GG_CoapMessage_GetMessageId m = message_id" "GG_CoapMessage_GetToken m = token"
  using assms type_token_byte [OF assms(2), of type]
  by (simp_all add: message_header_def GG_CoapMessage_GetCode_def GG_CoapMessage_GetType_def
      GG_CoapMessage_GetMessageId_def GG_CoapMessage_GetToken_def subarray_def ucast_and_FF be16_of_bytes)

lemma payload_part_end: "options_end (payload_part payload n)"
  by (simp add: payload_part_def options_end_def)

lemma Create_message_ok:
  assumes "length token \<le> 8" and "\<forall>p. payload = Some p \<longrightarrow> n \<le> length p"
    and "message_data m = message_header code type message_id token @ token @ bs @ payload_part payload n"
    and "payload_size m = n" "payload_offset m = length (message_data m) - n"
    and "skip_options (bs @ payload_part payload n) = Inr (payload_part payload n)"
  shows "message_ok m"
  using assms message_options_eq(1,2) [OF assms(3,1)] type_token_byte(2) [OF assms(1), of type]
  by (auto simp: message_ok_def message_header_def payload_part_def split: option.splits)

section \<open>Values of options\<close>

lemma uint_of_bytes_skip: "uint_of_bytes (0 # bs) = uint_of_bytes bs"
  by (simp add: uint_of_bytes_def)

lemma uint_of_bytes_4:
  "uint_of_bytes [a, b, c, d] =
    push_bit 24 (ucast a) OR push_bit 16 (ucast b) OR push_bit 8 (ucast c) OR ucast d"
  by (simp add: uint_of_bytes_def push_bit_push_bit push_bit_or or.assoc)

lemma uint_of_bytes_be32: "uint_of_bytes (GG_BytesFromInt32Be v) = v"
  using be32_of_bytes [of v] by (simp add: GG_BytesFromInt32Be_def uint_of_bytes_4)

lemma drop_bit_small:
  assumes "unat v < 2 ^ k"
  shows "drop_bit k v = (0 :: 'a::len word)"
proof -
  have "unat (drop_bit k v) = 0" using assms by (simp add: unsigned_drop_bit_eq drop_bit_eq_div [where 'a = nat] take_bit_nat_eq_self)
  then show ?thesis by (simp only: unsigned_eq_0_iff)
qed

lemma uint_of_option_bytes:
  "option_value opt = GG_COAP_MESSAGE_OPTION_TYPE_UINT v \<Longrightarrow> uint_of_bytes (option_bytes opt) = v"
  using uint_of_bytes_be32 [of v] drop_bit_small [of v 8] drop_bit_small [of v 16] drop_bit_small [of v 24]
  by (auto simp: option_bytes_def option_value_bytes_def GG_CoapMessage_OptionLength_def GG_BytesFromInt32Be_def
      uint_of_bytes_skip word_less_nat_alt uint_of_bytes_def)

text \<open>The value that is read back for an option whose type is the one its number has.\<close>

definition typed_option :: "GG_CoapMessageOption \<Rightarrow> bool" where
  "typed_option opt = (case option_value opt of
       GG_COAP_MESSAGE_OPTION_TYPE_EMPTY \<Rightarrow> option_number opt = 5
     | GG_COAP_MESSAGE_OPTION_TYPE_UINT v \<Rightarrow> uint_option (option_number opt)
     | GG_COAP_MESSAGE_OPTION_TYPE_STRING chars n \<Rightarrow> string_option (option_number opt)
     | GG_COAP_MESSAGE_OPTION_TYPE_OPAQUE bs \<Rightarrow>
         option_number opt \<noteq> 5 \<and> \<not> uint_option (option_number opt) \<and> \<not> string_option (option_number opt))"

definition plain_value :: "GG_CoapMessageOptionValue \<Rightarrow> GG_CoapMessageOptionValue" where
  "plain_value v = (case v of
       GG_COAP_MESSAGE_OPTION_TYPE_STRING chars n \<Rightarrow>
         (let k = if n = 0 then strlen chars else n in GG_COAP_MESSAGE_OPTION_TYPE_STRING (take k chars) k)
     | _ \<Rightarrow> v)"

lemma decode_option_bytes:
  assumes "option_ok opt" and "typed_option opt"
  shows "decode_option (option_number opt) (option_bytes opt) = plain_value (option_value opt)"
proof (cases "option_value opt")
  case GG_COAP_MESSAGE_OPTION_TYPE_EMPTY
  with assms show ?thesis by (simp add: typed_option_def decode_option_def plain_value_def)
next
  case (GG_COAP_MESSAGE_OPTION_TYPE_UINT v)
  with assms uint_of_option_bytes [OF this] show ?thesis
    by (auto simp: typed_option_def decode_option_def plain_value_def uint_option_def)
next
  case (GG_COAP_MESSAGE_OPTION_TYPE_STRING chars n)
  with assms length_option_bytes [OF assms(1)] show ?thesis
    by (auto simp: typed_option_def decode_option_def plain_value_def uint_option_def string_option_def
        option_bytes_def option_value_bytes_def GG_CoapMessage_OptionLength_def Let_def)
next
  case (GG_COAP_MESSAGE_OPTION_TYPE_OPAQUE bs)
  with assms show ?thesis
    by (auto simp: typed_option_def decode_option_def plain_value_def option_bytes_def option_value_bytes_def
        GG_CoapMessage_OptionLength_def)
qed

lemma GetOption_spec:
  assumes "message_ok m"
  shows "GG_CoapMessage_GetOption m number index = Some (let opts = visible number (message_options m) in
    if index < length opts
    then Inr \<lparr>option_number = fst (opts ! index), option_value = decode_option (fst (opts ! index)) (snd (opts ! index))\<rparr>
    else Inl GG_ERROR_NO_SUCH_ITEM)"
  using InitOptionIterator_spec [OF assms, of number]
  by (auto simp: GG_CoapMessage_GetOption_def get_option_loop_spec Let_def)

lemma visible_built:
  assumes "\<forall>opt \<in> set options. option_number opt \<noteq> 0" and "number \<noteq> 0"
  shows "visible number (map (\<lambda>opt. (option_number opt, option_bytes opt)) (sort_options options)) =
    map (\<lambda>opt. (option_number opt, option_bytes opt)) (filter (\<lambda>opt. option_number opt = number) options)"
proof -
  have "takeWhile (\<lambda>(n, v). n \<noteq> 0) (map (\<lambda>opt. (option_number opt, option_bytes opt)) (sort_options options)) =
    map (\<lambda>opt. (option_number opt, option_bytes opt)) (sort_options options)"
    using assms(1) by (auto simp: takeWhile_eq_all_conv sort_options_eq)
  note tw = this
  show ?thesis
    using assms(2) sort_key_stable [of option_number number options]
    unfolding visible_def tw by (simp add: filter_map o_def sort_options_eq)
qed

lemma built_options_found:
  assumes "length token \<le> 8" and "\<forall>opt \<in> set options. option_ok opt \<and> typed_option opt \<and> option_number opt \<noteq> 0"
    and "\<forall>p. payload = Some p \<longrightarrow> payload_len \<le> length p" and "number \<noteq> 0"
    and "GG_CoapMessage_Create junk code type options message_id token payload payload_len = Some (Inr m)"
  shows "GG_CoapMessage_GetOption m number index =
    Some (let given = filter (\<lambda>opt. option_number opt = number) options in
      if index < length given
      then Inr \<lparr>option_number = number, option_value = plain_value (option_value (given ! index))\<rparr>
      else Inl GG_ERROR_NO_SUCH_ITEM)"
proof -
  have ok: "\<forall>opt \<in> set options. option_ok opt" using assms(2) by blast
  from Create_spec [OF assms(1) ok assms(3), of junk code type message_id] assms(5) obtain bs where
    m: "message_data m = message_header code type message_id token @ token @ bs @ payload_part payload payload_len"
    "payload_size m = payload_len" "payload_offset m = length (message_data m) - payload_len"
    "skip_options (bs @ payload_part payload payload_len) = Inr (payload_part payload payload_len)"
    "raw_options 0 (bs @ payload_part payload payload_len) =
      map (\<lambda>opt. (option_number opt, option_bytes opt)) (sort_options options)"
    using payload_part_end by fastforce
  let ?given = "filter (\<lambda>opt. option_number opt = number) options"
  have v: "visible number (message_options m) = map (\<lambda>opt. (option_number opt, option_bytes opt)) ?given"
    using message_options_eq(3) [OF m(1) assms(1)] m(5) visible_built [OF _ assms(4), of options] assms(2) by auto
  have "option_number (?given ! index) = number \<and>
      decode_option number (option_bytes (?given ! index)) = plain_value (option_value (?given ! index))"
    if "index < length ?given"
    using nth_mem [OF that] assms(2) decode_option_bytes [of "?given ! index"] by auto
  then show ?thesis
    using GetOption_spec [OF Create_message_ok [OF assms(1,3) m(1-4)], of number index]
    by (auto simp: v Let_def)
qed

section \<open>The contract\<close>

text \<open>
  C19: Building and parsing are inverse: a message made from a code, a type, options, an identifier, a token of at
  most 8 bytes and a payload is built whatever the memory of its buffer held, its datagram is parsed to the same
  message, all parts are read back from it, and its options are the given ones in the stable order of their
  numbers, each with the bytes of its value.
\<close>

theorem coap_message_round_trip:
  assumes tok: "length token \<le> 8" and opts: "\<forall>opt \<in> set options. option_ok opt"
    and pl: "\<forall>p. payload = Some p \<longrightarrow> payload_len \<le> length p"
  shows "\<exists>m. GG_CoapMessage_Create junk code type options message_id token payload payload_len = Some (Inr m) \<and>
    GG_CoapMessage_CreateFromDatagram (GG_CoapMessage_ToDatagram m) = Inr m \<and>
    GG_CoapMessage_GetCode m = code \<and> GG_CoapMessage_GetType m = message_type_code type \<and>
    GG_CoapMessage_GetMessageId m = message_id \<and> GG_CoapMessage_GetToken m = token \<and>
    GG_CoapMessage_GetPayloadSize m = payload_len \<and>
    GG_CoapMessage_GetPayload m = (if payload_len = 0 then None else
      Some (case payload of Some p \<Rightarrow> take payload_len p | None \<Rightarrow> replicate payload_len 0)) \<and>
    message_options m = map (\<lambda>opt. (option_number opt, option_bytes opt)) (sort_key option_number options)"
proof -
  from Create_spec [OF assms, of junk code type message_id] obtain bs m where
    m: "GG_CoapMessage_Create junk code type options message_id token payload payload_len = Some (Inr m)"
    "message_data m = message_header code type message_id token @ token @ bs @ payload_part payload payload_len"
    "payload_size m = payload_len" "payload_offset m = length (message_data m) - payload_len"
    "skip_options (bs @ payload_part payload payload_len) = Inr (payload_part payload payload_len)"
    "raw_options 0 (bs @ payload_part payload payload_len) =
      map (\<lambda>opt. (option_number opt, option_bytes opt)) (sort_options options)"
    using payload_part_end by blast
  note Create_message_ok [OF tok pl m(2-5)]
  moreover have "GG_CoapMessage_GetPayload m = (if payload_len = 0 then None else
      Some (case payload of Some p \<Rightarrow> take payload_len p | None \<Rightarrow> replicate payload_len 0))"
    using m(2-4) pl by (auto simp: GG_CoapMessage_GetPayload_def subarray_def payload_part_def split: option.splits)
  ultimately show ?thesis
    using m header_read [OF m(2) tok] message_options_eq(3) [OF m(2) tok]
    by (simp add: CreateFromDatagram_ok GG_CoapMessage_ToDatagram_def GG_CoapMessage_GetPayloadSize_def sort_options_eq)
qed

theorem coap_message_round_trip_witness:
  "\<exists>m. GG_CoapMessage_Create (\<lambda>_. 0xEE) 0x45 GG_COAP_MESSAGE_TYPE_ACK
      [\<lparr>option_number = 12, option_value = GG_COAP_MESSAGE_OPTION_TYPE_UINT 60\<rparr>,
       \<lparr>option_number = 11, option_value = GG_COAP_MESSAGE_OPTION_TYPE_STRING [0x61, 0x62] 2\<rparr>]
      0x1234 [1, 2, 3] (Some [9, 8, 7]) 3 = Some (Inr m) \<and>
    GG_CoapMessage_CreateFromDatagram (GG_CoapMessage_ToDatagram m) = Inr m \<and>
    GG_CoapMessage_GetToken m = [1, 2, 3] \<and> GG_CoapMessage_GetPayload m = Some [9, 8, 7] \<and>
    message_options m = [(11, [0x61, 0x62]), (12, [60])]"
proof -
  let ?a = "\<lparr>option_number = 12, option_value = GG_COAP_MESSAGE_OPTION_TYPE_UINT 60\<rparr>"
    and ?b = "\<lparr>option_number = 11, option_value = GG_COAP_MESSAGE_OPTION_TYPE_STRING [0x61, 0x62] 2\<rparr>"
  have ok: "\<forall>opt \<in> set [?a, ?b]. option_ok opt"
    by (simp add: option_ok_def GG_CoapMessage_OptionLength_def)
  have "option_bytes ?a = [60]" "option_bytes ?b = [0x61, 0x62]" by code_simp+
  then have o: "map (\<lambda>opt. (option_number opt, option_bytes opt)) (sort_key option_number [?a, ?b]) =
    [(11, [0x61, 0x62]), (12, [60])]" by simp
  from coap_message_round_trip [where token = "[1, 2, 3]" and payload = "Some [9, 8, 7]" and payload_len = 3
      and junk = "\<lambda>_. 0xEE" and code = "0x45" and type = GG_COAP_MESSAGE_TYPE_ACK and message_id = "0x1234", OF _ ok]
  show ?thesis unfolding o by auto
qed

text \<open>
  C20: Reading the options of a datagram that the parser accepted never touches memory outside the datagram and
  always returns: the lookup of an option by number (0 for any) and index gives exactly the option at that index
  among the options with that number, decoded by its type, or reports that there is none. Options
  from the first one with number 0 on are not seen, as the iterator takes 0 for the end.
\<close>

theorem coap_option_lookup:
  assumes "GG_CoapMessage_CreateFromDatagram datagram = Inr m"
  shows "GG_CoapMessage_GetOption m number index =
    Some (let opts = visible number (message_options m) in
      if index < length opts
      then Inr \<lparr>option_number = fst (opts ! index),
                option_value = decode_option (fst (opts ! index)) (snd (opts ! index))\<rparr>
      else Inl GG_ERROR_NO_SUCH_ITEM)"
  using assms by (intro GetOption_spec) (simp add: CreateFromDatagram_ok)

theorem coap_option_lookup_witness:
  "\<exists>m. GG_CoapMessage_CreateFromDatagram [0x40, 1, 0, 7, 0xB1, 0x61, 0x02, 0x62, 0x63, 0xFF, 5] = Inr m \<and>
    GG_CoapMessage_GetOption m 11 1 =
      Some (Inr \<lparr>option_number = 11, option_value = GG_COAP_MESSAGE_OPTION_TYPE_STRING [0x62, 0x63] 2\<rparr>)"
proof -
  define m where "m = \<lparr>message_data = [0x40, 1, 0, 7, 0xB1, 0x61, 0x02, 0x62, 0x63, 0xFF, 5 :: u8],
    payload_offset = 10, payload_size = 1\<rparr>"
  have m: "GG_CoapMessage_CreateFromDatagram [0x40, 1, 0, 7, 0xB1, 0x61, 0x02, 0x62, 0x63, 0xFF, 5] = Inr m"
    unfolding m_def by code_simp
  have v: "visible 11 (message_options m) = [(11, [0x61]), (11, [0x62, 0x63])]" unfolding m_def by code_simp
  from coap_option_lookup [OF m, of 11 1] m show ?thesis
    by (simp add: v decode_option_def uint_option_def string_option_def)
qed

text \<open>
  C21: Every option given to a new message is found in it: looking up a number gives the given options with that
  number, in the order in which they were given, with the values they were given (a string without the terminator
  of its memory), and the error after the last of them.
\<close>

theorem coap_built_options_found:
  assumes "length token \<le> 8" and "\<forall>opt \<in> set options. option_ok opt \<and> typed_option opt \<and> option_number opt \<noteq> 0"
    and "\<forall>p. payload = Some p \<longrightarrow> payload_len \<le> length p" and "number \<noteq> 0"
    and "GG_CoapMessage_Create junk code type options message_id token payload payload_len = Some (Inr m)"
  shows "GG_CoapMessage_GetOption m number index =
    Some (let given = filter (\<lambda>opt. option_number opt = number) options in
      if index < length given
      then Inr \<lparr>option_number = number, option_value = plain_value (option_value (given ! index))\<rparr>
      else Inl GG_ERROR_NO_SUCH_ITEM)"
  by (rule built_options_found [OF assms])

theorem coap_built_options_found_witness:
  "\<exists>m. GG_CoapMessage_Create (\<lambda>_. 0) 1 GG_COAP_MESSAGE_TYPE_CON
      [\<lparr>option_number = 27, option_value = GG_COAP_MESSAGE_OPTION_TYPE_UINT 255\<rparr>,
       \<lparr>option_number = 11, option_value = GG_COAP_MESSAGE_OPTION_TYPE_STRING [0x61, 0x62, 0] 0\<rparr>]
      7 [] None 0 = Some (Inr m) \<and>
    GG_CoapMessage_GetOption m 27 0 =
      Some (Inr \<lparr>option_number = 27, option_value = GG_COAP_MESSAGE_OPTION_TYPE_UINT 255\<rparr>) \<and>
    GG_CoapMessage_GetOption m 11 0 =
      Some (Inr \<lparr>option_number = 11, option_value = GG_COAP_MESSAGE_OPTION_TYPE_STRING [0x61, 0x62] 2\<rparr>) \<and>
    GG_CoapMessage_GetOption m 11 1 = Some (Inl GG_ERROR_NO_SUCH_ITEM)"
proof -
  let ?opts = "[\<lparr>option_number = 27, option_value = GG_COAP_MESSAGE_OPTION_TYPE_UINT 255\<rparr>,
    \<lparr>option_number = 11, option_value = GG_COAP_MESSAGE_OPTION_TYPE_STRING [0x61, 0x62, 0 :: u8] 0\<rparr>]"
  have ok: "\<forall>opt \<in> set ?opts. option_ok opt \<and> typed_option opt \<and> option_number opt \<noteq> 0"
    by (simp add: option_ok_def GG_CoapMessage_OptionLength_def strlen_def typed_option_def uint_option_def string_option_def)
  then have "\<forall>opt \<in> set ?opts. option_ok opt" by blast
  from Create_spec [OF _ this, of "[]" None 0 "\<lambda>_. 0" 1 GG_COAP_MESSAGE_TYPE_CON 7] obtain m where
    m: "GG_CoapMessage_Create (\<lambda>_. 0) 1 GG_COAP_MESSAGE_TYPE_CON ?opts 7 [] None 0 = Some (Inr m)" by auto
  have v: "plain_value (GG_COAP_MESSAGE_OPTION_TYPE_UINT 255) = GG_COAP_MESSAGE_OPTION_TYPE_UINT 255"
    "plain_value (GG_COAP_MESSAGE_OPTION_TYPE_STRING [0x61, 0x62, 0] 0) = GG_COAP_MESSAGE_OPTION_TYPE_STRING [0x61, 0x62] 2"
    by code_simp+
  note found = coap_built_options_found [OF _ ok _ _ m]
  from found [of 27 0] found [of 11 0] found [of 11 1] m show ?thesis by (auto simp: v)
qed

section \<open>What the code accepts and drops\<close>

text \<open>
  An option whose value is longer than 65804 bytes, or whose number is more than 65804 beyond the one before it,
  makes \<^verbatim>\<open>GG_CoapMessage_SerializeOptions\<close> fail; \<^verbatim>\<open>GG_CoapMessage_Create\<close> ignores that, and
  reports success for a message without this option and the ones after it.
\<close>

lemma unencodable_options_dropped:
  "map_option (map_sum id message_options) (GG_CoapMessage_Create (\<lambda>_. 0) 1 GG_COAP_MESSAGE_TYPE_CON
      [\<lparr>option_number = 11, option_value = GG_COAP_MESSAGE_OPTION_TYPE_STRING [0x61] 1\<rparr>,
       \<lparr>option_number = 70000, option_value = GG_COAP_MESSAGE_OPTION_TYPE_UINT 1\<rparr>] 7 [] None 0) =
    Some (Inr [(11, [0x61])])"
  by code_simp

text \<open>An option with number 0 hides the options after it from the iterator, though the parser accepts it.\<close>

lemma option_zero_hides_options:
  "(case GG_CoapMessage_CreateFromDatagram [0x40, 1, 0, 7, 0x00, 0xB1, 0x61] of Inl e \<Rightarrow> None
    | Inr m \<Rightarrow> Some (message_options m, GG_CoapMessage_GetOption m 11 0)) =
    Some ([(0, []), (11, [0x61])], Some (Inl GG_ERROR_NO_SUCH_ITEM))"
  by code_simp

text \<open>The encoding of an integer is not always the shortest: 255 takes two bytes, as 65535 takes three.\<close>

lemma uint_length_not_minimal:
  "GG_CoapMessage_OptionLength \<lparr>option_number = 12, option_value = GG_COAP_MESSAGE_OPTION_TYPE_UINT 255\<rparr> = 2"
  "GG_CoapMessage_OptionLength \<lparr>option_number = 12, option_value = GG_COAP_MESSAGE_OPTION_TYPE_UINT 65535\<rparr> = 3"
  by (simp_all add: GG_CoapMessage_OptionLength_def)

end
