(* ===== verification/Coap_Blockwise_Props.thy ===== *)
theory Coap_Blockwise_Props
  imports Coap_Blockwise_Client Coap_Message_Props
begin

text \<open>
  Correctness of blockwise transfers: the encoding of block options, and whole transfers between the request
  context of a client and the two kinds of servers of \<^verbatim>\<open>xp/examples/coap/coap_blockwise_example.c\<close>,
  over the bytes of the messages they exchange.
\<close>

section \<open>Block options\<close>

text \<open>The blocks an option can describe: a size of 16 to 1024 and an offset that is a multiple of it.\<close>

definition block_valid :: "GG_CoapMessageBlockInfo \<Rightarrow> bool" where
  "block_valid info \<longleftrightarrow> block_size info \<in> {16, 32, 64, 128, 256, 512, 1024} \<and> block_size info dvd block_offset info \<and>
     block_offset info div block_size info < 2 ^ 28"

lemma low_nibble:
  assumes "c < 16"
  shows "(push_bit 4 i OR c :: u32) AND 7 = c AND 7" "drop_bit 3 (push_bit 4 i OR c :: u32) AND 1 = drop_bit 3 c AND 1"
    "drop_bit 4 (push_bit 4 i OR c :: u32) = take_bit 28 i"
proof -
  have "unat c < 2 ^ 4" using assms by (simp add: word_less_nat_alt)
  then have "c = take_bit 4 c" by (metis take_bit_nat_eq_self unsigned_take_bit_eq word_unat_eq_iff)
  then have c: "bit c n \<Longrightarrow> n < 4" for n by (metis bit_take_bit_iff)
  have 7: "(7 :: u32) = mask 3" and 1: "(1 :: u32) = mask 1" by (simp_all add: mask_eq_exp_minus_1)
  show "(push_bit 4 i OR c :: u32) AND 7 = c AND 7"
    unfolding 7 by (rule bit_word_eqI) (auto simp: bit_simps)
  show "drop_bit 3 (push_bit 4 i OR c :: u32) AND 1 = drop_bit 3 c AND 1"
    unfolding 1 by (rule bit_word_eqI) (auto simp: bit_simps)
  show "drop_bit 4 (push_bit 4 i OR c :: u32) = take_bit 28 i"
    by (rule bit_word_eqI) (auto simp: bit_simps dest: c)
qed

lemma size_log:
  "size_log_loop 16 1024 6 = 0" "size_log_loop 32 1024 6 = 1" "size_log_loop 64 1024 6 = 2" "size_log_loop 128 1024 6 = 3"
  "size_log_loop 256 1024 6 = 4" "size_log_loop 512 1024 6 = 5" "size_log_loop 1024 1024 6 = 6"
  by (simp_all add: size_log_loop.simps)

lemma option_value_decoded:
  assumes "c < 16" and "c AND 7 = of_nat k" and "k < 7" and "drop_bit 3 c AND 1 = (if m then 1 else 0)" and "i < 2 ^ 28"
  shows "block_info_of_value (push_bit 4 (of_nat i) OR c) =
    Inr \<lparr>block_offset = 2 ^ (4 + k) * i, block_size = 2 ^ (4 + k), block_more = m\<rparr>"
proof -
  have "unat (of_nat k :: u32) = k" "unat (take_bit 28 (of_nat i :: u32)) = i"
    using assms(3,5) by (simp_all add: unsigned_of_nat unsigned_take_bit_eq take_bit_nat_eq_self)
  then show ?thesis
    using assms low_nibble [OF assms(1), of "of_nat i"] by (simp add: block_info_of_value_def Let_def)
qed

lemma option_value_round_trip:
  assumes "block_valid info"
  shows "\<exists>v. GG_CoapMessageBlockInfo_ToOptionValue info = Inr v \<and> block_info_of_value v = Inr info"
proof -
  obtain off sz m where info: "info = \<lparr>block_offset = off, block_size = sz, block_more = m\<rparr>" by (cases info)
  from assms have sz: "sz \<in> {16, 32, 64, 128, 256, 512, 1024}" "sz dvd off" "off div sz < 2 ^ 28"
    by (auto simp: block_valid_def info)
  from sz(1) have "\<exists>k \<in> {0, 1, 2, 3, 4, 5, 6 :: nat}. sz = 2 ^ (4 + k) \<and> size_log_loop sz 1024 6 = int k"
    using size_log by auto
  then obtain k where k: "k < 7" "sz = 2 ^ (4 + k)" "size_log_loop sz 1024 6 = int k" by auto
  have "\<forall>k \<in> set [0..<7]. \<forall>m. ((if m then 8 else 0) OR of_nat k :: u32) < 16 \<and>
    ((if m then 8 else 0) OR of_nat k :: u32) AND 7 = of_nat k \<and>
    drop_bit 3 ((if m then 8 else 0) OR of_nat k :: u32) AND 1 = (if m then 1 else 0)"
    by code_simp
  then have c: "((if m then 8 else 0) OR of_nat k :: u32) < 16"
    "((if m then 8 else 0) OR of_nat k :: u32) AND 7 = of_nat k"
    "drop_bit 3 ((if m then 8 else 0) OR of_nat k :: u32) AND 1 = (if m then 1 else 0)" using k(1) by auto
  have "2 ^ (4 + k) * (off div sz) = off" using sz(2) k(2) by simp
  with option_value_decoded [OF c(1,2) k(1) c(3) sz(3)] k(2,3) show ?thesis
    by (simp add: info GG_CoapMessageBlockInfo_ToOptionValue_def Let_def or.assoc)
qed

section \<open>Messages and their options\<close>

text \<open>What a receiver finds in a message that was built from given parts.\<close>

definition first_option :: "u32 \<Rightarrow> GG_CoapMessageOption list \<Rightarrow> GG_Result + GG_CoapMessageOption" where
  "first_option n opts = (case filter (\<lambda>opt. option_number opt = n) opts of
       [] \<Rightarrow> Inl GG_ERROR_NO_SUCH_ITEM
     | opt # _ \<Rightarrow> Inr \<lparr>option_number = n, option_value = plain_value (option_value opt)\<rparr>)"

definition carries :: "GG_CoapMessage \<Rightarrow> u8 \<Rightarrow> GG_CoapMessageOption list \<Rightarrow> bytes \<Rightarrow> bool" where
  "carries m code opts payload \<longleftrightarrow> GG_CoapMessage_CreateFromDatagram (GG_CoapMessage_ToDatagram m) = Inr m \<and>
     GG_CoapMessage_GetCode m = code \<and> GG_CoapMessage_GetPayloadSize m = length payload \<and>
     GG_CoapMessage_GetPayload m = (if payload = [] then None else Some payload) \<and>
     length (GG_CoapMessage_GetToken m) \<le> 8 \<and>
     (\<forall>n. n \<noteq> 0 \<longrightarrow> GG_CoapMessage_GetOption m n 0 = Some (first_option n opts))"

definition param_ok :: "GG_CoapMessageOption \<Rightarrow> bool" where
  "param_ok opt \<longleftrightarrow> option_ok opt \<and> typed_option opt \<and> option_number opt \<noteq> 0"

lemma GetToken_length: "length (GG_CoapMessage_GetToken m) \<le> 8"
  by (simp add: GG_CoapMessage_GetToken_def subarray_def)

lemma Create_round_trip:
  assumes tok: "length token \<le> 8" and opts: "\<forall>opt \<in> set options. option_ok opt"
    and pl: "\<forall>p. payload = Some p \<longrightarrow> payload_len \<le> length p"
  shows "\<exists>m. GG_CoapMessage_Create junk code type options message_id token payload payload_len = Some (Inr m) \<and>
    message_ok m \<and> GG_CoapMessage_GetCode m = code \<and> GG_CoapMessage_GetPayloadSize m = payload_len \<and>
    GG_CoapMessage_GetPayload m = (if payload_len = 0 then None else
      Some (case payload of Some p \<Rightarrow> take payload_len p | None \<Rightarrow> replicate payload_len 0))"
proof -
  from Create_spec [OF assms, of junk code type message_id] obtain bs m where
    m: "GG_CoapMessage_Create junk code type options message_id token payload payload_len = Some (Inr m)"
    "message_data m = message_header code type message_id token @ token @ bs @ payload_part payload payload_len"
    "payload_size m = payload_len" "payload_offset m = length (message_data m) - payload_len"
    "skip_options (bs @ payload_part payload payload_len) = Inr (payload_part payload payload_len)"
    using payload_part_end by blast
  note Create_message_ok [OF tok pl m(2-5)]
  moreover have "GG_CoapMessage_GetPayload m = (if payload_len = 0 then None else
      Some (case payload of Some p \<Rightarrow> take payload_len p | None \<Rightarrow> replicate payload_len 0))"
    using m(2-4) pl by (auto simp: GG_CoapMessage_GetPayload_def subarray_def payload_part_def split: option.splits)
  ultimately show ?thesis
    using m header_read(1) [OF m(2) tok] by (simp add: GG_CoapMessage_GetPayloadSize_def)
qed

lemma Create_carries:
  assumes "length token \<le> 8" and "\<forall>opt \<in> set options. param_ok opt"
  shows "\<exists>m. GG_CoapMessage_Create junk code type options message_id token (Some payload) (length payload) = Some (Inr m) \<and>
    carries m code options payload"
proof -
  have ok: "\<forall>opt \<in> set options. option_ok opt" using assms(2) by (simp add: param_ok_def)
  from Create_round_trip [OF assms(1) ok, of "Some payload" "length payload" junk code type message_id] obtain m where
    m: "GG_CoapMessage_Create junk code type options message_id token (Some payload) (length payload) = Some (Inr m)"
    "message_ok m" "GG_CoapMessage_GetCode m = code" "GG_CoapMessage_GetPayloadSize m = length payload"
    "GG_CoapMessage_GetPayload m = (if payload = [] then None else Some payload)" by auto
  have "GG_CoapMessage_GetOption m n 0 = Some (first_option n options)" if "n \<noteq> 0" for n
    using built_options_found [OF assms(1) _ _ that m(1), of 0] assms(2)
    by (auto simp: first_option_def param_ok_def Let_def split: list.splits)
  with m show ?thesis by (auto simp: carries_def CreateFromDatagram_ok GG_CoapMessage_ToDatagram_def GetToken_length)
qed

text \<open>A message whose payload is filled in later is the message created with that payload.\<close>

lemma Create_UsePayload:
  assumes "length token \<le> 8" and "\<forall>opt \<in> set options. option_ok opt"
  shows "\<exists>m. GG_CoapMessage_Create junk code type options message_id token None (length payload) = Some (Inr m) \<and>
    GG_CoapMessage_Create junk code type options message_id token (Some payload) (length payload) =
      Some (Inr (GG_CoapMessage_UsePayload payload m))"
proof -
  from Create_spec [OF assms, of None "length payload" junk code type message_id] obtain bs m where
    m: "GG_CoapMessage_Create junk code type options message_id token None (length payload) = Some (Inr m)"
    "message_data m = message_header code type message_id token @ token @ bs @ payload_part None (length payload)"
    "payload_size m = length payload" "payload_offset m = length (message_data m) - length payload"
    "GG_CoapMessage_SerializeOptions (sort_options options) 0 = Some (GG_SUCCESS, bs)" by auto
  from Create_spec [OF assms, of "Some payload" "length payload" junk code type message_id] m(5) obtain m' where
    m': "GG_CoapMessage_Create junk code type options message_id token (Some payload) (length payload) = Some (Inr m')"
    "message_data m' = message_header code type message_id token @ token @ bs @ payload_part (Some payload) (length payload)"
    "payload_size m' = length payload" "payload_offset m' = length (message_data m') - length payload" by auto
  have "m' = GG_CoapMessage_UsePayload payload m"
    using m m' by (cases m; cases m') (auto simp: GG_CoapMessage_UsePayload_def payload_part_def memcpy_at_def)
  with m(1) m'(1) show ?thesis by auto
qed

lemma create_request_carries:
  assumes "length token \<le> 8" and "\<forall>opt \<in> set options. param_ok opt"
  shows "\<exists>m. create_request junk meth options message_id token payload = Some (Inr m) \<and> carries m meth options payload"
proof -
  have ok: "\<forall>opt \<in> set options. option_ok opt" using assms(2) by (simp add: param_ok_def)
  from Create_UsePayload [OF assms(1) ok, of junk meth GG_COAP_MESSAGE_TYPE_CON message_id payload] obtain m where
    m: "GG_CoapMessage_Create junk meth GG_COAP_MESSAGE_TYPE_CON options message_id token None (length payload) = Some (Inr m)"
    "GG_CoapMessage_Create junk meth GG_COAP_MESSAGE_TYPE_CON options message_id token (Some payload) (length payload) =
      Some (Inr (GG_CoapMessage_UsePayload payload m))" by blast
  have "payload = [] \<Longrightarrow> GG_CoapMessage_UsePayload payload m = m" by (simp add: GG_CoapMessage_UsePayload_def)
  with Create_carries [OF assms, of junk meth GG_COAP_MESSAGE_TYPE_CON message_id payload] m show ?thesis
    by (auto simp: create_request_def)
qed

lemma uint_param_ok: "uint_option n \<Longrightarrow> param_ok (uint_param n v)"
  by (auto simp: param_ok_def uint_param_def option_ok_def typed_option_def GG_CoapMessage_OptionLength_def uint_option_def)

lemma opaque_param_ok:
  "n \<in> {1, 4} \<Longrightarrow> length bs \<le> 65804 \<Longrightarrow> param_ok (opaque_param n bs)"
  by (auto simp: param_ok_def opaque_param_def option_ok_def typed_option_def GG_CoapMessage_OptionLength_def
      uint_option_def string_option_def)

lemma option_number_param [simp]: "option_number (uint_param n v) = n" "option_number (opaque_param n bs) = n"
  by (simp_all add: uint_param_def opaque_param_def)

lemma GetBlockInfo_carries:
  assumes "carries m code opts payload" and "n = 23 \<or> n = 27"
  shows "GG_CoapMessage_GetBlockInfo m n default_size = Some (case first_option n opts of
      Inl e \<Rightarrow> if e = GG_ERROR_NO_SUCH_ITEM \<and> default_size \<noteq> 0
        then Inr \<lparr>block_offset = 0, block_size = default_size, block_more = False\<rparr> else Inl e
    | Inr opt \<Rightarrow> (case option_value opt of GG_COAP_MESSAGE_OPTION_TYPE_UINT v \<Rightarrow> block_info_of_value v
        | _ \<Rightarrow> Inl GG_ERROR_INVALID_FORMAT))"
  using assms by (auto simp: carries_def GG_CoapMessage_GetBlockInfo_def)

lemma first_option_uint [simp]:
  "first_option n (uint_param n v # opts) = Inr \<lparr>option_number = n, option_value = GG_COAP_MESSAGE_OPTION_TYPE_UINT v\<rparr>"
  by (simp add: first_option_def uint_param_def plain_value_def)

lemma first_option_opaque [simp]:
  "first_option n (opaque_param n bs # opts) = Inr \<lparr>option_number = n, option_value = GG_COAP_MESSAGE_OPTION_TYPE_OPAQUE bs\<rparr>"
  by (simp add: first_option_def opaque_param_def plain_value_def)

lemma first_option_skip [simp]: "option_number opt \<noteq> n \<Longrightarrow> first_option n (opt # opts) = first_option n opts"
  by (simp add: first_option_def)

lemma first_option_none: "\<forall>opt \<in> set opts. option_number opt \<noteq> n \<Longrightarrow> first_option n opts = Inl GG_ERROR_NO_SUCH_ITEM"
  by (simp add: first_option_def filter_False)

lemma first_option_Nil [simp]: "first_option n [] = Inl GG_ERROR_NO_SUCH_ITEM"
  by (simp add: first_option_def)

section \<open>Transfers\<close>

text \<open>
  A transport for one client: the last request that was sent, the blocks and errors the listener was told of. The
  listener reads the payload of every block.
\<close>

record transfer =
  tx_counter :: nat
  tx_request :: "GG_CoapMessage option"
  tx_blocks :: "(GG_CoapMessageBlockInfo \<times> bytes) list"
  tx_errors :: "GG_Result list"

definition payload_of :: "GG_CoapMessage \<Rightarrow> bytes" where
  "payload_of m = (case GG_CoapMessage_GetPayload m of None \<Rightarrow> [] | Some p \<Rightarrow> p)"

definition transfer_env :: "(nat \<Rightarrow> u8) \<Rightarrow> transfer GG_CoapBlockwiseEnv" where
  "transfer_env junk = \<lparr>
     SendRequest = (\<lambda>meth opts payload params e.
       case create_request junk meth opts (of_nat (tx_counter e)) (GG_BytesFromInt32Be (of_nat (tx_counter e))) payload of
         Some (Inr m) \<Rightarrow> (GG_SUCCESS, Some (tx_counter e + 1), e\<lparr>tx_counter := tx_counter e + 1, tx_request := Some m\<rparr>)
       | Some (Inl err) \<Rightarrow> (err, Some (tx_counter e + 1), e)
       | None \<Rightarrow> (GG_FAILURE, None, e)),
     CancelRequest = (\<lambda>h e. e\<lparr>tx_request := None\<rparr>),
     OnResponseBlock = (\<lambda>info m e. (React_None, e\<lparr>tx_blocks := tx_blocks e @ [(info, payload_of m)]\<rparr>)),
     OnBlockwiseError = (\<lambda>err e. (React_None, e\<lparr>tx_errors := tx_errors e @ [err]\<rparr>))\<rparr>"

text \<open>
  One exchange: the datagram of the request reaches the server \<open>k + 1\<close> times, as happens when it is retransmitted,
  and the response to the last of them reaches the client. The server has a state \<open>'s\<close>.
\<close>

type_synonym 's server = "GG_CoapMessage \<Rightarrow> 's \<Rightarrow> ((GG_Result + GG_CoapMessage) \<times> 's) option"

fun deliver :: "'s server \<Rightarrow> nat \<Rightarrow> GG_CoapMessage \<Rightarrow> 's \<Rightarrow> ((GG_Result + GG_CoapMessage) \<times> 's) option" where
  "deliver serve 0 request s = serve request s"
| "deliver serve (Suc k) request s = do { (_, s) \<leftarrow> serve request s; deliver serve k request s }"

definition received :: "GG_CoapMessage \<Rightarrow> GG_CoapMessage option" where
  "received m = (case GG_CoapMessage_CreateFromDatagram (GG_CoapMessage_ToDatagram m) of Inl _ \<Rightarrow> None | Inr m \<Rightarrow> Some m)"

definition exchange ::
  "(nat \<Rightarrow> u8) \<Rightarrow> 's server \<Rightarrow> nat \<Rightarrow> GG_CoapBlockwiseRequestContext \<Rightarrow> transfer \<Rightarrow> 's \<Rightarrow>
   (GG_CoapBlockwiseRequestContext option \<times> transfer \<times> 's) option" where
  "exchange junk serve k ctx e s = do {
     request \<leftarrow> tx_request e \<bind> received;
     (response, s) \<leftarrow> deliver serve k request s;
     case response of
       Inl _ \<Rightarrow> None
     | Inr response \<Rightarrow> do {
         response \<leftarrow> received response;
         (ctx, e) \<leftarrow> GG_CoapBlockwiseRequestContext_OnResponse (transfer_env junk) response ctx e;
         Some (ctx, e, s)
       }
   }"

text \<open>A whole transfer: exchanges until the request is over; \<open>dup\<close> gives the number of retransmissions in each.\<close>

fun transfer_run ::
  "(nat \<Rightarrow> u8) \<Rightarrow> 's server \<Rightarrow> (nat \<Rightarrow> nat) \<Rightarrow> nat \<Rightarrow> GG_CoapBlockwiseRequestContext option \<times> transfer \<times> 's \<Rightarrow>
   (GG_CoapBlockwiseRequestContext option \<times> transfer \<times> 's) option" where
  "transfer_run junk serve dup 0 st = Some st"
| "transfer_run junk serve dup (Suc n) (ctx, e, s) = (case ctx of
       None \<Rightarrow> Some (None, e, s)
     | Some ctx \<Rightarrow> exchange junk serve (dup n) ctx e s \<bind> transfer_run junk serve dup n)"

lemma received_carries: "carries m code opts payload \<Longrightarrow> received m = Some m"
  by (simp add: carries_def received_def)

lemma payload_of_carries: "carries m code opts payload \<Longrightarrow> payload_of m = payload"
  by (simp add: carries_def payload_of_def)

lemma SendRequest_carries:
  assumes "\<forall>opt \<in> set opts. param_ok opt"
  shows "\<exists>m. SendRequest (transfer_env junk) meth opts payload params e =
      (GG_SUCCESS, Some (tx_counter e + 1), e\<lparr>tx_counter := tx_counter e + 1, tx_request := Some m\<rparr>) \<and>
    carries m meth opts payload"
  using create_request_carries [OF _ assms, of "GG_BytesFromInt32Be (of_nat (tx_counter e))" junk meth "of_nat (tx_counter e)" payload]
  by (auto simp: transfer_env_def)

end
