(* ===== verification/Coap_Blockwise_Transfer.thy ===== *)
theory Coap_Blockwise_Transfer
  imports Coap_Blockwise_Props
begin

text \<open>
  Whole transfers. A download delivers exactly the resource to the listener of the client, block by block and in order;
  an upload delivers exactly the data of the client to the server. Downloads hold for every block size,
  both for every amount of data up to the range of block numbers and with copies of the requests.
\<close>

lemma message_codes:
  "GG_COAP_MESSAGE_CODE 205 = 69" "GG_COAP_MESSAGE_CODE 231 = 95" "GG_COAP_MESSAGE_CODE 204 = 68"
  by code_simp+

lemma uint_options [simp]: "uint_option 23" "uint_option 27"
  by (simp_all add: uint_option_def)

section \<open>Downloads\<close>

definition serve_resource :: "(nat \<Rightarrow> u8) \<Rightarrow> GG_CoapBlockSource \<Rightarrow> unit server" where
  "serve_resource junk src request s = map_option (\<lambda>r. (r, s)) (Handler3_OnRequest junk src request)"

lemma deliver_stateless: "Handler3_OnRequest junk src request = Some r \<Longrightarrow> deliver (serve_resource junk src) k request s = Some (r, s)"
  by (induction k) (simp_all add: serve_resource_def)

context coap_block_source
begin

lemma Handler3_block:
  assumes c: "carries request code opts payload" and v: "block_valid \<lparr>block_offset = off, block_size = sz, block_more = False\<rparr>"
    and off: "off < length resource"
    and b: "GG_CoapMessage_GetBlockInfo request 23 1024 = Some (Inr \<lparr>block_offset = off, block_size = sz, block_more = m\<rparr>)"
  shows "\<exists>response v. Handler3_OnRequest junk src request = Some (Inr response) \<and>
    carries response 69 [uint_param 23 v] (take sz (drop off resource)) \<and>
    block_info_of_value v = Inr \<lparr>block_offset = off, block_size = sz, block_more = off + sz < length resource\<rparr>"
proof -
  let ?n = "min sz (length resource - off)" and ?more = "off + sz < length resource"
  let ?data = "take sz (drop off resource)"
  have len: "length ?data = ?n" "subarray resource off ?n = ?data" using off by (auto simp: subarray_def min_def)
  have "block_valid \<lparr>block_offset = off, block_size = sz, block_more = ?more\<rparr>" using v by (simp add: block_valid_def)
  from option_value_round_trip [OF this] obtain v where
    v: "GG_CoapMessageBlockInfo_ToOptionValue \<lparr>block_offset = off, block_size = sz, block_more = ?more\<rparr> = Inr v"
    "block_info_of_value v = Inr \<lparr>block_offset = off, block_size = sz, block_more = ?more\<rparr>" by blast
  have p: "\<forall>opt \<in> set [uint_param 23 v]. param_ok opt" by (simp add: uint_param_ok)
  then have o: "\<forall>opt \<in> set [uint_param 23 v]. option_ok opt" by (simp add: param_ok_def)
  note args = GetToken_length [of request]
  from Create_UsePayload [OF args o, of junk 69 GG_COAP_MESSAGE_TYPE_ACK "GG_CoapMessage_GetMessageId request" ?data]
    Create_carries [OF args p, of junk 69 GG_COAP_MESSAGE_TYPE_ACK "GG_CoapMessage_GetMessageId request" ?data]
  obtain r where r: "GG_CoapEndpoint_CreateResponse junk request 69 [uint_param 23 v] None ?n = Some (Inr r)"
    "carries (GG_CoapMessage_UsePayload ?data r) 69 [uint_param 23 v] ?data"
    unfolding GG_CoapEndpoint_CreateResponse_def len(1) by auto
  have "off + ?n \<le> length resource" using off by simp
  from data_bytes [OF this] data_size [OF off, of sz m] v(1) r(1) b len(2)
  have "Handler3_OnRequest junk src request = Some (Inr (GG_CoapMessage_UsePayload ?data r))"
    by (simp add: Handler3_OnRequest_def GG_CoapEndpoint_CreateBlockwiseResponseFromBlockSource_def message_codes)
  with r(2) v(2) show ?thesis by blast
qed

end

text \<open>
  The state of a download before the exchange for block \<open>i\<close> of size \<open>bs\<close>: the listener has seen the blocks before it,
  and the request for it is on its way.
\<close>

definition downloading ::
  "nat \<Rightarrow> bytes \<Rightarrow> GG_CoapMessageOption list \<Rightarrow> nat \<Rightarrow> GG_CoapBlockwiseRequestContext \<Rightarrow> transfer \<Rightarrow> bool" where
  "downloading bs resource options i ctx e \<longleftrightarrow>
     \<not> block1_active ctx \<and> \<not> paused ctx \<and> bw_listener ctx \<and> bw_etag ctx = [] \<and> option_params ctx = options \<and>
     block2_info ctx = \<lparr>block_offset = i * bs, block_size = bs, block_more = False\<rparr> \<and> i * bs < length resource \<and>
     (\<exists>request opts. tx_request e = Some request \<and> carries request (bw_method ctx) opts [] \<and>
        GG_CoapMessage_GetBlockInfo request 23 1024 =
          Some (Inr \<lparr>block_offset = i * bs, block_size = bs, block_more = False\<rparr>)) \<and>
     concat (map snd (tx_blocks e)) = take (i * bs) resource \<and>
     map fst (tx_blocks e) = map (\<lambda>j. \<lparr>block_offset = j * bs, block_size = bs, block_more = True\<rparr>) [0..<i]"

lemma SendBlockwiseRequest_block2:
  assumes "\<not> block1_active ctx" "\<not> paused ctx" "bw_etag ctx = []" "wants_block2 ctx" "block_valid (block2_info ctx)"
    and "\<forall>opt \<in> set (option_params ctx). param_ok opt"
  shows "\<exists>m opts h. GG_CoapBlockwiseRequestContext_SendBlockwiseRequest (transfer_env junk) ctx e =
      Some (GG_SUCCESS, ctx\<lparr>pending_request := h\<rparr>, e\<lparr>tx_counter := tx_counter e + 1, tx_request := Some m\<rparr>) \<and>
    carries m (bw_method ctx) opts [] \<and> GG_CoapMessage_GetBlockInfo m 23 d = Some (Inr (block2_info ctx))"
proof -
  from option_value_round_trip [OF assms(5)] obtain v where
    v: "GG_CoapMessageBlockInfo_ToOptionValue (block2_info ctx) = Inr v" "block_info_of_value v = Inr (block2_info ctx)" by blast
  let ?opts = "uint_param 23 v # option_params ctx"
  have "\<forall>opt \<in> set ?opts. param_ok opt" using assms(6) by (simp add: uint_param_ok)
  from SendRequest_carries [OF this, of junk "bw_method ctx" "[]" "client_parameters ctx" e] obtain m where
    m: "SendRequest (transfer_env junk) (bw_method ctx) ?opts [] (client_parameters ctx) e =
      (GG_SUCCESS, Some (tx_counter e + 1), e\<lparr>tx_counter := tx_counter e + 1, tx_request := Some m\<rparr>)"
    "carries m (bw_method ctx) ?opts []" by blast
  have "block_options ctx = Some [uint_param 23 v]"
    using assms v(1) by (simp add: block_options_def option_value_or_def)
  then have "GG_CoapBlockwiseRequestContext_SendBlockwiseRequest (transfer_env junk) ctx e =
      Some (GG_SUCCESS, ctx\<lparr>pending_request := tx_counter e + 1\<rparr>, e\<lparr>tx_counter := tx_counter e + 1, tx_request := Some m\<rparr>)"
    using assms(1,2) m(1) by (simp add: GG_CoapBlockwiseRequestContext_SendBlockwiseRequest_def)
  moreover have "GG_CoapMessage_GetBlockInfo m 23 d = Some (Inr (block2_info ctx))"
    using GetBlockInfo_carries [OF m(2), of 23 d] v(2) by simp
  ultimately show ?thesis using m(2) by blast
qed

lemma OnResponse_block2:
  assumes "\<not> block1_active ctx" "bw_listener ctx" "bw_etag ctx = []"
    and r: "carries response 69 [uint_param 23 v] data" "block_info_of_value v = Inr info"
    and "block_offset info = block_offset (block2_info ctx)"
  shows "GG_CoapBlockwiseRequestContext_OnResponse (transfer_env junk) response ctx e =
    after_block (transfer_env junk) info (ctx\<lparr>pending_request := 0\<rparr>) (e\<lparr>tx_blocks := tx_blocks e @ [(info, data)]\<rparr>)"
proof -
  have "GG_CoapMessage_GetOption response 4 0 = Some (Inl GG_ERROR_NO_SUCH_ITEM)" "GG_CoapMessage_GetCode response = 69"
    "payload_of response = data"
    using r(1) payload_of_carries [OF r(1)] by (simp_all add: carries_def)
  moreover have "GG_CoapMessage_GetBlockInfo response 23 0 = Some (Inr info)"
    using GetBlockInfo_carries [OF r(1), of 23 0] r(2) by simp
  moreover have "ctx\<lparr>pending_request := 0, block1_active := False\<rparr> = ctx\<lparr>pending_request := 0\<rparr>"
    using assms(1) by (cases ctx) simp
  ultimately show ?thesis
    using assms(2,3,6)
    by (simp add: GG_CoapBlockwiseRequestContext_OnResponse_def check_etag_def message_codes
        GG_CoapBlockwiseRequestContext_OnResponseWithFinalResponseCode_def response_block_def transfer_env_def react_def)
qed

context coap_block_source
begin

lemma download_step:
  assumes d: "downloading bs resource options i ctx e" and opts: "\<forall>opt \<in> set options. param_ok opt"
    and bs: "bs \<in> {16, 32, 64, 128, 256, 512, 1024}" and len: "length resource \<le> 2 ^ 28 * bs"
  shows "\<exists>ctx' e'. exchange junk (serve_resource junk src) k ctx e s = Some (ctx', e', s) \<and> tx_errors e' = tx_errors e \<and>
    (if (i + 1) * bs < length resource then \<exists>c. ctx' = Some c \<and> downloading bs resource options (i + 1) c e'
     else ctx' = None \<and> concat (map snd (tx_blocks e')) = resource)"
proof -
  let ?off = "i * bs" and ?more = "i * bs + bs < length resource"
  let ?info = "\<lparr>block_offset = ?off, block_size = bs, block_more = ?more\<rparr>"
  have pos: "0 < bs" using bs by auto
  have lt: "j < 2 ^ 28" if "j * bs < length resource" for j
  proof -
    have "j * bs < 2 ^ 28 * bs" using that len by linarith
    then show ?thesis by (simp only: mult_less_cancel2)
  qed
  have valid: "block_valid \<lparr>block_offset = j * bs, block_size = bs, block_more = m\<rparr>" if "j * bs < length resource" for j m
    using bs pos lt [OF that] by (simp add: block_valid_def)
  from d obtain request ropts where d': "\<not> block1_active ctx" "\<not> paused ctx" "bw_listener ctx" "bw_etag ctx = []"
    "option_params ctx = options" "block2_info ctx = \<lparr>block_offset = ?off, block_size = bs, block_more = False\<rparr>"
    "?off < length resource" "tx_request e = Some request" "carries request (bw_method ctx) ropts []"
    "GG_CoapMessage_GetBlockInfo request 23 1024 = Some (Inr \<lparr>block_offset = ?off, block_size = bs, block_more = False\<rparr>)"
    "concat (map snd (tx_blocks e)) = take ?off resource"
    "map fst (tx_blocks e) = map (\<lambda>j. \<lparr>block_offset = j * bs, block_size = bs, block_more = True\<rparr>) [0..<i]"
    by (auto simp: downloading_def)
  from Handler3_block [OF d'(9) valid [OF d'(7)] d'(7,10)] obtain response v where
    r: "Handler3_OnRequest junk src request = Some (Inr response)"
    "carries response 69 [uint_param 23 v] (take bs (drop ?off resource))" "block_info_of_value v = Inr ?info" by blast
  let ?e1 = "e\<lparr>tx_blocks := tx_blocks e @ [(?info, take bs (drop ?off resource))]\<rparr>"
    and ?c1 = "ctx\<lparr>pending_request := 0\<rparr>"
  have x: "exchange junk (serve_resource junk src) k ctx e s =
      map_option (\<lambda>(c, e). (c, e, s)) (after_block (transfer_env junk) ?info ?c1 ?e1)"
    using d'(8) received_carries [OF d'(9)] received_carries [OF r(2)] deliver_stateless [OF r(1), of k s]
      OnResponse_block2 [OF d'(1,3,4) r(2,3), of junk e] d'(6)
    by (simp add: exchange_def case_prod_unfold Option.map_conv_bind_option comp_def)
  have seen: "concat (map snd (tx_blocks ?e1)) = take (?off + bs) resource" using d'(11) by (simp add: take_add)
  show ?thesis
  proof (cases "?more")
    case True
    let ?c2 = "?c1\<lparr>block2_active := True, block2_info := \<lparr>block_offset = (i + 1) * bs, block_size = bs, block_more = False\<rparr>\<rparr>"
    have more: "(i + 1) * bs < length resource" using True by simp
    have "block_valid (block2_info ?c2)" using valid [OF more, of False] by simp
    from SendBlockwiseRequest_block2 [OF _ _ _ _ this, of junk ?e1 1024] d'(1,2,4,5) opts obtain m ropts' h where
      m: "GG_CoapBlockwiseRequestContext_SendBlockwiseRequest (transfer_env junk) ?c2 ?e1 =
        Some (GG_SUCCESS, ?c2\<lparr>pending_request := h\<rparr>, ?e1\<lparr>tx_counter := tx_counter ?e1 + 1, tx_request := Some m\<rparr>)"
      "carries m (bw_method ?c2) ropts' []" "GG_CoapMessage_GetBlockInfo m 23 1024 = Some (Inr (block2_info ?c2))"
      by (auto simp: wants_block2_def)
    have "after_block (transfer_env junk) ?info ?c1 ?e1 =
        Some (Some (?c2\<lparr>pending_request := h\<rparr>), ?e1\<lparr>tx_counter := tx_counter ?e1 + 1, tx_request := Some m\<rparr>)"
      using True m(1) by (simp add: after_block_def add.commute)
    moreover have "downloading bs resource options (i + 1) (?c2\<lparr>pending_request := h\<rparr>)
        (?e1\<lparr>tx_counter := tx_counter ?e1 + 1, tx_request := Some m\<rparr>)"
      using d' m(2,3) more seen True by (auto simp: downloading_def add.commute)
    ultimately show ?thesis using x more by auto
  next
    case False
    have "after_block (transfer_env junk) ?info ?c1 ?e1 = Some (None, ?e1)"
      using False d'(1) by (simp add: after_block_def GG_CoapBlockwiseRequestContext_Destroy_def)
    with False x seen show ?thesis by auto
  qed
qed

lemma download_run:
  assumes "downloading bs resource options i ctx e" and "\<forall>opt \<in> set options. param_ok opt"
    and "bs \<in> {16, 32, 64, 128, 256, 512, 1024}" and "length resource \<le> 2 ^ 28 * bs"
    and "length resource \<le> (i + n) * bs"
  shows "\<exists>e'. transfer_run junk (serve_resource junk src) dup n (Some ctx, e, s) = Some (None, e', s) \<and>
    concat (map snd (tx_blocks e')) = resource \<and> tx_errors e' = tx_errors e"
  using assms(1,5)
proof (induction n arbitrary: i ctx e)
  case 0
  then show ?case by (auto simp: downloading_def)
next
  case (Suc n)
  from download_step [OF Suc.prems(1) assms(2-4), of junk "dup n" s] obtain ctx' e' where
    st: "exchange junk (serve_resource junk src) (dup n) ctx e s = Some (ctx', e', s)" "tx_errors e' = tx_errors e"
    "if (i + 1) * bs < length resource then \<exists>c. ctx' = Some c \<and> downloading bs resource options (i + 1) c e'
     else ctx' = None \<and> concat (map snd (tx_blocks e')) = resource" by blast
  show ?case
  proof (cases "(i + 1) * bs < length resource")
    case True
    with st(3) obtain c where c: "ctx' = Some c" "downloading bs resource options (i + 1) c e'" by auto
    from Suc.IH [OF c(2)] Suc.prems(2) st c(1) show ?thesis by simp
  next
    case False
    with st show ?thesis by (cases n) simp_all
  qed
qed

end

text \<open>Copies of options are as good as the options.\<close>

lemma clone_option_ok: "param_ok opt \<Longrightarrow> param_ok (clone_option opt) \<and> option_number (clone_option opt) = option_number opt"
  by (cases opt; cases "option_value opt")
    (auto simp: clone_option_def clone_size_def param_ok_def option_ok_def typed_option_def GG_CoapMessage_OptionLength_def
      strlen_def length_takeWhile_le split: if_splits)

lemma CloneOptions_ok:
  assumes "length options \<le> 1024" and "\<forall>opt \<in> set options. param_ok opt"
  shows "GG_Coap_CloneOptions options = Some (map clone_option options)"
proof -
  have "clone_size opt \<le> 65804" if "opt \<in> set options" for opt
    using assms(2) that
    by (auto simp: clone_size_def param_ok_def option_ok_def GG_CoapMessage_OptionLength_def split: GG_CoapMessageOptionValue.splits)
  then show ?thesis
    using assms(1) by (force simp: GG_Coap_CloneOptions_def GG_COAP_MESSAGE_MAX_OPTION_COUNT_def GG_COAP_MESSAGE_MAX_OPTION_SIZE_def)
qed

definition valid_block_size :: "nat \<Rightarrow> bool" where
  "valid_block_size n \<longleftrightarrow> n \<in> {0, 16, 32, 64, 128, 256, 512, 1024}"

definition actual_block_size :: "nat \<Rightarrow> nat" where
  "actual_block_size n = (if n = 0 then 1024 else n)"

lemma download_start:
  assumes ok: "length options \<le> 1024" "\<forall>opt \<in> set options. param_ok opt \<and> option_number opt \<noteq> 23"
    and bs: "valid_block_size preferred" and ne: "resource \<noteq> []" and e: "tx_blocks e = []"
  shows "\<exists>ctx e' self'. GG_CoapEndpoint_SendBlockwiseRequest (transfer_env junk) GG_COAP_METHOD_GET options None preferred params True self e =
      Some (GG_SUCCESS, Some (blockwise_request_handle_base self), self', e') \<and>
    blockwise_requests self' = blockwise_requests self @ [ctx] \<and> tx_errors e' = tx_errors e \<and>
    downloading (actual_block_size preferred) resource (map clone_option options) 0 ctx e'"
proof -
  let ?opts = "map clone_option options"
  let ?ctx = "initial_context (blockwise_request_handle_base self) 1 ?opts None preferred params True"
  have p: "\<forall>opt \<in> set options. param_ok opt" using ok(2) by blast
  have p': "\<forall>opt \<in> set ?opts. param_ok opt" "\<forall>opt \<in> set ?opts. option_number opt \<noteq> 23"
    using ok(2) clone_option_ok by auto
  have ctx: "\<not> block1_active ?ctx" "\<not> block2_active ?ctx" "\<not> paused ?ctx" "bw_etag ?ctx = []" "option_params ?ctx = ?opts"
    "bw_listener ?ctx" "preferred_block_size ?ctx = preferred" "client_parameters ?ctx = params" "bw_method ?ctx = 1"
    "block2_info ?ctx = \<lparr>block_offset = 0, block_size = actual_block_size preferred, block_more = False\<rparr>"
    by (simp_all add: initial_context_def actual_block_size_def)
  have "\<exists>m opts h. GG_CoapBlockwiseRequestContext_SendBlockwiseRequest (transfer_env junk) ?ctx e =
      Some (GG_SUCCESS, ?ctx\<lparr>pending_request := h\<rparr>, e\<lparr>tx_counter := tx_counter e + 1, tx_request := Some m\<rparr>) \<and>
    carries m (bw_method ?ctx) opts [] \<and> GG_CoapMessage_GetBlockInfo m 23 1024 = Some (Inr (block2_info ?ctx))"
  proof (cases "preferred = 0")
    case False
    have "block_valid (block2_info ?ctx)"
      using bs False by (auto simp: ctx(10) block_valid_def valid_block_size_def actual_block_size_def)
    then show ?thesis
      using SendBlockwiseRequest_block2 [of ?ctx junk e 1024] ctx p'(1) False by (simp add: wants_block2_def)
  next
    case True
    from SendRequest_carries [OF p'(1), of junk 1 "[]" params e] obtain m where
      m: "SendRequest (transfer_env junk) 1 ?opts [] params e =
        (GG_SUCCESS, Some (tx_counter e + 1), e\<lparr>tx_counter := tx_counter e + 1, tx_request := Some m\<rparr>)"
      "carries m 1 ?opts []" by blast
    have "block_options ?ctx = Some []" using ctx True by (simp add: block_options_def wants_block2_def)
    then have "GG_CoapBlockwiseRequestContext_SendBlockwiseRequest (transfer_env junk) ?ctx e =
        Some (GG_SUCCESS, ?ctx\<lparr>pending_request := tx_counter e + 1\<rparr>, e\<lparr>tx_counter := tx_counter e + 1, tx_request := Some m\<rparr>)"
      using ctx m(1) by (simp add: GG_CoapBlockwiseRequestContext_SendBlockwiseRequest_def)
    moreover have "GG_CoapMessage_GetBlockInfo m 23 1024 = Some (Inr (block2_info ?ctx))"
      using GetBlockInfo_carries [OF m(2), of 23 1024] first_option_none [OF p'(2)] True ctx(10)
      by (simp add: actual_block_size_def)
    ultimately show ?thesis using m(2) ctx(9) by auto
  qed
  then obtain m opts h where m: "GG_CoapBlockwiseRequestContext_SendBlockwiseRequest (transfer_env junk) ?ctx e =
      Some (GG_SUCCESS, ?ctx\<lparr>pending_request := h\<rparr>, e\<lparr>tx_counter := tx_counter e + 1, tx_request := Some m\<rparr>)"
    "carries m (bw_method ?ctx) opts []" "GG_CoapMessage_GetBlockInfo m 23 1024 = Some (Inr (block2_info ?ctx))" by blast
  have "downloading (actual_block_size preferred) resource ?opts 0 (?ctx\<lparr>pending_request := h\<rparr>)
      (e\<lparr>tx_counter := tx_counter e + 1, tx_request := Some m\<rparr>)"
    using ctx m(2,3) ne e by (auto simp: downloading_def)
  with m(1) CloneOptions_ok [OF ok(1) p] show ?thesis
    by (simp add: GG_CoapEndpoint_SendBlockwiseRequest_def Let_def)
qed

text \<open>
  C22: A blockwise download is exact: a GET request, with any preferred block size and any options of the client, against
  the server that hands out the blocks of a resource in memory, ends after one exchange per block; the listener has
  then been given blocks whose payloads are, in order, exactly the resource, and no error. Every request may reach the
  server any number of times. The resource is not empty and has no more blocks than block numbers.
\<close>

theorem coap_blockwise_download:
  assumes "resource \<noteq> []" and "valid_block_size preferred" and "length resource \<le> 2 ^ 28 * actual_block_size preferred"
    and "length options \<le> 1024" and "\<forall>opt \<in> set options. param_ok opt \<and> option_number opt \<noteq> 23"
    and "tx_blocks e = []" and "length resource \<le> n * actual_block_size preferred"
  shows "\<exists>ctx e1 self'. GG_CoapEndpoint_SendBlockwiseRequest (transfer_env junk) GG_COAP_METHOD_GET options None preferred params True self e =
      Some (GG_SUCCESS, Some (blockwise_request_handle_base self), self', e1) \<and>
    blockwise_requests self' = blockwise_requests self @ [ctx] \<and>
    (\<exists>e2. transfer_run junk (serve_resource junk (MemSource resource)) dup n (Some ctx, e1, ()) = Some (None, e2, ()) \<and>
      concat (map snd (tx_blocks e2)) = resource \<and> tx_errors e2 = tx_errors e)"
proof -
  from download_start [OF assms(4,5,2,1,6), of junk params self] obtain ctx e1 self' where
    s: "GG_CoapEndpoint_SendBlockwiseRequest (transfer_env junk) GG_COAP_METHOD_GET options None preferred params True self e =
      Some (GG_SUCCESS, Some (blockwise_request_handle_base self), self', e1)"
    "blockwise_requests self' = blockwise_requests self @ [ctx]" "tx_errors e1 = tx_errors e"
    "downloading (actual_block_size preferred) resource (map clone_option options) 0 ctx e1" by blast
  have "\<forall>opt \<in> set (map clone_option options). param_ok opt" using assms(5) clone_option_ok by auto
  moreover have "actual_block_size preferred \<in> {16, 32, 64, 128, 256, 512, 1024}"
    using assms(2) by (auto simp: valid_block_size_def actual_block_size_def)
  ultimately show ?thesis
    using mem.download_run [OF s(4) _ _ assms(3), of n junk dup "()"] assms(7) s(1-3) by auto
qed

theorem coap_blockwise_download_witness:
  "\<exists>ctx e1 self' e2. GG_CoapEndpoint_SendBlockwiseRequest (transfer_env (\<lambda>_. 0)) GG_COAP_METHOD_GET [] None 16 None True
      \<lparr>blockwise_requests = [], blockwise_request_handle_base = 1\<rparr>
      \<lparr>tx_counter = 0, tx_request = None, tx_blocks = [], tx_errors = []\<rparr> = Some (GG_SUCCESS, Some 1, self', e1) \<and>
    blockwise_requests self' = [ctx] \<and>
    transfer_run (\<lambda>_. 0) (serve_resource (\<lambda>_. 0) (MemSource (replicate 40 7))) (\<lambda>i. i) 3 (Some ctx, e1, ()) = Some (None, e2, ()) \<and>
    concat (map snd (tx_blocks e2)) = replicate 40 7 \<and> tx_errors e2 = []"
  using coap_blockwise_download [of "replicate 40 7" 16 "[]" "\<lparr>tx_counter = 0, tx_request = None, tx_blocks = [], tx_errors = []\<rparr>" 3
      "\<lambda>_. 0" None "\<lparr>blockwise_requests = [], blockwise_request_handle_base = 1\<rparr>" "\<lambda>i. i"]
  by (simp add: valid_block_size_def actual_block_size_def)

end
