(* ===== verification/Coap_Blockwise_Upload.thy ===== *)
theory Coap_Blockwise_Upload
  imports Coap_Blockwise_Transfer
begin

text \<open>
  Uploads: a client that sends its data block by block to the server of the example, which collects the blocks
  its helper reports as new.
\<close>

section \<open>The server\<close>

record upload =
  up_handler :: Handler1
  up_count :: nat
  up_data :: bytes

text \<open>
  The data of a new block is appended, or starts a new upload when its offset is 0, as the documentation of the helper
  tells handlers to do. \<open>random\<close> gives the random bytes of each call.
\<close>

definition serve_upload :: "(nat \<Rightarrow> u8) \<Rightarrow> (nat \<Rightarrow> bytes) \<Rightarrow> upload server" where
  "serve_upload junk random request s = do {
     (response, fresh, h) \<leftarrow> Handler1_OnRequest junk (random (up_count s)) request (up_handler s);
     Some (response, s\<lparr>up_handler := h, up_count := up_count s + 1,
       up_data := (if \<not> fresh then up_data s
                   else if block_offset (block_info (block1_helper h)) = 0 then payload_of request
                   else up_data s @ payload_of request)\<rparr>)
   }"

abbreviation helper_of :: "upload \<Rightarrow> GG_CoapBlockwiseServerHelper" where
  "helper_of s \<equiv> block1_helper (up_handler s)"

text \<open>
  The state of the server before and after block \<open>i\<close> of the data arrived, with the ETag of the session. A server is
  ready for a new upload unless its last upload was a single block, see \<open>single_block_upload_blocks\<close> below.
\<close>

definition server_ok :: "upload \<Rightarrow> bool" where
  "server_ok s \<longleftrightarrow> block_type (helper_of s) = 27 \<and> helper_block_size (helper_of s) = 1024"

definition ready :: "upload \<Rightarrow> bool" where
  "ready s \<longleftrightarrow> server_ok s \<and> \<not> (transfer_done (helper_of s) \<and> next_offset (helper_of s) = 0)"

definition expecting :: "bytes \<Rightarrow> nat \<Rightarrow> bytes \<Rightarrow> upload \<Rightarrow> bool" where
  "expecting data i etag s \<longleftrightarrow> server_ok s \<and>
     (if i = 0 then ready s \<and> etag = []
      else next_offset (helper_of s) = i * 1024 \<and> \<not> transfer_done (helper_of s) \<and> helper_etag (helper_of s) = etag \<and>
        up_data s = take (i * 1024) data)"

definition got :: "bytes \<Rightarrow> nat \<Rightarrow> bytes \<Rightarrow> upload \<Rightarrow> bool" where
  "got data i etag s \<longleftrightarrow> server_ok s \<and> helper_etag (helper_of s) = etag \<and> etag \<noteq> [] \<and> length etag \<le> 8 \<and>
     up_data s = take ((i + 1) * 1024) data \<and>
     (if (i + 1) * 1024 < length data
      then next_offset (helper_of s) = (i + 1) * 1024 \<and> \<not> transfer_done (helper_of s)
      else transfer_done (helper_of s) \<and> (i \<noteq> 0 \<longrightarrow> next_offset (helper_of s) = i * 1024))"

lemma Create_empty_payload:
  "GG_CoapMessage_Create junk code type options message_id token None 0 =
   GG_CoapMessage_Create junk code type options message_id token (Some []) 0"
  by (simp add: GG_CoapMessage_Create_def Let_def)

lemma Helper_CreateResponse_carries:
  assumes "block_valid (block_info h)" and "block_type h = 27" and "length (helper_etag h) \<le> 8" "helper_etag h \<noteq> []"
  shows "\<exists>response v. GG_CoapBlockwiseServerHelper_CreateResponse junk request code [] None 0 h = Some (Inr response) \<and>
    carries response code [uint_param 27 v, opaque_param 4 (helper_etag h)] [] \<and> block_info_of_value v = Inr (block_info h)"
proof -
  from option_value_round_trip [OF assms(1)] obtain v where
    v: "GG_CoapMessageBlockInfo_ToOptionValue (block_info h) = Inr v" "block_info_of_value v = Inr (block_info h)" by blast
  have p: "\<forall>opt \<in> set [uint_param 27 v, opaque_param 4 (helper_etag h)]. param_ok opt"
    using assms(3) by (simp add: uint_param_ok opaque_param_ok)
  from Create_carries [OF GetToken_length [of request] p, of junk code GG_COAP_MESSAGE_TYPE_ACK
      "GG_CoapMessage_GetMessageId request" "[]"]
  show ?thesis
    using v assms(2,4)
    by (auto simp: GG_CoapBlockwiseServerHelper_CreateResponse_def GG_CoapEndpoint_CreateBlockwiseResponse_def
        GG_CoapEndpoint_CreateResponse_def Create_empty_payload)
qed

text \<open>The request that carries block \<open>i\<close>.\<close>

definition upload_request :: "bytes \<Rightarrow> nat \<Rightarrow> bytes \<Rightarrow> GG_CoapMessage \<Rightarrow> bool" where
  "upload_request data i etag request \<longleftrightarrow>
     (\<exists>code opts. carries request code opts (take 1024 (drop (i * 1024) data))) \<and>
     GG_CoapMessage_GetBlockInfo request 27 1024 =
       Some (Inr \<lparr>block_offset = i * 1024, block_size = 1024, block_more = (i + 1) * 1024 < length data\<rparr>) \<and>
     GG_CoapMessage_GetOption request 1 0 = Some (if etag = [] then Inl GG_ERROR_NO_SUCH_ITEM
       else Inr \<lparr>option_number = 1, option_value = GG_COAP_MESSAGE_OPTION_TYPE_OPAQUE etag\<rparr>)"

lemma on_block1_upload:
  assumes h: "block_info h = \<lparr>block_offset = i * 1024, block_size = 1024, block_more = (i + 1) * 1024 < length data\<rparr>"
    and lt: "i * 1024 < length data" and n: "n = min 1024 (length data - i * 1024)"
    and s: "before \<and> (if i = 0 then \<not> (transfer_done h \<and> next_offset h = 0) else next_offset h = i * 1024 \<and> \<not> transfer_done h) \<or>
      after \<and> (if (i + 1) * 1024 < length data then next_offset h = (i + 1) * 1024 \<and> \<not> transfer_done h
       else transfer_done h \<and> (i \<noteq> 0 \<longrightarrow> next_offset h = i * 1024))"
  shows "\<exists>resent h'. on_block1 n h = (GG_SUCCESS, resent, h') \<and> block_info h' = block_info h \<and>
    helper_etag h' = helper_etag h \<and> block_type h' = block_type h \<and> helper_block_size h' = helper_block_size h \<and>
    (if (i + 1) * 1024 < length data then next_offset h' = (i + 1) * 1024 \<and> \<not> transfer_done h'
     else transfer_done h' \<and> (i \<noteq> 0 \<longrightarrow> next_offset h' = i * 1024)) \<and>
    (resent \<longrightarrow> after) \<and> (\<not> resent \<longrightarrow> i = 0 \<or> before)"
proof -
  define M where "M \<longleftrightarrow> (i + 1) * 1024 < length data"
  have more: "i * 1024 + n = (i + 1) * 1024" if M using that n by (simp add: M_def)
  have pos: "i * 1024 + n \<noteq> i * 1024" using lt n by simp
  have info: "block_info h = \<lparr>block_offset = i * 1024, block_size = 1024, block_more = M\<rparr>" using h by (simp add: M_def)
  from s consider
      (first) "before" "i = 0" "next_offset h = 0" "\<not> transfer_done h"
    | (restart) "i = 0" "next_offset h \<noteq> 0"
    | (next_block) "before" "i \<noteq> 0" "next_offset h = i * 1024" "\<not> transfer_done h"
    | (again) "after" "M" "next_offset h = (i + 1) * 1024" "\<not> transfer_done h" "i \<noteq> 0"
    | (last_again) "after" "\<not> M" "transfer_done h" "next_offset h = i * 1024"
    unfolding M_def by (auto split: if_splits)
  then show ?thesis
    unfolding M_def [symmetric]
    by cases (use more pos in \<open>cases M; auto simp: on_block1_def info Let_def\<close>)+
qed

text \<open>The ETag belongs to the session: empty before the first block was answered, and at most 8 bytes after that.\<close>

definition etag_ok :: "nat \<Rightarrow> bytes \<Rightarrow> bool" where
  "etag_ok i etag \<longleftrightarrow> (if i = 0 then etag = [] else etag \<noteq> [] \<and> length etag \<le> 8)"

lemma Helper_OnRequest_upload:
  assumes r: "upload_request data i etag request" and lt: "i * 1024 < length data" and e: "etag_ok i etag"
    and h: "block_type h = 27" "helper_block_size h = 1024" "i \<noteq> 0 \<longrightarrow> helper_etag h = etag"
    and s: "before \<and> (if i = 0 then \<not> (transfer_done h \<and> next_offset h = 0) else next_offset h = i * 1024 \<and> \<not> transfer_done h) \<or>
      after \<and> (if (i + 1) * 1024 < length data then next_offset h = (i + 1) * 1024 \<and> \<not> transfer_done h
       else transfer_done h \<and> (i \<noteq> 0 \<longrightarrow> next_offset h = i * 1024))"
  shows "\<exists>resent h'. GG_CoapBlockwiseServerHelper_OnRequest request h = Some (GG_SUCCESS, resent, h') \<and>
    block_info h' = \<lparr>block_offset = i * 1024, block_size = 1024, block_more = (i + 1) * 1024 < length data\<rparr> \<and>
    helper_etag h' = helper_etag h \<and> block_type h' = 27 \<and> helper_block_size h' = 1024 \<and>
    (if (i + 1) * 1024 < length data then next_offset h' = (i + 1) * 1024 \<and> \<not> transfer_done h'
     else transfer_done h' \<and> (i \<noteq> 0 \<longrightarrow> next_offset h' = i * 1024)) \<and>
    (resent \<longrightarrow> after) \<and> (\<not> resent \<longrightarrow> i = 0 \<or> before)"
proof -
  let ?info = "\<lparr>block_offset = i * 1024, block_size = 1024, block_more = (i + 1) * 1024 < length data\<rparr>"
  have n: "GG_CoapMessage_GetPayloadSize request = min 1024 (length data - i * 1024)"
    using r by (auto simp: upload_request_def carries_def)
  have m: "check_if_match (helper_etag h) (if etag = [] then Inl GG_ERROR_NO_SUCH_ITEM
       else Inr \<lparr>option_number = 1, option_value = GG_COAP_MESSAGE_OPTION_TYPE_OPAQUE etag\<rparr>) = GG_SUCCESS"
    using e h(3) by (auto simp: check_if_match_def opaque_bytes_def etag_ok_def split: if_splits)
  have "GG_CoapBlockwiseServerHelper_OnRequest request h = Some (on_block1 (GG_CoapMessage_GetPayloadSize request) (h\<lparr>block_info := ?info\<rparr>))"
    using r h(1,2) m by (simp add: GG_CoapBlockwiseServerHelper_OnRequest_def upload_request_def)
  moreover define h1 where "h1 = h\<lparr>block_info := ?info\<rparr>"
  moreover have f: "block_info h1 = ?info" "next_offset h1 = next_offset h" "transfer_done h1 = transfer_done h"
    "helper_etag h1 = helper_etag h" "block_type h1 = 27" "helper_block_size h1 = 1024" using h(1,2) by (simp_all add: h1_def)
  ultimately show ?thesis
    using on_block1_upload [OF f(1) lt n, of before after, unfolded f, OF s] by simp
qed

lemma block_info_SetEtag: "block_info (GG_CoapBlockwiseServerHelper_SetEtag etag h) = block_info h"
  by (simp add: GG_CoapBlockwiseServerHelper_SetEtag_def)

lemma serve_upload_block:
  assumes r: "upload_request data i etag request" and lt: "i * 1024 < length data" and len: "length data \<le> 2 ^ 28 * 1024"
    and e: "etag_ok i etag" and s: "expecting data i etag s \<or> (\<exists>etag'. got data i etag' s \<and> (i \<noteq> 0 \<longrightarrow> etag' = etag))"
  shows "\<exists>response v etag' s'. serve_upload junk random request s = Some (Inr response, s') \<and> got data i etag' s' \<and>
    (i \<noteq> 0 \<longrightarrow> etag' = etag) \<and>
    carries response (if (i + 1) * 1024 < length data then 95 else 68) [uint_param 27 v, opaque_param 4 etag'] [] \<and>
    block_info_of_value v = Inr \<lparr>block_offset = i * 1024, block_size = 1024, block_more = (i + 1) * 1024 < length data\<rparr>"
proof -
  let ?info = "\<lparr>block_offset = i * 1024, block_size = 1024, block_more = (i + 1) * 1024 < length data\<rparr>"
  define before where "before \<longleftrightarrow> expecting data i etag s"
  define after where "after \<longleftrightarrow> up_data s = take ((i + 1) * 1024) data"
  have ok: "server_ok s" using s by (auto simp: expecting_def got_def)
  have tag: "i \<noteq> 0 \<longrightarrow> helper_etag (helper_of s) = etag" using s by (auto simp: expecting_def got_def)
  have "before \<and> (if i = 0 then \<not> (transfer_done (helper_of s) \<and> next_offset (helper_of s) = 0)
        else next_offset (helper_of s) = i * 1024 \<and> \<not> transfer_done (helper_of s)) \<or>
      after \<and> (if (i + 1) * 1024 < length data then next_offset (helper_of s) = (i + 1) * 1024 \<and> \<not> transfer_done (helper_of s)
       else transfer_done (helper_of s) \<and> (i \<noteq> 0 \<longrightarrow> next_offset (helper_of s) = i * 1024))"
    using s by (auto simp: before_def after_def expecting_def got_def ready_def split: if_splits)
  from Helper_OnRequest_upload [OF r lt e _ _ tag this] ok obtain resent h where
    h: "GG_CoapBlockwiseServerHelper_OnRequest request (helper_of s) = Some (GG_SUCCESS, resent, h)"
    "block_info h = ?info" "helper_etag h = helper_etag (helper_of s)" "block_type h = 27" "helper_block_size h = 1024"
    "if (i + 1) * 1024 < length data then next_offset h = (i + 1) * 1024 \<and> \<not> transfer_done h
     else transfer_done h \<and> (i \<noteq> 0 \<longrightarrow> next_offset h = i * 1024)"
    "resent \<longrightarrow> after" "\<not> resent \<longrightarrow> i = 0 \<or> before" by (auto simp: server_ok_def)
  define tag' where "tag' = take 4 (random (up_count s)) @ GG_BytesFromInt32Be (session_id (up_handler s) + 1)"
  define h1 where "h1 = (if i = 0 then GG_CoapBlockwiseServerHelper_SetEtag tag' h else h)"
  have l: "length tag' \<le> 8" "tag' \<noteq> []" by (auto simp: tag'_def GG_BytesFromInt32Be_def)
  have h1: "block_info h1 = ?info" "block_type h1 = 27" "helper_block_size h1 = 1024" "next_offset h1 = next_offset h"
    "transfer_done h1 = transfer_done h" "helper_etag h1 = (if i = 0 then tag' else etag)"
    using h(2-5) tag l by (auto simp: h1_def GG_CoapBlockwiseServerHelper_SetEtag_def)
  have "i < 2 ^ 28" using lt len by auto
  then have "block_valid (block_info h1)" by (simp add: h1(1) block_valid_def)
  moreover have "length (helper_etag h1) \<le> 8" "helper_etag h1 \<noteq> []" using l e h1(6) by (auto simp: etag_ok_def)
  ultimately obtain response v where
    c: "GG_CoapBlockwiseServerHelper_CreateResponse junk request (if (i + 1) * 1024 < length data then 95 else 68) [] None 0 h1 = Some (Inr response)"
    "carries response (if (i + 1) * 1024 < length data then 95 else 68) [uint_param 27 v, opaque_param 4 (helper_etag h1)] []"
    "block_info_of_value v = Inr ?info"
    using Helper_CreateResponse_carries [of h1 junk request "if (i + 1) * 1024 < length data then 95 else 68"] h1(1,2) by auto
  define hd1 where "hd1 = (if i = 0 then (up_handler s)\<lparr>block1_helper := h1, session_id := session_id (up_handler s) + 1\<rparr>
    else (up_handler s)\<lparr>block1_helper := h1\<rparr>)"
  have run: "Handler1_OnRequest junk (random (up_count s)) request (up_handler s) = Some (Inr response, \<not> resent, hd1)"
    using h(1,2) c(1) by (cases "i = 0"; cases "(i + 1) * 1024 < length data")
      (simp_all add: Handler1_OnRequest_def message_codes hd1_def h1_def tag'_def block_info_SetEtag)
  have p: "payload_of request = take 1024 (drop (i * 1024) data)"
    using r payload_of_carries by (auto simp: upload_request_def)
  define s' where "s' = s\<lparr>up_handler := hd1, up_count := up_count s + 1,
       up_data := (if resent then up_data s else if i = 0 then payload_of request else up_data s @ payload_of request)\<rparr>"
  have hs: "helper_of s' = h1" by (simp add: s'_def hd1_def)
  have "serve_upload junk random request s = Some (Inr response, s')"
    using run hs h1(1) by (simp add: serve_upload_def s'_def hd1_def)
  moreover have "take (i * 1024) data @ take 1024 (drop (i * 1024) data) = take ((i + 1) * 1024) data"
    using take_add [of "i * 1024" 1024 data] by (simp add: add.commute)
  then have "up_data s' = take ((i + 1) * 1024) data"
    using h(7,8) by (cases resent; cases "i = 0") (auto simp: s'_def p after_def before_def expecting_def)
  then have "got data i (helper_etag h1) s'"
    using hs h1 h(6) \<open>length (helper_etag h1) \<le> 8\<close> \<open>helper_etag h1 \<noteq> []\<close> by (simp add: got_def server_ok_def)
  moreover have "i \<noteq> 0 \<longrightarrow> helper_etag h1 = etag" using h1(6) by simp
  ultimately show ?thesis using c(2,3) by blast
qed

text \<open>All the replies of a server to the copies of a request, the first one first.\<close>

fun replies :: "'s server \<Rightarrow> nat \<Rightarrow> GG_CoapMessage \<Rightarrow> 's \<Rightarrow> ((GG_Result + GG_CoapMessage) list \<times> 's) option" where
  "replies serve 0 request s = map_option (\<lambda>(r, s). ([r], s)) (serve request s)"
| "replies serve (Suc k) request s = do {
     (r, s) \<leftarrow> serve request s;
     (rs, s) \<leftarrow> replies serve k request s;
     Some (r # rs, s)
   }"

text \<open>
  One exchange of an upload: the request and \<open>k\<close> copies of it reach the server, and the client gets the reply to number \<open>j\<close> of them.
\<close>

definition copies_exchange ::
  "(nat \<Rightarrow> u8) \<Rightarrow> 's server \<Rightarrow> nat \<times> nat \<Rightarrow> GG_CoapBlockwiseRequestContext \<Rightarrow> transfer \<Rightarrow> 's \<Rightarrow>
   (GG_CoapBlockwiseRequestContext option \<times> transfer \<times> 's) option" where
  "copies_exchange junk serve kj ctx e s = do {
     request \<leftarrow> tx_request e \<bind> received;
     (responses, s) \<leftarrow> replies serve (fst kj) request s;
     case responses ! snd kj of
       Inl _ \<Rightarrow> None
     | Inr response \<Rightarrow> do {
         response \<leftarrow> received response;
         (ctx, e) \<leftarrow> GG_CoapBlockwiseRequestContext_OnResponse (transfer_env junk) response ctx e;
         Some (ctx, e, s)
       }
   }"

fun copies_run ::
  "(nat \<Rightarrow> u8) \<Rightarrow> 's server \<Rightarrow> (nat \<times> nat) list \<Rightarrow> GG_CoapBlockwiseRequestContext option \<times> transfer \<times> 's \<Rightarrow>
   (GG_CoapBlockwiseRequestContext option \<times> transfer \<times> 's) option" where
  "copies_run junk serve [] st = Some st"
| "copies_run junk serve (kj # steps) (ctx, e, s) = (case ctx of
       None \<Rightarrow> Some (None, e, s)
     | Some ctx \<Rightarrow> copies_exchange junk serve kj ctx e s \<bind> copies_run junk serve steps)"

text \<open>The replies to a block other than the first are the same for all copies. Each copy of the first block starts a session.\<close>

lemma replies_upload:
  assumes r: "upload_request data i etag request" and lt: "i * 1024 < length data" and len: "length data \<le> 2 ^ 28 * 1024"
    and e: "etag_ok i etag" and s: "expecting data i etag s \<or> (\<exists>etag'. got data i etag' s \<and> (i \<noteq> 0 \<longrightarrow> etag' = etag))"
  shows "\<exists>rs etag' s'. replies (serve_upload junk random) k request s = Some (rs, s') \<and> got data i etag' s' \<and>
    (i \<noteq> 0 \<longrightarrow> etag' = etag) \<and>
    (\<forall>j \<le> k. i \<noteq> 0 \<or> j = k \<longrightarrow> (\<exists>response v. rs ! j = Inr response \<and>
      carries response (if (i + 1) * 1024 < length data then 95 else 68) [uint_param 27 v, opaque_param 4 etag'] [] \<and>
      block_info_of_value v = Inr \<lparr>block_offset = i * 1024, block_size = 1024, block_more = (i + 1) * 1024 < length data\<rparr>))"
  using s
proof (induction k arbitrary: s)
  case 0
  from serve_upload_block [OF r lt len e 0, of junk random] obtain response v etag' s' where
    1: "serve_upload junk random request s = Some (Inr response, s')" "got data i etag' s'" "i \<noteq> 0 \<longrightarrow> etag' = etag"
    "carries response (if (i + 1) * 1024 < length data then 95 else 68) [uint_param 27 v, opaque_param 4 etag'] []"
    "block_info_of_value v = Inr \<lparr>block_offset = i * 1024, block_size = 1024, block_more = (i + 1) * 1024 < length data\<rparr>" by blast
  show ?case by (rule exI [of _ "[Inr response]"], rule exI [of _ etag'], rule exI [of _ s']) (use 1 in auto)
next
  case (Suc k)
  from serve_upload_block [OF r lt len e Suc.prems, of junk random] obtain response v etag1 s1 where
    1: "serve_upload junk random request s = Some (Inr response, s1)" "got data i etag1 s1" "i \<noteq> 0 \<longrightarrow> etag1 = etag"
    "carries response (if (i + 1) * 1024 < length data then 95 else 68) [uint_param 27 v, opaque_param 4 etag1] []"
    "block_info_of_value v = Inr \<lparr>block_offset = i * 1024, block_size = 1024, block_more = (i + 1) * 1024 < length data\<rparr>" by blast
  then have "expecting data i etag s1 \<or> (\<exists>etag'. got data i etag' s1 \<and> (i \<noteq> 0 \<longrightarrow> etag' = etag))" by blast
  from Suc.IH [OF this] obtain rs etag' s' where
    2: "replies (serve_upload junk random) k request s1 = Some (rs, s')" "got data i etag' s'" "i \<noteq> 0 \<longrightarrow> etag' = etag"
    "\<And>j. j \<le> k \<Longrightarrow> i \<noteq> 0 \<or> j = k \<Longrightarrow> \<exists>response v. rs ! j = Inr response \<and>
      carries response (if (i + 1) * 1024 < length data then 95 else 68) [uint_param 27 v, opaque_param 4 etag'] [] \<and>
      block_info_of_value v = Inr \<lparr>block_offset = i * 1024, block_size = 1024, block_more = (i + 1) * 1024 < length data\<rparr>" by blast
  have "\<exists>response' v. (Inr response # rs) ! j = Inr response' \<and>
      carries response' (if (i + 1) * 1024 < length data then 95 else 68) [uint_param 27 v, opaque_param 4 etag'] [] \<and>
      block_info_of_value v = Inr \<lparr>block_offset = i * 1024, block_size = 1024, block_more = (i + 1) * 1024 < length data\<rparr>"
    if "j \<le> Suc k" "i \<noteq> 0 \<or> j = Suc k" for j
  proof (cases j)
    case 0
    then have "etag1 = etag'" using that 1(3) 2(3) by simp
    then show ?thesis using 0 1(4,5) by auto
  next
    case (Suc j')
    then show ?thesis using 2(4) [of j'] that by simp
  qed
  then show ?case using 1(1) 2(1-3) by (intro exI [of _ "Inr response # rs"] exI [of _ etag'] exI [of _ s']) simp
qed

section \<open>The client\<close>

definition uploading ::
  "GG_CoapBlockSource \<Rightarrow> bytes \<Rightarrow> GG_CoapMessageOption list \<Rightarrow> nat \<Rightarrow> bytes \<Rightarrow> GG_CoapBlockwiseRequestContext \<Rightarrow> bool" where
  "uploading src data options i etag ctx \<longleftrightarrow>
     block1_active ctx \<and> \<not> block2_active ctx \<and> \<not> paused ctx \<and> bw_listener ctx \<and> bw_etag ctx = etag \<and> etag_ok i etag \<and>
     payload_source ctx = Some src \<and> option_params ctx = options \<and> i * 1024 < length data \<and>
     block1_info ctx = \<lparr>block_offset = i * 1024, block_size = 1024, block_more = (i + 1) * 1024 < length data\<rparr> \<and>
     block1_payload_size ctx = min 1024 (length data - i * 1024) \<and>
     block_offset (block2_info ctx) = 0 \<and> block_valid (block2_info ctx)"

lemma OnResponse_continue:
  assumes "GG_CoapMessage_GetOption response 4 0 = Some opt" and "check_etag opt (ctx\<lparr>pending_request := 0\<rparr>) = Inr c"
    and "GG_CoapMessage_GetCode response = 95" and "GG_CoapMessage_GetBlockInfo response 27 0 = Some (Inr info)"
    and "payload_source c = Some src"
    and "GetDataSize src (block_offset (block1_info c) + block1_payload_size c) (min (block_size (block1_info c)) (block_size info))
      (block_more (block1_info c)) = (GG_SUCCESS, n, m)"
  shows "GG_CoapBlockwiseRequestContext_OnResponse C response ctx e =
    map_option (\<lambda>(_, self, e). (Some self, e)) (GG_CoapBlockwiseRequestContext_SendBlockwiseRequest C
      (c\<lparr>block1_info := (block1_info c)\<lparr>block_offset := block_offset (block1_info c) + block1_payload_size c,
          block_size := min (block_size (block1_info c)) (block_size info), block_more := m\<rparr>, block1_payload_size := n\<rparr>) e)"
  using assms
  by (simp add: GG_CoapBlockwiseRequestContext_OnResponse_def message_codes GG_CoapBlockwiseRequestContext_OnContinueResponse_def Let_def)

context coap_block_source
begin

lemma SendBlockwiseRequest_block1:
  assumes u: "uploading src resource options i etag ctx" and len: "length resource \<le> 2 ^ 28 * 1024"
    and opts: "\<forall>opt \<in> set options. param_ok opt \<and> option_number opt \<noteq> 1"
  shows "\<exists>m h. GG_CoapBlockwiseRequestContext_SendBlockwiseRequest (transfer_env junk) ctx e =
      Some (GG_SUCCESS, ctx\<lparr>pending_request := h\<rparr>, e\<lparr>tx_counter := tx_counter e + 1, tx_request := Some m\<rparr>) \<and>
    upload_request resource i etag m"
proof -
  let ?data = "take 1024 (drop (i * 1024) resource)"
  from u have u': "block1_active ctx" "\<not> paused ctx" "bw_etag ctx = etag" "etag_ok i etag" "payload_source ctx = Some src"
    "option_params ctx = options" "i * 1024 < length resource"
    "block1_info ctx = \<lparr>block_offset = i * 1024, block_size = 1024, block_more = (i + 1) * 1024 < length resource\<rparr>"
    "block1_payload_size ctx = min 1024 (length resource - i * 1024)" "block_valid (block2_info ctx)"
    by (auto simp: uploading_def)
  have "i < 2 ^ 28" using u'(7) len by auto
  then have "block_valid (block1_info ctx)" by (simp add: u'(8) block_valid_def)
  from option_value_round_trip [OF this] obtain v where
    v: "GG_CoapMessageBlockInfo_ToOptionValue (block1_info ctx) = Inr v" "block_info_of_value v = Inr (block1_info ctx)" by blast
  from option_value_round_trip [OF u'(10)] obtain w where
    w: "GG_CoapMessageBlockInfo_ToOptionValue (block2_info ctx) = Inr w" by blast
  let ?b2 = "if wants_block2 ctx then [uint_param 23 w] else []"
  let ?tag = "if etag \<noteq> [] then [opaque_param 1 etag] else []"
  let ?opts = "uint_param 27 v # ?b2 @ ?tag @ options"
  have bo: "block_options ctx = Some (uint_param 27 v # ?b2 @ ?tag)"
    using u'(1,3) v(1) w by (simp add: block_options_def option_value_or_def)
  have n: "block1_payload_size ctx \<noteq> 0" "i * 1024 + block1_payload_size ctx \<le> length resource" "length ?data = block1_payload_size ctx"
    using u'(7,9) by auto
  have "GG_CoapBlockwiseRequestContext_GetData ctx = Some ?data"
    using n u'(5,8) data_bytes [OF n(2)] u'(9)
    by (auto simp: GG_CoapBlockwiseRequestContext_GetData_def memcpy_at_def subarray_def min_def)
  moreover have "\<forall>opt \<in> set ?opts. param_ok opt"
    using opts u'(4) by (auto simp: uint_param_ok opaque_param_ok etag_ok_def split: if_splits)
  from SendRequest_carries [OF this, of junk "bw_method ctx" ?data "client_parameters ctx" e] obtain m where
    m: "SendRequest (transfer_env junk) (bw_method ctx) ?opts ?data (client_parameters ctx) e =
      (GG_SUCCESS, Some (tx_counter e + 1), e\<lparr>tx_counter := tx_counter e + 1, tx_request := Some m\<rparr>)"
    "carries m (bw_method ctx) ?opts ?data" by blast
  ultimately have sent: "GG_CoapBlockwiseRequestContext_SendBlockwiseRequest (transfer_env junk) ctx e =
      Some (GG_SUCCESS, ctx\<lparr>pending_request := tx_counter e + 1\<rparr>, e\<lparr>tx_counter := tx_counter e + 1, tx_request := Some m\<rparr>)"
    using u'(1,2,6) bo m(1) by (simp add: GG_CoapBlockwiseRequestContext_SendBlockwiseRequest_def)
  have "GG_CoapMessage_GetBlockInfo m 27 1024 = Some (Inr (block1_info ctx))"
    using GetBlockInfo_carries [OF m(2), of 27 1024] v(2) by simp
  moreover have "first_option 1 ?opts = (if etag = [] then Inl GG_ERROR_NO_SUCH_ITEM
       else Inr \<lparr>option_number = 1, option_value = GG_COAP_MESSAGE_OPTION_TYPE_OPAQUE etag\<rparr>)"
    using first_option_none [of options 1] opts by simp
  then have "GG_CoapMessage_GetOption m 1 0 = Some (if etag = [] then Inl GG_ERROR_NO_SUCH_ITEM
       else Inr \<lparr>option_number = 1, option_value = GG_COAP_MESSAGE_OPTION_TYPE_OPAQUE etag\<rparr>)"
    using m(2) by (simp add: carries_def)
  ultimately have "upload_request resource i etag m" using m(2) u'(8) unfolding upload_request_def by metis
  with sent show ?thesis by blast
qed

lemma upload_step:
  assumes u: "uploading src resource options i etag ctx" and len: "length resource \<le> 2 ^ 28 * 1024"
    and opts: "\<forall>opt \<in> set options. param_ok opt \<and> option_number opt \<noteq> 1"
    and e: "tx_request e = Some request" "upload_request resource i etag request" and s: "expecting resource i etag s"
    and kj: "j \<le> k" "i \<noteq> 0 \<or> j = k"
  shows "\<exists>ctx' e' s'. copies_exchange junk (serve_upload junk random) (k, j) ctx e s = Some (ctx', e', s') \<and> tx_errors e' = tx_errors e \<and>
    (if (i + 1) * 1024 < length resource
     then \<exists>c etag' m. ctx' = Some c \<and> uploading src resource options (i + 1) etag' c \<and> expecting resource (i + 1) etag' s' \<and>
       tx_request e' = Some m \<and> upload_request resource (i + 1) etag' m
     else ctx' = None \<and> up_data s' = resource)"
proof -
  let ?more = "(i + 1) * 1024 < length resource"
  from u have u': "block1_active ctx" "\<not> block2_active ctx" "bw_listener ctx" "bw_etag ctx = etag" "etag_ok i etag"
    "payload_source ctx = Some src" "i * 1024 < length resource"
    "block1_info ctx = \<lparr>block_offset = i * 1024, block_size = 1024, block_more = ?more\<rparr>"
    "block1_payload_size ctx = min 1024 (length resource - i * 1024)" "block_offset (block2_info ctx) = 0"
    by (auto simp: uploading_def)
  from replies_upload [OF e(2) u'(7) len u'(5), of s junk random k] s kj obtain rs response v etag' s' where
    r: "replies (serve_upload junk random) k request s = Some (rs, s')" "got resource i etag' s'" "i \<noteq> 0 \<longrightarrow> etag' = etag"
    "carries response (if ?more then 95 else 68) [uint_param 27 v, opaque_param 4 etag'] []"
    "block_info_of_value v = Inr (block1_info ctx)" "rs ! j = Inr response" unfolding u'(8) by blast
  have tag: "etag' \<noteq> []" "length etag' \<le> 8" using r(2) by (auto simp: got_def)
  let ?c1 = "ctx\<lparr>pending_request := 0, bw_etag := etag'\<rparr>"
  have c: "check_etag (Inr \<lparr>option_number = 4, option_value = GG_COAP_MESSAGE_OPTION_TYPE_OPAQUE etag'\<rparr>) (ctx\<lparr>pending_request := 0\<rparr>) = Inr ?c1"
    using tag r(3) u'(4,5) by (cases ctx; cases "i = 0") (auto simp: check_etag_def opaque_bytes_def etag_ok_def)
  have o: "GG_CoapMessage_GetOption response 4 0 = Some (Inr \<lparr>option_number = 4, option_value = GG_COAP_MESSAGE_OPTION_TYPE_OPAQUE etag'\<rparr>)"
    "GG_CoapMessage_GetCode response = (if ?more then 95 else 68)"
    "GG_CoapMessage_GetBlockInfo response 27 0 = Some (Inr (block1_info ctx))"
    "GG_CoapMessage_GetBlockInfo response 23 0 = Some (Inl GG_ERROR_NO_SUCH_ITEM)"
    using r(4,5) GetBlockInfo_carries [OF r(4), of 27 0] GetBlockInfo_carries [OF r(4), of 23 0] by (simp_all add: carries_def)
  obtain code ropts where "carries request code ropts (take 1024 (drop (i * 1024) resource))" using e(2) by (auto simp: upload_request_def)
  then have x: "copies_exchange junk (serve_upload junk random) (k, j) ctx e s =
      map_option (\<lambda>(c, e). (c, e, s')) (GG_CoapBlockwiseRequestContext_OnResponse (transfer_env junk) response ctx e)"
    using e(1) r(1,6) received_carries r(4)
    by (simp add: copies_exchange_def case_prod_unfold Option.map_conv_bind_option comp_def)
  show ?thesis
  proof (cases ?more)
    case True
    let ?n = "min 1024 (length resource - (i + 1) * 1024)" and ?m = "(i + 2) * 1024 < length resource"
    let ?c2 = "?c1\<lparr>block1_info := \<lparr>block_offset = (i + 1) * 1024, block_size = 1024, block_more = ?m\<rparr>, block1_payload_size := ?n\<rparr>"
    have c2: "uploading src resource options (i + 1) etag' ?c2"
      using u tag True by (simp add: uploading_def etag_ok_def)
    from SendBlockwiseRequest_block1 [OF c2 len opts, of junk e] obtain m h where
      m: "GG_CoapBlockwiseRequestContext_SendBlockwiseRequest (transfer_env junk) ?c2 e =
      Some (GG_SUCCESS, ?c2\<lparr>pending_request := h\<rparr>, e\<lparr>tx_counter := tx_counter e + 1, tx_request := Some m\<rparr>)"
      "upload_request resource (i + 1) etag' m" by blast
    have off: "block_offset (block1_info ctx) + block1_payload_size ctx = (i + 1) * 1024" using True u'(8,9) by simp
    have m2: "(i + 1) * 1024 + 1024 = (i + 2) * 1024" by simp
    have "GetDataSize src ((i + 1) * 1024) 1024 ?more = (GG_SUCCESS, ?n, ?m)"
      using data_size [OF True, of 1024 ?more] unfolding m2 .
    moreover have "GG_CoapMessage_GetCode response = 95" using o(2) True by simp
    ultimately have "GG_CoapBlockwiseRequestContext_OnResponse (transfer_env junk) response ctx e =
      Some (Some (?c2\<lparr>pending_request := h\<rparr>), e\<lparr>tx_counter := tx_counter e + 1, tx_request := Some m\<rparr>)"
      using OnResponse_continue [OF o(1) c _ o(3), of src ?n ?m "transfer_env junk" e] u'(6) off m(1) u'(8)
      by (simp del: mult_Suc mult_Suc_right)
    moreover have "expecting resource (i + 1) etag' s'" using r(2) True by (simp add: got_def expecting_def)
    moreover have "uploading src resource options (i + 1) etag' (?c2\<lparr>pending_request := h\<rparr>)" using c2 by (simp add: uploading_def)
    ultimately show ?thesis using True x m(2) by auto
  next
    case False
    let ?e1 = "e\<lparr>tx_blocks := tx_blocks e @ [(\<lparr>block_offset = 0, block_size = block_size (block2_info ctx), block_more = False\<rparr>, [])]\<rparr>"
    have "GG_CoapBlockwiseRequestContext_OnResponse (transfer_env junk) response ctx e = Some (None, ?e1)"
      using False o c u'(2,3,10) payload_of_carries [OF r(4)]
      by (simp add: GG_CoapBlockwiseRequestContext_OnResponse_def message_codes after_block_def
          GG_CoapBlockwiseRequestContext_OnResponseWithFinalResponseCode_def response_block_def transfer_env_def react_def
          GG_CoapBlockwiseRequestContext_Destroy_def)
    moreover have "up_data s' = resource" using r(2) False by (simp add: got_def)
    ultimately show ?thesis using False x by auto
  qed
qed

lemma upload_run:
  assumes "uploading src resource options i etag ctx" and len: "length resource \<le> 2 ^ 28 * 1024"
    and opts: "\<forall>opt \<in> set options. param_ok opt \<and> option_number opt \<noteq> 1"
    and "tx_request e = Some request" "upload_request resource i etag request" and "expecting resource i etag s"
    and "length resource \<le> (i + length steps) * 1024"
    and "\<forall>kj \<in> set steps. snd kj \<le> fst kj" and "i = 0 \<longrightarrow> snd (hd steps) = fst (hd steps)"
  shows "\<exists>e' s'. copies_run junk (serve_upload junk random) steps (Some ctx, e, s) = Some (None, e', s') \<and>
    up_data s' = resource \<and> tx_errors e' = tx_errors e"
  using assms(1,4-)
proof (induction steps arbitrary: i etag ctx e request s)
  case Nil
  then show ?case by (auto simp: uploading_def)
next
  case (Cons kj steps)
  have kj: "snd kj \<le> fst kj" "i \<noteq> 0 \<or> snd kj = fst kj" using Cons.prems(6,7) by auto
  from upload_step [OF Cons.prems(1) len opts Cons.prems(2-4) kj, of junk random] obtain ctx' e' s' where
    st: "copies_exchange junk (serve_upload junk random) kj ctx e s = Some (ctx', e', s')" "tx_errors e' = tx_errors e"
    "if (i + 1) * 1024 < length resource
     then \<exists>c etag' m. ctx' = Some c \<and> uploading src resource options (i + 1) etag' c \<and> expecting resource (i + 1) etag' s' \<and>
       tx_request e' = Some m \<and> upload_request resource (i + 1) etag' m
     else ctx' = None \<and> up_data s' = resource" by auto
  show ?case
  proof (cases "(i + 1) * 1024 < length resource")
    case True
    with st(3) obtain c etag' m where c: "ctx' = Some c" "uploading src resource options (i + 1) etag' c"
      "tx_request e' = Some m" "upload_request resource (i + 1) etag' m" "expecting resource (i + 1) etag' s'" by auto
    from Cons.IH [OF c(2-5)] Cons.prems(5,6) st(1,2) c(1) show ?thesis by simp
  next
    case False
    with st show ?thesis by (cases steps) simp_all
  qed
qed

lemma upload_start:
  assumes ok: "length options \<le> 1024" "\<forall>opt \<in> set options. param_ok opt \<and> option_number opt \<noteq> 1"
    and bs: "valid_block_size preferred" and ne: "resource \<noteq> []" and len: "length resource \<le> 2 ^ 28 * 1024"
    and meth: "meth = 2 \<or> meth = 3"
  shows "\<exists>ctx e' self' m. GG_CoapEndpoint_SendBlockwiseRequest (transfer_env junk) meth options (Some src) preferred params True self e =
      Some (GG_SUCCESS, Some (blockwise_request_handle_base self), self', e') \<and>
    blockwise_requests self' = blockwise_requests self @ [ctx] \<and> tx_errors e' = tx_errors e \<and>
    uploading src resource (map clone_option options) 0 [] ctx \<and> tx_request e' = Some m \<and> upload_request resource 0 [] m"
proof -
  let ?opts = "map clone_option options"
  let ?ctx = "initial_context (blockwise_request_handle_base self) meth ?opts (Some src) preferred params True"
  have p: "\<forall>opt \<in> set options. param_ok opt" using ok(2) by blast
  have p': "\<forall>opt \<in> set ?opts. param_ok opt \<and> option_number opt \<noteq> 1"
    using ok(2) clone_option_ok by auto
  have "GetDataSize src 0 1024 False = (GG_SUCCESS, min 1024 (length resource), 1024 < length resource)"
    using data_size [of 0 1024 False] ne by simp
  then have ctx: "uploading src resource ?opts 0 [] ?ctx"
    using meth bs ne by (auto simp: initial_context_def uploading_def etag_ok_def valid_block_size_def block_valid_def)
  from SendBlockwiseRequest_block1 [OF this len p', of junk e] obtain m h where
    m: "GG_CoapBlockwiseRequestContext_SendBlockwiseRequest (transfer_env junk) ?ctx e =
      Some (GG_SUCCESS, ?ctx\<lparr>pending_request := h\<rparr>, e\<lparr>tx_counter := tx_counter e + 1, tx_request := Some m\<rparr>)"
      "upload_request resource 0 [] m" by blast
  have "uploading src resource ?opts 0 [] (?ctx\<lparr>pending_request := h\<rparr>)" using ctx by (simp add: uploading_def)
  with m CloneOptions_ok [OF ok(1) p] meth show ?thesis
    by (auto simp: GG_CoapEndpoint_SendBlockwiseRequest_def Let_def)
qed

end

text \<open>
  C23: A blockwise upload is exact: a PUT or POST request whose payload is in memory, against a server that collects the
  new blocks its helper reports, ends after one exchange per block of 1024 bytes; the server then holds exactly the
  data, and the listener was told of no error. In each exchange \<open>(k, j)\<close> of \<open>steps\<close> the request and \<open>k\<close> copies of it reach the server
  and the client gets the reply to one of them, number \<open>j\<close>; for the first block it must be the last one, since each copy of the
  first block starts a new session (\<open>first_reply_refused\<close> shows what happens otherwise). The server may be in any state in which it is \<open>ready\<close>
  for a new upload: all but the one after an upload of a single block.
\<close>

theorem coap_blockwise_upload:
  assumes "data \<noteq> []" and "length data \<le> 2 ^ 28 * 1024" and "valid_block_size preferred"
    and "meth = GG_COAP_METHOD_PUT \<or> meth = GG_COAP_METHOD_POST"
    and "length options \<le> 1024" and "\<forall>opt \<in> set options. param_ok opt \<and> option_number opt \<noteq> 1"
    and "ready s" and "length data \<le> length steps * 1024"
    and "\<forall>kj \<in> set steps. snd kj \<le> fst kj" and "snd (hd steps) = fst (hd steps)"
  shows "\<exists>ctx e1 self'. GG_CoapEndpoint_SendBlockwiseRequest (transfer_env junk) meth options (Some (MemSource data)) preferred params True self e =
      Some (GG_SUCCESS, Some (blockwise_request_handle_base self), self', e1) \<and>
    blockwise_requests self' = blockwise_requests self @ [ctx] \<and>
    (\<exists>e2 s2. copies_run junk (serve_upload junk random) steps (Some ctx, e1, s) = Some (None, e2, s2) \<and>
      up_data s2 = data \<and> tx_errors e2 = tx_errors e)"
proof -
  have "meth = 2 \<or> meth = 3" using assms(4) by auto
  from mem.upload_start [OF assms(5,6,3,1,2) this, of junk params self e] obtain ctx e1 self' m where
    st: "GG_CoapEndpoint_SendBlockwiseRequest (transfer_env junk) meth options (Some (MemSource data)) preferred params True self e =
      Some (GG_SUCCESS, Some (blockwise_request_handle_base self), self', e1)"
    "blockwise_requests self' = blockwise_requests self @ [ctx]" "tx_errors e1 = tx_errors e"
    "uploading (MemSource data) data (map clone_option options) 0 [] ctx" "tx_request e1 = Some m" "upload_request data 0 [] m" by blast
  have o: "\<forall>opt \<in> set (map clone_option options). param_ok opt \<and> option_number opt \<noteq> 1"
    using assms(6) clone_option_ok by auto
  have "expecting data 0 [] s" using assms(7) by (simp add: expecting_def ready_def)
  from mem.upload_run [OF st(4) assms(2) o st(5,6) this, of steps junk random] assms(8-10) st(1-3) show ?thesis by auto
qed

theorem coap_blockwise_upload_witness:
  "\<exists>h ctx e1 self' e2 s2. Handler1_Init = Some h \<and>
    GG_CoapEndpoint_SendBlockwiseRequest (transfer_env (\<lambda>_. 0)) GG_COAP_METHOD_PUT [] (Some (MemSource (replicate 3000 7))) 0 None True
      \<lparr>blockwise_requests = [], blockwise_request_handle_base = 1\<rparr>
      \<lparr>tx_counter = 0, tx_request = None, tx_blocks = [], tx_errors = []\<rparr> = Some (GG_SUCCESS, Some 1, self', e1) \<and>
    blockwise_requests self' = [ctx] \<and>
    copies_run (\<lambda>_. 0) (serve_upload (\<lambda>_. 0) (\<lambda>i. [of_nat i])) [(1, 1), (2, 0), (2, 1)]
      (Some ctx, e1, \<lparr>up_handler = h, up_count = 0, up_data = []\<rparr>) = Some (None, e2, s2) \<and>
    up_data s2 = replicate 3000 7 \<and> tx_errors e2 = []"
proof -
  obtain h where h: "Handler1_Init = Some h" "ready \<lparr>up_handler = h, up_count = 0, up_data = []\<rparr>"
    by (simp add: Handler1_Init_def GG_CoapBlockwiseServerHelper_Init_def ready_def server_ok_def)
  from coap_blockwise_upload [OF _ _ _ _ _ _ h(2), of "replicate 3000 7" 0 GG_COAP_METHOD_PUT "[]" "[(1, 1), (2, 0), (2, 1)]" "\<lambda>_. 0" None
      "\<lparr>blockwise_requests = [], blockwise_request_handle_base = 1\<rparr>"
      "\<lparr>tx_counter = 0, tx_request = None, tx_blocks = [], tx_errors = []\<rparr>" "\<lambda>i. [of_nat i]"] h(1)
  show ?thesis by (auto simp: valid_block_size_def)
qed

section \<open>Where the code does less than it promises\<close>

text \<open>
  A helper that has received an upload of a single block does not take another one: a first block that is followed by
  others is refused with 4.02, and one that is the last is taken for a copy of the request before it.
\<close>

lemma single_block_upload_blocks:
  assumes "block_info h = \<lparr>block_offset = 0, block_size = sz, block_more = False\<rparr>" "next_offset h = 0" "\<not> transfer_done h"
    and "h1 = snd (snd (on_block1 n h))"
  shows "on_block1 n' (h1\<lparr>block_info := \<lparr>block_offset = 0, block_size = sz', block_more = True\<rparr>\<rparr>) =
      (GG_COAP_RESULT 130, False, h1\<lparr>block_info := \<lparr>block_offset = 0, block_size = sz', block_more = True\<rparr>\<rparr>)"
    and "on_block1 n' (h1\<lparr>block_info := \<lparr>block_offset = 0, block_size = sz', block_more = False\<rparr>\<rparr>) =
      (GG_SUCCESS, True, h1\<lparr>block_info := \<lparr>block_offset = 0, block_size = sz', block_more = False\<rparr>\<rparr>)"
  using assms by (simp_all add: on_block1_def GG_COAP_MESSAGE_CODE_def)

text \<open>
  After a copy of the first block the helper has another ETag than the one in the reply to the first copy. A next block that
  carries the old one is refused with 4.12.
\<close>

lemma first_reply_refused:
  assumes "GG_CoapMessage_GetBlockInfo request 27 (helper_block_size h) = Some (Inr info)" and "block_type h = 27"
    and "GG_CoapMessage_GetOption request 1 0 =
      Some (Inr \<lparr>option_number = 1, option_value = GG_COAP_MESSAGE_OPTION_TYPE_OPAQUE etag\<rparr>)"
    and "etag \<noteq> helper_etag h" and "length etag \<le> 8"
  shows "\<exists>h'. GG_CoapBlockwiseServerHelper_OnRequest request h = Some (GG_COAP_RESULT (GG_COAP_MESSAGE_CODE 412), False, h')"
  using assms by (simp add: GG_CoapBlockwiseServerHelper_OnRequest_def check_if_match_def opaque_bytes_def)

text \<open>Resuming a paused request leaves it paused and sends nothing.\<close>

lemma resume_does_nothing:
  assumes "find_context h self = Some ctx" and "paused ctx"
  shows "GG_CoapEndpoint_ResumeBlockwiseRequest C h self e =
    Some (GG_SUCCESS, self\<lparr>blockwise_requests := replace_context h (Some ctx) (blockwise_requests self)\<rparr>, e)"
  using assms
  by (simp add: GG_CoapEndpoint_ResumeBlockwiseRequest_def GG_CoapEndpoint_SetBlockwiseRequestPausedState_def
      GG_CoapBlockwiseRequestContext_SendBlockwiseRequest_def)

text \<open>A peer that answers 2.31 with a BLOCK1 option to a request that has no source makes the client stop.\<close>

lemma continue_without_source:
  assumes "GG_CoapMessage_GetBlockInfo response 27 0 = Some (Inr info)" and "payload_source ctx = None"
  shows "GG_CoapBlockwiseRequestContext_OnContinueResponse C response ctx e = None"
  using assms by (simp add: GG_CoapBlockwiseRequestContext_OnContinueResponse_def)

text \<open>A preferred size that is no block size is never refused: the option would be sent with a value that was never set.\<close>

lemma invalid_block_size_not_refused:
  "GG_CoapEndpoint_SendBlockwiseRequest C GG_COAP_METHOD_GET [] None 100 params has_listener self e = None"
proof -
  have "GG_CoapMessageBlockInfo_ToOptionValue \<lparr>block_offset = 0, block_size = 100, block_more = False\<rparr> = Inl GG_ERROR_INVALID_PARAMETERS"
    by code_simp
  then show ?thesis
    by (simp add: GG_CoapEndpoint_SendBlockwiseRequest_def GG_Coap_CloneOptions_def initial_context_def Let_def wants_block2_def
        GG_CoapBlockwiseRequestContext_SendBlockwiseRequest_def block_options_def option_value_or_def
        GG_COAP_MESSAGE_MAX_OPTION_COUNT_def)
qed

end
