(* ===== verification/Coap_Endpoint.thy ===== *)
theory Coap_Endpoint
  imports Coap_Blockwise_Client Timer
begin

text \<open>
  The CoAP endpoint (\<^verbatim>\<open>xp/coap/gg_coap_endpoint.c\<close>): the requests of a client with their retransmission
  timers, the matching of responses, the dispatch of requests to handlers and filters, and the queue of responses
  that wait for the transport.

  The objects around an endpoint are numbers (sinks, sources, listeners, handlers, filters), and their methods
  are the functions of the record \<open>GG_CoapCallbacks\<close>. The methods of listeners and handlers take the whole
  endpoint, because they may call it; a sink or filter only changes its own state \<open>app\<close>. A request context is named
  by the number \<open>request_ptr\<close>, its address, which is what its timer refers to. The linked list of requests is a list;
  a loop over it under the lock is a loop over its indices, because nothing is removed while the list is locked.
  An operation yields \<open>None\<close> where the code fails an assertion, follows a dangling pointer or does not return.
  Allocation failures are not modelled, except for the timers, which come from a fixed pool.
\<close>

section \<open>State\<close>

datatype GG_CoapRequestState =
    GG_COAP_REQUEST_STATE_READY_TO_SEND
  | GG_COAP_REQUEST_STATE_WAITING_FOR_ACK
  | GG_COAP_REQUEST_STATE_ACKED
  | GG_COAP_REQUEST_STATE_CANCELLED

record GG_CoapRequestContext =
  request_ptr :: nat
  request_handle :: u64
  request_message :: GG_CoapMessage
  request_state :: GG_CoapRequestState
  resend_timer :: "nat option"
  resend_timeout :: u32
  resend_count :: u8
  max_resends :: u8
  request_listener :: nat

record GG_SocketAddress =
  ip_address :: bytes
  ip_port :: u16

datatype GG_BufferMetadata =
    GG_BUFFER_METADATA_TYPE_SOURCE_SOCKET_ADDRESS GG_SocketAddress
  | GG_BUFFER_METADATA_TYPE_DESTINATION_SOCKET_ADDRESS GG_SocketAddress
  | GG_BUFFER_METADATA_OTHER nat

record GG_CoapRequestHandlerNode =
  handler_path :: bytes
  handler_flags :: u32
  handler_object :: nat

record GG_CoapResponder =
  responder_request :: GG_CoapMessage
  responder_metadata :: "GG_BufferMetadata option"

record 'e GG_CoapEndpoint =
  sink_listener :: "nat option"
  connection_sink :: "nat option"
  connection_source :: "nat option"
  timer_scheduler :: GG_TimerScheduler
  requests :: "GG_CoapRequestContext list"
  token_prefix :: bytes
  token_counter :: u64
  message_id_counter :: u16
  handlers :: "GG_CoapRequestHandlerNode list"
  default_handler :: "nat option"
  request_filters :: "nat list"
  locked :: bool
  responses :: "(bytes \<times> GG_BufferMetadata option) list"
  responses_cursor :: nat
  responses_count :: nat
  try_responses_first :: bool
  next_ptr :: nat
  app :: 'e

record 'e GG_CoapCallbacks =
  GG_DataSink_PutData :: "nat \<Rightarrow> bytes \<Rightarrow> GG_BufferMetadata option \<Rightarrow> 'e \<Rightarrow> GG_Result \<times> 'e"
  GG_DataSink_SetListener :: "nat \<Rightarrow> bool \<Rightarrow> 'e \<Rightarrow> 'e"
  GG_DataSource_SetDataSink :: "nat \<Rightarrow> bool \<Rightarrow> 'e \<Rightarrow> 'e"
  GG_CoapResponseListener_OnAck :: "nat \<Rightarrow> 'e GG_CoapEndpoint \<Rightarrow> 'e GG_CoapEndpoint option"
  GG_CoapResponseListener_OnError :: "nat \<Rightarrow> GG_Result \<Rightarrow> 'e GG_CoapEndpoint \<Rightarrow> 'e GG_CoapEndpoint option"
  GG_CoapResponseListener_OnResponse :: "nat \<Rightarrow> GG_CoapMessage \<Rightarrow> 'e GG_CoapEndpoint \<Rightarrow> 'e GG_CoapEndpoint option"
  GG_CoapRequestHandler_OnRequest :: "nat \<Rightarrow> GG_CoapMessage \<Rightarrow> GG_CoapResponder option \<Rightarrow> GG_BufferMetadata option \<Rightarrow>
    'e GG_CoapEndpoint \<Rightarrow> (GG_Result \<times> GG_CoapMessage option \<times> 'e GG_CoapEndpoint) option"
  GG_CoapRequestFilter_FilterRequest :: "nat \<Rightarrow> u32 \<Rightarrow> GG_CoapMessage \<Rightarrow> 'e \<Rightarrow> GG_Result \<times> GG_CoapMessage option \<times> 'e"
  GG_GetRandomInteger :: "'e \<Rightarrow> u32 \<times> 'e"
  allocated_memory :: "nat \<Rightarrow> u8"

definition GG_COAP_ACK_TIMEOUT_MS :: nat where
  "GG_COAP_ACK_TIMEOUT_MS = 5000"

definition GG_COAP_DEFAULT_MAX_RETRANSMIT :: u8 where
  "GG_COAP_DEFAULT_MAX_RETRANSMIT = 4"

definition GG_CONFIG_COAP_RESPONSE_QUEUE_LENGTH :: nat where
  "GG_CONFIG_COAP_RESPONSE_QUEUE_LENGTH = 16"

definition GG_COAP_INVALID_REQUEST_HANDLE :: u64 where
  "GG_COAP_INVALID_REQUEST_HANDLE = 0"

text \<open>The index of the first element with a property, which a loop over a list finds.\<close>

fun find_index :: "('a \<Rightarrow> bool) \<Rightarrow> 'a list \<Rightarrow> nat option" where
  "find_index P [] = None"
| "find_index P (x # xs) = (if P x then Some 0 else map_option Suc (find_index P xs))"

definition set_request :: "nat \<Rightarrow> GG_CoapRequestContext \<Rightarrow> 'e GG_CoapEndpoint \<Rightarrow> 'e GG_CoapEndpoint" where
  "set_request i ctx self = self\<lparr>requests := (requests self)[i := ctx]\<rparr>"

section \<open>Request contexts\<close>

definition GG_CoapRequestContext_Destroy :: "GG_CoapRequestContext \<Rightarrow> 'e GG_CoapEndpoint \<Rightarrow> 'e GG_CoapEndpoint" where
  "GG_CoapRequestContext_Destroy ctx self =
     self\<lparr>timer_scheduler := GG_Timer_Destroy (resend_timer ctx) (timer_scheduler self)\<rparr>"

text \<open>The context at an index of the list.\<close>

definition GG_CoapRequestContext_Cancel :: "nat \<Rightarrow> 'e GG_CoapEndpoint \<Rightarrow> 'e GG_CoapEndpoint" where
  "GG_CoapRequestContext_Cancel i self =
     (let ctx = requests self ! i
      in if locked self then set_request i (ctx\<lparr>request_state := GG_COAP_REQUEST_STATE_CANCELLED\<rparr>) self
         else GG_CoapRequestContext_Destroy ctx
                (self\<lparr>requests := take i (requests self) @ drop (i + 1) (requests self)\<rparr>))"

definition GG_CoapEndpoint_CancelRequest :: "u64 \<Rightarrow> 'e GG_CoapEndpoint \<Rightarrow> GG_Result \<times> 'e GG_CoapEndpoint" where
  "GG_CoapEndpoint_CancelRequest h self =
     (case find_index (\<lambda>ctx. request_handle ctx = h) (requests self) of
        None \<Rightarrow> (GG_ERROR_NO_SUCH_ITEM, self)
      | Some i \<Rightarrow> (GG_SUCCESS, GG_CoapRequestContext_Cancel i self))"

definition GG_CoapRequestContext_NotifyErrorAndTerminate ::
  "'e GG_CoapCallbacks \<Rightarrow> GG_Result \<Rightarrow> GG_CoapRequestContext \<Rightarrow> 'e GG_CoapEndpoint \<Rightarrow> 'e GG_CoapEndpoint option" where
  "GG_CoapRequestContext_NotifyErrorAndTerminate C err ctx self = do {
     self \<leftarrow> GG_CoapResponseListener_OnError C (request_listener ctx) err self;
     Some (snd (GG_CoapEndpoint_CancelRequest (request_handle ctx) self))
   }"

definition GG_CoapRequestContext_TryToSend ::
  "'e GG_CoapCallbacks \<Rightarrow> nat \<Rightarrow> 'e GG_CoapEndpoint \<Rightarrow> (GG_Result \<times> 'e GG_CoapEndpoint) option" where
  "GG_CoapRequestContext_TryToSend C i self =
     (let ctx = requests self ! i
      in case connection_sink self of
           None \<Rightarrow> Some (GG_SUCCESS, self)
         | Some sink \<Rightarrow>
             if request_state ctx \<noteq> GG_COAP_REQUEST_STATE_READY_TO_SEND then Some (GG_SUCCESS, self)
             else
               let (result, e) = GG_DataSink_PutData C sink (GG_CoapMessage_ToDatagram (request_message ctx)) None (app self);
                   self = self\<lparr>app := e\<rparr>
               in if result = GG_ERROR_WOULD_BLOCK then Some (result, self)
                  else if GG_FAILED result
                  then map_option (Pair GG_SUCCESS)
                         (GG_CoapRequestContext_NotifyErrorAndTerminate C GG_ERROR_COAP_SEND_FAILURE ctx self)
                  else Some (result, set_request i (ctx\<lparr>request_state := GG_COAP_REQUEST_STATE_WAITING_FOR_ACK\<rparr>) self))"

definition GG_CoapEndpoint_CleanupCancelledRequests :: "'e GG_CoapEndpoint \<Rightarrow> 'e GG_CoapEndpoint option" where
  "GG_CoapEndpoint_CleanupCancelledRequests self = do {
     GG_ASSERT (\<not> locked self);
     let cancelled = (\<lambda>ctx. request_state ctx = GG_COAP_REQUEST_STATE_CANCELLED);
     Some (fold GG_CoapRequestContext_Destroy (filter cancelled (requests self))
       (self\<lparr>requests := filter (\<lambda>ctx. \<not> cancelled ctx) (requests self)\<rparr>))
   }"

text \<open>
  The loop over the requests. The next node is looked up before the body, so a request that a callback appends is not
  visited when the current one was the last.
\<close>

partial_function (option) send_loop ::
  "'e GG_CoapCallbacks \<Rightarrow> nat \<Rightarrow> 'e GG_CoapEndpoint \<Rightarrow> 'e GG_CoapEndpoint option" where
  "send_loop C i self =
     (if i \<ge> length (requests self) then Some self
      else do {
        let is_last = (i + 1 = length (requests self));
        (result, self) \<leftarrow>
          (if request_state (requests self ! i) = GG_COAP_REQUEST_STATE_READY_TO_SEND
           then GG_CoapRequestContext_TryToSend C i self else Some (GG_SUCCESS, self));
        if result = GG_ERROR_WOULD_BLOCK \<or> is_last then Some self else send_loop C (i + 1) self
      })"

declare send_loop.simps [code]

definition unlock :: "bool \<Rightarrow> 'e GG_CoapEndpoint \<Rightarrow> 'e GG_CoapEndpoint option" where
  "unlock was_locked self =
     (if \<not> was_locked then GG_CoapEndpoint_CleanupCancelledRequests (self\<lparr>locked := False\<rparr>) else Some self)"

definition GG_CoapEndpoint_SendPendingRequests ::
  "'e GG_CoapCallbacks \<Rightarrow> 'e GG_CoapEndpoint \<Rightarrow> 'e GG_CoapEndpoint option" where
  "GG_CoapEndpoint_SendPendingRequests C self = do {
     let was_locked = locked self;
     self \<leftarrow> send_loop C 0 (self\<lparr>locked := True\<rparr>);
     unlock was_locked self
   }"

definition GG_CoapRequestContext_ScheduleTimer ::
  "GG_CoapRequestContext \<Rightarrow> 'e GG_CoapEndpoint \<Rightarrow> 'e GG_CoapEndpoint option" where
  "GG_CoapRequestContext_ScheduleTimer ctx self = map_option (\<lambda>t.
     self\<lparr>timer_scheduler := snd (GG_Timer_Schedule t (Some (request_ptr ctx)) (resend_timeout ctx) (timer_scheduler self))\<rparr>)
     (resend_timer ctx)"

definition GG_CoapRequestContext_OnTimerFired ::
  "'e GG_CoapCallbacks \<Rightarrow> nat \<Rightarrow> 'e GG_CoapEndpoint \<Rightarrow> 'e GG_CoapEndpoint option" where
  "GG_CoapRequestContext_OnTimerFired C ptr self = do {
     i \<leftarrow> find_index (\<lambda>ctx. request_ptr ctx = ptr) (requests self);
     let ctx = requests self ! i;
     if resend_count ctx < max_resends ctx
     then do {
       let ctx = ctx\<lparr>resend_timeout := resend_timeout ctx * 2, request_state := GG_COAP_REQUEST_STATE_READY_TO_SEND\<rparr>;
       self \<leftarrow> GG_CoapRequestContext_ScheduleTimer ctx self;
       let ctx = ctx\<lparr>resend_count := resend_count ctx + 1\<rparr>;
       GG_CoapEndpoint_SendPendingRequests C (set_request i ctx self)
     }
     else GG_CoapRequestContext_NotifyErrorAndTerminate C GG_ERROR_TIMEOUT ctx self
   }"

text \<open>
  A new context: its handle is the token counter after the token was taken, its timeout is the one of the client or a
  random one. The message is set by the caller.
\<close>

definition no_message :: GG_CoapMessage where
  "no_message = \<lparr>message_data = [], payload_offset = 0, payload_size = 0\<rparr>"

definition GG_CoapRequestContext_Create ::
  "'e GG_CoapCallbacks \<Rightarrow> nat \<Rightarrow> GG_CoapClientParameters option \<Rightarrow> 'e GG_CoapEndpoint \<Rightarrow>
   (GG_Result + GG_CoapRequestContext) \<times> 'e GG_CoapEndpoint" where
  "GG_CoapRequestContext_Create C listener_object params self =
     (let self = (if token_counter self = GG_COAP_INVALID_REQUEST_HANDLE
                  then self\<lparr>token_counter := token_counter self + 1\<rparr> else self);
          timeout = (case params of None \<Rightarrow> 0 | Some p \<Rightarrow> ack_timeout p);
          max_resend = (case params of None \<Rightarrow> GG_COAP_DEFAULT_MAX_RETRANSMIT | Some p \<Rightarrow> of_nat (max_resend_count p));
          random_range = of_nat (GG_COAP_ACK_TIMEOUT_MS div 2) :: u32;
          (timeout, self) =
            (if timeout = 0
             then let (r, e) = GG_GetRandomInteger C (app self)
                  in (ucast (ucast (of_nat GG_COAP_ACK_TIMEOUT_MS + r mod random_range) :: u16), self\<lparr>app := e\<rparr>)
             else (timeout, self));
          (result, timer, scheduler) = GG_TimerScheduler_CreateTimer (timer_scheduler self);
          self = self\<lparr>timer_scheduler := scheduler\<rparr>
      in if GG_FAILED result then (Inl result, self)
         else (Inr \<lparr>request_ptr = next_ptr self, request_handle = token_counter self, request_message = no_message,
                    request_state = GG_COAP_REQUEST_STATE_READY_TO_SEND, resend_timer = timer, resend_timeout = timeout,
                    resend_count = 0, max_resends = max_resend, request_listener = listener_object\<rparr>,
               self\<lparr>next_ptr := next_ptr self + 1\<rparr>))"

definition GG_CoapEndpoint_SendRequestFromBufferSource ::
  "'e GG_CoapCallbacks \<Rightarrow> u8 \<Rightarrow> GG_CoapMessageOption list \<Rightarrow> bytes \<Rightarrow> GG_CoapClientParameters option \<Rightarrow> nat \<Rightarrow>
   'e GG_CoapEndpoint \<Rightarrow> (GG_Result \<times> u64 option \<times> 'e GG_CoapEndpoint) option" where
  "GG_CoapEndpoint_SendRequestFromBufferSource C meth options payload params listener_object self = do {
     GG_ASSERT (length (token_prefix self) \<le> 4);
     let token = token_prefix self @ GG_BytesFromInt32Be (ucast (token_counter self));
     let self = self\<lparr>token_counter := token_counter self + 1\<rparr>;
     case GG_CoapRequestContext_Create C listener_object params self of
       (Inl err, self) \<Rightarrow> Some (err, None, self)
     | (Inr ctx, self) \<Rightarrow> do {
         let message_id = message_id_counter self;
         let self = self\<lparr>message_id_counter := message_id + 1\<rparr>;
         message \<leftarrow> create_request (allocated_memory C) meth options message_id token payload;
         case message of
           Inl err \<Rightarrow> Some (err, Some (request_handle ctx), GG_CoapRequestContext_Destroy ctx self)
         | Inr m \<Rightarrow> do {
             let ctx = ctx\<lparr>request_message := m\<rparr>;
             let self = self\<lparr>requests := requests self @ [ctx]\<rparr>;
             self \<leftarrow> GG_CoapRequestContext_ScheduleTimer ctx self;
             self \<leftarrow> GG_CoapEndpoint_SendPendingRequests C self;
             Some (GG_SUCCESS, Some (request_handle ctx), self)
           }
       }
   }"

definition GG_CoapEndpoint_SendRequest ::
  "'e GG_CoapCallbacks \<Rightarrow> u8 \<Rightarrow> GG_CoapMessageOption list \<Rightarrow> bytes \<Rightarrow> GG_CoapClientParameters option \<Rightarrow> nat \<Rightarrow>
   'e GG_CoapEndpoint \<Rightarrow> (GG_Result \<times> u64 option \<times> 'e GG_CoapEndpoint) option" where
  "GG_CoapEndpoint_SendRequest = GG_CoapEndpoint_SendRequestFromBufferSource"

section \<open>Responses to send\<close>

definition GG_CoapEndpoint_EnqueueResponse ::
  "bytes \<Rightarrow> GG_BufferMetadata option \<Rightarrow> 'e GG_CoapEndpoint \<Rightarrow> (GG_Result \<times> 'e GG_CoapEndpoint) option" where
  "GG_CoapEndpoint_EnqueueResponse response metadata self = do {
     GG_ASSERT (responses_cursor self < GG_CONFIG_COAP_RESPONSE_QUEUE_LENGTH);
     GG_ASSERT (responses_count self \<le> GG_CONFIG_COAP_RESPONSE_QUEUE_LENGTH);
     if responses_count self = GG_CONFIG_COAP_RESPONSE_QUEUE_LENGTH then Some (GG_ERROR_OUT_OF_RESOURCES, self)
     else do {
       let tail = (responses_cursor self + responses_count self) mod GG_CONFIG_COAP_RESPONSE_QUEUE_LENGTH;
       Some (GG_SUCCESS, self\<lparr>responses := (responses self)[tail := (response, metadata)],
         responses_count := responses_count self + 1\<rparr>)
     }
   }"

function GG_CoapEndpoint_SendPendingResponses :: "'e GG_CoapCallbacks \<Rightarrow> 'e GG_CoapEndpoint \<Rightarrow> 'e GG_CoapEndpoint" where
  "GG_CoapEndpoint_SendPendingResponses C self =
     (if responses_count self = 0 then self
      else
        let (datagram, metadata) = responses self ! responses_cursor self;
            (result, e) = (case connection_sink self of None \<Rightarrow> (GG_SUCCESS, app self)
              | Some sink \<Rightarrow> GG_DataSink_PutData C sink datagram metadata (app self));
            self = self\<lparr>app := e\<rparr>
        in if result = GG_ERROR_WOULD_BLOCK then self
           else GG_CoapEndpoint_SendPendingResponses C
                  (self\<lparr>responses_count := responses_count self - 1,
                    responses_cursor := (responses_cursor self + 1) mod GG_CONFIG_COAP_RESPONSE_QUEUE_LENGTH\<rparr>))"
  by pat_completeness auto
termination
  by (relation "measure (responses_count \<circ> snd)") auto

declare GG_CoapEndpoint_SendPendingResponses.simps [simp del]

definition GG_CoapEndpoint_SendResponse ::
  "'e GG_CoapCallbacks \<Rightarrow> GG_CoapMessage \<Rightarrow> GG_BufferMetadata option \<Rightarrow> 'e GG_CoapEndpoint \<Rightarrow>
   (GG_Result \<times> 'e GG_CoapEndpoint) option" where
  "GG_CoapEndpoint_SendResponse C response metadata self =
     (let self = GG_CoapEndpoint_SendPendingResponses C self;
          datagram = GG_CoapMessage_ToDatagram response
      in case connection_sink self of
           None \<Rightarrow> Some (GG_SUCCESS, self)
         | Some sink \<Rightarrow>
             if responses_count self = 0
             then let (result, e) = GG_DataSink_PutData C sink datagram metadata (app self);
                      self = self\<lparr>app := e\<rparr>
                  in if result \<noteq> GG_ERROR_WOULD_BLOCK then Some (GG_SUCCESS, self)
                     else GG_CoapEndpoint_EnqueueResponse datagram metadata self
             else GG_CoapEndpoint_EnqueueResponse datagram metadata self)"

definition GG_CoapResponder_CreateResponse ::
  "'e GG_CoapCallbacks \<Rightarrow> GG_CoapResponder \<Rightarrow> u8 \<Rightarrow> GG_CoapMessageOption list \<Rightarrow> bytes option \<Rightarrow> nat \<Rightarrow>
   (GG_Result + GG_CoapMessage) option" where
  "GG_CoapResponder_CreateResponse C responder code options payload payload_len =
     GG_CoapEndpoint_CreateResponse (allocated_memory C) (responder_request responder) code options payload payload_len"

definition GG_CoapResponder_SendResponse ::
  "'e GG_CoapCallbacks \<Rightarrow> GG_CoapResponder \<Rightarrow> GG_CoapMessage \<Rightarrow> 'e GG_CoapEndpoint \<Rightarrow>
   (GG_Result \<times> 'e GG_CoapEndpoint) option" where
  "GG_CoapResponder_SendResponse C responder response self =
     GG_CoapEndpoint_SendResponse C response (responder_metadata responder) self"

definition GG_CoapResponder_Respond ::
  "'e GG_CoapCallbacks \<Rightarrow> GG_CoapResponder \<Rightarrow> u8 \<Rightarrow> GG_CoapMessageOption list \<Rightarrow> bytes option \<Rightarrow> nat \<Rightarrow>
   'e GG_CoapEndpoint \<Rightarrow> (GG_Result \<times> 'e GG_CoapEndpoint) option" where
  "GG_CoapResponder_Respond C responder code options payload payload_len self = do {
     response \<leftarrow> GG_CoapResponder_CreateResponse C responder code options payload payload_len;
     case response of
       Inl err \<Rightarrow> Some (err, self)
     | Inr response \<Rightarrow> GG_CoapResponder_SendResponse C responder response self
   }"

section \<open>Requests received\<close>

definition GG_COAP_MESSAGE_OPTION_URI_PATH :: u32 where
  "GG_COAP_MESSAGE_OPTION_URI_PATH = 11"

definition GG_COAP_REQUEST_HANDLER_FLAGS_ALLOW_ALL :: u32 where
  "GG_COAP_REQUEST_HANDLER_FLAGS_ALLOW_ALL = 0xF"

definition GG_COAP_REQUEST_HANDLER_FLAG_ENABLE_ASYNC :: u32 where
  "GG_COAP_REQUEST_HANDLER_FLAG_ENABLE_ASYNC = push_bit 4 1"

text \<open>
  The match of the path of a handler, which is a string without its terminator, with the path options of a request,
  segment by segment. The slash is 0x2F.
\<close>

partial_function (option) match_path :: "GG_CoapMessage \<Rightarrow> GG_CoapMessageOptionIterator \<Rightarrow> bytes \<Rightarrow> bool option" where
  "match_path request it path =
     (case iter_value it of
        GG_COAP_MESSAGE_OPTION_TYPE_STRING chars n \<Rightarrow>
          if length path < n \<or> take n path \<noteq> take n chars then Some False
          else if drop n path = [] then Some True
          else if hd (drop n path) \<noteq> 0x2F then Some False
          else do {
            it \<leftarrow> GG_CoapMessage_StepOptionIterator request it;
            match_path request it (tl (drop n path))
          }
      | _ \<Rightarrow> Some False)"

declare match_path.simps [code]

fun find_handler ::
  "GG_CoapMessage \<Rightarrow> GG_CoapRequestHandlerNode option \<Rightarrow> GG_CoapRequestHandlerNode list \<Rightarrow> GG_CoapRequestHandlerNode option option" where
  "find_handler request default_node [] = Some default_node"
| "find_handler request default_node (node # nodes) = do {
     it \<leftarrow> GG_CoapMessage_InitOptionIterator request GG_COAP_MESSAGE_OPTION_URI_PATH;
     match \<leftarrow> match_path request it (handler_path node);
     if match then Some (Some node) else find_handler request default_node nodes
   }"

definition method_flag :: "u8 \<Rightarrow> u32" where
  "method_flag meth = (if meth = GG_COAP_METHOD_GET then 1 else if meth = GG_COAP_METHOD_POST then 2
     else if meth = GG_COAP_METHOD_PUT then 4 else if meth = GG_COAP_METHOD_DELETE then 8 else 0)"

fun run_filters ::
  "'e GG_CoapCallbacks \<Rightarrow> nat list \<Rightarrow> u32 \<Rightarrow> GG_CoapMessage \<Rightarrow> 'e \<Rightarrow> GG_Result \<times> GG_CoapMessage option \<times> 'e" where
  "run_filters C [] flags request e = (GG_SUCCESS, None, e)"
| "run_filters C (f # fs) flags request e =
     (case GG_CoapRequestFilter_FilterRequest C f flags request e of (result, response, e) \<Rightarrow>
        if result \<noteq> GG_SUCCESS \<or> response \<noteq> None then (result, response, e) else run_filters C fs flags request e)"

text \<open>The handler and the filters before it: the result, the response, whether the request was fully handled.\<close>

definition invoke_handler ::
  "'e GG_CoapCallbacks \<Rightarrow> GG_CoapRequestHandlerNode \<Rightarrow> GG_CoapMessage \<Rightarrow> GG_BufferMetadata option \<Rightarrow>
   'e GG_CoapEndpoint \<Rightarrow> (GG_Result \<times> GG_CoapMessage option \<times> bool \<times> 'e GG_CoapEndpoint) option" where
  "invoke_handler C node request metadata self =
     (if handler_flags node AND method_flag (GG_CoapMessage_GetCode request) = 0
      then Some (GG_COAP_RESULT (GG_COAP_MESSAGE_CODE 405), None, True, self)
      else do {
        let (result, response, e) = run_filters C (request_filters self) (handler_flags node) request (app self);
        let self = self\<lparr>app := e\<rparr>;
        GG_ASSERT (GG_SUCCEEDED result \<or> response = None);
        if GG_FAILED result \<or> response \<noteq> None then Some (result, response, True, self)
        else do {
          let async = (handler_flags node AND GG_COAP_REQUEST_HANDLER_FLAG_ENABLE_ASYNC \<noteq> 0);
          let responder = (if async then Some \<lparr>responder_request = request, responder_metadata = metadata\<rparr> else None);
          (result, response, self) \<leftarrow>
            GG_CoapRequestHandler_OnRequest C (handler_object node) request responder metadata self;
          GG_ASSERT (GG_FAILED result \<or> response \<noteq> None);
          GG_ASSERT (GG_SUCCEEDED result \<or> response = None);
          Some (result, response, \<not> (result = GG_ERROR_WOULD_BLOCK \<and> async), self)
        }
      })"

definition default_response_code :: "GG_CoapRequestHandlerNode option \<Rightarrow> GG_Result \<Rightarrow> nat" where
  "default_response_code node result =
     (case node of None \<Rightarrow> GG_COAP_MESSAGE_CODE 404
      | Some _ \<Rightarrow> (case result of GG_COAP_RESULT n \<Rightarrow> if 0 < n \<and> n \<le> 0xFF then n else GG_COAP_MESSAGE_CODE 500
                    | _ \<Rightarrow> GG_COAP_MESSAGE_CODE 500))"

definition response_metadata :: "GG_BufferMetadata option \<Rightarrow> GG_BufferMetadata option" where
  "response_metadata metadata = (case metadata of
       Some (GG_BUFFER_METADATA_TYPE_SOURCE_SOCKET_ADDRESS a) \<Rightarrow> Some (GG_BUFFER_METADATA_TYPE_DESTINATION_SOCKET_ADDRESS a)
     | _ \<Rightarrow> None)"

definition GG_CoapEndpoint_OnRequest ::
  "'e GG_CoapCallbacks \<Rightarrow> GG_CoapMessage \<Rightarrow> GG_BufferMetadata option \<Rightarrow> 'e GG_CoapEndpoint \<Rightarrow>
   (bool \<times> 'e GG_CoapEndpoint) option" where
  "GG_CoapEndpoint_OnRequest C request metadata self = do {
     let metadata = response_metadata metadata;
     node \<leftarrow> find_handler request
       (map_option (\<lambda>h. \<lparr>handler_path = [0x2F], handler_flags = GG_COAP_REQUEST_HANDLER_FLAGS_ALLOW_ALL, handler_object = h\<rparr>)
         (default_handler self))
       (handlers self);
     (result, response, fully_handled, self) \<leftarrow> (case node of
         None \<Rightarrow> Some (GG_FAILURE, None, True, self)
       | Some node \<Rightarrow> invoke_handler C node request metadata self);
     response \<leftarrow>
       (if response = None \<and> result \<noteq> GG_ERROR_WOULD_BLOCK
        then map_option (\<lambda>r. case r of Inl _ \<Rightarrow> None | Inr m \<Rightarrow> Some m)
          (GG_CoapEndpoint_CreateResponse (allocated_memory C) request (of_nat (default_response_code node result)) [] None 0)
        else Some response);
     case response of
       None \<Rightarrow> Some (fully_handled, self)
     | Some response \<Rightarrow> map_option (\<lambda>(_, self). (fully_handled, self)) (GG_CoapEndpoint_SendResponse C response metadata self)
   }"

section \<open>Responses received\<close>

text \<open>What the listener of a matched context is told: the acknowledgement, then the outcome.\<close>

definition notify_outcome ::
  "'e GG_CoapCallbacks \<Rightarrow> GG_CoapMessage \<Rightarrow> nat \<Rightarrow> 'e GG_CoapEndpoint \<Rightarrow> 'e GG_CoapEndpoint option" where
  "notify_outcome C response listener_object self =
     (if GG_CoapMessage_GetType response = message_type_code GG_COAP_MESSAGE_TYPE_RST
      then GG_CoapResponseListener_OnError C listener_object GG_ERROR_COAP_RESET self
      else if GG_CoapMessage_GetCode response = 0
      then GG_CoapResponseListener_OnError C listener_object GG_ERROR_COAP_UNEXPECTED_MESSAGE self
      else GG_CoapResponseListener_OnResponse C listener_object response self)"

definition on_match ::
  "'e GG_CoapCallbacks \<Rightarrow> GG_CoapMessage \<Rightarrow> nat \<Rightarrow> 'e GG_CoapEndpoint \<Rightarrow> 'e GG_CoapEndpoint option" where
  "on_match C response i self = do {
     let ctx = requests self ! i;
     let message_type = GG_CoapMessage_GetType response;
     let notify_ack = (request_state ctx \<in> {GG_COAP_REQUEST_STATE_READY_TO_SEND, GG_COAP_REQUEST_STATE_WAITING_FOR_ACK} \<and>
       message_type \<noteq> message_type_code GG_COAP_MESSAGE_TYPE_RST);
     let self = GG_CoapRequestContext_Destroy ctx self;
     let self = set_request i (ctx\<lparr>request_state := (if notify_ack then GG_COAP_REQUEST_STATE_ACKED else request_state ctx),
       resend_timer := None\<rparr>) self;
     let empty_ack = (message_type = message_type_code GG_COAP_MESSAGE_TYPE_ACK \<and> GG_CoapMessage_GetCode response = 0);
     self \<leftarrow> (if notify_ack then GG_CoapResponseListener_OnAck C (request_listener ctx) self else Some self);
     if empty_ack then Some self
     else do {
       self \<leftarrow> notify_outcome C response (request_listener ctx) self;
       Some (GG_CoapRequestContext_Cancel i self)
     }
   }"

definition GG_CoapEndpoint_OnResponse ::
  "'e GG_CoapCallbacks \<Rightarrow> GG_CoapMessage \<Rightarrow> 'e GG_CoapEndpoint \<Rightarrow> 'e GG_CoapEndpoint option" where
  "GG_CoapEndpoint_OnResponse C response self = do {
     let was_locked = locked self;
     let self = self\<lparr>locked := True\<rparr>;
     self \<leftarrow> (case find_index (\<lambda>ctx. GG_CoapMessage_GetToken (request_message ctx) = GG_CoapMessage_GetToken response)
                (requests self) of
               None \<Rightarrow> Some self
             | Some i \<Rightarrow> on_match C response i self);
     unlock was_locked self
   }"

section \<open>The endpoint as a sink and a source of datagrams\<close>

definition GG_COAP_MESSAGE_CODE_CLASS :: "u8 \<Rightarrow> u8" where
  "GG_COAP_MESSAGE_CODE_CLASS c = drop_bit 5 c AND 7"

definition GG_CoapEndpoint_PutData ::
  "'e GG_CoapCallbacks \<Rightarrow> bytes \<Rightarrow> GG_BufferMetadata option \<Rightarrow> 'e GG_CoapEndpoint \<Rightarrow>
   (GG_Result \<times> 'e GG_CoapEndpoint) option" where
  "GG_CoapEndpoint_PutData C buffer metadata self =
     (case GG_CoapMessage_CreateFromDatagram buffer of
        Inl _ \<Rightarrow> Some (GG_SUCCESS, self)
      | Inr message \<Rightarrow>
          if GG_COAP_MESSAGE_CODE_CLASS (GG_CoapMessage_GetCode message) = 0
          then map_option (\<lambda>(_, self). (GG_SUCCESS, self))
                 (GG_CoapEndpoint_OnRequest C message
                   (case metadata of Some (GG_BUFFER_METADATA_TYPE_SOURCE_SOCKET_ADDRESS a) \<Rightarrow> metadata | _ \<Rightarrow> None) self)
          else map_option (Pair GG_SUCCESS) (GG_CoapEndpoint_OnResponse C message self))"

definition GG_CoapEndpoint_SetListener :: "nat option \<Rightarrow> 'e GG_CoapEndpoint \<Rightarrow> 'e GG_CoapEndpoint" where
  "GG_CoapEndpoint_SetListener listener_object self = self\<lparr>sink_listener := listener_object\<rparr>"

definition GG_CoapEndpoint_OnCanPut :: "'e GG_CoapCallbacks \<Rightarrow> 'e GG_CoapEndpoint \<Rightarrow> 'e GG_CoapEndpoint option" where
  "GG_CoapEndpoint_OnCanPut C self = do {
     self \<leftarrow> (if try_responses_first self
              then GG_CoapEndpoint_SendPendingRequests C (GG_CoapEndpoint_SendPendingResponses C self)
              else map_option (GG_CoapEndpoint_SendPendingResponses C) (GG_CoapEndpoint_SendPendingRequests C self));
     Some (self\<lparr>try_responses_first := \<not> try_responses_first self\<rparr>)
   }"

definition GG_CoapEndpoint_SetDataSink ::
  "'e GG_CoapCallbacks \<Rightarrow> nat option \<Rightarrow> 'e GG_CoapEndpoint \<Rightarrow> 'e GG_CoapEndpoint option" where
  "GG_CoapEndpoint_SetDataSink C sink self =
     (let self = (case connection_sink self of None \<Rightarrow> self
                  | Some old \<Rightarrow> self\<lparr>app := GG_DataSink_SetListener C old False (app self)\<rparr>);
          self = self\<lparr>connection_sink := sink\<rparr>
      in case sink of
           None \<Rightarrow> Some self
         | Some new \<Rightarrow>
             map_option (GG_CoapEndpoint_SendPendingResponses C)
               (GG_CoapEndpoint_SendPendingRequests C (self\<lparr>app := GG_DataSink_SetListener C new True (app self)\<rparr>)))"

section \<open>Construction and registration\<close>

definition GG_CoapEndpoint_Create ::
  "'e GG_CoapCallbacks \<Rightarrow> GG_TimerScheduler \<Rightarrow> nat option \<Rightarrow> nat option \<Rightarrow> 'e \<Rightarrow> 'e GG_CoapEndpoint" where
  "GG_CoapEndpoint_Create C scheduler sink src e =
     (let (r, e) = GG_GetRandomInteger C e;
          e = (case src of None \<Rightarrow> e | Some s \<Rightarrow> GG_DataSource_SetDataSink C s True e);
          e = (case sink of None \<Rightarrow> e | Some s \<Rightarrow> GG_DataSink_SetListener C s True e)
      in \<lparr>sink_listener = None, connection_sink = sink, connection_source = src, timer_scheduler = scheduler,
          requests = [], token_prefix = [], token_counter = ucast r, message_id_counter = 0, handlers = [],
          default_handler = None, request_filters = [], locked = False,
          responses = replicate GG_CONFIG_COAP_RESPONSE_QUEUE_LENGTH ([], None), responses_cursor = 0, responses_count = 0,
          try_responses_first = False, next_ptr = 0, app = e\<rparr>)"

text \<open>What is left of an endpoint that was destroyed: the timers of its requests are back in the pool.\<close>

definition GG_CoapEndpoint_Destroy ::
  "'e GG_CoapCallbacks \<Rightarrow> 'e GG_CoapEndpoint \<Rightarrow> GG_TimerScheduler \<times> 'e" where
  "GG_CoapEndpoint_Destroy C self =
     (let e = app self;
          e = (case connection_source self of None \<Rightarrow> e | Some s \<Rightarrow> GG_DataSource_SetDataSink C s False e);
          e = (case connection_sink self of None \<Rightarrow> e | Some s \<Rightarrow> GG_DataSink_SetListener C s False e);
          self = fold GG_CoapRequestContext_Destroy (requests self) self
      in (timer_scheduler self, e))"

definition skip_slashes :: "bytes \<Rightarrow> bytes" where
  "skip_slashes path = dropWhile (\<lambda>c. c = 0x2F) path"

definition GG_CoapEndpoint_RegisterRequestHandlerNode ::
  "bytes \<Rightarrow> u32 \<Rightarrow> nat \<Rightarrow> 'e GG_CoapEndpoint \<Rightarrow> 'e GG_CoapEndpoint" where
  "GG_CoapEndpoint_RegisterRequestHandlerNode path flags object self =
     self\<lparr>handlers := handlers self @ [\<lparr>handler_path = skip_slashes path, handler_flags = flags, handler_object = object\<rparr>]\<rparr>"

definition GG_CoapEndpoint_RegisterRequestHandler ::
  "bytes \<Rightarrow> u32 \<Rightarrow> nat \<Rightarrow> 'e GG_CoapEndpoint \<Rightarrow> GG_Result \<times> 'e GG_CoapEndpoint" where
  "GG_CoapEndpoint_RegisterRequestHandler path flags object self =
     (GG_SUCCESS, GG_CoapEndpoint_RegisterRequestHandlerNode (skip_slashes path) flags object self)"

definition GG_CoapEndpoint_UnregisterRequestHandler ::
  "bytes option \<Rightarrow> nat option \<Rightarrow> 'e GG_CoapEndpoint \<Rightarrow> GG_Result \<times> 'e GG_CoapEndpoint" where
  "GG_CoapEndpoint_UnregisterRequestHandler path object self =
     (case find_index (\<lambda>node. (case path of None \<Rightarrow> True | Some p \<Rightarrow> skip_slashes p = handler_path node) \<and>
             (case object of None \<Rightarrow> True | Some h \<Rightarrow> handler_object node = h)) (handlers self) of
        None \<Rightarrow> (GG_ERROR_NO_SUCH_ITEM, self)
      | Some i \<Rightarrow> (GG_SUCCESS, self\<lparr>handlers := take i (handlers self) @ drop (i + 1) (handlers self)\<rparr>))"

definition GG_CoapEndpoint_SetDefaultRequestHandler :: "nat option \<Rightarrow> 'e GG_CoapEndpoint \<Rightarrow> 'e GG_CoapEndpoint" where
  "GG_CoapEndpoint_SetDefaultRequestHandler object self = self\<lparr>default_handler := object\<rparr>"

definition GG_CoapEndpoint_RegisterRequestFilter :: "nat \<Rightarrow> 'e GG_CoapEndpoint \<Rightarrow> 'e GG_CoapEndpoint" where
  "GG_CoapEndpoint_RegisterRequestFilter f self = self\<lparr>request_filters := request_filters self @ [f]\<rparr>"

definition GG_CoapEndpoint_UnregisterRequestFilter ::
  "nat \<Rightarrow> 'e GG_CoapEndpoint \<Rightarrow> GG_Result \<times> 'e GG_CoapEndpoint" where
  "GG_CoapEndpoint_UnregisterRequestFilter f self =
     (case find_index (\<lambda>g. g = f) (request_filters self) of
        None \<Rightarrow> (GG_ERROR_NO_SUCH_ITEM, self)
      | Some i \<Rightarrow> (GG_SUCCESS, self\<lparr>request_filters := take i (request_filters self) @ drop (i + 1) (request_filters self)\<rparr>))"

definition GG_CoapEndpoint_SetTokenPrefix :: "bytes \<Rightarrow> 'e GG_CoapEndpoint \<Rightarrow> GG_Result \<times> 'e GG_CoapEndpoint" where
  "GG_CoapEndpoint_SetTokenPrefix pre self =
     (if length pre > 4 then (GG_ERROR_INVALID_PARAMETERS, self) else (GG_SUCCESS, self\<lparr>token_prefix := pre\<rparr>))"

definition GG_CoapEndpoint_GetTokenPrefix :: "'e GG_CoapEndpoint \<Rightarrow> bytes" where
  "GG_CoapEndpoint_GetTokenPrefix self = token_prefix self"

end
