(* ===== verification/Coap_Endpoint_Props.thy ===== *)
theory Coap_Endpoint_Props
  imports Coap_Endpoint Coap_Message_Props
begin

text \<open>
  What the CoAP endpoint promises to the users of its client side: every operation returns, each request is
  acknowledged and ended at most once, and a request that is not answered ends.
\<close>

section \<open>Users\<close>

text \<open>
  What a user brings: a sink, a source of random numbers, listeners, handlers and filters, all with a state \<open>'s\<close>. A
  listener reacts to an event by changing the state and cancelling requests. A history of the events is kept next to the
  state.
\<close>

datatype listener_event = Ev_Ack | Ev_Error GG_Result | Ev_Response GG_CoapMessage

record 's user =
  user_put :: "nat \<Rightarrow> bytes \<Rightarrow> GG_BufferMetadata option \<Rightarrow> 's \<Rightarrow> GG_Result \<times> 's"
  user_attach :: "nat \<Rightarrow> bool \<Rightarrow> 's \<Rightarrow> 's"
  user_random :: "'s \<Rightarrow> u32 \<times> 's"
  user_listen :: "nat \<Rightarrow> listener_event \<Rightarrow> 's \<Rightarrow> u64 list \<times> 's"
  user_handle :: "nat \<Rightarrow> GG_CoapMessage \<Rightarrow> GG_BufferMetadata option \<Rightarrow> 's \<Rightarrow> GG_Result \<times> GG_CoapMessage option \<times> 's"
  user_filter :: "nat \<Rightarrow> u32 \<Rightarrow> GG_CoapMessage \<Rightarrow> 's \<Rightarrow> GG_Result \<times> GG_CoapMessage option \<times> 's"

type_synonym history = "(nat \<times> listener_event) list"

type_synonym 's endpoint = "('s \<times> history) GG_CoapEndpoint"

definition cancel_all :: "u64 list \<Rightarrow> 'e GG_CoapEndpoint \<Rightarrow> 'e GG_CoapEndpoint" where
  "cancel_all hs self = fold (\<lambda>h self. snd (GG_CoapEndpoint_CancelRequest h self)) hs self"

definition listen :: "'s user \<Rightarrow> nat \<Rightarrow> listener_event \<Rightarrow> 's endpoint \<Rightarrow> 's endpoint" where
  "listen U l ev self = (case app self of (s, log) \<Rightarrow> case user_listen U l ev s of (hs, s) \<Rightarrow>
     cancel_all hs (self\<lparr>app := (s, log @ [(l, ev)])\<rparr>))"

definition callbacks :: "'s user \<Rightarrow> (nat \<Rightarrow> u8) \<Rightarrow> ('s \<times> history) GG_CoapCallbacks" where
  "callbacks U junk = \<lparr>
     GG_DataSink_PutData = (\<lambda>k d m (s, log). case user_put U k d m s of (r, s) \<Rightarrow> (r, s, log)),
     GG_DataSink_SetListener = (\<lambda>k on (s, log). (user_attach U k on s, log)),
     GG_DataSource_SetDataSink = (\<lambda>k on (s, log). (user_attach U k on s, log)),
     GG_CoapResponseListener_OnAck = (\<lambda>l self. Some (listen U l Ev_Ack self)),
     GG_CoapResponseListener_OnError = (\<lambda>l err self. Some (listen U l (Ev_Error err) self)),
     GG_CoapResponseListener_OnResponse = (\<lambda>l m self. Some (listen U l (Ev_Response m) self)),
     GG_CoapRequestHandler_OnRequest = (\<lambda>h m responder md self. case app self of (s, log) \<Rightarrow>
       case user_handle U h m md s of (r, response, s) \<Rightarrow> Some (r, response, self\<lparr>app := (s, log)\<rparr>)),
     GG_CoapRequestFilter_FilterRequest = (\<lambda>f flags m (s, log). case user_filter U f flags m s of (r, response, s) \<Rightarrow> (r, response, s, log)),
     GG_GetRandomInteger = (\<lambda>(s, log). case user_random U s of (r, s) \<Rightarrow> (r, s, log)),
     allocated_memory = junk\<rparr>"

section \<open>The invariant\<close>

definition evs :: "nat \<Rightarrow> history \<Rightarrow> listener_event list" where
  "evs l log = map snd (filter (\<lambda>(l', _). l' = l) log)"

definition outcome :: "listener_event \<Rightarrow> bool" where
  "outcome ev \<longleftrightarrow> ev \<noteq> Ev_Ack"

definition proper :: "listener_event list \<Rightarrow> bool" where
  "proper es \<longleftrightarrow> es = [] \<or> es = [Ev_Ack] \<or> (\<exists>err. es = [Ev_Error err]) \<or> (\<exists>ev. outcome ev \<and> es = [Ev_Ack, ev])"

definition waiting :: "GG_CoapRequestContext \<Rightarrow> bool" where
  "waiting ctx \<longleftrightarrow> request_state ctx = GG_COAP_REQUEST_STATE_READY_TO_SEND \<or> request_state ctx = GG_COAP_REQUEST_STATE_WAITING_FOR_ACK"

abbreviation cancelled :: "GG_CoapRequestContext \<Rightarrow> bool" where
  "cancelled ctx \<equiv> request_state ctx = GG_COAP_REQUEST_STATE_CANCELLED"

text \<open>
  The timers and the requests agree: every scheduled timer belongs to one request, and every request that waits has a
  scheduled timer. The requests at the addresses in \<open>X\<close> are the exception, while an operation works on them.
\<close>

definition timer_of :: "nat set \<Rightarrow> GG_TimerScheduler \<Rightarrow> GG_CoapRequestContext \<Rightarrow> bool" where
  "timer_of X s c \<longleftrightarrow> (case resend_timer c of
       None \<Rightarrow> waiting c \<longrightarrow> request_ptr c \<in> X
     | Some t \<Rightarrow> request_state c \<noteq> GG_COAP_REQUEST_STATE_ACKED \<and>
         (if request_ptr c \<in> X then t \<in> set (frozen s)
          else t \<in> set (scheduled s) \<and> listener (timers s t) = Some (request_ptr c)))"

definition timers_ok :: "nat set \<Rightarrow> GG_TimerScheduler \<Rightarrow> GG_CoapRequestContext list \<Rightarrow> bool" where
  "timers_ok X s cs \<longleftrightarrow> timer_invar s \<and> started_by (now s) s \<and> distinct (map request_ptr cs) \<and>
     inj_on resend_timer {c \<in> set cs. resend_timer c \<noteq> None} \<and>
     (\<forall>c \<in> set cs. timer_of X s c) \<and> (\<forall>t \<in> set (scheduled s). \<exists>c \<in> set cs. resend_timer c = Some t)"

definition log_ok :: "nat set \<Rightarrow> history \<Rightarrow> GG_CoapRequestContext list \<Rightarrow> bool" where
  "log_ok X log cs \<longleftrightarrow> (\<forall>l. proper (evs l log)) \<and> distinct (map request_listener cs) \<and>
     (\<forall>c \<in> set cs. request_ptr c \<notin> X \<longrightarrow> (waiting c \<longrightarrow> evs (request_listener c) log = []) \<and>
       (request_state c = GG_COAP_REQUEST_STATE_ACKED \<longrightarrow> evs (request_listener c) log = [Ev_Ack]))"

definition ep_inv :: "nat set \<Rightarrow> 's endpoint \<Rightarrow> bool" where
  "ep_inv X self \<longleftrightarrow> timers_ok X (timer_scheduler self) (requests self) \<and> log_ok X (snd (app self)) (requests self) \<and>
     (\<forall>c \<in> set (requests self). request_ptr c < next_ptr self) \<and> distinct (map request_handle (requests self)) \<and>
     (locked self \<or> (\<forall>c \<in> set (requests self). \<not> cancelled c)) \<and>
     length (responses self) = 16 \<and> responses_cursor self < 16 \<and> responses_count self \<le> 16 \<and> length (token_prefix self) \<le> 4"

lemma evs_append [simp]: "evs l (log @ [(l', ev)]) = evs l log @ (if l' = l then [ev] else [])"
  by (simp add: evs_def)

section \<open>Indices\<close>

lemma find_index_Some:
  "find_index P xs = Some i \<Longrightarrow> i < length xs \<and> P (xs ! i)"
  by (induction xs arbitrary: i) (auto split: if_splits)

lemma find_index_None: "find_index P xs = None \<longleftrightarrow> (\<forall>x \<in> set xs. \<not> P x)"
  by (induction xs) auto

lemma find_index_first: "find_index P xs = Some i \<Longrightarrow> j < i \<Longrightarrow> \<not> P (xs ! j)"
  by (induction xs arbitrary: i j) (auto split: if_splits simp: nth_Cons')

lemma find_index_unique:
  assumes "i < length xs" and "P (xs ! i)" and "\<And>j. j < length xs \<Longrightarrow> P (xs ! j) \<Longrightarrow> j = i"
  shows "find_index P xs = Some i"
proof (cases "find_index P xs")
  case None
  then show ?thesis using assms(1,2) nth_mem [OF assms(1)] by (auto simp: find_index_None)
next
  case (Some j)
  then show ?thesis using find_index_Some [OF Some] assms(3) [of j] by simp
qed

lemma remove_nth: "i < length xs \<Longrightarrow> xs = take i xs @ xs ! i # drop (Suc i) xs"
  by (rule id_take_nth_drop)

section \<open>Cancellation under the lock\<close>

definition mark :: "u64 list \<Rightarrow> GG_CoapRequestContext \<Rightarrow> GG_CoapRequestContext" where
  "mark hs c = (if request_handle c \<in> set hs then c\<lparr>request_state := GG_COAP_REQUEST_STATE_CANCELLED\<rparr> else c)"

lemma mark_simps [simp]:
  "request_ptr (mark hs c) = request_ptr c" "request_handle (mark hs c) = request_handle c" "resend_timer (mark hs c) = resend_timer c"
  "request_listener (mark hs c) = request_listener c" "resend_count (mark hs c) = resend_count c" "max_resends (mark hs c) = max_resends c"
  "request_message (mark hs c) = request_message c" "resend_timeout (mark hs c) = resend_timeout c"
  by (simp_all add: mark_def)

lemma mark_state: "request_state (mark hs c) = (if request_handle c \<in> set hs then GG_COAP_REQUEST_STATE_CANCELLED else request_state c)"
  by (simp add: mark_def)

lemma mark_Nil [simp]: "mark [] = id"
  by (simp add: mark_def fun_eq_iff)

lemma mark_Cons: "mark hs (mark [h] c) = mark (h # hs) c"
  by (simp add: mark_def)

lemma CancelRequest_locked:
  assumes "locked self" and d: "distinct (map request_handle (requests self))"
  shows "snd (GG_CoapEndpoint_CancelRequest h self) = self\<lparr>requests := map (mark [h]) (requests self)\<rparr>"
proof (cases "find_index (\<lambda>ctx. request_handle ctx = h) (requests self)")
  case None
  then have "map (mark [h]) (requests self) = requests self" by (intro map_idI) (auto simp: mark_def find_index_None)
  with None show ?thesis by (simp add: GG_CoapEndpoint_CancelRequest_def)
next
  case (Some i)
  from find_index_Some [OF this] have i: "i < length (requests self)" "request_handle (requests self ! i) = h" by auto
  have "(requests self)[i := (requests self ! i)\<lparr>request_state := GG_COAP_REQUEST_STATE_CANCELLED\<rparr>] = map (mark [h]) (requests self)"
  proof (rule nth_equalityI)
    fix j
    assume j: "j < length ((requests self)[i := (requests self ! i)\<lparr>request_state := GG_COAP_REQUEST_STATE_CANCELLED\<rparr>])"
    then have "request_handle (requests self ! j) = h \<longleftrightarrow> j = i" using nth_eq_iff_index_eq [OF d, of j i] i by simp
    then show "(requests self)[i := (requests self ! i)\<lparr>request_state := GG_COAP_REQUEST_STATE_CANCELLED\<rparr>] ! j = map (mark [h]) (requests self) ! j"
      using i j by (simp add: mark_def nth_list_update)
  qed simp
  with Some assms(1) show ?thesis
    by (simp add: GG_CoapEndpoint_CancelRequest_def GG_CoapRequestContext_Cancel_def set_request_def)
qed

lemma cancel_all_locked:
  assumes "locked self" and "distinct (map request_handle (requests self))"
  shows "cancel_all hs self = self\<lparr>requests := map (mark hs) (requests self)\<rparr>"
  using assms
proof (induction hs arbitrary: self)
  case Nil
  then show ?case by (simp add: cancel_all_def)
next
  case (Cons h hs)
  let ?self = "self\<lparr>requests := map (mark [h]) (requests self)\<rparr>"
  have "distinct (map request_handle (requests ?self))" using Cons.prems(2) by (simp add: comp_def)
  from Cons.IH [OF _ this] Cons.prems show ?case
    by (simp add: cancel_all_def CancelRequest_locked comp_def mark_Cons)
qed

section \<open>The invariant under changes of one part\<close>

lemma timers_ok_map:
  assumes ok: "timers_ok X s cs" and f: "\<And>c. c \<in> set cs \<Longrightarrow> request_ptr (f c) = request_ptr c"
    "\<And>c. c \<in> set cs \<Longrightarrow> resend_timer (f c) = resend_timer c" "\<And>c. c \<in> set cs \<Longrightarrow> waiting (f c) \<Longrightarrow> waiting c"
    "\<And>c. c \<in> set cs \<Longrightarrow> request_state (f c) = GG_COAP_REQUEST_STATE_ACKED \<Longrightarrow> request_state c = GG_COAP_REQUEST_STATE_ACKED"
  shows "timers_ok X s (map f cs)"
proof -
  have "map request_ptr (map f cs) = map request_ptr cs" using f(1) by simp
  moreover have "timer_of X s (f c)" if "c \<in> set cs" for c
    using ok f [OF that] that by (auto simp: timers_ok_def timer_of_def split: option.splits)
  moreover have "inj_on resend_timer {c \<in> set (map f cs). resend_timer c \<noteq> None}"
  proof (rule inj_onI)
    fix x y
    assume "x \<in> {c \<in> set (map f cs). resend_timer c \<noteq> None}" "y \<in> {c \<in> set (map f cs). resend_timer c \<noteq> None}"
      and eq: "resend_timer x = resend_timer y"
    then obtain c d where c: "c \<in> set cs" "x = f c" "d \<in> set cs" "y = f d" "resend_timer (f c) \<noteq> None" by auto
    then have "c = d" using ok eq f(2) by (auto simp: timers_ok_def intro: inj_onD)
    then show "x = y" using c by simp
  qed
  moreover have "\<exists>c \<in> set (map f cs). resend_timer c = Some t" if "t \<in> set (scheduled s)" for t
  proof -
    from ok that obtain c where "c \<in> set cs" "resend_timer c = Some t" by (auto simp: timers_ok_def)
    with f(2) show ?thesis by force
  qed
  moreover have "distinct (map request_ptr (map f cs))" using ok calculation(1) unfolding timers_ok_def by metis
  ultimately show ?thesis using ok by (simp add: timers_ok_def)
qed

lemma timers_ok_cong:
  assumes "timers_ok X s cs" and "set cs' = set cs" and "distinct (map request_ptr cs')"
  shows "timers_ok X s cs'"
  using assms by (simp add: timers_ok_def)

lemma log_ok_cong:
  assumes "log_ok X log cs" and "set cs' \<subseteq> set cs" and "distinct (map request_listener cs')"
  shows "log_ok X log cs'"
  using assms by (auto simp: log_ok_def)

lemma Destroy_facts:
  "scheduled (GG_Timer_Destroy (Some t) s) = removeAll t (scheduled s)"
  "frozen (GG_Timer_Destroy (Some t) s) = removeAll t (frozen s)"
  "x \<noteq> t \<Longrightarrow> timers (GG_Timer_Destroy (Some t) s) x = timers s x"
  "now (GG_Timer_Destroy (Some t) s) = now s"
  by (simp_all add: GG_Timer_Destroy_def timer_defs)

lemma Destroy_None [simp]: "GG_Timer_Destroy None s = s"
  by (simp add: GG_Timer_Destroy_def)

lemma timer_of_bound: "timer_invar s \<Longrightarrow> timer_of X s c \<Longrightarrow> resend_timer c = Some t \<Longrightarrow> t < GG_CONFIG_MAX_TIMERS"
  by (auto simp: timer_of_def timer_invar_def split: if_splits)

lemma timers_ok_remove:
  assumes ok: "timers_ok X s cs" and c: "c \<in> set cs" and cs': "set cs' = set cs - {c}" "distinct (map request_ptr cs')"
  shows "timers_ok X (GG_Timer_Destroy (resend_timer c) s) cs'"
proof (cases "resend_timer c")
  case None
  have "inj_on resend_timer {c \<in> set cs'. resend_timer c \<noteq> None}"
    using ok cs'(1) by (auto simp: timers_ok_def intro: inj_on_subset)
  moreover have "\<exists>d \<in> set cs'. resend_timer d = Some t" if "t \<in> set (scheduled s)" for t
    using ok that None cs'(1) by (force simp: timers_ok_def)
  ultimately show ?thesis using ok cs' None by (simp add: timers_ok_def)
next
  case (Some t)
  let ?s = "GG_Timer_Destroy (Some t) s"
  have inv: "timer_invar s" "timer_of X s c" using ok c by (auto simp: timers_ok_def)
  have inv': "timer_invar ?s" using Destroy_invar [OF inv(1) timer_of_bound [OF inv Some]] .
  have other: "resend_timer d \<noteq> Some t" if "d \<in> set cs'" for d
  proof
    assume "resend_timer d = Some t"
    moreover have "inj_on resend_timer {c \<in> set cs. resend_timer c \<noteq> None}" using ok by (simp add: timers_ok_def)
    ultimately have "d = c" using c that cs'(1) Some by (intro inj_onD [of resend_timer "{c \<in> set cs. resend_timer c \<noteq> None}"]) simp_all
    with that cs'(1) show False by simp
  qed
  have "inj_on resend_timer {c \<in> set cs'. resend_timer c \<noteq> None}"
    using ok cs'(1) by (auto simp: timers_ok_def intro: inj_on_subset)
  moreover have "timer_of X ?s d" if "d \<in> set cs'" for d
    using ok that cs'(1) other [OF that] by (auto simp: timers_ok_def timer_of_def Destroy_facts split: option.splits)
  moreover have "\<exists>d \<in> set cs'. resend_timer d = Some t'" if "t' \<in> set (scheduled ?s)" for t'
    using ok that Some cs'(1) by (force simp: timers_ok_def Destroy_facts)
  moreover have "started_by (now ?s) ?s" using ok by (auto simp: timers_ok_def started_by_def Destroy_facts)
  ultimately show ?thesis using inv' cs'(2) Some by (simp add: timers_ok_def)
qed

definition destroy_timers :: "GG_CoapRequestContext list \<Rightarrow> GG_TimerScheduler \<Rightarrow> GG_TimerScheduler" where
  "destroy_timers ds s = fold (\<lambda>d s. GG_Timer_Destroy (resend_timer d) s) ds s"

lemma destroy_timers_ok: "timers_ok X s (ds @ cs) \<Longrightarrow> timers_ok X (destroy_timers ds s) cs"
proof (induction ds arbitrary: s)
  case Nil
  then show ?case by (simp add: destroy_timers_def)
next
  case (Cons d ds)
  have "d \<notin> set (ds @ cs)" "distinct (map request_ptr (ds @ cs))" using Cons.prems by (auto simp: timers_ok_def)
  then have "timers_ok X (GG_Timer_Destroy (resend_timer d) s) (ds @ cs)"
    using timers_ok_remove [OF Cons.prems, of d "ds @ cs"] by auto
  from Cons.IH [OF this] show ?case by (simp add: destroy_timers_def)
qed

lemma now_destroy_timers [simp]: "now (destroy_timers ds s) = now s"
proof (induction ds arbitrary: s)
  case (Cons d ds)
  then show ?case by (cases "resend_timer d") (auto simp: destroy_timers_def Destroy_facts)
qed (simp add: destroy_timers_def)

lemma fold_Destroy:
  "fold GG_CoapRequestContext_Destroy ds self = self\<lparr>timer_scheduler := destroy_timers ds (timer_scheduler self)\<rparr>"
  by (induction ds arbitrary: self) (simp_all add: destroy_timers_def GG_CoapRequestContext_Destroy_def)

text \<open>The end of a locked section removes the cancelled requests and keeps the invariant.\<close>

definition cleaned :: "'e GG_CoapEndpoint \<Rightarrow> 'e GG_CoapEndpoint" where
  "cleaned self = self\<lparr>locked := False, requests := filter (\<lambda>c. \<not> cancelled c) (requests self),
     timer_scheduler := destroy_timers (filter cancelled (requests self)) (timer_scheduler self)\<rparr>"

lemma unlock_cleaned: "unlock False self = Some (cleaned self)"
  by (simp add: unlock_def GG_CoapEndpoint_CleanupCancelledRequests_def fold_Destroy cleaned_def Let_def)

lemma distinct_map_filter: "distinct (map f xs) \<Longrightarrow> distinct (map f (filter P xs))"
  by (induction xs) auto

lemma drop_timers_ok:
  assumes "timers_ok X s cs"
  shows "timers_ok X (destroy_timers (filter P cs) s) (filter (\<lambda>c. \<not> P c) cs)"
proof (rule destroy_timers_ok)
  have "distinct (map request_ptr (filter P cs @ filter (\<lambda>c. \<not> P c) cs))"
    using assms by (auto simp: timers_ok_def distinct_map_filter distinct_map inj_on_def)
  then show "timers_ok X s (filter P cs @ filter (\<lambda>c. \<not> P c) cs)"
    using timers_ok_cong [OF assms, of "filter P cs @ filter (\<lambda>c. \<not> P c) cs"] by auto
qed

lemma log_ok_filter: "log_ok X log cs \<Longrightarrow> log_ok X log (filter P cs)"
  by (auto simp: log_ok_def distinct_map_filter)

lemma cleaned_inv: "ep_inv X self \<Longrightarrow> ep_inv X (cleaned self)"
  using drop_timers_ok [of X "timer_scheduler self" "requests self" cancelled]
    log_ok_filter [of X "snd (app self)" "requests self" "\<lambda>c. \<not> cancelled c"]
  by (auto simp: ep_inv_def cleaned_def distinct_map_filter)

section \<open>Cancellation without the lock\<close>

lemma remove_index:
  assumes "i < length xs" and d: "distinct (map f xs)" and "f (xs ! i) = h"
  shows "take i xs @ drop (i + 1) xs = filter (\<lambda>x. f x \<noteq> h) xs" "filter (\<lambda>x. f x = h) xs = [xs ! i]"
proof -
  define as x bs where "as = take i xs" and "x = xs ! i" and "bs = drop (i + 1) xs"
  then have xs: "xs = as @ x # bs" "f x = h" using remove_nth [OF assms(1)] assms(3) by simp_all
  then have "h \<notin> f ` set as" "h \<notin> f ` set bs" using d by auto
  then have "filter (\<lambda>x. f x \<noteq> h) as = as" "filter (\<lambda>x. f x \<noteq> h) bs = bs" "filter (\<lambda>x. f x = h) as = []" "filter (\<lambda>x. f x = h) bs = []"
    by (auto simp: filter_id_conv filter_empty_conv)
  then have "filter (\<lambda>x. f x \<noteq> h) (as @ x # bs) = as @ bs" "filter (\<lambda>x. f x = h) (as @ x # bs) = [x]" using xs(2) by simp_all
  then show "take i xs @ drop (i + 1) xs = filter (\<lambda>x. f x \<noteq> h) xs" "filter (\<lambda>x. f x = h) xs = [xs ! i]"
    unfolding xs(1) [symmetric] by (simp_all add: as_def bs_def x_def)
qed

lemma CancelRequest_unlocked:
  assumes "\<not> locked self" and d: "distinct (map request_handle (requests self))"
  shows "snd (GG_CoapEndpoint_CancelRequest h self) = self\<lparr>requests := filter (\<lambda>c. request_handle c \<noteq> h) (requests self),
    timer_scheduler := destroy_timers (filter (\<lambda>c. request_handle c = h) (requests self)) (timer_scheduler self)\<rparr>"
proof (cases "find_index (\<lambda>ctx. request_handle ctx = h) (requests self)")
  case None
  then have "filter (\<lambda>c. request_handle c \<noteq> h) (requests self) = requests self" "filter (\<lambda>c. request_handle c = h) (requests self) = []"
    by (auto simp: find_index_None filter_id_conv filter_empty_conv)
  with None show ?thesis by (simp add: GG_CoapEndpoint_CancelRequest_def destroy_timers_def)
next
  case (Some i)
  from find_index_Some [OF this] have i: "i < length (requests self)" "request_handle (requests self ! i) = h" by auto
  with Some assms(1) remove_index [OF i(1) d i(2)] show ?thesis
    by (simp add: GG_CoapEndpoint_CancelRequest_def GG_CoapRequestContext_Cancel_def GG_CoapRequestContext_Destroy_def destroy_timers_def)
qed

lemma cancel_all_unlocked:
  assumes "\<not> locked self" and "distinct (map request_handle (requests self))" and "timers_ok X (timer_scheduler self) (requests self)"
  shows "\<exists>s. cancel_all hs self = self\<lparr>requests := filter (\<lambda>c. request_handle c \<notin> set hs) (requests self), timer_scheduler := s\<rparr> \<and>
    timers_ok X s (filter (\<lambda>c. request_handle c \<notin> set hs) (requests self)) \<and> now s = now (timer_scheduler self)"
  using assms
proof (induction hs arbitrary: self)
  case Nil
  then show ?case by (auto simp: cancel_all_def intro: exI [of _ "timer_scheduler self"])
next
  case (Cons h hs)
  let ?cs = "filter (\<lambda>c. request_handle c \<noteq> h) (requests self)"
  let ?s = "destroy_timers (filter (\<lambda>c. request_handle c = h) (requests self)) (timer_scheduler self)"
  let ?self = "self\<lparr>requests := ?cs, timer_scheduler := ?s\<rparr>"
  have "timers_ok X (timer_scheduler ?self) (requests ?self)"
    using drop_timers_ok [OF Cons.prems(3), of "\<lambda>c. request_handle c = h"] by simp
  from Cons.IH [OF _ _ this] Cons.prems obtain s where
    s: "cancel_all hs ?self = ?self\<lparr>requests := filter (\<lambda>c. request_handle c \<notin> set hs) ?cs, timer_scheduler := s\<rparr>"
    "timers_ok X s (filter (\<lambda>c. request_handle c \<notin> set hs) ?cs)" "now s = now (timer_scheduler self)"
    by (auto simp: distinct_map_filter)
  have "filter (\<lambda>c. request_handle c \<notin> set hs) ?cs = filter (\<lambda>c. request_handle c \<notin> set (h # hs)) (requests self)"
    by (auto intro: filter_cong)
  with s Cons.prems show ?case by (auto simp: cancel_all_def CancelRequest_unlocked)
qed

section \<open>Events\<close>

definition no_cancel :: "'s user \<Rightarrow> bool" where
  "no_cancel U \<longleftrightarrow> (\<forall>l ev s. fst (user_listen U l ev s) = [])"

lemma listen_locked:
  assumes "locked self" and "distinct (map request_handle (requests self))"
  shows "\<exists>hs s. listen U l ev self = self\<lparr>app := (s, snd (app self) @ [(l, ev)]), requests := map (mark hs) (requests self)\<rparr> \<and>
    (no_cancel U \<longrightarrow> hs = [])"
proof -
  obtain s log hs s' where "app self = (s, log)" "user_listen U l ev s = (hs, s')" by (meson surj_pair)
  then show ?thesis
    using assms cancel_all_locked [of "self\<lparr>app := (s', log @ [(l, ev)])\<rparr>" hs]
    by (auto simp: listen_def no_cancel_def intro!: exI [of _ hs] exI [of _ s']) (metis fst_conv)
qed

lemma listen_unlocked:
  assumes "\<not> locked self" and "distinct (map request_handle (requests self))" and "timers_ok X (timer_scheduler self) (requests self)"
  shows "\<exists>hs s sch. listen U l ev self = self\<lparr>app := (s, snd (app self) @ [(l, ev)]),
      requests := filter (\<lambda>c. request_handle c \<notin> set hs) (requests self), timer_scheduler := sch\<rparr> \<and>
    timers_ok X sch (filter (\<lambda>c. request_handle c \<notin> set hs) (requests self)) \<and> now sch = now (timer_scheduler self) \<and>
    (no_cancel U \<longrightarrow> hs = [])"
proof -
  obtain s log hs s' where u: "app self = (s, log)" "user_listen U l ev s = (hs, s')" by (meson surj_pair)
  then have "no_cancel U \<longrightarrow> hs = []" by (metis fst_conv no_cancel_def)
  then show ?thesis
    using u assms cancel_all_unlocked [of "self\<lparr>app := (s', log @ [(l, ev)])\<rparr>" X hs] by (auto simp: listen_def)
qed

lemma log_ok_event:
  assumes ok: "log_ok X log cs" and c: "c \<in> set cs" and p: "proper (evs (request_listener c) log @ [ev])"
  shows "log_ok (insert (request_ptr c) X) (log @ [(request_listener c, ev)]) cs"
proof -
  have other: "request_ptr d = request_ptr c" if "d \<in> set cs" "request_listener c = request_listener d" for d
    using ok c that by (auto simp: log_ok_def distinct_map inj_on_def)
  then show ?thesis using ok p by (auto simp: log_ok_def)
qed

lemma log_ok_map:
  assumes ok: "log_ok X log cs" and f: "\<And>c. c \<in> set cs \<Longrightarrow> request_ptr (f c) = request_ptr c"
    "\<And>c. c \<in> set cs \<Longrightarrow> request_listener (f c) = request_listener c"
    "\<And>c. c \<in> set cs \<Longrightarrow> request_ptr c \<notin> X \<Longrightarrow> waiting (f c) \<Longrightarrow> waiting c"
    "\<And>c. c \<in> set cs \<Longrightarrow> request_ptr c \<notin> X \<Longrightarrow> request_state (f c) = GG_COAP_REQUEST_STATE_ACKED \<Longrightarrow>
      request_state c = GG_COAP_REQUEST_STATE_ACKED"
  shows "log_ok X log (map f cs)"
proof -
  have "map request_listener (map f cs) = map request_listener cs" using f(2) by simp
  then have "distinct (map request_listener (map f cs))" using ok unfolding log_ok_def by metis
  then show ?thesis using ok f by (auto simp: log_ok_def)
qed

lemma log_ok_settled:
  assumes "log_ok X log cs" and "\<And>c. c \<in> set cs \<Longrightarrow> request_ptr c \<in> X \<Longrightarrow> cancelled c"
  shows "log_ok {} log cs"
  using assms by (auto simp: log_ok_def waiting_def)

section \<open>Sending requests\<close>

text \<open>
  How an operation may change a request without ending it, and what it keeps of the promise to a listener: a request
  that waits keeps waiting or has been ended with an error.
\<close>

definition evolves :: "GG_CoapRequestContext \<Rightarrow> GG_CoapRequestContext \<Rightarrow> bool" where
  "evolves c d \<longleftrightarrow> (\<exists>st. d = c\<lparr>request_state := st\<rparr>) \<and> (waiting d \<longrightarrow> waiting c)"

definition promised :: "nat \<Rightarrow> 's endpoint \<Rightarrow> bool" where
  "promised l self \<longleftrightarrow> (\<exists>c \<in> set (requests self). waiting c \<and> request_listener c = l) \<or>
     (\<exists>err \<in> {GG_ERROR_TIMEOUT, GG_ERROR_COAP_SEND_FAILURE}. evs l (snd (app self)) = [Ev_Error err])"

definition progress :: "'s user \<Rightarrow> 's endpoint \<Rightarrow> 's endpoint \<Rightarrow> bool" where
  "progress U self self' \<longleftrightarrow> locked self' = locked self \<and> now (timer_scheduler self') = now (timer_scheduler self) \<and>
     (no_cancel U \<longrightarrow> (\<forall>l. promised l self \<longrightarrow> promised l self'))"

lemma progress_refl: "progress U self self"
  by (simp add: progress_def)

lemma progress_trans: "progress U a b \<Longrightarrow> progress U b c \<Longrightarrow> progress U a c"
  by (auto simp: progress_def)

lemma evolves_refl: "evolves c c"
  by (cases c) (auto simp: evolves_def)

lemma evolves_trans: "evolves a b \<Longrightarrow> evolves b c \<Longrightarrow> evolves a c"
  by (auto simp: evolves_def)

lemma evolves_mark: "evolves c (mark hs c)"
  by (cases c) (auto simp: evolves_def mark_def waiting_def)

lemma evolves_all_trans: "list_all2 evolves xs ys \<Longrightarrow> list_all2 evolves ys zs \<Longrightarrow> list_all2 evolves xs zs"
  using list_all2_trans [of evolves evolves evolves] evolves_trans by blast

lemma evolves_map_mark: "list_all2 evolves xs (map (mark hs) xs)"
  by (auto simp: list_all2_conv_all_nth intro: evolves_mark)

lemma mark_waiting: "waiting (mark hs c) \<longleftrightarrow> waiting c \<and> request_handle c \<notin> set hs"
  by (auto simp: mark_def waiting_def)

lemma mark_acked: "request_state (mark hs c) = GG_COAP_REQUEST_STATE_ACKED \<Longrightarrow> request_state c = GG_COAP_REQUEST_STATE_ACKED"
  by (auto simp: mark_def split: if_splits)

lemma mark_inv:
  assumes "timers_ok X s cs" and "log_ok Y log cs"
  shows "timers_ok X s (map (mark hs) cs)" "log_ok Y log (map (mark hs) cs)"
  using timers_ok_map [OF assms(1), of "mark hs"] log_ok_map [OF assms(2), of "mark hs"]
  by (auto simp: mark_waiting dest: mark_acked)

text \<open>A change of the state of one waiting request to another waiting state.\<close>

lemma ep_inv_set_state:
  assumes inv: "ep_inv X self" and i: "i < length (requests self)" and w: "waiting (requests self ! i)"
    and st: "st = GG_COAP_REQUEST_STATE_READY_TO_SEND \<or> st = GG_COAP_REQUEST_STATE_WAITING_FOR_ACK"
  shows "ep_inv X (set_request i ((requests self ! i)\<lparr>request_state := st\<rparr>) self)"
    and "list_all2 evolves (requests self) (requests (set_request i ((requests self ! i)\<lparr>request_state := st\<rparr>) self))"
    and "promised l self \<Longrightarrow> promised l (set_request i ((requests self ! i)\<lparr>request_state := st\<rparr>) self)"
proof -
  let ?c = "requests self ! i"
  define f where "f = (\<lambda>c. if c = ?c then c\<lparr>request_state := st\<rparr> else c)"
  have d: "distinct (requests self)" using inv by (auto simp: ep_inv_def timers_ok_def distinct_map)
  have cs: "(requests self)[i := ?c\<lparr>request_state := st\<rparr>] = map f (requests self)"
    using i d by (intro nth_equalityI) (auto simp: f_def nth_list_update nth_eq_iff_index_eq)
  have w': "waiting (?c\<lparr>request_state := st\<rparr>)" "\<not> cancelled (?c\<lparr>request_state := st\<rparr>)"
    "request_state (?c\<lparr>request_state := st\<rparr>) \<noteq> GG_COAP_REQUEST_STATE_ACKED" using st by (auto simp: waiting_def)
  have f: "request_ptr (f c) = request_ptr c" "resend_timer (f c) = resend_timer c" "request_listener (f c) = request_listener c"
    "request_handle (f c) = request_handle c" "waiting (f c) \<Longrightarrow> waiting c" "cancelled (f c) \<Longrightarrow> cancelled c" "waiting c \<Longrightarrow> waiting (f c)"
    "request_state (f c) = GG_COAP_REQUEST_STATE_ACKED \<Longrightarrow> request_state c = GG_COAP_REQUEST_STATE_ACKED" for c
    using w w' by (auto simp: f_def split: if_splits)
  have "map request_handle (map f (requests self)) = map request_handle (requests self)" using f(4) by simp
  then have "distinct (map request_handle (map f (requests self)))" using inv unfolding ep_inv_def by metis
  moreover have "timers_ok X (timer_scheduler self) (map f (requests self))"
    using inv f(1,2,5,8) unfolding ep_inv_def by (blast intro: timers_ok_map)
  moreover have "log_ok X (snd (app self)) (map f (requests self))"
    using inv f(1,3,5,8) unfolding ep_inv_def by (blast intro: log_ok_map)
  moreover have "\<forall>c \<in> set (map f (requests self)). request_ptr c < next_ptr self" using inv f(1) by (auto simp: ep_inv_def)
  moreover have "locked self \<or> (\<forall>c \<in> set (map f (requests self)). \<not> cancelled c)"
    using inv f(6) unfolding ep_inv_def by auto
  ultimately show "ep_inv X (set_request i (?c\<lparr>request_state := st\<rparr>) self)"
    using inv unfolding ep_inv_def set_request_def cs by (simp del: set_map list.set_map map_map)
  have "evolves ?c (?c\<lparr>request_state := st\<rparr>)" unfolding evolves_def using w by blast
  then have "evolves c (f c)" for c by (simp add: f_def evolves_refl)
  then show "list_all2 evolves (requests self) (requests (set_request i (?c\<lparr>request_state := st\<rparr>) self))"
    unfolding set_request_def cs by (auto simp: list_all2_conv_all_nth)
  show "promised l self \<Longrightarrow> promised l (set_request i (?c\<lparr>request_state := st\<rparr>) self)"
    unfolding promised_def set_request_def cs using f(3,7) by auto
qed

lemma ep_inv_app: "ep_inv X self \<Longrightarrow> snd e = snd (app self) \<Longrightarrow> ep_inv X (self\<lparr>app := e\<rparr>)"
  by (simp add: ep_inv_def)

lemma callbacks_put:
  "GG_DataSink_PutData (callbacks U junk) k d m e = (r, e') \<Longrightarrow> snd e' = snd e"
  by (auto simp: callbacks_def split: prod.splits)

text \<open>The end of a request under the lock: the listener is told, and the request and those the listener cancels are marked.\<close>

lemma notify_locked:
  assumes inv: "ep_inv {} self" and l: "locked self" and c: "c \<in> set (requests self)" and w: "waiting c"
  shows "\<exists>self'. GG_CoapRequestContext_NotifyErrorAndTerminate (callbacks U junk) GG_ERROR_COAP_SEND_FAILURE c self = Some self' \<and>
    ep_inv {} self' \<and> timer_scheduler self' = timer_scheduler self \<and> list_all2 evolves (requests self) (requests self') \<and> progress U self self'"
proof -
  have d: "distinct (map request_handle (requests self))" using inv by (simp add: ep_inv_def)
  let ?log = "snd (app self) @ [(request_listener c, Ev_Error GG_ERROR_COAP_SEND_FAILURE)]"
  from listen_locked [OF l d, of U "request_listener c" "Ev_Error GG_ERROR_COAP_SEND_FAILURE"] obtain hs s where
    hs: "listen U (request_listener c) (Ev_Error GG_ERROR_COAP_SEND_FAILURE) self =
      self\<lparr>app := (s, ?log), requests := map (mark hs) (requests self)\<rparr>" "no_cancel U \<longrightarrow> hs = []" by blast
  let ?cs = "map (mark [request_handle c]) (map (mark hs) (requests self))"
  let ?self = "self\<lparr>app := (s, ?log), requests := ?cs\<rparr>"
  have run: "GG_CoapRequestContext_NotifyErrorAndTerminate (callbacks U junk) GG_ERROR_COAP_SEND_FAILURE c self = Some ?self"
    using hs(1) CancelRequest_locked [of "self\<lparr>app := (s, ?log), requests := map (mark hs) (requests self)\<rparr>"] l d
    by (simp add: GG_CoapRequestContext_NotifyErrorAndTerminate_def callbacks_def comp_def)
  have e: "evs (request_listener c) (snd (app self)) = []" using inv c w by (auto simp: ep_inv_def log_ok_def)
  have "log_ok {request_ptr c} ?log (requests self)"
    using log_ok_event [of "{}" "snd (app self)" "requests self" c "Ev_Error GG_ERROR_COAP_SEND_FAILURE"] inv c e
    by (auto simp: ep_inv_def proper_def)
  moreover have "timers_ok {} (timer_scheduler self) (requests self)" using inv by (simp add: ep_inv_def)
  ultimately have m: "timers_ok {} (timer_scheduler self) ?cs" "log_ok {request_ptr c} ?log ?cs"
    by (auto intro!: mark_inv simp del: map_map)
  have u: "d = c" if "d \<in> set (requests self)" "request_ptr d = request_ptr c" for d
    using inv that c by (auto simp: ep_inv_def timers_ok_def distinct_map inj_on_def)
  have "cancelled d" if "d \<in> set ?cs" "request_ptr d \<in> {request_ptr c}" for d
    using that by (auto simp: mark_state dest: u)
  from log_ok_settled [OF m(2) this] have "log_ok {} ?log ?cs" .
  then have "ep_inv {} ?self"
    using inv m(1) l by (auto simp: ep_inv_def comp_def)
  moreover have "list_all2 evolves (requests self) ?cs"
    using evolves_all_trans [OF evolves_map_mark evolves_map_mark] by blast
  moreover have "promised k ?self" if n: "no_cancel U" and k: "promised k self" for k
  proof (cases "k = request_listener c")
    case True
    then show ?thesis using e by (auto simp: promised_def)
  next
    case False
    have "request_handle d \<noteq> request_handle c" if "d \<in> set (requests self)" "request_listener d = k" for d
      using d c that False by (auto simp: distinct_map inj_on_def)
    then show ?thesis using k hs(2) n False by (auto simp: promised_def mark_waiting)
  qed
  ultimately show ?thesis using run by (auto simp: progress_def)
qed

lemma TryToSend_locked:
  assumes inv: "ep_inv {} self" and l: "locked self" and i: "i < length (requests self)"
    and r: "request_state (requests self ! i) = GG_COAP_REQUEST_STATE_READY_TO_SEND"
  shows "\<exists>r self'. GG_CoapRequestContext_TryToSend (callbacks U junk) i self = Some (r, self') \<and> ep_inv {} self' \<and>
    timer_scheduler self' = timer_scheduler self \<and> list_all2 evolves (requests self) (requests self') \<and> progress U self self'"
proof (cases "connection_sink self")
  case None
  then show ?thesis
    using inv by (auto simp: GG_CoapRequestContext_TryToSend_def progress_refl list_all2_refl evolves_refl)
next
  case (Some sink)
  let ?c = "requests self ! i"
  obtain res e where put: "GG_DataSink_PutData (callbacks U junk) sink (GG_CoapMessage_ToDatagram (request_message ?c)) None (app self) = (res, e)"
    by (meson surj_pair)
  let ?self = "self\<lparr>app := e\<rparr>"
  have e: "snd e = snd (app self)" using callbacks_put [OF put] .
  have inv': "ep_inv {} ?self" using ep_inv_app [OF inv e] .
  have p: "progress U self ?self" using e by (simp add: progress_def promised_def)
  have w: "waiting ?c" using r by (simp add: waiting_def)
  consider (block) "res = GG_ERROR_WOULD_BLOCK" | (ok) "res = GG_SUCCESS" | (fail) "res \<noteq> GG_ERROR_WOULD_BLOCK" "res \<noteq> GG_SUCCESS" by blast
  then show ?thesis
  proof cases
    case block
    then show ?thesis using Some put r inv' p by (simp add: GG_CoapRequestContext_TryToSend_def list_all2_refl evolves_refl)
  next
    case ok
    let ?self' = "set_request i (?c\<lparr>request_state := GG_COAP_REQUEST_STATE_WAITING_FOR_ACK\<rparr>) ?self"
    have "GG_CoapRequestContext_TryToSend (callbacks U junk) i self = Some (res, ?self')"
      using Some put r ok by (simp add: GG_CoapRequestContext_TryToSend_def)
    moreover have "progress U ?self ?self'"
      using ep_inv_set_state(3) [OF inv', of i GG_COAP_REQUEST_STATE_WAITING_FOR_ACK] i w by (simp add: progress_def set_request_def)
    ultimately show ?thesis
      using ep_inv_set_state(1,2) [OF inv', of i GG_COAP_REQUEST_STATE_WAITING_FOR_ACK] i w progress_trans [OF p]
      by (simp add: set_request_def)
  next
    case fail
    have "?c \<in> set (requests ?self)" using i by simp
    from notify_locked [OF inv' _ this w, of U junk] l obtain self' where
      n: "GG_CoapRequestContext_NotifyErrorAndTerminate (callbacks U junk) GG_ERROR_COAP_SEND_FAILURE ?c ?self = Some self'"
      "ep_inv {} self'" "timer_scheduler self' = timer_scheduler ?self" "list_all2 evolves (requests ?self) (requests self')"
      "progress U ?self self'" by auto
    then have "GG_CoapRequestContext_TryToSend (callbacks U junk) i self = Some (GG_SUCCESS, self')"
      using Some put r fail by (simp add: GG_CoapRequestContext_TryToSend_def)
    then show ?thesis using n progress_trans [OF p n(5)] by simp
  qed
qed

lemma send_loop_locked:
  assumes "ep_inv {} self" and "locked self"
  shows "\<exists>self'. send_loop (callbacks U junk) i self = Some self' \<and> ep_inv {} self' \<and>
    timer_scheduler self' = timer_scheduler self \<and> list_all2 evolves (requests self) (requests self') \<and> progress U self self'"
  using assms
proof (induction "length (requests self) - i" arbitrary: i self rule: less_induct)
  case less
  let ?ok = "\<lambda>self self'. ep_inv {} self' \<and> timer_scheduler self' = timer_scheduler self \<and>
    list_all2 evolves (requests self) (requests self') \<and> progress U self self'"
  show ?case
  proof (cases "i \<ge> length (requests self)")
    case True
    then show ?thesis using less.prems by (subst send_loop.simps) (simp add: progress_refl list_all2_refl evolves_refl)
  next
    case False
    have "\<exists>r self1. (if request_state (requests self ! i) = GG_COAP_REQUEST_STATE_READY_TO_SEND
           then GG_CoapRequestContext_TryToSend (callbacks U junk) i self else Some (GG_SUCCESS, self)) = Some (r, self1) \<and> ?ok self self1"
      using TryToSend_locked [OF less.prems, of i U junk] False less.prems(1)
      by (simp add: progress_refl list_all2_refl evolves_refl)
    then obtain r self1 where st: "(if request_state (requests self ! i) = GG_COAP_REQUEST_STATE_READY_TO_SEND
           then GG_CoapRequestContext_TryToSend (callbacks U junk) i self else Some (GG_SUCCESS, self)) = Some (r, self1)"
      and ok: "?ok self self1" by blast
    have len: "length (requests self1) = length (requests self)" using ok list_all2_lengthD by fastforce
    show ?thesis
    proof (cases "r = GG_ERROR_WOULD_BLOCK \<or> i + 1 = length (requests self)")
      case True
      then have "send_loop (callbacks U junk) i self = Some self1" using False st by (subst send_loop.simps) auto
      then show ?thesis using ok by blast
    next
      case more: False
      then have eq: "send_loop (callbacks U junk) i self = send_loop (callbacks U junk) (i + 1) self1"
        using False st by (subst send_loop.simps) auto
      have "locked self1" using ok less.prems(2) by (simp add: progress_def)
      with less.hyps [of self1 "i + 1"] ok False len obtain self2 where
        "send_loop (callbacks U junk) (i + 1) self1 = Some self2" "?ok self1 self2" by fastforce
      then show ?thesis
        using eq ok evolves_all_trans [of "requests self" "requests self1" "requests self2"] progress_trans [of U self self1 self2] by auto
    qed
  qed
qed

text \<open>
  How far the requests are from their end: a request whose timer runs is resent until its counter reaches the
  maximum, and then given up.
\<close>

definition potential :: "GG_CoapRequestContext list \<Rightarrow> nat" where
  "potential cs = sum_list (map (\<lambda>c. if resend_timer c = None then 0 else Suc (unat (max_resends c) - unat (resend_count c))) cs)"

lemma potential_evolves: "list_all2 evolves cs ds \<Longrightarrow> potential ds = potential cs"
  by (induction rule: list_all2_induct) (auto simp: potential_def evolves_def)

lemma potential_filter: "potential (filter P cs) \<le> potential cs"
  by (induction cs) (auto simp: potential_def)

lemma promised_cleaned: "promised l (cleaned self) = promised l self"
  by (auto simp: promised_def cleaned_def waiting_def)

lemma SendPendingRequests_unlocked:
  assumes inv: "ep_inv {} self" and l: "\<not> locked self"
  shows "\<exists>self'. GG_CoapEndpoint_SendPendingRequests (callbacks U junk) self = Some self' \<and> ep_inv {} self' \<and> progress U self self' \<and>
    potential (requests self') \<le> potential (requests self)"
proof -
  have "ep_inv {} (self\<lparr>locked := True\<rparr>)" using inv by (simp add: ep_inv_def)
  from send_loop_locked [OF this, of U junk 0] obtain self1 where
    s: "send_loop (callbacks U junk) 0 (self\<lparr>locked := True\<rparr>) = Some self1" "ep_inv {} self1"
    "list_all2 evolves (requests self) (requests self1)" "progress U (self\<lparr>locked := True\<rparr>) self1" by auto
  have "GG_CoapEndpoint_SendPendingRequests (callbacks U junk) self = Some (cleaned self1)"
    using s(1) l by (simp add: GG_CoapEndpoint_SendPendingRequests_def unlock_cleaned Let_def)
  moreover have "progress U self (cleaned self1)"
    using s(4) l by (auto simp: progress_def promised_cleaned) (auto simp: promised_def cleaned_def)
  moreover have "potential (requests (cleaned self1)) \<le> potential (requests self)"
    using potential_evolves [OF s(3)] potential_filter [of "\<lambda>c. \<not> cancelled c" "requests self1"] by (simp add: cleaned_def)
  ultimately show ?thesis using cleaned_inv [OF s(2)] by blast
qed

end
