(* ===== verification/Coap_Dispatch.thy ===== *)
theory Coap_Dispatch
  imports Coap_Endpoint Coap_Message_Props
begin

text \<open>
  The dispatch of requests: the search for a handler always returns, and it finds the first handler whose path is
  made of leading segments of the path of the request.
\<close>

section \<open>The search returns\<close>

lemma at_step:
  assumes "at data it d"
  shows "\<exists>it' d'. GG_CoapMessage_StepOptionIterator1 data it = Some it' \<and> at data it' d' \<and> iter_filter it' = iter_filter it \<and>
    (iter_number it' \<noteq> 0 \<longrightarrow> length d' < length d)"
proof (cases "options_end d")
  case True
  have "at data (end_iteration it) d" using assms by (simp add: at_def end_iteration_def)
  with at_end [OF assms True] show ?thesis
    by (intro exI [of _ "end_iteration it"] exI [of _ d]) (simp add: end_iteration_def)
next
  case False
  from at_next [OF assms False] obtain delta v d' it' where n: "next_option d = Some (delta, v, d')"
    "GG_CoapMessage_StepOptionIterator1 data it = Some it'" "at data it' d'" "iter_filter it' = iter_filter it" by blast
  then show ?thesis using next_option_shorter [OF n(1)] False by (auto simp: options_end_def)
qed

lemma at_step_filtered:
  assumes "at data it d"
  shows "\<exists>it' d'. step_filtered data it = Some it' \<and> at data it' d' \<and> iter_filter it' = iter_filter it"
  using assms
proof (induction "length d" arbitrary: it d rule: less_induct)
  case less
  from at_step [OF less.prems] obtain it1 d1 where s: "GG_CoapMessage_StepOptionIterator1 data it = Some it1" "at data it1 d1"
    "iter_filter it1 = iter_filter it" "iter_number it1 \<noteq> 0 \<longrightarrow> length d1 < length d" by blast
  show ?case
  proof (cases "iter_number it1 \<noteq> 0 \<and> iter_number it1 \<noteq> iter_filter it1")
    case True
    with less.hyps [of d1 it1] s show ?thesis by (subst step_filtered.simps) simp
  next
    case False
    with s show ?thesis by (subst step_filtered.simps) auto
  qed
qed

lemma at_StepOptionIterator:
  assumes "at (message_data m) it d"
  shows "\<exists>it' d'. GG_CoapMessage_StepOptionIterator m it = Some it' \<and> at (message_data m) it' d'"
  using at_step [OF assms] at_step_filtered [OF assms] by (auto simp: GG_CoapMessage_StepOptionIterator_def)

lemma at_start:
  assumes ok: "message_ok m"
  shows "at (message_data m) \<lparr>iter_number = 0, iter_value = GG_COAP_MESSAGE_OPTION_TYPE_EMPTY, iter_filter = filt,
    iter_location = 4 + unat (message_data m ! 0 AND 0xF), iter_end = payload_offset m\<rparr>
    (drop (4 + unat (message_data m ! 0 AND 0xF)) (message_data m))"
proof -
  let ?t = "4 + unat (message_data m ! 0 AND 0xF)"
  from ok obtain rest where r: "skip_options (drop ?t (message_data m)) = Inr rest"
    "if rest = [] then payload_size m = 0 else payload_size m = length rest - 1 \<and> 2 \<le> length rest"
    "payload_offset m = length (message_data m) - payload_size m" "?t \<le> length (message_data m)"
    by (auto simp: message_ok_def split: if_splits)
  have "length rest \<le> length (message_data m)" using skip_options_length [OF r(1)] by simp
  with r show ?thesis
    unfolding at_def by (intro exI [of _ "take ?t (message_data m)"] exI [of _ rest]) (auto split: if_splits)
qed

lemma match_path_total:
  "at (message_data m) it d \<Longrightarrow> \<exists>b. match_path m it path = Some b"
proof (induction "length path" arbitrary: it d path rule: less_induct)
  case less
  show ?case
  proof (cases "iter_value it")
    case (GG_COAP_MESSAGE_OPTION_TYPE_STRING chars n)
    from at_StepOptionIterator [OF less.prems] obtain it' d' where
      it': "GG_CoapMessage_StepOptionIterator m it = Some it'" "at (message_data m) it' d'" by blast
    have "\<exists>b. match_path m it' (tl (drop n path)) = Some b" if "drop n path \<noteq> []"
      using that by (intro less.hyps [OF _ it'(2)]) auto
    then show ?thesis using it'(1) GG_COAP_MESSAGE_OPTION_TYPE_STRING by (subst match_path.simps) auto
  qed (subst match_path.simps; auto)+
qed

lemma find_handler_total:
  assumes "message_ok m"
  shows "\<exists>node. find_handler m default_node nodes = Some node"
proof (induction nodes)
  case (Cons node nodes)
  let ?f = GG_COAP_MESSAGE_OPTION_URI_PATH
  from at_StepOptionIterator [OF at_start [OF assms, of ?f]] obtain it d where
    "GG_CoapMessage_InitOptionIterator m ?f = Some it" "at (message_data m) it d" by (auto simp: GG_CoapMessage_InitOptionIterator_def)
  moreover from match_path_total [OF this(2)] obtain b where "match_path m it (handler_path node) = Some b" by blast
  ultimately show ?case using Cons by auto
qed simp

section \<open>What it finds\<close>

definition uri_path :: "GG_CoapMessage \<Rightarrow> bytes list" where
  "uri_path m = map snd (visible 11 (message_options m))"

text \<open>The path of a handler covers a request when it is made of the leading segments of the path of the request.\<close>

fun join_path :: "bytes list \<Rightarrow> bytes" where
  "join_path [] = []"
| "join_path [s] = s"
| "join_path (s # ss) = s @ 0x2F # join_path ss"

definition covers :: "bytes \<Rightarrow> bytes list \<Rightarrow> bool" where
  "covers path segments \<longleftrightarrow> (\<exists>k. 0 < k \<and> k \<le> length segments \<and> path = join_path (take k segments))"

fun path_matches :: "bytes list \<Rightarrow> bytes \<Rightarrow> bool" where
  "path_matches [] path = False"
| "path_matches (s # ss) path =
     (length s \<le> length path \<and> take (length s) path = s \<and>
      (drop (length s) path = [] \<or> hd (drop (length s) path) = 0x2F \<and> path_matches ss (tl (drop (length s) path))))"

lemma join_path_Cons: "ss \<noteq> [] \<Longrightarrow> join_path (s # ss) = s @ 0x2F # join_path ss"
  by (cases ss) simp_all

lemma path_matches_covers: "path_matches segments path \<longleftrightarrow> covers path segments"
proof (induction segments arbitrary: path)
  case Nil
  then show ?case by (simp add: covers_def)
next
  case (Cons s ss)
  have split: "take (length s) path = s \<longleftrightarrow> (\<exists>rest. path = s @ rest)" by (metis append_eq_conv_conj append_take_drop_id)
  have one: "covers path (s # ss) \<longleftrightarrow> path = s \<or> (\<exists>k. 0 < k \<and> k \<le> length ss \<and> path = s @ 0x2F # join_path (take k ss))"
  proof
    assume "covers path (s # ss)"
    then obtain k where k: "0 < k" "k \<le> Suc (length ss)" "path = join_path (take k (s # ss))" by (auto simp: covers_def)
    show "path = s \<or> (\<exists>k. 0 < k \<and> k \<le> length ss \<and> path = s @ 0x2F # join_path (take k ss))"
    proof (cases "k = 1")
      case False
      with k have "0 < k - 1" "k - 1 \<le> length ss" "take k (s # ss) = s # take (k - 1) ss" by (auto simp: take_Cons')
      then have "path = s @ 0x2F # join_path (take (k - 1) ss)" using k(3) join_path_Cons [of "take (k - 1) ss" s] by force
      then show ?thesis using \<open>0 < k - 1\<close> \<open>k - 1 \<le> length ss\<close> by blast
    qed (use k in simp)
  next
    assume "path = s \<or> (\<exists>k. 0 < k \<and> k \<le> length ss \<and> path = s @ 0x2F # join_path (take k ss))"
    then show "covers path (s # ss)"
    proof
      assume "path = s"
      then show ?thesis by (auto simp: covers_def intro!: exI [of _ 1])
    next
      assume "\<exists>k. 0 < k \<and> k \<le> length ss \<and> path = s @ 0x2F # join_path (take k ss)"
      then obtain k where k: "0 < k" "k \<le> length ss" "path = s @ 0x2F # join_path (take k ss)" by blast
      then have "path = join_path (take (Suc k) (s # ss))" using join_path_Cons [of "take k ss" s] by force
      then show ?thesis using k by (auto simp: covers_def intro!: exI [of _ "Suc k"])
    qed
  qed
  show ?case
  proof (cases "take (length s) path = s")
    case True
    then obtain rest where "path = s @ rest" using split by blast
    then show ?thesis unfolding one using Cons.IH [of "tl rest"] by (cases rest) (auto simp: covers_def)
  next
    case False
    then show ?thesis unfolding one by auto
  qed
qed

definition found :: "bytes \<Rightarrow> u32 \<Rightarrow> (u32 \<times> bytes) list \<Rightarrow> GG_CoapMessageOptionIterator \<Rightarrow> bool" where
  "found data filt opts it = (case opts of
       [] \<Rightarrow> iter_value it = GG_COAP_MESSAGE_OPTION_TYPE_EMPTY
     | (n, v) # ms \<Rightarrow> n = filt \<and> iter_number it = n \<and> iter_value it = decode_option n v \<and> iter_filter it = filt \<and>
         (\<exists>d. at data it d \<and> visible filt (raw_options n d) = ms \<and> 0 \<notin> fst ` set (raw_options n d)))"

lemma step_filtered_found:
  assumes "at data it d" and "iter_filter it = filt" and "filt \<noteq> 0" and "0 \<notin> fst ` set (raw_options (iter_number it) d)"
  shows "\<exists>it'. step_filtered data it = Some it' \<and> found data filt (visible filt (raw_options (iter_number it) d)) it'"
  using assms
proof (induction "length d" arbitrary: it d rule: less_induct)
  case less
  show ?case
  proof (cases "options_end d")
    case True
    then show ?thesis using at_end [OF less.prems(1) True]
      by (subst step_filtered.simps) (simp add: end_iteration_def raw_options.simps visible_def found_def)
  next
    case False
    from at_next [OF less.prems(1) False] obtain delta v d' it' where n: "next_option d = Some (delta, v, d')"
      "GG_CoapMessage_StepOptionIterator1 data it = Some it'" "at data it' d'" "iter_number it' = iter_number it + of_nat delta"
      "iter_filter it' = filt"
      "iter_value it' = (if filt = 0 \<or> filt = iter_number it' then decode_option (iter_number it') v else iter_value it)"
      using less.prems(2) by auto
    have raw: "raw_options (iter_number it) d = (iter_number it', v) # raw_options (iter_number it') d'"
      using False n(1,4) by (subst raw_options.simps) simp
    with less.prems(4) have nz: "iter_number it' \<noteq> 0" "0 \<notin> fst ` set (raw_options (iter_number it') d')" by auto
    have len: "length d' < length d" using next_option_shorter [OF n(1)] False by (auto simp: options_end_def)
    show ?thesis
    proof (cases "iter_number it' = filt")
      case True
      with n nz raw show ?thesis by (subst step_filtered.simps) (auto simp: found_def visible_def)
    next
      case other: False
      have "visible filt (raw_options (iter_number it) d) = visible filt (raw_options (iter_number it') d')"
        using raw other nz(1) less.prems(3) by (simp add: visible_def)
      with less.hyps [OF len n(3,5) less.prems(3) nz(2)] other n(2,5) nz(1) show ?thesis
        by (subst step_filtered.simps) simp
    qed
  qed
qed

lemma match_path_found:
  assumes "found (message_data m) 11 opts it"
  shows "match_path m it path = Some (path_matches (map snd opts) path)"
  using assms
proof (induction opts arbitrary: it path)
  case Nil
  then show ?case by (subst match_path.simps) (simp add: found_def)
next
  case (Cons nv ms)
  obtain v where nv: "nv = (11, v)" using Cons.prems by (cases nv) (auto simp: found_def)
  from Cons.prems nv obtain d where d: "iter_number it = 11" "iter_value it = decode_option 11 v" "iter_filter it = 11"
    "at (message_data m) it d" "visible 11 (raw_options 11 d) = ms" "0 \<notin> fst ` set (raw_options 11 d)" by (auto simp: found_def)
  from step_filtered_found [OF d(4,3)] d(1,5,6) obtain it' where
    s: "step_filtered (message_data m) it = Some it'" "found (message_data m) 11 ms it'" by auto
  have "iter_value it = GG_COAP_MESSAGE_OPTION_TYPE_STRING v (length v)"
    using d(2) by (simp add: decode_option_def uint_option_def string_option_def)
  with s(1) d(3) Cons.IH [OF s(2)] nv show ?case
    by (subst match_path.simps) (auto simp: GG_CoapMessage_StepOptionIterator_def)
qed

lemma find_handler_spec:
  assumes ok: "message_ok m" and nz: "0 \<notin> fst ` set (message_options m)"
  shows "find_handler m default_node nodes =
    Some (case find (\<lambda>node. covers (handler_path node) (uri_path m)) nodes of None \<Rightarrow> default_node | Some node \<Rightarrow> Some node)"
proof (induction nodes)
  case (Cons node nodes)
  let ?f = GG_COAP_MESSAGE_OPTION_URI_PATH
  from step_filtered_found [OF at_start [OF ok, of 11]] nz obtain it where
    "GG_CoapMessage_InitOptionIterator m ?f = Some it" "found (message_data m) 11 (visible 11 (message_options m)) it"
    by (auto simp: GG_CoapMessage_InitOptionIterator_def GG_CoapMessage_StepOptionIterator_def message_options_def
        GG_COAP_MESSAGE_OPTION_URI_PATH_def)
  with match_path_found [OF this(2), of "handler_path node"] Cons show ?case
    by (simp add: path_matches_covers uri_path_def)
qed simp

end
