(* ===== verification/Coap_Endpoint_Run.thy ===== *)
theory Coap_Endpoint_Run
  imports Coap_Endpoint_Props Coap_Dispatch
begin

text \<open>
  Timers and whole executions of a CoAP endpoint: what happens when the time advances, that requests end, and that every
  sequence of operations keeps the invariant.
\<close>

section \<open>The timer of a request\<close>

lemma timers_ok_gone:
  assumes "timers_ok X s cs" and "\<And>c. c \<in> set cs \<Longrightarrow> request_ptr c \<notin> X"
  shows "timers_ok {} s cs"
  using assms by (auto simp: timers_ok_def timer_of_def split: option.splits)

lemma log_ok_mono: "log_ok X log cs \<Longrightarrow> X \<subseteq> Y \<Longrightarrow> log_ok Y log cs"
  by (auto simp: log_ok_def)

lemma same_timer:
  assumes "timers_ok X s cs" and "c \<in> set cs" "d \<in> set cs" and "resend_timer c = Some t" "resend_timer d = Some t"
  shows "c = d"
proof -
  have "inj_on resend_timer {c \<in> set cs. resend_timer c \<noteq> None}" using assms(1) by (simp add: timers_ok_def)
  then show ?thesis using assms(2-) by (intro inj_onD [of resend_timer "{c \<in> set cs. resend_timer c \<noteq> None}"]) simp_all
qed

lemma Unschedule_facts:
  assumes "listener (timers s t) \<noteq> None"
  shows "scheduled (GG_Timer_Unschedule t s) = removeAll t (scheduled s)"
    "set (frozen (GG_Timer_Unschedule t s)) = insert t (set (frozen s))"
    "x \<noteq> t \<Longrightarrow> timers (GG_Timer_Unschedule t s) x = timers s x" "now (GG_Timer_Unschedule t s) = now s"
  using assms by (auto simp: GG_Timer_Unschedule_def timer_defs)

lemma timers_ok_unschedule:
  assumes ok: "timers_ok {} s cs" and c: "c \<in> set cs" "resend_timer c = Some t"
  shows "timers_ok {request_ptr c} (GG_Timer_Unschedule t s) cs"
proof -
  let ?s = "GG_Timer_Unschedule t s"
  have t: "timer_invar s" "t \<in> set (scheduled s)" "listener (timers s t) = Some (request_ptr c)"
    using ok c by (auto simp: timers_ok_def timer_of_def)
  have bound: "t < GG_CONFIG_MAX_TIMERS" using t(1,2) by (auto simp: timer_invar_def)
  have u: "scheduled ?s = removeAll t (scheduled s)" "set (frozen ?s) = insert t (set (frozen s))"
    "\<And>x. x \<noteq> t \<Longrightarrow> timers ?s x = timers s x" "now ?s = now s"
    using Unschedule_facts [of s t] t(3) by auto
  have "timer_of {request_ptr c} ?s d" if d: "d \<in> set cs" for d
  proof (cases "d = c")
    case True
    have "timer_of {} s c" using ok c(1) by (auto simp: timers_ok_def)
    then show ?thesis using True c(2) u(2) by (simp add: timer_of_def)
  next
    case False
    then have "resend_timer d \<noteq> Some t" using same_timer [OF ok d c(1) _ c(2)] by blast
    moreover have "request_ptr d \<noteq> request_ptr c" using ok c(1) d False by (auto simp: timers_ok_def distinct_map inj_on_def)
    moreover have "timer_of {} s d" using ok d by (auto simp: timers_ok_def)
    ultimately show ?thesis using u(1,3) by (auto simp: timer_of_def split: option.splits)
  qed
  moreover have "started_by (now ?s) ?s" using ok u by (auto simp: timers_ok_def started_by_def)
  ultimately show ?thesis using ok Unschedule_invar [OF t(1) bound] u(1) by (simp add: timers_ok_def)
qed

lemma Schedule_facts:
  "set (scheduled (snd (GG_Timer_Schedule t (Some p) ms s))) = insert t (set (scheduled s))"
  "set (frozen (snd (GG_Timer_Schedule t (Some p) ms s))) = set (frozen s) - {t}"
  "x \<noteq> t \<Longrightarrow> timers (snd (GG_Timer_Schedule t (Some p) ms s)) x = timers s x"
  "timers (snd (GG_Timer_Schedule t (Some p) ms s)) t = \<lparr>listener = Some p, start_time = now s, fire_time = now s + ms\<rparr>"
  "now (snd (GG_Timer_Schedule t (Some p) ms s)) = now s"
  by (auto simp: GG_Timer_Schedule_def timer_defs)

lemma timers_ok_schedule:
  assumes ok: "timers_ok {request_ptr c} s cs" and c: "c \<in> set cs" "resend_timer c = Some t"
  shows "timers_ok {} (snd (GG_Timer_Schedule t (Some (request_ptr c)) ms s)) cs"
proof -
  let ?s = "snd (GG_Timer_Schedule t (Some (request_ptr c)) ms s)"
  have t: "timer_invar s" "t \<in> set (frozen s)" "request_state c \<noteq> GG_COAP_REQUEST_STATE_ACKED"
    using ok c by (auto simp: timers_ok_def timer_of_def)
  have bound: "t < GG_CONFIG_MAX_TIMERS" using t(1,2) by (auto simp: timer_invar_def)
  have "timer_of {} ?s d" if d: "d \<in> set cs" for d
  proof (cases "d = c")
    case True
    then show ?thesis using c(2) t(3) by (simp add: timer_of_def Schedule_facts)
  next
    case False
    then have "resend_timer d \<noteq> Some t" using same_timer [OF ok d c(1) _ c(2)] by blast
    moreover have "request_ptr d \<noteq> request_ptr c" using ok c(1) d False by (auto simp: timers_ok_def distinct_map inj_on_def)
    moreover have "timer_of {request_ptr c} s d" using ok d by (auto simp: timers_ok_def)
    ultimately show ?thesis by (auto simp: timer_of_def Schedule_facts split: option.splits)
  qed
  moreover have "start_time (timers ?s x) \<le> now ?s" if "x \<in> set (scheduled ?s)" for x
    using ok that by (cases "x = t") (auto simp: timers_ok_def started_by_def Schedule_facts)
  then have "started_by (now ?s) ?s" by (simp add: started_by_def)
  moreover have "\<exists>d \<in> set cs. resend_timer d = Some x" if "x \<in> set (scheduled ?s)" for x
    using ok that c by (cases "x = t") (auto simp: timers_ok_def Schedule_facts)
  ultimately show ?thesis using ok Schedule_invar [OF t(1) bound] by (simp add: timers_ok_def)
qed

lemma potential_remove:
  "c \<in> set cs \<Longrightarrow> resend_timer c \<noteq> None \<Longrightarrow> \<not> P c \<Longrightarrow> potential (filter P cs) < potential cs"
proof (induction cs)
  case (Cons d cs)
  then show ?case using potential_filter [of P cs] by (cases "d = c") (auto simp: potential_def)
qed simp

lemma potential_update:
  assumes "i < length cs" and "potential [c] < potential [cs ! i]"
  shows "potential (cs[i := c]) < potential cs"
  using assms
proof (induction cs arbitrary: i)
  case (Cons d cs)
  then show ?case by (cases i) (auto simp: potential_def)
qed simp

text \<open>The request is sent again, with twice the timeout, or given up.\<close>

lemma resend_request:
  assumes inv: "ep_inv {} self" and l: "\<not> locked self" and c: "c \<in> set (requests self)" "resend_timer c = Some t"
    and n: "resend_count c < max_resends c" and s: "s = GG_Timer_Unschedule t (timer_scheduler self)"
  shows "\<exists>self'. GG_CoapRequestContext_OnTimerFired (callbacks U junk) (request_ptr c) (self\<lparr>timer_scheduler := s\<rparr>) = Some self' \<and>
    ep_inv {} self' \<and> progress U self self' \<and> potential (requests self') < potential (requests self)"
proof -
  have ok: "timers_ok {} (timer_scheduler self) (requests self)" and lg: "log_ok {} (snd (app self)) (requests self)"
    using inv by (simp_all add: ep_inv_def)
  have st: "timer_of {} (timer_scheduler self) c" "\<not> cancelled c" using inv l c(1) by (auto simp: ep_inv_def timers_ok_def)
  then have w: "waiting c" using c(2) by (cases "request_state c") (auto simp: timer_of_def waiting_def)
  obtain i where i: "i < length (requests self)" "requests self ! i = c" using c(1) by (metis in_set_conv_nth)
  have dp: "distinct (map request_ptr (requests self))" using ok by (simp add: timers_ok_def)
  have fi: "find_index (\<lambda>ctx. request_ptr ctx = request_ptr c) (requests self) = Some i"
    using i nth_eq_iff_index_eq [OF dp] by (intro find_index_unique) auto
  define c' where "c' = c\<lparr>resend_timeout := resend_timeout c * 2, request_state := GG_COAP_REQUEST_STATE_READY_TO_SEND,
    resend_count := resend_count c + 1\<rparr>"
  define s2 where "s2 = snd (GG_Timer_Schedule t (Some (request_ptr c)) (resend_timeout c * 2) s)"
  define f where "f = (\<lambda>d. if d = c then c' else d)"
  have cs: "(requests self)[i := c'] = map f (requests self)"
    using i dp by (intro nth_equalityI) (auto simp: f_def nth_list_update distinct_map nth_eq_iff_index_eq)
  have f: "request_ptr (f d) = request_ptr d" "resend_timer (f d) = resend_timer d" "request_listener (f d) = request_listener d"
    "request_handle (f d) = request_handle d" "waiting (f d) \<Longrightarrow> waiting d" "waiting d \<Longrightarrow> waiting (f d)"
    "request_state (f d) = GG_COAP_REQUEST_STATE_ACKED \<Longrightarrow> request_state d = GG_COAP_REQUEST_STATE_ACKED"
    "\<not> cancelled d \<Longrightarrow> \<not> cancelled (f d)" for d
    using w by (auto simp: f_def c'_def waiting_def split: if_splits)
  have u: "timers_ok {request_ptr c} s (requests self)" using timers_ok_unschedule [OF ok c] s by simp
  have "timers_ok {} s2 (requests self)" unfolding s2_def by (rule timers_ok_schedule [OF u c])
  then have t2: "timers_ok {} s2 (map f (requests self))" using f(1,2,5,7) by (rule timers_ok_map)
  have l2: "log_ok {} (snd (app self)) (map f (requests self))" using lg f(1,3,5,7) by (intro log_ok_map) auto
  let ?self = "self\<lparr>timer_scheduler := s2, requests := map f (requests self)\<rparr>"
  have "map request_handle (map f (requests self)) = map request_handle (requests self)" using f(4) by simp
  then have "distinct (map request_handle (map f (requests self)))" using inv unfolding ep_inv_def by metis
  moreover have "\<forall>d \<in> set (map f (requests self)). request_ptr d < next_ptr self \<and> \<not> cancelled d"
    using inv l f(1,8) by (auto simp: ep_inv_def)
  ultimately have inv2: "ep_inv {} ?self" using inv t2 l2 by (simp add: ep_inv_def del: map_map)
  have run: "GG_CoapRequestContext_OnTimerFired (callbacks U junk) (request_ptr c) (self\<lparr>timer_scheduler := s\<rparr>) =
      GG_CoapEndpoint_SendPendingRequests (callbacks U junk) ?self"
    using fi n i(2) c(2) cs
    by (simp add: GG_CoapRequestContext_OnTimerFired_def Let_def GG_CoapRequestContext_ScheduleTimer_def s2_def c'_def set_request_def)
  have "now s2 = now (timer_scheduler self)"
    using st c(2) s by (simp add: s2_def Schedule_facts Unschedule_facts timer_of_def)
  then have p: "progress U self ?self" using f(3,6) by (auto simp: progress_def promised_def)
  have lt: "unat (resend_count c) < unat (max_resends c)" using n by (simp add: word_less_nat_alt)
  then have "unat (resend_count c + 1) = Suc (unat (resend_count c))"
    using unat_less_length [of "max_resends c"] by (simp add: unat_word_ariths)
  with lt have "potential [c'] < potential [requests self ! i]" using c(2) i(2) by (simp add: potential_def c'_def)
  from potential_update [OF i(1) this] have pot: "potential (requests ?self) < potential (requests self)" by (simp add: cs)
  from SendPendingRequests_unlocked [OF inv2, of U junk] l obtain self' where
    "GG_CoapEndpoint_SendPendingRequests (callbacks U junk) ?self = Some self'" "ep_inv {} self'" "progress U ?self self'"
    "potential (requests self') \<le> potential (requests ?self)" by auto
  then show ?thesis using run pot progress_trans [OF p] by auto
qed

lemma give_up_request:
  assumes inv: "ep_inv {} self" and l: "\<not> locked self" and c: "c \<in> set (requests self)" "resend_timer c = Some t"
    and n: "\<not> resend_count c < max_resends c" and s: "s = GG_Timer_Unschedule t (timer_scheduler self)"
  shows "\<exists>self'. GG_CoapRequestContext_OnTimerFired (callbacks U junk) (request_ptr c) (self\<lparr>timer_scheduler := s\<rparr>) = Some self' \<and>
    ep_inv {} self' \<and> progress U self self' \<and> potential (requests self') < potential (requests self)"
proof -
  let ?ev = "Ev_Error GG_ERROR_TIMEOUT" and ?cs = "requests self" and ?h = "request_handle c"
  let ?log = "snd (app self) @ [(request_listener c, ?ev)]"
  have ok: "timers_ok {} (timer_scheduler self) ?cs" and lg: "log_ok {} (snd (app self)) ?cs" and d: "distinct (map request_handle ?cs)"
    using inv by (simp_all add: ep_inv_def)
  have st: "timer_of {} (timer_scheduler self) c" "\<not> cancelled c" using inv l c(1) by (auto simp: ep_inv_def timers_ok_def)
  then have w: "waiting c" using c(2) by (cases "request_state c") (auto simp: timer_of_def waiting_def)
  have dp: "distinct (map request_ptr ?cs)" using ok by (simp add: timers_ok_def)
  obtain i where i: "i < length ?cs" "?cs ! i = c" using c(1) by (metis in_set_conv_nth)
  have fi: "find_index (\<lambda>ctx. request_ptr ctx = request_ptr c) ?cs = Some i"
    using i nth_eq_iff_index_eq [OF dp] by (intro find_index_unique) auto
  have u: "timers_ok {request_ptr c} s ?cs" using timers_ok_unschedule [OF ok c] s by simp
  have ns: "now s = now (timer_scheduler self)" using st c(2) s by (simp add: Unschedule_facts timer_of_def)
  have e: "evs (request_listener c) (snd (app self)) = []" using lg c(1) w by (auto simp: log_ok_def)
  obtain hs a sch where hs: "listen U (request_listener c) ?ev (self\<lparr>timer_scheduler := s\<rparr>) =
      self\<lparr>app := (a, ?log), requests := filter (\<lambda>c. request_handle c \<notin> set hs) ?cs, timer_scheduler := sch\<rparr>"
    "timers_ok {request_ptr c} sch (filter (\<lambda>c. request_handle c \<notin> set hs) ?cs)" "now sch = now s" "no_cancel U \<longrightarrow> hs = []"
    using listen_unlocked [of "self\<lparr>timer_scheduler := s\<rparr>" "{request_ptr c}" U "request_listener c" ?ev] l d u by auto
  define cs1 where "cs1 = filter (\<lambda>c. request_handle c \<notin> set hs) ?cs"
  define cs2 where "cs2 = filter (\<lambda>c. request_handle c \<noteq> ?h) cs1"
  define s2 where "s2 = destroy_timers (filter (\<lambda>c. request_handle c = ?h) cs1) sch"
  let ?self = "self\<lparr>app := (a, ?log), requests := cs2, timer_scheduler := s2\<rparr>"
  have run: "GG_CoapRequestContext_OnTimerFired (callbacks U junk) (request_ptr c) (self\<lparr>timer_scheduler := s\<rparr>) = Some ?self"
    using fi n i(2) hs(1) l d
      CancelRequest_unlocked [of "self\<lparr>app := (a, ?log), requests := cs1, timer_scheduler := sch\<rparr>" ?h]
    by (simp add: GG_CoapRequestContext_OnTimerFired_def GG_CoapRequestContext_NotifyErrorAndTerminate_def callbacks_def
        cs1_def cs2_def s2_def distinct_map_filter)
  have sub: "set cs2 \<subseteq> {x \<in> set ?cs. request_handle x \<noteq> ?h}" by (auto simp: cs1_def cs2_def)
  have other: "request_ptr x \<noteq> request_ptr c" if "x \<in> set cs2" for x
    using that sub dp c(1) by (auto simp: distinct_map inj_on_def)
  have "timers_ok {request_ptr c} s2 cs2"
    using drop_timers_ok [OF hs(2) [folded cs1_def], of "\<lambda>c. request_handle c = ?h"] by (simp add: s2_def cs2_def)
  then have t2: "timers_ok {} s2 cs2" using other by (intro timers_ok_gone [of "{request_ptr c}"]) auto
  have "log_ok {request_ptr c} ?log ?cs"
    using log_ok_event [OF lg c(1), of ?ev] e by (auto simp: proper_def)
  then have "log_ok {request_ptr c} ?log cs2" unfolding cs2_def cs1_def by (intro log_ok_filter)
  then have l2: "log_ok {} ?log cs2" using other by (intro log_ok_settled [of "{request_ptr c}"]) auto
  have "ep_inv {} ?self" using inv l t2 l2 d sub by (auto simp: ep_inv_def cs1_def cs2_def distinct_map_filter)
  moreover have "promised k ?self" if nc: "no_cancel U" and k: "promised k self" for k
  proof (cases "k = request_listener c")
    case True
    then show ?thesis using e by (auto simp: promised_def)
  next
    case False
    have "x \<in> set cs2" if "x \<in> set ?cs" "request_listener x = k" for x
      using d c(1) that False hs(4) nc by (auto simp: cs1_def cs2_def distinct_map inj_on_def)
    then show ?thesis using k False by (auto simp: promised_def)
  qed
  moreover have "cs2 = filter (\<lambda>x. request_handle x \<notin> insert ?h (set hs)) ?cs" by (auto simp: cs1_def cs2_def intro: filter_cong)
  then have "potential cs2 < potential ?cs"
    using potential_remove [of c ?cs "\<lambda>x. request_handle x \<notin> insert ?h (set hs)"] c by simp
  ultimately show ?thesis using run ns hs(3) by (auto simp: progress_def s2_def)
qed

section \<open>The time advances\<close>

text \<open>The scheduler calls the requests of the endpoint, which uses the scheduler.\<close>

definition on_timer :: "'e GG_CoapCallbacks \<Rightarrow> 'e GG_CoapEndpoint option listeners" where
  "on_timer C l t elapsed st = (case snd st of
       None \<Rightarrow> st
     | Some self \<Rightarrow> (case GG_CoapRequestContext_OnTimerFired C l (self\<lparr>timer_scheduler := fst st\<rparr>) of
           None \<Rightarrow> (fst st, None)
         | Some self \<Rightarrow> (timer_scheduler self, Some self)))"

definition endpoint_set_time :: "'e GG_CoapCallbacks \<Rightarrow> u32 \<Rightarrow> 'e GG_CoapEndpoint \<Rightarrow> 'e GG_CoapEndpoint option" where
  "endpoint_set_time C n self =
     (case GG_TimerScheduler_SetTime (on_timer C) n (timer_scheduler self, Some self) of
        Some (Some (s, Some self)) \<Rightarrow> Some (self\<lparr>timer_scheduler := s\<rparr>)
      | _ \<Rightarrow> None)"

lemma timer_fires:
  assumes inv: "ep_inv {} self" and l: "\<not> locked self" and t: "t \<in> set (scheduled (timer_scheduler self))"
  shows "\<exists>p self'. listener (timers (timer_scheduler self) t) = Some p \<and>
    GG_CoapRequestContext_OnTimerFired (callbacks U junk) p (self\<lparr>timer_scheduler := GG_Timer_Unschedule t (timer_scheduler self)\<rparr>) = Some self' \<and>
    ep_inv {} self' \<and> progress U self self' \<and> potential (requests self') < potential (requests self)"
proof -
  from inv t obtain c where c: "c \<in> set (requests self)" "resend_timer c = Some t" by (auto simp: ep_inv_def timers_ok_def)
  have "timer_of {} (timer_scheduler self) c" using inv c(1) by (auto simp: ep_inv_def timers_ok_def)
  then have "listener (timers (timer_scheduler self) t) = Some (request_ptr c)" using c(2) by (simp add: timer_of_def)
  then show ?thesis
    using resend_request [OF inv l c _ refl, of U junk] give_up_request [OF inv l c _ refl, of U junk] by blast
qed

lemma fire_requests:
  assumes "ep_inv {} (self\<lparr>timer_scheduler := s\<rparr>)" and "\<not> locked self" and "now s = n"
  shows "\<exists>s' self'. fire_timers (on_timer (callbacks U junk)) n (s, Some self) = Some (Some (s', Some self')) \<and>
    ep_inv {} (self'\<lparr>timer_scheduler := s'\<rparr>) \<and> progress U (self\<lparr>timer_scheduler := s\<rparr>) (self'\<lparr>timer_scheduler := s'\<rparr>) \<and>
    (if due_timers n s = [] then potential (requests self') \<le> potential (requests self)
     else potential (requests self') < potential (requests self))"
  using assms
proof (induction "potential (requests self)" arbitrary: s self rule: less_induct)
  case less
  let ?self = "self\<lparr>timer_scheduler := s\<rparr>"
  have inv: "timer_invar s" "started_by n s" using less.prems(1,3) by (auto simp: ep_inv_def timers_ok_def)
  show ?case
  proof (cases "due_timers n s")
    case Nil
    then show ?thesis using fire_timers_step(1) [OF inv Nil] less.prems(1)
      by (intro exI [of _ s] exI [of _ self]) (simp add: progress_refl)
  next
    case (Cons t ts)
    have t: "t \<in> set (scheduled (timer_scheduler ?self))" using Cons filter_set [of _ "scheduled s"] by (auto simp: due_timers_def filter_eq_Cons_iff)
    from timer_fires [OF less.prems(1) _ t, of U junk] less.prems(2) obtain p self1 where
      f: "listener (timers s t) = Some p"
      "GG_CoapRequestContext_OnTimerFired (callbacks U junk) p (self\<lparr>timer_scheduler := GG_Timer_Unschedule t s\<rparr>) = Some self1"
      "ep_inv {} self1" "progress U ?self self1" "potential (requests self1) < potential (requests self)" by auto
    have eq: "fire_timers (on_timer (callbacks U junk)) n (s, Some self) =
        fire_timers (on_timer (callbacks U junk)) n (timer_scheduler self1, Some self1)"
      using fire_timers_step(2) [OF inv Cons, of "on_timer (callbacks U junk)" "Some self"] f(1,2) by (auto simp: on_timer_def)
    have "self1\<lparr>timer_scheduler := timer_scheduler self1\<rparr> = self1" by simp
    with less.hyps [OF f(5), of "timer_scheduler self1"] f(3,4) less.prems(2,3) obtain s' self' where
      "fire_timers (on_timer (callbacks U junk)) n (timer_scheduler self1, Some self1) = Some (Some (s', Some self'))"
      "ep_inv {} (self'\<lparr>timer_scheduler := s'\<rparr>)" "progress U self1 (self'\<lparr>timer_scheduler := s'\<rparr>)"
      "potential (requests self') \<le> potential (requests self1)"
      by (fastforce simp: progress_def split: if_splits)
    then show ?thesis using eq Cons f(5) progress_trans [OF f(4)] by auto
  qed
qed

end
