(* ===== verification/Coap_Endpoint_Correctness.thy ===== *)
theory Coap_Endpoint_Correctness
  imports Coap_Endpoint_Run
begin

text \<open>
  Every operation of an endpoint returns and keeps the invariant; the properties of the endpoint.
\<close>

section \<open>Messages can always be made\<close>

lemma ComputeOptionsSize_total:
  "sorted (map option_number opts) \<Longrightarrow> (\<forall>opt \<in> set opts. current \<le> option_number opt) \<Longrightarrow>
   \<exists>n'. GG_CoapMessage_ComputeOptionsSize opts current n = Some n'"
  by (induction opts arbitrary: current n) (fastforce simp: Let_def split: option.splits)+

lemma SerializeOptions_total:
  "sorted (map option_number opts) \<Longrightarrow> (\<forall>opt \<in> set opts. current \<le> option_number opt) \<Longrightarrow>
   \<exists>r. GG_CoapMessage_SerializeOptions opts current = Some r"
  by (induction opts arbitrary: current) (fastforce simp: Let_def split: option.splits)+

lemma Create_total:
  assumes "length token \<le> 8"
  shows "\<exists>m. GG_CoapMessage_Create junk code type options message_id token payload n = Some (Inr m)"
proof -
  have s: "sorted (map option_number (sort_options options))" "\<forall>opt \<in> set (sort_options options). 0 \<le> option_number opt"
    by (simp_all add: sort_options_eq)
  from ComputeOptionsSize_total [OF s, of 0] SerializeOptions_total [OF s] obtain n' r where
    "GG_CoapMessage_ComputeOptionsSize (sort_options options) 0 0 = Some n'"
    "GG_CoapMessage_SerializeOptions (sort_options options) 0 = Some r" by blast
  with assms show ?thesis by (cases r) (simp add: GG_CoapMessage_Create_def Let_def)
qed

lemma create_request_total:
  assumes "length token \<le> 8"
  shows "\<exists>m. create_request junk meth options message_id token payload = Some (Inr m)"
  using Create_total [OF assms, of junk meth GG_COAP_MESSAGE_TYPE_CON options message_id None "length payload"]
  by (auto simp: create_request_def)

lemma CreateResponse_total:
  "\<exists>m. GG_CoapEndpoint_CreateResponse junk request code options payload n = Some (Inr m)"
  by (auto simp: GG_CoapEndpoint_CreateResponse_def GG_CoapMessage_GetToken_def subarray_def intro!: Create_total)

section \<open>The queue of responses\<close>

lemma ep_inv_queue:
  assumes "ep_inv X self" and "snd e = snd (app self)" and "cur < 16" and "cnt \<le> 16" and "length rs = 16"
  shows "ep_inv X (self\<lparr>app := e, responses := rs, responses_cursor := cur, responses_count := cnt\<rparr>)"
  using assms by (simp add: ep_inv_def)

lemma SendPendingResponses_changes:
  assumes "responses_cursor self < 16"
  shows "\<exists>e cur cnt. GG_CoapEndpoint_SendPendingResponses (callbacks U junk) self =
      self\<lparr>app := e, responses_cursor := cur, responses_count := cnt\<rparr> \<and>
    snd e = snd (app self) \<and> cur < 16 \<and> cnt \<le> responses_count self"
  using assms
proof (induction "responses_count self" arbitrary: self)
  case 0
  then have "GG_CoapEndpoint_SendPendingResponses (callbacks U junk) self = self"
    by (subst GG_CoapEndpoint_SendPendingResponses.simps) simp
  with 0 show ?case
    by (intro exI [of _ "app self"] exI [of _ "responses_cursor self"] exI [of _ "responses_count self"]) simp
next
  case (Suc n)
  obtain d md where dm: "responses self ! responses_cursor self = (d, md)" by fastforce
  obtain r e where put: "(case connection_sink self of None \<Rightarrow> (GG_SUCCESS, app self)
      | Some sink \<Rightarrow> GG_DataSink_PutData (callbacks U junk) sink d md (app self)) = (r, e)" by (meson surj_pair)
  then have e: "snd e = snd (app self)" 
    by (cases "connection_sink self") (simp, simp, blast dest: callbacks_put)
  show ?case
  proof (cases "r = GG_ERROR_WOULD_BLOCK")
    case True
    with Suc.hyps(2) dm put have "GG_CoapEndpoint_SendPendingResponses (callbacks U junk) self = self\<lparr>app := e\<rparr>"
      by (subst GG_CoapEndpoint_SendPendingResponses.simps) (simp flip: Suc.hyps(2))
    with Suc.prems e show ?thesis
      by (intro exI [of _ e] exI [of _ "responses_cursor self"] exI [of _ "responses_count self"]) simp
  next
    case False
    let ?self = "self\<lparr>app := e, responses_count := n, responses_cursor := (responses_cursor self + 1) mod 16\<rparr>"
    have "GG_CoapEndpoint_SendPendingResponses (callbacks U junk) self = GG_CoapEndpoint_SendPendingResponses (callbacks U junk) ?self"
      using Suc.hyps(2) dm put False
      by (subst GG_CoapEndpoint_SendPendingResponses.simps) (simp add: GG_CONFIG_COAP_RESPONSE_QUEUE_LENGTH_def flip: Suc.hyps(2))
    moreover from Suc.hyps(1) [of ?self] obtain e' cur cnt where
      "GG_CoapEndpoint_SendPendingResponses (callbacks U junk) ?self = ?self\<lparr>app := e', responses_cursor := cur, responses_count := cnt\<rparr>"
      "snd e' = snd (app ?self)" "cur < 16" "cnt \<le> responses_count ?self" by auto
    ultimately show ?thesis using e Suc.hyps(2)
      by (intro exI [of _ e'] exI [of _ cur] exI [of _ cnt]) simp
  qed
qed

lemma SendPendingResponses_inv:
  assumes "ep_inv X self"
  shows "ep_inv X (GG_CoapEndpoint_SendPendingResponses (callbacks U junk) self)"
    and "locked (GG_CoapEndpoint_SendPendingResponses (callbacks U junk) self) = locked self"
    and "connection_sink (GG_CoapEndpoint_SendPendingResponses (callbacks U junk) self) = connection_sink self"
proof -
  have "responses_cursor self < 16" using assms by (simp add: ep_inv_def)
  from SendPendingResponses_changes [OF this, of U junk] obtain e cur cnt where
    c: "GG_CoapEndpoint_SendPendingResponses (callbacks U junk) self = self\<lparr>app := e, responses_cursor := cur, responses_count := cnt\<rparr>"
    "snd e = snd (app self)" "cur < 16" "cnt \<le> responses_count self" by blast
  then show "ep_inv X (GG_CoapEndpoint_SendPendingResponses (callbacks U junk) self)" using assms by (simp add: ep_inv_def)
  show "locked (GG_CoapEndpoint_SendPendingResponses (callbacks U junk) self) = locked self"
    "connection_sink (GG_CoapEndpoint_SendPendingResponses (callbacks U junk) self) = connection_sink self" by (simp_all add: c(1))
qed

lemma EnqueueResponse_inv:
  assumes "ep_inv X self"
  shows "\<exists>r self'. GG_CoapEndpoint_EnqueueResponse d md self = Some (r, self') \<and> ep_inv X self' \<and> locked self' = locked self"
  using assms by (auto simp: GG_CoapEndpoint_EnqueueResponse_def ep_inv_def GG_CONFIG_COAP_RESPONSE_QUEUE_LENGTH_def Let_def)

lemma SendResponse_inv:
  assumes inv: "ep_inv X self"
  shows "\<exists>r self'. GG_CoapEndpoint_SendResponse (callbacks U junk) m md self = Some (r, self') \<and> ep_inv X self' \<and> locked self' = locked self"
proof -
  define self1 where "self1 = GG_CoapEndpoint_SendPendingResponses (callbacks U junk) self"
  have inv1: "ep_inv X self1" "locked self1 = locked self" using SendPendingResponses_inv [OF inv, of U junk] by (simp_all add: self1_def)
  show ?thesis
  proof (cases "connection_sink self1")
    case None
    then show ?thesis using inv1 by (simp add: GG_CoapEndpoint_SendResponse_def self1_def Let_def)
  next
    case (Some sink)
    obtain r e where put: "GG_DataSink_PutData (callbacks U junk) sink (GG_CoapMessage_ToDatagram m) md (app self1) = (r, e)" by (meson surj_pair)
    then have "ep_inv X (self1\<lparr>app := e\<rparr>)" using ep_inv_app [OF inv1(1)] callbacks_put by blast
    from EnqueueResponse_inv [OF this] EnqueueResponse_inv [OF inv1(1)] this Some put inv1(2) show ?thesis
      by (auto simp: GG_CoapEndpoint_SendResponse_def Let_def simp flip: self1_def)
  qed
qed

section \<open>Requests received\<close>

text \<open>What the endpoint asks of handlers and filters: a handler that succeeds has a response, and a response means success.\<close>

locale coap_request_handler =
  fixes handle :: "GG_CoapMessage \<Rightarrow> GG_BufferMetadata option \<Rightarrow> 's \<Rightarrow> GG_Result \<times> GG_CoapMessage option \<times> 's"
  assumes handle_result: "handle m md s = (r, response, s') \<Longrightarrow> r = GG_SUCCESS \<longleftrightarrow> response \<noteq> None"

locale coap_request_filter =
  fixes filter_request :: "u32 \<Rightarrow> GG_CoapMessage \<Rightarrow> 's \<Rightarrow> GG_Result \<times> GG_CoapMessage option \<times> 's"
  assumes filter_result: "filter_request flags m s = (r, response, s') \<Longrightarrow> response \<noteq> None \<Longrightarrow> r = GG_SUCCESS"

definition user_ok :: "'s user \<Rightarrow> bool" where
  "user_ok U \<longleftrightarrow> (\<forall>h. coap_request_handler (user_handle U h)) \<and> (\<forall>f. coap_request_filter (user_filter U f))"

lemma user_handle_result: "user_ok U \<Longrightarrow> user_handle U h m md s = (r, response, s') \<Longrightarrow> r = GG_SUCCESS \<longleftrightarrow> response \<noteq> None"
  unfolding user_ok_def coap_request_handler_def by blast

lemma user_filter_result: "user_ok U \<Longrightarrow> user_filter U f flags m s = (r, response, s') \<Longrightarrow> response \<noteq> None \<Longrightarrow> r = GG_SUCCESS"
  unfolding user_ok_def coap_request_filter_def by blast

lemma run_filters_ok:
  assumes "user_ok U"
  shows "\<exists>r response e'. run_filters (callbacks U junk) fs flags m e = (r, response, e') \<and> snd e' = snd e \<and>
    (response \<noteq> None \<longrightarrow> r = GG_SUCCESS)"
proof (induction fs arbitrary: e)
  case (Cons f fs)
  obtain s log where e: "e = (s, log)" by fastforce
  obtain r response s' where f: "user_filter U f flags m s = (r, response, s')" using prod_cases3 by blast
  have "response \<noteq> None \<longrightarrow> r = GG_SUCCESS" using user_filter_result [OF assms f] by blast
  then show ?case using Cons [of "(s', log)"] e f by (simp add: callbacks_def)
qed simp

lemma invoke_handler_inv:
  assumes u: "user_ok U" and inv: "ep_inv X self"
  shows "\<exists>r response fully self'. invoke_handler (callbacks U junk) node m md self = Some (r, response, fully, self') \<and>
    ep_inv X self' \<and> locked self' = locked self"
proof -
  from run_filters_ok [OF u] obtain r response e where
    f: "run_filters (callbacks U junk) (request_filters self) (handler_flags node) m (app self) = (r, response, e)"
    "snd e = snd (app self)" "response \<noteq> None \<longrightarrow> r = GG_SUCCESS" by blast
  let ?self = "self\<lparr>app := e\<rparr>"
  have inv': "ep_inv X ?self" using ep_inv_app [OF inv f(2)] .
  obtain s log where e: "e = (s, log)" by fastforce
  obtain r' response' s' where h: "user_handle U (handler_object node) m md s = (r', response', s')" using prod_cases3 by blast
  have c: "r' = GG_SUCCESS \<longleftrightarrow> response' \<noteq> None" using user_handle_result [OF u h] by blast
  have inv2: "ep_inv X (self\<lparr>app := (s', log)\<rparr>)" using inv f(2) e by (simp add: ep_inv_def)
  let ?responder = "if handler_flags node AND GG_COAP_REQUEST_HANDLER_FLAG_ENABLE_ASYNC \<noteq> 0
    then Some \<lparr>responder_request = m, responder_metadata = md\<rparr> else None"
  have "GG_CoapRequestHandler_OnRequest (callbacks U junk) (handler_object node) m ?responder md ?self =
      Some (r', response', self\<lparr>app := (s', log)\<rparr>)"
    using h e by (simp add: callbacks_def)
  then show ?thesis using f inv inv' inv2 c by (auto simp: invoke_handler_def Let_def)
qed

lemma OnRequest_inv:
  assumes u: "user_ok U" and inv: "ep_inv X self" and m: "message_ok m"
  shows "\<exists>b self'. GG_CoapEndpoint_OnRequest (callbacks U junk) m md self = Some (b, self') \<and> ep_inv X self' \<and> locked self' = locked self"
proof -
  let ?md = "response_metadata md"
  from find_handler_total [OF m] obtain node where n: "find_handler m
    (map_option (\<lambda>h. \<lparr>handler_path = [0x2F], handler_flags = GG_COAP_REQUEST_HANDLER_FLAGS_ALLOW_ALL, handler_object = h\<rparr>)
      (default_handler self)) (handlers self) = Some node" by blast
  have "\<exists>r response fully self1. (case node of None \<Rightarrow> Some (GG_FAILURE, None, True, self)
      | Some node \<Rightarrow> invoke_handler (callbacks U junk) node m ?md self) = Some (r, response, fully, self1) \<and>
    ep_inv X self1 \<and> locked self1 = locked self"
    using invoke_handler_inv [OF u inv, of junk _ m ?md] inv by (cases node) auto
  then obtain r response fully self1 where i: "(case node of None \<Rightarrow> Some (GG_FAILURE, None, True, self)
      | Some node \<Rightarrow> invoke_handler (callbacks U junk) node m ?md self) = Some (r, response, fully, self1)"
    "ep_inv X self1" "locked self1 = locked self" by blast
  from CreateResponse_total obtain m' where
    "GG_CoapEndpoint_CreateResponse (allocated_memory (callbacks U junk)) m (of_nat (default_response_code node r)) [] None 0 = Some (Inr m')"
    by blast
  then show ?thesis using n i SendResponse_inv [OF i(2), of U junk _ ?md]
    by (auto simp: GG_CoapEndpoint_OnRequest_def Let_def split: option.splits) blast+
qed

section \<open>Responses received\<close>

text \<open>A request whose timer was destroyed.\<close>

lemma timers_ok_disarm:
  assumes ok: "timers_ok {} s cs" and c: "c \<in> set cs" and c1: "request_ptr c1 = request_ptr c" "resend_timer c1 = None"
  shows "timers_ok {request_ptr c} (GG_Timer_Destroy (resend_timer c) s) (map (\<lambda>d. if d = c then c1 else d) cs)"
proof -
  let ?s = "GG_Timer_Destroy (resend_timer c) s" and ?f = "\<lambda>d. if d = c then c1 else d"
  have dp: "distinct (map request_ptr cs)" using ok by (simp add: timers_ok_def)
  then have d: "distinct cs" by (simp add: distinct_map)
  have rem: "timers_ok {} ?s (remove1 c cs)"
    using timers_ok_remove [OF ok c] d dp by (simp add: set_remove1_eq distinct_map inj_on_def)
  have sub: "{x \<in> set (map ?f cs). resend_timer x \<noteq> None} \<subseteq> {x \<in> set (remove1 c cs). resend_timer x \<noteq> None}"
    using c1(2) d by (auto simp: set_remove1_eq split: if_splits)
  have inj: "inj_on resend_timer {x \<in> set (map ?f cs). resend_timer x \<noteq> None}"
    using rem sub unfolding timers_ok_def by (blast intro: inj_on_subset)
  have "map request_ptr (map ?f cs) = map request_ptr cs" using c1(1) by simp
  then have dm: "distinct (map request_ptr (map ?f cs))" using dp by metis
  have t: "timer_of {request_ptr c} ?s (?f x)" if x: "x \<in> set cs" for x
  proof (cases "x = c")
    case True
    then show ?thesis using c1 by (simp add: timer_of_def)
  next
    case False
    then have "x \<in> set (remove1 c cs)" using x d by (simp add: set_remove1_eq)
    then have "timer_of {} ?s x" using rem unfolding timers_ok_def by blast
    moreover have "request_ptr x \<noteq> request_ptr c" using dp c x False by (auto simp: distinct_map inj_on_def)
    ultimately show ?thesis using False by (auto simp: timer_of_def split: option.splits)
  qed
  have "\<forall>x \<in> set (map ?f cs). timer_of {request_ptr c} ?s x" unfolding set_map using t by blast
  moreover have "\<forall>t \<in> set (scheduled ?s). \<exists>x \<in> set (map ?f cs). resend_timer x = Some t"
  proof
    fix t
    assume "t \<in> set (scheduled ?s)"
    with rem obtain x where "x \<in> set (remove1 c cs)" "resend_timer x = Some t" unfolding timers_ok_def by blast
    then show "\<exists>x \<in> set (map ?f cs). resend_timer x = Some t" using d by (auto simp: set_remove1_eq)
  qed
  ultimately show ?thesis using rem inj dm unfolding timers_ok_def by blast
qed

lemma Cancel_locked:
  assumes "locked self" and d: "distinct (map request_handle (requests self))" and i: "i < length (requests self)"
  shows "GG_CoapRequestContext_Cancel i self = self\<lparr>requests := map (mark [request_handle (requests self ! i)]) (requests self)\<rparr>"
proof -
  let ?h = "request_handle (requests self ! i)"
  have "find_index (\<lambda>ctx. request_handle ctx = ?h) (requests self) = Some i"
    using i nth_eq_iff_index_eq [OF d] by (intro find_index_unique) auto
  then have "snd (GG_CoapEndpoint_CancelRequest ?h self) = GG_CoapRequestContext_Cancel i self"
    by (simp add: GG_CoapEndpoint_CancelRequest_def)
  with CancelRequest_locked [OF assms(1) d, of ?h] show ?thesis by simp
qed

text \<open>The events of a matched request and its end, under the lock.\<close>

lemma end_request:
  assumes inv: "timers_ok {request_ptr c} (timer_scheduler self) (requests self)" "log_ok {request_ptr c} (snd (app self)) (requests self)"
    and d: "distinct (map request_handle (requests self))" and l: "locked self"
    and c: "c \<in> set (requests self)" and p: "proper (evs (request_listener c) (snd (app self)) @ [ev])"
    and i: "i < length (requests self)" "requests self ! i = c"
    and rest: "\<forall>x \<in> set (requests self). request_ptr x < next_ptr self" "length (responses self) = 16" "responses_cursor self < 16"
      "responses_count self \<le> 16" "length (token_prefix self) \<le> 4"
  shows "ep_inv {} (cleaned (GG_CoapRequestContext_Cancel i (listen U (request_listener c) ev self)))"
proof -
  let ?log = "snd (app self) @ [(request_listener c, ev)]" and ?h = "request_handle c"
  from listen_locked [OF l d, of U "request_listener c" ev] obtain hs a where
    hs: "listen U (request_listener c) ev self = self\<lparr>app := (a, ?log), requests := map (mark hs) (requests self)\<rparr>" by blast
  let ?cs = "map (mark [?h]) (map (mark hs) (requests self))"
  let ?self = "self\<lparr>app := (a, ?log), requests := ?cs\<rparr>"
  have "distinct (map request_handle (map (mark hs) (requests self)))" using d by (simp add: comp_def)
  then have e: "GG_CoapRequestContext_Cancel i (listen U (request_listener c) ev self) = ?self"
    using Cancel_locked [of "self\<lparr>app := (a, ?log), requests := map (mark hs) (requests self)\<rparr>" i] l i hs by simp
  have "log_ok {request_ptr c} ?log (requests self)" using log_ok_event [OF inv(2) c p] by simp
  then have m: "timers_ok {request_ptr c} (timer_scheduler self) ?cs" "log_ok {request_ptr c} ?log ?cs"
    using inv(1) by (auto intro!: mark_inv simp del: map_map)
  have u: "d = c" if "d \<in> set (requests self)" "request_ptr d = request_ptr c" for d
    using inv(1) that c by (auto simp: timers_ok_def distinct_map inj_on_def)
  have gone: "request_ptr x \<noteq> request_ptr c" if "x \<in> set (filter (\<lambda>c. \<not> cancelled c) ?cs)" for x
    using that by (auto simp: mark_state dest: u split: if_splits)
  let ?fs = "filter (\<lambda>c. \<not> cancelled c) ?cs" and ?s = "destroy_timers (filter cancelled ?cs) (timer_scheduler self)"
  have "timers_ok {} ?s ?fs" using drop_timers_ok [OF m(1), of cancelled] gone by (intro timers_ok_gone [of "{request_ptr c}"]) auto
  moreover have "log_ok {} ?log ?fs" using log_ok_filter [OF m(2)] gone by (intro log_ok_settled [of "{request_ptr c}"]) auto
  moreover have "distinct (map request_handle ?fs)" using d by (intro distinct_map_filter) (simp add: comp_def)
  moreover have "\<forall>x \<in> set ?fs. request_ptr x < next_ptr self" using rest(1) by auto
  ultimately show ?thesis unfolding e using rest(2-) by (simp add: ep_inv_def cleaned_def del: map_map filter_map)
qed

lemma callbacks_ack: "GG_CoapResponseListener_OnAck (callbacks U junk) l self = Some (listen U l Ev_Ack self)"
  by (simp add: callbacks_def)

text \<open>The endpoint after its bookkeeping for a match at index \<open>i\<close>, and what the listener is told.\<close>

abbreviation is_reset :: "GG_CoapMessage \<Rightarrow> bool" where
  "is_reset m \<equiv> GG_CoapMessage_GetType m = message_type_code GG_COAP_MESSAGE_TYPE_RST"

definition settled_context :: "GG_CoapMessage \<Rightarrow> GG_CoapRequestContext \<Rightarrow> GG_CoapRequestContext" where
  "settled_context m c = c\<lparr>request_state := (if waiting c \<and> \<not> is_reset m then GG_COAP_REQUEST_STATE_ACKED else request_state c),
     resend_timer := None\<rparr>"

definition matched :: "GG_CoapMessage \<Rightarrow> nat \<Rightarrow> 'e GG_CoapEndpoint \<Rightarrow> 'e GG_CoapEndpoint" where
  "matched m i self = self\<lparr>locked := True, timer_scheduler := GG_Timer_Destroy (resend_timer (requests self ! i)) (timer_scheduler self),
     requests := (requests self)[i := settled_context m (requests self ! i)]\<rparr>"

definition outcome_event :: "GG_CoapMessage \<Rightarrow> listener_event" where
  "outcome_event m = (if is_reset m then Ev_Error GG_ERROR_COAP_RESET else Ev_Response m)"

lemma OnResponse_run:
  assumes "find_index (\<lambda>ctx. GG_CoapMessage_GetToken (request_message ctx) = GG_CoapMessage_GetToken m) (requests self) = Some i"
    and "\<not> locked self" and "GG_CoapMessage_GetCode m \<noteq> 0" and c: "c = requests self ! i"
  shows "GG_CoapEndpoint_OnResponse (callbacks U junk) m self = Some (cleaned (GG_CoapRequestContext_Cancel i
    (listen U (request_listener c) (outcome_event m)
      (if waiting c \<and> \<not> is_reset m then listen U (request_listener c) Ev_Ack (matched m i self) else matched m i self))))"
proof -
  have nt: "request_state d \<in> {GG_COAP_REQUEST_STATE_READY_TO_SEND, GG_COAP_REQUEST_STATE_WAITING_FOR_ACK} \<longleftrightarrow> waiting d" for d
    by (auto simp: waiting_def)
  have "notify_outcome (callbacks U junk) m l x = Some (listen U l (outcome_event m) x)" for l x
    using assms(3) by (simp add: notify_outcome_def outcome_event_def callbacks_def)
  then show ?thesis
    unfolding c using assms(1-3)
    by (cases "waiting (requests self ! i)"; cases "is_reset m")
      (simp_all add: GG_CoapEndpoint_OnResponse_def on_match_def Let_def unlock_cleaned nt callbacks_ack set_request_def
        GG_CoapRequestContext_Destroy_def matched_def settled_context_def del: insert_iff)
qed

lemma OnResponse_inv:
  assumes inv: "ep_inv {} self" and l: "\<not> locked self" and code: "GG_CoapMessage_GetCode m \<noteq> 0"
  shows "\<exists>self'. GG_CoapEndpoint_OnResponse (callbacks U junk) m self = Some self' \<and> ep_inv {} self' \<and> \<not> locked self'"
proof (cases "find_index (\<lambda>ctx. GG_CoapMessage_GetToken (request_message ctx) = GG_CoapMessage_GetToken m) (requests self)")
  case None
  have "ep_inv {} (self\<lparr>locked := True\<rparr>)" using inv by (simp add: ep_inv_def)
  from cleaned_inv [OF this] None l show ?thesis
    by (auto simp: GG_CoapEndpoint_OnResponse_def unlock_cleaned Let_def) (simp add: cleaned_def)
next
  case (Some i)
  let ?cs = "requests self" and ?c = "requests self ! i" and ?s = "timer_scheduler self"
  let ?notify = "waiting ?c \<and> \<not> is_reset m" and ?out = "outcome_event m"
  have i: "i < length ?cs" using find_index_Some [OF Some] by simp
  have ok: "timers_ok {} ?s ?cs" and lg: "log_ok {} (snd (app self)) ?cs" and d: "distinct (map request_handle ?cs)" "\<not> cancelled ?c"
    using inv l i by (auto simp: ep_inv_def)
  define c1 where "c1 = settled_context m ?c"
  define f where "f = (\<lambda>x. if x = ?c then c1 else x)"
  have dc: "distinct ?cs" using d(1) by (simp add: distinct_map)
  have cs1: "?cs[i := c1] = map f ?cs" using i dc by (intro nth_equalityI) (auto simp: f_def nth_list_update nth_eq_iff_index_eq)
  define self1 where "self1 = matched m i self"
  have self1: "self1 = self\<lparr>locked := True, timer_scheduler := GG_Timer_Destroy (resend_timer ?c) ?s, requests := map f ?cs\<rparr>"
    by (simp add: self1_def matched_def c1_def flip: cs1)
  have c1: "request_ptr c1 = request_ptr ?c" "resend_timer c1 = None" "request_listener c1 = request_listener ?c"
    "request_handle c1 = request_handle ?c" by (simp_all add: c1_def settled_context_def)
  have t1: "timers_ok {request_ptr c1} (timer_scheduler self1) (requests self1)"
    using timers_ok_disarm [OF ok nth_mem [OF i] c1(1,2)] by (simp add: self1 f_def c1(1))
  have "log_ok {request_ptr ?c} (snd (app self)) ?cs" using log_ok_mono [OF lg] by blast
  then have l1: "log_ok {request_ptr c1} (snd (app self1)) (requests self1)"
    using c1(1,3) by (simp only: self1, simp) (intro log_ok_map; auto simp: f_def split: if_splits)
  have "map request_handle (map f ?cs) = map request_handle ?cs" using c1(4) by (simp add: f_def)
  then have d1: "distinct (map request_handle (requests self1))" using d(1) by (simp add: self1 del: map_map)
  have mem: "i < length (requests self1)" "requests self1 ! i = c1" "c1 \<in> set (requests self1)"
    using i by (auto simp: self1 f_def)
  have rest: "\<forall>x \<in> set (requests self1). request_ptr x < next_ptr self1" "length (responses self1) = 16" "responses_cursor self1 < 16"
      "responses_count self1 \<le> 16" "length (token_prefix self1) \<le> 4"
    using inv i by (auto simp: ep_inv_def self1 f_def c1(1))
  have acked: "request_state ?c = GG_COAP_REQUEST_STATE_ACKED" if "\<not> waiting ?c" using d(2) that by (cases "request_state ?c") (auto simp: waiting_def)
  have ev: "evs (request_listener ?c) (snd (app self)) = (if waiting ?c then [] else [Ev_Ack])"
    using lg nth_mem [OF i] acked by (auto simp: log_ok_def)
  have run: "GG_CoapEndpoint_OnResponse (callbacks U junk) m self = Some (cleaned (GG_CoapRequestContext_Cancel i
      (listen U (request_listener ?c) ?out (if ?notify then listen U (request_listener ?c) Ev_Ack self1 else self1))))"
    unfolding self1_def by (rule OnResponse_run [OF Some l code refl])
  show ?thesis
  proof (cases ?notify)
    case False
    have "proper (evs (request_listener c1) (snd (app self1)) @ [?out])"
      using ev False by (auto simp: c1(3) self1 outcome_event_def proper_def outcome_def)
    from end_request [OF t1 l1 d1 _ mem(3) this mem(1,2) rest, of U] show ?thesis
      using run False c1(3) by (simp add: self1 cleaned_def)
  next
    case True
    have "locked self1" by (simp add: self1)
    from listen_locked [OF this d1, of U "request_listener ?c" Ev_Ack] obtain hs a where
      hs: "listen U (request_listener ?c) Ev_Ack self1 =
        self1\<lparr>app := (a, snd (app self1) @ [(request_listener ?c, Ev_Ack)]), requests := map (mark hs) (requests self1)\<rparr>" by blast
    define self2 where "self2 = listen U (request_listener ?c) Ev_Ack self1"
    define c2 where "c2 = mark hs c1"
    have e1: "evs (request_listener c1) (snd (app self1)) = []" using ev True by (simp add: self1 c1(3))
    have "log_ok {request_ptr c1} (snd (app self1) @ [(request_listener c1, Ev_Ack)]) (requests self1)"
      using log_ok_event [OF l1 mem(3), of Ev_Ack] e1 by (simp add: proper_def)
    from mark_inv [OF t1 this, of hs] have t2: "timers_ok {request_ptr c2} (timer_scheduler self2) (requests self2)"
      "log_ok {request_ptr c2} (snd (app self2)) (requests self2)" by (simp_all add: self2_def hs c2_def c1(3))
    have d2: "distinct (map request_handle (requests self2))" "locked self2"
      using d1 \<open>locked self1\<close> by (simp_all add: self2_def hs comp_def)
    have mem2: "i < length (requests self2)" "requests self2 ! i = c2" "c2 \<in> set (requests self2)"
      using mem by (auto simp: self2_def hs c2_def)
    have p2: "proper (evs (request_listener c2) (snd (app self2)) @ [?out])"
      using e1 by (auto simp: self2_def hs c2_def c1(3) proper_def outcome_event_def outcome_def)
    have "ep_inv {} (cleaned (GG_CoapRequestContext_Cancel i (listen U (request_listener c2) ?out self2)))"
      using rest by (intro end_request [OF t2 d2 mem2(3) p2 mem2(1,2)]) (auto simp: self2_def hs)
    then show ?thesis using run True c1(3) by (simp add: self2_def c2_def cleaned_def)
  qed
qed

end
