(* ===== verification/Coap_Endpoint_Execution.thy ===== *)
theory Coap_Endpoint_Execution
  imports Coap_Endpoint_Correctness
begin

text \<open>
  Executions of a CoAP endpoint: new requests, the operations as the steps of a transition system with the users' calls,
  the transport and the clock, the states that can be reached, and the properties of the endpoint.
\<close>

section \<open>New requests\<close>

definition next_handle :: "'e GG_CoapEndpoint \<Rightarrow> u64" where
  "next_handle self = (if token_counter self + 1 = 0 then 1 else token_counter self + 1)"

lemma CreateTimer_result:
  assumes "timer_invar s"
  obtains (none) "GG_TimerScheduler_CreateTimer s = (GG_ERROR_OUT_OF_RESOURCES, None, s)"
  | (new) t s' where "GG_TimerScheduler_CreateTimer s = (GG_SUCCESS, Some t, s')" "timer_invar s'" "now s' = now s"
      "t \<notin> set (scheduled s)" "t \<notin> set (frozen s)" "scheduled s' = scheduled s" "frozen s' = frozen s @ [t]"
      "\<And>x. x \<noteq> t \<Longrightarrow> timers s' x = timers s x"
proof (cases "nursery s")
  case Nil
  with none show thesis by (simp add: GG_TimerScheduler_CreateTimer_def)
next
  case (Cons t ts)
  have t: "t \<notin> set (scheduled s)" "t \<notin> set (frozen s)" using assms Cons by (auto simp: timer_invar_def)
  define s' where "s' = snd (snd (GG_TimerScheduler_CreateTimer s))"
  have "GG_TimerScheduler_CreateTimer s = (GG_SUCCESS, Some t, s')" using Cons by (simp add: s'_def GG_TimerScheduler_CreateTimer_def Let_def)
  then show thesis
    using t Cons CreateTimer_invar [OF assms]
    by (intro new [of t s']) (simp_all add: s'_def, simp_all add: GG_TimerScheduler_CreateTimer_def timer_defs)
qed

lemma timers_ok_add:
  assumes ok: "timers_ok {} s cs" and s': "timer_invar s'" "now s' = now s" "t \<notin> set (scheduled s)"
      "scheduled s' = scheduled s" "frozen s' = frozen s @ [t]" "\<And>x. x \<noteq> t \<Longrightarrow> timers s' x = timers s x"
    and c: "resend_timer c = Some t" "request_state c = GG_COAP_REQUEST_STATE_READY_TO_SEND" "request_ptr c \<notin> request_ptr ` set cs"
  shows "timers_ok {request_ptr c} s' (cs @ [c])"
proof -
  have old: "timer_of {} s d" "resend_timer d \<noteq> Some t" if "d \<in> set cs" for d
    using ok that s'(3) by (auto simp: timers_ok_def timer_of_def split: option.splits)
  have "timer_of {request_ptr c} s' d" if d: "d \<in> set (cs @ [c])" for d
  proof (cases "d \<in> set cs")
    case True
    then have "request_ptr d \<noteq> request_ptr c" using c(3) by (metis imageI)
    then show ?thesis using old [OF True] s' by (auto simp: timer_of_def split: option.splits)
  next
    case False
    then have "d = c" using d by simp
    then show ?thesis using c s'(5) by (simp add: timer_of_def)
  qed
  moreover have "inj_on resend_timer {d \<in> set (cs @ [c]). resend_timer d \<noteq> None}"
  proof -
    have "{d \<in> set (cs @ [c]). resend_timer d \<noteq> None} = insert c {d \<in> set cs. resend_timer d \<noteq> None}" using c(1) by auto
    moreover have "inj_on resend_timer (insert c {d \<in> set cs. resend_timer d \<noteq> None})"
      using ok old(2) c(1) by (auto simp: timers_ok_def)
    ultimately show ?thesis by metis
  qed
  moreover have "started_by (now s') s'" using ok s' by (fastforce simp: timers_ok_def started_by_def)
  ultimately show ?thesis using ok s'(1,4) c(3) unfolding timers_ok_def by auto
qed

lemma Create_context:
  assumes "GG_TimerScheduler_CreateTimer (timer_scheduler self) = (r, t, s)"
  shows "\<exists>e timeout resends. snd e = snd (app self) \<and>
    GG_CoapRequestContext_Create (callbacks U junk) l params (self\<lparr>token_counter := token_counter self + 1\<rparr>) =
      (if GG_FAILED r then (Inl r, self\<lparr>token_counter := next_handle self, app := e, timer_scheduler := s\<rparr>)
       else (Inr \<lparr>request_ptr = next_ptr self, request_handle = next_handle self, request_message = no_message,
                  request_state = GG_COAP_REQUEST_STATE_READY_TO_SEND, resend_timer = t, resend_timeout = timeout,
                  resend_count = 0, max_resends = resends, request_listener = l\<rparr>,
             self\<lparr>token_counter := next_handle self, app := e, timer_scheduler := s, next_ptr := next_ptr self + 1\<rparr>))"
proof -
  obtain a log where a: "app self = (a, log)" by fastforce
  obtain x a' where u: "user_random U a = (x, a')" by fastforce
  show ?thesis
    using assms a u
    by (cases params; cases self)
      (auto simp: GG_CoapRequestContext_Create_def Let_def callbacks_def next_handle_def GG_COAP_INVALID_REQUEST_HANDLE_def)
qed

lemma callbacks_memory: "allocated_memory (callbacks U junk) = junk"
  by (simp add: callbacks_def)

lemma callbacks_attach: "GG_DataSink_SetListener (callbacks U junk) k on (s, log) = (user_attach U k on s, log)"
  by (simp add: callbacks_def)

lemma SendRequest_inv:
  assumes inv: "ep_inv {} self" and l: "\<not> locked self"
    and fresh: "evs l (snd (app self)) = []" "l \<notin> request_listener ` set (requests self)" "next_handle self \<notin> request_handle ` set (requests self)"
  shows "\<exists>r h self'. GG_CoapEndpoint_SendRequest (callbacks U junk) meth options payload params l self = Some (r, h, self') \<and>
    ep_inv {} self' \<and> \<not> locked self' \<and> (r = GG_SUCCESS \<longrightarrow> no_cancel U \<longrightarrow> promised l self')"
proof -
  let ?C = "callbacks U junk" and ?token = "token_prefix self @ GG_BytesFromInt32Be (ucast (token_counter self))"
  have ok: "timers_ok {} (timer_scheduler self) (requests self)" "timer_invar (timer_scheduler self)"
    and lg: "log_ok {} (snd (app self)) (requests self)" and pre: "length (token_prefix self) \<le> 4"
    using inv by (simp_all add: ep_inv_def timers_ok_def)
  have tok: "length ?token \<le> 8" using pre by (simp add: GG_BytesFromInt32Be_def)
  show ?thesis
  proof (cases rule: CreateTimer_result [OF ok(2)])
    case 1
    from Create_context [OF 1, of U junk l params] obtain e where e: "snd e = snd (app self)"
      "GG_CoapRequestContext_Create ?C l params (self\<lparr>token_counter := token_counter self + 1\<rparr>) =
        (Inl GG_ERROR_OUT_OF_RESOURCES, self\<lparr>token_counter := next_handle self, app := e, timer_scheduler := timer_scheduler self\<rparr>)"
      by auto
    then show ?thesis using inv l pre
      by (simp add: GG_CoapEndpoint_SendRequest_def GG_CoapEndpoint_SendRequestFromBufferSource_def Let_def ep_inv_def)
  next
    case (2 t s')
    let ?self = "\<lambda>e. self\<lparr>token_counter := next_handle self, app := e, timer_scheduler := s', next_ptr := next_ptr self + 1\<rparr>"
    let ?c = "\<lambda>timeout resends. \<lparr>request_ptr = next_ptr self, request_handle = next_handle self, request_message = no_message,
      request_state = GG_COAP_REQUEST_STATE_READY_TO_SEND, resend_timer = Some t, resend_timeout = timeout,
      resend_count = 0, max_resends = resends, request_listener = l\<rparr>"
    from Create_context [OF 2(1), of U junk l params] obtain e timeout resends where e: "snd e = snd (app self)"
      "GG_CoapRequestContext_Create ?C l params (self\<lparr>token_counter := token_counter self + 1\<rparr>) = (Inr (?c timeout resends), ?self e)"
      unfolding GG_FAILED_def by (simp only: simp_thms if_False) blast
    from create_request_total [OF tok] obtain m where
      m: "create_request junk meth options (message_id_counter self) ?token payload = Some (Inr m)" by blast
    define c' where "c' = (?c timeout resends)\<lparr>request_message := m\<rparr>"
    have c: "request_ptr c' = next_ptr self" "request_handle c' = next_handle self" "request_listener c' = l"
        "request_state c' = GG_COAP_REQUEST_STATE_READY_TO_SEND" "resend_timer c' = Some t" by (simp_all add: c'_def)
    define s2 where "s2 = snd (GG_Timer_Schedule t (Some (request_ptr c')) (resend_timeout c') s')"
    let ?cs = "requests self @ [c']"
    define self2 where "self2 = (?self e)\<lparr>message_id_counter := message_id_counter self + 1, requests := ?cs, timer_scheduler := s2\<rparr>"
    have ptr: "\<forall>d \<in> set (requests self). request_ptr d < next_ptr self" using inv by (simp add: ep_inv_def)
    then have "request_ptr c' \<notin> request_ptr ` set (requests self)" using c(1) by auto
    then have "timers_ok {request_ptr c'} s' ?cs" using timers_ok_add [OF ok(1) 2(2,3,4,6,7,8) c(5,4)] by blast
    then have t2: "timers_ok {} s2 ?cs" unfolding s2_def by (rule timers_ok_schedule) (simp_all add: c(5))
    have l2: "log_ok {} (snd e) ?cs" using lg fresh(1,2) c e(1) by (auto simp: log_ok_def)
    have "distinct (map request_handle ?cs)" using inv fresh(3) c(2) by (auto simp: ep_inv_def)
    then have inv2: "ep_inv {} self2" using inv t2 l2 l ptr c(1,4) by (auto simp: ep_inv_def self2_def less_Suc_eq)
    have run: "GG_CoapEndpoint_SendRequest ?C meth options payload params l self =
        Option.bind (GG_CoapEndpoint_SendPendingRequests ?C self2) (\<lambda>self. Some (GG_SUCCESS, Some (request_handle c'), self))"
      using e(2) m pre
      by (simp add: GG_CoapEndpoint_SendRequest_def GG_CoapEndpoint_SendRequestFromBufferSource_def Let_def self2_def s2_def
          GG_CoapRequestContext_ScheduleTimer_def callbacks_memory c'_def)
    have "promised l self2" using c(3,4) by (auto simp: promised_def self2_def waiting_def)
    moreover have "\<not> locked self2" using l by (simp add: self2_def)
    ultimately show ?thesis using SendPendingRequests_unlocked [OF inv2, of U junk] run by (auto simp: progress_def)
  qed
qed

section \<open>Steps\<close>

text \<open>What the users, the transport and the clock do to an endpoint.\<close>

datatype ep_step =
    Send_Request u8 "GG_CoapMessageOption list" bytes "GG_CoapClientParameters option" nat
  | Cancel_Request u64
  | Receive bytes "GG_BufferMetadata option"
  | Can_Put
  | Set_Data_Sink "nat option"
  | Set_Time u32
  | Respond GG_CoapResponder u8 "GG_CoapMessageOption list" "bytes option" nat
  | Register_Handler bytes u32 nat
  | Unregister_Handler "bytes option" "nat option"
  | Set_Default_Handler "nat option"
  | Register_Filter nat
  | Unregister_Filter nat
  | Set_Token_Prefix bytes
  | Set_Sink_Listener "nat option"

fun endpoint_step :: "'e GG_CoapCallbacks \<Rightarrow> ep_step \<Rightarrow> 'e GG_CoapEndpoint \<Rightarrow> 'e GG_CoapEndpoint option" where
  "endpoint_step C (Send_Request meth options payload params l) self =
     map_option (snd \<circ> snd) (GG_CoapEndpoint_SendRequest C meth options payload params l self)"
| "endpoint_step C (Cancel_Request h) self = Some (snd (GG_CoapEndpoint_CancelRequest h self))"
| "endpoint_step C (Receive data metadata) self = map_option snd (GG_CoapEndpoint_PutData C data metadata self)"
| "endpoint_step C Can_Put self = GG_CoapEndpoint_OnCanPut C self"
| "endpoint_step C (Set_Data_Sink sink) self = GG_CoapEndpoint_SetDataSink C sink self"
| "endpoint_step C (Set_Time n) self = endpoint_set_time C n self"
| "endpoint_step C (Respond responder code options payload n) self =
     map_option snd (GG_CoapResponder_Respond C responder code options payload n self)"
| "endpoint_step C (Register_Handler path flags object) self = Some (snd (GG_CoapEndpoint_RegisterRequestHandler path flags object self))"
| "endpoint_step C (Unregister_Handler path object) self = Some (snd (GG_CoapEndpoint_UnregisterRequestHandler path object self))"
| "endpoint_step C (Set_Default_Handler object) self = Some (GG_CoapEndpoint_SetDefaultRequestHandler object self)"
| "endpoint_step C (Register_Filter f) self = Some (GG_CoapEndpoint_RegisterRequestFilter f self)"
| "endpoint_step C (Unregister_Filter f) self = Some (snd (GG_CoapEndpoint_UnregisterRequestFilter f self))"
| "endpoint_step C (Set_Token_Prefix pre) self = Some (snd (GG_CoapEndpoint_SetTokenPrefix pre self))"
| "endpoint_step C (Set_Sink_Listener l) self = Some (GG_CoapEndpoint_SetListener l self)"

text \<open>
  What is asked of a step: a listener is used for one request, the handle of a new request is not that of a request of
  $2^{64}$ requests ago, and the clock does not go back.
\<close>

fun allowed :: "ep_step \<Rightarrow> 's endpoint \<Rightarrow> bool" where
  "allowed (Send_Request meth options payload params l) self \<longleftrightarrow>
     evs l (snd (app self)) = [] \<and> l \<notin> request_listener ` set (requests self) \<and>
     next_handle self \<notin> request_handle ` set (requests self)"
| "allowed (Set_Time n) self \<longleftrightarrow> now (timer_scheduler self) \<le> n"
| "allowed _ self \<longleftrightarrow> True"

inductive reachable :: "'s user \<Rightarrow> (nat \<Rightarrow> u8) \<Rightarrow> 's endpoint \<Rightarrow> bool" for U junk where
  start: "reachable U junk (GG_CoapEndpoint_Create (callbacks U junk) GG_TimerScheduler_Create sink src (s, []))"
| step: "reachable U junk self \<Longrightarrow> allowed st self \<Longrightarrow> endpoint_step (callbacks U junk) st self = Some self' \<Longrightarrow> reachable U junk self'"

lemma CancelRequest_inv:
  assumes "ep_inv {} self" and "\<not> locked self"
  shows "ep_inv {} (snd (GG_CoapEndpoint_CancelRequest h self)) \<and> \<not> locked (snd (GG_CoapEndpoint_CancelRequest h self))"
  using assms drop_timers_ok [of "{}" "timer_scheduler self" "requests self" "\<lambda>c. request_handle c = h"]
    log_ok_filter [of "{}" "snd (app self)" "requests self" "\<lambda>c. request_handle c \<noteq> h"]
  by (auto simp: CancelRequest_unlocked ep_inv_def distinct_map_filter)

lemma PutData_inv:
  assumes u: "user_ok U" and inv: "ep_inv {} self" and l: "\<not> locked self"
  shows "\<exists>r self'. GG_CoapEndpoint_PutData (callbacks U junk) data md self = Some (r, self') \<and> ep_inv {} self' \<and> \<not> locked self'"
proof (cases "GG_CoapMessage_CreateFromDatagram data")
  case (Inl err)
  then show ?thesis using inv l by (simp add: GG_CoapEndpoint_PutData_def)
next
  case (Inr m)
  then have m: "message_ok m" by (simp add: CreateFromDatagram_ok)
  have "GG_CoapMessage_GetCode m \<noteq> 0" if "GG_COAP_MESSAGE_CODE_CLASS (GG_CoapMessage_GetCode m) \<noteq> 0"
    using that by (auto simp: GG_COAP_MESSAGE_CODE_CLASS_def)
  with Inr OnRequest_inv [OF u inv m, of junk] OnResponse_inv [OF inv l, of m U junk] l show ?thesis
    by (fastforce simp: GG_CoapEndpoint_PutData_def)
qed

lemma SendPendingRequests_inv:
  assumes "ep_inv {} self" and "\<not> locked self"
  shows "\<exists>self'. GG_CoapEndpoint_SendPendingRequests (callbacks U junk) self = Some self' \<and> ep_inv {} self' \<and> \<not> locked self'"
  using SendPendingRequests_unlocked [OF assms, of U junk] assms(2) by (auto simp: progress_def)

lemma OnCanPut_inv:
  assumes inv: "ep_inv {} self" and l: "\<not> locked self"
  shows "\<exists>self'. GG_CoapEndpoint_OnCanPut (callbacks U junk) self = Some self' \<and> ep_inv {} self' \<and> \<not> locked self'"
proof -
  let ?R = "GG_CoapEndpoint_SendPendingResponses (callbacks U junk)"
  have toggle: "ep_inv {} (x\<lparr>try_responses_first := b\<rparr>)" if "ep_inv {} x" for x :: "'a endpoint" and b
    using that by (simp add: ep_inv_def)
  from SendPendingRequests_inv [OF inv l, of U junk] obtain x where
    x: "GG_CoapEndpoint_SendPendingRequests (callbacks U junk) self = Some x" "ep_inv {} x" "\<not> locked x" by blast
  from SendPendingRequests_inv [of "?R self" U junk] SendPendingResponses_inv [OF inv, of U junk] l obtain y where
    y: "GG_CoapEndpoint_SendPendingRequests (callbacks U junk) (?R self) = Some y" "ep_inv {} y" "\<not> locked y" by auto
  show ?thesis using x y SendPendingResponses_inv [OF x(2), of U junk]
    by (auto simp: GG_CoapEndpoint_OnCanPut_def intro: toggle)
qed

lemma SetDataSink_inv:
  assumes inv: "ep_inv {} self" and l: "\<not> locked self"
  shows "\<exists>self'. GG_CoapEndpoint_SetDataSink (callbacks U junk) sink self = Some self' \<and> ep_inv {} self' \<and> \<not> locked self'"
proof -
  obtain s log where a: "app self = (s, log)" by fastforce
  have sink: "ep_inv {} (self\<lparr>connection_sink := sink, app := (s', log)\<rparr>)" for s' using inv a by (simp add: ep_inv_def)
  show ?thesis
  proof (cases sink)
    case None
    then show ?thesis using l a inv sink
      by (auto simp: GG_CoapEndpoint_SetDataSink_def Let_def callbacks_def ep_inv_def split: option.splits)
  next
    case (Some new)
    define s' where "s' = user_attach U new True (case connection_sink self of None \<Rightarrow> s | Some old \<Rightarrow> user_attach U old False s)"
    let ?self = "self\<lparr>connection_sink := sink, app := (s', log)\<rparr>"
    have "GG_CoapEndpoint_SetDataSink (callbacks U junk) sink self = map_option (GG_CoapEndpoint_SendPendingResponses (callbacks U junk))
        (GG_CoapEndpoint_SendPendingRequests (callbacks U junk) ?self)"
      using a Some unfolding s'_def GG_CoapEndpoint_SetDataSink_def Let_def
      by (cases "connection_sink self") (simp_all add: callbacks_attach)
    then show ?thesis using SendPendingRequests_inv [OF sink [of s'], of U junk] l SendPendingResponses_inv by fastforce
  qed
qed

lemma set_now_inv:
  assumes "ep_inv X self" and "now (timer_scheduler self) \<le> n"
  shows "ep_inv X (self\<lparr>timer_scheduler := (timer_scheduler self)\<lparr>now := n\<rparr>\<rparr>)"
proof -
  have "timer_of X (s\<lparr>now := n\<rparr>) c = timer_of X s c" for s c by (simp add: timer_of_def split: option.splits)
  moreover have "started_by n (timer_scheduler self)" using assms by (force simp: ep_inv_def timers_ok_def started_by_def)
  ultimately show ?thesis using assms(1) set_now_invar by (auto simp: ep_inv_def timers_ok_def started_by_def)
qed

lemma endpoint_set_time_inv:
  assumes inv: "ep_inv {} self" and l: "\<not> locked self" and n: "now (timer_scheduler self) \<le> n"
  shows "\<exists>self'. endpoint_set_time (callbacks U junk) n self = Some self' \<and> ep_inv {} self' \<and> \<not> locked self' \<and>
    (no_cancel U \<longrightarrow> (\<forall>k. promised k self \<longrightarrow> promised k self')) \<and>
    (due_timers n (timer_scheduler self) \<noteq> [] \<longrightarrow> potential (requests self') < potential (requests self))"
proof -
  let ?s = "(timer_scheduler self)\<lparr>now := n\<rparr>"
  from fire_requests [OF set_now_inv [OF inv n] l, of n U junk] obtain s' self' where
    f: "fire_timers (on_timer (callbacks U junk)) n (?s, Some self) = Some (Some (s', Some self'))"
    "ep_inv {} (self'\<lparr>timer_scheduler := s'\<rparr>)" "progress U (self\<lparr>timer_scheduler := ?s\<rparr>) (self'\<lparr>timer_scheduler := s'\<rparr>)"
    "due_timers n ?s \<noteq> [] \<longrightarrow> potential (requests self') < potential (requests self)"
    by (auto split: if_splits)
  have "due_timers n ?s = due_timers n (timer_scheduler self)" by (simp add: due_timers_def)
  moreover have "promised k (self\<lparr>timer_scheduler := s\<rparr>) = promised k self" for k s by (simp add: promised_def)
  ultimately show ?thesis using f l
    by (auto simp: endpoint_set_time_def GG_TimerScheduler_SetTime_def progress_def)
qed

lemma Respond_inv:
  assumes "ep_inv {} self" and "\<not> locked self"
  shows "\<exists>r self'. GG_CoapResponder_Respond (callbacks U junk) responder code options payload n self = Some (r, self') \<and>
    ep_inv {} self' \<and> \<not> locked self'"
proof -
  from CreateResponse_total obtain m where
    "GG_CoapEndpoint_CreateResponse junk (responder_request responder) code options payload n = Some (Inr m)" by blast
  with SendResponse_inv [OF assms(1), of U junk m "responder_metadata responder"] assms(2) show ?thesis
    by (auto simp: GG_CoapResponder_Respond_def GG_CoapResponder_CreateResponse_def GG_CoapResponder_SendResponse_def callbacks_memory)
qed

lemma endpoint_step_inv:
  assumes u: "user_ok U" and inv: "ep_inv {} self" "\<not> locked self" and a: "allowed st self"
  shows "\<exists>self'. endpoint_step (callbacks U junk) st self = Some self' \<and> ep_inv {} self' \<and> \<not> locked self'"
proof (cases st)
  case (Send_Request meth options payload params l)
  with SendRequest_inv [OF inv, of l U junk meth options payload params] a show ?thesis by auto
next
  case (Receive data md)
  with PutData_inv [OF u inv, of junk data md] show ?thesis by auto
next
  case (Set_Time n)
  with endpoint_set_time_inv [OF inv, of n U junk] a show ?thesis by auto
next
  case (Respond responder code options payload n)
  with Respond_inv [OF inv, of U junk responder code options payload n] show ?thesis by auto
qed (use inv CancelRequest_inv [OF inv] OnCanPut_inv [OF inv] SetDataSink_inv [OF inv] in
    \<open>auto simp: ep_inv_def GG_CoapEndpoint_RegisterRequestHandler_def GG_CoapEndpoint_RegisterRequestHandlerNode_def
      GG_CoapEndpoint_UnregisterRequestHandler_def GG_CoapEndpoint_SetDefaultRequestHandler_def GG_CoapEndpoint_RegisterRequestFilter_def
      GG_CoapEndpoint_UnregisterRequestFilter_def GG_CoapEndpoint_SetTokenPrefix_def GG_CoapEndpoint_SetListener_def
      split: option.splits\<close>)

lemma start_inv:
  "ep_inv {} (GG_CoapEndpoint_Create (callbacks U junk) GG_TimerScheduler_Create sink src (s, [])) \<and>
   \<not> locked (GG_CoapEndpoint_Create (callbacks U junk) GG_TimerScheduler_Create sink src (s, []))"
proof -
  obtain r s' where r: "user_random U s = (r, s')" by fastforce
  have "timers_ok {} GG_TimerScheduler_Create []"
    using Create_invar by (simp add: timers_ok_def started_by_def GG_TimerScheduler_Create_def)
  moreover have "log_ok {} [] []" by (simp add: log_ok_def evs_def proper_def)
  ultimately show ?thesis using r
    by (simp add: GG_CoapEndpoint_Create_def Let_def callbacks_def ep_inv_def GG_CONFIG_COAP_RESPONSE_QUEUE_LENGTH_def split: option.splits)
qed

lemma reachable_inv:
  assumes u: "user_ok U"
  shows "reachable U junk self \<Longrightarrow> ep_inv {} self \<and> \<not> locked self"
proof (induction rule: reachable.induct)
  case (start sink src s)
  then show ?case by (rule start_inv)
next
  case (step self st self')
  with endpoint_step_inv [OF u, of self st junk] show ?case by fastforce
qed

section \<open>Requests that are not answered\<close>

text \<open>The host sleeps until the next timer and sets the time of the scheduler.\<close>

fun ticks :: "'e GG_CoapCallbacks \<Rightarrow> nat \<Rightarrow> 'e GG_CoapEndpoint \<Rightarrow> 'e GG_CoapEndpoint option" where
  "ticks C 0 self = Some self"
| "ticks C (Suc k) self =
     (if scheduled (timer_scheduler self) = [] then Some self
      else Option.bind
        (endpoint_set_time C (now (timer_scheduler self) + GG_TimerScheduler_GetNextScheduledTime (timer_scheduler self)) self)
        (ticks C k))"

lemma next_time:
  assumes "scheduled s \<noteq> []"
  shows "now s \<le> now s + GG_TimerScheduler_GetNextScheduledTime s" "due_timers (now s + GG_TimerScheduler_GetNextScheduledTime s) s \<noteq> []"
  using assms by (auto simp: GG_TimerScheduler_GetNextScheduledTime_def due_timers_def split: list.splits)

lemma ticks_end:
  assumes "ep_inv {} self" and "\<not> locked self" and "potential (requests self) \<le> k"
  shows "\<exists>self'. ticks (callbacks U junk) k self = Some self' \<and> ep_inv {} self' \<and> \<not> locked self' \<and>
    scheduled (timer_scheduler self') = [] \<and> (no_cancel U \<longrightarrow> (\<forall>l. promised l self \<longrightarrow> promised l self'))"
  using assms
proof (induction k arbitrary: self)
  case 0
  have "scheduled (timer_scheduler self) = []"
  proof (rule ccontr)
    assume "scheduled (timer_scheduler self) \<noteq> []"
    then obtain t where "t \<in> set (scheduled (timer_scheduler self))" by (meson hd_in_set)
    with 0(1) obtain c where "c \<in> set (requests self)" "resend_timer c = Some t" by (auto simp: ep_inv_def timers_ok_def)
    with potential_remove [of c "requests self" "\<lambda>_. False"] 0(3) show False by simp
  qed
  with 0 show ?case by simp
next
  case (Suc k)
  let ?s = "timer_scheduler self"
  show ?case
  proof (cases "scheduled ?s = []")
    case True
    with Suc.prems show ?thesis by simp
  next
    case False
    let ?n = "now ?s + GG_TimerScheduler_GetNextScheduledTime ?s"
    from endpoint_set_time_inv [OF Suc.prems(1,2) next_time(1) [OF False], of U junk] next_time(2) [OF False] obtain self1 where
      "endpoint_set_time (callbacks U junk) ?n self = Some self1" "ep_inv {} self1" "\<not> locked self1"
      "no_cancel U \<longrightarrow> (\<forall>k. promised k self \<longrightarrow> promised k self1)" "potential (requests self1) < potential (requests self)" by blast
    with Suc.IH [of self1] Suc.prems(3) False show ?thesis by fastforce
  qed
qed

lemma unscheduled_settled:
  assumes "ep_inv {} self" and "scheduled (timer_scheduler self) = []" and "c \<in> set (requests self)"
  shows "\<not> waiting c"
  using assms by (auto simp: ep_inv_def timers_ok_def timer_of_def split: option.splits)

section \<open>Properties\<close>

text \<open>A user that keeps the datagrams sent, and its endpoint.\<close>

definition example_user :: "bytes list user" where
  "example_user = \<lparr>user_put = (\<lambda>k d md s. (GG_SUCCESS, s @ [d])), user_attach = (\<lambda>k on s. s), user_random = (\<lambda>s. (1, s)),
     user_listen = (\<lambda>l ev s. ([], s)), user_handle = (\<lambda>h m md s. (GG_FAILURE, None, s)),
     user_filter = (\<lambda>f flags m s. (GG_SUCCESS, None, s))\<rparr>"

definition example_endpoint :: "bytes list endpoint" where
  "example_endpoint = GG_CoapEndpoint_Create (callbacks example_user (\<lambda>_. 0)) GG_TimerScheduler_Create (Some 0) None ([], [])"

lemma example_user_ok: "user_ok example_user"
  by (simp add: user_ok_def example_user_def coap_request_handler_def coap_request_filter_def)

lemma example_reachable: "reachable example_user (\<lambda>_. 0) example_endpoint"
  unfolding example_endpoint_def by (rule reachable.start)

lemma example_endpoint_simps:
  "requests example_endpoint = []" "app example_endpoint = ([], [])" "connection_sink example_endpoint = Some 0"
  "responses_count example_endpoint = 0" "handlers example_endpoint = []" "default_handler example_endpoint = None"
  by (simp_all add: example_endpoint_def GG_CoapEndpoint_Create_def callbacks_def example_user_def)

lemma example_allowed: "allowed (Send_Request 1 [] [] None 7) example_endpoint"
  by (simp add: example_endpoint_simps evs_def)

text \<open>C25: The endpoint never gets stuck and never breaks its promises to the users. In every state that any sequence of calls,
  datagrams and clock changes can bring a new endpoint to, every further operation returns without a failed assertion or a
  dangling pointer, with listeners that cancel any requests from inside their callbacks. Afterwards each
  listener has been told nothing, an acknowledgement, an error, or an acknowledgement and then one outcome, never more;
  every waiting request has a retransmission timer that will call it, no timer is scheduled for a request that is gone,
  no cancelled request is left, the requests have different handles, and the response queue is within its 16 slots.\<close>

theorem coap_endpoint_run:
  assumes "user_ok U" and "reachable U junk self" and "allowed st self"
  shows "\<exists>self'. endpoint_step (callbacks U junk) st self = Some self' \<and> \<not> locked self' \<and>
    (\<forall>l. evs l (snd (app self')) = [] \<or> evs l (snd (app self')) = [Ev_Ack] \<or> (\<exists>err. evs l (snd (app self')) = [Ev_Error err]) \<or>
      (\<exists>ev. ev \<noteq> Ev_Ack \<and> evs l (snd (app self')) = [Ev_Ack, ev])) \<and>
    (\<forall>c \<in> set (requests self'). \<not> cancelled c \<and> (waiting c \<longrightarrow> (\<exists>t \<in> set (scheduled (timer_scheduler self')).
      resend_timer c = Some t \<and> listener (timers (timer_scheduler self') t) = Some (request_ptr c)))) \<and>
    (\<forall>t \<in> set (scheduled (timer_scheduler self')). \<exists>c \<in> set (requests self'). resend_timer c = Some t) \<and>
    distinct (map request_handle (requests self')) \<and> responses_count self' \<le> 16"
proof -
  from endpoint_step_inv [OF assms(1) _ _ assms(3), of junk] reachable_inv [OF assms(1,2)] obtain self' where
    s: "endpoint_step (callbacks U junk) st self = Some self'" "ep_inv {} self'" "\<not> locked self'" by blast
  have p: "proper (evs l (snd (app self')))" for l using s(2) by (simp add: ep_inv_def log_ok_def)
  have t: "\<exists>t \<in> set (scheduled (timer_scheduler self')). resend_timer c = Some t \<and>
      listener (timers (timer_scheduler self') t) = Some (request_ptr c)" if "c \<in> set (requests self')" "waiting c" for c
  proof -
    have "timer_of {} (timer_scheduler self') c" using s(2) that(1) by (simp add: ep_inv_def timers_ok_def)
    with that(2) show ?thesis by (auto simp: timer_of_def split: option.splits)
  qed
  have "(\<forall>c \<in> set (requests self'). \<not> cancelled c) \<and>
    (\<forall>t \<in> set (scheduled (timer_scheduler self')). \<exists>c \<in> set (requests self'). resend_timer c = Some t) \<and>
    distinct (map request_handle (requests self')) \<and> responses_count self' \<le> 16"
    using s(2,3) by (simp add: ep_inv_def timers_ok_def)
  then show ?thesis using s(1,3) t p [unfolded proper_def outcome_def] by (intro exI [of _ self']) blast
qed

theorem coap_endpoint_run_witness:
  "\<exists>self'. endpoint_step (callbacks example_user (\<lambda>_. 0)) (Send_Request 1 [] [] None 7) example_endpoint = Some self' \<and>
    \<not> locked self' \<and> distinct (map request_handle (requests self'))"
  using coap_endpoint_run [OF example_user_ok example_reachable example_allowed] by blast

text \<open>C26: Every request ends. Whatever the state of the endpoint, when the host keeps waking up for the next timer and no
  datagram arrives, then after at most as many wake-ups as there are retransmissions left, plus one for each request, no
  request is waiting and no timer is scheduled; and if listeners cancel nothing, then the listener of every request that was waiting
  has been told exactly one thing: that its request timed out or could not be sent.\<close>

theorem coap_requests_end:
  assumes "user_ok U" and "reachable U junk self"
  shows "\<exists>self'. ticks (callbacks U junk) (\<Sum>c \<leftarrow> filter (\<lambda>c. resend_timer c \<noteq> None) (requests self).
      unat (max_resends c) - unat (resend_count c) + 1) self = Some self' \<and>
    scheduled (timer_scheduler self') = [] \<and> (\<forall>c \<in> set (requests self'). \<not> waiting c) \<and>
    (no_cancel U \<longrightarrow> (\<forall>c \<in> set (requests self). waiting c \<longrightarrow>
      evs (request_listener c) (snd (app self')) = [Ev_Error GG_ERROR_TIMEOUT] \<or>
      evs (request_listener c) (snd (app self')) = [Ev_Error GG_ERROR_COAP_SEND_FAILURE]))"
proof -
  have inv: "ep_inv {} self" "\<not> locked self" using reachable_inv [OF assms] by simp_all
  have "(\<Sum>c \<leftarrow> filter (\<lambda>c. resend_timer c \<noteq> None) cs. unat (max_resends c) - unat (resend_count c) + 1) = potential cs" for cs
    by (induction cs) (simp_all add: potential_def)
  with ticks_end [OF inv order_refl, of U junk] obtain self' where
    s: "ticks (callbacks U junk) (\<Sum>c \<leftarrow> filter (\<lambda>c. resend_timer c \<noteq> None) (requests self).
      unat (max_resends c) - unat (resend_count c) + 1) self = Some self'" "ep_inv {} self'" "scheduled (timer_scheduler self') = []"
      "no_cancel U \<longrightarrow> (\<forall>l. promised l self \<longrightarrow> promised l self')" by auto
  have "promised (request_listener c) self" if "c \<in> set (requests self)" "waiting c" for c
    using that by (auto simp: promised_def)
  then show ?thesis using s unscheduled_settled [OF s(2,3)] by (auto simp: promised_def)
qed

theorem coap_requests_end_witness:
  "\<exists>self self'. endpoint_step (callbacks example_user (\<lambda>_. 0)) (Send_Request 1 [] [] None 7) example_endpoint = Some self \<and>
    ticks (callbacks example_user (\<lambda>_. 0)) (\<Sum>c \<leftarrow> filter (\<lambda>c. resend_timer c \<noteq> None) (requests self).
      unat (max_resends c) - unat (resend_count c) + 1) self = Some self' \<and> scheduled (timer_scheduler self') = []"
proof -
  have "ep_inv {} example_endpoint" "\<not> locked example_endpoint"
    using reachable_inv [OF example_user_ok example_reachable] by simp_all
  from endpoint_step_inv [OF example_user_ok this example_allowed] obtain self where
    s: "endpoint_step (callbacks example_user (\<lambda>_. 0)) (Send_Request 1 [] [] None 7) example_endpoint = Some self" by blast
  from coap_requests_end [OF example_user_ok reachable.step [OF example_reachable example_allowed s]] s show ?thesis by blast
qed

end
