(* ===== verification/Coap_Endpoint_Client.thy ===== *)
theory Coap_Endpoint_Client
  imports Coap_Endpoint_Execution
begin

text \<open>
  The client side of a CoAP endpoint: a response ends the request it belongs to, and no other.
\<close>

section \<open>A matched request\<close>

lemma listen_no_cancel:
  assumes "no_cancel U"
  shows "\<exists>s. listen U l ev self = self\<lparr>app := (s, snd (app self) @ [(l, ev)])\<rparr>"
proof -
  obtain s log hs s' where "app self = (s, log)" "user_listen U l ev s = (hs, s')" by (meson surj_pair)
  then show ?thesis using assms by (auto simp: listen_def no_cancel_def cancel_all_def) (metis fold_simps(1) fst_conv id_apply)
qed

lemma filter_settled:
  assumes "i < length cs" and "distinct cs" and "\<forall>c \<in> set cs. \<not> cancelled c" and "cancelled d"
  shows "filter (\<lambda>c. \<not> cancelled c) (cs[i := d]) = filter (\<lambda>c. c \<noteq> cs ! i) cs" "filter cancelled (cs[i := d]) = [d]"
proof -
  define as c bs where "as = take i cs" and "c = cs ! i" and "bs = drop (Suc i) cs"
  have cs: "cs = as @ c # bs" "i = length as" using remove_nth [OF assms(1)] assms(1) by (simp_all add: as_def c_def bs_def)
  have "\<forall>x \<in> set as \<union> set bs. \<not> cancelled x \<and> x \<noteq> c" using assms(2,3) by (auto simp: cs(1))
  then have "filter (\<lambda>c. \<not> cancelled c) (as @ d # bs) = as @ bs" "filter (\<lambda>x. x \<noteq> c) (as @ c # bs) = as @ bs" "filter cancelled (as @ d # bs) = [d]"
    using assms(4) by (auto simp: filter_id_conv filter_empty_conv)
  moreover have "cs[i := d] = as @ d # bs" by (simp add: cs)
  ultimately show "filter (\<lambda>c. \<not> cancelled c) (cs[i := d]) = filter (\<lambda>c. c \<noteq> cs ! i) cs" "filter cancelled (cs[i := d]) = [d]"
    unfolding c_def [symmetric] using cs(1) by simp_all
qed

text \<open>What the listener of a request is told about a message that matches the request.\<close>

definition notifications :: "GG_CoapMessage \<Rightarrow> GG_CoapRequestContext \<Rightarrow> listener_event list" where
  "notifications m c = (if is_reset m then [Ev_Error GG_ERROR_COAP_RESET]
     else if waiting c then [Ev_Ack, Ev_Response m] else [Ev_Response m])"

lemma OnResponse_no_cancel:
  assumes nc: "no_cancel U" and l: "\<not> locked self" and ok: "\<forall>c \<in> set (requests self). \<not> cancelled c" "distinct (requests self)"
    and i: "i < length (requests self)" "find_index (\<lambda>ctx. GG_CoapMessage_GetToken (request_message ctx) = GG_CoapMessage_GetToken m) (requests self) = Some i"
    and code: "GG_CoapMessage_GetCode m \<noteq> 0" and c: "c = requests self ! i"
  shows "\<exists>s. GG_CoapEndpoint_OnResponse (callbacks U junk) m self = Some (self\<lparr>requests := filter (\<lambda>d. d \<noteq> c) (requests self),
    timer_scheduler := GG_Timer_Destroy (resend_timer c) (timer_scheduler self),
    app := (s, snd (app self) @ map (Pair (request_listener c)) (notifications m c))\<rparr>)"
proof -
  let ?notify = "waiting c \<and> \<not> is_reset m" and ?out = "outcome_event m"
  define self1 where "self1 = matched m i self"
  have a1: "app self1 = app self" by (simp add: self1_def matched_def)
  have "\<exists>s1. (if ?notify then listen U (request_listener c) Ev_Ack self1 else self1) =
      self1\<lparr>app := (s1, snd (app self) @ map (Pair (request_listener c)) (if ?notify then [Ev_Ack] else []))\<rparr>"
  proof (cases ?notify)
    case True
    with listen_no_cancel [OF nc, of "request_listener c" Ev_Ack self1] a1 show ?thesis by simp
  next
    case False
    have "self1 = self1\<lparr>app := (fst (app self), snd (app self))\<rparr>" using a1 by simp
    with False show ?thesis by (metis append_Nil2 list.map_disc_iff)
  qed
  then obtain s1 where s1: "(if ?notify then listen U (request_listener c) Ev_Ack self1 else self1) =
      self1\<lparr>app := (s1, snd (app self) @ map (Pair (request_listener c)) (if ?notify then [Ev_Ack] else []))\<rparr>" by blast
  have ns: "(if ?notify then [Ev_Ack] else []) @ [?out] = notifications m c" by (auto simp: notifications_def outcome_event_def)
  let ?self2 = "self1\<lparr>app := (s1, snd (app self) @ map (Pair (request_listener c)) (if ?notify then [Ev_Ack] else []))\<rparr>"
  obtain s2 where "listen U (request_listener c) ?out ?self2 =
      self1\<lparr>app := (s2, (snd (app self) @ map (Pair (request_listener c)) (if ?notify then [Ev_Ack] else [])) @ [(request_listener c, ?out)])\<rparr>"
    using listen_no_cancel [OF nc, of "request_listener c" ?out ?self2] by auto
  then have s2: "listen U (request_listener c) ?out ?self2 =
      self1\<lparr>app := (s2, snd (app self) @ map (Pair (request_listener c)) (notifications m c))\<rparr>" unfolding ns [symmetric] by simp
  let ?d = "(settled_context m c)\<lparr>request_state := GG_COAP_REQUEST_STATE_CANCELLED\<rparr>"
  have run: "GG_CoapEndpoint_OnResponse (callbacks U junk) m self = Some (cleaned (GG_CoapRequestContext_Cancel i
      (listen U (request_listener c) ?out (if ?notify then listen U (request_listener c) Ev_Ack self1 else self1))))"
    unfolding self1_def by (rule OnResponse_run [OF i(2) l code c])
  have "cancelled ?d" "resend_timer ?d = None" by (simp_all add: settled_context_def)
  note fs = filter_settled [OF i(1) ok(2,1) this(1)]
  have "cleaned (GG_CoapRequestContext_Cancel i (self1\<lparr>app := x\<rparr>)) = self\<lparr>requests := filter (\<lambda>d. d \<noteq> c) (requests self),
      timer_scheduler := GG_Timer_Destroy (resend_timer c) (timer_scheduler self), app := x\<rparr>" for x
    using i(1) fs l c \<open>resend_timer ?d = None\<close>
    by (simp add: GG_CoapRequestContext_Cancel_def set_request_def self1_def matched_def cleaned_def destroy_timers_def)
  then show ?thesis unfolding run s1 s2 by blast
qed

section \<open>Properties\<close>

lemma evs_notifications:
  "evs l (log @ map (Pair k) es) = evs l log @ (if l = k then es else [])"
  by (induction es arbitrary: log rule: rev_induct) (auto simp: evs_def)

text \<open>C27: A response ends the request it belongs to, and no other. When a datagram with a response arrives whose token is that
  of a request, then the listener of the request is told that the request was acknowledged, if it was not before, and then the
  response (or, for a reset message, the error \<open>GG_ERROR_COAP_RESET\<close>), the request and its timer
  are gone, so it is not sent again and not answered again, and the other requests, their timers and their listeners
  are untouched. (When listeners cancel no requests.)\<close>

theorem coap_response_delivered:
  assumes "user_ok U" and "no_cancel U" and "reachable U junk self" and "c \<in> set (requests self)"
    and "GG_CoapMessage_CreateFromDatagram data = Inr m" and "GG_COAP_MESSAGE_CODE_CLASS (GG_CoapMessage_GetCode m) \<noteq> 0"
    and "\<forall>d \<in> set (requests self). GG_CoapMessage_GetToken (request_message d) = GG_CoapMessage_GetToken m \<longleftrightarrow> d = c"
  shows "\<exists>self'. GG_CoapEndpoint_PutData (callbacks U junk) data md self = Some (GG_SUCCESS, self') \<and>
    requests self' = filter (\<lambda>d. d \<noteq> c) (requests self) \<and>
    timer_scheduler self' = GG_Timer_Destroy (resend_timer c) (timer_scheduler self) \<and>
    (if is_reset m then evs (request_listener c) (snd (app self')) = evs (request_listener c) (snd (app self)) @ [Ev_Error GG_ERROR_COAP_RESET]
     else evs (request_listener c) (snd (app self')) = [Ev_Ack, Ev_Response m]) \<and>
    (\<forall>l. l \<noteq> request_listener c \<longrightarrow> evs l (snd (app self')) = evs l (snd (app self)))"
proof -
  have inv: "ep_inv {} self" "\<not> locked self" using reachable_inv [OF assms(1,3)] by simp_all
  then have ok: "\<forall>d \<in> set (requests self). \<not> cancelled d" "distinct (requests self)" by (simp_all add: ep_inv_def distinct_map)
  obtain i where i: "i < length (requests self)" "requests self ! i = c" using assms(4) by (metis in_set_conv_nth)
  have fi: "find_index (\<lambda>ctx. GG_CoapMessage_GetToken (request_message ctx) = GG_CoapMessage_GetToken m) (requests self) = Some i"
    using i assms(4,7) nth_eq_iff_index_eq [OF ok(2)] by (intro find_index_unique) auto
  have code: "GG_CoapMessage_GetCode m \<noteq> 0" using assms(6) by (auto simp: GG_COAP_MESSAGE_CODE_CLASS_def)
  from OnResponse_no_cancel [OF assms(2) inv(2) ok i(1) fi code i(2) [symmetric], of junk] obtain s where
    run: "GG_CoapEndpoint_OnResponse (callbacks U junk) m self = Some (self\<lparr>requests := filter (\<lambda>d. d \<noteq> c) (requests self),
      timer_scheduler := GG_Timer_Destroy (resend_timer c) (timer_scheduler self),
      app := (s, snd (app self) @ map (Pair (request_listener c)) (notifications m c))\<rparr>)" by blast
  have "evs (request_listener c) (snd (app self)) = (if waiting c then [] else [Ev_Ack])"
    using inv(1) assms(4) ok(1) by (cases "request_state c") (auto simp: ep_inv_def log_ok_def waiting_def)
  then show ?thesis using run assms(5,6) by (auto simp: GG_CoapEndpoint_PutData_def evs_notifications notifications_def)
qed

text \<open>An endpoint without a transport, on which a request waits.\<close>

definition idle_endpoint :: "bytes list endpoint" where
  "idle_endpoint = GG_CoapEndpoint_Create (callbacks example_user (\<lambda>_. 0)) GG_TimerScheduler_Create None None ([], [])"

lemma idle_request:
  "\<exists>self c. endpoint_step (callbacks example_user (\<lambda>_. 0)) (Send_Request 1 [] [] None 7) idle_endpoint = Some self \<and>
    requests self = [c] \<and> GG_CoapMessage_GetToken (request_message c) = [0, 0, 0, 1] \<and> request_listener c = 7"
proof -
  have t: "GG_BytesFromInt32Be (1 :: u32) = [0, 0, 0, 1]" by (simp add: GG_BytesFromInt32Be_def)
  from Create_spec [of "[0, 0, 0, 1]" "[]" None 0 "\<lambda>_. 0" 1 GG_COAP_MESSAGE_TYPE_CON 0] obtain m where
    m: "create_request (\<lambda>_. 0) 1 [] 0 [0, 0, 0, 1] [] = Some (Inr m)" "GG_CoapMessage_GetToken m = [0, 0, 0, 1]"
    by (auto simp: create_request_def header_read(4))
  let ?C = "callbacks example_user (\<lambda>_. 0)"
  obtain sch where sch: "GG_TimerScheduler_CreateTimer GG_TimerScheduler_Create = (GG_SUCCESS, Some 0, sch)"
    by (simp add: GG_TimerScheduler_CreateTimer_def GG_TimerScheduler_Create_def GG_CONFIG_MAX_TIMERS_def upt_conv_Cons Let_def)
  have rnd: "GG_GetRandomInteger ?C e = (1, e)" for e by (cases e) (simp add: callbacks_def example_user_def)
  have run: "send_loop ?C 0 self = Some self" if "connection_sink self = None" "requests self = [c]" for self c
    using that by (subst send_loop.simps) (simp add: GG_CoapRequestContext_TryToSend_def)
  show ?thesis
    using m t by (simp add: idle_endpoint_def GG_CoapEndpoint_Create_def GG_CoapEndpoint_SendRequest_def Let_def run
        GG_CoapEndpoint_SendRequestFromBufferSource_def GG_CoapRequestContext_Create_def sch
        GG_COAP_ACK_TIMEOUT_MS_def GG_CoapRequestContext_ScheduleTimer_def
        GG_CoapEndpoint_SendPendingRequests_def unlock_cleaned cleaned_def rnd callbacks_memory
        GG_COAP_INVALID_REQUEST_HANDLE_def)
qed

theorem coap_response_delivered_witness:
  "\<exists>self m self'. endpoint_step (callbacks example_user (\<lambda>_. 0)) (Send_Request 1 [] [] None 7) idle_endpoint = Some self \<and>
    GG_CoapEndpoint_PutData (callbacks example_user (\<lambda>_. 0)) [0x64, 0x45, 0, 0, 0, 0, 0, 1] None self = Some (GG_SUCCESS, self') \<and>
    requests self' = [] \<and> evs 7 (snd (app self')) = [Ev_Ack, Ev_Response m]"
proof -
  let ?data = "[0x64, 0x45, 0, 0, 0, 0, 0, 1]"
  obtain self c where s: "endpoint_step (callbacks example_user (\<lambda>_. 0)) (Send_Request 1 [] [] None 7) idle_endpoint = Some self"
    "requests self = [c]" "GG_CoapMessage_GetToken (request_message c) = [0, 0, 0, 1]" "request_listener c = 7"
    using idle_request by blast
  have "allowed (Send_Request 1 [] [] None 7) idle_endpoint"
    by (simp add: idle_endpoint_def GG_CoapEndpoint_Create_def callbacks_def example_user_def evs_def)
  then have r: "reachable example_user (\<lambda>_. 0) self"
    using reachable.step [OF reachable.start [of example_user "\<lambda>_. 0" None None "[]", folded idle_endpoint_def] _ s(1)] by blast
  obtain m where m: "GG_CoapMessage_CreateFromDatagram ?data = Inr m" "message_data m = ?data"
    by (simp add: GG_CoapMessage_CreateFromDatagram_def skip_options.simps)
  have t: "GG_COAP_MESSAGE_CODE_CLASS (GG_CoapMessage_GetCode m) \<noteq> 0" "GG_CoapMessage_GetToken m = [0, 0, 0, 1]" "\<not> is_reset m"
    using m(2) by (simp_all add: GG_COAP_MESSAGE_CODE_CLASS_def GG_CoapMessage_GetCode_def GG_CoapMessage_GetToken_def
        GG_CoapMessage_GetType_def subarray_def message_type_code_def)
  have "no_cancel example_user" by (simp add: no_cancel_def example_user_def)
  from coap_response_delivered [OF example_user_ok this r _ m(1) t(1), of c None] s t show ?thesis by auto
qed

end
