(* ===== verification/Coap_Endpoint_Server.thy ===== *)
theory Coap_Endpoint_Server
  imports Coap_Endpoint_Execution
begin

text \<open>
  The server side of a CoAP endpoint: the ring of responses that wait for the transport is a first-in first-out queue, and
  a request is answered by the first handler whose path covers the path of the request. Only where the path of the
  handler is the whole path of the request do the documentation and the code agree; the property is stated for that case.
\<close>

section \<open>The queue of responses\<close>

text \<open>The queue, first response first, and what the operations do to it.\<close>

definition response_queue :: "'e GG_CoapEndpoint \<Rightarrow> (bytes \<times> GG_BufferMetadata option) list" where
  "response_queue self = map (\<lambda>i. responses self ! ((responses_cursor self + i) mod 16)) [0..<responses_count self]"

definition queue_ok :: "'e GG_CoapEndpoint \<Rightarrow> bool" where
  "queue_ok self \<longleftrightarrow> length (responses self) = 16 \<and> responses_cursor self < 16 \<and> responses_count self \<le> 16"

fun flush_queue :: "'s user \<Rightarrow> nat \<Rightarrow> (bytes \<times> GG_BufferMetadata option) list \<Rightarrow> 's \<Rightarrow> (bytes \<times> GG_BufferMetadata option) list \<times> 's" where
  "flush_queue U k [] s = ([], s)"
| "flush_queue U k ((d, md) # q) s =
     (case user_put U k d md s of (r, s) \<Rightarrow> if r = GG_ERROR_WOULD_BLOCK then ((d, md) # q, s) else flush_queue U k q s)"

definition send_queued :: "'s user \<Rightarrow> nat \<Rightarrow> bytes \<times> GG_BufferMetadata option \<Rightarrow> (bytes \<times> GG_BufferMetadata option) list \<Rightarrow> 's \<Rightarrow>
    GG_Result \<times> (bytes \<times> GG_BufferMetadata option) list \<times> 's" where
  "send_queued U k x q s = (case flush_queue U k q s of (q, s) \<Rightarrow>
     if length q = 16 then (GG_ERROR_OUT_OF_RESOURCES, q, s)
     else if q \<noteq> [] then (GG_SUCCESS, q @ [x], s)
     else (case flush_queue U k [x] s of (q, s) \<Rightarrow> (GG_SUCCESS, q, s)))"

lemma response_queue_Cons:
  assumes "responses_count self = Suc n"
  shows "response_queue self = responses self ! (responses_cursor self mod 16) #
    response_queue (self\<lparr>app := e, responses_count := n, responses_cursor := (responses_cursor self + 1) mod 16\<rparr>)"
proof -
  have "((c + 1) mod 16 + i) mod 16 = (c + Suc i) mod 16" for c i :: nat by (simp add: mod_simps)
  then show ?thesis using assms by (simp add: response_queue_def upt_conv_Cons map_Suc_upt [symmetric] comp_def del: upt_Suc)
qed

lemma response_queue_app: "response_queue (self\<lparr>app := e\<rparr>) = response_queue self"
  by (simp add: response_queue_def)

lemma SendPendingResponses_flush:
  assumes "queue_ok self" and "connection_sink self = Some k" and "app self = (s, log)"
  shows "\<exists>e cur cnt. GG_CoapEndpoint_SendPendingResponses (callbacks U junk) self =
      self\<lparr>app := e, responses_cursor := cur, responses_count := cnt\<rparr> \<and>
    queue_ok (self\<lparr>app := e, responses_cursor := cur, responses_count := cnt\<rparr>) \<and>
    e = (snd (flush_queue U k (response_queue self) s), log) \<and>
    response_queue (self\<lparr>app := e, responses_cursor := cur, responses_count := cnt\<rparr>) = fst (flush_queue U k (response_queue self) s)"
  using assms
proof (induction "responses_count self" arbitrary: self s)
  case 0
  have "GG_CoapEndpoint_SendPendingResponses (callbacks U junk) self = self"
    using 0(1) by (subst GG_CoapEndpoint_SendPendingResponses.simps) simp
  then show ?case
    by - (rule exI [of _ "app self"], rule exI [of _ "responses_cursor self"], rule exI [of _ "responses_count self"],
      use 0 in \<open>simp add: response_queue_def queue_ok_def\<close>)
next
  case (Suc n)
  note n = Suc.hyps(2) [symmetric]
  obtain d md where dm: "responses self ! responses_cursor self = (d, md)" by fastforce
  obtain r s' where put: "user_put U k d md s = (r, s')" by fastforce
  let ?self = "self\<lparr>app := (s', log), responses_count := n, responses_cursor := (responses_cursor self + 1) mod 16\<rparr>"
  have q: "response_queue self = (d, md) # response_queue ?self"
    using response_queue_Cons [OF n, of "(s', log)"] Suc.prems(1) dm by (simp add: queue_ok_def)
  show ?case
  proof (cases "r = GG_ERROR_WOULD_BLOCK")
    case True
    have "GG_CoapEndpoint_SendPendingResponses (callbacks U junk) self = self\<lparr>app := (s', log)\<rparr>"
      using n dm put True Suc.prems(2,3) by (subst GG_CoapEndpoint_SendPendingResponses.simps) (simp add: callbacks_def)
    with Suc.prems True put q show ?thesis
      by (intro exI [of _ "(s', log)"] exI [of _ "responses_cursor self"] exI [of _ "responses_count self"])
        (simp add: queue_ok_def response_queue_app)
  next
    case False
    have "GG_CoapEndpoint_SendPendingResponses (callbacks U junk) self = GG_CoapEndpoint_SendPendingResponses (callbacks U junk) ?self"
      using n dm put False Suc.prems(2,3)
      by (subst GG_CoapEndpoint_SendPendingResponses.simps) (simp add: GG_CONFIG_COAP_RESPONSE_QUEUE_LENGTH_def callbacks_def)
    moreover have "queue_ok ?self" using Suc.prems(1) n by (simp add: queue_ok_def)
    from Suc.hyps(1) [OF _ this, of s'] Suc.prems(2) obtain e cur cnt where
      "GG_CoapEndpoint_SendPendingResponses (callbacks U junk) ?self = ?self\<lparr>app := e, responses_cursor := cur, responses_count := cnt\<rparr>"
      "queue_ok (?self\<lparr>app := e, responses_cursor := cur, responses_count := cnt\<rparr>)"
      "e = (snd (flush_queue U k (response_queue ?self) s'), log)"
      "response_queue (?self\<lparr>app := e, responses_cursor := cur, responses_count := cnt\<rparr>) = fst (flush_queue U k (response_queue ?self) s')"
      by auto
    ultimately show ?thesis using q put False
      by (intro exI [of _ e] exI [of _ cur] exI [of _ cnt]) (simp add: queue_ok_def response_queue_def)
  qed
qed

lemma mod16: "x < 32 \<Longrightarrow> x mod 16 = (if x < 16 then x else x - 16 :: nat)"
  by (simp add: le_mod_geq)

lemma EnqueueResponse_append:
  assumes ok: "queue_ok self"
  shows "\<exists>rs cnt. GG_CoapEndpoint_EnqueueResponse d md self =
      Some (if length (response_queue self) = 16 then GG_ERROR_OUT_OF_RESOURCES else GG_SUCCESS, self\<lparr>responses := rs, responses_count := cnt\<rparr>) \<and>
    queue_ok (self\<lparr>responses := rs, responses_count := cnt\<rparr>) \<and>
    response_queue (self\<lparr>responses := rs, responses_count := cnt\<rparr>) =
      (if length (response_queue self) = 16 then response_queue self else response_queue self @ [(d, md)])"
proof (cases "responses_count self = 16")
  case True
  then show ?thesis using ok
    by (intro exI [of _ "responses self"] exI [of _ "responses_count self"])
      (simp add: queue_ok_def GG_CoapEndpoint_EnqueueResponse_def GG_CONFIG_COAP_RESPONSE_QUEUE_LENGTH_def response_queue_def)
next
  case False
  let ?c = "responses_cursor self" and ?n = "responses_count self" and ?x = "(d, md)"
  let ?self = "self\<lparr>responses := (responses self)[(?c + ?n) mod 16 := ?x], responses_count := ?n + 1\<rparr>"
  have n: "?n < 16" using False ok by (simp add: queue_ok_def)
  have ne: "(?c + ?n) mod 16 \<noteq> (?c + i) mod 16" if "i < ?n" for i
    using that n mod16 [of "?c + i"] mod16 [of "?c + ?n"] ok by (auto simp: queue_ok_def)
  have "response_queue ?self = response_queue self @ [?x]"
    using ok by (auto simp: response_queue_def queue_ok_def nth_list_update_neq [OF ne])
  then show ?thesis using ok n
    by (intro exI [of _ "(responses self)[(?c + ?n) mod 16 := ?x]"] exI [of _ "?n + 1"])
      (simp add: queue_ok_def GG_CoapEndpoint_EnqueueResponse_def GG_CONFIG_COAP_RESPONSE_QUEUE_LENGTH_def Let_def response_queue_def [of self])
qed

lemma SendResponse_queue:
  assumes ok: "queue_ok self" and k: "connection_sink self = Some k" and a: "app self = (s, log)"
  shows "map_option (\<lambda>(r, self'). (r, response_queue self', app self')) (GG_CoapEndpoint_SendResponse (callbacks U junk) m md self) =
    (case send_queued U k (GG_CoapMessage_ToDatagram m, md) (response_queue self) s of (r, q, s') \<Rightarrow> Some (r, q, s', log))"
proof -
  let ?d = "GG_CoapMessage_ToDatagram m"
  obtain q s1 where f: "flush_queue U k (response_queue self) s = (q, s1)" by fastforce
  from SendPendingResponses_flush [OF ok k a, of U junk] f obtain self1 where
    s: "GG_CoapEndpoint_SendPendingResponses (callbacks U junk) self = self1" "queue_ok self1" "app self1 = (s1, log)"
    "response_queue self1 = q" "connection_sink self1 = Some k" using k by force
  have q0: "responses_count self1 = 0 \<longleftrightarrow> q = []" using s(4) by (auto simp: response_queue_def)
  obtain r s2 where put: "user_put U k ?d md s1 = (r, s2)" by fastforce
  have ok2: "queue_ok (self1\<lparr>app := (s2, log)\<rparr>)" using s(2) by (simp add: queue_ok_def)
  show ?thesis
  proof (cases "q = [] \<and> r \<noteq> GG_ERROR_WOULD_BLOCK")
    case True
    with s q0 put f show ?thesis
      by (simp add: GG_CoapEndpoint_SendResponse_def send_queued_def Let_def callbacks_def response_queue_app)
  next
    case False
    define self2 where "self2 = (if q = [] then self1\<lparr>app := (s2, log)\<rparr> else self1)"
    have q2: "queue_ok self2" "response_queue self2 = q" "app self2 = (if q = [] then s2 else s1, log)"
      using s ok2 by (auto simp: self2_def response_queue_app)
    have run: "GG_CoapEndpoint_SendResponse (callbacks U junk) m md self = GG_CoapEndpoint_EnqueueResponse ?d md self2"
      using s q0 put False by (auto simp: GG_CoapEndpoint_SendResponse_def Let_def callbacks_def self2_def)
    from EnqueueResponse_append [OF q2(1), of ?d md] q2(2,3) show ?thesis
      unfolding run using f put False by (auto simp: send_queued_def)
  qed
qed

section \<open>The answer to a request\<close>

text \<open>
  What a request is answered with: a message without options and payload, with a code, or the message of a filter or
  handler, or nothing yet. The code of an error is the error itself if that is the code of a CoAP message.
\<close>

datatype answer = Empty_Response u8 | Response GG_CoapMessage | No_Response

definition dispatch :: "'e GG_CoapEndpoint \<Rightarrow> GG_CoapMessage \<Rightarrow> GG_CoapRequestHandlerNode option" where
  "dispatch self m = (case find (\<lambda>node. covers (handler_path node) (uri_path m)) (handlers self) of
       None \<Rightarrow> map_option (\<lambda>h. \<lparr>handler_path = [0x2F], handler_flags = GG_COAP_REQUEST_HANDLER_FLAGS_ALLOW_ALL, handler_object = h\<rparr>)
         (default_handler self)
     | Some node \<Rightarrow> Some node)"

text \<open>The handler at \<open>foo/bar/baz\<close> is not in charge of \<open>foo/bar\<close>, the handler at \<open>foo/bar\<close> is in charge of \<open>foo/bar/baz\<close>.\<close>

lemma shorter_request_not_covered:
  "\<not> covers [0x66, 0x6F, 0x6F, 0x2F, 0x62, 0x61, 0x72, 0x2F, 0x62, 0x61, 0x7A] [[0x66, 0x6F, 0x6F], [0x62, 0x61, 0x72]]"
  "covers [0x66, 0x6F, 0x6F, 0x2F, 0x62, 0x61, 0x72] [[0x66, 0x6F, 0x6F], [0x62, 0x61, 0x72], [0x62, 0x61, 0x7A]]"
  by (simp_all flip: path_matches_covers)

definition result_code :: "GG_Result \<Rightarrow> u8" where
  "result_code r = (case r of GG_COAP_RESULT n \<Rightarrow> if 0 < n \<and> n \<le> 255 then of_nat n else 0xA0 | _ \<Rightarrow> 0xA0)"

fun pass_filters :: "'s user \<Rightarrow> nat list \<Rightarrow> u32 \<Rightarrow> GG_CoapMessage \<Rightarrow> 's \<Rightarrow> answer option \<times> 's" where
  "pass_filters U [] flags m s = (None, s)"
| "pass_filters U (f # fs) flags m s =
     (case user_filter U f flags m s of
        (r, Some m', s) \<Rightarrow> (Some (Response m'), s)
      | (r, None, s) \<Rightarrow> if r = GG_SUCCESS then pass_filters U fs flags m s
                        else (Some (if r = GG_ERROR_WOULD_BLOCK then No_Response else Empty_Response (result_code r)), s))"

definition answer_of ::
  "'s user \<Rightarrow> GG_CoapRequestHandlerNode option \<Rightarrow> GG_CoapMessage \<Rightarrow> GG_BufferMetadata option \<Rightarrow> 's endpoint \<Rightarrow> 's \<Rightarrow> answer \<times> 's" where
  "answer_of U charge m md self s =
     (case charge of
        None \<Rightarrow> (Empty_Response 0x84, s)
      | Some node \<Rightarrow>
          if handler_flags node AND method_flag (GG_CoapMessage_GetCode m) = 0 then (Empty_Response 0x85, s)
          else (case pass_filters U (request_filters self) (handler_flags node) m s of
                  (Some a, s) \<Rightarrow> (a, s)
                | (None, s) \<Rightarrow> (case user_handle U (handler_object node) m md s of
                      (r, Some m', s) \<Rightarrow> (Response m', s)
                    | (r, None, s) \<Rightarrow> (if r = GG_ERROR_WOULD_BLOCK then No_Response else Empty_Response (result_code r), s))))"

definition answer_request :: "'s user \<Rightarrow> GG_CoapMessage \<Rightarrow> GG_BufferMetadata option \<Rightarrow> 's endpoint \<Rightarrow> 's \<Rightarrow> answer \<times> 's" where
  "answer_request U m md self s = answer_of U (dispatch self m) m md self s"

text \<open>The message that carries an answer.\<close>

definition answers :: "GG_CoapMessage \<Rightarrow> answer \<Rightarrow> GG_CoapMessage \<Rightarrow> bool" where
  "answers m a m' = (case a of
       Empty_Response code \<Rightarrow> message_ok m' \<and> GG_CoapMessage_GetType m' = message_type_code GG_COAP_MESSAGE_TYPE_ACK \<and>
         GG_CoapMessage_GetCode m' = code \<and> GG_CoapMessage_GetMessageId m' = GG_CoapMessage_GetMessageId m \<and>
         GG_CoapMessage_GetToken m' = GG_CoapMessage_GetToken m \<and> message_options m' = [] \<and> payload_size m' = 0
     | Response m'' \<Rightarrow> m' = m''
     | No_Response \<Rightarrow> False)"

lemma length_GetToken: "message_ok m \<Longrightarrow> length (GG_CoapMessage_GetToken m) \<le> 8"
  by (auto simp: GG_CoapMessage_GetToken_def subarray_def message_ok_def)

lemma empty_response:
  assumes "message_ok m"
  shows "\<exists>m'. GG_CoapEndpoint_CreateResponse junk m code [] None 0 = Some (Inr m') \<and> answers m (Empty_Response code) m'"
proof -
  let ?t = "GG_CoapMessage_GetToken m" and ?id = "GG_CoapMessage_GetMessageId m"
  have t: "length ?t \<le> 8" by (rule length_GetToken [OF assms])
  from Create_spec [OF this, of "[]" None 0 junk code GG_COAP_MESSAGE_TYPE_ACK ?id] obtain bs m' where
    c: "GG_CoapMessage_Create junk code GG_COAP_MESSAGE_TYPE_ACK [] ?id ?t None 0 = Some (Inr m')"
    "message_data m' = message_header code GG_COAP_MESSAGE_TYPE_ACK ?id ?t @ ?t @ bs @ payload_part None 0"
    "payload_size m' = 0" "payload_offset m' = length (message_data m') - 0"
    "skip_options (bs @ payload_part None 0) = Inr (payload_part None 0)" "raw_options 0 (bs @ payload_part None 0) = []"
    using payload_part_end [of None 0] by (auto simp: sort_options_eq)
  have "message_ok m'" using Create_message_ok [OF t _ c(2-5)] by simp
  moreover have "message_options m' = []" using message_options_eq(3) [OF c(2) t] c(6) by simp
  ultimately show ?thesis
    using c(1,3) header_read [OF c(2) t] by (simp add: GG_CoapEndpoint_CreateResponse_def answers_def)
qed

lemma run_filters_pass:
  assumes u: "user_ok U"
  shows "\<exists>r response. run_filters (callbacks U junk) fs flags m (s, log) = (r, response, snd (pass_filters U fs flags m s), log) \<and>
    fst (pass_filters U fs flags m s) = (case response of Some m' \<Rightarrow> Some (Response m')
      | None \<Rightarrow> if r = GG_SUCCESS then None
        else Some (if r = GG_ERROR_WOULD_BLOCK then No_Response else Empty_Response (result_code r))) \<and>
    (response \<noteq> None \<longrightarrow> r = GG_SUCCESS)"
proof (induction fs arbitrary: s)
  case (Cons f fs)
  obtain r response s' where f: "user_filter U f flags m s = (r, response, s')" using prod_cases3 by blast
  with user_filter_result [OF u f] Cons [of s'] show ?case
    by (cases response) (auto simp: callbacks_def)
qed simp

lemma result_code_default: "result_code r = of_nat (default_response_code (Some node) r)"
  by (auto simp: result_code_def default_response_code_def GG_COAP_MESSAGE_CODE_def split: GG_Result.splits)

lemma invoke_handler_answer:
  assumes u: "user_ok U" and n: "dispatch self m = Some node" and a: "app self = (s, log)"
    and ans: "answer_request U m md self s = (a, s')"
  shows "\<exists>r response fully. invoke_handler (callbacks U junk) node m md self = Some (r, response, fully, self\<lparr>app := (s', log)\<rparr>) \<and>
    a = (case response of Some m' \<Rightarrow> Response m' | None \<Rightarrow> if r = GG_ERROR_WOULD_BLOCK then No_Response else Empty_Response (result_code r))"
proof (cases "handler_flags node AND method_flag (GG_CoapMessage_GetCode m) = 0")
  case True
  with n ans a show ?thesis
    by (auto simp: answer_request_def answer_of_def invoke_handler_def result_code_def GG_COAP_MESSAGE_CODE_def)
next
  case False
  from run_filters_pass [OF u] obtain r response where
    f: "run_filters (callbacks U junk) (request_filters self) (handler_flags node) m (s, log) =
      (r, response, snd (pass_filters U (request_filters self) (handler_flags node) m s), log)"
    "fst (pass_filters U (request_filters self) (handler_flags node) m s) = (case response of Some m' \<Rightarrow> Some (Response m')
      | None \<Rightarrow> if r = GG_SUCCESS then None else Some (if r = GG_ERROR_WOULD_BLOCK then No_Response else Empty_Response (result_code r)))"
    "response \<noteq> None \<longrightarrow> r = GG_SUCCESS" by blast
  obtain s1 where s1: "pass_filters U (request_filters self) (handler_flags node) m s =
      (fst (pass_filters U (request_filters self) (handler_flags node) m s), s1)" by (metis prod.collapse)
  obtain r' response' s2 where h: "user_handle U (handler_object node) m md s1 = (r', response', s2)" using prod_cases3 by blast
  have c: "r' = GG_SUCCESS \<longleftrightarrow> response' \<noteq> None" using user_handle_result [OF u h] .
  have H: "GG_CoapRequestHandler_OnRequest (callbacks U junk) (handler_object node) m x md (self\<lparr>app := (s1, log)\<rparr>) =
      Some (r', response', self\<lparr>app := (s2, log)\<rparr>)" for x
    using h by (simp add: callbacks_def)
  show ?thesis
  proof (cases "response = None \<and> r = GG_SUCCESS")
    case True
    with f s1 have "pass_filters U (request_filters self) (handler_flags node) m s = (None, s1)" by simp
    with True False n ans a f h c H show ?thesis
      by (cases response') (auto simp: answer_request_def answer_of_def invoke_handler_def Let_def)
  next
    case other: False
    with f s1 obtain b where "pass_filters U (request_filters self) (handler_flags node) m s = (Some b, s1)" by (auto split: option.splits)
    with other False n ans a f show ?thesis
      by (cases response) (auto simp: answer_request_def answer_of_def invoke_handler_def Let_def)
  qed
qed

lemma OnRequest_answer:
  assumes u: "user_ok U" and m: "message_ok m" "0 \<notin> fst ` set (message_options m)" and a: "app self = (s, log)"
    and ans: "answer_request U m (response_metadata md) self s = (a, s')"
  shows "if a = No_Response then \<exists>b. GG_CoapEndpoint_OnRequest (callbacks U junk) m md self = Some (b, self\<lparr>app := (s', log)\<rparr>)
    else \<exists>b m'. answers m a m' \<and> GG_CoapEndpoint_OnRequest (callbacks U junk) m md self =
      map_option (\<lambda>(_, self). (b, self)) (GG_CoapEndpoint_SendResponse (callbacks U junk) m' (response_metadata md) (self\<lparr>app := (s', log)\<rparr>))"
proof -
  have d: "find_handler m
    (map_option (\<lambda>h. \<lparr>handler_path = [0x2F], handler_flags = GG_COAP_REQUEST_HANDLER_FLAGS_ALLOW_ALL, handler_object = h\<rparr>)
      (default_handler self)) (handlers self) = Some (dispatch self m)"
    using find_handler_spec [OF m] by (simp add: dispatch_def split: option.splits)
  have "\<exists>r response fully. (case dispatch self m of None \<Rightarrow> Some (GG_FAILURE, None, True, self)
      | Some node \<Rightarrow> invoke_handler (callbacks U junk) node m (response_metadata md) self) =
        Some (r, response, fully, self\<lparr>app := (s', log)\<rparr>) \<and>
    a = (case response of Some m' \<Rightarrow> Response m' | None \<Rightarrow> if r = GG_ERROR_WOULD_BLOCK then No_Response
      else Empty_Response (of_nat (default_response_code (dispatch self m) r)))"
  proof (cases "dispatch self m")
    case None
    with ans a show ?thesis
      by (auto simp: answer_request_def answer_of_def default_response_code_def GG_COAP_MESSAGE_CODE_def)
  next
    case (Some node)
    from invoke_handler_answer [OF u Some a ans, of junk] show ?thesis
      unfolding Some option.case(2) result_code_default [of _ node] by blast
  qed
  then obtain r response fully where i: "(case dispatch self m of None \<Rightarrow> Some (GG_FAILURE, None, True, self)
      | Some node \<Rightarrow> invoke_handler (callbacks U junk) node m (response_metadata md) self) =
        Some (r, response, fully, self\<lparr>app := (s', log)\<rparr>)"
    "a = (case response of Some m' \<Rightarrow> Response m' | None \<Rightarrow> if r = GG_ERROR_WOULD_BLOCK then No_Response
      else Empty_Response (of_nat (default_response_code (dispatch self m) r)))" by blast
  from empty_response [OF m(1)] obtain m' where
    "GG_CoapEndpoint_CreateResponse junk m (of_nat (default_response_code (dispatch self m) r)) [] None 0 = Some (Inr m')"
    "answers m (Empty_Response (of_nat (default_response_code (dispatch self m) r))) m'" by blast
  with d i show ?thesis
    by (cases response)
      (auto simp: GG_CoapEndpoint_OnRequest_def Let_def callbacks_memory answers_def [of m "Response _"] cong: option.case_cong)
qed

section \<open>Properties\<close>

lemma reachable_queue_ok: "user_ok U \<Longrightarrow> reachable U junk self \<Longrightarrow> queue_ok self"
  using reachable_inv [of U junk self] by (simp add: ep_inv_def queue_ok_def)

text \<open>Every request: the first handler whose path covers the path of the request is in charge.\<close>

lemma request_answered:
  assumes "user_ok U" and "reachable U junk self" and "connection_sink self = Some k" and "app self = (s, log)"
    and "GG_CoapMessage_CreateFromDatagram data = Inr m" and "GG_COAP_MESSAGE_CODE_CLASS (GG_CoapMessage_GetCode m) = 0"
    and "0 \<notin> fst ` set (message_options m)" and "answer_request U m (response_metadata md) self s = (a, s')"
  shows "\<exists>self'. GG_CoapEndpoint_PutData (callbacks U junk) data md self = Some (GG_SUCCESS, self') \<and>
    (if a = No_Response then self' = self\<lparr>app := (s', log)\<rparr>
     else \<exists>m' r. answers m a m' \<and> snd (app self') = log \<and>
       send_queued U k (GG_CoapMessage_ToDatagram m', response_metadata md) (response_queue self) s' =
         (r, response_queue self', fst (app self')))"
proof -
  let ?md = "case md of Some (GG_BUFFER_METADATA_TYPE_SOURCE_SOCKET_ADDRESS a) \<Rightarrow> md | _ \<Rightarrow> None"
  let ?self = "self\<lparr>app := (s', log)\<rparr>"
  have md: "response_metadata ?md = response_metadata md"
    by (auto simp: response_metadata_def split: option.splits GG_BufferMetadata.splits)
  have m: "message_ok m" using assms(5) by (simp add: CreateFromDatagram_ok)
  have ok: "queue_ok ?self" using reachable_queue_ok [OF assms(1,2)] by (simp add: queue_ok_def)
  note on = OnRequest_answer [OF assms(1) m assms(7,4), of ?md, unfolded md, OF assms(8), of junk]
  show ?thesis
  proof (cases "a = No_Response")
    case True
    with on assms(5,6) show ?thesis by (auto simp: GG_CoapEndpoint_PutData_def)
  next
    case False
    with on obtain b m' where o: "answers m a m'" "GG_CoapEndpoint_OnRequest (callbacks U junk) m ?md self =
      map_option (\<lambda>(_, self). (b, self)) (GG_CoapEndpoint_SendResponse (callbacks U junk) m' (response_metadata md) ?self)" by auto
    obtain r q s2 where q: "send_queued U k (GG_CoapMessage_ToDatagram m', response_metadata md) (response_queue self) s' = (r, q, s2)"
      using prod_cases3 by blast
    with SendResponse_queue [OF ok, of k s' log U junk m' "response_metadata md"] assms(3) obtain self' where
      "GG_CoapEndpoint_SendResponse (callbacks U junk) m' (response_metadata md) ?self = Some (r, self')"
      "response_queue self' = q" "app self' = (s2, log)" by (auto simp: response_queue_app)
    with o q assms(5,6) False show ?thesis by (auto simp: GG_CoapEndpoint_PutData_def)
  qed
qed

text \<open>
  Where the documentation of \<^verbatim>\<open>GG_CoapEndpoint_RegisterRequestHandler\<close> and the code agree on who is in charge: no handler has
  a path that is only the beginning of the path of the request, or of which the path of the request is only the beginning.
\<close>

definition partial_match :: "bytes \<Rightarrow> bytes list \<Rightarrow> bool" where
  "partial_match path segments \<longleftrightarrow> segments = [] \<or> path \<noteq> join_path segments \<and>
     ((\<exists>k. 0 < k \<and> k < length segments \<and> path = join_path (take k segments)) \<or> (\<exists>rest. path = join_path segments @ 0x2F # rest))"

definition in_charge :: "'e GG_CoapEndpoint \<Rightarrow> GG_CoapMessage \<Rightarrow> GG_CoapRequestHandlerNode option" where
  "in_charge self m = (case find (\<lambda>node. handler_path node = join_path (uri_path m)) (handlers self) of
       None \<Rightarrow> map_option (\<lambda>h. \<lparr>handler_path = [0x2F], handler_flags = GG_COAP_REQUEST_HANDLER_FLAGS_ALLOW_ALL, handler_object = h\<rparr>)
         (default_handler self)
     | Some node \<Rightarrow> Some node)"

lemma dispatch_in_charge:
  assumes "\<forall>node \<in> set (handlers self). \<not> partial_match (handler_path node) (uri_path m)"
  shows "dispatch self m = in_charge self m"
proof -
  have "covers path segments \<longleftrightarrow> path = join_path segments" if "\<not> partial_match path segments" for path segments
  proof
    assume "covers path segments"
    then obtain k where "0 < k" "k \<le> length segments" "path = join_path (take k segments)" by (auto simp: covers_def)
    then show "path = join_path segments" using that
      by (cases "k < length segments") (metis (no_types) partial_match_def, simp)
  next
    assume "path = join_path segments"
    with that show "covers path segments" by (auto simp: covers_def partial_match_def intro!: exI [of _ "length segments"])
  qed
  with assms have "find (\<lambda>node. covers (handler_path node) (uri_path m)) (handlers self) =
      find (\<lambda>node. handler_path node = join_path (uri_path m)) (handlers self)"
    by (intro find_cong) auto
  then show ?thesis by (simp add: dispatch_def in_charge_def)
qed

text \<open>C28: A request is answered as its path and the handlers say. When a datagram with a request arrives (its code is of class 0 and not the
  code 0.00 of empty messages), and no handler has a path that matches the path of the request only in part, the first
  registered handler whose path is the path of the request, or else the default handler, is in
  charge; the request is answered with 4.04 when there is none, with 4.05 when the handler does not accept the request code,
  with the code of the error when a filter or the handler fails (5.00 when the error is not a CoAP code), with the message that a filter or
  the handler made, or not at all for now when the handler will answer later. A response made by the endpoint is an acknowledgement
  with the message id and the token of the request, without options or payload. Every response goes to the
  address the request came from, after the responses that still wait for the transport.\<close>

theorem coap_request_answered:
  assumes "user_ok U" and "reachable U junk self" and "connection_sink self = Some k" and "app self = (s, log)"
    and "GG_CoapMessage_CreateFromDatagram data = Inr m" and "GG_COAP_MESSAGE_CODE_CLASS (GG_CoapMessage_GetCode m) = 0"
    and "GG_CoapMessage_GetCode m \<noteq> 0" and "0 \<notin> fst ` set (message_options m)"
    and "\<forall>node \<in> set (handlers self). \<not> partial_match (handler_path node) (uri_path m)"
    and "answer_of U (in_charge self m) m (response_metadata md) self s = (a, s')"
  shows "\<exists>self'. GG_CoapEndpoint_PutData (callbacks U junk) data md self = Some (GG_SUCCESS, self') \<and>
    (if a = No_Response then self' = self\<lparr>app := (s', log)\<rparr>
     else \<exists>m' r. answers m a m' \<and> snd (app self') = log \<and>
       send_queued U k (GG_CoapMessage_ToDatagram m', response_metadata md) (response_queue self) s' =
         (r, response_queue self', fst (app self')))"
  by (rule request_answered [OF assms(1-6,8)]) (simp add: answer_request_def dispatch_in_charge [OF assms(9)] assms(10))

theorem coap_request_answered_witness:
  "\<exists>m self' m' r. GG_CoapMessage_CreateFromDatagram [0x40, 1, 0, 5] = Inr m \<and>
    GG_CoapEndpoint_PutData (callbacks example_user (\<lambda>_. 0)) [0x40, 1, 0, 5] None example_endpoint = Some (GG_SUCCESS, self') \<and>
    answers m (Empty_Response 0x84) m' \<and>
    send_queued example_user 0 (GG_CoapMessage_ToDatagram m', None) [] [] = (r, response_queue self', fst (app self'))"
proof -
  let ?data = "[0x40, 1, 0, 5]"
  obtain m where m: "GG_CoapMessage_CreateFromDatagram ?data = Inr m" "message_data m = ?data"
    by (simp add: GG_CoapMessage_CreateFromDatagram_def skip_options.simps)
  have "raw_options 0 [] = []" by (subst raw_options.simps) (simp add: options_end_def)
  then have "GG_COAP_MESSAGE_CODE_CLASS (GG_CoapMessage_GetCode m) = 0" "GG_CoapMessage_GetCode m \<noteq> 0" "0 \<notin> fst ` set (message_options m)"
    using m(2) by (simp_all add: GG_COAP_MESSAGE_CODE_CLASS_def GG_CoapMessage_GetCode_def message_options_def)
  moreover have "answer_of example_user (in_charge example_endpoint m) m (response_metadata None) example_endpoint [] = (Empty_Response 0x84, [])"
    "\<forall>node \<in> set (handlers example_endpoint). \<not> partial_match (handler_path node) (uri_path m)"
    by (simp_all add: answer_of_def in_charge_def example_endpoint_simps)
  ultimately show ?thesis
    using coap_request_answered [OF example_user_ok example_reachable example_endpoint_simps(3,2) m(1)] m(1)
    by (fastforce simp: response_metadata_def response_queue_def example_endpoint_simps)
qed

text \<open>C29: The 16 slots in which responses wait for the transport are a first-in first-out queue: a response is put on the
  transport after all that wait, it waits only when the transport is busy or others wait, it is refused, with
  \<open>GG_ERROR_OUT_OF_RESOURCES\<close>, exactly when 16 responses wait, and when the transport accepts datagrams again the waiting responses
  leave in the order they came, each once, until the transport is busy again. In
  every state the endpoint can reach, the code does what these operations on a list do.\<close>

theorem coap_response_queue:
  assumes "user_ok U" and "reachable U junk self" and "connection_sink self = Some k" and "app self = (s, log)"
  shows "map_option (\<lambda>(r, self'). (r, response_queue self', app self')) (GG_CoapEndpoint_SendResponse (callbacks U junk) m md self) =
      (case send_queued U k (GG_CoapMessage_ToDatagram m, md) (response_queue self) s of (r, q, s') \<Rightarrow> Some (r, q, s', log)) \<and>
    response_queue (GG_CoapEndpoint_SendPendingResponses (callbacks U junk) self) = fst (flush_queue U k (response_queue self) s) \<and>
    app (GG_CoapEndpoint_SendPendingResponses (callbacks U junk) self) = (snd (flush_queue U k (response_queue self) s), log)"
  using SendResponse_queue [OF reachable_queue_ok [OF assms(1,2)] assms(3,4)]
    SendPendingResponses_flush [OF reachable_queue_ok [OF assms(1,2)] assms(3,4), of U junk] by force

theorem coap_response_queue_witness:
  "map_option (\<lambda>(r, self'). (r, response_queue self', app self'))
      (GG_CoapEndpoint_SendResponse (callbacks example_user (\<lambda>_. 0)) no_message None example_endpoint) =
    Some (GG_SUCCESS, [], [[]], [])"
  using coap_response_queue [OF example_user_ok example_reachable example_endpoint_simps(3,2), of no_message None]
  by (simp add: response_queue_def example_endpoint_simps send_queued_def example_user_def GG_CoapMessage_ToDatagram_def no_message_def)

end
