(* ===== verification/Coap_Handlers.thy ===== *)
theory Coap_Handlers
  imports Coap_Endpoint_Server
begin

text \<open>
  Objects that plug into a CoAP endpoint: the group filter (\<^verbatim>\<open>xp/coap/gg_coap_filters.c\<close>), the hello world handler
  and the splitter, which shares one transport between an endpoint and another CoAP stack (\<^verbatim>\<open>xp/coap/handlers\<close>).
\<close>

section \<open>The group filter\<close>

definition GG_COAP_GROUP_REQUEST_FILTER_MAX_GROUP :: u8 where
  "GG_COAP_GROUP_REQUEST_FILTER_MAX_GROUP = 4"

definition GG_COAP_REQUEST_HANDLER_FLAG_GROUP :: "u8 \<Rightarrow> u32" where
  "GG_COAP_REQUEST_HANDLER_FLAG_GROUP g = push_bit (23 + unat g) 1"

record GG_CoapGroupRequestFilter =
  group :: u8

definition GG_CoapGroupRequestFilter_FilterRequest ::
  "u32 \<Rightarrow> GG_CoapMessage \<Rightarrow> GG_CoapGroupRequestFilter \<Rightarrow> GG_Result \<times> GG_CoapMessage option \<times> GG_CoapGroupRequestFilter" where
  "GG_CoapGroupRequestFilter_FilterRequest flags request self =
     (let group_mask = GG_COAP_REQUEST_HANDLER_FLAG_GROUP (group self)
      in if group self = 0 \<or> group_mask AND flags \<noteq> 0 then (GG_SUCCESS, None, self)
         else (GG_COAP_RESULT (GG_COAP_MESSAGE_CODE 401), None, self))"

definition GG_CoapGroupRequestFilter_Create :: GG_CoapGroupRequestFilter where
  "GG_CoapGroupRequestFilter_Create = \<lparr>group = 0\<rparr>"

definition GG_CoapGroupRequestFilter_SetGroup :: "u8 \<Rightarrow> GG_CoapGroupRequestFilter \<Rightarrow> GG_Result \<times> GG_CoapGroupRequestFilter" where
  "GG_CoapGroupRequestFilter_SetGroup g self =
     (if g > GG_COAP_GROUP_REQUEST_FILTER_MAX_GROUP then (GG_ERROR_OUT_OF_RANGE, self) else (GG_SUCCESS, self\<lparr>group := g\<rparr>))"

definition GG_CoapGroupRequestFilter_GetGroup :: "GG_CoapGroupRequestFilter \<Rightarrow> u8" where
  "GG_CoapGroupRequestFilter_GetGroup self = group self"

interpretation group_filter: coap_request_filter GG_CoapGroupRequestFilter_FilterRequest
  by unfold_locales (auto simp: GG_CoapGroupRequestFilter_FilterRequest_def Let_def split: if_splits)

text \<open>Every group that can be set has its own bit among the flags of a handler, above the bits of the methods.\<close>

lemma group_bits:
  assumes "fst (GG_CoapGroupRequestFilter_SetGroup g self) = GG_SUCCESS" and "g \<noteq> 0"
  shows "GG_COAP_REQUEST_HANDLER_FLAG_GROUP g = 2 ^ (23 + unat g)" "24 \<le> 23 + unat g" "23 + unat g \<le> 27"
proof -
  have "g \<le> 4" using assms(1) by (simp add: GG_CoapGroupRequestFilter_SetGroup_def GG_COAP_GROUP_REQUEST_FILTER_MAX_GROUP_def split: if_splits)
  then show "23 + unat g \<le> 27" by (simp add: word_le_nat_alt)
  show "24 \<le> 23 + unat g" using assms(2) by (simp add: Suc_le_eq unat_gt_0)
  show "GG_COAP_REQUEST_HANDLER_FLAG_GROUP g = 2 ^ (23 + unat g)" by (simp add: GG_COAP_REQUEST_HANDLER_FLAG_GROUP_def push_bit_of_1)
qed

section \<open>The hello world handler\<close>

definition GG_COAP_HELLOWORLD_URI :: bytes where
  "GG_COAP_HELLOWORLD_URI = map (of_nat \<circ> of_char) ''helloworld''"

definition HelloHandler_OnRequest :: "(nat \<Rightarrow> u8) \<Rightarrow> GG_CoapMessage \<Rightarrow> (GG_Result \<times> GG_CoapMessage option) option" where
  "HelloHandler_OnRequest junk request = do {
     let payload = map (of_nat \<circ> of_char) ''Hello CoAP client!'';
     response \<leftarrow> GG_CoapEndpoint_CreateResponse junk request (of_nat (GG_COAP_MESSAGE_CODE 205))
       [\<lparr>option_number = 12, option_value = GG_COAP_MESSAGE_OPTION_TYPE_UINT 0\<rparr>] (Some payload) (length payload);
     Some (case response of Inl err \<Rightarrow> (err, None) | Inr m \<Rightarrow> (GG_SUCCESS, Some m))
   }"

definition GG_CoapEndpoint_Register_HelloworldHandler :: "u32 \<Rightarrow> nat \<Rightarrow> 'e GG_CoapEndpoint \<Rightarrow> 'e GG_CoapEndpoint" where
  "GG_CoapEndpoint_Register_HelloworldHandler flags object endpoint =
     GG_CoapEndpoint_RegisterRequestHandlerNode GG_COAP_HELLOWORLD_URI flags object endpoint"

definition GG_CoapEndpoint_Unregister_HelloworldHandler :: "nat \<Rightarrow> 'e GG_CoapEndpoint \<Rightarrow> GG_Result \<times> 'e GG_CoapEndpoint" where
  "GG_CoapEndpoint_Unregister_HelloworldHandler object endpoint =
     GG_CoapEndpoint_UnregisterRequestHandler (Some GG_COAP_HELLOWORLD_URI) (Some object) endpoint"

text \<open>The handler as the endpoint calls it.\<close>

definition hello_handler :: "(nat \<Rightarrow> u8) \<Rightarrow> GG_CoapMessage \<Rightarrow> GG_BufferMetadata option \<Rightarrow> 's \<Rightarrow> GG_Result \<times> GG_CoapMessage option \<times> 's" where
  "hello_handler junk m md s = (case HelloHandler_OnRequest junk m of Some (r, response) \<Rightarrow> (r, response, s) | None \<Rightarrow> (GG_FAILURE, None, s))"

lemma HelloHandler_total: "\<exists>m'. HelloHandler_OnRequest junk m = Some (GG_SUCCESS, Some m')"
proof -
  let ?payload = "map (of_nat \<circ> of_char) ''Hello CoAP client!'' :: bytes"
  from CreateResponse_total obtain m' where "GG_CoapEndpoint_CreateResponse junk m (of_nat (GG_COAP_MESSAGE_CODE 205))
    [\<lparr>option_number = 12, option_value = GG_COAP_MESSAGE_OPTION_TYPE_UINT 0\<rparr>] (Some ?payload) (length ?payload) = Some (Inr m')" by blast
  then show ?thesis by (simp add: HelloHandler_OnRequest_def)
qed

interpretation hello: coap_request_handler "hello_handler junk" for junk
proof
  fix m md s r response and s' :: 's
  assume "hello_handler junk m md s = (r, response, s')"
  with HelloHandler_total [of junk m] show "(r = GG_SUCCESS) = (response \<noteq> None)" by (auto simp: hello_handler_def)
qed

end
