(* ===== verification/Coap_Splitter.thy ===== *)
theory Coap_Splitter
  imports Coap_Handlers "HOL-Library.Sublist"
begin

text \<open>
  The CoAP splitter (\<^verbatim>\<open>xp/coap/handlers/gg_coap_splitter.c\<close>): a switch with three ports that lets an endpoint, on the side port, and
  another CoAP stack, on the top port, share the transport on the bottom port. Sinks and listeners are numbers, as for
  the endpoint; \<open>OnCanPut\<close> is the method of the listeners.
\<close>

section \<open>State\<close>

record GG_CoapSplitterPort =
  port_sink :: "nat option"
  port_listener :: "nat option"

record GG_CoapSplitter =
  top_port :: GG_CoapSplitterPort
  top_response_metadata :: GG_SocketAddress
  bottom_port :: GG_CoapSplitterPort
  bottom_response_metadata :: GG_SocketAddress
  side_port :: GG_CoapSplitterPort

section \<open>Ports\<close>

definition GG_CoapSplitterPort_SetListener :: "nat option \<Rightarrow> GG_CoapSplitterPort \<Rightarrow> GG_CoapSplitterPort" where
  "GG_CoapSplitterPort_SetListener l self = self\<lparr>port_listener := l\<rparr>"

definition GG_CoapSplitterPort_SetDataSink ::
  "'e GG_CoapCallbacks \<Rightarrow> nat option \<Rightarrow> GG_CoapSplitterPort \<Rightarrow> 'e \<Rightarrow> GG_CoapSplitterPort \<times> 'e" where
  "GG_CoapSplitterPort_SetDataSink C sink self e =
     (let e = (case port_sink self of None \<Rightarrow> e | Some old \<Rightarrow> GG_DataSink_SetListener C old False e);
          self = self\<lparr>port_sink := sink\<rparr>;
          e = (case sink of None \<Rightarrow> e | Some new \<Rightarrow> GG_DataSink_SetListener C new True e)
      in (self, e))"

section \<open>Datagrams\<close>

definition GG_CoapSplitter_DatagramIsRequest :: "bytes \<Rightarrow> bool" where
  "GG_CoapSplitter_DatagramIsRequest data \<longleftrightarrow> length data \<ge> 4 \<and> data ! 1 \<ge> 1 \<and> data ! 1 \<le> 4"

text \<open>The bytes from the token on.\<close>

definition GG_CoapSplitter_GetTokenFromDatagram :: "bytes \<Rightarrow> nat \<Rightarrow> bytes option" where
  "GG_CoapSplitter_GetTokenFromDatagram data token_size =
     (if length data < 4 + token_size then None
      else if unat (data ! 0 AND 0xF) < token_size then None
      else Some (drop 4 data))"

definition GG_CoapSplitter_UpdateResponseMetadata :: "GG_BufferMetadata option \<Rightarrow> GG_SocketAddress \<Rightarrow> GG_SocketAddress" where
  "GG_CoapSplitter_UpdateResponseMetadata new_metadata existing_metadata =
     (case new_metadata of
        Some (GG_BUFFER_METADATA_TYPE_SOURCE_SOCKET_ADDRESS a) \<Rightarrow>
          if ip_address a \<noteq> ip_address existing_metadata \<or> ip_port a \<noteq> ip_port existing_metadata then a else existing_metadata
      | _ \<Rightarrow> existing_metadata)"

definition bound_to :: "GG_SocketAddress \<Rightarrow> GG_BufferMetadata option" where
  "bound_to a = (if ip_port a \<noteq> 0 then Some (GG_BUFFER_METADATA_TYPE_DESTINATION_SOCKET_ADDRESS a) else None)"

section \<open>The top port\<close>

definition GG_CoapSplitter_Top_PutData ::
  "'e GG_CoapCallbacks \<Rightarrow> bytes \<Rightarrow> GG_BufferMetadata option \<Rightarrow> GG_CoapSplitter \<Rightarrow> 'e \<Rightarrow> GG_Result \<times> GG_CoapSplitter \<times> 'e" where
  "GG_CoapSplitter_Top_PutData C data metadata self e =
     (case port_sink (bottom_port self) of
        None \<Rightarrow> (GG_SUCCESS, self, e)
      | Some sink \<Rightarrow>
          if GG_CoapSplitter_DatagramIsRequest data
          then let self = self\<lparr>top_response_metadata := GG_CoapSplitter_UpdateResponseMetadata metadata (top_response_metadata self)\<rparr>;
                   (r, e) = GG_DataSink_PutData C sink data None e
               in (r, self, e)
          else let (r, e) = GG_DataSink_PutData C sink data (bound_to (bottom_response_metadata self)) e
               in (r, self, e))"

text \<open>The listeners of other ports, told that there may be room.\<close>

definition tell_port :: "(nat \<Rightarrow> 'e \<Rightarrow> 'e) \<Rightarrow> GG_CoapSplitterPort \<Rightarrow> 'e \<Rightarrow> 'e" where
  "tell_port OnCanPut port e = (case port_listener port of None \<Rightarrow> e | Some l \<Rightarrow> OnCanPut l e)"

definition GG_CoapSplitter_Top_OnCanPut :: "(nat \<Rightarrow> 'e \<Rightarrow> 'e) \<Rightarrow> GG_CoapSplitter \<Rightarrow> 'e \<Rightarrow> 'e" where
  "GG_CoapSplitter_Top_OnCanPut OnCanPut self e = tell_port OnCanPut (side_port self) (tell_port OnCanPut (bottom_port self) e)"

section \<open>The bottom port\<close>

definition GG_CoapSplitter_Bottom_PutData ::
  "'e GG_CoapCallbacks \<Rightarrow> bytes \<Rightarrow> bytes \<Rightarrow> GG_BufferMetadata option \<Rightarrow> GG_CoapSplitter \<Rightarrow> 'e \<Rightarrow> GG_Result \<times> GG_CoapSplitter \<times> 'e" where
  "GG_CoapSplitter_Bottom_PutData C pre data metadata self e =
     (if GG_CoapSplitter_DatagramIsRequest data
      then let self = self\<lparr>bottom_response_metadata := GG_CoapSplitter_UpdateResponseMetadata metadata (bottom_response_metadata self)\<rparr>
           in case port_sink (side_port self) of
                None \<Rightarrow> (GG_SUCCESS, self, e)
              | Some sink \<Rightarrow> let (r, e) = GG_DataSink_PutData C sink data metadata e in (r, self, e)
      else
        let route_to_side = (pre \<noteq> [] \<and> (case GG_CoapSplitter_GetTokenFromDatagram data (length pre) of
              None \<Rightarrow> False | Some token \<Rightarrow> take (length pre) token = pre))
        in if route_to_side
           then (case port_sink (side_port self) of
                   None \<Rightarrow> (GG_SUCCESS, self, e)
                 | Some sink \<Rightarrow> let (r, e) = GG_DataSink_PutData C sink data metadata e in (r, self, e))
           else (case port_sink (top_port self) of
                   None \<Rightarrow> (GG_SUCCESS, self, e)
                 | Some sink \<Rightarrow> let (r, e) = GG_DataSink_PutData C sink data (bound_to (top_response_metadata self)) e in (r, self, e)))"

definition GG_CoapSplitter_Bottom_OnCanPut :: "(nat \<Rightarrow> 'e \<Rightarrow> 'e) \<Rightarrow> GG_CoapSplitter \<Rightarrow> 'e \<Rightarrow> 'e" where
  "GG_CoapSplitter_Bottom_OnCanPut OnCanPut self e = tell_port OnCanPut (side_port self) (tell_port OnCanPut (top_port self) e)"

section \<open>The side port\<close>

definition GG_CoapSplitter_Side_PutData ::
  "'e GG_CoapCallbacks \<Rightarrow> bytes \<Rightarrow> GG_BufferMetadata option \<Rightarrow> GG_CoapSplitter \<Rightarrow> 'e \<Rightarrow> GG_Result \<times> 'e" where
  "GG_CoapSplitter_Side_PutData C data metadata self e =
     (case port_sink (bottom_port self) of None \<Rightarrow> (GG_SUCCESS, e) | Some sink \<Rightarrow> GG_DataSink_PutData C sink data metadata e)"

definition GG_CoapSplitter_Side_OnCanPut :: "(nat \<Rightarrow> 'e \<Rightarrow> 'e) \<Rightarrow> GG_CoapSplitter \<Rightarrow> 'e \<Rightarrow> 'e" where
  "GG_CoapSplitter_Side_OnCanPut OnCanPut self e = tell_port OnCanPut (bottom_port self) e"

text \<open>The default handler of the endpoint on the side: it sends a request to the top, and the answer comes later from there.\<close>

definition GG_CoapSplitter_OnRequest ::
  "'e GG_CoapCallbacks \<Rightarrow> GG_CoapMessage \<Rightarrow> GG_CoapSplitter \<Rightarrow> 'e \<Rightarrow> GG_Result \<times> GG_CoapMessage option \<times> 'e" where
  "GG_CoapSplitter_OnRequest C request self e =
     (let datagram = GG_CoapMessage_ToDatagram request;
          e = (case port_sink (top_port self) of None \<Rightarrow> e | Some sink \<Rightarrow> snd (GG_DataSink_PutData C sink datagram None e))
      in (GG_ERROR_WOULD_BLOCK, None, e))"

interpretation splitter: coap_request_handler "\<lambda>m md s. GG_CoapSplitter_OnRequest C m self s" for C self
  by unfold_locales (auto simp: GG_CoapSplitter_OnRequest_def Let_def)

section \<open>Construction\<close>

text \<open>
  The side port and the endpoint are connected to each other: \<open>endpoint_sink\<close> is the number of the endpoint as a sink, \<open>side_sink\<close> and
  \<open>side_listener\<close> those of the side port as a sink and as a listener.
\<close>

definition GG_CoapSplitter_Create ::
  "'e GG_CoapCallbacks \<Rightarrow> nat \<Rightarrow> nat \<Rightarrow> nat \<Rightarrow> 'e GG_CoapEndpoint \<Rightarrow> (GG_CoapSplitter \<times> 'e GG_CoapEndpoint) option" where
  "GG_CoapSplitter_Create C endpoint_sink side_sink side_listener endpoint =
     (let closed = \<lparr>port_sink = None, port_listener = None\<rparr>;
          any = \<lparr>ip_address = [0, 0, 0, 0], ip_port = 0\<rparr>;
          self = \<lparr>top_port = closed, top_response_metadata = any, bottom_port = closed, bottom_response_metadata = any,
            side_port = closed\<lparr>port_sink := Some endpoint_sink\<rparr>\<rparr>;
          endpoint = GG_CoapEndpoint_SetListener (Some side_listener) endpoint
      in map_option (\<lambda>endpoint. (self\<lparr>side_port := GG_CoapSplitterPort_SetListener (Some endpoint_sink) (side_port self)\<rparr>, endpoint))
           (GG_CoapEndpoint_SetDataSink C (Some side_sink) endpoint))"

text \<open>The sink of the side port is the endpoint.\<close>

definition GG_CoapSplitter_Destroy ::
  "'e GG_CoapCallbacks \<Rightarrow> GG_CoapSplitter \<Rightarrow> 'e GG_CoapEndpoint \<Rightarrow> 'e GG_CoapEndpoint option" where
  "GG_CoapSplitter_Destroy C self endpoint =
     map_option (\<lambda>endpoint.
       let close = (\<lambda>port e. case port_sink port of None \<Rightarrow> e | Some sink \<Rightarrow> GG_DataSink_SetListener C sink False e);
           endpoint = endpoint\<lparr>app := close (bottom_port self) (close (top_port self) (app endpoint))\<rparr>
       in case port_sink (side_port self) of None \<Rightarrow> endpoint | Some _ \<Rightarrow> GG_CoapEndpoint_SetListener None endpoint)
     (GG_CoapEndpoint_SetDataSink C None endpoint)"

section \<open>Routing\<close>

text \<open>A message is a request for the splitter when its code is that of one of the four methods.\<close>

definition is_request :: "GG_CoapMessage \<Rightarrow> bool" where
  "is_request m \<longleftrightarrow> GG_CoapMessage_GetCode m \<in> {GG_COAP_METHOD_GET, GG_COAP_METHOD_POST, GG_COAP_METHOD_PUT, GG_COAP_METHOD_DELETE}"

lemma method_codes: "(1 \<le> c \<and> c \<le> 4) \<longleftrightarrow> c \<in> {1, 2, 3, 4 :: u8}"
proof
  assume "1 \<le> c \<and> c \<le> 4"
  then have "unat c = 1 \<or> unat c = 2 \<or> unat c = 3 \<or> unat c = 4" by (auto simp: word_le_nat_alt)
  then show "c \<in> {1, 2, 3, 4}" by (simp add: word_unat_eq_iff)
qed auto

lemma DatagramIsRequest_iff:
  assumes "message_ok m"
  shows "GG_CoapSplitter_DatagramIsRequest (message_data m) \<longleftrightarrow> is_request m"
  using assms method_codes [of "message_data m ! 1"]
  by (auto simp: GG_CoapSplitter_DatagramIsRequest_def is_request_def GG_CoapMessage_GetCode_def message_ok_def
      GG_COAP_METHOD_GET_def GG_COAP_METHOD_POST_def GG_COAP_METHOD_PUT_def GG_COAP_METHOD_DELETE_def)

lemma token_prefix_iff:
  assumes "message_ok m"
  shows "(case GG_CoapSplitter_GetTokenFromDatagram (message_data m) (length pre) of None \<Rightarrow> False | Some token \<Rightarrow> take (length pre) token = pre) \<longleftrightarrow>
    take (length pre) (GG_CoapMessage_GetToken m) = pre"
proof -
  let ?t = "unat (message_data m ! 0 AND 0xF)" and ?d = "message_data m"
  have len: "4 + ?t \<le> length ?d" using assms by (simp add: message_ok_def)
  have token: "GG_CoapMessage_GetToken m = take ?t (drop 4 ?d)" using assms
    by (simp add: GG_CoapMessage_GetToken_def subarray_def message_ok_def)
  show ?thesis
  proof (cases "?t < length pre")
    case True
    then have "length (take (length pre) (GG_CoapMessage_GetToken m)) < length pre" using token len by simp
    then show ?thesis using True by (auto simp: GG_CoapSplitter_GetTokenFromDatagram_def)
  next
    case False
    then show ?thesis using token len by (simp add: GG_CoapSplitter_GetTokenFromDatagram_def min_def)
  qed
qed

text \<open>The ports, where a message that arrives at one of them leaves, and the address it leaves with.\<close>

datatype splitter_port = Top | Bottom | Side

definition splitter_put ::
  "'e GG_CoapCallbacks \<Rightarrow> bytes \<Rightarrow> splitter_port \<Rightarrow> bytes \<Rightarrow> GG_BufferMetadata option \<Rightarrow> GG_CoapSplitter \<Rightarrow> 'e \<Rightarrow> GG_Result \<times> GG_CoapSplitter \<times> 'e" where
  "splitter_put C pre p data md self e = (case p of
       Top \<Rightarrow> GG_CoapSplitter_Top_PutData C data md self e
     | Bottom \<Rightarrow> GG_CoapSplitter_Bottom_PutData C pre data md self e
     | Side \<Rightarrow> (case GG_CoapSplitter_Side_PutData C data md self e of (r, e) \<Rightarrow> (r, self, e)))"

definition own_token :: "bytes \<Rightarrow> GG_CoapMessage \<Rightarrow> bool" where
  "own_token pre m \<longleftrightarrow> pre \<noteq> [] \<and> prefix pre (GG_CoapMessage_GetToken m)"

definition route :: "bytes \<Rightarrow> splitter_port \<Rightarrow> GG_CoapMessage \<Rightarrow> splitter_port" where
  "route pre p m = (case p of Bottom \<Rightarrow> if is_request m \<or> own_token pre m then Side else Top | _ \<Rightarrow> Bottom)"

definition sink_at :: "splitter_port \<Rightarrow> GG_CoapSplitter \<Rightarrow> nat option" where
  "sink_at p self = port_sink (case p of Top \<Rightarrow> top_port self | Bottom \<Rightarrow> bottom_port self | Side \<Rightarrow> side_port self)"

definition learn_address :: "splitter_port \<Rightarrow> GG_BufferMetadata option \<Rightarrow> GG_CoapSplitter \<Rightarrow> GG_CoapSplitter" where
  "learn_address p md self = (case (p, md) of
       (Top, Some (GG_BUFFER_METADATA_TYPE_SOURCE_SOCKET_ADDRESS a)) \<Rightarrow> self\<lparr>top_response_metadata := a\<rparr>
     | (Bottom, Some (GG_BUFFER_METADATA_TYPE_SOURCE_SOCKET_ADDRESS a)) \<Rightarrow> self\<lparr>bottom_response_metadata := a\<rparr>
     | _ \<Rightarrow> self)"

definition leave_with :: "bytes \<Rightarrow> splitter_port \<Rightarrow> GG_CoapMessage \<Rightarrow> GG_BufferMetadata option \<Rightarrow> GG_CoapSplitter \<Rightarrow> GG_BufferMetadata option" where
  "leave_with pre p m md self =
     (if p = Top then if is_request m then None else bound_to (bottom_response_metadata self)
      else if route pre p m = Top then bound_to (top_response_metadata self) else md)"

lemma UpdateResponseMetadata_eq:
  "GG_CoapSplitter_UpdateResponseMetadata md a =
    (case md of Some (GG_BUFFER_METADATA_TYPE_SOURCE_SOCKET_ADDRESS b) \<Rightarrow> b | _ \<Rightarrow> a)"
  by (auto simp: GG_CoapSplitter_UpdateResponseMetadata_def split: option.splits GG_BufferMetadata.splits)

section \<open>Properties\<close>

text \<open>C30: The splitter routes every CoAP message as promised. A message from the top port or from the endpoint on the
  side leaves through the bottom port. A request from the bottom port goes to the endpoint, and a response from there goes to the endpoint
  exactly when its token starts with the (nonempty) token prefix of the endpoint, otherwise to the top port. A
  response leaves with the address that the last request from the port it leaves through came from. The datagram is not
  changed, it is put on one sink only, and the result is that of the sink.\<close>

theorem coap_splitter_routes:
  assumes "GG_CoapMessage_CreateFromDatagram data = Inr m"
    and "sink_at (route (GG_CoapEndpoint_GetTokenPrefix endpoint) p m) self = Some sink"
  shows "splitter_put C (GG_CoapEndpoint_GetTokenPrefix endpoint) p data md self e =
    (case GG_DataSink_PutData C sink data (leave_with (GG_CoapEndpoint_GetTokenPrefix endpoint) p m md self) e of
       (r, e') \<Rightarrow> (r, if is_request m then learn_address p md self else self, e'))"
proof -
  have m: "message_ok m" "data = message_data m" using assms(1) by (simp_all add: CreateFromDatagram_ok)
  have own: "pre \<noteq> [] \<and> (case GG_CoapSplitter_GetTokenFromDatagram data (length pre) of None \<Rightarrow> False
      | Some token \<Rightarrow> take (length pre) token = pre) \<longleftrightarrow> own_token pre m" for pre
    using token_prefix_iff [OF m(1), of pre] by (auto simp: m(2) own_token_def prefix_def) (metis append_take_drop_id)
  have req: "GG_CoapSplitter_DatagramIsRequest data \<longleftrightarrow> is_request m" using DatagramIsRequest_iff [OF m(1)] m(2) by simp
  show ?thesis
  proof (cases p)
    case Bottom
    then show ?thesis using assms(2) req own
      by (auto simp: splitter_put_def GG_CoapSplitter_Bottom_PutData_def route_def sink_at_def leave_with_def learn_address_def
          UpdateResponseMetadata_eq Let_def split: option.splits GG_BufferMetadata.splits if_splits prod.splits)
  qed (use assms(2) req in \<open>auto simp: splitter_put_def GG_CoapSplitter_Top_PutData_def GG_CoapSplitter_Side_PutData_def route_def
      sink_at_def leave_with_def learn_address_def UpdateResponseMetadata_eq Let_def
      split: option.splits GG_BufferMetadata.splits if_splits prod.splits\<close>)
qed

text \<open>A user that keeps the datagrams with the sinks they were put on, and a connected splitter.\<close>

definition spy_user :: "(nat \<times> bytes) list user" where
  "spy_user = \<lparr>user_put = (\<lambda>k d md s. (GG_SUCCESS, s @ [(k, d)])), user_attach = (\<lambda>k on s. s), user_random = (\<lambda>s. (1, s)),
     user_listen = (\<lambda>l ev s. ([], s)), user_handle = (\<lambda>h m md s. (GG_FAILURE, None, s)),
     user_filter = (\<lambda>f flags m s. (GG_SUCCESS, None, s))\<rparr>"

definition example_splitter :: GG_CoapSplitter where
  "example_splitter = (let port = (\<lambda>k. \<lparr>port_sink = Some k, port_listener = None\<rparr>); any = \<lparr>ip_address = [0, 0, 0, 0], ip_port = 0\<rparr>
     in \<lparr>top_port = port 1, top_response_metadata = any, bottom_port = port 2, bottom_response_metadata = any, side_port = port 3\<rparr>)"

theorem coap_splitter_routes_witness:
  "splitter_put (callbacks spy_user (\<lambda>_. 0)) (GG_CoapEndpoint_GetTokenPrefix (example_endpoint\<lparr>token_prefix := [0xAA]\<rparr>))
      Bottom [0x62, 0x45, 0, 0, 0xAA, 1] None example_splitter ([], []) =
    (GG_SUCCESS, example_splitter, [(3, [0x62, 0x45, 0, 0, 0xAA, 1])], [])"
proof -
  let ?data = "[0x62, 0x45, 0, 0, 0xAA, 1]" and ?ep = "example_endpoint\<lparr>token_prefix := [0xAA]\<rparr>"
  obtain m where m: "GG_CoapMessage_CreateFromDatagram ?data = Inr m" "message_data m = ?data"
    by (simp add: GG_CoapMessage_CreateFromDatagram_def skip_options.simps)
  have t: "\<not> is_request m" "own_token [0xAA] m"
    using m(2) by (simp_all add: is_request_def own_token_def GG_CoapMessage_GetCode_def GG_CoapMessage_GetToken_def subarray_def
        GG_COAP_METHOD_GET_def GG_COAP_METHOD_POST_def GG_COAP_METHOD_PUT_def GG_COAP_METHOD_DELETE_def)
  then have r: "sink_at (route (GG_CoapEndpoint_GetTokenPrefix ?ep) Bottom m) example_splitter = Some 3"
    by (simp add: route_def sink_at_def example_splitter_def GG_CoapEndpoint_GetTokenPrefix_def Let_def)
  show ?thesis
    using coap_splitter_routes [OF m(1) r, of "callbacks spy_user (\<lambda>_. 0)" None "([], [])"] t
    by (simp add: callbacks_def spy_user_def)
qed

end
