(* ===== verification/Serial_Parser.thy ===== *)
theory Serial_Parser
  imports GG_Prelude
begin

text \<open>
  The parser of the serial remote transport, \<^verbatim>\<open>xp/remote/transport/serial/gg_remote_parser.c\<close>: a state machine fed one
  byte at a time, which collects data frames \<^verbatim>\<open># payload $ crc seq ~\<close> and acknowledgements \<^verbatim>\<open>@ seq\<close> in one array.
  An access outside the array has the value \<open>None\<close>.
\<close>

definition GG_MAX_FRAME_LEN :: nat where [simp]: "GG_MAX_FRAME_LEN = 512"
definition GG_SEQ_FRAMED_LEN :: nat where [simp]: "GG_SEQ_FRAMED_LEN = 2 * 4"
definition GG_CRC_FRAMED_LEN :: nat where [simp]: "GG_CRC_FRAMED_LEN = 2 * 4"
definition GG_MIN_FRAME_LEN :: nat where
  [simp]: "GG_MIN_FRAME_LEN = 1 + 1 + GG_CRC_FRAMED_LEN + GG_SEQ_FRAMED_LEN + 1"
definition GG_ACK_FRAME_LEN :: nat where [simp]: "GG_ACK_FRAME_LEN = 1 + GG_SEQ_FRAMED_LEN"

definition GG_FRAME_START_BYTE :: u8 where [simp]: "GG_FRAME_START_BYTE = 0x23"
definition GG_FRAME_PAYLOAD_END_BYTE :: u8 where [simp]: "GG_FRAME_PAYLOAD_END_BYTE = 0x24"
definition GG_FRAME_END_BYTE :: u8 where [simp]: "GG_FRAME_END_BYTE = 0x7E"
definition GG_ACK_FRAME_START_BYTE :: u8 where [simp]: "GG_ACK_FRAME_START_BYTE = 0x40"
definition GG_SHELL_EXIT :: u8 where [simp]: "GG_SHELL_EXIT = 0x5E"

record GG_SerialRemoteParser =
  rp_buffer :: bytes
  buffer_idx :: nat
  ack_frame_len :: nat
  ack_parsing_started :: bool
  ack_parsing_complete :: bool
  frame_len :: nat
  payload_len :: nat
  frame_parsing_started :: bool
  frame_parsing_complete :: bool
  shell_exit_state :: bool

text \<open>\<^verbatim>\<open>parser->buffer[parser->buffer_idx++] = c\<close>\<close>

definition store_byte :: "GG_SerialRemoteParser \<Rightarrow> u8 \<Rightarrow> GG_SerialRemoteParser option" where
  "store_byte p c =
     (if buffer_idx p < GG_MAX_FRAME_LEN
      then Some (p\<lparr>rp_buffer := (rp_buffer p)[buffer_idx p := c], buffer_idx := buffer_idx p + 1\<rparr>)
      else None)"

definition GG_SerialRemoteParser_PutData ::
  "GG_SerialRemoteParser \<Rightarrow> u8 \<Rightarrow> (GG_Result \<times> GG_SerialRemoteParser) option" where
  "GG_SerialRemoteParser_PutData p c =
     (if c = GG_ACK_FRAME_START_BYTE then
        map_option (\<lambda>p. (GG_SUCCESS, p\<lparr>ack_frame_len := 1\<rparr>))
          (store_byte (p\<lparr>buffer_idx := 0, ack_parsing_started := True, ack_parsing_complete := False\<rparr>) c)
      else if c = GG_FRAME_START_BYTE then
        map_option (\<lambda>p. (GG_SUCCESS, p\<lparr>frame_len := 1\<rparr>))
          (store_byte (p\<lparr>buffer_idx := 0, frame_parsing_started := True, frame_parsing_complete := False\<rparr>) c)
      else if c = GG_FRAME_END_BYTE then
        if frame_parsing_started p then
          map_option (\<lambda>p. (GG_SUCCESS, p\<lparr>frame_len := frame_len p + 1, frame_parsing_started := False,
            frame_parsing_complete := True\<rparr>)) (store_byte p c)
        else Some (GG_SUCCESS, p)
      else if c = GG_SHELL_EXIT then Some (GG_ERROR_REMOTE_EXIT, p\<lparr>shell_exit_state := True\<rparr>)
      else if ack_parsing_started p then
        map_option (\<lambda>p.
            let p = p\<lparr>ack_frame_len := ack_frame_len p + 1\<rparr>
            in (GG_SUCCESS,
                if ack_frame_len p \<ge> GG_ACK_FRAME_LEN
                then p\<lparr>ack_parsing_started := False, ack_parsing_complete := True\<rparr> else p)) (store_byte p c)
      else if frame_parsing_started p then
        map_option (\<lambda>p.
            let p = p\<lparr>frame_len := frame_len p + 1\<rparr>
            in (GG_SUCCESS, if c = GG_FRAME_PAYLOAD_END_BYTE then p\<lparr>payload_len := frame_len p - 2\<rparr> else p))
          (store_byte p c)
      else Some (GG_SUCCESS, p))"

definition GG_SerialRemoteParser_IsAckReceived :: "GG_SerialRemoteParser \<Rightarrow> bool" where
  "GG_SerialRemoteParser_IsAckReceived p = ack_parsing_complete p"

definition GG_SerialRemoteParser_IsFrameReceived :: "GG_SerialRemoteParser \<Rightarrow> bool" where
  "GG_SerialRemoteParser_IsFrameReceived p = frame_parsing_complete p"

text \<open>The payload is copied to a new buffer; a read past the end of the array is \<open>None\<close>.\<close>

definition GG_SerialRemoteParser_GetFramePayload :: "GG_SerialRemoteParser \<Rightarrow> (GG_Result + bytes) option" where
  "GG_SerialRemoteParser_GetFramePayload p =
     (if \<not> frame_parsing_complete p then Some (Inl GG_ERROR_INVALID_STATE)
      else if 1 + payload_len p \<le> GG_MAX_FRAME_LEN then Some (Inr (subarray (rp_buffer p) 1 (payload_len p)))
      else None)"

definition GG_SerialRemoteParser_GetFramePayloadLen :: "GG_SerialRemoteParser \<Rightarrow> nat" where
  "GG_SerialRemoteParser_GetFramePayloadLen p = (if \<not> frame_parsing_complete p then 0 else payload_len p)"

definition GG_SerialRemoteParser_GetFrameSeq :: "GG_SerialRemoteParser \<Rightarrow> (GG_Result + bytes) option" where
  "GG_SerialRemoteParser_GetFrameSeq p =
     (if \<not> frame_parsing_complete p then Some (Inl GG_ERROR_INVALID_STATE)
      else
        let seq_start = 1 + payload_len p + 1 + GG_CRC_FRAMED_LEN
        in if seq_start + GG_SEQ_FRAMED_LEN \<le> GG_MAX_FRAME_LEN
           then Some (Inr (subarray (rp_buffer p) seq_start GG_SEQ_FRAMED_LEN))
           else None)"

definition GG_SerialRemoteParser_GetFrameLen :: "GG_SerialRemoteParser \<Rightarrow> GG_Result + nat" where
  "GG_SerialRemoteParser_GetFrameLen p =
     (if \<not> frame_parsing_complete p then Inl GG_ERROR_INVALID_STATE else Inr (frame_len p))"

text \<open>The pointer to the frame is null or the array itself.\<close>

definition GG_SerialRemoteParser_GetFramePtr :: "GG_SerialRemoteParser \<Rightarrow> bytes option" where
  "GG_SerialRemoteParser_GetFramePtr p = (if \<not> frame_parsing_complete p then None else Some (rp_buffer p))"

definition GG_SerialRemoteParser_Reset :: "GG_SerialRemoteParser \<Rightarrow> GG_SerialRemoteParser" where
  "GG_SerialRemoteParser_Reset p =
     p\<lparr>rp_buffer := replicate GG_MAX_FRAME_LEN 0, buffer_idx := 0,
       ack_frame_len := 0, ack_parsing_started := False, ack_parsing_complete := False,
       frame_len := 0, payload_len := 0, frame_parsing_started := False, frame_parsing_complete := False,
       shell_exit_state := False\<rparr>"

section \<open>Runs of the parser\<close>

text \<open>The bytes a frame can carry between its delimiters.\<close>

definition plain :: "u8 \<Rightarrow> bool" where
  "plain c \<longleftrightarrow> c \<noteq> GG_ACK_FRAME_START_BYTE \<and> c \<noteq> GG_FRAME_START_BYTE \<and> c \<noteq> GG_FRAME_END_BYTE \<and> c \<noteq> GG_SHELL_EXIT \<and>
    c \<noteq> GG_FRAME_PAYLOAD_END_BYTE"

definition in_frame :: "GG_SerialRemoteParser \<Rightarrow> bool" where
  "in_frame p \<longleftrightarrow> length (rp_buffer p) = GG_MAX_FRAME_LEN \<and> frame_parsing_started p \<and> \<not> ack_parsing_started p \<and>
    \<not> frame_parsing_complete p"

text \<open>The parser within a frame, after \<open>seen\<close>.\<close>

definition collected :: "GG_SerialRemoteParser \<Rightarrow> bytes \<Rightarrow> bool" where
  "collected p seen \<longleftrightarrow> take (length seen) (rp_buffer p) = seen \<and> buffer_idx p = length seen \<and> frame_len p = length seen"

lemma collected_subarray:
  assumes "collected p seen" and "off + len \<le> length seen"
  shows "subarray (rp_buffer p) off len = subarray seen off len"
proof -
  have "subarray (take (length seen) (rp_buffer p)) off len = subarray (rp_buffer p) off len"
    using assms(2) by (simp add: subarray_def drop_take min_def)
  then show ?thesis using assms(1) by (simp add: collected_def)
qed

lemma collected_store:
  assumes "collected p seen" and "length seen < length (rp_buffer p)"
  shows "take (Suc (length seen)) ((rp_buffer p)[length seen := c]) = seen @ [c]"
  using assms by (simp add: collected_def take_Suc_conv_app_nth)

lemma PutData_start:
  assumes "length (rp_buffer p) = GG_MAX_FRAME_LEN" and "\<not> ack_parsing_started p"
  shows "\<exists>q. GG_SerialRemoteParser_PutData p GG_FRAME_START_BYTE = Some (GG_SUCCESS, q) \<and> in_frame q \<and>
    collected q [GG_FRAME_START_BYTE] \<and> payload_len q = payload_len p"
  using assms by (cases "rp_buffer p")
    (auto simp: GG_SerialRemoteParser_PutData_def store_byte_def in_frame_def collected_def)

lemma PutData_plain:
  assumes "in_frame p" and "collected p seen" and "plain c" and "length seen < GG_MAX_FRAME_LEN"
  shows "\<exists>q. GG_SerialRemoteParser_PutData p c = Some (GG_SUCCESS, q) \<and> in_frame q \<and> collected q (seen @ [c]) \<and>
    payload_len q = payload_len p"
  using assms collected_store [of p seen c]
  by (auto simp: GG_SerialRemoteParser_PutData_def store_byte_def plain_def in_frame_def collected_def)

lemma PutData_payload_end:
  assumes "in_frame p" and "collected p seen" and "length seen < GG_MAX_FRAME_LEN"
  shows "\<exists>q. GG_SerialRemoteParser_PutData p GG_FRAME_PAYLOAD_END_BYTE = Some (GG_SUCCESS, q) \<and> in_frame q \<and>
    collected q (seen @ [GG_FRAME_PAYLOAD_END_BYTE]) \<and> payload_len q = length seen - 1"
  using assms collected_store [of p seen GG_FRAME_PAYLOAD_END_BYTE]
  by (auto simp: GG_SerialRemoteParser_PutData_def store_byte_def in_frame_def collected_def)

lemma PutData_end:
  assumes "in_frame p" and "collected p seen" and "length seen < GG_MAX_FRAME_LEN"
  shows "\<exists>q. GG_SerialRemoteParser_PutData p GG_FRAME_END_BYTE = Some (GG_SUCCESS, q) \<and>
    length (rp_buffer q) = GG_MAX_FRAME_LEN \<and> frame_parsing_complete q \<and> \<not> ack_parsing_started q \<and>
    collected q (seen @ [GG_FRAME_END_BYTE]) \<and> payload_len q = payload_len p"
  using assms collected_store [of p seen GG_FRAME_END_BYTE]
  by (auto simp: GG_SerialRemoteParser_PutData_def store_byte_def in_frame_def collected_def)

end
