(* ===== verification/Crc32.thy ===== *)
theory Crc32
  imports GG_Prelude
begin

text \<open>
  The checksum of \<^verbatim>\<open>xp/common/gg_crc32.c\<close>, computed from a table of the effect of one byte on the register.
\<close>

unbundle bit_operations_syntax

definition crc32_tab :: "u32 list" where
  "crc32_tab = [
    0x00000000, 0x77073096, 0xee0e612c, 0x990951ba, 0x076dc419, 0x706af48f,
    0xe963a535, 0x9e6495a3, 0x0edb8832, 0x79dcb8a4, 0xe0d5e91e, 0x97d2d988,
    0x09b64c2b, 0x7eb17cbd, 0xe7b82d07, 0x90bf1d91, 0x1db71064, 0x6ab020f2,
    0xf3b97148, 0x84be41de, 0x1adad47d, 0x6ddde4eb, 0xf4d4b551, 0x83d385c7,
    0x136c9856, 0x646ba8c0, 0xfd62f97a, 0x8a65c9ec, 0x14015c4f, 0x63066cd9,
    0xfa0f3d63, 0x8d080df5, 0x3b6e20c8, 0x4c69105e, 0xd56041e4, 0xa2677172,
    0x3c03e4d1, 0x4b04d447, 0xd20d85fd, 0xa50ab56b, 0x35b5a8fa, 0x42b2986c,
    0xdbbbc9d6, 0xacbcf940, 0x32d86ce3, 0x45df5c75, 0xdcd60dcf, 0xabd13d59,
    0x26d930ac, 0x51de003a, 0xc8d75180, 0xbfd06116, 0x21b4f4b5, 0x56b3c423,
    0xcfba9599, 0xb8bda50f, 0x2802b89e, 0x5f058808, 0xc60cd9b2, 0xb10be924,
    0x2f6f7c87, 0x58684c11, 0xc1611dab, 0xb6662d3d, 0x76dc4190, 0x01db7106,
    0x98d220bc, 0xefd5102a, 0x71b18589, 0x06b6b51f, 0x9fbfe4a5, 0xe8b8d433,
    0x7807c9a2, 0x0f00f934, 0x9609a88e, 0xe10e9818, 0x7f6a0dbb, 0x086d3d2d,
    0x91646c97, 0xe6635c01, 0x6b6b51f4, 0x1c6c6162, 0x856530d8, 0xf262004e,
    0x6c0695ed, 0x1b01a57b, 0x8208f4c1, 0xf50fc457, 0x65b0d9c6, 0x12b7e950,
    0x8bbeb8ea, 0xfcb9887c, 0x62dd1ddf, 0x15da2d49, 0x8cd37cf3, 0xfbd44c65,
    0x4db26158, 0x3ab551ce, 0xa3bc0074, 0xd4bb30e2, 0x4adfa541, 0x3dd895d7,
    0xa4d1c46d, 0xd3d6f4fb, 0x4369e96a, 0x346ed9fc, 0xad678846, 0xda60b8d0,
    0x44042d73, 0x33031de5, 0xaa0a4c5f, 0xdd0d7cc9, 0x5005713c, 0x270241aa,
    0xbe0b1010, 0xc90c2086, 0x5768b525, 0x206f85b3, 0xb966d409, 0xce61e49f,
    0x5edef90e, 0x29d9c998, 0xb0d09822, 0xc7d7a8b4, 0x59b33d17, 0x2eb40d81,
    0xb7bd5c3b, 0xc0ba6cad, 0xedb88320, 0x9abfb3b6, 0x03b6e20c, 0x74b1d29a,
    0xead54739, 0x9dd277af, 0x04db2615, 0x73dc1683, 0xe3630b12, 0x94643b84,
    0x0d6d6a3e, 0x7a6a5aa8, 0xe40ecf0b, 0x9309ff9d, 0x0a00ae27, 0x7d079eb1,
    0xf00f9344, 0x8708a3d2, 0x1e01f268, 0x6906c2fe, 0xf762575d, 0x806567cb,
    0x196c3671, 0x6e6b06e7, 0xfed41b76, 0x89d32be0, 0x10da7a5a, 0x67dd4acc,
    0xf9b9df6f, 0x8ebeeff9, 0x17b7be43, 0x60b08ed5, 0xd6d6a3e8, 0xa1d1937e,
    0x38d8c2c4, 0x4fdff252, 0xd1bb67f1, 0xa6bc5767, 0x3fb506dd, 0x48b2364b,
    0xd80d2bda, 0xaf0a1b4c, 0x36034af6, 0x41047a60, 0xdf60efc3, 0xa867df55,
    0x316e8eef, 0x4669be79, 0xcb61b38c, 0xbc66831a, 0x256fd2a0, 0x5268e236,
    0xcc0c7795, 0xbb0b4703, 0x220216b9, 0x5505262f, 0xc5ba3bbe, 0xb2bd0b28,
    0x2bb45a92, 0x5cb36a04, 0xc2d7ffa7, 0xb5d0cf31, 0x2cd99e8b, 0x5bdeae1d,
    0x9b64c2b0, 0xec63f226, 0x756aa39c, 0x026d930a, 0x9c0906a9, 0xeb0e363f,
    0x72076785, 0x05005713, 0x95bf4a82, 0xe2b87a14, 0x7bb12bae, 0x0cb61b38,
    0x92d28e9b, 0xe5d5be0d, 0x7cdcefb7, 0x0bdbdf21, 0x86d3d2d4, 0xf1d4e242,
    0x68ddb3f8, 0x1fda836e, 0x81be16cd, 0xf6b9265b, 0x6fb077e1, 0x18b74777,
    0x88085ae6, 0xff0f6a70, 0x66063bca, 0x11010b5c, 0x8f659eff, 0xf862ae69,
    0x616bffd3, 0x166ccf45, 0xa00ae278, 0xd70dd2ee, 0x4e048354, 0x3903b3c2,
    0xa7672661, 0xd06016f7, 0x4969474d, 0x3e6e77db, 0xaed16a4a, 0xd9d65adc,
    0x40df0b66, 0x37d83bf0, 0xa9bcae53, 0xdebb9ec5, 0x47b2cf7f, 0x30b5ffe9,
    0xbdbdf21c, 0xcabac28a, 0x53b39330, 0x24b4a3a6, 0xbad03605, 0xcdd70693,
    0x54de5729, 0x23d967bf, 0xb3667a2e, 0xc4614ab8, 0x5d681b02, 0x2a6f2b94,
    0xb40bbe37, 0xc30c8ea1, 0x5a05df1b, 0x2d02ef8d]"

fun crc32_loop :: "u32 \<Rightarrow> bytes \<Rightarrow> u32" where
  "crc32_loop crc [] = crc"
| "crc32_loop crc (p # buf) = crc32_loop (crc32_tab ! unat ((crc XOR ucast p) AND 0xFF) XOR drop_bit 8 crc) buf"

definition GG_Crc32 :: "u32 \<Rightarrow> bytes \<Rightarrow> u32" where
  "GG_Crc32 crc buf = crc32_loop (crc XOR NOT 0) buf XOR NOT 0"

section \<open>The shift register\<close>

text \<open>
  The reference: the division by the polynomial of the checksum in a shift register, bit by bit and the lowest bit first.
  A byte enters the low end of the register, which is then shifted eight times.
\<close>

definition crc_bit :: "u32 \<Rightarrow> u32" where
  "crc_bit crc = (if bit crc 0 then drop_bit 1 crc XOR 0xEDB88320 else drop_bit 1 crc)"

definition crc_byte :: "u8 \<Rightarrow> u32 \<Rightarrow> u32" where
  "crc_byte p crc = (crc_bit ^^ 8) (crc XOR ucast p)"

definition crc_reference :: "bytes \<Rightarrow> u32" where
  "crc_reference buf = NOT (fold crc_byte buf (NOT 0))"

lemma crc_bit_xor: "crc_bit (a XOR b) = crc_bit a XOR crc_bit b"
  by (simp add: crc_bit_def bit_xor_iff drop_bit_xor xor.assoc xor.left_commute [of "0xEDB88320"] xor.commute [of "0xEDB88320"])

lemma crc_bit_pow_xor: "(crc_bit ^^ n) (a XOR b) = (crc_bit ^^ n) a XOR (crc_bit ^^ n) b"
  by (induction n) (simp_all add: crc_bit_xor)

lemma xor_zero_iff: "a XOR b = 0 \<longleftrightarrow> a = (b :: 'a :: len word)"
  by (metis xor.assoc xor.left_neutral xor.right_neutral xor_self_eq)

lemma xor_cancel:
  fixes a b c :: "'a :: len word"
  shows "a XOR b = a XOR c \<longleftrightarrow> b = c" and "b XOR a = c XOR a \<longleftrightarrow> b = c"
  by (auto simp: bit_eq_iff bit_xor_iff)

lemma crc_bit_zero: "crc_bit a = 0 \<longleftrightarrow> a = 0"
proof
  assume z: "crc_bit a = 0"
  have "\<not> bit (drop_bit 1 a) 31" by (auto simp: bit_drop_bit_eq dest: bit_imp_le_length)
  moreover have "bit (0xEDB88320 :: u32) 31" by simp
  ultimately have "drop_bit 1 a \<noteq> 0xEDB88320" by metis
  with z have b: "\<not> bit a 0" "drop_bit 1 a = 0" by (auto simp: crc_bit_def xor_zero_iff split: if_splits)
  show "a = 0"
  proof (rule bit_word_eqI)
    fix n
    show "bit a n \<longleftrightarrow> bit 0 n"
      using b bit_drop_bit_eq [of 1 a] by (cases n) (auto dest: fun_cong)
  qed
qed (simp add: crc_bit_def)

lemma inj_crc_bit_pow: "(crc_bit ^^ n) a = (crc_bit ^^ n) b \<longleftrightarrow> a = b"
proof -
  have "(crc_bit ^^ n) x = 0 \<longleftrightarrow> x = 0" for x by (induction n) (simp_all add: crc_bit_zero)
  from this [of "a XOR b"] show ?thesis by (simp add: crc_bit_pow_xor xor_zero_iff)
qed

lemma crc_bit_pow_shift:
  "(\<forall>j < n. \<not> bit w j) \<Longrightarrow> (crc_bit ^^ n) w = drop_bit n w"
proof (induction n arbitrary: w)
  case (Suc n)
  have "crc_bit w = drop_bit 1 w" using Suc.prems by (simp add: crc_bit_def)
  moreover have "\<forall>j < n. \<not> bit (drop_bit 1 w) j" using Suc.prems by (simp add: bit_drop_bit_eq)
  ultimately show ?case using Suc.IH [of "drop_bit 1 w"] by (simp add: funpow_swap1 drop_bit_drop_bit)
qed simp

section \<open>The table\<close>

lemma crc_bit_funpow_Suc: "(crc_bit ^^ n) (crc_bit a) = (crc_bit ^^ Suc n) a"
  by (simp add: funpow_swap1)

lemma length_crc32_tab [simp]: "length crc32_tab = 256"
  by (simp add: crc32_tab_def)

lemma crc32_tab_even: "list_all (\<lambda>i. crc32_tab ! i = crc_bit (crc32_tab ! (2 * i))) [0..<128]"
  by code_simp

lemma crc32_tab_odd: "list_all (\<lambda>i. crc32_tab ! (2 * i + 1) = crc32_tab ! (2 * i) XOR crc32_tab ! 1) [0..<128]"
  by code_simp

lemma drop_bit_double: "k < 128 \<Longrightarrow> drop_bit 1 (of_nat (2 * k) :: u32) = of_nat k"
  by (simp add: drop_bit_Suc word_unat_eq_iff unat_div unat_of_nat del: of_nat_mult)

lemma of_nat_odd_xor: "(of_nat (2 * k + 1) :: u32) = of_nat (2 * k) XOR 1"
  by (simp add: xor_one_eq)

lemma crc32_tab_entry: "i < 256 \<Longrightarrow> crc32_tab ! i = (crc_bit ^^ 8) (of_nat i)"
proof (induction i rule: less_induct)
  case (less i)
  have even: "crc32_tab ! (2 * k) = (crc_bit ^^ 8) (of_nat (2 * k))" if "2 * k \<le> i" for k
  proof (cases "k = 0")
    case True
    have "crc32_tab ! 0 = 0" by (simp add: crc32_tab_def)
    then show ?thesis using True by (simp add: eval_nat_numeral crc_bit_def)
  next
    case False
    have k: "k < i" "k < 128" using that False less.prems by auto
    have "crc_bit (crc32_tab ! (2 * k)) = crc32_tab ! k" using crc32_tab_even k by (simp add: list_all_iff)
    also have "\<dots> = (crc_bit ^^ 8) (of_nat k)" using less.IH k by simp
    also have "of_nat k = crc_bit (of_nat (2 * k))" using drop_bit_double [OF k(2)] by (simp add: crc_bit_def bit_0)
    finally have "(crc_bit ^^ 1) (crc32_tab ! (2 * k)) = (crc_bit ^^ 1) ((crc_bit ^^ 8) (of_nat (2 * k)))"
      by (simp add: funpow_swap1)
    then show ?thesis unfolding inj_crc_bit_pow .
  qed
  show ?case
  proof (cases "even i")
    case True
    then show ?thesis using even [of "i div 2"] by simp
  next
    case False
    then obtain k where k: "i = 2 * k + 1" by (auto elim: oddE)
    have one: "crc32_tab ! 1 = (crc_bit ^^ 8) 1" by code_simp
    have "crc32_tab ! i = crc32_tab ! (2 * k) XOR crc32_tab ! 1"
      using crc32_tab_odd k less.prems by (simp add: list_all_iff)
    then show ?thesis using even [of k] k by (simp only: one of_nat_odd_xor crc_bit_pow_xor)
  qed
qed

lemma crc32_step:
  "crc32_tab ! unat ((crc XOR ucast p) AND 0xFF) XOR drop_bit 8 crc = crc_byte p crc"
proof -
  define w where "w = crc XOR ucast p"
  have ff: "(0xFF :: u32) = mask 8" by (simp add: mask_eq_exp_minus_1)
  have low: "unat (w AND 0xFF) < 256"
    using word_and_le1 [of w "0xFF"] by (simp add: word_le_nat_alt)
  have "w = (w AND 0xFF) XOR (w AND NOT 0xFF)"
    by (rule bit_word_eqI) (auto simp: bit_simps)
  moreover have "(crc_bit ^^ 8) (w AND NOT 0xFF) = drop_bit 8 (w AND NOT 0xFF)"
    unfolding ff by (rule crc_bit_pow_shift) (auto simp: bit_simps)
  moreover have "drop_bit 8 (w AND NOT 0xFF) = drop_bit 8 crc"
    unfolding ff by (rule bit_word_eqI) (auto simp: w_def bit_simps dest: bit_imp_le_length)
  ultimately have "(crc_bit ^^ 8) w = (crc_bit ^^ 8) (w AND 0xFF) XOR drop_bit 8 crc"
    by (metis crc_bit_pow_xor)
  then show ?thesis using crc32_tab_entry [OF low] by (simp add: w_def crc_byte_def)
qed

lemma crc32_loop_fold: "crc32_loop crc buf = fold crc_byte buf crc"
  by (induction crc buf rule: crc32_loop.induct) (simp_all add: crc32_step)

lemma crc32_append: "GG_Crc32 (GG_Crc32 crc a) b = GG_Crc32 crc (a @ b)"
proof -
  have "x XOR NOT 0 XOR NOT 0 = x" for x :: u32 by (simp add: xor.assoc)
  then show ?thesis by (simp add: GG_Crc32_def crc32_loop_fold)
qed

section \<open>Detection of errors\<close>

text \<open>The bytes of at most four positions as the register sees them: the first in the low end.\<close>

fun le_word :: "bytes \<Rightarrow> u32" where
  "le_word [] = 0"
| "le_word (p # u) = ucast p XOR push_bit 8 (le_word u)"

lemma bit_le_word: "bit (le_word u) n \<Longrightarrow> n < 8 * length u"
proof (induction u arbitrary: n)
  case (Cons p u)
  then consider "bit (ucast p :: u32) n" | "8 \<le> n" "bit (le_word u) (n - 8)"
    by (auto simp: bit_xor_iff bit_push_bit_iff)
  then show ?case using Cons.IH [of "n - 8"] by cases (auto simp: bit_simps dest: bit_imp_le_length)
qed simp

lemma le_word_shift: "length u \<le> 3 \<Longrightarrow> drop_bit 8 (push_bit 8 (le_word u)) = le_word u"
  using bit_le_word [of u] by (intro bit_word_eqI) (fastforce simp: bit_simps)

lemma le_word_inject: "length u = length v \<Longrightarrow> length u \<le> 4 \<Longrightarrow> le_word u = le_word v \<Longrightarrow> u = v"
proof (induction u v rule: list_induct2)
  case (Cons p u q v)
  have ucast: "ucast (le_word (r # w)) = r" for r w
    by (rule bit_word_eqI) (auto simp: bit_simps)
  have rest: "drop_bit 8 (le_word (r # w)) = le_word w" if "length w \<le> 3" for r w
  proof -
    have "drop_bit 8 (ucast r :: u32) = 0"
      by (rule bit_word_eqI) (auto simp: bit_simps dest: bit_imp_le_length)
    then show ?thesis using le_word_shift [OF that] by (simp add: drop_bit_xor)
  qed
  have "p = q" using Cons.prems(2) ucast by metis
  moreover have "le_word u = le_word v" using Cons rest by (metis Suc_le_mono length_Cons eval_nat_numeral(2,3) semiring_norm(26,27,28))
  ultimately show ?case using Cons by simp
qed simp

lemma fold_crc_word: "length u \<le> 4 \<Longrightarrow> fold crc_byte u c = (crc_bit ^^ (8 * length u)) (c XOR le_word u)"
proof (induction u arbitrary: c)
  case (Cons p u)
  have "(crc_bit ^^ 8) (push_bit 8 (le_word u)) = le_word u"
    using Cons.prems le_word_shift [of u]
    by (subst crc_bit_pow_shift) (auto simp: bit_push_bit_iff)
  then have "crc_byte p c XOR le_word u = (crc_bit ^^ 8) (c XOR le_word (p # u))"
    by (simp only: crc_byte_def crc_bit_pow_xor le_word.simps(2) xor.assoc)
  moreover have "fold crc_byte (p # u) c = (crc_bit ^^ (8 * length u)) (crc_byte p c XOR le_word u)"
    using Cons by simp
  moreover have "8 * length (p # u) = 8 * length u + 8" by simp
  ultimately show ?case by (simp only: funpow_add comp_apply)
qed simp

lemma fold_crc_inject: "fold crc_byte post c = fold crc_byte post d \<longleftrightarrow> c = d"
proof (induction post arbitrary: c d)
  case (Cons p post)
  have "crc_byte p c = crc_byte p d \<longleftrightarrow> c = d"
    by (simp add: crc_byte_def inj_crc_bit_pow xor_cancel)
  then show ?case using Cons by simp
qed simp

text \<open>
  C31: The checksum of a buffer, computed from the table one byte at a time, is the remainder the shift register of the
  CRC-32 polynomial computes bit by bit, and the checksum of a buffer can be continued from the checksum of its beginning.
\<close>

theorem crc32_table_driven:
  "GG_Crc32 0 buf = crc_reference buf \<and> GG_Crc32 (GG_Crc32 0 a) b = crc_reference (a @ b)"
proof -
  have "GG_Crc32 0 x = crc_reference x" for x
    by (simp add: GG_Crc32_def crc_reference_def crc32_loop_fold)
  then show ?thesis using crc32_append [of 0 a b] by simp
qed

text \<open>
  Damage confined to four consecutive bytes of a buffer always changes its checksum, wherever it is and whatever
  surrounds it.
\<close>

lemma crc32_burst:
  assumes "length u = length v" and "length u \<le> 4" and "u \<noteq> v"
  shows "GG_Crc32 crc (pre @ u @ post) \<noteq> GG_Crc32 crc (pre @ v @ post)"
proof
  assume "GG_Crc32 crc (pre @ u @ post) = GG_Crc32 crc (pre @ v @ post)"
  then have "fold crc_byte (pre @ u @ post) (crc XOR NOT 0) = fold crc_byte (pre @ v @ post) (crc XOR NOT 0)"
    by (simp add: GG_Crc32_def crc32_loop_fold)
  then have "le_word u = le_word v" using assms(1,2)
    by (simp add: fold_crc_inject fold_crc_word inj_crc_bit_pow xor_cancel)
  then show False using le_word_inject assms by blast
qed

end
