(* ===== verification/Serial_Transport.thy ===== *)
theory Serial_Transport
  imports Serial_Parser Codecs Crc32
begin

text \<open>
  The serial remote transport, \<^verbatim>\<open>xp/remote/transport/serial/gg_remote_serial.c\<close>, on the serial port of
  \<^verbatim>\<open>ports/mynewt/gg_mynewt_serial_io.c\<close>. What the port receives is a list of events: a byte that the interrupt handler put in
  the ring buffer, the expiration of the timeout of a wait that has one, or a failure of the semaphore of the system.
  A call returns, waits for more events than the list has, or stops on an assertion or an access outside an array.
  Memory is assumed not to run out.
\<close>

datatype rx_event = Rx_byte u8 | Rx_timeout | Rx_error

datatype 'a io = Returned 'a | Waiting | Fault

record SerialIO =
  sio_parser :: GG_SerialRemoteParser
  sio_rx :: "rx_event list"
  sio_tx :: bytes

section \<open>The serial port\<close>

text \<open>The wait of \<^verbatim>\<open>SerialIO_ReadFrame\<close> has no timeout.\<close>

fun read_frame_loop ::
  "GG_SerialRemoteParser \<Rightarrow> rx_event list \<Rightarrow> (GG_Result \<times> bytes \<times> GG_SerialRemoteParser \<times> rx_event list) io" where
  "read_frame_loop p [] = Waiting"
| "read_frame_loop p (Rx_timeout # rx) = read_frame_loop p rx"
| "read_frame_loop p (Rx_error # rx) = Returned (GG_FAILURE, [], p, rx)"
| "read_frame_loop p (Rx_byte b # rx) =
     (case GG_SerialRemoteParser_PutData p b of
        None \<Rightarrow> Fault
      | Some (r, p) \<Rightarrow>
          if GG_SerialRemoteParser_IsFrameReceived p then
            case GG_SerialRemoteParser_GetFramePayload p of
              None \<Rightarrow> Fault
            | Some (Inl r) \<Rightarrow> Returned (GG_FAILURE, [], p, rx)
            | Some (Inr data) \<Rightarrow> Returned (GG_SUCCESS, data, p, rx)
          else read_frame_loop p rx)"

definition SerialIO_ReadFrame :: "SerialIO \<Rightarrow> (GG_Result \<times> bytes \<times> SerialIO) io" where
  "SerialIO_ReadFrame self =
     (case read_frame_loop (sio_parser self) (sio_rx self) of
        Returned (r, data, p, rx) \<Rightarrow> Returned (r, data, self\<lparr>sio_parser := p, sio_rx := rx\<rparr>)
      | Waiting \<Rightarrow> Waiting
      | Fault \<Rightarrow> Fault)"

fun read_ack_loop :: "GG_SerialRemoteParser \<Rightarrow> rx_event list \<Rightarrow> (GG_Result \<times> GG_SerialRemoteParser \<times> rx_event list) io" where
  "read_ack_loop p [] = Waiting"
| "read_ack_loop p (Rx_timeout # rx) = Returned (GG_ERROR_TIMEOUT, p, rx)"
| "read_ack_loop p (Rx_error # rx) = Returned (GG_FAILURE, p, rx)"
| "read_ack_loop p (Rx_byte b # rx) =
     (case GG_SerialRemoteParser_PutData p b of
        None \<Rightarrow> Fault
      | Some (r, p) \<Rightarrow>
          if GG_SerialRemoteParser_IsAckReceived p then Returned (GG_SUCCESS, p, rx) else read_ack_loop p rx)"

definition SerialIO_ReadAck :: "SerialIO \<Rightarrow> (GG_Result \<times> SerialIO) io" where
  "SerialIO_ReadAck self =
     (case read_ack_loop (sio_parser self) (sio_rx self) of
        Returned (r, p, rx) \<Rightarrow> Returned (r, self\<lparr>sio_parser := p, sio_rx := rx\<rparr>)
      | Waiting \<Rightarrow> Waiting
      | Fault \<Rightarrow> Fault)"

definition SerialIO_Write :: "SerialIO \<Rightarrow> bytes \<Rightarrow> SerialIO" where
  "SerialIO_Write self data = self\<lparr>sio_tx := sio_tx self @ data\<rparr>"

section \<open>The transport\<close>

fun atoi32_loop :: "bytes \<Rightarrow> u32 \<Rightarrow> GG_Result + u32" where
  "atoi32_loop [] result = Inr result"
| "atoi32_loop (byte # data) result =
     (if 0x30 \<le> byte \<and> byte \<le> 0x39
      then atoi32_loop data (push_bit 4 result OR (ucast (byte - 0x30) AND 0xF))
      else if 0x61 \<le> byte \<and> byte \<le> 0x66
      then atoi32_loop data (push_bit 4 result OR (ucast (byte - 0x61 + 10) AND 0xF))
      else if 0x41 \<le> byte \<and> byte \<le> 0x46
      then atoi32_loop data (push_bit 4 result OR (ucast (byte - 0x41 + 10) AND 0xF))
      else Inl GG_FAILURE)"

definition GG_SerialTransport_atoi32 :: "bytes \<Rightarrow> GG_Result + u32" where
  "GG_SerialTransport_atoi32 data_ptr = atoi32_loop (take 8 data_ptr) 0"

definition itoa_lookup :: bytes where
  "itoa_lookup = map of_char ''0123456789ABCDEF''"

definition GG_SerialTransport_itoa_hex :: "u32 \<Rightarrow> bytes" where
  "GG_SerialTransport_itoa_hex source =
     concat (map (\<lambda>i. [itoa_lookup ! unat (drop_bit 4 (drop_bit (8 * i) source AND 0xF0)),
                       itoa_lookup ! unat (drop_bit (8 * i) source AND 0x0F)]) [3, 2, 1, 0])"

definition GG_SerialTransport_GetFrameSize :: "SerialIO \<Rightarrow> nat" where
  "GG_SerialTransport_GetFrameSize self =
     (case GG_SerialRemoteParser_GetFrameLen (sio_parser self) of Inl r \<Rightarrow> 0 | Inr n \<Rightarrow> n)"

definition GG_SerialTransport_GetFramePayload :: "SerialIO \<Rightarrow> (GG_Result + bytes) option" where
  "GG_SerialTransport_GetFramePayload self = GG_SerialRemoteParser_GetFramePayload (sio_parser self)"

definition GG_SerialTransport_GetFramePtr :: "SerialIO \<Rightarrow> bytes option" where
  "GG_SerialTransport_GetFramePtr self = GG_SerialRemoteParser_GetFramePtr (sio_parser self)"

definition GG_SerialTransport_GetFramePayloadSize :: "SerialIO \<Rightarrow> nat" where
  "GG_SerialTransport_GetFramePayloadSize self = GG_SerialRemoteParser_GetFramePayloadLen (sio_parser self)"

definition GG_SerialTransport_ClearParserState :: "SerialIO \<Rightarrow> SerialIO" where
  "GG_SerialTransport_ClearParserState self = self\<lparr>sio_parser := GG_SerialRemoteParser_Reset (sio_parser self)\<rparr>"

definition GG_SerialTransport_GetFrameSeq :: "SerialIO \<Rightarrow> (GG_Result + bytes) option" where
  "GG_SerialTransport_GetFrameSeq self = GG_SerialRemoteParser_GetFrameSeq (sio_parser self)"

text \<open>A frame longer than the array is read past its end: \<open>None\<close>.\<close>

definition GG_SerialTransport_FrameValidation :: "SerialIO \<Rightarrow> GG_Result option" where
  "GG_SerialTransport_FrameValidation self =
     (let frame_len = GG_SerialTransport_GetFrameSize self
      in case GG_SerialTransport_GetFramePtr self of
           None \<Rightarrow> Some GG_FAILURE
         | Some frame_ptr \<Rightarrow>
             if frame_len < GG_MIN_FRAME_LEN then Some GG_FAILURE
             else if frame_len > GG_MAX_FRAME_LEN then None
             else
               case GG_SerialTransport_atoi32 (drop (frame_len - GG_CRC_FRAMED_LEN - GG_SEQ_FRAMED_LEN - 1) frame_ptr) of
                 Inl result \<Rightarrow> Some result
               | Inr stored_crc \<Rightarrow>
                   let cal_crc = GG_Crc32 0 (subarray frame_ptr 1 (frame_len - GG_MIN_FRAME_LEN))
                   in Some (if cal_crc = stored_crc then GG_SUCCESS else GG_FAILURE))"

definition SerialTransport_SendAck :: "SerialIO \<Rightarrow> bytes \<Rightarrow> SerialIO" where
  "SerialTransport_SendAck self seq = SerialIO_Write self (GG_ACK_FRAME_START_BYTE # take GG_SEQ_FRAMED_LEN seq)"

text \<open>
  The first call asks for the size of the output. When the output is empty, it succeeds at once, and the output pointer of the
  caller stays null: \<open>None\<close>. The data of an empty buffer is a null pointer, which the decoder rejects with an assertion.
\<close>

definition GG_SerialTransport_EncodeDecodePayload ::
  "bool \<Rightarrow> bytes \<Rightarrow> bool \<Rightarrow> (GG_Result \<times> bytes option) option" where
  "GG_SerialTransport_EncodeDecodePayload char_is_signed src encode =
     (if encode then
        let (result, dst_size, _) = GG_Base64_Encode src 0 False
        in if result \<noteq> GG_ERROR_NOT_ENOUGH_SPACE then Some (result, None)
           else let (result, dst_size, buff) = GG_Base64_Encode src dst_size False
                in Some (if result \<noteq> GG_SUCCESS then (result, None) else (result, Some buff))
      else if src = [] then None
      else
        case GG_Base64_Decode char_is_signed src (length src) 0 False of
          None \<Rightarrow> None
        | Some (result, dst_size, _) \<Rightarrow>
            if result \<noteq> GG_ERROR_NOT_ENOUGH_SPACE then Some (result, None)
            else map_option (\<lambda>(result, dst_size, buff).
                if result \<noteq> GG_SUCCESS then (result, None) else (result, Some buff))
              (GG_Base64_Decode char_is_signed src (length src) dst_size False))"

definition GG_SerialTransport_CreateFrame :: "bytes \<Rightarrow> bytes \<Rightarrow> bytes \<Rightarrow> bytes" where
  "GG_SerialTransport_CreateFrame payload_buff crc seq =
     [GG_FRAME_START_BYTE] @ payload_buff @ [GG_FRAME_PAYLOAD_END_BYTE] @ take GG_CRC_FRAMED_LEN crc @
     take GG_SEQ_FRAMED_LEN seq @ [GG_FRAME_END_BYTE]"

lemma read_frame_loop_shorter:
  "read_frame_loop p rx = Returned (r, data, q, rx') \<Longrightarrow> length rx' < length rx"
  by (induction p rx rule: read_frame_loop.induct)
    (auto intro: less_SucI split: option.splits sum.splits prod.splits if_splits)

function SerialTransport_ReadFrame :: "bool \<Rightarrow> SerialIO \<Rightarrow> (GG_Result \<times> bytes option \<times> SerialIO) io" where
  "SerialTransport_ReadFrame char_is_signed self =
     (case SerialIO_ReadFrame self of
        Waiting \<Rightarrow> Waiting
      | Fault \<Rightarrow> Fault
      | Returned (result, payload_buff, self') \<Rightarrow>
          if result = GG_ERROR_REMOTE_EXIT then Returned (result, None, self')
          else if result \<noteq> GG_SUCCESS
          then SerialTransport_ReadFrame char_is_signed (GG_SerialTransport_ClearParserState self')
          else
            case GG_SerialTransport_FrameValidation self' of
              None \<Rightarrow> Fault
            | Some valid \<Rightarrow>
                if valid \<noteq> GG_SUCCESS
                then SerialTransport_ReadFrame char_is_signed (GG_SerialTransport_ClearParserState self')
                else
                  case GG_SerialTransport_GetFrameSeq self' of
                    Some (Inr frame_seq_number) \<Rightarrow>
                      let acked = SerialTransport_SendAck self' frame_seq_number
                      in (case GG_SerialTransport_EncodeDecodePayload char_is_signed payload_buff False of
                            None \<Rightarrow> Fault
                          | Some (result, cbor_buff) \<Rightarrow>
                              if result \<noteq> GG_SUCCESS
                              then SerialTransport_ReadFrame char_is_signed (GG_SerialTransport_ClearParserState acked)
                              else Returned (GG_SUCCESS, cbor_buff, GG_SerialTransport_ClearParserState acked))
                  | _ \<Rightarrow> Fault)"
  by pat_completeness auto
termination
  by (relation "measure (\<lambda>(sg, self). length (sio_rx self))")
    (auto simp: SerialIO_ReadFrame_def GG_SerialTransport_ClearParserState_def SerialTransport_SendAck_def
      SerialIO_Write_def dest: read_frame_loop_shorter split: io.splits)

declare SerialTransport_ReadFrame.simps [simp del]

definition RETRY_MAX :: nat where [simp]: "RETRY_MAX = 5"
definition DEFAULT_FRAME_SEQ_NUM_ARRAY :: bytes where "DEFAULT_FRAME_SEQ_NUM_ARRAY = replicate 8 0x30"

text \<open>The remaining attempts: \<open>n\<close>.\<close>

fun write_retry :: "nat \<Rightarrow> bytes \<Rightarrow> SerialIO \<Rightarrow> SerialIO io" where
  "write_retry 0 frame self = Returned self"
| "write_retry (Suc n) frame self =
     (case SerialIO_ReadAck (SerialIO_Write self frame) of
        Returned (result, self) \<Rightarrow> if result = GG_SUCCESS then Returned self else write_retry n frame self
      | Waiting \<Rightarrow> Waiting
      | Fault \<Rightarrow> Fault)"

definition SerialTransport_WriteFrame :: "SerialIO \<Rightarrow> bytes \<Rightarrow> (GG_Result \<times> SerialIO) io" where
  "SerialTransport_WriteFrame self buffer =
     (case GG_SerialTransport_EncodeDecodePayload True buffer True of
        None \<Rightarrow> Fault
      | Some (result, encoded_payload) \<Rightarrow>
          if result \<noteq> GG_SUCCESS then Returned (result, self)
          else
            case encoded_payload of
              None \<Rightarrow> Fault
            | Some payload \<Rightarrow>
                let crc = GG_SerialTransport_itoa_hex (GG_Crc32 0 payload);
                    frame = GG_SerialTransport_CreateFrame payload crc DEFAULT_FRAME_SEQ_NUM_ARRAY
                in (case write_retry RETRY_MAX frame self of
                      Returned self \<Rightarrow> Returned (GG_SUCCESS, GG_SerialTransport_ClearParserState self)
                    | Waiting \<Rightarrow> Waiting
                    | Fault \<Rightarrow> Fault))"

end
