(* ===== verification/Serial_Transport_Props.thy ===== *)
theory Serial_Transport_Props
  imports Serial_Transport
begin

text \<open>
  Properties of the serial remote transport: a frame written on one side is read on the other and its acknowledgement
  ends the write, a damaged frame is neither delivered nor acknowledged, and a write without acknowledgement gives up.
\<close>

section \<open>The hexadecimal checksum\<close>

definition hex_digits_ok :: bool where
  "hex_digits_ok \<longleftrightarrow> list_all (\<lambda>n. plain (itoa_lookup ! n) \<and>
     atoi32_loop [itoa_lookup ! n] 0 = Inr (of_nat n)) [0..<16]"

lemma hex_digits_ok: hex_digits_ok
  by code_simp

lemma atoi32_loop_step: "atoi32_loop [b] 0 = Inr d \<Longrightarrow> atoi32_loop (b # data) acc = atoi32_loop data (push_bit 4 acc OR d)"
  by (auto split: if_splits)

lemma atoi32_digit: "n < 16 \<Longrightarrow> atoi32_loop (itoa_lookup ! n # data) acc = atoi32_loop data (push_bit 4 acc OR of_nat n)"
proof (rule atoi32_loop_step)
  assume "n < 16"
  then have "n \<in> set [0..<16]" by simp
  with hex_digits_ok show "atoi32_loop [itoa_lookup ! n] 0 = Inr (of_nat n)"
    unfolding hex_digits_ok_def list_all_iff by blast
qed

lemma plain_digit: "n < 16 \<Longrightarrow> plain (itoa_lookup ! n)"
  using hex_digits_ok by (auto simp: hex_digits_ok_def list_all_iff)

lemma unat_nibble: "unat (take_bit 4 (w :: u32)) < 16"
  by (simp add: take_bit_eq_mod unat_mod)

lemma nibble_high: "drop_bit 4 (w AND 0xF0 :: u32) = take_bit 4 (drop_bit 4 w)"
proof -
  have m: "(0xF0 :: u32) = push_bit 4 (mask 4)" by (simp add: mask_eq_exp_minus_1)
  show ?thesis unfolding m by (intro bit_word_eqI) (auto simp: bit_simps)
qed

lemma nibble_step: "push_bit 4 (drop_bit (4 + k) w) OR take_bit 4 (drop_bit k w) = drop_bit k (w :: u32)"
  by (rule bit_word_eqI) (auto simp: bit_simps)

lemma itoa_hex_eq:
  "GG_SerialTransport_itoa_hex v = map (\<lambda>k. itoa_lookup ! unat (take_bit 4 (drop_bit k v))) [28, 24, 20, 16, 12, 8, 4, 0]"
  by (simp add: GG_SerialTransport_itoa_hex_def nibble_high and_mask drop_bit_drop_bit)

lemma atoi32_nibble:
  "atoi32_loop (itoa_lookup ! unat (take_bit 4 (drop_bit k v)) # data) (drop_bit (4 + k) v) = atoi32_loop data (drop_bit k v)"
  using atoi32_digit [OF unat_nibble [of "drop_bit k v"]] nibble_step [of k v] by simp

lemma atoi32_itoa_hex: "GG_SerialTransport_atoi32 (GG_SerialTransport_itoa_hex v @ rest) = Inr v"
proof -
  have "drop_bit 32 v = 0" by (rule bit_word_eqI) (auto simp: bit_simps dest: bit_imp_le_length)
  then have "atoi32_loop (map (\<lambda>k. itoa_lookup ! unat (take_bit 4 (drop_bit k v))) [28, 24, 20, 16, 12, 8, 4, 0]) 0 =
      Inr (drop_bit 0 v)"
    using atoi32_nibble [of 28 v] atoi32_nibble [of 24 v] atoi32_nibble [of 20 v] atoi32_nibble [of 16 v]
      atoi32_nibble [of 12 v] atoi32_nibble [of 8 v] atoi32_nibble [of 4 v] atoi32_nibble [of 0 v]
    by (simp del: atoi32_loop.simps(2) take_bit_drop_bit)
  then show ?thesis by (simp add: GG_SerialTransport_atoi32_def itoa_hex_eq)
qed

lemma length_itoa_hex [simp]: "length (GG_SerialTransport_itoa_hex v) = 8"
  by (simp add: itoa_hex_eq)

lemma plain_itoa_hex: "list_all plain (GG_SerialTransport_itoa_hex v)"
  by (simp add: itoa_hex_eq plain_digit unat_nibble)

section \<open>Reading a frame\<close>

lemma read_frame_plain:
  assumes "in_frame p" and "collected p seen" and "list_all plain cs" and "length seen + length cs \<le> GG_MAX_FRAME_LEN"
  shows "\<exists>q. in_frame q \<and> collected q (seen @ cs) \<and> payload_len q = payload_len p \<and>
    (\<forall>rx. read_frame_loop p (map Rx_byte cs @ rx) = read_frame_loop q rx)"
  using assms
proof (induction cs arbitrary: p seen)
  case (Cons c cs)
  then obtain p' where p': "GG_SerialRemoteParser_PutData p c = Some (GG_SUCCESS, p')" "in_frame p'"
      "collected p' (seen @ [c])" "payload_len p' = payload_len p"
    using PutData_plain [of p seen c] by auto
  have "\<not> GG_SerialRemoteParser_IsFrameReceived p'"
    using p'(2) by (simp add: in_frame_def GG_SerialRemoteParser_IsFrameReceived_def)
  moreover obtain q where "in_frame q" "collected q ((seen @ [c]) @ cs)" "payload_len q = payload_len p'"
      "\<forall>rx. read_frame_loop p' (map Rx_byte cs @ rx) = read_frame_loop q rx"
    using Cons.IH [OF p'(2,3)] Cons.prems by auto
  ultimately show ?case using p' by (intro exI [of _ q]) simp
qed (auto intro: exI [of _ p])

text \<open>A parser that has seen no frame and no acknowledgement since it was reset.\<close>

definition idle :: "GG_SerialRemoteParser \<Rightarrow> bool" where
  "idle p \<longleftrightarrow> length (rp_buffer p) = GG_MAX_FRAME_LEN \<and> \<not> ack_parsing_started p \<and> \<not> ack_parsing_complete p \<and>
    \<not> frame_parsing_started p \<and> \<not> frame_parsing_complete p"

lemma idle_Reset [simp]: "idle (GG_SerialRemoteParser_Reset p)"
  by (simp add: idle_def GG_SerialRemoteParser_Reset_def)

lemma PutData_noise:
  assumes "idle p" and "c \<noteq> GG_FRAME_START_BYTE" and "c \<noteq> GG_ACK_FRAME_START_BYTE"
  shows "\<exists>r q. GG_SerialRemoteParser_PutData p c = Some (r, q) \<and> idle q"
  using assms by (auto simp: GG_SerialRemoteParser_PutData_def idle_def)

lemma read_frame_noise:
  assumes "idle p" and "GG_FRAME_START_BYTE \<notin> set noise" and "GG_ACK_FRAME_START_BYTE \<notin> set noise"
  shows "\<exists>q. idle q \<and> (\<forall>rx. read_frame_loop p (map Rx_byte noise @ rx) = read_frame_loop q rx)"
  using assms
proof (induction noise arbitrary: p)
  case (Cons c noise)
  then obtain r q where q: "GG_SerialRemoteParser_PutData p c = Some (r, q)" "idle q"
    using PutData_noise [of p c] by auto
  have "\<not> GG_SerialRemoteParser_IsFrameReceived q" using q(2) by (simp add: idle_def GG_SerialRemoteParser_IsFrameReceived_def)
  then show ?case using Cons.IH [OF q(2)] Cons.prems q(1) by simp
qed auto

definition frame_of :: "bytes \<Rightarrow> u32 \<Rightarrow> bytes \<Rightarrow> bytes" where
  "frame_of payload crc seq = GG_SerialTransport_CreateFrame payload (GG_SerialTransport_itoa_hex crc) seq"

lemma read_frame_frame:
  assumes "idle p" and "list_all plain payload" and "list_all plain seq" and "length seq = GG_SEQ_FRAMED_LEN"
    and "GG_MIN_FRAME_LEN + length payload \<le> GG_MAX_FRAME_LEN"
  shows "\<exists>q. read_frame_loop p (map Rx_byte (frame_of payload crc seq) @ rx) = Returned (GG_SUCCESS, payload, q, rx) \<and>
    frame_parsing_complete q \<and> collected q (frame_of payload crc seq) \<and> payload_len q = length payload \<and>
    length (rp_buffer q) = GG_MAX_FRAME_LEN"
proof -
  note rcv = GG_SerialRemoteParser_IsFrameReceived_def in_frame_def
  let ?tail = "GG_SerialTransport_itoa_hex crc @ seq"
  obtain p1 where p1: "GG_SerialRemoteParser_PutData p GG_FRAME_START_BYTE = Some (GG_SUCCESS, p1)" "in_frame p1"
      "collected p1 [GG_FRAME_START_BYTE]"
    using PutData_start [of p] assms(1) by (auto simp: idle_def)
  obtain p2 where p2: "in_frame p2" "collected p2 ([GG_FRAME_START_BYTE] @ payload)"
      "\<forall>rx. read_frame_loop p1 (map Rx_byte payload @ rx) = read_frame_loop p2 rx"
    using read_frame_plain [OF p1(2,3) assms(2)] assms(5) by auto
  obtain p3 where p3: "GG_SerialRemoteParser_PutData p2 GG_FRAME_PAYLOAD_END_BYTE = Some (GG_SUCCESS, p3)" "in_frame p3"
      "collected p3 (([GG_FRAME_START_BYTE] @ payload) @ [GG_FRAME_PAYLOAD_END_BYTE])" "payload_len p3 = length payload"
    using PutData_payload_end [OF p2(1,2)] assms(5) by auto
  have tail: "list_all plain ?tail" "length ?tail = 16" using assms(3,4) plain_itoa_hex by auto
  then obtain p4 where p4: "in_frame p4"
      "collected p4 ((([GG_FRAME_START_BYTE] @ payload) @ [GG_FRAME_PAYLOAD_END_BYTE]) @ ?tail)"
      "payload_len p4 = length payload" "\<forall>rx. read_frame_loop p3 (map Rx_byte ?tail @ rx) = read_frame_loop p4 rx"
    using read_frame_plain [OF p3(2,3) tail(1)] p3(4) assms(5) by auto
  obtain q where q: "GG_SerialRemoteParser_PutData p4 GG_FRAME_END_BYTE = Some (GG_SUCCESS, q)"
      "length (rp_buffer q) = GG_MAX_FRAME_LEN" "frame_parsing_complete q" "payload_len q = length payload"
      "collected q (frame_of payload crc seq)"
    using PutData_end [OF p4(1,2)] p4(3) tail(2) assms(4,5) by (auto simp: frame_of_def GG_SerialTransport_CreateFrame_def)
  have "subarray (rp_buffer q) 1 (length payload) = payload"
    using collected_subarray [OF q(5), of 1 "length payload"]
    by (simp add: subarray_def frame_of_def GG_SerialTransport_CreateFrame_def)
  then have "GG_SerialRemoteParser_GetFramePayload q = Some (Inr payload)"
    using q(3,4) assms(5) by (simp add: GG_SerialRemoteParser_GetFramePayload_def)
  moreover have "frame_of payload crc seq =
      GG_FRAME_START_BYTE # payload @ GG_FRAME_PAYLOAD_END_BYTE # ?tail @ [GG_FRAME_END_BYTE]"
    using assms(4) by (simp add: frame_of_def GG_SerialTransport_CreateFrame_def)
  ultimately have "read_frame_loop p (map Rx_byte (frame_of payload crc seq) @ rx) = Returned (GG_SUCCESS, payload, q, rx)"
    using p1 p2 p3 p4(1) p4(4) q(1,3) by (simp add: rcv)
  then show ?thesis using q by blast
qed

section \<open>Validation\<close>

lemma validate_frame:
  assumes "frame_parsing_complete (sio_parser self)" and "collected (sio_parser self) (frame_of payload crc seq)"
    and "length seq = GG_SEQ_FRAMED_LEN" and "GG_MIN_FRAME_LEN + length payload \<le> GG_MAX_FRAME_LEN"
  shows "GG_SerialTransport_FrameValidation self = Some (if GG_Crc32 0 payload = crc then GG_SUCCESS else GG_FAILURE)"
proof -
  let ?f = "frame_of payload crc seq"
  have len: "length ?f = 19 + length payload" using assms(3) by (simp add: frame_of_def GG_SerialTransport_CreateFrame_def)
  have "subarray (rp_buffer (sio_parser self)) (2 + length payload) 8 = GG_SerialTransport_itoa_hex crc"
    using collected_subarray [OF assms(2), of "2 + length payload" 8] assms(3) len
    by (simp add: subarray_def frame_of_def GG_SerialTransport_CreateFrame_def)
  then have crc: "GG_SerialTransport_atoi32 (drop (2 + length payload) (rp_buffer (sio_parser self))) = Inr crc"
    using atoi32_itoa_hex [of crc "[]"] by (simp add: GG_SerialTransport_atoi32_def subarray_def)
  have "subarray (rp_buffer (sio_parser self)) 1 (length payload) = payload"
    using collected_subarray [OF assms(2), of 1 "length payload"] len
    by (simp add: subarray_def frame_of_def GG_SerialTransport_CreateFrame_def)
  moreover have "frame_len (sio_parser self) = 19 + length payload" using assms(2) len by (simp add: collected_def)
  ultimately show ?thesis using assms(1,4) crc
    by (simp add: GG_SerialTransport_FrameValidation_def GG_SerialTransport_GetFrameSize_def GG_SerialTransport_GetFramePtr_def
        GG_SerialRemoteParser_GetFrameLen_def GG_SerialRemoteParser_GetFramePtr_def Let_def)
qed

lemma frame_seq:
  assumes "frame_parsing_complete (sio_parser self)" and "collected (sio_parser self) (frame_of payload crc seq)"
    and "length seq = GG_SEQ_FRAMED_LEN" and "GG_MIN_FRAME_LEN + length payload \<le> GG_MAX_FRAME_LEN"
    and "payload_len (sio_parser self) = length payload"
  shows "GG_SerialTransport_GetFrameSeq self = Some (Inr seq)"
proof -
  define pre where "pre = GG_FRAME_START_BYTE # payload @ GG_FRAME_PAYLOAD_END_BYTE # GG_SerialTransport_itoa_hex crc"
  have pre: "frame_of payload crc seq = pre @ seq @ [GG_FRAME_END_BYTE]" "length pre = 10 + length payload"
    using assms(3) by (simp_all add: pre_def frame_of_def GG_SerialTransport_CreateFrame_def)
  have "subarray (rp_buffer (sio_parser self)) (length pre) 8 = seq"
    using collected_subarray [OF assms(2), of "length pre" 8] assms(3) unfolding pre(1) by (simp add: subarray_def)
  then have "subarray (rp_buffer (sio_parser self)) (10 + length payload) 8 = seq" by (simp only: pre(2))
  then show ?thesis using assms(1,4,5)
    by (simp add: GG_SerialTransport_GetFrameSeq_def GG_SerialRemoteParser_GetFrameSeq_def Let_def)
qed

text \<open>What the reader does with a frame: one step of its loop.\<close>

lemma ReadFrame_frame:
  assumes "idle (sio_parser self)" and "GG_FRAME_START_BYTE \<notin> set noise" and "GG_ACK_FRAME_START_BYTE \<notin> set noise"
    and "list_all plain payload" and "list_all plain seq" and "length seq = GG_SEQ_FRAMED_LEN"
    and "GG_MIN_FRAME_LEN + length payload \<le> GG_MAX_FRAME_LEN"
    and "sio_rx self = map Rx_byte (noise @ frame_of payload crc seq) @ rx"
  shows "\<exists>q. SerialTransport_ReadFrame sg self =
    (let next = self\<lparr>sio_parser := GG_SerialRemoteParser_Reset q, sio_rx := rx\<rparr>;
         acked = next\<lparr>sio_tx := sio_tx self @ [GG_ACK_FRAME_START_BYTE] @ seq\<rparr>
     in if GG_Crc32 0 payload \<noteq> crc then SerialTransport_ReadFrame sg next
        else case GG_SerialTransport_EncodeDecodePayload sg payload False of
            None \<Rightarrow> Fault
          | Some (result, cbor_buff) \<Rightarrow>
              if result \<noteq> GG_SUCCESS then SerialTransport_ReadFrame sg acked
              else Returned (GG_SUCCESS, cbor_buff, acked))"
proof -
  obtain p where p: "idle p" "\<forall>rx. read_frame_loop (sio_parser self) (map Rx_byte noise @ rx) = read_frame_loop p rx"
    using read_frame_noise [OF assms(1-3)] by blast
  obtain q where q: "read_frame_loop p (map Rx_byte (frame_of payload crc seq) @ rx) = Returned (GG_SUCCESS, payload, q, rx)"
      "frame_parsing_complete q" "collected q (frame_of payload crc seq)" "payload_len q = length payload"
    using read_frame_frame [OF p(1) assms(4-7)] by blast
  let ?self = "self\<lparr>sio_parser := q, sio_rx := rx\<rparr>"
  have "SerialIO_ReadFrame self = Returned (GG_SUCCESS, payload, ?self)"
    using p(2) q(1) assms(8) by (simp add: SerialIO_ReadFrame_def)
  moreover have "GG_SerialTransport_FrameValidation ?self = Some (if GG_Crc32 0 payload = crc then GG_SUCCESS else GG_FAILURE)"
    using validate_frame [of ?self] q(2,3) assms(6,7) by simp
  moreover have "GG_SerialTransport_GetFrameSeq ?self = Some (Inr seq)"
    using frame_seq [of ?self] q(2-4) assms(6,7) by simp
  ultimately show ?thesis using assms(6)
    by (intro exI [of _ q], subst SerialTransport_ReadFrame.simps, cases self)
      (simp add: Let_def GG_SerialTransport_ClearParserState_def SerialTransport_SendAck_def SerialIO_Write_def
        split: option.split)
qed

section \<open>Base64 payloads\<close>

lemma encode_payload:
  assumes "data \<noteq> []" and "length data \<le> GG_BASE64_MAX_ENCODE_INPUT_SIZE"
  shows "GG_SerialTransport_EncodeDecodePayload sg data True = Some (GG_SUCCESS, Some (base64_blocks data))"
proof -
  have "0 < (length data + 2) div 3" using assms(1) by (cases data) simp_all
  then show ?thesis using assms base64_encode_blocks [OF assms(2) order_refl, of False]
    by (simp add: GG_SerialTransport_EncodeDecodePayload_def GG_Base64_Encode_def Let_def enc_map_def map_idI)
qed

lemma decode_payload:
  assumes "data \<noteq> []"
  shows "GG_SerialTransport_EncodeDecodePayload sg (base64_blocks data) False = Some (GG_SUCCESS, Some data)"
proof -
  have "base64_blocks data = map (enc_map False) (base64_blocks data)" by (simp add: enc_map_def map_idI)
  from base64_decode_encoded [OF assms this, of sg "[]"] show ?thesis
    using assms base64_blocks_nonempty [OF assms] by (simp add: GG_SerialTransport_EncodeDecodePayload_def)
qed

definition base64_plain :: bool where
  "base64_plain \<longleftrightarrow> list_all plain (61 # GG_Base64_Chars)"

lemma base64_plain: base64_plain
  by code_simp

lemma plain_base64_char: "unat v < 64 \<Longrightarrow> plain (base64_char v)"
  using base64_plain
  by (simp add: base64_plain_def base64_char_def list_all_iff Base64_Chars_eq length_base64_codes)

lemma plain_base64_blocks: "list_all plain (base64_blocks data)"
proof (induction data rule: base64_blocks.induct)
qed (use base64_plain in \<open>simp_all add: and_mask sextets plain_base64_char base64_plain_def\<close>)

section \<open>Acknowledgements\<close>

lemma read_ack_rest:
  assumes "ack_parsing_started p" and "\<not> ack_parsing_complete p" and "buffer_idx p = ack_frame_len p"
    and "list_all plain cs" and "cs \<noteq> []" and "ack_frame_len p + length cs = GG_ACK_FRAME_LEN"
  shows "\<exists>q. read_ack_loop p (map Rx_byte cs @ rx) = Returned (GG_SUCCESS, q, rx)"
  using assms
proof (induction cs arbitrary: p)
  case (Cons c cs)
  show ?case
  proof (cases "cs = []")
    case True
    with Cons.prems show ?thesis
      by (auto simp: GG_SerialRemoteParser_PutData_def store_byte_def plain_def GG_SerialRemoteParser_IsAckReceived_def)
  next
    case False
    then have n: "Suc (ack_frame_len p) < 9" using Cons.prems(6) by (cases cs) auto
    then obtain r q where q: "GG_SerialRemoteParser_PutData p c = Some (r, q)" "ack_parsing_started q"
        "\<not> ack_parsing_complete q" "buffer_idx q = ack_frame_len q" "ack_frame_len q = Suc (ack_frame_len p)"
      using Cons.prems by (auto simp: GG_SerialRemoteParser_PutData_def store_byte_def plain_def)
    then show ?thesis using Cons.IH [OF q(2-4)] Cons.prems False
      by (simp add: GG_SerialRemoteParser_IsAckReceived_def)
  qed
qed simp

lemma read_ack_frame:
  assumes "list_all plain seq" and "length seq = GG_SEQ_FRAMED_LEN"
  shows "\<exists>q. read_ack_loop p (map Rx_byte (GG_ACK_FRAME_START_BYTE # seq) @ rx) = Returned (GG_SUCCESS, q, rx)"
proof -
  obtain r q where q: "GG_SerialRemoteParser_PutData p GG_ACK_FRAME_START_BYTE = Some (r, q)" "ack_parsing_started q"
      "\<not> ack_parsing_complete q" "buffer_idx q = ack_frame_len q" "ack_frame_len q = 1"
    by (auto simp: GG_SerialRemoteParser_PutData_def store_byte_def)
  moreover have "seq \<noteq> []" using assms(2) by auto
  ultimately show ?thesis using read_ack_rest [OF q(2-4) assms(1), of rx] assms(2)
    by (auto simp: GG_SerialRemoteParser_IsAckReceived_def)
qed

lemma write_retry_timeouts:
  "k \<le> n \<Longrightarrow> sio_rx self = replicate k Rx_timeout @ rx \<Longrightarrow>
    write_retry n frame self =
      write_retry (n - k) frame (self\<lparr>sio_rx := rx, sio_tx := sio_tx self @ concat (replicate k frame)\<rparr>)"
proof (induction k arbitrary: n self)
  case (Suc k)
  then obtain m where n: "n = Suc m" "k \<le> m" by (cases n) auto
  show ?case
    using Suc.IH [OF n(2), of "self\<lparr>sio_rx := replicate k Rx_timeout @ rx, sio_tx := sio_tx self @ frame\<rparr>"] Suc.prems n(1)
    by (cases self) (simp add: SerialIO_ReadAck_def SerialIO_Write_def)
next
  case 0
  then show ?case by (cases self) simp
qed

lemma write_retry_ack:
  assumes "list_all plain seq" and "length seq = GG_SEQ_FRAMED_LEN"
    and "sio_rx self = map Rx_byte (GG_ACK_FRAME_START_BYTE # seq) @ rx"
  shows "\<exists>q. write_retry (Suc n) frame self = Returned (self\<lparr>sio_parser := q, sio_rx := rx, sio_tx := sio_tx self @ frame\<rparr>)"
proof -
  obtain q where "read_ack_loop (sio_parser self) (sio_rx self) = Returned (GG_SUCCESS, q, rx)"
    using read_ack_frame [OF assms(1,2)] assms(3) by metis
  then show ?thesis by (intro exI [of _ q]) (cases self, simp add: SerialIO_ReadAck_def SerialIO_Write_def)
qed

lemma Reset_const: "GG_SerialRemoteParser_Reset p = GG_SerialRemoteParser_Reset q"
  by (cases p, cases q) (simp add: GG_SerialRemoteParser_Reset_def)

lemma concat_replicate_snoc: "concat (replicate k xs) @ xs = concat (replicate (k + 1) xs)"
  by (induction k) simp_all

definition parser0 :: GG_SerialRemoteParser where
  "parser0 = \<lparr>rp_buffer = replicate GG_MAX_FRAME_LEN 0, buffer_idx = 0, ack_frame_len = 0, ack_parsing_started = False,
     ack_parsing_complete = False, frame_len = 0, payload_len = 0, frame_parsing_started = False,
     frame_parsing_complete = False, shell_exit_state = False\<rparr>"

lemma idle_parser0 [simp]: "idle parser0"
  by (simp add: idle_def parser0_def)

text \<open>The frame the writer sends for a buffer.\<close>

definition data_frame :: "bytes \<Rightarrow> bytes" where
  "data_frame data = frame_of (base64_blocks data) (GG_Crc32 0 (base64_blocks data)) DEFAULT_FRAME_SEQ_NUM_ARRAY"

lemma WriteFrame_data_frame:
  assumes "data \<noteq> []" and "length data \<le> GG_BASE64_MAX_ENCODE_INPUT_SIZE"
  shows "SerialTransport_WriteFrame self data =
    (case write_retry RETRY_MAX (data_frame data) self of
       Returned self \<Rightarrow> Returned (GG_SUCCESS, GG_SerialTransport_ClearParserState self)
     | Waiting \<Rightarrow> Waiting
     | Fault \<Rightarrow> Fault)"
  using encode_payload [OF assms]
  by (simp add: SerialTransport_WriteFrame_def data_frame_def frame_of_def Let_def del: RETRY_MAX_def)

section \<open>Properties\<close>

text \<open>
  C32: A buffer that fits in a frame, written to the serial link, is read on the other side. The writer sends one frame; the
  reader, after any noise that has neither the start byte of a frame (\<^verbatim>\<open>#\<close>) nor that of an acknowledgement (\<^verbatim>\<open>@\<close>),
  returns the buffer and sends one acknowledgement; that acknowledgement ends the write with success. Both parsers are idle afterwards and nothing more than the frame and the acknowledgement is consumed.
\<close>

theorem serial_frame_round_trip:
  assumes "data \<noteq> []" and "GG_MIN_FRAME_LEN + 4 * ((length data + 2) div 3) \<le> GG_MAX_FRAME_LEN"
    and "idle (sio_parser reader)" and "GG_FRAME_START_BYTE \<notin> set noise" and "GG_ACK_FRAME_START_BYTE \<notin> set noise"
  shows "\<exists>frame ack reader' writer'.
    SerialTransport_ReadFrame sg (reader\<lparr>sio_rx := map Rx_byte (noise @ frame) @ rest\<rparr>) =
      Returned (GG_SUCCESS, Some data, reader') \<and>
    sio_tx reader' = sio_tx reader @ ack \<and> sio_rx reader' = rest \<and> idle (sio_parser reader') \<and>
    SerialTransport_WriteFrame (writer\<lparr>sio_rx := map Rx_byte ack @ rest_w\<rparr>) data = Returned (GG_SUCCESS, writer') \<and>
    sio_tx writer' = sio_tx writer @ frame \<and> sio_rx writer' = rest_w \<and> idle (sio_parser writer')"
proof -
  let ?seq = DEFAULT_FRAME_SEQ_NUM_ARRAY
  let ?ack = "GG_ACK_FRAME_START_BYTE # ?seq"
  have seq: "list_all plain ?seq" "length ?seq = GG_SEQ_FRAMED_LEN"
    by (simp_all add: DEFAULT_FRAME_SEQ_NUM_ARRAY_def list_all_iff plain_def)
  have max: "length data \<le> GG_BASE64_MAX_ENCODE_INPUT_SIZE"
    using assms(2) by (simp add: GG_BASE64_MAX_ENCODE_INPUT_SIZE_def)
  have len: "GG_MIN_FRAME_LEN + length (base64_blocks data) \<le> GG_MAX_FRAME_LEN"
    using assms(2) by (simp add: length_base64_blocks)
  obtain q where q: "SerialTransport_ReadFrame sg (reader\<lparr>sio_rx := map Rx_byte (noise @ data_frame data) @ rest\<rparr>) =
      Returned (GG_SUCCESS, Some data, reader\<lparr>sio_parser := GG_SerialRemoteParser_Reset q, sio_rx := rest,
        sio_tx := sio_tx reader @ ?ack\<rparr>)"
    using ReadFrame_frame [OF _ assms(4,5) plain_base64_blocks [of data] seq len,
        of "reader\<lparr>sio_rx := map Rx_byte (noise @ data_frame data) @ rest\<rparr>" "GG_Crc32 0 (base64_blocks data)" rest sg] assms(3) decode_payload [OF assms(1), of sg]
    by (auto simp: data_frame_def Let_def simp del: map_append GG_ACK_FRAME_START_BYTE_def)
  obtain p where p: "write_retry RETRY_MAX (data_frame data) (writer\<lparr>sio_rx := map Rx_byte ?ack @ rest_w\<rparr>) =
      Returned (writer\<lparr>sio_parser := p, sio_rx := rest_w, sio_tx := sio_tx writer @ data_frame data\<rparr>)"
    using write_retry_ack [OF seq, of "writer\<lparr>sio_rx := map Rx_byte ?ack @ rest_w\<rparr>" rest_w 4]
    by (auto simp: eval_nat_numeral simp del: write_retry.simps list.map)
  from p have "SerialTransport_WriteFrame (writer\<lparr>sio_rx := map Rx_byte ?ack @ rest_w\<rparr>) data =
      Returned (GG_SUCCESS, writer\<lparr>sio_parser := GG_SerialRemoteParser_Reset p, sio_rx := rest_w,
        sio_tx := sio_tx writer @ data_frame data\<rparr>)" (is "?write = Returned (_, ?writer)")
    unfolding WriteFrame_data_frame [OF assms(1) max] by (cases writer) (simp add: GG_SerialTransport_ClearParserState_def)
  with q show ?thesis
    by (intro exI [of _ "data_frame data"] exI [of _ ?ack] exI [of _ ?writer] exI [of _ "reader\<lparr>sio_parser :=
        GG_SerialRemoteParser_Reset q, sio_rx := rest, sio_tx := sio_tx reader @ ?ack\<rparr>"] conjI) simp_all
qed

theorem serial_frame_round_trip_witness:
  "\<exists>frame ack reader' writer'.
    SerialTransport_ReadFrame True \<lparr>sio_parser = parser0,
        sio_rx = map Rx_byte ([7] @ frame) @ [], sio_tx = []\<rparr> = Returned (GG_SUCCESS, Some [1, 2, 3, 4], reader') \<and>
    SerialTransport_WriteFrame \<lparr>sio_parser = parser0,
        sio_rx = map Rx_byte ack @ [], sio_tx = []\<rparr> [1, 2, 3, 4] = Returned (GG_SUCCESS, writer')"
  using serial_frame_round_trip [where data = "[1, 2, 3, 4]" and noise = "[7]" and sg = True and rest = "[]" and rest_w = "[]"
      and reader = "\<lparr>sio_parser = parser0, sio_rx = [], sio_tx = []\<rparr>"
      and writer = "\<lparr>sio_parser = parser0, sio_rx = [], sio_tx = []\<rparr>"]
  by (simp del: map_append) blast

text \<open>
  C33: A frame whose payload was damaged on the way, in at most four consecutive bytes and without turning them into delimiters, is
  dropped: nothing is delivered and nothing is acknowledged, and the reader continues with what follows, its parser reset.
\<close>

theorem serial_damaged_frame_dropped:
  assumes "idle (sio_parser self)" and "GG_FRAME_START_BYTE \<notin> set noise" and "GG_ACK_FRAME_START_BYTE \<notin> set noise"
    and "length u = length v" and "length u \<le> 4" and "u \<noteq> v" and "list_all plain (pre @ v @ post @ seq)"
    and "length seq = GG_SEQ_FRAMED_LEN" and "GG_MIN_FRAME_LEN + length (pre @ v @ post) \<le> GG_MAX_FRAME_LEN"
    and "crc = GG_SerialTransport_itoa_hex (GG_Crc32 0 (pre @ u @ post))"
    and "sio_rx self = map Rx_byte (noise @ GG_SerialTransport_CreateFrame (pre @ v @ post) crc seq) @ rx"
  shows "SerialTransport_ReadFrame sg self =
    SerialTransport_ReadFrame sg (self\<lparr>sio_parser := GG_SerialRemoteParser_Reset (sio_parser self), sio_rx := rx\<rparr>)"
proof -
  have "GG_Crc32 0 (pre @ v @ post) \<noteq> GG_Crc32 0 (pre @ u @ post)"
    using crc32_burst [OF assms(4-6), of 0 pre post] by metis
  moreover have "list_all plain (pre @ v @ post)" "list_all plain seq" using assms(7) by simp_all
  ultimately obtain q where "SerialTransport_ReadFrame sg self =
      SerialTransport_ReadFrame sg (self\<lparr>sio_parser := GG_SerialRemoteParser_Reset q, sio_rx := rx\<rparr>)"
    using ReadFrame_frame [OF assms(1-3), of "pre @ v @ post" seq "GG_Crc32 0 (pre @ u @ post)" rx sg] assms(8-11)
    by (auto simp: frame_of_def Let_def simp del: map_append)
  then show ?thesis by (simp only: Reset_const [of q "sio_parser self"])
qed

theorem serial_damaged_frame_dropped_witness:
  "\<exists>self. sio_rx self = map Rx_byte ([] @ GG_SerialTransport_CreateFrame ([0x41] @ [0x42] @ [0x43, 0x44])
      (GG_SerialTransport_itoa_hex (GG_Crc32 0 ([0x41] @ [0x43] @ [0x43, 0x44]))) (replicate 8 0x30)) @ [] \<and>
    SerialTransport_ReadFrame True self = SerialTransport_ReadFrame True
      (self\<lparr>sio_parser := GG_SerialRemoteParser_Reset (sio_parser self), sio_rx := []\<rparr>)"
  by (rule exI [of _ "\<lparr>sio_parser = parser0,
        sio_rx = map Rx_byte ([] @ GG_SerialTransport_CreateFrame ([0x41] @ [0x42] @ [0x43, 0x44])
          (GG_SerialTransport_itoa_hex (GG_Crc32 0 ([0x41] @ [0x43] @ [0x43, 0x44]))) (replicate 8 0x30)) @ [],
        sio_tx = []\<rparr>"],
      rule conjI, simp only: SerialIO.simps,
      rule serial_damaged_frame_dropped [where noise = "[]" and u = "[0x43]" and v = "[0x42]" and pre = "[0x41]"
        and post = "[0x43, 0x44]" and seq = "replicate 8 0x30"])
    (simp_all add: plain_def list_all_iff)

lemma WriteFrame_acknowledged:
  assumes "data \<noteq> []" and "length data \<le> GG_BASE64_MAX_ENCODE_INPUT_SIZE"
    and "k < RETRY_MAX" and "list_all plain seq" and "length seq = GG_SEQ_FRAMED_LEN"
  shows "\<exists>self'. SerialTransport_WriteFrame
        (self\<lparr>sio_rx := replicate k Rx_timeout @ map Rx_byte (GG_ACK_FRAME_START_BYTE # seq) @ rx\<rparr>) data =
      Returned (GG_SUCCESS, self') \<and> sio_tx self' = sio_tx self @ concat (replicate (k + 1) (data_frame data)) \<and> sio_rx self' = rx"
proof -
  let ?f = "data_frame data" and ?ack = "map Rx_byte (GG_ACK_FRAME_START_BYTE # seq) @ rx"
  let ?a = "self\<lparr>sio_rx := replicate k Rx_timeout @ ?ack\<rparr>"
  let ?b = "self\<lparr>sio_rx := ?ack, sio_tx := sio_tx self @ concat (replicate k ?f)\<rparr>"
  obtain m where m: "RETRY_MAX - k = Suc m" using assms(3) by (metis Suc_diff_Suc)
  have "write_retry RETRY_MAX ?f ?a = write_retry (Suc m) ?f ?b"
    using write_retry_timeouts [of k RETRY_MAX ?a ?ack ?f] assms(3) m by (simp del: RETRY_MAX_def write_retry.simps)
  moreover obtain q where "write_retry (Suc m) ?f ?b =
      Returned (?b\<lparr>sio_parser := q, sio_rx := rx, sio_tx := sio_tx ?b @ ?f\<rparr>)"
    using write_retry_ack [OF assms(4,5), of ?b rx m ?f] by auto
  moreover note concat_replicate_snoc [of k ?f]
  ultimately show ?thesis
    using WriteFrame_data_frame [OF assms(1,2), of ?a] by (simp add: GG_SerialTransport_ClearParserState_def del: RETRY_MAX_def)
qed

text \<open>A write that was never acknowledged reports success.\<close>

lemma serial_unacknowledged_success:
  assumes "data \<noteq> []" and "length data \<le> GG_BASE64_MAX_ENCODE_INPUT_SIZE"
  shows "\<exists>self'. SerialTransport_WriteFrame (self\<lparr>sio_rx := replicate RETRY_MAX Rx_timeout @ rx\<rparr>) data = Returned (GG_SUCCESS, self') \<and>
    sio_tx self' = sio_tx self @ concat (replicate RETRY_MAX (data_frame data)) \<and> sio_rx self' = rx"
proof -
  let ?f = "data_frame data" and ?n = "self\<lparr>sio_rx := replicate RETRY_MAX Rx_timeout @ rx\<rparr>"
  have "write_retry RETRY_MAX ?f ?n =
      Returned (self\<lparr>sio_rx := rx, sio_tx := sio_tx self @ concat (replicate RETRY_MAX ?f)\<rparr>)"
    using write_retry_timeouts [of RETRY_MAX RETRY_MAX ?n rx ?f] by (simp del: RETRY_MAX_def)
  then show ?thesis
    using WriteFrame_data_frame [OF assms, of ?n] by (simp add: GG_SerialTransport_ClearParserState_def del: RETRY_MAX_def)
qed

lemma data_frame_layout:
  "data_frame data = GG_FRAME_START_BYTE # base64_blocks data @ GG_FRAME_PAYLOAD_END_BYTE #
     GG_SerialTransport_itoa_hex (GG_Crc32 0 (base64_blocks data)) @ DEFAULT_FRAME_SEQ_NUM_ARRAY @ [GG_FRAME_END_BYTE]"
  by (simp add: data_frame_def frame_of_def GG_SerialTransport_CreateFrame_def DEFAULT_FRAME_SEQ_NUM_ARRAY_def)

text \<open>
  C34: A write sends the frame of its data (start byte, the data in Base64, end of the payload, checksum in hexadecimal, sequence
  number, end byte), waits for the acknowledgement and sends the frame again after each timeout. When the acknowledgement of its sequence number
  comes after \<open>k\<close> timeouts, fewer than five, the write ends with success and has sent the frame \<open>k + 1\<close> times. When none comes, the write ends too,
  after it has sent the frame five times. (Of the result it then reports the theorem says nothing, see \<open>serial_unacknowledged_success\<close>.)
\<close>

theorem serial_write_retries:
  assumes "data \<noteq> []" and "length data \<le> GG_BASE64_MAX_ENCODE_INPUT_SIZE" and "k < RETRY_MAX"
    and "frame = GG_FRAME_START_BYTE # base64_blocks data @ GG_FRAME_PAYLOAD_END_BYTE #
      GG_SerialTransport_itoa_hex (GG_Crc32 0 (base64_blocks data)) @ DEFAULT_FRAME_SEQ_NUM_ARRAY @ [GG_FRAME_END_BYTE]"
  shows "(\<exists>self'. SerialTransport_WriteFrame (self\<lparr>sio_rx := replicate k Rx_timeout @
          map Rx_byte (GG_ACK_FRAME_START_BYTE # DEFAULT_FRAME_SEQ_NUM_ARRAY) @ rx\<rparr>) data = Returned (GG_SUCCESS, self') \<and>
        sio_tx self' = sio_tx self @ concat (replicate (k + 1) frame) \<and> sio_rx self' = rx)
    \<and> (\<exists>r self'. SerialTransport_WriteFrame (self\<lparr>sio_rx := replicate RETRY_MAX Rx_timeout @ rx\<rparr>) data = Returned (r, self') \<and>
        sio_tx self' = sio_tx self @ concat (replicate RETRY_MAX frame) \<and> sio_rx self' = rx)"
proof -
  let ?seq = DEFAULT_FRAME_SEQ_NUM_ARRAY
  have seq: "list_all plain ?seq" "length ?seq = GG_SEQ_FRAMED_LEN"
    by (simp_all add: DEFAULT_FRAME_SEQ_NUM_ARRAY_def list_all_iff plain_def)
  have f: "frame = data_frame data" unfolding assms(4) data_frame_layout ..
  show ?thesis
    using WriteFrame_acknowledged [OF assms(1-3) seq, where self = self and rx = rx]
      serial_unacknowledged_success [OF assms(1,2), where self = self and rx = rx]
    unfolding f by blast
qed

theorem serial_write_retries_witness:
  "\<exists>self' r self'' frame. length frame = 23 \<and>
    SerialTransport_WriteFrame \<lparr>sio_parser = parser0,
        sio_rx = replicate 3 Rx_timeout @ map Rx_byte (GG_ACK_FRAME_START_BYTE # DEFAULT_FRAME_SEQ_NUM_ARRAY) @ [], sio_tx = []\<rparr> [5, 6] =
      Returned (GG_SUCCESS, self') \<and> sio_tx self' = concat (replicate 4 frame) \<and>
    SerialTransport_WriteFrame \<lparr>sio_parser = parser0,
        sio_rx = replicate RETRY_MAX Rx_timeout @ [], sio_tx = []\<rparr> [5, 6] = Returned (r, self'') \<and>
    sio_tx self'' = concat (replicate 5 frame)"
proof -
  define frame where "frame = GG_FRAME_START_BYTE # base64_blocks [5, 6] @ GG_FRAME_PAYLOAD_END_BYTE #
      GG_SerialTransport_itoa_hex (GG_Crc32 0 (base64_blocks [5, 6])) @ DEFAULT_FRAME_SEQ_NUM_ARRAY @ [GG_FRAME_END_BYTE]"
  have "length frame = 23" by (simp add: frame_def length_base64_blocks DEFAULT_FRAME_SEQ_NUM_ARRAY_def)
  then show ?thesis
    using serial_write_retries [OF _ _ _ frame_def, where k = 3 and rx = "[]"
        and self = "\<lparr>sio_parser = parser0, sio_rx = [], sio_tx = []\<rparr>"]
    by (simp add: GG_BASE64_MAX_ENCODE_INPUT_SIZE_def del: replicate.simps list.map map_append) blast
qed

section \<open>Inputs that stop the program\<close>

text \<open>The shortest valid frame has an empty payload; decoding it fails an assertion, after the acknowledgement was sent.\<close>

lemma serial_empty_frame_fault:
  assumes "idle (sio_parser self)" and "list_all plain seq" and "length seq = GG_SEQ_FRAMED_LEN"
    and "sio_rx self = map Rx_byte (frame_of [] 0 seq) @ rx"
  shows "SerialTransport_ReadFrame sg self = Fault"
  using ReadFrame_frame [OF assms(1), of "[]" "[]" seq 0 rx sg] assms(2-4)
  by (auto simp: GG_Crc32_def GG_SerialTransport_EncodeDecodePayload_def Let_def)

text \<open>The encoder succeeds on an empty buffer without giving an output.\<close>

lemma serial_empty_write_fault: "SerialTransport_WriteFrame self [] = Fault"
  by (simp add: SerialTransport_WriteFrame_def GG_SerialTransport_EncodeDecodePayload_def GG_Base64_Encode_def)

text \<open>The parser does not check the size of a frame.\<close>

lemma serial_long_frame_fault:
  assumes "in_frame p" and "collected p seen" and "length seen = GG_MAX_FRAME_LEN" and "plain c"
  shows "read_frame_loop p (Rx_byte c # rx) = Fault"
  using assms by (simp add: GG_SerialRemoteParser_PutData_def store_byte_def plain_def in_frame_def collected_def)

end
