(* ===== verification/Nip.thy ===== *)
theory Nip
  imports Ipv4_Headers Coap_Endpoint
begin

text \<open>
  The nano IP stack, \<^verbatim>\<open>xp/nip/gg_nip.c\<close>: UDP sockets over one network interface. The stack is a singleton; the sockets
  are objects of its users, named by numbers. Sinks and listeners belong to an environment, and are assumed not to call back
  into the stack; memory is assumed not to run out. A read outside a packet has the value \<open>None\<close>.
\<close>

definition GG_NIP_UDP_DYNAMIC_PORT_RANGE_START :: nat where [simp]: "GG_NIP_UDP_DYNAMIC_PORT_RANGE_START = 0xC000"
definition GG_NIP_UDP_DYNAMIC_PORT_RANGE_END :: nat where [simp]: "GG_NIP_UDP_DYNAMIC_PORT_RANGE_END = 0xFFFF"
definition GG_NIP_UDP_DYNAMIC_PORT_RANGE_SPAN :: nat where
  "GG_NIP_UDP_DYNAMIC_PORT_RANGE_SPAN = GG_NIP_UDP_DYNAMIC_PORT_RANGE_END - GG_NIP_UDP_DYNAMIC_PORT_RANGE_START"
definition GG_NIP_MAX_PACKET_SIZE :: nat where [simp]: "GG_NIP_MAX_PACKET_SIZE = 0xFFFF"
definition GG_NIP_IP_HEADER_SIZE :: nat where [simp]: "GG_NIP_IP_HEADER_SIZE = 20"
definition GG_NIP_UDP_HEADER_SIZE :: nat where [simp]: "GG_NIP_UDP_HEADER_SIZE = 8"
definition GG_NIP_IP_PROTOCOL_UDP :: u8 where [simp]: "GG_NIP_IP_PROTOCOL_UDP = 17"

definition GG_NIP_GET_16 :: "bytes \<Rightarrow> nat \<Rightarrow> u16" where
  "GG_NIP_GET_16 data off = push_bit 8 (ucast (data ! off)) OR ucast (data ! (off + 1))"

definition GG_NIP_SET_16 :: "nat \<Rightarrow> u16 \<Rightarrow> bytes \<Rightarrow> bytes" where
  "GG_NIP_SET_16 off val data = data[off := ucast (drop_bit 8 val), off + 1 := ucast val]"

definition GG_NipIpUdpHeaderPrototype :: bytes where
  "GG_NipIpUdpHeaderPrototype = [0x45, 0x00, 0x00, 0x00, 0x00, 0x00, 0x00, 0x00, 0xFF, 0x11]"

record GG_NipUdpEndpoint =
  node_linked :: bool
  data_sink :: "nat option"
  data_sink_listener :: "nat option"
  local_address :: GG_SocketAddress
  remote_address :: GG_SocketAddress
  local_port_bound :: bool
  connected :: bool

record GG_NipStack =
  initialized :: bool
  udp_endpoints :: "nat list"
  header_template :: bytes
  dynamic_port_scan_start :: nat
  next_ip_identification :: u16
  netif_address :: u32
  transport_sink :: "nat option"

text \<open>The stack, the sockets and the rest of the world.\<close>

record 'e nip =
  stack :: GG_NipStack
  sockets :: "nat \<Rightarrow> GG_NipUdpEndpoint"
  world :: 'e

record 'e nip_env =
  sink_put :: "nat \<Rightarrow> bytes \<Rightarrow> GG_BufferMetadata option \<Rightarrow> 'e \<Rightarrow> GG_Result \<times> 'e"
  sink_set_listener :: "nat \<Rightarrow> bool \<Rightarrow> 'e \<Rightarrow> 'e"
  listener_can_put :: "nat \<Rightarrow> 'e \<Rightarrow> 'e"

definition set_socket :: "nat \<Rightarrow> GG_NipUdpEndpoint \<Rightarrow> 'e nip \<Rightarrow> 'e nip" where
  "set_socket i sock s = s\<lparr>sockets := (sockets s)(i := sock)\<rparr>"

section \<open>Addresses\<close>

definition GG_IpAddress_AsInteger :: "bytes \<Rightarrow> u32" where
  "GG_IpAddress_AsInteger address = GG_BytesToInt32Be address 0"

definition GG_IpAddress_SetFromInteger :: "u32 \<Rightarrow> bytes" where
  "GG_IpAddress_SetFromInteger val = GG_BytesFromInt32Be val"

definition GG_IpAddress_IsAny :: "bytes \<Rightarrow> bool" where
  "GG_IpAddress_IsAny address \<longleftrightarrow> address = [0, 0, 0, 0]"

definition no_address :: GG_SocketAddress where
  "no_address = \<lparr>ip_address = [0, 0, 0, 0], ip_port = 0\<rparr>"

section \<open>The stack\<close>

definition GG_Nip_Initialize :: "'e nip \<Rightarrow> 'e nip" where
  "GG_Nip_Initialize s =
     (if initialized (stack s) then s
      else s\<lparr>stack := (stack s)\<lparr>udp_endpoints := [],
        dynamic_port_scan_start := GG_NIP_UDP_DYNAMIC_PORT_RANGE_START, initialized := True\<rparr>\<rparr>)"

definition GG_Nip_Terminate :: "'e nip \<Rightarrow> 'e nip" where
  "GG_Nip_Terminate s = s\<lparr>stack := (stack s)\<lparr>transport_sink := None, initialized := False\<rparr>\<rparr>"

definition nip_template :: "u32 \<Rightarrow> bytes" where
  "nip_template address =
     memcpy_at (GG_NipIpUdpHeaderPrototype @ replicate (GG_NIP_IP_HEADER_SIZE + GG_NIP_UDP_HEADER_SIZE - 10) 0)
       12 (GG_BytesFromInt32Be address)"

definition GG_Nip_Configure :: "bytes \<Rightarrow> 'e nip \<Rightarrow> 'e nip" where
  "GG_Nip_Configure address s =
     (let s = GG_Nip_Initialize s;
          st = (stack s)\<lparr>netif_address := GG_IpAddress_AsInteger address\<rparr>
      in s\<lparr>stack := st\<lparr>header_template := nip_template (netif_address st)\<rparr>\<rparr>)"

section \<open>Sending\<close>

text \<open>The packet: the template with its blanks filled in, and the payload.\<close>

definition nip_packet :: "bytes \<Rightarrow> u32 \<Rightarrow> u16 \<Rightarrow> u16 \<Rightarrow> u16 \<Rightarrow> bytes \<Rightarrow> bytes" where
  "nip_packet template dst_address identification src_port dst_port data =
     (let packet_size = length data + GG_NIP_IP_HEADER_SIZE + GG_NIP_UDP_HEADER_SIZE;
          header = memcpy_at template 16 (GG_BytesFromInt32Be dst_address);
          header = GG_NIP_SET_16 2 (of_nat packet_size) header;
          header = GG_NIP_SET_16 4 identification header;
          checksum = NOT (GG_Ipv4Checksum (take GG_NIP_IP_HEADER_SIZE header));
          header = GG_NIP_SET_16 10 checksum header;
          header = GG_NIP_SET_16 (20 + 0) src_port header;
          header = GG_NIP_SET_16 (20 + 2) dst_port header;
          header = GG_NIP_SET_16 (20 + 4) (of_nat (packet_size - GG_NIP_IP_HEADER_SIZE)) header
      in header @ data)"

definition GG_NipUdpEndpoint_PutData ::
  "'e nip_env \<Rightarrow> nat \<Rightarrow> bytes \<Rightarrow> GG_BufferMetadata option \<Rightarrow> 'e nip \<Rightarrow> GG_Result \<times> 'e nip" where
  "GG_NipUdpEndpoint_PutData E self data metadata s =
     (let sock = sockets s self;
          packet_size = length data + GG_NIP_IP_HEADER_SIZE + GG_NIP_UDP_HEADER_SIZE
      in if packet_size > GG_NIP_MAX_PACKET_SIZE then (GG_ERROR_INVALID_PARAMETERS, s)
         else case transport_sink (stack s) of
           None \<Rightarrow> (GG_ERROR_NETWORK_UNREACHABLE, s)
         | Some sink \<Rightarrow>
             let dst = (case metadata of
                     Some (GG_BUFFER_METADATA_TYPE_DESTINATION_SOCKET_ADDRESS a) \<Rightarrow>
                       if \<not> connected sock then a else remote_address sock
                   | _ \<Rightarrow> remote_address sock);
                 dst_address = GG_IpAddress_AsInteger (ip_address dst);
                 dst_port = ip_port dst
             in if dst_address = 0 \<or> dst_port = 0 then (GG_ERROR_INVALID_STATE, s)
                else
                  let identification = next_ip_identification (stack s);
                      s = s\<lparr>stack := (stack s)\<lparr>next_ip_identification := identification + 1\<rparr>\<rparr>;
                      packet = nip_packet (header_template (stack s)) dst_address identification
                        (ip_port (local_address sock)) (ip_port (remote_address sock)) data;
                      (result, e) = sink_put E sink packet None (world s)
                  in (result, s\<lparr>world := e\<rparr>))"

definition GG_NipUdpEndpoint_SetListener :: "nat \<Rightarrow> nat option \<Rightarrow> 'e nip \<Rightarrow> 'e nip" where
  "GG_NipUdpEndpoint_SetListener self l s = set_socket self ((sockets s self)\<lparr>data_sink_listener := l\<rparr>) s"

definition GG_NipUdpEndpoint_SetDataSink :: "nat \<Rightarrow> nat option \<Rightarrow> 'e nip \<Rightarrow> 'e nip" where
  "GG_NipUdpEndpoint_SetDataSink self sink s = set_socket self ((sockets s self)\<lparr>data_sink := sink\<rparr>) s"

definition GG_NipUdpEndpoint_Init ::
  "nat \<Rightarrow> GG_SocketAddress option \<Rightarrow> GG_SocketAddress option \<Rightarrow> bool \<Rightarrow> 'e nip \<Rightarrow> 'e nip" where
  "GG_NipUdpEndpoint_Init self local remote connect_to_remote s =
     set_socket self \<lparr>node_linked = False, data_sink = None, data_sink_listener = None,
       local_address = (case local of Some a \<Rightarrow> a | None \<Rightarrow> no_address),
       remote_address = (case remote of Some a \<Rightarrow> a | None \<Rightarrow> no_address),
       local_port_bound = False, connected = connect_to_remote\<rparr> s"

section \<open>Sockets\<close>

definition GG_Nip_UdpSrcPortInUse :: "u16 \<Rightarrow> 'e nip \<Rightarrow> bool" where
  "GG_Nip_UdpSrcPortInUse port s = list_ex (\<lambda>i. ip_port (local_address (sockets s i)) = port) (udp_endpoints (stack s))"

definition dynamic_port :: "nat \<Rightarrow> nat \<Rightarrow> u16" where
  "dynamic_port start i =
     of_nat (GG_NIP_UDP_DYNAMIC_PORT_RANGE_START + (start + i) mod GG_NIP_UDP_DYNAMIC_PORT_RANGE_SPAN)"

text \<open>The loop at iteration \<open>i\<close>, with \<open>n\<close> iterations left: the iteration that finds a free port.\<close>

fun find_port :: "'e nip \<Rightarrow> nat \<Rightarrow> nat \<Rightarrow> nat option" where
  "find_port s i 0 = None"
| "find_port s i (Suc n) =
     (if \<not> GG_Nip_UdpSrcPortInUse (dynamic_port (dynamic_port_scan_start (stack s)) i) s then Some i
      else find_port s (i + 1) n)"

definition link_socket :: "nat \<Rightarrow> 'e nip \<Rightarrow> 'e nip" where
  "link_socket i s = set_socket i ((sockets s i)\<lparr>node_linked := True\<rparr>)
     (s\<lparr>stack := (stack s)\<lparr>udp_endpoints := udp_endpoints (stack s) @ [i]\<rparr>\<rparr>)"

definition GG_Nip_AddUdpEndpoint :: "nat \<Rightarrow> 'e nip \<Rightarrow> GG_Result \<times> 'e nip" where
  "GG_Nip_AddUdpEndpoint i s =
     (let s = GG_Nip_Initialize s;
          sock = sockets s i
      in if node_linked sock then (GG_ERROR_INVALID_STATE, s)
         else
           let sock = (if GG_IpAddress_IsAny (ip_address (local_address sock))
                 then sock\<lparr>local_address := (local_address sock)\<lparr>ip_address :=
                        GG_IpAddress_SetFromInteger (netif_address (stack s))\<rparr>\<rparr>
                 else sock)
           in if ip_port (local_address sock) = 0 then
                let sock = sock\<lparr>local_port_bound := False\<rparr>
                in case find_port s 0 GG_NIP_UDP_DYNAMIC_PORT_RANGE_SPAN of
                     None \<Rightarrow> (GG_ERROR_OUT_OF_RESOURCES, set_socket i sock s)
                   | Some k \<Rightarrow>
                       let port = dynamic_port (dynamic_port_scan_start (stack s)) k;
                           sock = sock\<lparr>local_address := (local_address sock)\<lparr>ip_port := port\<rparr>\<rparr>;
                           s = s\<lparr>stack := (stack s)\<lparr>dynamic_port_scan_start :=
                                 (k + 1) mod GG_NIP_UDP_DYNAMIC_PORT_RANGE_SPAN\<rparr>\<rparr>
                       in (GG_SUCCESS, link_socket i (set_socket i sock s))
              else if GG_Nip_UdpSrcPortInUse (ip_port (local_address sock)) s
              then (GG_ERROR_ADDRESS_IN_USE, set_socket i sock s)
              else (GG_SUCCESS, link_socket i (set_socket i (sock\<lparr>local_port_bound := True\<rparr>) s)))"

text \<open>
  A node that is linked but not in the list, because the stack was initialized again since, would be unlinked from where its
  stale pointers lead: \<open>None\<close>.
\<close>

definition GG_Nip_RemoveEndpoint :: "nat \<Rightarrow> 'e nip \<Rightarrow> (GG_Result \<times> 'e nip) option" where
  "GG_Nip_RemoveEndpoint i s =
     (if \<not> node_linked (sockets s i) then Some (GG_ERROR_INVALID_STATE, s)
      else if i \<notin> set (udp_endpoints (stack s)) then None
      else Some (GG_SUCCESS, set_socket i ((sockets s i)\<lparr>node_linked := False\<rparr>)
        (s\<lparr>stack := (stack s)\<lparr>udp_endpoints := removeAll i (udp_endpoints (stack s))\<rparr>\<rparr>)))"

section \<open>Receiving\<close>

definition socket_accepts :: "'e nip \<Rightarrow> u16 \<Rightarrow> nat \<Rightarrow> bool" where
  "socket_accepts s dst_port i \<longleftrightarrow>
     \<not> local_port_bound (sockets s i) \<or> ip_port (local_address (sockets s i)) = dst_port"

definition GG_NipStack_OnUdpPacketReceived ::
  "'e nip_env \<Rightarrow> bytes \<Rightarrow> nat \<Rightarrow> nat \<Rightarrow> u32 \<Rightarrow> 'e nip \<Rightarrow> 'e nip option" where
  "GG_NipStack_OnUdpPacketReceived E packet packet_offset packet_size src_address s =
     (if packet_size < GG_NIP_UDP_HEADER_SIZE then Some s
      else if packet_offset + 6 > length packet then None
      else
        let udp_header = drop packet_offset packet
        in if unat (GG_NIP_GET_16 udp_header 4) \<noteq> packet_size then Some s
           else
             let src_port = GG_NIP_GET_16 udp_header 0;
                 dst_port = GG_NIP_GET_16 udp_header 2
             in Some (case List.find (socket_accepts s dst_port) (udp_endpoints (stack s)) of
                  None \<Rightarrow> s
                | Some i \<Rightarrow>
                    (case data_sink (sockets s i) of
                       None \<Rightarrow> s
                     | Some sink \<Rightarrow>
                         if packet_offset + packet_size > length packet then s
                         else
                           let payload = subarray packet (packet_offset + GG_NIP_UDP_HEADER_SIZE)
                                 (packet_size - GG_NIP_UDP_HEADER_SIZE);
                               metadata = GG_BUFFER_METADATA_TYPE_SOURCE_SOCKET_ADDRESS
                                 \<lparr>ip_address = GG_IpAddress_SetFromInteger src_address, ip_port = src_port\<rparr>
                           in s\<lparr>world := snd (sink_put E sink payload (Some metadata) (world s))\<rparr>)))"

text \<open>
  A version other than 4 is only logged. The difference of the sizes wraps when the header claims to be longer than the packet.
\<close>

definition GG_NipStack_PutData :: "'e nip_env \<Rightarrow> bytes \<Rightarrow> 'e nip \<Rightarrow> (GG_Result \<times> 'e nip) option" where
  "GG_NipStack_PutData E packet s =
     (let packet_size = length packet
      in if packet_size < GG_NIP_IP_HEADER_SIZE then Some (GG_SUCCESS, s)
         else
           let header_size = 4 * unat (packet ! 0 AND 0xF)
           in if header_size < GG_NIP_IP_HEADER_SIZE then Some (GG_SUCCESS, s)
              else if packet ! 9 \<noteq> GG_NIP_IP_PROTOCOL_UDP then Some (GG_SUCCESS, s)
              else if unat (GG_NIP_GET_16 packet 2) \<noteq> packet_size then Some (GG_SUCCESS, s)
              else if GG_BytesToInt32Be packet 16 \<noteq> netif_address (stack s) then Some (GG_SUCCESS, s)
              else map_option (Pair GG_SUCCESS)
                (GG_NipStack_OnUdpPacketReceived E packet header_size (size_t_of (int packet_size - int header_size))
                  (GG_BytesToInt32Be packet 12) s))"

definition GG_NipStack_OnCanPut :: "'e nip_env \<Rightarrow> 'e nip \<Rightarrow> 'e nip" where
  "GG_NipStack_OnCanPut E s =
     s\<lparr>world := fold (\<lambda>i e. case data_sink_listener (sockets s i) of None \<Rightarrow> e | Some l \<Rightarrow> listener_can_put E l e)
        (udp_endpoints (stack s)) (world s)\<rparr>"

definition GG_NipStack_SetDataSink :: "'e nip_env \<Rightarrow> nat option \<Rightarrow> 'e nip \<Rightarrow> 'e nip" where
  "GG_NipStack_SetDataSink E sink s =
     (let e = (case transport_sink (stack s) of None \<Rightarrow> world s | Some old \<Rightarrow> sink_set_listener E old False (world s));
          s = s\<lparr>stack := (stack s)\<lparr>transport_sink := sink\<rparr>\<rparr>
      in s\<lparr>world := (case sink of None \<Rightarrow> e | Some new \<Rightarrow> sink_set_listener E new True e)\<rparr>)"

end
