(* ===== verification/Nip_Props.thy ===== *)
theory Nip_Props
  imports Nip
begin

text \<open>
  Properties of the nano IP stack: the packets it sends are those of the IPv4 and UDP serializers and reach the socket of the peer
  they are meant for; no two sockets of a stack share a port.
\<close>

section \<open>Packets\<close>

definition nip_header :: "u32 \<Rightarrow> u32 \<Rightarrow> u16 \<Rightarrow> nat \<Rightarrow> GG_Ipv4PacketHeader" where
  "nip_header src dst identification size_of =
     \<lparr>ip_version = 4, ip_ihl = 5, ip_dscp = 0, ip_ecn = 0, ip_total_length = of_nat (size_of + 28),
      ip_identification = identification, ip_flags = 0, ip_fragment_offset = 0, ip_ttl = 0xFF, ip_protocol = 17,
      ip_checksum = 0, ip_src_address = src, ip_dst_address = dst, ip_options = []\<rparr>"

definition nip_udp_header :: "u16 \<Rightarrow> u16 \<Rightarrow> nat \<Rightarrow> GG_UdpPacketHeader" where
  "nip_udp_header src_port dst_port size_of =
     \<lparr>udp_src_port = src_port, udp_dst_port = dst_port, udp_length = of_nat (size_of + 8), udp_checksum = 0\<rparr>"

lemma nip_header_ok: "ip_header_ok (nip_header src dst ident n)"
  by (simp add: ip_header_ok_def nip_header_def)

lemma nip_packet_eq:
  "nip_packet (nip_template src) dst ident src_port dst_port data =
     header_bytes (nip_header src dst ident (length data))
       (NOT (GG_Ipv4Checksum (header_bytes (nip_header src dst ident (length data)) 0))) @
     GG_UdpPacketHeader_Serialize (nip_udp_header src_port dst_port (length data)) @ data"
  by (simp add: nip_packet_def nip_template_def GG_NipIpUdpHeaderPrototype_def memcpy_at_def GG_BytesFromInt32Be_def
      GG_NIP_SET_16_def header_bytes_def nip_header_def nip_udp_header_def GG_UdpPacketHeader_Serialize_def Let_def
      eval_nat_numeral)

lemma GET_16_eq: "GG_NIP_GET_16 data off = GG_BytesToInt16Be data off"
  by (simp add: GG_NIP_GET_16_def GG_BytesToInt16Be_def)

lemma unat_of_nat_u16: "n \<le> 65535 \<Longrightarrow> unat (of_nat n :: u16) = n"
  by (simp add: unat_of_nat)

lemma udp_fields:
  fixes u rest
  defines "p \<equiv> GG_UdpPacketHeader_Serialize u @ rest"
  shows "GG_BytesToInt16Be p 0 = udp_src_port u" "GG_BytesToInt16Be p 2 = udp_dst_port u"
    "GG_BytesToInt16Be p 4 = udp_length u" "drop 8 p = rest"
  unfolding p_def by (simp_all add: GG_BytesToInt16Be_def GG_UdpPacketHeader_Serialize_def be16_of_bytes)

definition port_of :: "'e nip \<Rightarrow> nat \<Rightarrow> u16" where
  "port_of s i = ip_port (local_address (sockets s i))"

text \<open>
  The socket that gets the datagrams for a port: it is not bound to another port, and all sockets before it in the list are.
\<close>

lemma nip_receive_packet:
  assumes "length data + 28 \<le> GG_NIP_MAX_PACKET_SIZE" and "netif_address (stack r) = dst"
    and eps: "udp_endpoints (stack r) = before @ j # after"
    and others: "\<forall>b \<in> set before. local_port_bound (sockets r b) \<and> port_of r b \<noteq> dst_port"
    and mine: "local_port_bound (sockets r j) \<longrightarrow> port_of r j = dst_port" and sink: "data_sink (sockets r j) = Some k"
  shows "GG_NipStack_PutData E (nip_packet (nip_template src) dst ident src_port dst_port data) r =
    Some (GG_SUCCESS, r\<lparr>world := snd (sink_put E k data (Some (GG_BUFFER_METADATA_TYPE_SOURCE_SOCKET_ADDRESS
      \<lparr>ip_address = GG_IpAddress_SetFromInteger src, ip_port = src_port\<rparr>)) (world r))\<rparr>)"
proof -
  define h where "h = nip_header src dst ident (length data)"
  define ck where "ck = NOT (GG_Ipv4Checksum (header_bytes h 0))"
  define u where "u = GG_UdpPacketHeader_Serialize (nip_udp_header src_port dst_port (length data)) @ data"
  define p where "p = header_bytes h ck @ u"
  note nth = header_bytes_nth [of h ck u, folded p_def]
  have len: "length (header_bytes h ck) = 20" "length u = length data + 8"
    using length_header_bytes [OF nip_header_ok] by (simp_all add: h_def nip_header_def u_def GG_UdpPacketHeader_Serialize_def)
  have first: "p ! 0 = 0x45" using nth(1) by (simp add: h_def nip_header_def)
  have fields: "p ! 9 = 17" "GG_BytesToInt16Be p 2 = of_nat (length data + 28)" "GG_BytesToInt32Be p 12 = src"
      "GG_BytesToInt32Be p 16 = dst" using nth by (simp_all add: h_def nip_header_def)
  have rest: "drop 20 p = u" using len(1) by (simp add: p_def)
  have payload: "subarray p 28 (length data) = data"
    using len udp_fields(4) [of "nip_udp_header src_port dst_port (length data)" data]
    by (simp add: p_def subarray_def u_def)
  have l: "length p = length data + 28" using len by (simp add: p_def)
  have total: "unat (GG_BytesToInt16Be p 2) = length data + 28" unfolding fields(2)
    using assms(1) by (intro unat_of_nat_u16) simp
  have udp: "GG_BytesToInt16Be u 0 = src_port" "GG_BytesToInt16Be u 2 = dst_port"
      "unat (GG_BytesToInt16Be u 4) = length data + 8"
    using assms(1) unat_of_nat_u16 [of "length data + 8"]
    by (simp_all only: u_def udp_fields nip_udp_header_def GG_UdpPacketHeader.simps) simp_all
  have "List.find (socket_accepts r dst_port) before = None"
    using others by (auto simp: find_None_iff socket_accepts_def port_of_def)
  then have found: "List.find (socket_accepts r dst_port) (udp_endpoints (stack r)) = Some j"
    using mine unfolding eps by (induction before) (auto simp: socket_accepts_def port_of_def split: if_splits)
  let ?r = "r\<lparr>world := snd (sink_put E k data (Some (GG_BUFFER_METADATA_TYPE_SOURCE_SOCKET_ADDRESS
      \<lparr>ip_address = GG_IpAddress_SetFromInteger src, ip_port = src_port\<rparr>)) (world r))\<rparr>"
  have "GG_NipStack_OnUdpPacketReceived E p 20 (length data + 8) src r = Some ?r"
    using udp l rest payload found sink
    by (simp add: GG_NipStack_OnUdpPacketReceived_def GET_16_eq Let_def)
  then have "GG_NipStack_PutData E p r = Some (GG_SUCCESS, ?r)"
    using first fields l total assms(1,2) by (simp add: GG_NipStack_PutData_def GET_16_eq Let_def nat_add_distrib add.commute [of 8])
  then show ?thesis by (simp only: nip_packet_eq p_def u_def ck_def h_def)
qed

section \<open>Ports\<close>

lemma PortInUse_iff: "GG_Nip_UdpSrcPortInUse port s \<longleftrightarrow> port \<in> port_of s ` set (udp_endpoints (stack s))"
  by (auto simp: GG_Nip_UdpSrcPortInUse_def list_ex_iff port_of_def)

lemma find_port_Some:
  "find_port s i n = Some k \<Longrightarrow> k < i + n \<and> \<not> GG_Nip_UdpSrcPortInUse (dynamic_port (dynamic_port_scan_start (stack s)) k) s"
  by (induction s i n rule: find_port.induct) (auto split: if_splits)

lemma find_port_None:
  "find_port s i n = None \<Longrightarrow> i \<le> k \<Longrightarrow> k < i + n \<Longrightarrow> GG_Nip_UdpSrcPortInUse (dynamic_port (dynamic_port_scan_start (stack s)) k) s"
proof (induction s i n rule: find_port.induct)
  case (2 s i n)
  then show ?case by (cases "k = i") (auto split: if_splits)
qed simp

lemma span_pos: "0 < GG_NIP_UDP_DYNAMIC_PORT_RANGE_SPAN" "GG_NIP_UDP_DYNAMIC_PORT_RANGE_SPAN = 0x3FFF"
  by (simp_all add: GG_NIP_UDP_DYNAMIC_PORT_RANGE_SPAN_def)

lemma unat_dynamic_port:
  "unat (dynamic_port start k) = 0xC000 + (start + k) mod GG_NIP_UDP_DYNAMIC_PORT_RANGE_SPAN"
  "0xC000 \<le> unat (dynamic_port start k)" "unat (dynamic_port start k) < 0xFFFF" "dynamic_port start k \<noteq> 0"
proof -
  have b: "(start + k) mod GG_NIP_UDP_DYNAMIC_PORT_RANGE_SPAN < 0x3FFF" using span_pos by simp
  then show e: "unat (dynamic_port start k) = 0xC000 + (start + k) mod GG_NIP_UDP_DYNAMIC_PORT_RANGE_SPAN"
    unfolding dynamic_port_def by (subst unat_of_nat_u16) simp_all
  show "0xC000 \<le> unat (dynamic_port start k)" "unat (dynamic_port start k) < 0xFFFF" using b unfolding e by simp_all
  then show "dynamic_port start k \<noteq> 0" by (metis not_numeral_le_zero unat_0)
qed

lemma add_mod_inject: "(a + k) mod m = (a + l) mod m \<Longrightarrow> k < m \<Longrightarrow> l < m \<Longrightarrow> k = (l :: nat)"
proof (induction k l rule: linorder_wlog)
  case (le k l)
  then have "m dvd l - k" using mod_eq_dvd_iff_nat [of "a + k" "a + l" m] by simp
  then show ?case using le by (auto dest: dvd_imp_le)
qed simp

lemma find_port_free:
  assumes "length (udp_endpoints (stack s)) < GG_NIP_UDP_DYNAMIC_PORT_RANGE_SPAN"
  shows "\<exists>k. find_port s 0 GG_NIP_UDP_DYNAMIC_PORT_RANGE_SPAN = Some k"
proof (rule ccontr)
  let ?port = "dynamic_port (dynamic_port_scan_start (stack s))" and ?n = GG_NIP_UDP_DYNAMIC_PORT_RANGE_SPAN
  assume "\<not> ?thesis"
  then have "find_port s 0 ?n = None" by auto
  then have "?port ` {..<?n} \<subseteq> port_of s ` set (udp_endpoints (stack s))"
    using find_port_None [of s 0 ?n] by (auto simp: PortInUse_iff)
  then have "card (?port ` {..<?n}) \<le> card (port_of s ` set (udp_endpoints (stack s)))" by (intro card_mono) simp
  also have "\<dots> \<le> length (udp_endpoints (stack s))"
    using card_image_le [of "set (udp_endpoints (stack s))" "port_of s"] card_length [of "udp_endpoints (stack s)"] by simp
  finally have "card (?port ` {..<?n}) < ?n" using assms by simp
  moreover have "inj_on ?port {..<?n}"
    by (rule inj_onI) (metis add_left_cancel add_mod_inject lessThan_iff unat_dynamic_port(1))
  ultimately show False by (simp add: card_image)
qed

section \<open>Executions\<close>

definition nip_inv :: "'e nip \<Rightarrow> bool" where
  "nip_inv s \<longleftrightarrow> distinct (udp_endpoints (stack s)) \<and> distinct (map (port_of s) (udp_endpoints (stack s))) \<and>
     (\<forall>i \<in> set (udp_endpoints (stack s)). port_of s i \<noteq> 0) \<and>
     (\<forall>i. node_linked (sockets s i) \<longleftrightarrow> i \<in> set (udp_endpoints (stack s))) \<and>
     (\<not> initialized (stack s) \<longrightarrow> udp_endpoints (stack s) = [])"

text \<open>
  The calls a program makes. A socket is not initialized while it is in the list, and the stack is terminated when its sockets
  were removed.
\<close>

inductive nip_step :: "'e nip_env \<Rightarrow> 'e nip \<Rightarrow> 'e nip \<Rightarrow> bool" for E where
  Configure: "nip_step E s (GG_Nip_Configure address s)"
| Terminate: "udp_endpoints (stack s) = [] \<Longrightarrow> nip_step E s (GG_Nip_Terminate s)"
| Init: "\<not> node_linked (sockets s i) \<Longrightarrow> nip_step E s (GG_NipUdpEndpoint_Init i la ra c s)"
| Add: "GG_Nip_AddUdpEndpoint i s = (r, s') \<Longrightarrow> nip_step E s s'"
| Remove: "GG_Nip_RemoveEndpoint i s = Some (r, s') \<Longrightarrow> nip_step E s s'"
| Socket_listener: "nip_step E s (GG_NipUdpEndpoint_SetListener i l s)"
| Socket_sink: "nip_step E s (GG_NipUdpEndpoint_SetDataSink i k s)"
| Stack_sink: "nip_step E s (GG_NipStack_SetDataSink E k s)"
| Can_put: "nip_step E s (GG_NipStack_OnCanPut E s)"
| Send: "GG_NipUdpEndpoint_PutData E i data metadata s = (r, s') \<Longrightarrow> nip_step E s s'"
| Receive: "GG_NipStack_PutData E packet s = Some (r, s') \<Longrightarrow> nip_step E s s'"

inductive nip_reachable :: "'e nip_env \<Rightarrow> 'e nip \<Rightarrow> bool" for E where
  Start: "\<not> initialized (stack s) \<Longrightarrow> udp_endpoints (stack s) = [] \<Longrightarrow> \<forall>i. \<not> node_linked (sockets s i) \<Longrightarrow> nip_reachable E s"
| Step: "nip_reachable E s \<Longrightarrow> nip_step E s s' \<Longrightarrow> nip_reachable E s'"

text \<open>Steps that change neither the list nor what it holds keep the invariant.\<close>

lemma nip_inv_cong:
  assumes "nip_inv s" and "udp_endpoints (stack s') = udp_endpoints (stack s)"
    and "\<And>i. node_linked (sockets s' i) = node_linked (sockets s i)"
    and "\<And>i. i \<in> set (udp_endpoints (stack s)) \<Longrightarrow> port_of s' i = port_of s i"
    and "initialized (stack s') = initialized (stack s) \<or> initialized (stack s') \<or> udp_endpoints (stack s) = []"
  shows "nip_inv s'"
proof -
  have "distinct (map (port_of s') (udp_endpoints (stack s)))" using assms(1,4) by (simp add: nip_inv_def cong: map_cong)
  with assms show ?thesis unfolding nip_inv_def by auto
qed

lemma nip_inv_Initialize: "nip_inv s \<Longrightarrow> nip_inv (GG_Nip_Initialize s) \<and>
    udp_endpoints (stack (GG_Nip_Initialize s)) = udp_endpoints (stack s) \<and> sockets (GG_Nip_Initialize s) = sockets s \<and>
    initialized (stack (GG_Nip_Initialize s))"
  by (auto simp: GG_Nip_Initialize_def nip_inv_def port_of_def)

lemma nip_inv_set_unlinked:
  assumes "nip_inv s" and "\<not> node_linked (sockets s i)" and "\<not> node_linked sock"
  shows "nip_inv (set_socket i sock s)"
  using assms by (intro nip_inv_cong [OF assms(1)]) (auto simp: set_socket_def port_of_def nip_inv_def)

lemma nip_inv_link:
  assumes "nip_inv s" and "\<not> node_linked (sockets s i)" and "port_of s i \<notin> port_of s ` set (udp_endpoints (stack s))"
    and "port_of s i \<noteq> 0" and "initialized (stack s)"
  shows "nip_inv (link_socket i s)"
proof -
  have "port_of (link_socket i s) = port_of s" by (auto simp: link_socket_def set_socket_def port_of_def)
  then show ?thesis using assms by (auto simp: nip_inv_def link_socket_def set_socket_def)
qed

lemma nip_inv_Add:
  assumes inv: "nip_inv s" and add: "GG_Nip_AddUdpEndpoint i s = (r, s')"
  shows "nip_inv s'"
proof -
  define t where "t = GG_Nip_Initialize s"
  have t: "nip_inv t" "initialized (stack t)" using nip_inv_Initialize [OF inv] by (simp_all add: t_def)
  have linked: "nip_inv (link_socket i (set_socket i sock u))"
    if "\<not> node_linked (sockets t i)" "\<not> node_linked sock" "nip_inv u" "sockets u = sockets t" "initialized (stack u)"
      "udp_endpoints (stack u) = udp_endpoints (stack t)"
      "\<not> GG_Nip_UdpSrcPortInUse (ip_port (local_address sock)) t" "ip_port (local_address sock) \<noteq> 0" for sock u
  proof (rule nip_inv_link)
    have "i \<notin> set (udp_endpoints (stack t))" using t(1) that(1) by (auto simp: nip_inv_def)
    then have "port_of (set_socket i sock u) ` set (udp_endpoints (stack t)) = port_of t ` set (udp_endpoints (stack t))"
      using that(4) by (intro image_cong) (auto simp: set_socket_def port_of_def)
    then show "port_of (set_socket i sock u) i \<notin>
        port_of (set_socket i sock u) ` set (udp_endpoints (stack (set_socket i sock u)))"
      using that(6,7) by (simp add: PortInUse_iff set_socket_def port_of_def)
  qed (use that nip_inv_set_unlinked [of u i sock] in \<open>auto simp: set_socket_def port_of_def\<close>)
  have scan: "nip_inv (u\<lparr>stack := (stack u)\<lparr>dynamic_port_scan_start := n\<rparr>\<rparr>)" if "nip_inv u" for u :: "'e nip" and n
    using that by (intro nip_inv_cong [OF that]) (auto simp: port_of_def)
  show ?thesis
  proof (cases "node_linked (sockets t i)")
    case True
    then show ?thesis using add t(1) by (simp add: GG_Nip_AddUdpEndpoint_def Let_def flip: t_def)
  next
    case False
    then show ?thesis
      using add t nip_inv_set_unlinked [OF t(1) False]
      by (auto simp: GG_Nip_AddUdpEndpoint_def Let_def simp flip: t_def split: if_splits option.splits
          intro!: linked scan dest: find_port_Some simp: unat_dynamic_port)
  qed
qed

lemma nip_inv_step: "nip_step E s s' \<Longrightarrow> nip_inv s \<Longrightarrow> nip_inv s'"
proof (induction rule: nip_step.induct)
  case (Configure s address)
  have "nip_inv (GG_Nip_Initialize s)" using nip_inv_Initialize [OF Configure] by blast
  then show ?case by (rule nip_inv_cong) (auto simp: GG_Nip_Configure_def Let_def port_of_def)
next
  case (Terminate s)
  then show ?case by (intro nip_inv_cong [OF Terminate(2)]) (auto simp: GG_Nip_Terminate_def port_of_def)
next
  case (Init s i la ra c)
  then show ?case by (simp add: GG_NipUdpEndpoint_Init_def nip_inv_set_unlinked)
next
  case (Add i s r s')
  then show ?case using nip_inv_Add by blast
next
  case (Remove i s r s')
  then show ?case
    by (auto simp: GG_Nip_RemoveEndpoint_def nip_inv_def set_socket_def port_of_def distinct_map inj_on_def distinct_removeAll
        split: if_splits)
next
  case (Receive packet s r s')
  then obtain e where "s' = s\<lparr>world := e\<rparr>"
    by (cases s) (auto simp: GG_NipStack_PutData_def GG_NipStack_OnUdpPacketReceived_def Let_def split: if_splits option.splits)
  then show ?case by (intro nip_inv_cong [OF Receive(2)]) (auto simp: port_of_def)
qed (rule nip_inv_cong [of s for s]; auto simp: port_of_def set_socket_def GG_NipUdpEndpoint_SetListener_def
    GG_NipUdpEndpoint_SetDataSink_def GG_NipStack_SetDataSink_def GG_NipStack_OnCanPut_def GG_NipUdpEndpoint_PutData_def
    Let_def split: if_splits option.splits prod.splits)+

lemma nip_reachable_inv: "nip_reachable E s \<Longrightarrow> nip_inv s"
proof (induction rule: nip_reachable.induct)
  case (Start s)
  then show ?case by (simp add: nip_inv_def)
qed (rule nip_inv_step)

section \<open>Properties\<close>

text \<open>A stack whose network interface was configured: it has the header template of its address.\<close>

definition nip_configured :: "'e nip \<Rightarrow> bool" where
  "nip_configured s \<longleftrightarrow> initialized (stack s) \<and> header_template (stack s) = nip_template (netif_address (stack s))"

lemma nip_configured_Configure: "nip_configured (GG_Nip_Configure address s)"
  by (simp add: nip_configured_def GG_Nip_Configure_def GG_Nip_Initialize_def Let_def)

text \<open>
  C35: UDP datagrams reach their destination. A socket of a configured stack that sends to its remote address hands one packet to the
  transport: an IPv4 header with a valid checksum, from the address of the interface, and a UDP header, as the serializers
  of the IPv4 module write them, and the payload. In the stack with that address the packet belongs to the first socket \<open>j\<close> in the order in which
  they were added that is bound to the port or to none. When that socket is not connected, or is connected to the address and port of the sender, the
  stack, given the packet, puts exactly the payload on the sink of that socket, together with the address and the port of the
  sender, and does nothing else.
\<close>

theorem nip_datagram_delivered:
  assumes "nip_configured s" and "transport_sink (stack s) = Some t" and "length data + 28 \<le> GG_NIP_MAX_PACKET_SIZE"
    and "connected (sockets s i) \<or> metadata = None"
    and "dst = GG_IpAddress_AsInteger (ip_address (remote_address (sockets s i)))" and "dst \<noteq> 0"
    and "port = ip_port (remote_address (sockets s i))" and "port \<noteq> 0"
    and "netif_address (stack r) = dst"
    and "udp_endpoints (stack r) = before @ j # after"
    and "\<forall>b \<in> set before. local_port_bound (sockets r b) \<and> port_of r b \<noteq> port"
    and "local_port_bound (sockets r j) \<longrightarrow> port_of r j = port" and "data_sink (sockets r j) = Some k"
    and "source = \<lparr>ip_address = GG_IpAddress_SetFromInteger (netif_address (stack s)), ip_port = port_of s i\<rparr>"
    and "connected (sockets r j) \<longrightarrow> remote_address (sockets r j) = source"
  shows "\<exists>packet hdr ip udp.
    GG_NipUdpEndpoint_PutData E i data metadata s =
      (let (result, e) = sink_put E t packet None (world s)
       in (result, s\<lparr>stack := (stack s)\<lparr>next_ip_identification := next_ip_identification (stack s) + 1\<rparr>, world := e\<rparr>)) \<and>
    packet = hdr @ GG_UdpPacketHeader_Serialize udp @ data \<and>
    GG_Ipv4PacketHeader_Serialize ip 20 True = Inr hdr \<and> GG_Ipv4Checksum hdr = 0xFFFF \<and>
    ip_src_address ip = netif_address (stack s) \<and> ip_dst_address ip = dst \<and> unat (ip_total_length ip) = length packet \<and>
    udp_src_port udp = port_of s i \<and> udp_dst_port udp = port \<and>
    GG_NipStack_PutData E' packet r = Some (GG_SUCCESS,
      r\<lparr>world := snd (sink_put E' k data (Some (GG_BUFFER_METADATA_TYPE_SOURCE_SOCKET_ADDRESS source)) (world r))\<rparr>)"
proof -
  let ?src = "netif_address (stack s)" and ?sp = "port_of s i"
  define ip where "ip = nip_header ?src dst (next_ip_identification (stack s)) (length data)"
  define udp where "udp = nip_udp_header ?sp port (length data)"
  define hdr where "hdr = header_bytes ip (NOT (GG_Ipv4Checksum (header_bytes ip 0)))"
  let ?packet = "nip_packet (nip_template ?src) dst (next_ip_identification (stack s)) ?sp port data"
  have packet: "?packet = hdr @ GG_UdpPacketHeader_Serialize udp @ data"
    by (simp add: nip_packet_eq hdr_def ip_def udp_def)
  have put: "GG_NipUdpEndpoint_PutData E i data metadata s =
      (let (result, e) = sink_put E t ?packet None (world s)
       in (result, s\<lparr>stack := (stack s)\<lparr>next_ip_identification := next_ip_identification (stack s) + 1\<rparr>, world := e\<rparr>))"
    using assms(1-8)
    by (auto simp: GG_NipUdpEndpoint_PutData_def nip_configured_def Let_def port_of_def split: option.split GG_BufferMetadata.split)
  have hdr: "GG_Ipv4PacketHeader_Serialize ip 20 True = Inr hdr" "GG_Ipv4Checksum hdr = 0xFFFF" "length hdr = 20"
    using Checksum_header [of ip] length_header_bytes [of ip] nip_header_ok [of ?src dst]
    by (simp_all add: ip_def hdr_def GG_Ipv4PacketHeader_Serialize_def nip_header_def)
  have "unat (ip_total_length ip) = length ?packet"
    using hdr(3) unat_of_nat_u16 [of "length data + 28"] assms(3) unfolding packet
    by (simp add: ip_def nip_header_def GG_UdpPacketHeader_Serialize_def)
  moreover note nip_receive_packet [OF assms(3,9-13), of E' ?src "next_ip_identification (stack s)" ?sp, folded assms(14)]
  moreover have "ip_src_address ip = ?src" "ip_dst_address ip = dst" "udp_src_port udp = ?sp" "udp_dst_port udp = port"
    by (simp_all add: ip_def udp_def nip_header_def nip_udp_header_def)
  ultimately show ?thesis using put packet hdr
    by (intro exI [of _ ?packet] exI [of _ hdr] exI [of _ ip] exI [of _ udp]) blast
qed

text \<open>
  C36: In every state that calls of the stack can reach, no two sockets in use share a port and none has port 0, and removing a
  socket always works. A socket without a port gets one from 49152 to 65534 that no other uses, as long as fewer than
  16383 sockets are in use.
\<close>

theorem nip_ports_unique:
  assumes "nip_reachable E s"
  shows "distinct (map (port_of s) (udp_endpoints (stack s))) \<and> 0 \<notin> port_of s ` set (udp_endpoints (stack s)) \<and>
    GG_Nip_RemoveEndpoint j s \<noteq> None \<and>
    (\<not> node_linked (sockets s i) \<and> port_of s i = 0 \<and>
       length (udp_endpoints (stack s)) < GG_NIP_UDP_DYNAMIC_PORT_RANGE_SPAN \<longrightarrow>
     (\<exists>s'. GG_Nip_AddUdpEndpoint i s = (GG_SUCCESS, s') \<and> udp_endpoints (stack s') = udp_endpoints (stack s) @ [i] \<and>
        0xC000 \<le> unat (port_of s' i) \<and> unat (port_of s' i) < 0xFFFF \<and>
        port_of s' i \<notin> port_of s ` set (udp_endpoints (stack s))))"
proof -
  have inv: "nip_inv s" by (rule nip_reachable_inv [OF assms])
  define t where "t = GG_Nip_Initialize s"
  have t: "udp_endpoints (stack t) = udp_endpoints (stack s)" "sockets t = sockets s"
    using nip_inv_Initialize [OF inv] by (simp_all add: t_def)
  have add: "\<exists>s'. GG_Nip_AddUdpEndpoint i s = (GG_SUCCESS, s') \<and> udp_endpoints (stack s') = udp_endpoints (stack s) @ [i] \<and>
        0xC000 \<le> unat (port_of s' i) \<and> unat (port_of s' i) < 0xFFFF \<and>
        port_of s' i \<notin> port_of s ` set (udp_endpoints (stack s))"
    if c: "\<not> node_linked (sockets s i)" "port_of s i = 0"
      "length (udp_endpoints (stack s)) < GG_NIP_UDP_DYNAMIC_PORT_RANGE_SPAN"
  proof -
    obtain k where k: "find_port t 0 GG_NIP_UDP_DYNAMIC_PORT_RANGE_SPAN = Some k"
      using find_port_free [of t] c(3) t by auto
    have "port_of t = port_of s" using t(2) by (auto simp: port_of_def)
    with find_port_Some [OF k]
    have "dynamic_port (dynamic_port_scan_start (stack t)) k \<notin> port_of s ` set (udp_endpoints (stack s))"
      by (simp add: PortInUse_iff t)
    with k c t unat_dynamic_port [of "dynamic_port_scan_start (stack t)" k] show ?thesis
      by (simp add: GG_Nip_AddUdpEndpoint_def Let_def link_socket_def set_socket_def port_of_def flip: t_def)
  qed
  have "GG_Nip_RemoveEndpoint j s \<noteq> None" using inv by (simp add: GG_Nip_RemoveEndpoint_def nip_inv_def)
  with inv add show ?thesis by (auto simp: nip_inv_def)
qed

text \<open>A stack on address 10.0.0.1 with a socket that is connected to port 5683 of address 10.0.0.2.\<close>

definition example_nip :: "(nat \<times> bytes) list nip" where
  "example_nip = GG_NipUdpEndpoint_Init 0 None (Some \<lparr>ip_address = [10, 0, 0, 2], ip_port = 5683\<rparr>) True
     (GG_Nip_Configure [10, 0, 0, 1]
       \<lparr>stack = \<lparr>initialized = False, udp_endpoints = [], header_template = [], dynamic_port_scan_start = 0,
           next_ip_identification = 0, netif_address = 0, transport_sink = Some 7\<rparr>,
        sockets = (\<lambda>i. \<lparr>node_linked = False, data_sink = None, data_sink_listener = None, local_address = no_address,
           remote_address = no_address, local_port_bound = False, connected = False\<rparr>), world = []\<rparr>)"

definition example_env :: "(nat \<times> bytes) list nip_env" where
  "example_env = \<lparr>sink_put = (\<lambda>k data md e. (GG_SUCCESS, e @ [(k, data)])), sink_set_listener = (\<lambda>k b e. e),
     listener_can_put = (\<lambda>k e. e)\<rparr>"

text \<open>The stack on address 10.0.0.2 with two sockets bound to ports 80 and 5683.\<close>

definition example_peer :: "(nat \<times> bytes) list nip" where
  "example_peer = (let socket = \<lambda>port k. \<lparr>node_linked = True, data_sink = Some k, data_sink_listener = None,
       local_address = \<lparr>ip_address = [0, 0, 0, 0], ip_port = port\<rparr>, remote_address = no_address,
       local_port_bound = True, connected = False\<rparr>
     in \<lparr>stack = \<lparr>initialized = True, udp_endpoints = [0, 1], header_template = [], dynamic_port_scan_start = 0,
         next_ip_identification = 0, netif_address = 0x0A000002, transport_sink = None\<rparr>,
       sockets = (\<lambda>i. if i = 0 then socket 80 3 else socket 5683 4), world = []\<rparr>)"

theorem nip_datagram_delivered_witness:
  "\<exists>packet r. world (snd (GG_NipUdpEndpoint_PutData example_env 0 [1, 2, 3] None example_nip)) = [(7, packet)] \<and>
    GG_NipStack_PutData example_env packet example_peer = Some (GG_SUCCESS, r) \<and> world r = [(4, [1, 2, 3])]"
proof -
  have c: "nip_configured example_nip"
    by (simp add: example_nip_def nip_configured_def GG_NipUdpEndpoint_Init_def GG_Nip_Configure_def GG_Nip_Initialize_def
        set_socket_def Let_def)
  have n: "transport_sink (stack example_nip) = Some 7" "remote_address (sockets example_nip 0) = \<lparr>ip_address = [10, 0, 0, 2], ip_port = 5683\<rparr>"
    "world example_nip = []"
    by (simp_all add: example_nip_def GG_NipUdpEndpoint_Init_def GG_Nip_Configure_def GG_Nip_Initialize_def set_socket_def Let_def)
  have p: "netif_address (stack example_peer) = 0x0A000002" "udp_endpoints (stack example_peer) = [0] @ 1 # []"
    "local_port_bound (sockets example_peer i)" "port_of example_peer 0 = 80" "port_of example_peer 1 = 5683"
    "data_sink (sockets example_peer 1) = Some 4" "\<not> connected (sockets example_peer i)" "world example_peer = []" for i
    by (simp_all add: example_peer_def port_of_def Let_def)
  have d: "GG_IpAddress_AsInteger [10, 0, 0, 2] = 0x0A000002"
    by (simp add: GG_IpAddress_AsInteger_def GG_BytesToInt32Be_def)
  let ?source = "\<lparr>ip_address = GG_IpAddress_SetFromInteger (netif_address (stack example_nip)), ip_port = port_of example_nip 0\<rparr>"
  have q: "\<forall>b \<in> set [0]. local_port_bound (sockets example_peer b) \<and> port_of example_peer b \<noteq> 5683"
    "local_port_bound (sockets example_peer 1) \<longrightarrow> port_of example_peer 1 = 5683"
    "connected (sockets example_peer 1) \<longrightarrow> remote_address (sockets example_peer 1) = ?source"
    "0x0A000002 = GG_IpAddress_AsInteger (ip_address (remote_address (sockets example_nip 0)))"
    "5683 = ip_port (remote_address (sockets example_nip 0))" "connected (sockets example_nip 0) \<or> None = None"
    "length [1 :: u8, 2, 3] + 28 \<le> GG_NIP_MAX_PACKET_SIZE"
    using p(3-5,7) n(2) d by simp_all
  from nip_datagram_delivered [OF c n(1) q(7,6,4) _ q(5) _ p(1,2) q(1,2) p(6) refl q(3), of example_env example_env]
  obtain packet where "GG_NipUdpEndpoint_PutData example_env 0 [1, 2, 3] None example_nip =
      (let (result, e) = sink_put example_env 7 packet None (world example_nip)
       in (result, example_nip\<lparr>stack := (stack example_nip)\<lparr>next_ip_identification :=
         next_ip_identification (stack example_nip) + 1\<rparr>, world := e\<rparr>))"
    "GG_NipStack_PutData example_env packet example_peer = Some (GG_SUCCESS, example_peer\<lparr>world := snd (sink_put example_env 4 [1, 2, 3]
      (Some (GG_BUFFER_METADATA_TYPE_SOURCE_SOCKET_ADDRESS ?source)) (world example_peer))\<rparr>)" by auto
  then show ?thesis using n(3) p(8) by (simp add: example_env_def)
qed

theorem nip_ports_unique_witness:
  "\<exists>s'. GG_Nip_AddUdpEndpoint 0 example_nip = (GG_SUCCESS, s') \<and> 0xC000 \<le> unat (port_of s' 0)"
proof -
  have "nip_reachable example_env example_nip"
    unfolding example_nip_def
    by (rule nip_reachable.Step [OF nip_reachable.Step [OF nip_reachable.Start nip_step.Configure] nip_step.Init])
      (simp_all add: GG_Nip_Configure_def GG_Nip_Initialize_def Let_def)
  from nip_ports_unique [OF this, of 0 0] show ?thesis
    by (simp add: example_nip_def GG_NipUdpEndpoint_Init_def GG_Nip_Configure_def GG_Nip_Initialize_def set_socket_def
        port_of_def no_address_def span_pos Let_def) blast
qed

section \<open>Faults\<close>

text \<open>The destination port in the metadata of a datagram does not reach the UDP header.\<close>

lemma nip_metadata_port_ignored:
  assumes "transport_sink (stack s) = Some t" and "length data + 28 \<le> GG_NIP_MAX_PACKET_SIZE" and "\<not> connected (sockets s i)"
    and "GG_IpAddress_AsInteger a \<noteq> 0" and "p \<noteq> 0" and "q \<noteq> 0"
  shows "GG_NipUdpEndpoint_PutData E i data
      (Some (GG_BUFFER_METADATA_TYPE_DESTINATION_SOCKET_ADDRESS \<lparr>ip_address = a, ip_port = p\<rparr>)) s =
    GG_NipUdpEndpoint_PutData E i data
      (Some (GG_BUFFER_METADATA_TYPE_DESTINATION_SOCKET_ADDRESS \<lparr>ip_address = a, ip_port = q\<rparr>)) s"
  using assms by (simp add: GG_NipUdpEndpoint_PutData_def Let_def)

text \<open>A socket that is connected to one remote address receives the datagrams of every other sender too.\<close>

lemma nip_connected_not_checked:
  assumes "length data + 28 \<le> GG_NIP_MAX_PACKET_SIZE" and "netif_address (stack r) = dst" and "udp_endpoints (stack r) = [j]"
    and "port_of r j = port" and "data_sink (sockets r j) = Some k" and "connected (sockets r j)"
    and "remote_address (sockets r j) \<noteq> \<lparr>ip_address = GG_IpAddress_SetFromInteger src, ip_port = src_port\<rparr>"
  shows "GG_NipStack_PutData E (nip_packet (nip_template src) dst ident src_port port data) r =
    Some (GG_SUCCESS, r\<lparr>world := snd (sink_put E k data (Some (GG_BUFFER_METADATA_TYPE_SOURCE_SOCKET_ADDRESS
      \<lparr>ip_address = GG_IpAddress_SetFromInteger src, ip_port = src_port\<rparr>)) (world r))\<rparr>)"
  using assms(3,4,5) by (intro nip_receive_packet [OF assms(1,2), of "[]"]) simp_all

text \<open>A packet of 20 bytes whose header claims to be longer makes the stack read past its end.\<close>

lemma nip_long_header_overrun:
  assumes "netif_address (stack s) = 0"
  shows "GG_NipStack_PutData E [0x4F, 0, 0, 20, 0, 0, 0, 0, 0, 17, 0, 0, 0, 0, 0, 0, 0, 0, 0, 0] s = None"
  using assms by (simp add: GG_NipStack_PutData_def GG_NIP_GET_16_def GG_BytesToInt32Be_def Let_def
      GG_NipStack_OnUdpPacketReceived_def size_t_of_def)

end
