(* ===== verification/Strings.thy ===== *)
theory Strings
  imports Codecs "HOL-Library.Sublist"
begin

text \<open>
  The strings of \<^verbatim>\<open>xp/common/gg_strings.c\<close>: a string is null, or the characters of a heap buffer with a length and a capacity, followed
  by a null character. A \<^verbatim>\<open>const char*\<close> argument is the memory it points to, or \<open>None\<close> for a null pointer; it does not
  point into the string that is changed. \<open>junk\<close> is the content of new memory. Sizes stay below half the address space, and
  memory is assumed not to run out.
\<close>

definition cstr :: "bytes \<Rightarrow> bytes" where
  "cstr mem = takeWhile (\<lambda>c. c \<noteq> 0) mem"

definition strlen :: "bytes \<Rightarrow> nat" where
  "strlen mem = length (cstr mem)"

record GG_StringBuffer =
  sb_length :: nat
  sb_allocated :: nat
  sb_chars :: bytes

type_synonym GG_String = "GG_StringBuffer option"

definition GG_STRINGS_WHITESPACE_CHARS :: bytes where
  "GG_STRINGS_WHITESPACE_CHARS = [0x0D, 0x0A, 0x09, 0x20, 0]"

definition GG_UPPERCASE :: "u8 \<Rightarrow> u8" where
  "GG_UPPERCASE x = (if 0x61 \<le> x \<and> x \<le> 0x7A then x AND 0xDF else x)"

definition GG_LOWERCASE :: "u8 \<Rightarrow> u8" where
  "GG_LOWERCASE x = (if 0x41 \<le> x \<and> x \<le> 0x5A then x XOR 32 else x)"

section \<open>Buffers\<close>

definition GG_StringBuffer_Allocate :: "(nat \<Rightarrow> u8) \<Rightarrow> nat \<Rightarrow> nat \<Rightarrow> GG_StringBuffer" where
  "GG_StringBuffer_Allocate junk allocated n =
     \<lparr>sb_length = n, sb_allocated = allocated, sb_chars = map junk [0..<allocated + 1]\<rparr>"

definition GG_StringBuffer_Create :: "(nat \<Rightarrow> u8) \<Rightarrow> nat \<Rightarrow> GG_StringBuffer" where
  "GG_StringBuffer_Create junk n = GG_StringBuffer_Allocate junk n n"

definition GG_StringBuffer_CreateFromString :: "(nat \<Rightarrow> u8) \<Rightarrow> bytes \<Rightarrow> GG_StringBuffer" where
  "GG_StringBuffer_CreateFromString junk str =
     (let b = GG_StringBuffer_Allocate junk (strlen str) (strlen str)
      in b\<lparr>sb_chars := memcpy_at (sb_chars b) 0 (take (strlen str + 1) str)\<rparr>)"

definition GG_StringBuffer_CreateFromStringN :: "(nat \<Rightarrow> u8) \<Rightarrow> bytes \<Rightarrow> nat \<Rightarrow> GG_StringBuffer" where
  "GG_StringBuffer_CreateFromStringN junk str n =
     (let b = GG_StringBuffer_Allocate junk n n
      in b\<lparr>sb_chars := (memcpy_at (sb_chars b) 0 (take n str))[n := 0]\<rparr>)"

definition GG_String_GetLength :: "GG_String \<Rightarrow> nat" where
  "GG_String_GetLength self = (case self of None \<Rightarrow> 0 | Some b \<Rightarrow> sb_length b)"

definition GG_String_GetChars :: "GG_String \<Rightarrow> bytes" where
  "GG_String_GetChars self = (case self of None \<Rightarrow> [0] | Some b \<Rightarrow> sb_chars b)"

section \<open>Creation and assignment\<close>

definition GG_String_Create :: "(nat \<Rightarrow> u8) \<Rightarrow> bytes option \<Rightarrow> GG_String" where
  "GG_String_Create junk str =
     (case str of
        None \<Rightarrow> None
      | Some s \<Rightarrow> if s ! 0 = 0 then None else Some (GG_StringBuffer_CreateFromString junk s))"

text \<open>The loop that measures the substring.\<close>

fun substring_length :: "bytes \<Rightarrow> nat \<Rightarrow> nat \<Rightarrow> nat" where
  "substring_length [] k n = k"
| "substring_length (c # src) k n = (if c = 0 then k else if k + 1 \<ge> n then k + 1 else substring_length src (k + 1) n)"

definition GG_String_CreateFromSubString :: "(nat \<Rightarrow> u8) \<Rightarrow> bytes option \<Rightarrow> nat \<Rightarrow> nat \<Rightarrow> GG_String" where
  "GG_String_CreateFromSubString junk str first n =
     (case str of
        None \<Rightarrow> None
      | Some s \<Rightarrow>
          if n \<noteq> 0 \<and> first < strlen s then
            let str_length = substring_length (drop first s) 0 n
            in if str_length \<noteq> 0 then Some (GG_StringBuffer_CreateFromStringN junk (drop first s) str_length) else None
          else None)"

definition GG_String_Clone :: "(nat \<Rightarrow> u8) \<Rightarrow> GG_String \<Rightarrow> GG_String" where
  "GG_String_Clone junk self =
     (case self of
        None \<Rightarrow> None
      | Some s \<Rightarrow>
          let b = GG_StringBuffer_Create junk (GG_String_GetLength self)
          in Some (b\<lparr>sb_chars := memcpy_at (sb_chars b) 0 (take (GG_String_GetLength self + 1) (sb_chars s))\<rparr>))"

definition GG_String_PrepareToWrite :: "(nat \<Rightarrow> u8) \<Rightarrow> GG_String \<Rightarrow> nat \<Rightarrow> GG_StringBuffer" where
  "GG_String_PrepareToWrite junk self n =
     (case self of
        None \<Rightarrow> GG_StringBuffer_Allocate junk n n
      | Some b \<Rightarrow>
          if sb_allocated b < n
          then GG_StringBuffer_Allocate junk (if sb_allocated b * 2 > n then sb_allocated b * 2 else n) n
          else b\<lparr>sb_length := n\<rparr>)"

definition GG_String_Reserve :: "(nat \<Rightarrow> u8) \<Rightarrow> GG_String \<Rightarrow> nat \<Rightarrow> GG_StringBuffer" where
  "GG_String_Reserve junk self allocate =
     (case self of
        None \<Rightarrow>
          (let temp = GG_StringBuffer_Allocate junk allocate 0 in temp\<lparr>sb_chars := (sb_chars temp)[0 := 0]\<rparr>)
      | Some b \<Rightarrow>
          if sb_allocated b < allocate then
            let needed = (if sb_allocated b * 2 > allocate then sb_allocated b * 2 else allocate);
                temp = GG_StringBuffer_Allocate junk needed (sb_length b)
            in temp\<lparr>sb_chars := memcpy_at (sb_chars temp) 0 (take (sb_length b + 1) (sb_chars b))\<rparr>
          else b)"

definition GG_String_AssignN :: "(nat \<Rightarrow> u8) \<Rightarrow> GG_String \<Rightarrow> bytes option \<Rightarrow> nat \<Rightarrow> GG_String" where
  "GG_String_AssignN junk self str n =
     (case str of
        None \<Rightarrow> None
      | Some s \<Rightarrow>
          if n = 0 then None
          else let b = GG_String_PrepareToWrite junk self n
               in Some (b\<lparr>sb_chars := (memcpy_at (sb_chars b) 0 (take n s))[n := 0]\<rparr>))"

definition GG_String_Assign :: "(nat \<Rightarrow> u8) \<Rightarrow> GG_String \<Rightarrow> bytes option \<Rightarrow> GG_String" where
  "GG_String_Assign junk self str =
     (case str of None \<Rightarrow> None | Some s \<Rightarrow> GG_String_AssignN junk self str (strlen s))"

definition GG_String_Copy :: "(nat \<Rightarrow> u8) \<Rightarrow> GG_String \<Rightarrow> GG_String \<Rightarrow> GG_String" where
  "GG_String_Copy junk self str =
     (case str of
        None \<Rightarrow> None
      | Some s \<Rightarrow>
          if sb_length s = 0 then None
          else let b = GG_String_PrepareToWrite junk self (sb_length s)
               in Some (b\<lparr>sb_chars := memcpy_at (sb_chars b) 0 (take (sb_length s + 1) (sb_chars s))\<rparr>))"

definition GG_String_SetLength :: "GG_String \<Rightarrow> nat \<Rightarrow> GG_Result \<times> GG_String" where
  "GG_String_SetLength self n =
     (case self of
        None \<Rightarrow> (if n = 0 then GG_SUCCESS else GG_ERROR_INVALID_PARAMETERS, None)
      | Some b \<Rightarrow>
          if n \<le> sb_allocated b then (GG_SUCCESS, Some (b\<lparr>sb_length := n, sb_chars := (sb_chars b)[n := 0]\<rparr>))
          else (GG_ERROR_INVALID_PARAMETERS, self))"

definition GG_String_AppendSubString :: "(nat \<Rightarrow> u8) \<Rightarrow> GG_String \<Rightarrow> bytes option \<Rightarrow> nat \<Rightarrow> GG_String" where
  "GG_String_AppendSubString junk self str n =
     (case str of
        None \<Rightarrow> self
      | Some s \<Rightarrow>
          if n = 0 then self
          else
            let old_length = GG_String_GetLength self;
                new_length = old_length + n;
                b = GG_String_Reserve junk self new_length
            in Some (b\<lparr>sb_length := new_length,
                 sb_chars := (memcpy_at (sb_chars b) old_length (take n s))[new_length := 0]\<rparr>))"

definition GG_String_Append :: "(nat \<Rightarrow> u8) \<Rightarrow> GG_String \<Rightarrow> bytes option \<Rightarrow> GG_String" where
  "GG_String_Append junk self str =
     (case str of
        None \<Rightarrow> self
      | Some s \<Rightarrow> if s ! 0 = 0 then self else GG_String_AppendSubString junk self str (strlen s))"

definition GG_String_AppendChar :: "(nat \<Rightarrow> u8) \<Rightarrow> GG_String \<Rightarrow> u8 \<Rightarrow> GG_String" where
  "GG_String_AppendChar junk self c = GG_String_AppendSubString junk self (Some [c]) 1"

section \<open>Comparison and search\<close>

fun compare_loop :: "(u8 \<Rightarrow> u8) \<Rightarrow> bool \<Rightarrow> bytes \<Rightarrow> bytes \<Rightarrow> int" where
  "compare_loop f sg (a # r1) (b # r2) =
     (if f a = f b then if a = 0 then 0 else compare_loop f sg r1 r2
      else char_value sg (f a) - char_value sg (f b))"
| "compare_loop f sg _ _ = 0"

definition GG_String_Compare :: "bool \<Rightarrow> GG_String \<Rightarrow> bytes \<Rightarrow> bool \<Rightarrow> int" where
  "GG_String_Compare char_is_signed self s ignore_case =
     compare_loop (if ignore_case then GG_UPPERCASE else id) char_is_signed (GG_String_GetChars self) s"

definition GG_String_Equals :: "bool \<Rightarrow> GG_String \<Rightarrow> bytes \<Rightarrow> bool \<Rightarrow> bool" where
  "GG_String_Equals char_is_signed self s ignore_case \<longleftrightarrow> GG_String_Compare char_is_signed self s ignore_case = 0"

definition GG_String_SubString :: "(nat \<Rightarrow> u8) \<Rightarrow> GG_String \<Rightarrow> nat \<Rightarrow> nat \<Rightarrow> GG_String" where
  "GG_String_SubString junk self first n = GG_String_CreateFromSubString junk (Some (GG_String_GetChars self)) first n"

fun GG_StringStartsWith :: "bytes \<Rightarrow> bytes \<Rightarrow> int" where
  "GG_StringStartsWith (a # str) (b # sub) =
     (if a = b then if a = 0 then 1 else GG_StringStartsWith str sub
      else if b = 0 then 1 else if a = 0 then -1 else 0)"
| "GG_StringStartsWith _ _ = 0"

definition GG_String_StartsWith :: "GG_String \<Rightarrow> bytes \<Rightarrow> bool" where
  "GG_String_StartsWith self s \<longleftrightarrow> GG_StringStartsWith (GG_String_GetChars self) s = 1"

definition GG_String_EndsWith :: "GG_String \<Rightarrow> bytes option \<Rightarrow> bool" where
  "GG_String_EndsWith self str =
     (case str of
        None \<Rightarrow> False
      | Some s \<Rightarrow>
          if s ! 0 = 0 then True
          else if strlen s > GG_String_GetLength self then False
          else GG_StringStartsWith (drop (GG_String_GetLength self - strlen s) (GG_String_GetChars self)) s = 1)"

fun find_string_loop :: "bytes \<Rightarrow> bytes \<Rightarrow> nat \<Rightarrow> int" where
  "find_string_loop [] str k = -1"
| "find_string_loop (c # src) str k =
     (if c = 0 then -1
      else let cmp = GG_StringStartsWith (c # src) str
           in if cmp = -1 then -1 else if cmp = 1 then int k else find_string_loop src str (k + 1))"

definition GG_String_FindStringFrom :: "GG_String \<Rightarrow> bytes option \<Rightarrow> nat \<Rightarrow> int" where
  "GG_String_FindStringFrom self str start =
     (case str of
        None \<Rightarrow> -1
      | Some s \<Rightarrow> if start \<ge> GG_String_GetLength self then -1
          else find_string_loop (drop start (GG_String_GetChars self)) s start)"

definition GG_String_FindString :: "GG_String \<Rightarrow> bytes option \<Rightarrow> int" where
  "GG_String_FindString self str = GG_String_FindStringFrom self str 0"

fun find_char_loop :: "bytes \<Rightarrow> u8 \<Rightarrow> nat \<Rightarrow> int" where
  "find_char_loop [] c k = -1"
| "find_char_loop (x # src) c k = (if x = 0 then -1 else if x = c then int k else find_char_loop src c (k + 1))"

definition GG_String_FindCharFrom :: "GG_String \<Rightarrow> u8 \<Rightarrow> nat \<Rightarrow> int" where
  "GG_String_FindCharFrom self c start =
     (if start \<ge> GG_String_GetLength self then -1 else find_char_loop (drop start (GG_String_GetChars self)) c start)"

definition GG_String_FindChar :: "GG_String \<Rightarrow> u8 \<Rightarrow> int" where
  "GG_String_FindChar self c = GG_String_FindCharFrom self c 0"

text \<open>The cast of a \<^verbatim>\<open>size_t\<close> to \<^verbatim>\<open>int\<close>.\<close>

definition int_of_size :: "int \<Rightarrow> int" where
  "int_of_size z = sint (word_of_int z :: u32)"

text \<open>The downward loops: the test at the positions below \<open>n\<close>, the largest first.\<close>

fun reverse_find_loop :: "(nat \<Rightarrow> bool) \<Rightarrow> nat \<Rightarrow> int" where
  "reverse_find_loop P 0 = -1"
| "reverse_find_loop P (Suc i) = (if P i then int i else reverse_find_loop P i)"

definition GG_String_ReverseFindCharFrom :: "GG_String \<Rightarrow> u8 \<Rightarrow> nat \<Rightarrow> int" where
  "GG_String_ReverseFindCharFrom self c start =
     (let src = GG_String_GetChars self;
          i = int_of_size (int (GG_String_GetLength self) - int start - 1)
      in if i < 0 then -1 else reverse_find_loop (\<lambda>k. src ! k = c) (nat i + 1))"

definition GG_String_ReverseFindChar :: "GG_String \<Rightarrow> u8 \<Rightarrow> int" where
  "GG_String_ReverseFindChar self c = GG_String_ReverseFindCharFrom self c 0"

definition GG_String_ReverseFindString :: "GG_String \<Rightarrow> bytes \<Rightarrow> int" where
  "GG_String_ReverseFindString self s =
     (let i = int_of_size (int (GG_String_GetLength self) - int (strlen s));
          src = GG_String_GetChars self
      in if i < 0 then -1 else reverse_find_loop (\<lambda>k. GG_StringStartsWith (drop k src) s = 1) (nat i + 1))"

section \<open>Changes in place\<close>

text \<open>A loop over the characters up to the null character.\<close>

fun map_chars :: "(u8 \<Rightarrow> u8) \<Rightarrow> bytes \<Rightarrow> bytes" where
  "map_chars f [] = []"
| "map_chars f (c # mem) = (if c = 0 then c # mem else f c # map_chars f mem)"

definition GG_String_MakeLowercase :: "GG_String \<Rightarrow> GG_String" where
  "GG_String_MakeLowercase self = map_option (\<lambda>b. b\<lparr>sb_chars := map_chars GG_LOWERCASE (sb_chars b)\<rparr>) self"

definition GG_String_MakeUppercase :: "GG_String \<Rightarrow> GG_String" where
  "GG_String_MakeUppercase self = map_option (\<lambda>b. b\<lparr>sb_chars := map_chars GG_UPPERCASE (sb_chars b)\<rparr>) self"

definition GG_String_ToLowercase :: "(nat \<Rightarrow> u8) \<Rightarrow> GG_String \<Rightarrow> GG_String" where
  "GG_String_ToLowercase junk self = GG_String_MakeLowercase (GG_String_Clone junk self)"

definition GG_String_ToUppercase :: "(nat \<Rightarrow> u8) \<Rightarrow> GG_String \<Rightarrow> GG_String" where
  "GG_String_ToUppercase junk self = GG_String_MakeUppercase (GG_String_Clone junk self)"

definition GG_String_Replace :: "GG_String \<Rightarrow> u8 \<Rightarrow> u8 \<Rightarrow> GG_String" where
  "GG_String_Replace self a b =
     (if self = None \<or> a = 0 \<or> b = 0 then self
      else map_option (\<lambda>s. s\<lparr>sb_chars := map_chars (\<lambda>c. if c = a then b else c) (sb_chars s)\<rparr>) self)"

definition GG_String_Insert :: "(nat \<Rightarrow> u8) \<Rightarrow> GG_String \<Rightarrow> bytes option \<Rightarrow> nat \<Rightarrow> GG_Result \<times> GG_String" where
  "GG_String_Insert junk self str where_pos =
     (case str of
        None \<Rightarrow> (GG_SUCCESS, self)
      | Some s \<Rightarrow>
          if where_pos > GG_String_GetLength self then (GG_ERROR_INVALID_PARAMETERS, self)
          else if strlen s = 0 then (GG_SUCCESS, self)
          else
            let src = GG_String_GetChars self;
                old_length = GG_String_GetLength self;
                nst = GG_StringBuffer_Create junk (strlen s + old_length);
                mem = memcpy_at (sb_chars nst) 0 (take where_pos src);
                mem = memcpy_at mem where_pos (take (strlen s + 1) s);
                src = drop where_pos src;
                mem = (if old_length > where_pos
                       then memcpy_at mem (where_pos + strlen s) (take (strlen src + 1) src) else mem)
            in (GG_SUCCESS, Some (nst\<lparr>sb_chars := mem\<rparr>)))"

text \<open>The number of leading characters that are in the set.\<close>

fun trim_count :: "bytes \<Rightarrow> bytes \<Rightarrow> nat" where
  "trim_count set_chars [] = 0"
| "trim_count set_chars (c # mem) =
     (if c = 0 then 0 else if c \<in> set (cstr set_chars) then trim_count set_chars mem + 1 else 0)"

definition GG_String_TrimCharsLeft :: "GG_String \<Rightarrow> bytes \<Rightarrow> GG_String" where
  "GG_String_TrimCharsLeft self set_chars =
     map_option (\<lambda>b.
       let n = trim_count set_chars (sb_chars b);
           s = drop n (sb_chars b)
       in if n = 0 then b
          else b\<lparr>sb_length := sb_length b - n, sb_chars := memcpy_at (sb_chars b) 0 (take (strlen s + 1) s)\<rparr>) self"

text \<open>The loop from the tail: the characters below position \<open>n\<close> are still to be looked at.\<close>

fun trim_right_loop :: "bytes \<Rightarrow> bytes \<Rightarrow> nat \<Rightarrow> bytes \<times> nat" where
  "trim_right_loop set_chars mem 0 = (mem, 0)"
| "trim_right_loop set_chars mem (Suc i) =
     (if mem ! i \<in> set (cstr set_chars) then trim_right_loop set_chars (mem[i := 0]) i else (mem, Suc i))"

definition GG_String_TrimCharsRight :: "GG_String \<Rightarrow> bytes \<Rightarrow> GG_String" where
  "GG_String_TrimCharsRight self set_chars =
     map_option (\<lambda>b.
       if sb_chars b ! 0 = 0 then b
       else let (mem, n) = trim_right_loop set_chars (sb_chars b) (sb_length b)
            in if n = sb_length b then b\<lparr>sb_chars := mem\<rparr> else b\<lparr>sb_chars := mem, sb_length := n\<rparr>) self"

definition GG_String_TrimWhitespaceLeft :: "GG_String \<Rightarrow> GG_String" where
  "GG_String_TrimWhitespaceLeft self = GG_String_TrimCharsLeft self GG_STRINGS_WHITESPACE_CHARS"

definition GG_String_TrimCharLeft :: "GG_String \<Rightarrow> u8 \<Rightarrow> GG_String" where
  "GG_String_TrimCharLeft self c = GG_String_TrimCharsLeft self [c, 0]"

definition GG_String_TrimWhitespaceRight :: "GG_String \<Rightarrow> GG_String" where
  "GG_String_TrimWhitespaceRight self = GG_String_TrimCharsRight self GG_STRINGS_WHITESPACE_CHARS"

definition GG_String_TrimCharRight :: "GG_String \<Rightarrow> u8 \<Rightarrow> GG_String" where
  "GG_String_TrimCharRight self c = GG_String_TrimCharsRight self [c, 0]"

definition GG_String_TrimWhitespace :: "GG_String \<Rightarrow> GG_String" where
  "GG_String_TrimWhitespace self = GG_String_TrimWhitespaceRight (GG_String_TrimWhitespaceLeft self)"

definition GG_String_TrimChar :: "GG_String \<Rightarrow> u8 \<Rightarrow> GG_String" where
  "GG_String_TrimChar self c = GG_String_TrimCharsRight (GG_String_TrimCharsLeft self [c, 0]) [c, 0]"

definition GG_String_TrimChars :: "GG_String \<Rightarrow> bytes \<Rightarrow> GG_String" where
  "GG_String_TrimChars self set_chars = GG_String_TrimCharsRight (GG_String_TrimCharsLeft self set_chars) set_chars"

definition GG_String_Add :: "(nat \<Rightarrow> u8) \<Rightarrow> GG_String \<Rightarrow> bytes option \<Rightarrow> GG_String" where
  "GG_String_Add junk s1 s2 =
     (case s2 of
        None \<Rightarrow> GG_String_Clone junk s1
      | Some s \<Rightarrow>
          if s ! 0 = 0 then GG_String_Clone junk s1
          else
            let s1_length = GG_String_GetLength s1;
                b = GG_String_PrepareToWrite junk None (s1_length + strlen s);
                mem = memcpy_at (sb_chars b) 0 (take s1_length (GG_String_GetChars s1));
                mem = memcpy_at mem s1_length (take (strlen s + 1) s)
            in Some (b\<lparr>sb_chars := mem\<rparr>))"

section \<open>Strings as lists of characters\<close>

text \<open>
  A well-formed string has a null character after its characters, and none among them. Its text is the list of its characters.
\<close>

definition string_ok :: "GG_String \<Rightarrow> bool" where
  "string_ok self \<longleftrightarrow> (case self of
       None \<Rightarrow> True
     | Some b \<Rightarrow> length (sb_chars b) = sb_allocated b + 1 \<and> sb_length b \<le> sb_allocated b \<and>
         sb_chars b ! sb_length b = 0 \<and> 0 \<notin> set (take (sb_length b) (sb_chars b)))"

definition text_of :: "GG_String \<Rightarrow> bytes" where
  "text_of self = (case self of None \<Rightarrow> [] | Some b \<Rightarrow> take (sb_length b) (sb_chars b))"

text \<open>The memory a C string points to: its characters, a null character, and whatever follows.\<close>

definition c_string :: "bytes \<Rightarrow> bytes \<Rightarrow> bool" where
  "c_string mem t \<longleftrightarrow> 0 \<notin> set t \<and> (\<exists>rest. mem = t @ 0 # rest)"

lemma c_stringD:
  assumes "c_string mem t"
  shows "cstr mem = t" "strlen mem = length t" "take (length t) mem = t" "take (Suc (length t)) mem = t @ [0]"
    "mem ! 0 = 0 \<longleftrightarrow> t = []" "length t < length mem"
proof -
  obtain rest where m: "mem = t @ 0 # rest" "0 \<notin> set t" using assms by (auto simp: c_string_def)
  then show c: "cstr mem = t" by (auto simp: cstr_def takeWhile_append)
  show "strlen mem = length t" by (simp add: strlen_def c)
  show "take (length t) mem = t" "take (Suc (length t)) mem = t @ [0]" "length t < length mem" using m(1) by simp_all
  show "mem ! 0 = 0 \<longleftrightarrow> t = []" using m by (cases t) auto
qed

lemma c_string_drop: "c_string mem t \<Longrightarrow> n \<le> length t \<Longrightarrow> c_string (drop n mem) (drop n t)"
  by (auto simp: c_string_def dest: in_set_dropD)

lemma string_ok_chars:
  assumes "string_ok self"
  shows "c_string (GG_String_GetChars self) (text_of self)" "length (text_of self) = GG_String_GetLength self" "0 \<notin> set (text_of self)"
proof -
  show "c_string (GG_String_GetChars self) (text_of self)"
  proof (cases self)
    case (Some b)
    then have "sb_chars b = take (sb_length b) (sb_chars b) @ 0 # drop (Suc (sb_length b)) (sb_chars b)"
      using assms id_take_nth_drop [of "sb_length b" "sb_chars b"] by (simp add: string_ok_def)
    then show ?thesis using Some assms by (auto simp: c_string_def GG_String_GetChars_def text_of_def string_ok_def)
  qed (simp add: c_string_def GG_String_GetChars_def text_of_def)
  show "length (text_of self) = GG_String_GetLength self" "0 \<notin> set (text_of self)"
    using assms by (auto simp: text_of_def GG_String_GetLength_def string_ok_def split: option.split)
qed

text \<open>How to show that a buffer holds a text.\<close>

lemma string_okI:
  assumes "length (sb_chars b) = sb_allocated b + 1" and "c_string (sb_chars b) t" and "sb_length b = length t"
  shows "string_ok (Some b)" "text_of (Some b) = t"
  using assms c_stringD(3,6) [OF assms(2)] by (auto simp: string_ok_def text_of_def c_string_def nth_append)

lemma string_okE:
  assumes "string_ok (Some b)"
  shows "length (sb_chars b) = sb_allocated b + 1" "sb_length b \<le> sb_allocated b" "c_string (sb_chars b) (text_of (Some b))"
    "length (text_of (Some b)) = sb_length b"
  using assms string_ok_chars [OF assms] by (auto simp: string_ok_def GG_String_GetChars_def GG_String_GetLength_def)

lemma c_string_memcpy: "0 \<notin> set t \<Longrightarrow> c_string (memcpy_at mem 0 (t @ [0])) t"
  by (auto simp: c_string_def memcpy_at_def)

lemma c_string_write:
  assumes "take k mem = t" and "k + length src < length mem" and "0 \<notin> set t" and "0 \<notin> set src"
  shows "c_string ((memcpy_at mem k src)[k + length src := 0]) (t @ src)"
proof -
  have "length (memcpy_at mem k src) = length mem" using assms(2) by simp
  moreover have "length t = k" using assms(1,2) by auto
  then have "take (k + length src) (memcpy_at mem k src) = t @ src" using assms(1,2) by (simp add: memcpy_at_def)
  ultimately have "(memcpy_at mem k src)[k + length src := 0] = (t @ src) @ 0 # drop (Suc (k + length src)) (memcpy_at mem k src)"
    using assms(2) upd_conv_take_nth_drop [of "k + length src" "memcpy_at mem k src" 0] by simp
  then show ?thesis using assms(3,4) by (auto simp: c_string_def)
qed

lemmas buffer_defs = GG_StringBuffer_Create_def GG_StringBuffer_Allocate_def Let_def

lemma string_ok_None [simp]: "string_ok None" "text_of None = []"
  by (simp_all add: string_ok_def text_of_def)

lemma CreateFromString_ok:
  assumes "c_string str t"
  shows "string_ok (Some (GG_StringBuffer_CreateFromString junk str))" "text_of (Some (GG_StringBuffer_CreateFromString junk str)) = t"
  using c_string_memcpy [of t "map junk [0..<length t + 1]"] c_stringD [OF assms] assms
  by (intro string_okI; simp add: GG_StringBuffer_CreateFromString_def buffer_defs c_string_def)+

lemma CreateFromStringN_ok:
  assumes "0 \<notin> set (take n str)" and "n \<le> length str"
  shows "string_ok (Some (GG_StringBuffer_CreateFromStringN junk str n))"
    "text_of (Some (GG_StringBuffer_CreateFromStringN junk str n)) = take n str"
  using c_string_write [of 0 "map junk [0..<n + 1]" "[]" "take n str"] assms
    string_okI [of "GG_StringBuffer_CreateFromStringN junk str n" "take n str"]
  by (simp_all add: GG_StringBuffer_CreateFromStringN_def buffer_defs)

lemma PrepareToWrite_ok:
  assumes "string_ok self"
  shows "length (sb_chars (GG_String_PrepareToWrite junk self n)) = sb_allocated (GG_String_PrepareToWrite junk self n) + 1"
    "n \<le> sb_allocated (GG_String_PrepareToWrite junk self n)" "sb_length (GG_String_PrepareToWrite junk self n) = n"
  using assms string_okE by (auto simp: GG_String_PrepareToWrite_def buffer_defs split: option.split)

lemma Reserve_ok:
  assumes "string_ok self"
  shows "string_ok (Some (GG_String_Reserve junk self n))" "text_of (Some (GG_String_Reserve junk self n)) = text_of self"
    "n \<le> sb_allocated (GG_String_Reserve junk self n)"
proof -
  have "string_ok (Some (GG_String_Reserve junk self n)) \<and> text_of (Some (GG_String_Reserve junk self n)) = text_of self \<and>
      n \<le> sb_allocated (GG_String_Reserve junk self n)"
  proof (cases self)
    case None
    have "c_string ((map junk [0..<n + 1])[0 := 0]) []" using c_string_write [of 0 "map junk [0..<n + 1]" "[]" "[]"] by simp
    then show ?thesis using None string_okI [of "GG_String_Reserve junk None n" "[]"]
      by (simp add: GG_String_Reserve_def buffer_defs)
  next
    case (Some b)
    note b = string_okE [OF assms [unfolded Some]]
    show ?thesis
    proof (cases "sb_allocated b < n")
      case True
      have c: "take (Suc (sb_length b)) (sb_chars b) = text_of self @ [0]" "0 \<notin> set (text_of self)"
        using c_stringD(4) [OF b(3)] b(4) Some string_ok_chars(3) [OF assms] by simp_all
      show ?thesis using True Some b(2,4) c c_string_memcpy [OF c(2)] string_okI [of "GG_String_Reserve junk self n" "text_of self"]
        by (simp add: GG_String_Reserve_def buffer_defs)
    qed (use Some assms in \<open>simp add: GG_String_Reserve_def\<close>)
  qed
  then show "string_ok (Some (GG_String_Reserve junk self n))" "text_of (Some (GG_String_Reserve junk self n)) = text_of self"
    "n \<le> sb_allocated (GG_String_Reserve junk self n)" by simp_all
qed

lemma AppendSubString_ok:
  assumes "string_ok self" and "0 \<notin> set (take n str)" and "n \<le> length str"
  shows "string_ok (GG_String_AppendSubString junk self (Some str) n)"
    "text_of (GG_String_AppendSubString junk self (Some str) n) = text_of self @ take n str"
proof -
  let ?b = "GG_String_Reserve junk self (GG_String_GetLength self + n)"
  note b = Reserve_ok [OF assms(1), where junk = junk and n = "GG_String_GetLength self + n"]
  note c = string_ok_chars [OF assms(1)]
  have "take (GG_String_GetLength self) (sb_chars ?b) = text_of self"
    using c_stringD(3) [OF string_okE(3) [OF b(1)]] b(2) c(2) by simp
  from c_string_write [OF this, of "take n str"]
  have "c_string ((memcpy_at (sb_chars ?b) (GG_String_GetLength self) (take n str))[GG_String_GetLength self + n := 0])
      (text_of self @ take n str)"
    using assms(2,3) b(3) c(3) string_okE(1) [OF b(1)] by simp
  then have "n \<noteq> 0 \<Longrightarrow> string_ok (GG_String_AppendSubString junk self (Some str) n) \<and>
      text_of (GG_String_AppendSubString junk self (Some str) n) = text_of self @ take n str"
    using string_okI [of "?b\<lparr>sb_length := GG_String_GetLength self + n, sb_chars :=
        (memcpy_at (sb_chars ?b) (GG_String_GetLength self) (take n str))[GG_String_GetLength self + n := 0]\<rparr>"
        "text_of self @ take n str"] assms(3) b(3) c(2) string_okE(1) [OF b(1)]
    by (simp add: GG_String_AppendSubString_def Let_def)
  then show "string_ok (GG_String_AppendSubString junk self (Some str) n)"
    "text_of (GG_String_AppendSubString junk self (Some str) n) = text_of self @ take n str"
    using assms(1) by (cases "n = 0"; simp add: GG_String_AppendSubString_def)+
qed

lemma AssignN_ok:
  assumes "string_ok self" and "0 \<notin> set (take n str)" and "n \<le> length str"
  shows "string_ok (GG_String_AssignN junk self (Some str) n) \<and> text_of (GG_String_AssignN junk self (Some str) n) = take n str"
proof -
  let ?b = "GG_String_PrepareToWrite junk self n"
  note b = PrepareToWrite_ok [OF assms(1), where junk = junk and n = n]
  show ?thesis
    using c_string_write [of 0 "sb_chars ?b" "[]" "take n str"] assms(2,3) b
      string_okI [of "?b\<lparr>sb_chars := (memcpy_at (sb_chars ?b) 0 (take n str))[n := 0]\<rparr>" "take n str"]
    by (simp add: GG_String_AssignN_def Let_def)
qed

text \<open>A buffer that holds a text with its null character, copied to the start of another.\<close>

lemma copy_ok:
  assumes "c_string mem t" and "length (sb_chars b) = sb_allocated b + 1" and "length t \<le> sb_allocated b" and "sb_length b = length t"
  shows "string_ok (Some (b\<lparr>sb_chars := memcpy_at (sb_chars b) 0 (take (length t + 1) mem)\<rparr>)) \<and>
    text_of (Some (b\<lparr>sb_chars := memcpy_at (sb_chars b) 0 (take (length t + 1) mem)\<rparr>)) = t"
  using string_okI [of "b\<lparr>sb_chars := memcpy_at (sb_chars b) 0 (t @ [0])\<rparr>" t] c_string_memcpy [of t "sb_chars b"]
    c_stringD(4) [OF assms(1)] assms by (simp add: c_string_def)

lemma Clone_ok:
  assumes "string_ok self"
  shows "string_ok (GG_String_Clone junk self) \<and> text_of (GG_String_Clone junk self) = text_of self"
proof (cases self)
  case (Some b)
  note b = string_okE [OF assms [unfolded Some]]
  show ?thesis using Some copy_ok [OF b(3), of "GG_StringBuffer_Create junk (sb_length b)"] b(4)
    by (simp add: GG_String_Clone_def GG_String_GetLength_def buffer_defs)
qed (simp add: GG_String_Clone_def)

lemma Copy_ok:
  assumes "string_ok self" and "string_ok str"
  shows "string_ok (GG_String_Copy junk self str) \<and> text_of (GG_String_Copy junk self str) = text_of str"
proof (cases str)
  case (Some b)
  note b = string_okE [OF assms(2) [unfolded Some]]
  note w = PrepareToWrite_ok [OF assms(1), where junk = junk and n = "sb_length b"]
  have "sb_length b = 0 \<Longrightarrow> text_of str = []" using Some b(4) by simp
  then show ?thesis using Some copy_ok [OF b(3), of "GG_String_PrepareToWrite junk self (sb_length b)"] b(4) w
    by (simp add: GG_String_Copy_def Let_def)
qed (simp add: GG_String_Copy_def)

lemma SetLength_ok:
  assumes "string_ok self" and "n \<le> length (text_of self)"
  shows "\<exists>s. GG_String_SetLength self n = (GG_SUCCESS, s) \<and> string_ok s \<and> text_of s = take n (text_of self)"
proof (cases self)
  case (Some b)
  note b = string_okE [OF assms(1) [unfolded Some]]
  have n: "n < length (sb_chars b)" using b assms(2) Some by simp
  have "take n (sb_chars b) = take n (text_of self)" using assms(2) Some b(4) by (simp add: text_of_def)
  then have "c_string ((sb_chars b)[n := 0]) (take n (text_of self))"
    using c_string_write [of n "sb_chars b" _ "[]"] n string_ok_chars(3) [OF assms(1)] by (auto dest: in_set_takeD)
  then show ?thesis using Some b n assms(2) string_okI [of "b\<lparr>sb_length := n, sb_chars := (sb_chars b)[n := 0]\<rparr>" "take n (text_of self)"]
    by (simp add: GG_String_SetLength_def)
qed (use assms in \<open>simp add: GG_String_SetLength_def\<close>)

lemma substring_length_eq: "c_string mem t \<Longrightarrow> k < n \<Longrightarrow> substring_length mem k n = min n (k + length t)"
proof (induction mem k n arbitrary: t rule: substring_length.induct)
  case (2 c src k n)
  show ?case
  proof (cases t)
    case Nil
    with 2 show ?thesis by (auto simp: c_string_def)
  next
    case (Cons a u)
    with 2 have "c = a" "c \<noteq> 0" "c_string src u" by (auto simp: c_string_def)
    with 2 Cons show ?thesis by auto
  qed
qed (auto simp: c_string_def)

lemma SubString_ok:
  assumes "c_string mem t"
  shows "string_ok (GG_String_CreateFromSubString junk (Some mem) first n) \<and>
    text_of (GG_String_CreateFromSubString junk (Some mem) first n) = take n (drop first t)"
proof (cases "n \<noteq> 0 \<and> first < length t")
  case True
  then have d: "c_string (drop first mem) (drop first t)" using assms by (intro c_string_drop) auto
  define l where "l = min n (length (drop first t))"
  have "substring_length (drop first mem) 0 n = l" using substring_length_eq [OF d, of 0 n] True by (simp add: l_def)
  moreover have "take l (drop first mem) = take n (drop first t)" "l \<noteq> 0" "l \<le> length (drop first mem)"
  proof -
    obtain rest where "drop first mem = drop first t @ 0 # rest" using d by (auto simp: c_string_def)
    then show "take l (drop first mem) = take n (drop first t)" "l \<noteq> 0" "l \<le> length (drop first mem)"
      using True by (auto simp: l_def min_def)
  qed
  moreover have "0 \<notin> set (take n (drop first t))" using d by (auto simp: c_string_def dest: in_set_takeD)
  ultimately show ?thesis
    using CreateFromStringN_ok [of l "drop first mem" junk] True c_stringD(2) [OF assms]
    by (simp add: GG_String_CreateFromSubString_def)
qed (use c_stringD(2) [OF assms] in \<open>auto simp: GG_String_CreateFromSubString_def\<close>)

lemma map_chars_append: "0 \<notin> set t \<Longrightarrow> map_chars f (t @ 0 # rest) = map f t @ 0 # rest"
  by (induction t) auto

lemma map_chars_ok:
  assumes "string_ok (Some b)" and "\<And>c. c \<noteq> 0 \<Longrightarrow> f c \<noteq> 0"
  shows "string_ok (Some (b\<lparr>sb_chars := map_chars f (sb_chars b)\<rparr>)) \<and>
    text_of (Some (b\<lparr>sb_chars := map_chars f (sb_chars b)\<rparr>)) = map f (text_of (Some b))"
proof -
  note b = string_okE [OF assms(1)]
  obtain rest where r: "sb_chars b = text_of (Some b) @ 0 # rest" "0 \<notin> set (text_of (Some b))" using b(3) by (auto simp: c_string_def)
  then have m: "map_chars f (sb_chars b) = map f (text_of (Some b)) @ 0 # rest" by (metis map_chars_append)
  have "0 \<notin> f ` set (text_of (Some b))" using r(2) assms(2) by (metis imageE)
  then have "c_string (map_chars f (sb_chars b)) (map f (text_of (Some b)))" unfolding m by (auto simp: c_string_def)
  moreover have "length (map_chars f (sb_chars b)) = length (sb_chars b)" unfolding m by (subst r(1)) simp
  ultimately show ?thesis using b string_okI [of "b\<lparr>sb_chars := map_chars f (sb_chars b)\<rparr>"] by simp
qed

lemma case_nonzero: "c \<noteq> 0 \<Longrightarrow> GG_UPPERCASE c \<noteq> 0" "c \<noteq> 0 \<Longrightarrow> GG_LOWERCASE c \<noteq> 0"
proof -
  have u: "c AND 0xDF \<noteq> 0" if "0x61 \<le> c" "c \<le> 0x7A" for c :: u8
  proof
    assume z: "c AND 0xDF = 0"
    have "unat c AND 0xDF = 0" using arg_cong [OF z, of unat] by (simp add: unsigned_and_eq)
    moreover have "unat c \<in> set [0x61..<0x7B]"
      unfolding set_upt atLeastLessThan_iff using that by (simp add: word_le_nat_alt)
    moreover have "list_all (\<lambda>n. n AND 0xDF \<noteq> 0) [0x61..<0x7B :: nat]" by code_simp
    ultimately show False unfolding list_all_iff by blast
  qed
  have l: "c XOR 32 \<noteq> 0" if "0x41 \<le> c" for c :: u8
  proof
    assume "c XOR 32 = 0"
    then have "(c XOR 32) XOR 32 = 0 XOR 32" by (rule arg_cong)
    then have "c = 32" by (simp only: xor.assoc xor_self_eq xor.right_neutral xor.left_neutral)
    with that show False by simp
  qed
  show "c \<noteq> 0 \<Longrightarrow> GG_UPPERCASE c \<noteq> 0" "c \<noteq> 0 \<Longrightarrow> GG_LOWERCASE c \<noteq> 0"
    using u l by (auto simp: GG_UPPERCASE_def GG_LOWERCASE_def)
qed

lemma MakeLowercase_ok:
  assumes "string_ok self"
  shows "string_ok (GG_String_MakeLowercase self) \<and> text_of (GG_String_MakeLowercase self) = map GG_LOWERCASE (text_of self)"
  using assms map_chars_ok case_nonzero(2) by (cases self) (auto simp: GG_String_MakeLowercase_def)

lemma MakeUppercase_ok:
  assumes "string_ok self"
  shows "string_ok (GG_String_MakeUppercase self) \<and> text_of (GG_String_MakeUppercase self) = map GG_UPPERCASE (text_of self)"
  using assms map_chars_ok case_nonzero(1) by (cases self) (auto simp: GG_String_MakeUppercase_def)

lemma Replace_ok:
  assumes "string_ok self" and "a \<noteq> 0" and "b \<noteq> 0"
  shows "string_ok (GG_String_Replace self a b) \<and>
    text_of (GG_String_Replace self a b) = map (\<lambda>c. if c = a then b else c) (text_of self)"
  using assms map_chars_ok [of _ "\<lambda>c. if c = a then b else c"] by (cases self) (auto simp: GG_String_Replace_def)

lemma Insert_ok:
  assumes "string_ok self" and "c_string str t" and "n \<le> length (text_of self)"
  shows "\<exists>s. GG_String_Insert junk self (Some str) n = (GG_SUCCESS, s) \<and> string_ok s \<and>
    text_of s = take n (text_of self) @ t @ drop n (text_of self)"
proof (cases "t = []")
  case True
  then show ?thesis using assms string_ok_chars(2) [OF assms(1)] c_stringD(2) [OF assms(2)]
    by (simp add: GG_String_Insert_def)
next
  case False
  note c = string_ok_chars [OF assms(1)] and t = c_stringD [OF assms(2)]
  define x where "x = text_of self"
  define l where "l = length t + length x"
  obtain rest where g: "GG_String_GetChars self = x @ 0 # rest" "0 \<notin> set x" using c(1) by (auto simp: c_string_def x_def)
  define mem where "mem = memcpy_at (memcpy_at (map junk [0..<l + 1]) 0 (take n x)) n (t @ [0])"
  have n: "n \<le> length x" using assms(3) by (simp add: x_def)
  have lm: "length mem = l + 1" using n by (simp add: mem_def l_def)
  have m: "mem = (take n x @ t) @ 0 # drop (n + length t + 1) (map junk [0..<l + 1])"
    using n by (simp add: mem_def memcpy_at_def l_def add.commute [of n])
  have z: "0 \<notin> set (take n x @ t @ drop n x)"
    using g(2) assms(2) by (auto simp: c_string_def dest: in_set_takeD in_set_dropD)
  have d: "c_string (drop n (GG_String_GetChars self)) (drop n x)" using c(1) n by (auto simp: x_def intro: c_string_drop)
  define fin where "fin = (if n < length x then memcpy_at mem (n + length t) (drop n x @ [0]) else mem)"
  have "c_string fin (take n x @ t @ drop n x) \<and> length fin = l + 1"
  proof (cases "n < length x")
    case True
    then have "fin = (take n x @ t @ drop n x) @ 0 # drop (n + length t + length (drop n x) + 1) mem"
      using n m lm by (simp add: fin_def memcpy_at_def l_def)
    then show ?thesis using z lm True n by (auto simp: c_string_def fin_def l_def)
  next
    case False
    then show ?thesis using m lm z n by (auto simp: fin_def c_string_def)
  qed
  moreover have "GG_String_Insert junk self (Some str) n =
      (GG_SUCCESS, Some ((GG_StringBuffer_Create junk l)\<lparr>sb_chars := fin\<rparr>))"
    using False n c(2) t(2,4) c_stringD(2,4) [OF d] g(1)
    by (simp add: GG_String_Insert_def buffer_defs fin_def mem_def l_def x_def [symmetric])
  ultimately show ?thesis
    using string_okI [of "(GG_StringBuffer_Create junk l)\<lparr>sb_chars := fin\<rparr>" "take n x @ t @ drop n x"] n
    by (simp add: buffer_defs l_def x_def)
qed

lemma Add_ok:
  assumes "string_ok self" and "c_string str t"
  shows "string_ok (GG_String_Add junk self (Some str)) \<and> text_of (GG_String_Add junk self (Some str)) = text_of self @ t"
proof (cases "t = []")
  case True
  then show ?thesis using Clone_ok [OF assms(1)] c_stringD(5) [OF assms(2)] by (simp add: GG_String_Add_def)
next
  case False
  note c = string_ok_chars [OF assms(1)] and t = c_stringD [OF assms(2)]
  let ?l = "GG_String_GetLength self + length t"
  let ?mem = "memcpy_at (memcpy_at (map junk [0..<?l + 1]) 0 (text_of self)) (GG_String_GetLength self) (t @ [0])"
  have m: "?mem = (text_of self @ t) @ [0]" using c(2) by (simp add: memcpy_at_def)
  have "0 \<notin> set (text_of self @ t)" using c(3) assms(2) by (auto simp: c_string_def)
  then have "c_string ?mem (text_of self @ t)" unfolding m c_string_def by blast
  then show ?thesis using False t c(2) c_stringD(3) [OF c(1)] m
      string_okI [of "(GG_StringBuffer_Allocate junk ?l ?l)\<lparr>sb_chars := ?mem\<rparr>" "text_of self @ t"]
    by (simp add: GG_String_Add_def GG_String_PrepareToWrite_def buffer_defs)
qed

lemma trim_count_eq: "c_string mem t \<Longrightarrow> trim_count chars mem = length (takeWhile (\<lambda>c. c \<in> set (cstr chars)) t)"
proof (induction mem arbitrary: t)
  case (Cons c mem)
  show ?case
  proof (cases t)
    case Nil
    with Cons.prems show ?thesis by (auto simp: c_string_def)
  next
    case (Cons a u)
    with Cons.prems have "c = a" "c \<noteq> 0" "c_string mem u" by (auto simp: c_string_def)
    with Cons.IH [of u] Cons show ?thesis by simp
  qed
qed (auto simp: c_string_def)

lemma TrimCharsLeft_ok:
  assumes "string_ok self"
  shows "string_ok (GG_String_TrimCharsLeft self chars) \<and>
    text_of (GG_String_TrimCharsLeft self chars) = dropWhile (\<lambda>c. c \<in> set (cstr chars)) (text_of self)"
proof (cases self)
  case (Some b)
  note b = string_okE [OF assms [unfolded Some]]
  let ?P = "\<lambda>c. c \<in> set (cstr chars)"
  define n where "n = length (takeWhile ?P (text_of self))"
  have le: "n \<le> length (text_of self)" by (simp add: n_def length_takeWhile_le)
  have drop: "dropWhile ?P (text_of self) = drop n (text_of self)" by (simp add: n_def dropWhile_eq_drop)
  have tc: "trim_count chars (sb_chars b) = n" using trim_count_eq [OF b(3)] Some by (simp add: n_def)
  have d: "c_string (drop n (sb_chars b)) (drop n (text_of self))" using c_string_drop [OF b(3)] le Some by simp
  have "string_ok (Some (b\<lparr>sb_length := sb_length b - n, sb_chars := memcpy_at (sb_chars b) 0
      (take (strlen (drop n (sb_chars b)) + 1) (drop n (sb_chars b)))\<rparr>)) \<and>
    text_of (Some (b\<lparr>sb_length := sb_length b - n, sb_chars := memcpy_at (sb_chars b) 0
      (take (strlen (drop n (sb_chars b)) + 1) (drop n (sb_chars b)))\<rparr>)) = drop n (text_of self)"
    using copy_ok [OF d, of "b\<lparr>sb_length := sb_length b - n\<rparr>"] b c_stringD(2) [OF d] Some by simp
  then show ?thesis using tc drop Some assms by (auto simp: GG_String_TrimCharsLeft_def Let_def)
qed (simp add: GG_String_TrimCharsLeft_def)

definition trim_right :: "(u8 \<Rightarrow> bool) \<Rightarrow> bytes \<Rightarrow> bytes" where
  "trim_right P t = rev (dropWhile P (rev t))"

lemma trim_right_snoc: "trim_right P (t @ [c]) = (if P c then trim_right P t else t @ [c])"
  by (simp add: trim_right_def)

lemma trim_right_loop_ok:
  assumes "c_string mem t" and "trim_right_loop chars mem (length t) = (mem', n)"
  shows "c_string mem' (trim_right (\<lambda>c. c \<in> set (cstr chars)) t) \<and> n = length (trim_right (\<lambda>c. c \<in> set (cstr chars)) t) \<and>
    length mem' = length mem"
  using assms
proof (induction t arbitrary: mem rule: rev_induct)
  case (snoc c t)
  then obtain rest where m: "mem = t @ c # 0 # rest" "0 \<notin> set t" "c \<noteq> 0" by (auto simp: c_string_def)
  then have "c_string (mem[length t := 0]) t" by (auto simp: c_string_def)
  with snoc m show ?case by (auto simp: trim_right_snoc split: if_splits)
qed (auto simp: trim_right_def)

lemma TrimCharsRight_ok:
  assumes "string_ok self"
  shows "string_ok (GG_String_TrimCharsRight self chars) \<and>
    text_of (GG_String_TrimCharsRight self chars) = trim_right (\<lambda>c. c \<in> set (cstr chars)) (text_of self)"
proof (cases self)
  case (Some b)
  note b = string_okE [OF assms [unfolded Some]]
  obtain mem n where l: "trim_right_loop chars (sb_chars b) (sb_length b) = (mem, n)" by fastforce
  note r = trim_right_loop_ok [OF b(3), of chars mem n, unfolded b(4), OF l]
  show ?thesis
  proof (cases "sb_chars b ! 0 = 0")
    case True
    then show ?thesis using c_stringD(5) [OF b(3)] Some assms by (simp add: GG_String_TrimCharsRight_def trim_right_def)
  next
    case False
    then show ?thesis
      using Some r l b string_okI [of "b\<lparr>sb_chars := mem, sb_length := n\<rparr>"] string_okI [of "b\<lparr>sb_chars := mem\<rparr>"]
      by (auto simp: GG_String_TrimCharsRight_def)
  qed
qed (simp add: GG_String_TrimCharsRight_def trim_right_def)

section \<open>Search\<close>

lemma StartsWith_eq:
  assumes "c_string str t" and "c_string sub u"
  shows "GG_StringStartsWith str sub = (if prefix u t then 1 else if strict_prefix t u then -1 else 0)"
  using assms
proof (induction str sub arbitrary: t u rule: GG_StringStartsWith.induct)
  case (1 a str b sub)
  have t: "(a = 0 \<and> t = []) \<or> (\<exists>t'. a \<noteq> 0 \<and> t = a # t' \<and> c_string str t')"
    using 1(2) by (cases t) (auto simp: c_string_def)
  have u: "(b = 0 \<and> u = []) \<or> (\<exists>u'. b \<noteq> 0 \<and> u = b # u' \<and> c_string sub u')"
    using 1(3) by (cases u) (auto simp: c_string_def)
  show ?case using t u 1(1) by auto
qed (auto simp: c_string_def)

definition position :: "nat option \<Rightarrow> int" where
  "position r = (case r of None \<Rightarrow> -1 | Some k \<Rightarrow> int k)"

lemma find_upt_rec: "k < n \<Longrightarrow> List.find P [k..<n] = (if P k then Some k else List.find P [Suc k..<n])"
  by (simp add: upt_conv_Cons)

lemma c_string_nth:
  assumes "c_string (drop k mem) (drop k t)" and "k < length t"
  shows "drop k mem = t ! k # drop (Suc k) mem" "t ! k \<noteq> 0" "c_string (drop (Suc k) mem) (drop (Suc k) t)"
proof -
  obtain rest where r: "drop k mem = drop k t @ 0 # rest" "0 \<notin> set (drop k t)" using assms(1) by (auto simp: c_string_def)
  have t: "drop k t = t ! k # drop (Suc k) t" using assms(2) by (simp add: Cons_nth_drop_Suc)
  have m: "drop (Suc k) mem = drop (Suc k) t @ 0 # rest" using arg_cong [OF r(1), of tl] t by (simp add: tl_drop drop_Suc)
  show "drop k mem = t ! k # drop (Suc k) mem" using r(1) t m by simp
  show "t ! k \<noteq> 0" "c_string (drop (Suc k) mem) (drop (Suc k) t)" using r(2) m unfolding t by (auto simp: c_string_def)
qed

lemma find_string_loop_eq:
  "c_string (drop k mem) (drop k t) \<Longrightarrow> k \<le> length t \<Longrightarrow> c_string str u \<Longrightarrow>
    find_string_loop (drop k mem) str k = position (List.find (\<lambda>k. prefix u (drop k t)) [k..<length t])"
proof (induction "length t - k" arbitrary: k)
  case 0
  then have "drop k t = []" by simp
  with 0 show ?case by (auto simp: c_string_def position_def)
next
  case (Suc n)
  then have k: "k < length t" by simp
  define c src where "c = t ! k" and "src = drop (Suc k) mem"
  have cs: "drop k mem = c # src" "c \<noteq> 0" "c_string src (drop (Suc k) t)" "src = drop (Suc k) mem"
    using c_string_nth [OF Suc.prems(1) k] by (simp_all add: c_def src_def)
  have sw: "GG_StringStartsWith (c # src) str =
      (if prefix u (drop k t) then 1 else if strict_prefix (drop k t) u then -1 else 0)"
    using StartsWith_eq [OF Suc.prems(1,3)] cs(1) by simp
  have short: "\<not> prefix u (drop j t)" if "strict_prefix (drop k t) u" "k \<le> j" for j
    using that prefix_length_less [of "drop k t" u] prefix_length_le [of u "drop j t"] by auto
  show ?case
  proof (cases "strict_prefix (drop k t) u")
    case True
    then have "List.find (\<lambda>k. prefix u (drop k t)) [k..<length t] = None" using short by (auto simp: find_None_iff)
    with True cs sw short [OF True] show ?thesis by (auto simp: position_def)
  next
    case False
    have "find_string_loop (drop (Suc k) mem) str (Suc k) = position (List.find (\<lambda>k. prefix u (drop k t)) [Suc k..<length t])"
      using Suc.hyps(2) Suc.prems(3) k cs(3,4) by (intro Suc.hyps(1)) auto
    with False cs sw k show ?thesis by (simp add: find_upt_rec position_def Let_def)
  qed
qed

lemma find_char_loop_eq:
  "c_string (drop k mem) (drop k t) \<Longrightarrow> k \<le> length t \<Longrightarrow>
    find_char_loop (drop k mem) c k = position (List.find (\<lambda>k. t ! k = c) [k..<length t])"
proof (induction "length t - k" arbitrary: k)
  case 0
  then have "drop k t = []" by simp
  with 0 show ?case by (auto simp: c_string_def position_def)
next
  case (Suc n)
  then have k: "k < length t" by simp
  note cs = c_string_nth [OF Suc.prems(1) k]
  have "find_char_loop (drop (Suc k) mem) c (Suc k) = position (List.find (\<lambda>k. t ! k = c) [Suc k..<length t])"
    using Suc.hyps(2) k cs(3) by (intro Suc.hyps(1)) auto
  with cs(1,2) k show ?case by (simp add: find_upt_rec position_def)
qed

lemma reverse_find_loop_eq: "reverse_find_loop P n = position (List.find P (rev [0..<n]))"
  by (induction n) (auto simp: position_def)

lemma reverse_find_position:
  "(if z < 0 then -1 else reverse_find_loop P (nat z + 1)) = position (List.find P (rev [0..<nat (z + 1)]))"
proof (cases "z < 0")
  case False
  then have "nat (z + 1) = nat z + 1" by simp
  with False show ?thesis by (simp only: reverse_find_loop_eq if_False)
qed (simp add: position_def)

lemma int_of_size_eq: "- (2 ^ 31) \<le> z \<Longrightarrow> z < 2 ^ 31 \<Longrightarrow> int_of_size z = z"
  by (simp add: int_of_size_def sint_sbintrunc' signed_take_bit_int_eq_self)

lemma char_value_inject: "char_value sg a - char_value sg b = 0 \<longleftrightarrow> a = b"
  by (auto simp: char_value_def intro: signed_word_eqI unsigned_word_eqI)

lemma c_string_Cons: "c_string (a # mem) t \<longleftrightarrow> (a = 0 \<and> t = []) \<or> (\<exists>u. a \<noteq> 0 \<and> t = a # u \<and> c_string mem u)"
  by (cases t) (auto simp: c_string_def)

lemma compare_loop_eq:
  assumes "c_string r1 t" and "c_string r2 u" and "f 0 = 0" and "\<And>c. c \<noteq> 0 \<Longrightarrow> f c \<noteq> 0"
  shows "compare_loop f sg r1 r2 = 0 \<longleftrightarrow> map f t = map f u"
  using assms
proof (induction f sg r1 r2 arbitrary: t u rule: compare_loop.induct)
  case (1 f sg a r1 b r2)
  have "f a = 0 \<longleftrightarrow> a = 0" "f b = 0 \<longleftrightarrow> b = 0" using 1(4,5) by metis+
  then show ?case using 1 by (auto simp: c_string_Cons char_value_inject simp del: eq_iff_diff_eq_0 right_minus_eq)
qed (auto simp: c_string_def)

section \<open>Properties\<close>

text \<open>
  The sign of a comparison: the order of the first characters that differ, as the character type of the
  machine orders them; the null character at the end takes part.
\<close>

lemma compare_loop_less:
  assumes "c_string r1 t" and "c_string r2 u"
  shows "compare_loop id sg r1 r2 < 0 \<longleftrightarrow> (t @ [0], u @ [0]) \<in> lexord {(a, b). char_value sg a < char_value sg b}"
  using assms
proof (induction "id :: u8 \<Rightarrow> u8" sg r1 r2 arbitrary: t u rule: compare_loop.induct)
  case (1 sg a r1 b r2)
  show ?case using 1 by (cases "a = b") (auto simp: c_string_Cons)
qed (auto simp: c_string_def)

definition capacity :: "GG_String \<Rightarrow> nat" where
  "capacity self = (case self of None \<Rightarrow> 0 | Some b \<Rightarrow> sb_allocated b)"

text \<open>A length between the old length and the capacity: the old null character stays where it is.\<close>

lemma SetLength_grow:
  assumes "string_ok self" and "length (text_of self) < m" and "m \<le> capacity self"
  shows "\<exists>s. GG_String_SetLength self m = (GG_SUCCESS, s) \<and> GG_String_GetLength s = m \<and> c_string (GG_String_GetChars s) (text_of self)"
proof (cases self)
  case (Some b)
  note c = string_ok_chars [OF assms(1)]
  have "c_string (sb_chars b) (text_of self)" using c(1) Some by (simp add: GG_String_GetChars_def)
  then obtain rest where "sb_chars b = text_of self @ 0 # rest" "0 \<notin> set (text_of self)" by (auto simp: c_string_def)
  moreover obtain k where "m = Suc (length (text_of self) + k)" using assms(2) less_iff_Suc_add by auto
  ultimately have "c_string ((sb_chars b)[m := 0]) (text_of self)" by (auto simp: c_string_def list_update_append)
  then show ?thesis using assms(3) Some
    by (simp add: GG_String_SetLength_def capacity_def GG_String_GetLength_def GG_String_GetChars_def)
qed (use assms in \<open>simp add: capacity_def\<close>)

text \<open>
  C37: The strings implement lists of characters. On well-formed strings (the length within the capacity, one null character, at the
  end) and C strings the operations below give well-formed strings, whatever the old capacity and the
  content of new memory, and their characters are those of the list operation: copy, prefix, concatenation, insertion, sublist,
  replacement and change of case character by character, and removal of characters at both ends. This holds under the conditions of the statement: a character
  that is appended or put in place of others is not the null character, and a new length is at most the old one.
  A length between the old one and the capacity is accepted and leaves the C string as it was; one above the capacity, and an insertion
  behind the end, is refused and changes nothing.
\<close>

theorem string_editing:
  assumes ok: "string_ok self" and other: "string_ok other" and c: "c_string str t" and set: "c_string chars cs"
    and n: "n \<le> length (text_of self)" and k: "k \<le> length t" and ab: "a \<noteq> 0" "b \<noteq> 0"
  defines "holds \<equiv> \<lambda>s x. string_ok s \<and> text_of s = x"
  shows "holds (GG_String_Create junk (Some str)) t \<and> holds (GG_String_Clone junk self) (text_of self) \<and>
    holds (GG_String_Copy junk self other) (text_of other) \<and> holds (GG_String_Assign junk self (Some str)) t \<and>
    holds (GG_String_AssignN junk self (Some str) k) (take k t) \<and>
    holds (Some (GG_String_Reserve junk self m)) (text_of self) \<and>
    (\<exists>s. GG_String_SetLength self n = (GG_SUCCESS, s) \<and> holds s (take n (text_of self))) \<and>
    (length (text_of self) < m \<and> m \<le> capacity self \<longrightarrow> (\<exists>s. GG_String_SetLength self m = (GG_SUCCESS, s) \<and>
      GG_String_GetLength s = m \<and> c_string (GG_String_GetChars s) (text_of self))) \<and>
    (capacity self < m \<longrightarrow> GG_String_SetLength self m = (GG_ERROR_INVALID_PARAMETERS, self)) \<and>
    holds (GG_String_Append junk self (Some str)) (text_of self @ t) \<and>
    holds (GG_String_AppendSubString junk self (Some str) k) (text_of self @ take k t) \<and>
    holds (GG_String_AppendChar junk self a) (text_of self @ [a]) \<and>
    holds (GG_String_Add junk self (Some str)) (text_of self @ t) \<and>
    (\<exists>s. GG_String_Insert junk self (Some str) n = (GG_SUCCESS, s) \<and>
      holds s (take n (text_of self) @ t @ drop n (text_of self))) \<and>
    (length (text_of self) < m \<longrightarrow> GG_String_Insert junk self (Some str) m = (GG_ERROR_INVALID_PARAMETERS, self)) \<and>
    holds (GG_String_SubString junk self first m) (take m (drop first (text_of self))) \<and>
    holds (GG_String_Replace self a b) (map (\<lambda>c. if c = a then b else c) (text_of self)) \<and>
    holds (GG_String_ToLowercase junk self) (map GG_LOWERCASE (text_of self)) \<and>
    holds (GG_String_ToUppercase junk self) (map GG_UPPERCASE (text_of self)) \<and>
    holds (GG_String_TrimChars self chars)
      (trim_right (\<lambda>c. c \<in> set cs) (dropWhile (\<lambda>c. c \<in> set cs) (text_of self)))"
proof -
  note t = c_stringD [OF c]
  have z: "0 \<notin> set t" using c by (simp add: c_string_def)
  have append: "holds (GG_String_Append junk self (Some str)) (text_of self @ t)"
    using AppendSubString_ok [OF ok, of "length t" str junk] t z ok by (auto simp: GG_String_Append_def holds_def)
  have assign: "holds (GG_String_Assign junk self (Some str)) t"
    using AssignN_ok [OF ok, of "length t" str junk] t z by (simp add: GG_String_Assign_def holds_def)
  have trim: "holds (GG_String_TrimChars self chars) (trim_right (\<lambda>c. c \<in> set cs) (dropWhile (\<lambda>c. c \<in> set cs) (text_of self)))"
    using TrimCharsLeft_ok [OF ok, of chars] TrimCharsRight_ok [of "GG_String_TrimCharsLeft self chars" chars]
      c_stringD(1) [OF set] by (simp add: GG_String_TrimChars_def holds_def)
  have create: "holds (GG_String_Create junk (Some str)) t"
    using CreateFromString_ok [OF c] t(5) by (auto simp: GG_String_Create_def holds_def)
  have char: "holds (GG_String_AppendChar junk self a) (text_of self @ [a])"
    using AppendSubString_ok [OF ok, of 1 "[a]" junk] ab(1) by (simp add: GG_String_AppendChar_def holds_def)
  have tk: "take k str = take k t" using c k by (auto simp: c_string_def)
  have part: "0 \<notin> set (take k str)" "k \<le> length str" using z k t(6) unfolding tk by (auto dest: in_set_takeD)
  have assign_n: "holds (GG_String_AssignN junk self (Some str) k) (take k t)"
    using AssignN_ok [OF ok part, of junk] by (simp add: holds_def tk)
  have append_n: "holds (GG_String_AppendSubString junk self (Some str) k) (text_of self @ take k t)"
    using AppendSubString_ok [OF ok part, of junk] by (simp add: holds_def tk)
  have len: "\<exists>s. GG_String_SetLength self n = (GG_SUCCESS, s) \<and> holds s (take n (text_of self))"
    using SetLength_ok [OF ok n] by (simp add: holds_def)
  have refused: "capacity self < m \<longrightarrow> GG_String_SetLength self m = (GG_ERROR_INVALID_PARAMETERS, self)"
    by (simp add: GG_String_SetLength_def capacity_def split: option.split)
  have ins: "\<exists>s. GG_String_Insert junk self (Some str) n = (GG_SUCCESS, s) \<and> holds s (take n (text_of self) @ t @ drop n (text_of self))"
    using Insert_ok [OF ok c n, of junk] by (simp add: holds_def)
  have behind: "length (text_of self) < m \<longrightarrow> GG_String_Insert junk self (Some str) m = (GG_ERROR_INVALID_PARAMETERS, self)"
    using string_ok_chars(2) [OF ok] by (simp add: GG_String_Insert_def)
  have grow: "length (text_of self) < m \<and> m \<le> capacity self \<longrightarrow> (\<exists>s. GG_String_SetLength self m = (GG_SUCCESS, s) \<and>
      GG_String_GetLength s = m \<and> c_string (GG_String_GetChars s) (text_of self))"
    using SetLength_grow [OF ok] by blast
  have sub: "holds (GG_String_SubString junk self first m) (take m (drop first (text_of self)))"
    using SubString_ok [OF string_ok_chars(1) [OF ok]] by (simp add: GG_String_SubString_def holds_def)
  have low: "holds (GG_String_ToLowercase junk self) (map GG_LOWERCASE (text_of self))"
    "holds (GG_String_ToUppercase junk self) (map GG_UPPERCASE (text_of self))"
    using MakeLowercase_ok [of "GG_String_Clone junk self"] MakeUppercase_ok [of "GG_String_Clone junk self"] Clone_ok [OF ok, of junk]
    by (simp_all add: GG_String_ToLowercase_def GG_String_ToUppercase_def holds_def)
  have res: "holds (Some (GG_String_Reserve junk self m)) (text_of self)" using Reserve_ok [OF ok] by (simp add: holds_def)
  have rest: "holds (GG_String_Clone junk self) (text_of self)" "holds (GG_String_Copy junk self other) (text_of other)"
    "holds (GG_String_Add junk self (Some str)) (text_of self @ t)"
    "holds (GG_String_Replace self a b) (map (\<lambda>c. if c = a then b else c) (text_of self))"
    using Clone_ok [OF ok, of junk] Copy_ok [OF ok other, of junk] Add_ok [OF ok c, of junk] Replace_ok [OF ok ab] by (simp_all add: holds_def)
  show ?thesis by (intro conjI create assign assign_n res len grow refused append append_n char ins behind sub low trim rest)
qed

text \<open>
  C38: Search and comparison agree with the lists of characters: prefixes and suffixes, the first and the last position of a
  character or a string (or -1), and equality, exact or without regard to case. Lengths are below two to the 31st.
\<close>

theorem string_search:
  assumes ok: "string_ok self" and c: "c_string str u" and len: "length (text_of self) < 2 ^ 31" "length u < 2 ^ 31" "start < 2 ^ 31"
    and x: "x \<noteq> 0"
  defines "t \<equiv> text_of self"
  shows "(GG_String_StartsWith self str \<longleftrightarrow> prefix u t) \<and> (GG_String_EndsWith self (Some str) \<longleftrightarrow> suffix u t) \<and>
    GG_String_FindStringFrom self (Some str) start = position (List.find (\<lambda>k. prefix u (drop k t)) [start..<length t]) \<and>
    GG_String_FindCharFrom self x start = position (List.find (\<lambda>k. t ! k = x) [start..<length t]) \<and>
    GG_String_ReverseFindCharFrom self x start = position (List.find (\<lambda>k. t ! k = x) (rev [0..<length t - start])) \<and>
    GG_String_ReverseFindString self str = position (List.find (\<lambda>k. prefix u (drop k t)) (rev [0..<length t + 1 - length u])) \<and>
    (GG_String_Equals sg self str False \<longleftrightarrow> t = u) \<and>
    (GG_String_Equals sg self str True \<longleftrightarrow> map GG_UPPERCASE t = map GG_UPPERCASE u)"
proof -
  let ?mem = "GG_String_GetChars self"
  note m = string_ok_chars [OF ok, folded t_def] and s = c_stringD [OF c]
  have drop: "c_string (drop k ?mem) (drop k t)" if "k \<le> length t" for k using c_string_drop [OF m(1) that] .
  have starts: "GG_StringStartsWith (drop k ?mem) str = 1 \<longleftrightarrow> prefix u (drop k t)" if "k \<le> length t" for k
    using StartsWith_eq [OF drop [OF that] c] by auto
  have nth: "?mem ! k = t ! k" if "k < length t" for k using m(1) that by (auto simp: c_string_def nth_append)
  have cong: "List.find P (rev [0..<n]) = List.find Q (rev [0..<n])" if "\<And>k. k < n \<Longrightarrow> P k = Q k" for P Q :: "nat \<Rightarrow> bool" and n
    using that by (intro find_cong) auto
  have suffix: "GG_String_EndsWith self (Some str) \<longleftrightarrow> suffix u t"
  proof (cases "u = [] \<or> length t < length u")
    case True
    then show ?thesis using s(2,5) m(2) by (auto simp: GG_String_EndsWith_def dest: suffix_length_le)
  next
    case False
    have "suffix u t \<longleftrightarrow> u = drop (length t - length u) t"
      by (auto simp: suffix_def) (metis append_take_drop_id)
    moreover have "prefix u v \<longleftrightarrow> u = v" if "length u = length v" for v using that by (auto simp: prefix_def)
    then have "prefix u (drop (length t - length u) t) \<longleftrightarrow> u = drop (length t - length u) t" using False by simp
    ultimately have "suffix u t \<longleftrightarrow> prefix u (drop (length t - length u) t)" by blast
    with False show ?thesis using s(2,5) m(2) starts by (simp add: GG_String_EndsWith_def)
  qed
  have find: "GG_String_FindStringFrom self (Some str) start = position (List.find (\<lambda>k. prefix u (drop k t)) [start..<length t])"
    "GG_String_FindCharFrom self x start = position (List.find (\<lambda>k. t ! k = x) [start..<length t])"
    using find_string_loop_eq [OF drop _ c, of start] find_char_loop_eq [OF drop, of start x] m(2)
    by (auto simp: GG_String_FindStringFrom_def GG_String_FindCharFrom_def position_def)
  have rchar: "GG_String_ReverseFindCharFrom self x start = position (List.find (\<lambda>k. t ! k = x) (rev [0..<length t - start]))"
  proof -
    have i: "int_of_size (int (length t) - int start - 1) = int (length t) - int start - 1"
      "nat (int (length t) - int start - 1 + 1) = length t - start"
      using len by (auto simp: t_def intro: int_of_size_eq)
    show ?thesis using cong [of "length t - start" "\<lambda>k. ?mem ! k = x" "\<lambda>k. t ! k = x"] nth
      by (simp only: GG_String_ReverseFindCharFrom_def Let_def m(2) [symmetric] i reverse_find_position)
  qed
  have rstr: "GG_String_ReverseFindString self str = position (List.find (\<lambda>k. prefix u (drop k t)) (rev [0..<length t + 1 - length u]))"
  proof -
    have i: "int_of_size (int (length t) - int (length u)) = int (length t) - int (length u)"
      "nat (int (length t) - int (length u) + 1) = length t + 1 - length u"
      using len by (auto simp: t_def intro: int_of_size_eq)
    show ?thesis
      using cong [of "length t + 1 - length u" "\<lambda>k. GG_StringStartsWith (drop k ?mem) str = 1" "\<lambda>k. prefix u (drop k t)"] starts
      by (simp only: GG_String_ReverseFindString_def Let_def m(2) [symmetric] s(2) i reverse_find_position)
  qed
  have eq: "GG_String_Equals sg self str False \<longleftrightarrow> t = u"
    "GG_String_Equals sg self str True \<longleftrightarrow> map GG_UPPERCASE t = map GG_UPPERCASE u"
    using compare_loop_eq [OF m(1) c, of id sg] compare_loop_eq [OF m(1) c, of GG_UPPERCASE sg] case_nonzero(1)
    by (simp_all add: GG_String_Equals_def GG_String_Compare_def GG_UPPERCASE_def)
  show ?thesis using suffix find rchar rstr eq starts [of 0] by (simp add: GG_String_StartsWith_def)
qed

text \<open>The string \<^verbatim>\<open>" ab "\<close>, in a buffer of six characters.\<close>

definition example_string :: GG_String where
  "example_string = Some \<lparr>sb_length = 4, sb_allocated = 6, sb_chars = [0x20, 0x61, 0x62, 0x20, 0, 9, 9]\<rparr>"

lemma example_string_ok: "string_ok example_string" "text_of example_string = [0x20, 0x61, 0x62, 0x20]"
  by (simp_all add: example_string_def string_ok_def text_of_def)

lemma c_string_example: "c_string [0x62, 0] [0x62]" "c_string [0x20, 0] [0x20]"
  by (simp_all add: c_string_def)

theorem string_editing_witness:
  "text_of (GG_String_TrimChars example_string [0x20, 0]) = [0x61, 0x62] \<and>
   text_of (GG_String_Append (\<lambda>i. 7) example_string (Some [0x62, 0])) = [0x20, 0x61, 0x62, 0x20, 0x62]"
  using string_editing [OF example_string_ok(1) example_string_ok(1) c_string_example, of 1 1 1 1 "\<lambda>i. 7"]
  by (simp add: example_string_ok(2) trim_right_def)

theorem string_search_witness:
  "GG_String_FindStringFrom example_string (Some [0x62, 0]) 0 = 2 \<and> GG_String_ReverseFindCharFrom example_string 0x20 1 = 0"
  using string_search [OF example_string_ok(1) c_string_example(1), where start = 0 and x = "0x20"]
    string_search [OF example_string_ok(1) c_string_example(1), where start = 1 and x = "0x20"]
  by (simp add: example_string_ok(2) position_def upt_rec_numeral)

section \<open>Hexadecimal strings\<close>

definition GG_BytesToHexString :: "(nat \<Rightarrow> u8) \<Rightarrow> bytes \<Rightarrow> GG_String \<Rightarrow> bool \<Rightarrow> GG_String" where
  "GG_BytesToHexString junk bs hex uppercase =
     (let b = GG_String_Reserve junk hex (length bs * 2);
          b = b\<lparr>sb_chars := memcpy_at (sb_chars b) 0 (GG_BytesToHex bs uppercase)\<rparr>
      in snd (GG_String_SetLength (Some b) (length bs * 2)))"

lemma hex_nonzero: "0 \<notin> set (GG_BytesToHex bs u)"
proof (induction bs)
  case (Cons b bs)
  have "GG_NibbleToHex n u \<noteq> 0" if "n < 16" for n
  proof -
    have "n \<in> set [0..<16]" using that by simp
    moreover have "list_all (\<lambda>n. GG_NibbleToHex n True \<noteq> 0 \<and> GG_NibbleToHex n False \<noteq> 0) [0..<16]" by code_simp
    ultimately have "GG_NibbleToHex n True \<noteq> 0 \<and> GG_NibbleToHex n False \<noteq> 0" unfolding list_all_iff by blast
    then show ?thesis by (cases u) simp_all
  qed
  moreover have "unat (take_bit 4 w) < 16" for w :: u8 by (simp add: take_bit_eq_mod unat_mod)
  ultimately show ?case using Cons by (simp add: GG_ByteToHex_def and_mask)
qed simp

text \<open>The hexadecimal digits replace whatever the string held.\<close>

lemma hex_string:
  assumes "string_ok hex"
  shows "string_ok (GG_BytesToHexString junk bs hex u) \<and> text_of (GG_BytesToHexString junk bs hex u) = GG_BytesToHex bs u"
proof -
  let ?b = "GG_String_Reserve junk hex (length bs * 2)"
  note b = Reserve_ok [OF assms, where junk = junk and n = "length bs * 2"] and l = string_okE(1) [OF Reserve_ok(1) [OF assms]]
  have "c_string ((memcpy_at (sb_chars ?b) 0 (GG_BytesToHex bs u))[length bs * 2 := 0]) (GG_BytesToHex bs u)"
    using c_string_write [of 0 "sb_chars ?b" "[]" "GG_BytesToHex bs u"] b(3) l hex_nonzero by (simp add: mult.commute)
  then show ?thesis
    using b(3) l string_okI [of "?b\<lparr>sb_length := length bs * 2,
        sb_chars := (memcpy_at (sb_chars ?b) 0 (GG_BytesToHex bs u))[length bs * 2 := 0]\<rparr>" "GG_BytesToHex bs u"]
    by (simp add: GG_BytesToHexString_def GG_String_SetLength_def Let_def mult.commute)
qed

end
