(* ===== verification/Buffers.thy ===== *)
theory Buffers
  imports GG_Prelude "HOL-Library.Multiset" "HOL-Library.Monad_Syntax"
begin

text \<open>
  The buffers of \<^verbatim>\<open>xp/common/gg_buffer.c\<close>: static, dynamic and sub-buffers behind one interface, with reference counts. The heap maps
  the address of a buffer object to the object; the use of an object that was freed is \<open>None\<close>. \<open>junk\<close> is the content
  of new memory, and memory is assumed not to run out. The memory of a dynamic buffer is part of its object: it is allocated
  and freed with the object, so a leak of that memory alone has no counterpart in the heap.
\<close>

record GG_DynamicBuffer =
  reference_counter :: u32
  buffer_is_local :: bool
  db_buffer :: bytes
  data_size :: nat

datatype GG_Buffer =
    GG_StaticBuffer bytes
  | GG_DynamicBuffer GG_DynamicBuffer
  | GG_SubBuffer u32 nat nat nat \<comment> \<open>reference counter, data, offset, size\<close>

type_synonym buffer_heap = "nat \<Rightarrow> GG_Buffer option"

definition GG_DATA_BUFFER_EXTRA_GROW_SPACE :: nat where [simp]: "GG_DATA_BUFFER_EXTRA_GROW_SPACE = 256"
definition GG_DATA_BUFFER_TRY_DOUBLE_THRESHOLD :: nat where [simp]: "GG_DATA_BUFFER_TRY_DOUBLE_THRESHOLD = 4096"

section \<open>The memory of a dynamic buffer\<close>

text \<open>The field \<^verbatim>\<open>buffer_size\<close> is the length of the memory.\<close>

definition buffer_size :: "GG_DynamicBuffer \<Rightarrow> nat" where
  "buffer_size self = length (db_buffer self)"

definition GG_DynamicBuffer_ReallocateBuffer ::
  "(nat \<Rightarrow> u8) \<Rightarrow> GG_DynamicBuffer \<Rightarrow> nat \<Rightarrow> GG_Result \<times> GG_DynamicBuffer" where
  "GG_DynamicBuffer_ReallocateBuffer junk self n =
     (if data_size self > n then (GG_ERROR_INVALID_PARAMETERS, self)
      else (GG_SUCCESS, self\<lparr>db_buffer := memcpy_at (map junk [0..<n]) 0 (take (data_size self) (db_buffer self))\<rparr>))"

definition GG_DynamicBuffer_SetBuffer :: "GG_DynamicBuffer \<Rightarrow> bytes \<Rightarrow> GG_DynamicBuffer" where
  "GG_DynamicBuffer_SetBuffer self buffer = self\<lparr>buffer_is_local := False, db_buffer := buffer, data_size := 0\<rparr>"

definition GG_DynamicBuffer_SetBufferSize ::
  "(nat \<Rightarrow> u8) \<Rightarrow> GG_DynamicBuffer \<Rightarrow> nat \<Rightarrow> GG_Result \<times> GG_DynamicBuffer" where
  "GG_DynamicBuffer_SetBufferSize junk self n =
     (if buffer_is_local self then GG_DynamicBuffer_ReallocateBuffer junk self n else (GG_ERROR_NOT_SUPPORTED, self))"

definition grown_size :: "nat \<Rightarrow> nat \<Rightarrow> nat" where
  "grown_size old n =
     (if old < GG_DATA_BUFFER_TRY_DOUBLE_THRESHOLD then
        let new_size = old * 2
        in if new_size < n then
             let new_size = (n + GG_DATA_BUFFER_EXTRA_GROW_SPACE) mod 2 ^ 64
             in if new_size < n then n else new_size
           else new_size
      else n)"

definition GG_DynamicBuffer_Reserve ::
  "(nat \<Rightarrow> u8) \<Rightarrow> GG_DynamicBuffer \<Rightarrow> nat \<Rightarrow> GG_Result \<times> GG_DynamicBuffer" where
  "GG_DynamicBuffer_Reserve junk self n =
     (if buffer_size self \<ge> n then (GG_SUCCESS, self)
      else GG_DynamicBuffer_SetBufferSize junk self (grown_size (buffer_size self) n))"

definition GG_DynamicBuffer_SetDataSize ::
  "(nat \<Rightarrow> u8) \<Rightarrow> GG_DynamicBuffer \<Rightarrow> nat \<Rightarrow> GG_Result \<times> GG_DynamicBuffer" where
  "GG_DynamicBuffer_SetDataSize junk self n =
     (let (result, self) =
        (if n > buffer_size self then
           if buffer_is_local self then GG_DynamicBuffer_ReallocateBuffer junk self n else (GG_ERROR_NOT_SUPPORTED, self)
         else (GG_SUCCESS, self))
      in if GG_FAILED result then (result, self) else (GG_SUCCESS, self\<lparr>data_size := n\<rparr>))"

definition GG_DynamicBuffer_SetData ::
  "(nat \<Rightarrow> u8) \<Rightarrow> GG_DynamicBuffer \<Rightarrow> bytes \<Rightarrow> GG_Result \<times> GG_DynamicBuffer" where
  "GG_DynamicBuffer_SetData junk self data =
     (let (result, self) =
        (if length data > buffer_size self then
           if buffer_is_local self then GG_DynamicBuffer_ReallocateBuffer junk self (length data)
           else (GG_ERROR_OUT_OF_RESOURCES, self)
         else (GG_SUCCESS, self))
      in if GG_FAILED result then (result, self)
         else (GG_SUCCESS, self\<lparr>db_buffer := memcpy_at (db_buffer self) 0 data, data_size := length data\<rparr>))"

definition GG_DynamicBuffer_AppendData ::
  "(nat \<Rightarrow> u8) \<Rightarrow> GG_DynamicBuffer \<Rightarrow> bytes \<Rightarrow> GG_Result \<times> GG_DynamicBuffer" where
  "GG_DynamicBuffer_AppendData junk self data =
     (let new_data_size = (data_size self + length data) mod 2 ^ 64;
          (result, self) = GG_DynamicBuffer_Reserve junk self new_data_size
      in if GG_FAILED result then (result, self)
         else (GG_SUCCESS, self\<lparr>db_buffer := memcpy_at (db_buffer self) (data_size self) data, data_size := new_data_size\<rparr>))"

section \<open>Buffer objects\<close>

definition GG_DynamicBuffer_Retain :: "GG_DynamicBuffer \<Rightarrow> GG_DynamicBuffer" where
  [simp]: "GG_DynamicBuffer_Retain self = self\<lparr>reference_counter := reference_counter self + 1\<rparr>"

definition GG_DynamicBuffer_Release :: "nat \<Rightarrow> GG_DynamicBuffer \<Rightarrow> buffer_heap \<Rightarrow> buffer_heap" where
  [simp]: "GG_DynamicBuffer_Release b self h =
     (if reference_counter self - 1 = 0 then h(b := None)
      else h(b \<mapsto> GG_DynamicBuffer (self\<lparr>reference_counter := reference_counter self - 1\<rparr>)))"

text \<open>The calls through the interface, which select the function of the kind of buffer. Static buffers are not counted.\<close>

definition GG_Buffer_Retain :: "nat \<Rightarrow> buffer_heap \<Rightarrow> buffer_heap option" where
  "GG_Buffer_Retain b h =
     (case h b of
        None \<Rightarrow> None
      | Some (GG_StaticBuffer d) \<Rightarrow> Some h
      | Some (GG_DynamicBuffer d) \<Rightarrow> Some (h(b \<mapsto> GG_DynamicBuffer (GG_DynamicBuffer_Retain d)))
      | Some (GG_SubBuffer rc p off n) \<Rightarrow> Some (h(b \<mapsto> GG_SubBuffer (rc + 1) p off n)))"

partial_function (option) GG_Buffer_Release :: "nat \<Rightarrow> buffer_heap \<Rightarrow> buffer_heap option" where
  "GG_Buffer_Release b h =
     (case h b of
        None \<Rightarrow> None
      | Some (GG_StaticBuffer d) \<Rightarrow> Some h
      | Some (GG_DynamicBuffer d) \<Rightarrow> Some (GG_DynamicBuffer_Release b d h)
      | Some (GG_SubBuffer rc p off n) \<Rightarrow>
          let h = h(b \<mapsto> GG_SubBuffer (rc - 1) p off n)
          in if rc - 1 = 0 then Option.bind (GG_Buffer_Release p h) (\<lambda>h. Some (h(b := None))) else Some h)"

text \<open>The memory from the pointer on that \<^verbatim>\<open>GG_Buffer_GetData\<close> returns.\<close>

partial_function (option) GG_Buffer_GetData :: "nat \<Rightarrow> buffer_heap \<Rightarrow> bytes option" where
  "GG_Buffer_GetData b h =
     (case h b of
        None \<Rightarrow> None
      | Some (GG_StaticBuffer d) \<Rightarrow> Some d
      | Some (GG_DynamicBuffer d) \<Rightarrow> Some (db_buffer d)
      | Some (GG_SubBuffer rc p off n) \<Rightarrow> Option.bind (GG_Buffer_GetData p h) (\<lambda>d. Some (drop off d)))"

text \<open>
  The pointer for writing: into the memory of a dynamic buffer at an offset, or the null pointer plus an offset.
\<close>

datatype write_pointer = Into nat nat | Null_Plus nat

fun advance :: "nat \<Rightarrow> write_pointer \<Rightarrow> write_pointer" where
  "advance off (Into b i) = Into b (i + off)"
| "advance off (Null_Plus i) = Null_Plus (i + off)"

partial_function (option) GG_Buffer_UseData :: "nat \<Rightarrow> buffer_heap \<Rightarrow> write_pointer option" where
  "GG_Buffer_UseData b h =
     (case h b of
        None \<Rightarrow> None
      | Some (GG_StaticBuffer d) \<Rightarrow> Some (Null_Plus 0)
      | Some (GG_DynamicBuffer d) \<Rightarrow> Some (Into b 0)
      | Some (GG_SubBuffer rc p off n) \<Rightarrow> Option.bind (GG_Buffer_UseData p h) (\<lambda>q. Some (advance off q)))"

definition GG_Buffer_GetDataSize :: "nat \<Rightarrow> buffer_heap \<Rightarrow> nat option" where
  "GG_Buffer_GetDataSize b h =
     (case h b of
        None \<Rightarrow> None
      | Some (GG_StaticBuffer d) \<Rightarrow> Some (length d)
      | Some (GG_DynamicBuffer d) \<Rightarrow> Some (data_size d)
      | Some (GG_SubBuffer rc p off n) \<Rightarrow> Some n)"

text \<open>New objects are at the address \<open>a\<close> the allocator returns.\<close>

definition GG_StaticBuffer_Init :: "nat \<Rightarrow> bytes \<Rightarrow> buffer_heap \<Rightarrow> buffer_heap" where
  "GG_StaticBuffer_Init a data h = h(a \<mapsto> GG_StaticBuffer data)"

definition GG_DynamicBuffer_Create :: "(nat \<Rightarrow> u8) \<Rightarrow> nat \<Rightarrow> nat \<Rightarrow> buffer_heap \<Rightarrow> buffer_heap" where
  "GG_DynamicBuffer_Create junk a n h = h(a \<mapsto> GG_DynamicBuffer
     \<lparr>reference_counter = 1, buffer_is_local = True, db_buffer = map junk [0..<n], data_size = 0\<rparr>)"

definition GG_DynamicBuffer_Clone :: "(nat \<Rightarrow> u8) \<Rightarrow> nat \<Rightarrow> GG_DynamicBuffer \<Rightarrow> buffer_heap \<Rightarrow> GG_Result \<times> buffer_heap" where
  "GG_DynamicBuffer_Clone junk a self h =
     (let h = GG_DynamicBuffer_Create junk a (data_size self) h
      in case h a of
           Some (GG_DynamicBuffer d) \<Rightarrow>
             let (result, d) = GG_DynamicBuffer_SetData junk d (take (data_size self) (db_buffer self))
             in (result, h(a \<mapsto> GG_DynamicBuffer d))
         | _ \<Rightarrow> (GG_SUCCESS, h))"

definition GG_SubBuffer_Create :: "nat \<Rightarrow> nat \<Rightarrow> nat \<Rightarrow> nat \<Rightarrow> buffer_heap \<Rightarrow> (GG_Result \<times> buffer_heap) option" where
  "GG_SubBuffer_Create a data offset n h = do {
     data_size \<leftarrow> GG_Buffer_GetDataSize data h;
     if (offset + n) mod 2 ^ 64 > data_size then Some (GG_ERROR_OUT_OF_RANGE, h)
     else do {
       h \<leftarrow> GG_Buffer_Retain data h;
       Some (GG_SUCCESS, h(a \<mapsto> GG_SubBuffer 1 data offset n))
     }
   }"

definition GG_DynamicBuffer_Equals :: "GG_DynamicBuffer option \<Rightarrow> nat option \<Rightarrow> buffer_heap \<Rightarrow> bool option" where
  "GG_DynamicBuffer_Equals self other h =
     (case (self, other) of
        (None, None) \<Rightarrow> Some True
      | (Some d, Some b) \<Rightarrow> do {
          n \<leftarrow> GG_Buffer_GetDataSize b h;
          if data_size d \<noteq> n then Some False
          else do {
            mem \<leftarrow> GG_Buffer_GetData b h;
            Some (take n (db_buffer d) = take n mem)
          }
        }
      | _ \<Rightarrow> Some False)"

section \<open>References\<close>

fun counter :: "GG_Buffer \<Rightarrow> u32 option" where
  "counter (GG_StaticBuffer d) = None"
| "counter (GG_DynamicBuffer d) = Some (reference_counter d)"
| "counter (GG_SubBuffer rc p off n) = Some rc"

fun parent :: "GG_Buffer \<Rightarrow> nat option" where
  "parent (GG_SubBuffer rc p off n) = Some p"
| "parent _ = None"

text \<open>The sub-buffers of a buffer.\<close>

definition subs :: "buffer_heap \<Rightarrow> nat \<Rightarrow> nat set" where
  "subs h b = {s. Option.bind (h s) parent = Some b}"

text \<open>
  \<open>refs\<close> are the references the users hold, with repetitions. The counter of an object is the number of references to it and
  of its sub-buffers, and it is never zero; sub-buffers are nested without cycles.
\<close>

definition counted :: "nat multiset \<Rightarrow> buffer_heap \<Rightarrow> bool" where
  "counted refs h \<longleftrightarrow> (\<forall>b x rc. h b = Some x \<longrightarrow> counter x = Some rc \<longrightarrow> unat rc = count refs b + card (subs h b) \<and> rc \<noteq> 0)"

definition nested :: "(nat \<Rightarrow> nat) \<Rightarrow> buffer_heap \<Rightarrow> bool" where
  "nested rank h \<longleftrightarrow> (\<forall>s x p. h s = Some x \<longrightarrow> parent x = Some p \<longrightarrow> h p \<noteq> None \<and> rank p < rank s)"

definition buffers_ok :: "(nat \<Rightarrow> nat) \<Rightarrow> nat multiset \<Rightarrow> buffer_heap \<Rightarrow> bool" where
  "buffers_ok rank refs h \<longleftrightarrow> finite (dom h) \<and> (\<forall>b. b \<in># refs \<longrightarrow> h b \<noteq> None) \<and> counted refs h \<and> nested rank h"

lemma nested_parent: "nested rank h \<Longrightarrow> h s = Some y \<Longrightarrow> parent y = Some p \<Longrightarrow> h p \<noteq> None"
  unfolding nested_def by blast

lemma finite_subs [simp]: "finite (dom h) \<Longrightarrow> finite (subs h b)"
  by (rule finite_subset [of _ "dom h"]) (auto simp: subs_def split: Option.bind_splits)

lemma in_subs: "h s = Some y \<Longrightarrow> s \<in> subs h b \<longleftrightarrow> parent y = Some b"
  by (simp add: subs_def)

lemma subs_upd: "Option.bind x parent = Option.bind (h b) parent \<Longrightarrow> subs (h(b := x)) c = subs h c"
  by (auto simp: subs_def)

lemma subs_remove: "subs (h(b := None)) c = subs h c - {b}"
  by (auto simp: subs_def)

text \<open>A change of the counter of one object, with the references to match.\<close>

lemma buffers_ok_recount:
  assumes "buffers_ok rank refs h" and "h b = Some x" and "parent y = parent x" and "\<And>c. c \<noteq> b \<Longrightarrow> count refs' c = count refs c"
    and "\<And>rc. counter y = Some rc \<Longrightarrow> unat rc = count refs' b + card (subs h b) \<and> rc \<noteq> 0"
  shows "buffers_ok rank refs' (h(b \<mapsto> y))"
proof -
  have subs: "subs (h(b \<mapsto> y)) c = subs h c" for c using assms(2,3) by (intro subs_upd) simp
  have "c \<in># refs' \<longleftrightarrow> c \<in># refs" if "c \<noteq> b" for c using assms(4) [OF that] by (metis count_greater_zero_iff)
  then show ?thesis using assms by (auto simp: buffers_ok_def counted_def nested_def subs)
qed

text \<open>Heaps that differ in counters, or in that the second has more objects.\<close>

fun erase :: "GG_Buffer \<Rightarrow> GG_Buffer" where
  "erase (GG_StaticBuffer d) = GG_StaticBuffer d"
| "erase (GG_DynamicBuffer d) = GG_DynamicBuffer (d\<lparr>reference_counter := 0\<rparr>)"
| "erase (GG_SubBuffer rc p off n) = GG_SubBuffer 0 p off n"

definition within :: "buffer_heap \<Rightarrow> buffer_heap \<Rightarrow> bool" where
  "within h' h \<longleftrightarrow> (\<forall>s x. h' s = Some x \<longrightarrow> map_option erase (h s) = Some (erase x))"

lemma within_refl [simp]: "within h h"
  by (simp add: within_def)

lemma within_trans: "within h1 h2 \<Longrightarrow> within h2 h3 \<Longrightarrow> within h1 h3"
  by (fastforce simp: within_def)

lemma within_upd: "h b = Some x \<Longrightarrow> erase y = erase x \<Longrightarrow> within (h(b \<mapsto> y)) h"
  by (simp add: within_def)

lemma within_remove: "within (h(b := None)) h"
  by (simp add: within_def)

lemma within_None: "within h' h \<Longrightarrow> h b = None \<Longrightarrow> h' b = None"
  unfolding within_def by (metis not_Some_eq option.map_disc_iff)

lemma within_GetDataSize:
  assumes "within h' h" and "h' b \<noteq> None"
  shows "GG_Buffer_GetDataSize b h = GG_Buffer_GetDataSize b h'"
proof -
  obtain x y where x: "h' b = Some x" and y: "h b = Some y" and e: "erase y = erase x"
    using assms by (fastforce simp: within_def)
  have "data_size d' = data_size d" if "d'\<lparr>reference_counter := 0\<rparr> = d\<lparr>reference_counter := 0\<rparr>" for d d'
    using arg_cong [OF that, of data_size] by simp
  then show ?thesis using x y e by (cases x; cases y) (auto simp: GG_Buffer_GetDataSize_def)
qed

lemma GetData_within:
  assumes "nested rank h'" and "within h' h" and "h' b \<noteq> None"
  shows "GG_Buffer_GetData b h = GG_Buffer_GetData b h' \<and> GG_Buffer_GetData b h' \<noteq> None"
  using assms(3)
proof (induction "rank b" arbitrary: b rule: less_induct)
  case less
  then obtain x where x: "h' b = Some x" by auto
  then obtain y where y: "h b = Some y" "erase y = erase x" using assms(2) by (fastforce simp: within_def)
  show ?case
  proof (cases x)
    case (GG_SubBuffer rc p off n)
    then have "h' p \<noteq> None" "rank p < rank b" using assms(1) x by (auto simp: nested_def)
    with less.hyps [of p] obtain d where "GG_Buffer_GetData p h = Some d" "GG_Buffer_GetData p h' = Some d" by auto
    moreover obtain rc' where "y = GG_SubBuffer rc' p off n" using y(2) GG_SubBuffer by (cases y) auto
    ultimately show ?thesis using x y(1) GG_SubBuffer by (simp add: GG_Buffer_GetData.simps [of b])
  next
    case (GG_DynamicBuffer d)
    then obtain d' where "y = GG_DynamicBuffer d'" "d'\<lparr>reference_counter := 0\<rparr> = d\<lparr>reference_counter := 0\<rparr>"
      using y(2) by (cases y) auto
    moreover from this(2) have "db_buffer d' = db_buffer d" by (metis GG_DynamicBuffer.ext_inject GG_DynamicBuffer.surjective GG_DynamicBuffer.update_convs(1))
    ultimately show ?thesis using x y(1) GG_DynamicBuffer by (simp add: GG_Buffer_GetData.simps [of b])
  next
    case (GG_StaticBuffer d)
    then have "y = GG_StaticBuffer d" using y(2) by (cases y) auto
    then show ?thesis using x y(1) GG_StaticBuffer by (simp add: GG_Buffer_GetData.simps [of b])
  qed
qed

lemma Retain_ok:
  assumes "buffers_ok rank refs h" and "h b \<noteq> None" and "count refs b + card (subs h b) + 1 < 2 ^ 32"
  shows "\<exists>h'. GG_Buffer_Retain b h = Some h' \<and> buffers_ok rank (add_mset b refs) h' \<and> within h' h \<and> within h h'"
proof -
  obtain x where x: "h b = Some x" using assms(2) by auto
  have c: "unat (rc + 1) = Suc (count refs b + card (subs h b)) \<and> rc + 1 \<noteq> 0" if "counter x = Some rc" for rc
  proof -
    have "unat rc = count refs b + card (subs h b)" using assms(1) x that by (auto simp: buffers_ok_def counted_def)
    then have "unat (rc + 1) = Suc (count refs b + card (subs h b))" using assms(3) by (simp add: unat_word_ariths(1))
    then show ?thesis by (metis nat.distinct(1) unat_0)
  qed
  note rc = buffers_ok_recount [OF assms(1) x, of _ "add_mset b refs"]
  show ?thesis
  proof (cases x)
    case (GG_StaticBuffer d)
    then have "buffers_ok rank (add_mset b refs) (h(b \<mapsto> x))" by (intro rc) auto
    then show ?thesis using x GG_StaticBuffer by (simp add: GG_Buffer_Retain_def fun_upd_idem)
  next
    case (GG_DynamicBuffer d)
    let ?y = "GG_DynamicBuffer (d\<lparr>reference_counter := reference_counter d + 1\<rparr>)"
    have "buffers_ok rank (add_mset b refs) (h(b \<mapsto> ?y))" using c GG_DynamicBuffer by (intro rc) auto
    moreover have "within (h(b \<mapsto> ?y)) h" "within h (h(b \<mapsto> ?y))" using x GG_DynamicBuffer by (auto simp: within_def)
    ultimately show ?thesis using x GG_DynamicBuffer by (simp add: GG_Buffer_Retain_def)
  next
    case (GG_SubBuffer n p off k)
    let ?y = "GG_SubBuffer (n + 1) p off k"
    have "buffers_ok rank (add_mset b refs) (h(b \<mapsto> ?y))" using c GG_SubBuffer by (intro rc) auto
    moreover have "within (h(b \<mapsto> ?y)) h" "within h (h(b \<mapsto> ?y))" using x GG_SubBuffer by (auto simp: within_def)
    ultimately show ?thesis using x GG_SubBuffer by (simp add: GG_Buffer_Retain_def)
  qed
qed

lemma Release_frame_step:
  assumes IH: "\<And>q g g'. rel q g = Some g' \<Longrightarrow> g b = None \<longrightarrow> GG_Buffer_Release q (g(b \<mapsto> X)) = Some (g'(b \<mapsto> X))"
    and body: "(case g p of
        None \<Rightarrow> None
      | Some (GG_StaticBuffer d) \<Rightarrow> Some g
      | Some (GG_DynamicBuffer d) \<Rightarrow> Some (GG_DynamicBuffer_Release p d g)
      | Some (GG_SubBuffer rc q off n) \<Rightarrow>
          let h = g(p \<mapsto> GG_SubBuffer (rc - 1) q off n)
          in if rc - 1 = 0 then Option.bind (rel q h) (\<lambda>h. Some (h(p := None))) else Some h) = Some g'"
    and none: "g b = None"
  shows "GG_Buffer_Release p (g(b \<mapsto> X)) = Some (g'(b \<mapsto> X))"
proof -
  obtain x where x: "g p = Some x" using body by (auto split: option.splits)
  then have p: "p \<noteq> b" using none by auto
  show ?thesis
  proof (cases x)
    case (GG_SubBuffer rc q off n)
    let ?g = "g(p \<mapsto> GG_SubBuffer (rc - 1) q off n)"
    have tw: "(g(b \<mapsto> X))(p \<mapsto> GG_SubBuffer (rc - 1) q off n) = ?g(b \<mapsto> X)" using p by (simp add: fun_upd_twist)
    show ?thesis
    proof (cases "rc - 1 = 0")
      case True
      then obtain g1 where g1: "rel q ?g = Some g1" "g' = g1(p := None)"
        using body x GG_SubBuffer by (auto simp: Let_def bind_eq_Some_conv)
      then have "GG_Buffer_Release q (?g(b \<mapsto> X)) = Some (g1(b \<mapsto> X))" using IH none p by auto
      then show ?thesis using x GG_SubBuffer True p g1(2) tw
        by (subst GG_Buffer_Release.simps) (simp add: Let_def fun_upd_twist [of b p])
    next
      case False
      then show ?thesis using body x GG_SubBuffer p tw by (subst GG_Buffer_Release.simps) (auto simp: Let_def)
    qed
  next
    case (GG_DynamicBuffer d)
    then show ?thesis using body x p by (subst GG_Buffer_Release.simps) (auto simp: fun_upd_twist [of b p] split: if_splits)
  next
    case (GG_StaticBuffer d)
    then show ?thesis using body x p by (subst GG_Buffer_Release.simps) auto
  qed
qed

lemma Release_frame:
  assumes "GG_Buffer_Release p g = Some g'" and "g b = None"
  shows "GG_Buffer_Release p (g(b \<mapsto> X)) = Some (g'(b \<mapsto> X))"
proof -
  have "g b = None \<longrightarrow> GG_Buffer_Release p (g(b \<mapsto> X)) = Some (g'(b \<mapsto> X))"
    by (rule GG_Buffer_Release.raw_induct
        [where P = "\<lambda>p g g'. g b = None \<longrightarrow> GG_Buffer_Release p (g(b \<mapsto> X)) = Some (g'(b \<mapsto> X))", OF _ assms(1)])
      (rule impI, rule Release_frame_step)
  then show ?thesis using assms(2) by blast
qed

text \<open>Giving back one reference always works.\<close>

lemma Release_ok:
  assumes "buffers_ok rank (add_mset b refs) h"
  shows "\<exists>h'. GG_Buffer_Release b h = Some h' \<and> buffers_ok rank refs h' \<and> within h' h"
  using assms
proof (induction "rank b" arbitrary: b refs h rule: less_induct)
  case less
  note ok = less.prems
  obtain x where x: "h b = Some x" using ok by (auto simp: buffers_ok_def)
  have fin: "finite (dom h)" using ok by (simp add: buffers_ok_def)
  have c: "unat (rc - 1) = count refs b + card (subs h b)" if "counter x = Some rc" for rc
  proof -
    have "unat rc = count (add_mset b refs) b + card (subs h b)" "rc \<noteq> 0"
      using ok [unfolded buffers_ok_def counted_def] x that by blast+
    then show ?thesis by (simp add: unat_minus_one)
  qed
  have recount: "buffers_ok rank refs (h(b \<mapsto> y))"
    if "parent y = parent x" "\<And>rc. counter y = Some rc \<Longrightarrow> unat rc = count refs b + card (subs h b) \<and> rc \<noteq> 0" for y
    using buffers_ok_recount [OF ok x, of y refs] that by simp
  have free: "buffers_ok rank (case parent x of None \<Rightarrow> refs | Some p \<Rightarrow> add_mset p refs) (h(b := None))"
    if z: "count refs b = 0" "subs h b = {}" "counter x \<noteq> None"
  proof -
    have sub: "subs (h(b := None)) q = subs h q - {b}" for q by (rule subs_remove)
    have mem: "b \<in> subs h q \<longleftrightarrow> parent x = Some q" for q using x by (rule in_subs)
    have card: "card (subs h q) = card (subs h q - {b}) + (if parent x = Some q then 1 else 0)" for q
      using mem [of q] fin card_Suc_Diff1 [of "subs h q" b] by auto
    have no: "h s = Some y \<Longrightarrow> parent y \<noteq> Some b" for s y using z(2) in_subs [of h s y b] by simp
    show ?thesis
      using ok no z(1) x unfolding buffers_ok_def counted_def nested_def
      by (cases "parent x") (auto simp: sub card not_in_iff [symmetric])
  qed
  show ?case
  proof (cases x)
    case (GG_StaticBuffer d)
    have "buffers_ok rank refs (h(b \<mapsto> x))" using GG_StaticBuffer by (intro recount) auto
    then show ?thesis using x GG_StaticBuffer by (subst GG_Buffer_Release.simps) (simp add: fun_upd_idem)
  next
    case (GG_DynamicBuffer d)
    show ?thesis
    proof (cases "reference_counter d - 1 = 0")
      case True
      then have "count refs b = 0" "subs h b = {}" using c GG_DynamicBuffer fin by auto
      from free [OF this] True show ?thesis using x GG_DynamicBuffer within_remove [of h b]
        by (subst GG_Buffer_Release.simps) simp
    next
      case False
      let ?y = "GG_DynamicBuffer (d\<lparr>reference_counter := reference_counter d - 1\<rparr>)"
      have "buffers_ok rank refs (h(b \<mapsto> ?y))" using c False GG_DynamicBuffer by (intro recount) auto
      moreover have "within (h(b \<mapsto> ?y)) h" using x GG_DynamicBuffer by (intro within_upd) auto
      ultimately show ?thesis using x GG_DynamicBuffer False by (subst GG_Buffer_Release.simps) simp
    qed
  next
    case (GG_SubBuffer rc p off n)
    let ?y = "GG_SubBuffer (rc - 1) p off n"
    show ?thesis
    proof (cases "rc - 1 = 0")
      case True
      then have z: "count refs b = 0" "subs h b = {}" using c GG_SubBuffer fin by auto
      have "buffers_ok rank (add_mset p refs) (h(b := None))" using free [OF z] GG_SubBuffer by simp
      moreover have "rank p < rank b" using ok x GG_SubBuffer by (auto simp: buffers_ok_def nested_def)
      ultimately obtain h' where h': "GG_Buffer_Release p (h(b := None)) = Some h'" "buffers_ok rank refs h'" "within h' (h(b := None))"
        using less.hyps by blast
      have "GG_Buffer_Release p (h(b \<mapsto> ?y)) = Some (h'(b \<mapsto> ?y))" using Release_frame [OF h'(1), of b ?y] by simp
      moreover have "h' b = None" using within_None [OF h'(3), of b] by simp
      ultimately have "GG_Buffer_Release b h = Some h'"
        using x GG_SubBuffer True by (subst GG_Buffer_Release.simps) (simp add: Let_def fun_upd_idem)
      then show ?thesis using h'(2) within_trans [OF h'(3) within_remove] by blast
    next
      case False
      have "buffers_ok rank refs (h(b \<mapsto> ?y))" using c False GG_SubBuffer by (intro recount) auto
      moreover have "within (h(b \<mapsto> ?y)) h" using x GG_SubBuffer by (intro within_upd) auto
      ultimately show ?thesis using x GG_SubBuffer False by (subst GG_Buffer_Release.simps) (simp add: Let_def)
    qed
  qed
qed


text \<open>A new object that nothing refers to yet.\<close>

lemma buffers_ok_new:
  assumes "buffers_ok rank refs h" and "h a = None" and "parent x = None" and "counter x \<in> {None, Some 1}"
  shows "buffers_ok rank (add_mset a refs) (h(a \<mapsto> x))"
proof -
  have a: "count refs a = 0" using assms(1,2) by (auto simp: buffers_ok_def not_in_iff)
  have no: "h s = Some y \<Longrightarrow> parent y \<noteq> Some a" for s y
    using nested_parent [of rank h s y a] assms(1,2) by (auto simp: buffers_ok_def)
  have subs: "subs (h(a \<mapsto> x)) c = subs h c" for c using assms(2,3) by (intro subs_upd) simp
  have sa: "subs h a = {}" using no by (auto simp: subs_def bind_eq_Some_conv)
  show ?thesis using assms a no unfolding buffers_ok_def counted_def nested_def by (auto simp: subs sa)
qed

text \<open>A new sub-buffer takes over one reference to its parent.\<close>

lemma buffers_ok_sub:
  assumes ok: "buffers_ok rank (add_mset p refs) h" and "h a = None"
  shows "buffers_ok (rank(a := Suc (rank p))) (add_mset a refs) (h(a \<mapsto> GG_SubBuffer 1 p off n))"
proof -
  have p: "h p \<noteq> None" "p \<noteq> a" using assms by (auto simp: buffers_ok_def)
  have fin: "finite (dom h)" using ok by (simp add: buffers_ok_def)
  have a: "count refs a = 0" using assms p by (auto simp: buffers_ok_def not_in_iff)
  have no: "h s = Some y \<Longrightarrow> parent y \<noteq> Some a" for s y
    using nested_parent [of rank h s y a] assms by (auto simp: buffers_ok_def)
  have subs: "subs (h(a \<mapsto> GG_SubBuffer 1 p off n)) c = (if c = p then insert a (subs h c) else subs h c)" for c
    using assms(2) by (auto simp: subs_def)
  have sa: "subs h a = {}" and na: "a \<notin> subs h p" using no assms(2) by (auto simp: subs_def bind_eq_Some_conv)
  have old: "unat rc = count refs b + card (subs (h(a \<mapsto> GG_SubBuffer 1 p off n)) b) \<and> rc \<noteq> 0"
    if "h b = Some x" "counter x = Some rc" for b x rc
  proof -
    have "unat rc = count (add_mset p refs) b + card (subs h b) \<and> rc \<noteq> 0"
      using ok [unfolded buffers_ok_def counted_def] that by blast
    then show ?thesis using fin na by (auto simp: subs)
  qed
  have "counted (add_mset a refs) (h(a \<mapsto> GG_SubBuffer 1 p off n))"
    unfolding counted_def using old p a assms(2) by (auto simp: subs sa)
  moreover have "nested (rank(a := Suc (rank p))) (h(a \<mapsto> GG_SubBuffer 1 p off n))"
    using ok p no assms(2) by (auto simp: buffers_ok_def nested_def)
  ultimately show ?thesis using ok by (auto simp: buffers_ok_def)
qed

text \<open>No counted object is left when no reference is held: one of the highest rank would have no sub-buffer.\<close>

lemma buffers_ok_no_leak:
  assumes "buffers_ok rank {#} h" and "h b = Some x"
  shows "counter x = None"
proof (rule ccontr)
  let ?C = "{c. \<exists>y. h c = Some y \<and> counter y \<noteq> None}"
  assume "counter x \<noteq> None"
  then have ne: "b \<in> ?C" using assms(2) by auto
  have fin: "finite ?C" by (rule finite_subset [of _ "dom h"]) (use assms(1) in \<open>auto simp: buffers_ok_def\<close>)
  have "Max (rank ` ?C) \<in> rank ` ?C" using fin ne by (intro Max_in finite_imageI) blast+
  then obtain c where c: "c \<in> ?C" "rank c = Max (rank ` ?C)" by (metis (no_types, lifting) imageE)
  then obtain y rc where y: "h c = Some y" "counter y = Some rc" by auto
  have "unat rc = count {#} c + card (subs h c) \<and> rc \<noteq> 0"
    using assms(1) [unfolded buffers_ok_def counted_def] y by blast
  then have "card (subs h c) \<noteq> 0" by (metis add_0 count_empty unat_eq_zero)
  then obtain s where "s \<in> subs h c" by (metis card_eq_0_iff ex_in_conv)
  then obtain z where z: "h s = Some z" "parent z = Some c" by (auto simp: subs_def bind_eq_Some_conv)
  then have "rank c < rank s" using assms(1) by (auto simp: buffers_ok_def nested_def)
  moreover have "s \<in> ?C" using z by (cases z) auto
  moreover have "rank s \<le> Max (rank ` ?C)" using fin \<open>s \<in> ?C\<close> by (intro Max_ge finite_imageI imageI)
  ultimately show False using c(2) by simp
qed


section \<open>Programs that use buffers\<close>

text \<open>The operations that change a dynamic buffer.\<close>

inductive dynamic_step :: "(nat \<Rightarrow> u8) \<Rightarrow> GG_DynamicBuffer \<Rightarrow> GG_DynamicBuffer \<Rightarrow> bool" for junk where
  "dynamic_step junk d (GG_DynamicBuffer_SetBuffer d buffer)"
| "dynamic_step junk d (snd (GG_DynamicBuffer_SetBufferSize junk d n))"
| "dynamic_step junk d (snd (GG_DynamicBuffer_Reserve junk d n))"
| "dynamic_step junk d (snd (GG_DynamicBuffer_SetDataSize junk d n))"
| "dynamic_step junk d (snd (GG_DynamicBuffer_SetData junk d data))"
| "dynamic_step junk d (snd (GG_DynamicBuffer_AppendData junk d data))"

lemmas dynamic_defs = GG_DynamicBuffer_SetBuffer_def GG_DynamicBuffer_SetBufferSize_def GG_DynamicBuffer_ReallocateBuffer_def
  GG_DynamicBuffer_Reserve_def GG_DynamicBuffer_SetDataSize_def GG_DynamicBuffer_SetData_def GG_DynamicBuffer_AppendData_def

lemma dynamic_step_counter: "dynamic_step junk d d' \<Longrightarrow> reference_counter d' = reference_counter d"
  by (cases rule: dynamic_step.cases) (auto simp: dynamic_defs Let_def split: prod.splits if_splits)

text \<open>
  A program starts with no buffer and holds \<open>refs\<close>. It uses only what it has a reference to, and no counter
  goes over 32 bits.
\<close>

inductive buffers_reachable :: "(nat \<Rightarrow> u8) \<Rightarrow> nat multiset \<Rightarrow> buffer_heap \<Rightarrow> bool" for junk where
  start: "buffers_reachable junk {#} Map.empty"
| static: "buffers_reachable junk refs h \<Longrightarrow> h a = None \<Longrightarrow>
    buffers_reachable junk (add_mset a refs) (GG_StaticBuffer_Init a data h)"
| create: "buffers_reachable junk refs h \<Longrightarrow> h a = None \<Longrightarrow>
    buffers_reachable junk (add_mset a refs) (GG_DynamicBuffer_Create junk a n h)"
| clone: "buffers_reachable junk refs h \<Longrightarrow> h a = None \<Longrightarrow> b \<in># refs \<Longrightarrow> h b = Some (GG_DynamicBuffer d) \<Longrightarrow>
    buffers_reachable junk (add_mset a refs) (snd (GG_DynamicBuffer_Clone junk a d h))"
| sub: "buffers_reachable junk refs h \<Longrightarrow> h a = None \<Longrightarrow> b \<in># refs \<Longrightarrow> count refs b + card (subs h b) + 1 < 2 ^ 32 \<Longrightarrow>
    GG_SubBuffer_Create a b offset n h = Some (GG_SUCCESS, h') \<Longrightarrow> buffers_reachable junk (add_mset a refs) h'"
| retain: "buffers_reachable junk refs h \<Longrightarrow> b \<in># refs \<Longrightarrow> count refs b + card (subs h b) + 1 < 2 ^ 32 \<Longrightarrow>
    GG_Buffer_Retain b h = Some h' \<Longrightarrow> buffers_reachable junk (add_mset b refs) h'"
| release: "buffers_reachable junk (add_mset b refs) h \<Longrightarrow> GG_Buffer_Release b h = Some h' \<Longrightarrow> buffers_reachable junk refs h'"
| change: "buffers_reachable junk refs h \<Longrightarrow> b \<in># refs \<Longrightarrow> h b = Some (GG_DynamicBuffer d) \<Longrightarrow> dynamic_step junk d d' \<Longrightarrow>
    buffers_reachable junk refs (h(b \<mapsto> GG_DynamicBuffer d'))"

lemma Clone_heap:
  "\<exists>d'. snd (GG_DynamicBuffer_Clone junk a d h) = h(a \<mapsto> GG_DynamicBuffer d') \<and> reference_counter d' = 1"
  by (auto simp: GG_DynamicBuffer_Clone_def GG_DynamicBuffer_Create_def dynamic_defs Let_def split: prod.splits if_splits)

lemma Sub_ok:
  assumes "buffers_ok rank refs h" and "h a = None" and "count refs b + card (subs h b) + 1 < 2 ^ 32"
    and "GG_SubBuffer_Create a b offset n h = Some (GG_SUCCESS, h')"
  shows "\<exists>rank. buffers_ok rank (add_mset a refs) h'"
proof -
  obtain h1 where h1: "GG_Buffer_Retain b h = Some h1" "h' = h1(a \<mapsto> GG_SubBuffer 1 b offset n)"
    using assms(4) by (auto simp: GG_SubBuffer_Create_def bind_eq_Some_conv split: if_splits)
  then have "h b \<noteq> None" by (cases "h b") (auto simp: GG_Buffer_Retain_def)
  then have "buffers_ok rank (add_mset b refs) h1" "within h1 h"
    using Retain_ok [OF assms(1) _ assms(3)] h1(1) by auto
  then show ?thesis using buffers_ok_sub within_None assms(2) h1(2) by blast
qed

lemma buffers_reachable_ok: "buffers_reachable junk refs h \<Longrightarrow> \<exists>rank. buffers_ok rank refs h"
proof (induction rule: buffers_reachable.induct)
  case start
  show ?case by (simp add: buffers_ok_def counted_def nested_def)
next
  case static
  then show ?case unfolding GG_StaticBuffer_Init_def by (metis buffers_ok_new counter.simps(1) insertCI parent.simps(2))
next
  case create
  then show ?case unfolding GG_DynamicBuffer_Create_def
    by (metis buffers_ok_new counter.simps(2) insertCI parent.simps(3) GG_DynamicBuffer.select_convs(1))
next
  case (clone refs h a b d)
  then show ?case using Clone_heap [of junk a d h]
    by (metis buffers_ok_new counter.simps(2) insertCI parent.simps(3))
next
  case sub
  then show ?case using Sub_ok by blast
next
  case (retain refs h b h')
  then obtain rank where ok: "buffers_ok rank refs h" by blast
  then have "h b \<noteq> None" using retain by (simp add: buffers_ok_def)
  then show ?case using Retain_ok [OF ok _ retain.hyps(3)] retain.hyps(4) by auto
next
  case (release b refs h h')
  then show ?case using Release_ok by (metis option.inject)
next
  case (change refs h b d d')
  then obtain rank where ok: "buffers_ok rank refs h" by blast
  then have "buffers_ok rank refs (h(b \<mapsto> GG_DynamicBuffer d'))"
    using change dynamic_step_counter [OF change.hyps(4)]
    by (intro buffers_ok_recount [OF ok change.hyps(3)]) (auto simp: buffers_ok_def counted_def)
  then show ?case by blast
qed


text \<open>C39: in every state a program can reach, whatever it created, shared, changed and gave back: each buffer it holds a reference to is
  alive and has data; giving a reference back returns, and every buffer it still holds a reference to has the same data and
  size as before; and once it holds no reference, no dynamic buffer and no sub-buffer is left in memory.\<close>

theorem buffer_references:
  assumes "buffers_reachable junk refs h"
  shows "(\<forall>b. b \<in># refs \<longrightarrow> GG_Buffer_GetData b h \<noteq> None \<and>
            (\<exists>h'. GG_Buffer_Release b h = Some h' \<and> buffers_reachable junk (refs - {#b#}) h' \<and>
              (\<forall>c. c \<in># refs - {#b#} \<longrightarrow> GG_Buffer_GetData c h' \<noteq> None \<and> GG_Buffer_GetData c h' = GG_Buffer_GetData c h \<and>
                GG_Buffer_GetDataSize c h' = GG_Buffer_GetDataSize c h)))
    \<and> (refs = {#} \<longrightarrow> (\<forall>b x. h b = Some x \<longrightarrow> (\<exists>data. x = GG_StaticBuffer data)))"
proof (intro conjI allI impI)
  obtain rank where ok: "buffers_ok rank refs h" using buffers_reachable_ok [OF assms] by blast
  fix b assume b: "b \<in># refs"
  have nested: "nested rank h" "h b \<noteq> None" using ok b by (auto simp: buffers_ok_def)
  then show "GG_Buffer_GetData b h \<noteq> None" using GetData_within [OF nested(1) within_refl nested(2)] by simp
  have add: "add_mset b (refs - {#b#}) = refs" using b by simp
  then obtain h' where h': "GG_Buffer_Release b h = Some h'" "buffers_ok rank (refs - {#b#}) h'" "within h' h"
    using Release_ok [of rank b "refs - {#b#}" h] ok by auto
  have reach: "buffers_reachable junk (refs - {#b#}) h'"
    using buffers_reachable.release [of junk b "refs - {#b#}" h h'] assms h'(1) add by simp
  have "GG_Buffer_GetData c h' \<noteq> None \<and> GG_Buffer_GetData c h' = GG_Buffer_GetData c h \<and>
      GG_Buffer_GetDataSize c h' = GG_Buffer_GetDataSize c h" if "c \<in># refs - {#b#}" for c
  proof -
    have "h' c \<noteq> None" "nested rank h'" using h'(2) that by (auto simp: buffers_ok_def)
    then show ?thesis using GetData_within [OF _ h'(3), of rank c] within_GetDataSize [OF h'(3), of c] by simp
  qed
  with h'(1) reach show "\<exists>h'. GG_Buffer_Release b h = Some h' \<and> buffers_reachable junk (refs - {#b#}) h' \<and>
      (\<forall>c. c \<in># refs - {#b#} \<longrightarrow> GG_Buffer_GetData c h' \<noteq> None \<and> GG_Buffer_GetData c h' = GG_Buffer_GetData c h \<and>
        GG_Buffer_GetDataSize c h' = GG_Buffer_GetDataSize c h)" by blast
next
  obtain rank where ok: "buffers_ok rank refs h" using buffers_reachable_ok [OF assms] by blast
  fix b x assume "refs = {#}" "h b = Some x"
  then have "counter x = None" using buffers_ok_no_leak ok by blast
  then show "\<exists>data. x = GG_StaticBuffer data" by (cases x) auto
qed

text \<open>A buffer of eight bytes with one sub-buffer: the buffer outlives the reference of its creator.\<close>

definition wheap :: buffer_heap where
  "wheap = [5 \<mapsto> GG_DynamicBuffer \<lparr>reference_counter = 2, buffer_is_local = True, db_buffer = [5, 6, 7, 0, 0, 0, 0, 0], data_size = 3\<rparr>,
            2 \<mapsto> GG_SubBuffer 1 5 1 2]"

lemma wheap_reachable: "buffers_reachable (\<lambda>_. 0) {#2, 5#} wheap"
proof -
  let ?d = "\<lparr>reference_counter = 1, buffer_is_local = True, db_buffer = replicate 8 0, data_size = 0\<rparr>"
  let ?d' = "\<lparr>reference_counter = 1, buffer_is_local = True, db_buffer = [5, 6, 7, 0, 0, 0, 0, 0], data_size = 3\<rparr>"
  let ?h = "[5 \<mapsto> GG_DynamicBuffer ?d']"
  have "buffers_reachable (\<lambda>_. 0) {#5#} (GG_DynamicBuffer_Create (\<lambda>_. 0) 5 8 Map.empty)"
    by (intro buffers_reachable.create buffers_reachable.start) simp
  then have "buffers_reachable (\<lambda>_. 0) {#5#} [5 \<mapsto> GG_DynamicBuffer ?d]"
    by (simp add: GG_DynamicBuffer_Create_def map_replicate_const)
  moreover have "dynamic_step (\<lambda>_. 0) ?d ?d'"
    using dynamic_step.intros(5) [of "\<lambda>_. 0" ?d "[5, 6, 7]"]
    by (simp add: dynamic_defs buffer_size_def memcpy_at_def eval_nat_numeral)
  ultimately have reach: "buffers_reachable (\<lambda>_. 0) {#5#} ?h"
    using buffers_reachable.change [of "\<lambda>_. 0" "{#5#}" "[5 \<mapsto> GG_DynamicBuffer ?d]" 5 ?d ?d'] by simp
  have none: "subs ?h 5 = {}" by (auto simp: subs_def)
  have "GG_SubBuffer_Create 2 5 1 2 ?h = Some (GG_SUCCESS, wheap)"
    by (simp add: GG_SubBuffer_Create_def GG_Buffer_GetDataSize_def GG_Buffer_Retain_def wheap_def)
  then have "buffers_reachable (\<lambda>_. 0) (add_mset 2 {#5#}) wheap"
    using reach none by (intro buffers_reachable.sub [of _ "{#5#}" ?h 2 5]) simp_all
  then show ?thesis by simp
qed

theorem buffer_references_witness:
  "\<exists>h'. GG_Buffer_Release 5 wheap = Some h' \<and> GG_Buffer_GetData 2 h' = Some [6, 7, 0, 0, 0, 0, 0]"
proof -
  have "GG_Buffer_GetData 2 wheap = Some [6, 7, 0, 0, 0, 0, 0]"
    by (simp add: wheap_def GG_Buffer_GetData.simps [of 2] GG_Buffer_GetData.simps [of 5])
  then show ?thesis using conjunct1 [OF buffer_references [OF wheap_reachable], THEN spec [of _ 5]] by auto
qed

section \<open>The contents of a dynamic buffer\<close>

definition contents :: "GG_DynamicBuffer \<Rightarrow> bytes" where
  "contents d = take (data_size d) (db_buffer d)"

definition dynamic_ok :: "GG_DynamicBuffer \<Rightarrow> bool" where
  "dynamic_ok d \<longleftrightarrow> data_size d \<le> buffer_size d"

lemma Reallocate_contents:
  assumes "dynamic_ok d" and "data_size d \<le> n"
  shows "\<exists>d'. GG_DynamicBuffer_ReallocateBuffer junk d n = (GG_SUCCESS, d') \<and> contents d' = contents d \<and> buffer_size d' = n \<and>
    data_size d' = data_size d \<and> buffer_is_local d' = buffer_is_local d"
  using assms by (simp add: GG_DynamicBuffer_ReallocateBuffer_def dynamic_ok_def buffer_size_def contents_def memcpy_at_def)

lemma grown_size_ge: "n \<le> grown_size old n"
  by (simp add: grown_size_def Let_def)

lemma Reserve_contents:
  assumes "dynamic_ok d" and "buffer_is_local d \<or> n \<le> buffer_size d"
  shows "\<exists>d'. GG_DynamicBuffer_Reserve junk d n = (GG_SUCCESS, d') \<and> contents d' = contents d \<and> n \<le> buffer_size d' \<and>
    data_size d' = data_size d \<and> dynamic_ok d'"
proof (cases "n \<le> buffer_size d")
  case False
  then have "data_size d \<le> grown_size (buffer_size d) n" using assms(1) grown_size_ge [of n "buffer_size d"] by (simp add: dynamic_ok_def)
  from Reallocate_contents [OF assms(1) this, of junk] show ?thesis
    using False assms(2) grown_size_ge [of n "buffer_size d"] \<open>data_size d \<le> grown_size (buffer_size d) n\<close>
    by (auto simp: GG_DynamicBuffer_Reserve_def GG_DynamicBuffer_SetBufferSize_def dynamic_ok_def)
qed (use assms in \<open>simp add: GG_DynamicBuffer_Reserve_def\<close>)


lemma SetDataSize_contents:
  assumes "dynamic_ok d" and "buffer_is_local d \<or> n \<le> buffer_size d"
  shows "\<exists>d'. GG_DynamicBuffer_SetDataSize junk d n = (GG_SUCCESS, d') \<and> length (contents d') = n \<and>
    take (data_size d) (contents d') = take n (contents d) \<and> dynamic_ok d'"
proof (cases "n \<le> buffer_size d")
  case True
  then show ?thesis using assms(1)
    by (auto simp: GG_DynamicBuffer_SetDataSize_def dynamic_ok_def buffer_size_def contents_def min.commute)
next
  case False
  then have n: "data_size d \<le> n" using assms(1) by (simp add: dynamic_ok_def)
  obtain d' where "GG_DynamicBuffer_ReallocateBuffer junk d n = (GG_SUCCESS, d')" "contents d' = contents d" "buffer_size d' = n"
    "data_size d' = data_size d"
    using Reallocate_contents [OF assms(1) n, of junk] by blast
  then show ?thesis using False assms(2) n
    by (auto simp: GG_DynamicBuffer_SetDataSize_def dynamic_ok_def buffer_size_def contents_def min_def)
qed

lemma SetData_contents:
  assumes "dynamic_ok d" and "buffer_is_local d \<or> length data \<le> buffer_size d"
  shows "\<exists>d'. GG_DynamicBuffer_SetData junk d data = (GG_SUCCESS, d') \<and> contents d' = data \<and> dynamic_ok d'"
proof (cases "length data \<le> buffer_size d")
  case False
  then have n: "data_size d \<le> length data" using assms(1) by (simp add: dynamic_ok_def)
  obtain d' where "GG_DynamicBuffer_ReallocateBuffer junk d (length data) = (GG_SUCCESS, d')" "buffer_size d' = length data"
    using Reallocate_contents [OF assms(1) n, of junk] by blast
  then show ?thesis using False assms(2)
    by (auto simp: GG_DynamicBuffer_SetData_def dynamic_ok_def buffer_size_def contents_def memcpy_at_def)
qed (auto simp: GG_DynamicBuffer_SetData_def dynamic_ok_def buffer_size_def contents_def memcpy_at_def)

lemma AppendData_contents:
  assumes "dynamic_ok d" and "buffer_is_local d \<or> data_size d + length data \<le> buffer_size d" and "data_size d + length data < 2 ^ 64"
  shows "\<exists>d'. GG_DynamicBuffer_AppendData junk d data = (GG_SUCCESS, d') \<and> contents d' = contents d @ data \<and> dynamic_ok d'"
proof -
  obtain d' where "GG_DynamicBuffer_Reserve junk d (data_size d + length data) = (GG_SUCCESS, d')" "contents d' = contents d"
    "data_size d + length data \<le> buffer_size d'" "data_size d' = data_size d"
    using Reserve_contents [OF assms(1,2)] by blast
  then show ?thesis using assms(1,3)
    by (simp add: GG_DynamicBuffer_AppendData_def dynamic_ok_def buffer_size_def contents_def memcpy_at_def Let_def)
qed

text \<open>C40: the contents of a dynamic buffer are a list of bytes. When the memory is the buffer's own, or is large enough: setting the data gives that data, appending gives the old contents
  with the data after them, reserving keeps the contents and makes the room, and a new data size keeps the common prefix. When
  external memory is too small the buffer is unchanged and the error is the one of the operation. A clone has the same contents.\<close>

theorem dynamic_buffer_contents:
  assumes "data_size d \<le> buffer_size d" and "data_size d + length data < 2 ^ 64"
  shows "(buffer_is_local d \<or> length data \<le> buffer_size d \<longrightarrow>
           (\<exists>d'. GG_DynamicBuffer_SetData junk d data = (GG_SUCCESS, d') \<and> contents d' = data))
    \<and> (buffer_is_local d \<or> data_size d + length data \<le> buffer_size d \<longrightarrow>
           (\<exists>d'. GG_DynamicBuffer_AppendData junk d data = (GG_SUCCESS, d') \<and> contents d' = contents d @ data))
    \<and> (buffer_is_local d \<or> n \<le> buffer_size d \<longrightarrow>
           (\<exists>d'. GG_DynamicBuffer_Reserve junk d n = (GG_SUCCESS, d') \<and> contents d' = contents d \<and> n \<le> buffer_size d')
         \<and> (\<exists>d'. GG_DynamicBuffer_SetDataSize junk d n = (GG_SUCCESS, d') \<and> length (contents d') = n \<and>
             take (data_size d) (contents d') = take n (contents d)))
    \<and> (\<not> buffer_is_local d \<longrightarrow>
           (buffer_size d < length data \<longrightarrow> GG_DynamicBuffer_SetData junk d data = (GG_ERROR_OUT_OF_RESOURCES, d))
         \<and> (buffer_size d < data_size d + length data \<longrightarrow> GG_DynamicBuffer_AppendData junk d data = (GG_ERROR_NOT_SUPPORTED, d))
         \<and> (buffer_size d < n \<longrightarrow> GG_DynamicBuffer_Reserve junk d n = (GG_ERROR_NOT_SUPPORTED, d)
             \<and> GG_DynamicBuffer_SetDataSize junk d n = (GG_ERROR_NOT_SUPPORTED, d)))
    \<and> (\<exists>d'. GG_DynamicBuffer_Clone junk a d h = (GG_SUCCESS, h(a \<mapsto> GG_DynamicBuffer d')) \<and> contents d' = contents d)"
proof -
  have ok: "dynamic_ok d" using assms(1) by (simp add: dynamic_ok_def)
  have clone: "\<exists>d'. GG_DynamicBuffer_Clone junk a d h = (GG_SUCCESS, h(a \<mapsto> GG_DynamicBuffer d')) \<and> contents d' = contents d"
    using assms(1)
    by (intro exI [of _ "\<lparr>reference_counter = 1, buffer_is_local = True, db_buffer = contents d, data_size = data_size d\<rparr>"])
      (simp add: GG_DynamicBuffer_Clone_def GG_DynamicBuffer_Create_def GG_DynamicBuffer_SetData_def
        buffer_size_def contents_def memcpy_at_def)
  have ext: "\<not> buffer_is_local d \<Longrightarrow>
      (buffer_size d < length data \<longrightarrow> GG_DynamicBuffer_SetData junk d data = (GG_ERROR_OUT_OF_RESOURCES, d))
    \<and> (buffer_size d < data_size d + length data \<longrightarrow> GG_DynamicBuffer_AppendData junk d data = (GG_ERROR_NOT_SUPPORTED, d))
    \<and> (buffer_size d < n \<longrightarrow> GG_DynamicBuffer_Reserve junk d n = (GG_ERROR_NOT_SUPPORTED, d)
        \<and> GG_DynamicBuffer_SetDataSize junk d n = (GG_ERROR_NOT_SUPPORTED, d))"
    using assms(2) by (simp add: dynamic_defs)
  show ?thesis
    using SetData_contents [OF ok, of data junk] AppendData_contents [OF ok _ assms(2), of junk] Reserve_contents [OF ok, of n junk]
      SetDataSize_contents [OF ok, of n junk] ext clone by blast
qed

theorem dynamic_buffer_contents_witness:
  "\<exists>d'. GG_DynamicBuffer_AppendData (\<lambda>_. 9) \<lparr>reference_counter = 1, buffer_is_local = True, db_buffer = [1, 2, 3], data_size = 2\<rparr> [7, 8]
     = (GG_SUCCESS, d') \<and> contents d' = [1, 2, 7, 8]"
  using dynamic_buffer_contents
    [of "\<lparr>reference_counter = 1, buffer_is_local = True, db_buffer = [1, 2, 3], data_size = 2\<rparr>" "[7, 8]" "\<lambda>_. 9"]
  by (simp add: contents_def buffer_size_def)

text \<open>The checks of ranges: the sum of offset and size of a sub-buffer wraps, and a range outside of the data is accepted.\<close>

lemma sub_buffer_range_wraps:
  "\<exists>h'. GG_SubBuffer_Create 2 5 (2 ^ 64 - 1) 2 [5 \<mapsto> GG_StaticBuffer [1, 2]] = Some (GG_SUCCESS, h')"
  by (simp add: GG_SubBuffer_Create_def GG_Buffer_GetDataSize_def GG_Buffer_Retain_def)


text \<open>A sub-buffer of an immutable buffer: the pointer for writing is not null.\<close>

lemma sub_buffer_of_static_not_null:
  "GG_Buffer_UseData 2 [5 \<mapsto> GG_StaticBuffer [1, 2], 2 \<mapsto> GG_SubBuffer 1 5 1 1] = Some (Null_Plus 1)"
  by (simp add: GG_Buffer_UseData.simps [of 2] GG_Buffer_UseData.simps [of 5])

text \<open>A dynamic buffer shrinks under a sub-buffer, which then extends past the memory.\<close>

lemma sub_buffer_outlives_data:
  "GG_Buffer_GetDataSize 2 [5 \<mapsto> GG_DynamicBuffer (GG_DynamicBuffer_SetBuffer d [9]), 2 \<mapsto> GG_SubBuffer 1 5 1 2] = Some 2
    \<and> GG_Buffer_GetData 2 [5 \<mapsto> GG_DynamicBuffer (GG_DynamicBuffer_SetBuffer d [9]), 2 \<mapsto> GG_SubBuffer 1 5 1 2] = Some []"
  by (simp add: GG_Buffer_GetDataSize_def GG_DynamicBuffer_SetBuffer_def GG_Buffer_GetData.simps [of 2] GG_Buffer_GetData.simps [of 5])

end
