(* ===== verification/Spec2Isabelle.thy ===== *)
theory Spec2Isabelle
  imports Timer Codecs Ipv4_Props Gattlink_Correctness Coap_Util_Props Coap_Blockwise_Upload
    Coap_Endpoint_Client Coap_Splitter Serial_Transport_Props Nip_Props Strings Buffers
begin

text \<open>
  Golden Gate connects small devices to phones: IP packets, and CoAP above them, travel over a Bluetooth link. This development
  models the portable core under \<^verbatim>\<open>src/xp\<close> and proves what its parts promise to each other. All file names below are
  relative to that directory.

  \<^bold>\<open>The program and its parts.\<close> From the bottom to the top of the stack:

  \<^item> Gattlink (\<^verbatim>\<open>gattlink/gg_gattlink.c\<close>) makes a reliable byte stream out of a link that loses packets: a sliding window with
    5-bit serial numbers, acknowledgements, retransmissions and a handshake. It calls its client for the bytes to send.
  \<^item> The generic client (\<^verbatim>\<open>gattlink/gg_gattlink_generic_client.c\<close>) keeps the bytes to send in a ring buffer
    (\<^verbatim>\<open>common/gg_ring_buffer.c\<close>), cuts the received stream into frames with a frame assembler and passes frames between a
    transport and a user, both data sinks. Timers come from the scheduler (\<^verbatim>\<open>common/gg_timer.c\<close>).
  \<^item> IPv4 framing (\<^verbatim>\<open>protocols/gg_ipv4_protocol.c\<close>) provides the assembler and the serializer of frames that are IP packets,
    with header compression written through bit streams (\<^verbatim>\<open>common/gg_bitstream.c\<close>).
  \<^item> The nano IP stack (\<^verbatim>\<open>nip/gg_nip.c\<close>) offers UDP sockets over one network interface.
  \<^item> CoAP: messages (\<^verbatim>\<open>coap/gg_coap_message.c\<close>), utilities (\<^verbatim>\<open>coap/gg_coap.c\<close>), the endpoint with its requests,
    handlers and retransmission timers (\<^verbatim>\<open>coap/gg_coap_endpoint.c\<close>), filters and handlers that plug into it
    (\<^verbatim>\<open>coap/gg_coap_filters.c\<close>, \<^verbatim>\<open>coap/handlers\<close>), and blockwise transfers (\<^verbatim>\<open>coap/gg_coap_blockwise.c\<close>).
  \<^item> Codecs (\<^verbatim>\<open>common/gg_utils.c\<close>, \<^verbatim>\<open>common/gg_crc32.c\<close>) and the serial transport of the remote shell
    (\<^verbatim>\<open>remote/transport/serial\<close>).

  \<^bold>\<open>How the code is modelled.\<close> Theory \<open>GG_Prelude\<close> holds the shared vocabulary: 8, 16 and 32 bit words, result codes, copies
  between byte arrays. A struct is a record, a function of the code is a definition of the same name that returns the
  changed record, an error is a value of \<open>GG_Result\<close>. A failed \<^verbatim>\<open>GG_ASSERT\<close>, an access outside an array and a loop that
  never ends are \<open>None\<close>, so that a theorem about a \<open>Some\<close> says that none of them happens. Objects that
  the code reaches through interfaces (sinks, listeners, frame assemblers, handlers, buffer sources) are parameters with a
  state of their own, whose contracts are locales:

  \<^item> \<open>byte_queue\<close> (theory \<open>Ring_Buffer\<close>): a bounded byte queue, interpreted by the ring buffer.
  \<^item> \<open>gattlink_client\<close>, \<open>gattlink_client_connected\<close> (\<open>Gattlink_Sender\<close>) and \<open>gattlink_receiver\<close> (\<open>Gattlink_Delivery\<close>):
    what Gattlink asks of its client. \<open>assembler_contract\<close> and \<open>framing\<close> (\<open>Gattlink_Client\<close>, \<open>Gattlink_Session\<close>) are what
    the generic client asks of the framing; a sublocale shows that the client then meets the contract of Gattlink. \<open>Ipv4_Link\<close> and
    \<open>Gattlink_Network\<close> interpret them with the IPv4 assembler and serializer.
  \<^item> \<open>coap_block_source\<close> (\<open>Coap_Blockwise\<close>): a source of blocks, interpreted by the source of a static buffer.
  \<^item> \<open>coap_request_handler\<close>, \<open>coap_request_filter\<close> (\<open>Coap_Endpoint_Correctness\<close>): what the endpoint asks of handlers and
    filters, interpreted by the group filter and the hello world handler (\<open>Coap_Handlers\<close>) and by the splitter.

  \<^bold>\<open>Theories and what they show.\<close>

  \<^item> \<open>Ring_Buffer\<close>: the ring buffer implements a bounded first-in first-out queue, direct access included.
  \<^item> \<open>Timer\<close>: timers fire exactly when they are due, in the order of their deadlines, whatever their listeners do to other timers; the
    pool of 32 timers; deadlines at the end of the 32-bit clock.
  \<^item> \<open>Byte_Order\<close>, \<open>Bitstream\<close>, \<open>Codecs\<close>, \<open>Crc32\<close>: integers, bit streams, hexadecimal, Base64 and varints survive
    encoding and decoding; the table-driven checksum is the remainder of the shift register, and detects every burst of four bytes.
  \<^item> \<open>Strings\<close> (\<^verbatim>\<open>common/gg_strings.c\<close>): heap strings implement lists of characters, for editing and for search.
  \<^item> \<open>Buffers\<close> (\<^verbatim>\<open>common/gg_buffer.c\<close>): buffers with reference counts in a heap; what is held is alive, what is not held is
    freed, and dynamic buffers implement lists of bytes.
  \<^item> \<open>Ipv4\<close> holds the operations of the IPv4 module; \<open>Ipv4_Headers\<close>, \<open>Ipv4_Compression\<close>, \<open>Ipv4_Framing\<close>,
    \<open>Ipv4_Link\<close>, \<open>Ipv4_Props\<close>: headers and checksums, what header compression keeps, and a stream of packets comes out
    of the assembler in order, however it is cut: as it went in without compression, with the headers that compression leaves otherwise.
  \<^item> \<open>Gattlink\<close> and \<open>Gattlink_Client\<close> hold the operations; \<open>Gattlink_Sender\<close> (the window), \<open>Gattlink_Props\<close> (every handler
    returns and keeps the invariant), \<open>Gattlink_Session\<close> (any sequence of calls), \<open>Gattlink_Delivery\<close>,
    \<open>Gattlink_Link\<close> and \<open>Gattlink_Network\<close> (one direction, two endpoints, two clients joined by a lossy transport) lead to
    \<open>Gattlink_Correctness\<close>: frames are delivered in order, without loss or repetition, over every interleaving of
    calls, timers and losses, and what is acknowledged was delivered.
  \<^item> \<open>Coap_Message\<close>, \<open>Coap_Message_Props\<close>: building and parsing are inverse, options are found, no read leaves the datagram.
    \<open>Coap_Util\<close>, \<open>Coap_Util_Props\<close>: paths, queries and extended errors.
  \<^item> \<open>Coap_Blockwise\<close>, \<open>Coap_Blockwise_Client\<close>, \<open>Coap_Blockwise_Props\<close>, \<open>Coap_Blockwise_Transfer\<close>, \<open>Coap_Blockwise_Upload\<close>:
    downloads and uploads deliver exactly the data, also when requests arrive in several copies.
  \<^item> \<open>Coap_Endpoint\<close> holds the operations of the endpoint. \<open>Coap_Endpoint_Props\<close>, \<open>Coap_Endpoint_Run\<close>, \<open>Coap_Dispatch\<close>,
    \<open>Coap_Endpoint_Correctness\<close>: every operation returns and keeps the invariant between requests, timers and listeners.
    \<open>Coap_Endpoint_Execution\<close>: runs, and that every request ends. \<open>Coap_Endpoint_Client\<close>: responses reach their request.
    \<open>Coap_Endpoint_Server\<close>: requests are answered as the reference definition says (a property where the
    documentation of the paths and the code agree, a lemma for all paths), responses wait in order. \<open>Coap_Handlers\<close>,
    \<open>Coap_Splitter\<close>: the objects around the endpoint.
  \<^item> \<open>Nip\<close>, \<open>Nip_Props\<close>: packets of the nano IP stack are valid and reach the right socket; ports are unique.
  \<^item> \<open>Serial_Parser\<close>, \<open>Serial_Transport\<close>, \<open>Serial_Transport_Props\<close>: frames of the serial link, damage and retries.

  Lemmas next to the properties record where the code departs from its intention: inputs that fail an assertion, read past a
  packet, stall a session or lose data.

  \<^bold>\<open>Bounds and loops.\<close> Loops over lists are recursive functions; loops that could run for ever in C are
  \<^verbatim>\<open>partial_function\<close>s in the option type (the send loop of Gattlink, the feeding loop of its client, the loop that fires
  timers, the loops over CoAP options, the loop that sends requests), and the theorems prove that they return. Nothing is
  cut off by fuel. Bounds in hypotheses are those of the code: 32 serial numbers, of which windows up to 16
  can be told apart; 32 timers; 16 waiting responses; block numbers below 2 to the 28th, block sizes of 16 to 1024; packets of
  at most 65535 bytes; serial frames of at most 512 bytes; 16383 dynamic ports.

  \<^bold>\<open>Not modelled.\<close> Allocation is assumed to succeed, except where the code limits a pool. The components
  take the bytes of a buffer as a list and leave its reference count to \<open>Buffers\<close>. Thread hand-over in the event loop
  (\<^verbatim>\<open>loop\<close>) and locks are left out: calls are made one after the other, from one thread. Sockets, the lwIP interface and TLS are glue to code outside the repository; the stack builder only connects
  the parts. Logging, inspection, diagnostics, probes, tools, samples and the bindings for other languages have no effect on
  the protocols. In the serial port, the interrupt handler and the waits of the operating system are the
  list of events of the model.
\<close>

end
